(* ===== verification/Prelude.thy ===== *)
theory Prelude
  imports Main "HOL-Library.Word"
begin

text \<open>
  What the component theories share: the names of the Windows integer types,
  results with errors as values, byte strings overwritten at an offset, the
  C-locale case folding the library relies on for header names and error
  codes, decimal numbers as \<open>FmtNum\<close> and \<open>Format\<close> write them, and the
  collections of simplification rules the components add to.
\<close>

section \<open>Machine types\<close>

type_synonym BYTE = "8 word"
type_synonym DWORD = "32 word"
type_synonym ULONGLONG = "64 word"
type_synonym FILETIME = "64 word"

named_theorems res_simps "unfolding of results"
named_theorems model_simps "unfolding of the model's small accessors"

section \<open>Results\<close>

text \<open>Errors are values: \<open>Inl\<close> is the thrown or returned error, \<open>Inr\<close> the result.\<close>

definition res_bind :: "'e + 'a \<Rightarrow> ('a \<Rightarrow> 'e + 'b) \<Rightarrow> 'e + 'b" where
  "res_bind r f = (case r of Inl e \<Rightarrow> Inl e | Inr x \<Rightarrow> f x)"

lemma res_bind_simps [simp]:
  "res_bind (Inl e) f = Inl e"
  "res_bind (Inr x) f = f x"
  by (simp_all add: res_bind_def)

lemma res_bind_eq_Inr [res_simps]:
  "res_bind r f = Inr y \<longleftrightarrow> (\<exists>x. r = Inr x \<and> f x = Inr y)"
  by (cases r) auto

lemma res_bind_eq_Inl [res_simps]:
  "res_bind r f = Inl e \<longleftrightarrow> r = Inl e \<or> (\<exists>x. r = Inr x \<and> f x = Inl e)"
  by (cases r) auto

section \<open>Lists overwritten at an offset\<close>

definition write_at :: "nat \<Rightarrow> 'a list \<Rightarrow> 'a list \<Rightarrow> 'a list" where
  "write_at off ys xs = take off xs @ ys @ drop (off + length ys) xs"

lemma length_write_at [simp]:
  "off + length ys \<le> length xs \<Longrightarrow> length (write_at off ys xs) = length xs"
  by (simp add: write_at_def)

lemma take_write_at_before:
  "n \<le> off \<Longrightarrow> off + length ys \<le> length xs \<Longrightarrow> take n (write_at off ys xs) = take n xs"
  by (simp add: write_at_def min_def)

lemma take_drop_write_at:
  "off + length ys \<le> length xs \<Longrightarrow> take (length ys) (drop off (write_at off ys xs)) = ys"
  by (simp add: write_at_def)

lemma take_write_at_upto:
  "off + length ys \<le> length xs \<Longrightarrow>
   take (off + length ys) (write_at off ys xs) = take off xs @ ys"
  by (simp add: write_at_def)

lemma drop_write_at_after:
  "off + length ys \<le> n \<Longrightarrow> off + length ys \<le> length xs \<Longrightarrow>
   drop n (write_at off ys xs) = drop n xs"
  by (simp add: write_at_def)

lemma take_write_at:
  "off + length ys \<le> n \<Longrightarrow> n \<le> length xs \<Longrightarrow>
   take n (write_at off ys xs) = write_at off ys (take n xs)"
  by (cases "n = off") (auto simp: write_at_def min_def take_drop)

lemma write_at_all [simp]: "length ys = length xs \<Longrightarrow> write_at 0 ys xs = ys"
  by (simp add: write_at_def)

lemma write_at_Nil [simp]: "write_at off [] xs = xs"
  by (simp add: write_at_def)

lemma nth_write_at:
  "off + length ys \<le> length xs \<Longrightarrow> i < length xs \<Longrightarrow>
   write_at off ys xs ! i =
     (if off \<le> i \<and> i < off + length ys then ys ! (i - off) else xs ! i)"
  by (auto simp: write_at_def nth_append min_def)

section \<open>Windows errors\<close>

definition ERROR_INVALID_DATA :: DWORD where "ERROR_INVALID_DATA = 13"
definition ERROR_OPERATION_ABORTED :: DWORD where "ERROR_OPERATION_ABORTED = 995"
definition WAIT_TIMEOUT :: DWORD where "WAIT_TIMEOUT = 258"

section \<open>Characters of the C locale\<close>

definition char_code :: "char \<Rightarrow> nat" where
  "char_code c = (of_char c :: nat)"

definition is_upper_ascii :: "char \<Rightarrow> bool" where
  "is_upper_ascii c \<longleftrightarrow> 65 \<le> char_code c \<and> char_code c \<le> 90"

definition is_lower_ascii :: "char \<Rightarrow> bool" where
  "is_lower_ascii c \<longleftrightarrow> 97 \<le> char_code c \<and> char_code c \<le> 122"

definition is_digit_ascii :: "char \<Rightarrow> bool" where
  "is_digit_ascii c \<longleftrightarrow> 48 \<le> char_code c \<and> char_code c \<le> 57"

definition is_alnum_ascii :: "char \<Rightarrow> bool" where
  "is_alnum_ascii c \<longleftrightarrow> is_upper_ascii c \<or> is_lower_ascii c \<or> is_digit_ascii c"

text \<open>\<open>isspace\<close> of the C library.\<close>

definition is_space_c :: "char \<Rightarrow> bool" where
  "is_space_c c \<longleftrightarrow> char_code c = 32 \<or> (9 \<le> char_code c \<and> char_code c \<le> 13)"

definition to_lower :: "char \<Rightarrow> char" where
  "to_lower c = (if is_upper_ascii c then char_of (char_code c + 32) else c)"

definition lower_str :: "string \<Rightarrow> string" where
  "lower_str s = map to_lower s"

lemma char_code_char_of: "n < 256 \<Longrightarrow> char_code (char_of n) = n"
  by (simp add: char_code_def)

lemma char_code_less [simp]: "char_code c < 256"
  unfolding char_code_def using nat_of_char_less_256 [of c] by simp

lemma char_code_inject: "char_code c = char_code d \<longleftrightarrow> c = d"
  by (simp add: char_code_def)

lemma to_lower_idem [simp]: "to_lower (to_lower c) = to_lower c"
  by (auto simp: to_lower_def is_upper_ascii_def char_code_char_of)

lemma lower_str_idem [simp]: "lower_str (lower_str s) = lower_str s"
  by (simp add: lower_str_def)

lemma lower_str_append [simp]: "lower_str (s @ t) = lower_str s @ lower_str t"
  by (simp add: lower_str_def)

lemma length_lower_str [simp]: "length (lower_str s) = length s"
  by (simp add: lower_str_def)

section \<open>Decimal numbers\<close>

fun decimal :: "nat \<Rightarrow> string" where
  "decimal n = (if n < 10 then [char_of (48 + n)]
                else decimal (n div 10) @ [char_of (48 + n mod 10)])"

declare decimal.simps [simp del]

definition undecimal_step :: "nat \<Rightarrow> char \<Rightarrow> nat" where
  "undecimal_step acc c = 10 * acc + (char_code c - 48)"

definition undecimal :: "string \<Rightarrow> nat" where
  "undecimal s = foldl undecimal_step 0 s"

lemma undecimal_decimal [simp]: "undecimal (decimal n) = n"
proof (induction n rule: decimal.induct)
  case (1 n)
  then show ?case
    by (subst decimal.simps)
      (auto simp: undecimal_def undecimal_step_def char_code_char_of)
qed

lemma decimal_inject [simp]: "decimal m = decimal n \<longleftrightarrow> m = n"
  using undecimal_decimal by metis

lemma decimal_digits: "c \<in> set (decimal n) \<Longrightarrow> is_digit_ascii c"
proof (induction n rule: decimal.induct)
  case (1 n)
  then show ?case
    by (subst (asm) (2) decimal.simps)
      (auto simp: is_digit_ascii_def char_code_char_of split: if_splits)
qed

lemma decimal_not_Nil [simp]: "decimal n \<noteq> []"
  by (subst decimal.simps) simp

lemma length_decimal: "n < 10 ^ Suc k \<Longrightarrow> length (decimal n) \<le> Suc k"
proof (induction n arbitrary: k rule: decimal.induct)
  case (1 n)
  show ?case
  proof (cases "n < 10")
    case False
    then obtain j where k: "k = Suc j" using "1.prems" by (cases k) auto
    then have "n div 10 < 10 ^ Suc j" using "1.prems" by (simp add: less_mult_imp_div_less)
    then have "length (decimal (n div 10)) \<le> Suc j" using "1.IH" False by blast
    then show ?thesis using False k by (subst decimal.simps) simp
  qed (subst decimal.simps, simp)
qed

section \<open>CString operations\<close>

text \<open>\<open>CString::Find\<close> of a string, from a position, and of a character; \<open>None\<close> is -1.\<close>

fun str_find :: "string \<Rightarrow> string \<Rightarrow> nat option" where
  "str_find p [] = (if p = [] then Some 0 else None)"
| "str_find p (c # s) =
     (if take (length p) (c # s) = p then Some 0 else map_option Suc (str_find p s))"

definition str_find_from :: "string \<Rightarrow> nat \<Rightarrow> string \<Rightarrow> nat option" where
  "str_find_from p i s = map_option (\<lambda>k. i + k) (str_find p (drop i s))"

definition find_char :: "char \<Rightarrow> string \<Rightarrow> nat option" where
  "find_char c s = str_find [c] s"

text \<open>\<open>CString::ReverseFind\<close>.\<close>

definition rfind_char :: "char \<Rightarrow> string \<Rightarrow> nat option" where
  "rfind_char c s = map_option (\<lambda>k. length s - Suc k) (find_char c (rev s))"

definition str_left :: "nat \<Rightarrow> string \<Rightarrow> string" where "str_left n s = take n s"

definition str_mid :: "nat \<Rightarrow> string \<Rightarrow> string" where "str_mid n s = drop n s"

text \<open>\<open>CString::CompareNoCase\<close> as equality.\<close>

definition eq_nocase :: "string \<Rightarrow> string \<Rightarrow> bool" where
  "eq_nocase s t \<longleftrightarrow> lower_str s = lower_str t"

lemma str_find_Some:
  "str_find p s = Some n \<Longrightarrow> take (length p) (drop n s) = p \<and> n + length p \<le> length s"
proof (induction s arbitrary: n)
  case (Cons c s)
  show ?case
  proof (cases "take (length p) (c # s) = p")
    case True
    then have "length p \<le> length (c # s)" by (metis length_take min.cobounded1)
    then show ?thesis using True Cons.prems by auto
  next
    case False
    then obtain m where "str_find p s = Some m" "n = Suc m" using Cons.prems by (auto split: if_splits)
    then show ?thesis using Cons.IH by simp
  qed
qed (auto split: if_splits)

lemma find_char_None: "find_char c s = None \<longleftrightarrow> c \<notin> set s"
  by (induction s) (auto simp: find_char_def)

lemma find_char_Some:
  "find_char c s = Some n \<Longrightarrow> n < length s \<and> s ! n = c \<and> c \<notin> set (take n s)"
proof (induction s arbitrary: n)
  case (Cons d s)
  then show ?case by (cases "d = c") (auto simp: find_char_def)
qed (simp add: find_char_def)

lemma find_char_append:
  "c \<notin> set s \<Longrightarrow> find_char c (s @ c # t) = Some (length s)"
  by (induction s) (auto simp: find_char_def)

lemma rfind_char_append:
  "c \<notin> set t \<Longrightarrow> rfind_char c (s @ c # t) = Some (length s)"
  using find_char_append [of c "rev t" "rev s"] by (simp add: rfind_char_def)

lemma rfind_char_None: "rfind_char c s = None \<longleftrightarrow> c \<notin> set s"
  by (simp add: rfind_char_def find_char_None)

lemma eq_nocase_refl [simp]: "eq_nocase s s"
  by (simp add: eq_nocase_def)

lemma eq_nocase_length: "length s \<noteq> length t \<Longrightarrow> \<not> eq_nocase s t"
  unfolding eq_nocase_def by (metis length_lower_str)

section \<open>Words\<close>

lemma unat_bound: "unat (x :: 'a::len word) < 2 ^ LENGTH('a)"
  by (rule unsigned_less)

lemma unat_bound32: "unat (x :: 32 word) < 4294967296"
  using unat_bound [of x] by simp

lemma unat_bound64: "unat (x :: 64 word) < 18446744073709551616"
  using unat_bound [of x] by simp

lemma unat_of_nat32: "n < 4294967296 \<Longrightarrow> unat (of_nat n :: 32 word) = n"
  by (simp add: unat_of_nat take_bit_nat_eq_self)

lemma unat_plus_one:
  fixes i :: "'a::len word"
  assumes "i \<noteq> -1"
  shows "unat (i + 1) = Suc (unat i)"
proof -
  have "1 + i \<noteq> 0" using assms by (metis add.commute add_eq_0_iff)
  then show ?thesis using unatSuc [of i] by (simp add: add.commute)
qed

lemma unat_add_no_wrap:
  fixes x y :: "'a::len word"
  assumes "unat x + unat y < 2 ^ LENGTH('a)"
  shows "unat (x + y) = unat x + unat y"
  using assms by (simp add: unat_word_ariths)

section \<open>Streams\<close>

text \<open>An entry of the queue of a stream.\<close>

record stream_entry =
  se_Data :: string
  se_bLast :: bool
  se_ullOffset :: ULONGLONG

end
