(* ===== verification/Buffer.thy ===== *)
theory Buffer
  imports Prelude
begin

text \<open>
  The reference counted byte buffer \<open>CBuffer\<close> (src/ECSUtil/cbuffer.h and
  cbuffer.cpp). A \<open>CBuffer\<close> variable is a number; \<open>cb_vars\<close> gives its
  \<open>m_pData\<close> (\<open>None\<close> is \<open>nullptr\<close>), \<open>cb_heap\<close> the block at an address: the
  \<open>CBufferData\<close> header and the payload bytes that HeapAlloc gave out behind it.
  The Windows heap is a parameter: the width of \<open>SIZE_T\<close> and which allocation
  requests succeed. A memcpy, or a header write, that leaves its block is the
  error \<open>CB_FAULT\<close>, so the absence of that error is memory safety.
\<close>

section \<open>State\<close>

record CBufferData =
  m_nSize :: DWORD
  m_nAllocSize :: DWORD
  m_nRefs :: int
  m_bytes :: "BYTE list"

record buf_state =
  cb_heap :: "nat \<Rightarrow> CBufferData option"
  cb_next :: nat
  cb_vars :: "nat \<Rightarrow> nat option"

record heap_env =
  sizet_bits :: nat
  heap_ok :: "nat \<Rightarrow> nat \<Rightarrow> bool"

datatype buf_error = CB_INVALID_ARG | CB_MEMORY | CB_FAULT

definition sizeof_header :: nat where "sizeof_header = 16"

definition ALLOC_INCR_DEFAULT :: nat where "ALLOC_INCR_DEFAULT = 100"

definition size_t :: "heap_env \<Rightarrow> nat \<Rightarrow> nat" where
  "size_t env n = n mod 2 ^ sizet_bits env"

definition buf_init :: buf_state where
  "buf_init = \<lparr> cb_heap = (\<lambda>_. None), cb_next = 0, cb_vars = (\<lambda>_. None) \<rparr>"

definition GetInternalData :: "buf_state \<Rightarrow> nat \<Rightarrow> CBufferData option" where
  "GetInternalData s v = (case cb_vars s v of None \<Rightarrow> None | Some a \<Rightarrow> cb_heap s a)"

definition set_var :: "nat \<Rightarrow> nat option \<Rightarrow> buf_state \<Rightarrow> buf_state" where
  "set_var v p s = s\<lparr> cb_vars := (cb_vars s)(v := p) \<rparr>"

definition set_block :: "nat \<Rightarrow> CBufferData option \<Rightarrow> buf_state \<Rightarrow> buf_state" where
  "set_block a b s = s\<lparr> cb_heap := (cb_heap s)(a := b) \<rparr>"

section \<open>Operations\<close>

definition CreateBuffer :: "heap_env \<Rightarrow> DWORD \<Rightarrow> buf_state \<Rightarrow> buf_error + nat \<times> buf_state" where
  "CreateBuffer env nNewSize s =
     (let len = size_t env (unat nNewSize + sizeof_header); a = cb_next s in
      if \<not> heap_ok env a len then Inl CB_MEMORY
      else if len < sizeof_header then Inl CB_FAULT
      else Inr (a, s\<lparr> cb_heap := (cb_heap s)(a \<mapsto>
             \<lparr> m_nSize = nNewSize, m_nAllocSize = nNewSize, m_nRefs = 1,
               m_bytes = replicate (len - sizeof_header) 0 \<rparr>),
             cb_next := Suc a \<rparr>))"

text \<open>memcpy of \<open>src\<close> to offset \<open>off\<close> of the payload at address \<open>a\<close>.\<close>

definition poke :: "nat \<Rightarrow> nat \<Rightarrow> BYTE list \<Rightarrow> buf_state \<Rightarrow> buf_error + buf_state" where
  "poke a off src s = (case cb_heap s a of
     None \<Rightarrow> if src = [] then Inr s else Inl CB_FAULT
   | Some b \<Rightarrow>
       if off + length src \<le> length (m_bytes b)
       then Inr (set_block a (Some (b\<lparr> m_bytes := write_at off src (m_bytes b) \<rparr>)) s)
       else Inl CB_FAULT)"

text \<open>The first \<open>n\<close> payload bytes, as memcpy and memcmp read them.\<close>

definition peek :: "nat \<Rightarrow> CBufferData \<Rightarrow> buf_error + BYTE list" where
  "peek n b = (if n \<le> length (m_bytes b) then Inr (take n (m_bytes b)) else Inl CB_FAULT)"

definition release_shared :: "nat \<Rightarrow> CBufferData \<Rightarrow> buf_state \<Rightarrow> buf_state" where
  "release_shared a b s =
     (if m_nRefs b - 1 \<le> 0 then set_block a None s
      else set_block a (Some (b\<lparr> m_nRefs := m_nRefs b - 1 \<rparr>)) s)"

definition Grow_unshare ::
  "heap_env \<Rightarrow> nat \<Rightarrow> nat \<Rightarrow> CBufferData \<Rightarrow> DWORD \<Rightarrow> buf_state \<Rightarrow> buf_error + buf_state" where
  "Grow_unshare env v a b nNewSize s =
     res_bind (CreateBuffer env nNewSize s) (\<lambda>(a', s1).
     res_bind (peek (unat (min (m_nSize b) nNewSize)) b) (\<lambda>old.
     res_bind (poke a' 0 old s1) (\<lambda>s2.
     Inr (set_var v (Some a') (release_shared a b s2)))))"

definition Grow_realloc ::
  "heap_env \<Rightarrow> nat \<Rightarrow> nat \<Rightarrow> CBufferData \<Rightarrow> DWORD \<Rightarrow> buf_state \<Rightarrow> buf_error + buf_state" where
  "Grow_realloc env v a b nNewSize s =
     (let AllocLen = size_t env (unat nNewSize + sizeof_header + ALLOC_INCR_DEFAULT);
          a' = cb_next s; old = m_bytes b in
      if \<not> heap_ok env a' AllocLen then Inl CB_MEMORY
      else if AllocLen < sizeof_header then Inl CB_FAULT
      else let pay = AllocLen - sizeof_header in
        Inr (set_var v (Some a') ((set_block a None s)\<lparr> cb_heap :=
          ((cb_heap s)(a := None))(a' \<mapsto>
            b\<lparr> m_nSize := nNewSize,
               m_nAllocSize := nNewSize + of_nat ALLOC_INCR_DEFAULT,
               m_bytes := take pay old @ replicate (pay - length old) 0 \<rparr>),
          cb_next := Suc a' \<rparr>)))"

definition Grow ::
  "heap_env \<Rightarrow> nat \<Rightarrow> DWORD \<Rightarrow> bool \<Rightarrow> bool \<Rightarrow> buf_state \<Rightarrow> buf_error + buf_state" where
  "Grow env v nNewSize bForce bEmpty s =
     (if size_t env (unat nNewSize + sizeof_header) \<le> unat nNewSize then Inl CB_INVALID_ARG
      else case cb_vars s v of
        None \<Rightarrow>
          if bEmpty \<or> nNewSize = 0 then Inr s
          else res_bind (CreateBuffer env nNewSize s) (\<lambda>(a, s1). Inr (set_var v (Some a) s1))
      | Some a \<Rightarrow> (case cb_heap s a of
          None \<Rightarrow> Inl CB_FAULT
        | Some b \<Rightarrow>
            if m_nRefs b > 1 then
              if bEmpty then Inr (set_var v None (release_shared a b s))
              else Grow_unshare env v a b nNewSize s
            else if bEmpty then Inr (set_var v None (set_block a None s))
            else if \<not> bForce \<and> nNewSize \<le> m_nAllocSize b then
              Inr (set_block a (Some (b\<lparr> m_nSize := nNewSize \<rparr>)) s)
            else if nNewSize = 0 then Inr (set_var v None (set_block a None s))
            else Grow_realloc env v a b nNewSize s))"

definition GetBufSize :: "buf_state \<Rightarrow> nat \<Rightarrow> DWORD" where
  "GetBufSize s v = (case GetInternalData s v of None \<Rightarrow> 0 | Some b \<Rightarrow> m_nSize b)"

definition GetAllocSize :: "buf_state \<Rightarrow> nat \<Rightarrow> DWORD" where
  "GetAllocSize s v = (case GetInternalData s v of None \<Rightarrow> 0 | Some b \<Rightarrow> m_nAllocSize b)"

definition IsEmpty :: "buf_state \<Rightarrow> nat \<Rightarrow> bool" where
  "IsEmpty s v = (case GetInternalData s v of None \<Rightarrow> True | Some b \<Rightarrow> m_nSize b = 0)"

definition SetBufSize :: "heap_env \<Rightarrow> nat \<Rightarrow> DWORD \<Rightarrow> buf_state \<Rightarrow> buf_error + buf_state" where
  "SetBufSize env v n s = Grow env v n False False s"

definition Empty :: "heap_env \<Rightarrow> nat \<Rightarrow> buf_state \<Rightarrow> buf_error + buf_state" where
  "Empty env v s = Grow env v 0 False True s"

definition set_refs :: "nat \<Rightarrow> int \<Rightarrow> buf_state \<Rightarrow> buf_state" where
  "set_refs a n s = (case cb_heap s a of None \<Rightarrow> s
     | Some b \<Rightarrow> set_block a (Some (b\<lparr> m_nRefs := n \<rparr>)) s)"

definition Lock :: "heap_env \<Rightarrow> nat \<Rightarrow> buf_state \<Rightarrow> buf_error + buf_state" where
  "Lock env v s = (case cb_vars s v of
     None \<Rightarrow> Inr s
   | Some _ \<Rightarrow> res_bind (Grow env v (GetBufSize s v) False False s) (\<lambda>s1.
       case cb_vars s1 v of None \<Rightarrow> Inl CB_FAULT | Some a \<Rightarrow> Inr (set_refs a (-1) s1)))"

definition Unlock :: "nat \<Rightarrow> buf_state \<Rightarrow> buf_state" where
  "Unlock v s = (case cb_vars s v of
     None \<Rightarrow> s
   | Some a \<Rightarrow> (case cb_heap s a of
       None \<Rightarrow> s
     | Some b \<Rightarrow> if m_nRefs b = -1 then set_refs a 1 s else s))"

text \<open>A memcpy into the payload of variable \<open>v\<close>; a null \<open>m_pData\<close> is a fault.\<close>

definition poke_var :: "nat \<Rightarrow> nat \<Rightarrow> BYTE list \<Rightarrow> buf_state \<Rightarrow> buf_error + buf_state" where
  "poke_var v off src s = (case cb_vars s v of None \<Rightarrow> Inl CB_FAULT | Some a \<Rightarrow> poke a off src s)"

definition peek_var :: "nat \<Rightarrow> nat \<Rightarrow> buf_state \<Rightarrow> buf_error + BYTE list" where
  "peek_var v n s = (case GetInternalData s v of None \<Rightarrow> Inl CB_FAULT | Some b \<Rightarrow> peek n b)"

definition SetAt :: "heap_env \<Rightarrow> nat \<Rightarrow> DWORD \<Rightarrow> BYTE \<Rightarrow> buf_state \<Rightarrow> buf_error + buf_state" where
  "SetAt env v nIndex newElement s =
     (let nSize = GetBufSize s v in
      res_bind (Grow env v (if nIndex \<ge> nSize then nIndex + 1 else nSize) False False s) (\<lambda>s1.
      if cb_vars s1 v = None then Inl CB_MEMORY
      else poke_var v (unat nIndex) [newElement] s1))"

definition assign :: "heap_env \<Rightarrow> nat \<Rightarrow> nat \<Rightarrow> buf_state \<Rightarrow> buf_error + buf_state" where
  "assign env v w s =
     (if v = w then Inr s
      else case cb_vars s w of
        None \<Rightarrow> Empty env v s
      | Some a \<Rightarrow>
        if IsEmpty s w then Empty env v s
        else case cb_heap s a of
          None \<Rightarrow> Inl CB_FAULT
        | Some src \<Rightarrow>
          if m_nRefs src = -1
             \<or> (\<exists>d \<in> set_option (GetInternalData s v). m_nRefs d = -1)
          then res_bind (Grow env v (m_nSize src) False False s) (\<lambda>s1.
               res_bind (peek_var w (unat (m_nSize src)) s1) (\<lambda>data. poke_var v 0 data s1))
          else if cb_vars s v \<noteq> cb_vars s w
          then res_bind (Empty env v s) (\<lambda>s1. case cb_heap s1 a of
                 None \<Rightarrow> Inl CB_FAULT
               | Some b \<Rightarrow> Inr (set_var v (Some a) (set_refs a (m_nRefs b + 1) s1)))
          else Inr s)"

definition copy_construct :: "heap_env \<Rightarrow> nat \<Rightarrow> nat \<Rightarrow> buf_state \<Rightarrow> buf_error + buf_state" where
  "copy_construct env v w s0 =
     (let s = set_var v None s0 in
      case cb_vars s w of
        None \<Rightarrow> Inr s
      | Some a \<Rightarrow>
        if IsEmpty s w then Inr s
        else case cb_heap s a of
          None \<Rightarrow> Inl CB_FAULT
        | Some src \<Rightarrow>
          if m_nRefs src = -1
          then res_bind (Grow env v (m_nSize src) False False s) (\<lambda>s1.
               if cb_vars s1 v = None then Inr s1
               else res_bind (peek_var w (unat (m_nSize src)) s1) (\<lambda>data. poke_var v 0 data s1))
          else Inr (set_var v (Some a) (set_refs a (m_nRefs src + 1) s)))"

definition append_buf :: "heap_env \<Rightarrow> nat \<Rightarrow> nat \<Rightarrow> buf_state \<Rightarrow> buf_error + buf_state" where
  "append_buf env v w s =
     (if IsEmpty s w then Inr s
      else let OldSize = GetBufSize s v in
        res_bind (Grow env v (GetBufSize s v + GetBufSize s w) False False s) (\<lambda>s1.
        if cb_vars s1 v = None then Inl CB_MEMORY
        else res_bind (peek_var w (unat (GetBufSize s1 w)) s1) (\<lambda>data.
             poke_var v (unat OldSize) data s1)))"

definition FreeExtra :: "heap_env \<Rightarrow> nat \<Rightarrow> buf_state \<Rightarrow> buf_error + buf_state" where
  "FreeExtra env v s = Grow env v (GetBufSize s v) True False s"

text \<open>\<open>Load\<close> and \<open>Append\<close> take a pointer and a DWORD length: a source list of
  that length, which does not alias the buffer.\<close>

definition Load :: "heap_env \<Rightarrow> nat \<Rightarrow> BYTE list \<Rightarrow> buf_state \<Rightarrow> buf_error + buf_state" where
  "Load env v src s =
     (let nLen = (of_nat (length src) :: DWORD) in
      res_bind (Grow env v nLen False False s) (\<lambda>s1.
      if nLen > 0 \<and> cb_vars s1 v \<noteq> None then poke_var v 0 (take (unat nLen) src) s1 else Inr s1))"

definition Append :: "heap_env \<Rightarrow> nat \<Rightarrow> BYTE list \<Rightarrow> buf_state \<Rightarrow> buf_error + buf_state" where
  "Append env v src s =
     (let nLen = (of_nat (length src) :: DWORD); nOrigSize = GetBufSize s v in
      res_bind (Grow env v (nLen + nOrigSize) False False s) (\<lambda>s1.
      if GetBufSize s1 v > 0 \<and> cb_vars s1 v \<noteq> None
      then poke_var v (unat nOrigSize) (take (unat nLen) src) s1 else Inr s1))"

text \<open>\<open>memcmp\<close>: the difference of the first bytes that differ, of which the C
  library fixes only the sign.\<close>

fun memcmp :: "BYTE list \<Rightarrow> BYTE list \<Rightarrow> int" where
  "memcmp (x # xs) (y # ys) = (if x = y then memcmp xs ys else if x < y then -1 else 1)"
| "memcmp _ _ = 0"

definition Compare :: "buf_state \<Rightarrow> nat \<Rightarrow> nat \<Rightarrow> int" where
  "Compare s v w =
     (let nSize = GetBufSize s v; iDiff = sint (nSize - GetBufSize s w) in
      if iDiff = 0 \<and> nSize \<noteq> 0 then
        (case (peek_var v (unat nSize) s, peek_var w (unat nSize) s) of
           (Inr xs, Inr ys) \<Rightarrow> memcmp xs ys
         | _ \<Rightarrow> iDiff)
      else iDiff)"

definition GetData :: "heap_env \<Rightarrow> nat \<Rightarrow> buf_state \<Rightarrow> buf_error + buf_state" where
  "GetData env v s = (case cb_vars s v of
     None \<Rightarrow> Inr s
   | Some _ \<Rightarrow> Grow env v (GetBufSize s v) False False s)"

section \<open>Invariant and contents\<close>

definition holders :: "buf_state \<Rightarrow> nat \<Rightarrow> nat set" where
  "holders s a = {v. cb_vars s v = Some a}"

definition block_ok :: "CBufferData \<Rightarrow> bool" where
  "block_ok b \<longleftrightarrow> unat (m_nSize b) \<le> length (m_bytes b) \<and> unat (m_nAllocSize b) \<le> length (m_bytes b)"

text \<open>A block's count is the number of variables that hold it, and a locked
  block (count -1) has exactly one holder.\<close>

definition refs_ok :: "int \<Rightarrow> nat \<Rightarrow> bool" where
  "refs_ok r n \<longleftrightarrow> (r = -1 \<and> n = 1) \<or> (1 \<le> r \<and> r = int n)"

lemma refs_ok_dec: "refs_ok r n \<Longrightarrow> 1 < r \<Longrightarrow> refs_ok (r - 1) (n - 1)"
  by (auto simp: refs_ok_def)

lemma refs_ok_inc: "refs_ok r n \<Longrightarrow> 1 \<le> r \<Longrightarrow> refs_ok (r + 1) (Suc n)"
  by (auto simp: refs_ok_def)

definition buf_inv :: "buf_state \<Rightarrow> bool" where
  "buf_inv s \<longleftrightarrow>
     finite (dom (cb_vars s))
   \<and> (\<forall>v a. cb_vars s v = Some a \<longrightarrow> cb_heap s a \<noteq> None)
   \<and> (\<forall>a b. cb_heap s a = Some b \<longrightarrow>
        a < cb_next s \<and> block_ok b \<and> refs_ok (m_nRefs b) (card (holders s a)))"

definition contents :: "buf_state \<Rightarrow> nat \<Rightarrow> BYTE list" where
  "contents s v = (case GetInternalData s v of None \<Rightarrow> []
     | Some b \<Rightarrow> take (unat (m_nSize b)) (m_bytes b))"

definition env_ok :: "heap_env \<Rightarrow> DWORD \<Rightarrow> bool" where
  "env_ok env n \<longleftrightarrow> 5 \<le> sizet_bits env \<and> unat n + sizeof_header + ALLOC_INCR_DEFAULT < 2 ^ sizet_bits env"

lemma env_ok_64: "sizet_bits env = 64 \<Longrightarrow> env_ok env n"
  using unat_bound32 [of n] by (simp add: env_ok_def sizeof_header_def ALLOC_INCR_DEFAULT_def)

lemma buf_inv_init: "buf_inv buf_init"
  by (simp add: buf_inv_def buf_init_def)

lemma buf_invD:
  assumes "buf_inv s"
  shows "finite (dom (cb_vars s))"
    and "cb_vars s v = Some a \<Longrightarrow> \<exists>b. cb_heap s a = Some b"
    and "cb_heap s a = Some b \<Longrightarrow> a < cb_next s"
    and "cb_heap s a = Some b \<Longrightarrow> block_ok b"
    and "cb_heap s a = Some b \<Longrightarrow> refs_ok (m_nRefs b) (card (holders s a))"
  using assms unfolding buf_inv_def by auto

lemma finite_holders: "buf_inv s \<Longrightarrow> finite (holders s a)"
  by (rule finite_subset [OF _ buf_invD(1)]) (auto simp: holders_def)

lemma heap_fresh: "buf_inv s \<Longrightarrow> cb_heap s (cb_next s) = None"
  using buf_invD(3) by (metis not_less_iff_gr_or_eq option.exhaust)

lemma holders_fresh: "buf_inv s \<Longrightarrow> holders s (cb_next s) = {}"
  using heap_fresh buf_invD(2) unfolding holders_def by fastforce

lemma sole_holder:
  assumes "buf_inv s" "cb_vars s v = Some a" "cb_heap s a = Some b" "\<not> m_nRefs b > 1"
  shows "holders s a = {v}"
proof -
  have "card (holders s a) = 1"
    using buf_invD(5) [OF assms(1,3)] assms(4) unfolding refs_ok_def by linarith
  moreover have "v \<in> holders s a" using assms(2) by (simp add: holders_def)
  ultimately show ?thesis by (metis card_1_singletonE singletonD)
qed

lemma contents_None: "cb_vars s v = None \<Longrightarrow> contents s v = []"
  by (simp add: contents_def GetInternalData_def)

lemma contents_Some:
  "cb_vars s v = Some a \<Longrightarrow> cb_heap s a = Some b \<Longrightarrow>
   contents s v = take (unat (m_nSize b)) (m_bytes b)"
  by (simp add: contents_def GetInternalData_def)

lemma contents_cong:
  assumes "cb_vars s v = cb_vars t v"
    and "\<And>a. cb_vars t v = Some a \<Longrightarrow>
           map_option (\<lambda>b. take (unat (m_nSize b)) (m_bytes b)) (cb_heap s a)
         = map_option (\<lambda>b. take (unat (m_nSize b)) (m_bytes b)) (cb_heap t a)"
  shows "contents s v = contents t v"
  using assms(1) assms(2) [of "the (cb_vars t v)"]
  by (auto simp: contents_def GetInternalData_def split: option.splits)

lemma length_contents: "buf_inv s \<Longrightarrow> length (contents s v) = unat (GetBufSize s v)"
  using buf_invD(2,4) [of s]
  by (fastforce simp: contents_def GetBufSize_def GetInternalData_def block_ok_def
      split: option.splits)

subsection \<open>The four ways a variable changes its block\<close>

definition detach :: "nat \<Rightarrow> buf_state \<Rightarrow> buf_state" where
  "detach v s = (case cb_vars s v of None \<Rightarrow> s
     | Some a \<Rightarrow> (case cb_heap s a of None \<Rightarrow> s
        | Some b \<Rightarrow> set_var v None (release_shared a b s)))"

definition attach :: "nat \<Rightarrow> CBufferData \<Rightarrow> buf_state \<Rightarrow> buf_state" where
  "attach v b s = s\<lparr> cb_heap := (cb_heap s)(cb_next s \<mapsto> b), cb_next := Suc (cb_next s),
                     cb_vars := (cb_vars s)(v \<mapsto> cb_next s) \<rparr>"

definition share :: "nat \<Rightarrow> nat \<Rightarrow> CBufferData \<Rightarrow> buf_state \<Rightarrow> buf_state" where
  "share v a b s = set_var v (Some a) (set_block a (Some (b\<lparr> m_nRefs := m_nRefs b + 1 \<rparr>)) s)"

lemma cb_sel [simp]:
  "cb_heap (set_var v p s) = cb_heap s" "cb_next (set_var v p s) = cb_next s"
  "cb_vars (set_var v p s) = (cb_vars s)(v := p)"
  "cb_heap (set_block a q s) = (cb_heap s)(a := q)" "cb_next (set_block a q s) = cb_next s"
  "cb_vars (set_block a q s) = cb_vars s"
  by (simp_all add: set_var_def set_block_def)

lemma detach_vars: "buf_inv s \<Longrightarrow> cb_vars (detach v s) = (cb_vars s)(v := None)"
  using buf_invD(2) [of s v]
  by (auto simp: detach_def release_shared_def fun_upd_idem split: option.splits)

lemma detach_next: "cb_next (detach v s) = cb_next s"
  by (auto simp: detach_def release_shared_def split: option.splits)

lemma detach_heap:
  assumes "buf_inv s" "cb_vars s v = Some a" "cb_heap s a = Some b"
  shows "cb_heap (detach v s) = (cb_heap s)(a :=
           if m_nRefs b > 1 then Some (b\<lparr> m_nRefs := m_nRefs b - 1 \<rparr>) else None)"
  using assms by (auto simp: detach_def release_shared_def)

lemma detach_inv:
  assumes "buf_inv s"
  shows "buf_inv (detach v s)"
proof (cases "cb_vars s v")
  case None
  then show ?thesis using assms by (simp add: detach_def)
next
  case (Some a)
  obtain b where b: "cb_heap s a = Some b" using buf_invD(2) [OF assms Some] by blast
  have va: "v \<in> holders s a" using Some by (simp add: holders_def)
  have hold: "holders (detach v s) x = holders s x - {v}" for x
    by (auto simp: holders_def detach_vars [OF assms])
  have other: "holders (detach v s) x = holders s x" if "x \<noteq> a" for x
    using that Some by (auto simp: holders_def detach_vars [OF assms])
  have card: "card (holders (detach v s) a) = card (holders s a) - 1"
    using va finite_holders [OF assms] by (simp add: hold)
  show ?thesis
    unfolding buf_inv_def detach_heap [OF assms Some b] detach_vars [OF assms] detach_next
  proof (intro conjI allI impI)
    show "finite (dom ((cb_vars s)(v := None)))"
      using buf_invD(1) [OF assms] by simp
  next
    fix w x assume w: "((cb_vars s)(v := None)) w = Some x"
    then have "w \<noteq> v" "cb_vars s w = Some x" by (auto split: if_splits)
    then show "((cb_heap s)(a := if m_nRefs b > 1 then Some (b\<lparr>m_nRefs := m_nRefs b - 1\<rparr>)
                               else None)) x \<noteq> None"
      using buf_invD(2) [OF assms] sole_holder [OF assms Some b] by (auto simp: holders_def)
  qed (use b card other buf_invD(3-5) [OF assms] refs_ok_dec in
        \<open>auto simp: block_ok_def split: if_splits\<close>)
qed

lemma detach_contents:
  assumes "buf_inv s" "w \<noteq> v"
  shows "contents (detach v s) w = contents s w"
proof (rule contents_cong)
  show "cb_vars (detach v s) w = cb_vars s w" using assms by (simp add: detach_vars)
next
  fix x assume w: "cb_vars s w = Some x"
  show "map_option (\<lambda>b. take (unat (m_nSize b)) (m_bytes b)) (cb_heap (detach v s) x)
      = map_option (\<lambda>b. take (unat (m_nSize b)) (m_bytes b)) (cb_heap s x)"
  proof (cases "cb_vars s v")
    case None then show ?thesis by (simp add: detach_def)
  next
    case (Some a)
    obtain b where b: "cb_heap s a = Some b" using buf_invD(2) [OF assms(1) Some] by blast
    have "x = a \<Longrightarrow> m_nRefs b > 1"
      using sole_holder [OF assms(1) Some b] w assms(2) by (auto simp: holders_def)
    then show ?thesis by (simp add: detach_heap [OF assms(1) Some b] b)
  qed
qed

lemma attach_inv:
  assumes inv: "buf_inv s" and v: "cb_vars s v = None"
    and b: "block_ok b" "m_nRefs b = 1 \<or> m_nRefs b = -1"
  shows "buf_inv (attach v b s)"
proof -
  have new: "holders (attach v b s) (cb_next s) = {v}"
    using holders_fresh [OF inv] by (auto simp: holders_def attach_def)
  have old: "holders (attach v b s) x = holders s x" if "x \<noteq> cb_next s" for x
    using that v by (auto simp: holders_def attach_def)
  show ?thesis
    unfolding buf_inv_def
  proof (intro conjI allI impI)
    show "finite (dom (cb_vars (attach v b s)))"
      using buf_invD(1) [OF inv] by (simp add: attach_def)
  next
    fix w x assume "cb_vars (attach v b s) w = Some x"
    then show "cb_heap (attach v b s) x \<noteq> None"
      using buf_invD(2) [OF inv] by (fastforce simp: attach_def split: if_splits)
  next
    fix x c assume x: "cb_heap (attach v b s) x = Some c"
    then have "x = cb_next s \<and> c = b \<or> x \<noteq> cb_next s \<and> cb_heap s x = Some c"
      by (auto simp: attach_def split: if_splits)
    then show "x < cb_next (attach v b s)" "block_ok c"
      "refs_ok (m_nRefs c) (card (holders (attach v b s) x))"
      using b new old buf_invD(3-5) [OF inv, of x c] by (auto simp: attach_def refs_ok_def)
  qed
qed

lemma attach_contents:
  assumes "buf_inv s"
  shows "contents (attach v b s) v = take (unat (m_nSize b)) (m_bytes b)"
    and "w \<noteq> v \<Longrightarrow> contents (attach v b s) w = contents s w"
proof -
  show "contents (attach v b s) v = take (unat (m_nSize b)) (m_bytes b)"
    by (simp add: contents_def GetInternalData_def attach_def)
  assume "w \<noteq> v"
  then show "contents (attach v b s) w = contents s w"
    using buf_invD(2,3) [OF assms]
    by (intro contents_cong) (fastforce simp: attach_def)+
qed

lemma update_block_inv:
  assumes inv: "buf_inv s" and a: "cb_heap s a = Some b"
    and b': "block_ok b'" "m_nRefs b' = m_nRefs b"
  shows "buf_inv (set_block a (Some b') s)"
proof -
  have "holders (set_block a (Some b') s) x = holders s x" for x by (simp add: holders_def)
  then show ?thesis
    using inv a b' unfolding buf_inv_def by auto
qed

lemma update_block_contents:
  assumes "buf_inv s" "w \<notin> holders s a"
  shows "contents (set_block a q s) w = contents s w"
  using assms by (intro contents_cong) (auto simp: holders_def)

lemma share_inv:
  assumes inv: "buf_inv s" and v: "cb_vars s v = None"
    and a: "cb_heap s a = Some b" "1 \<le> m_nRefs b"
  shows "buf_inv (share v a b s)"
proof -
  have h: "holders (share v a b s) x = (if x = a then insert v (holders s a) else holders s x)" for x
    using v by (auto simp: holders_def share_def)
  have "v \<notin> holders s a" using v by (simp add: holders_def)
  then have c: "card (insert v (holders s a)) = Suc (card (holders s a))"
    using finite_holders [OF inv] by simp
  show ?thesis
    using inv a c refs_ok_inc unfolding buf_inv_def h
    by (auto simp: share_def block_ok_def)
qed

lemma share_contents:
  assumes inv: "buf_inv s" and a: "cb_heap s a = Some b"
  shows "contents (share v a b s) v = take (unat (m_nSize b)) (m_bytes b)"
    and "w \<noteq> v \<Longrightarrow> contents (share v a b s) w = contents s w"
proof -
  show "contents (share v a b s) v = take (unat (m_nSize b)) (m_bytes b)"
    by (simp add: contents_def GetInternalData_def share_def)
  assume "w \<noteq> v"
  then show "contents (share v a b s) w = contents s w"
    using a by (intro contents_cong) (auto simp: share_def)
qed

lemmas block_move = detach_inv detach_contents attach_inv attach_contents
  update_block_inv update_block_contents share_inv share_contents

section \<open>Grow\<close>

text \<open>Under the invariant, and when the header and slack do not overflow
  \<open>SIZE_T\<close>, every path of \<open>Grow\<close> is one of the moves above.\<close>

definition new_block :: "DWORD \<Rightarrow> DWORD \<Rightarrow> int \<Rightarrow> nat \<Rightarrow> BYTE list \<Rightarrow> CBufferData" where
  "new_block n al r pay old =
     \<lparr> m_nSize = n, m_nAllocSize = al, m_nRefs = r,
       m_bytes = take pay old @ replicate (pay - length old) 0 \<rparr>"

lemma new_block_sel [simp]:
  "m_nSize (new_block n al r pay old) = n"
  "m_nAllocSize (new_block n al r pay old) = al"
  "m_nRefs (new_block n al r pay old) = r"
  "length (m_bytes (new_block n al r pay old)) = pay"
  by (simp_all add: new_block_def)

lemma take_new_block:
  "k \<le> pay \<Longrightarrow> k \<le> length old \<Longrightarrow> take k (m_bytes (new_block n al r pay old)) = take k old"
  by (simp add: new_block_def min_def)

lemma env_ok_sizes:
  assumes "env_ok env n"
  shows "size_t env (unat n + sizeof_header) = unat n + sizeof_header"
    and "size_t env (unat n + sizeof_header + ALLOC_INCR_DEFAULT)
           = unat n + sizeof_header + ALLOC_INCR_DEFAULT"
    and "\<not> size_t env (unat n + sizeof_header) \<le> unat n"
  using assms by (auto simp: env_ok_def size_t_def sizeof_header_def)

lemma CreateBuffer_ok:
  assumes "env_ok env n"
  shows "CreateBuffer env n s =
    (if heap_ok env (cb_next s) (unat n + sizeof_header)
     then Inr (cb_next s, s\<lparr> cb_heap := (cb_heap s)(cb_next s \<mapsto> new_block n n 1 (unat n) []),
                             cb_next := Suc (cb_next s) \<rparr>)
     else Inl CB_MEMORY)"
  by (simp add: CreateBuffer_def env_ok_sizes [OF assms] new_block_def Let_def)

lemma copy_into_zeros:
  assumes "k \<le> length xs"
  shows "write_at 0 (take (min k n) xs) (replicate n 0)
       = take n (take k xs) @ replicate (n - length (take k xs)) (0 :: BYTE)"
  using assms by (auto simp: write_at_def min_def)

lemma Grow_unshare_ok:
  assumes inv: "buf_inv s" and env: "env_ok env n"
    and v: "cb_vars s v = Some a" "cb_heap s a = Some b" "m_nRefs b > 1"
  shows "Grow_unshare env v a b n s =
    (if heap_ok env (cb_next s) (unat n + sizeof_header)
     then Inr (attach v (new_block n n 1 (unat n) (take (unat (m_nSize b)) (m_bytes b))) (detach v s))
     else Inl CB_MEMORY)"
proof -
  have len: "unat (m_nSize b) \<le> length (m_bytes b)"
    using buf_invD(4) [OF inv v(2)] by (simp add: block_ok_def)
  have umin: "unat (min (m_nSize b) n) = min (unat (m_nSize b)) (unat n)"
    by (simp add: min_def word_le_nat_alt)
  have ne: "a \<noteq> cb_next s" using buf_invD(3) [OF inv v(2)] by simp
  have det: "detach v s = s\<lparr> cb_heap := (cb_heap s)(a \<mapsto> b\<lparr>m_nRefs := m_nRefs b - 1\<rparr>),
                             cb_vars := (cb_vars s)(v := None) \<rparr>"
    using v by (simp add: detach_def release_shared_def set_var_def set_block_def)
  have pk: "peek (unat (min (m_nSize b) n)) b = Inr (take (min (unat (m_nSize b)) (unat n)) (m_bytes b))"
    using len by (simp add: peek_def umin)
  have fit: "length (take (min (unat (m_nSize b)) (unat n)) (m_bytes b)) \<le> unat n" by simp
  have nb: "new_block n n 1 (unat n) (take (unat (m_nSize b)) (m_bytes b)) =
      \<lparr> m_nSize = n, m_nAllocSize = n, m_nRefs = 1,
        m_bytes = write_at 0 (take (min (unat (m_nSize b)) (unat n)) (m_bytes b)) (replicate (unat n) 0) \<rparr>"
    unfolding new_block_def copy_into_zeros [OF len] ..
  show ?thesis
    unfolding nb using v ne fit
    by (simp add: Grow_unshare_def CreateBuffer_ok [OF env] pk poke_def det attach_def
        release_shared_def set_var_def set_block_def new_block_def fun_upd_twist Let_def)
qed

lemma Grow_realloc_ok:
  assumes inv: "buf_inv s" and env: "env_ok env n"
    and v: "cb_vars s v = Some a" "cb_heap s a = Some b" "\<not> m_nRefs b > 1"
  shows "Grow_realloc env v a b n s =
    (if heap_ok env (cb_next s) (unat n + sizeof_header + ALLOC_INCR_DEFAULT)
     then Inr (attach v (new_block n (n + of_nat ALLOC_INCR_DEFAULT) (m_nRefs b)
                 (unat n + ALLOC_INCR_DEFAULT) (m_bytes b)) (detach v s))
     else Inl CB_MEMORY)"
proof -
  have det: "detach v s = s\<lparr> cb_heap := (cb_heap s)(a := None), cb_vars := (cb_vars s)(v := None) \<rparr>"
    using v by (simp add: detach_def release_shared_def set_var_def set_block_def)
  show ?thesis
    using v
    by (cases b) (simp add: Grow_realloc_def env_ok_sizes [OF env] det attach_def set_var_def set_block_def
        new_block_def Let_def)
qed

lemmas Grow_unfold = Grow_def [THEN trans, OF if_not_P, OF env_ok_sizes(3)]

text \<open>What \<open>Grow\<close> returns, path by path.\<close>

definition grow_result :: "nat \<Rightarrow> DWORD \<Rightarrow> buf_state \<Rightarrow> buf_state \<Rightarrow> bool" where
  "grow_result v n s s' \<longleftrightarrow>
     buf_inv s' \<and> (\<forall>w. w \<noteq> v \<longrightarrow> contents s' w = contents s w)
   \<and> GetBufSize s' v = n
   \<and> take (length (contents s v)) (contents s' v) = take (unat n) (contents s v)
   \<and> (n \<noteq> 0 \<longrightarrow> cb_vars s' v \<noteq> None)
   \<and> (\<forall>a. cb_vars s' v = Some a \<longrightarrow> holders s' a = {v})
   \<and> (\<forall>w. w \<noteq> v \<longrightarrow> cb_vars s' w = cb_vars s w)"

lemma grow_result_attach:
  assumes inv: "buf_inv s" and b: "block_ok b" "m_nRefs b = 1 \<or> m_nRefs b = -1" "m_nSize b = n"
    and pre: "take (length (contents s v)) (take (unat n) (m_bytes b)) = take (unat n) (contents s v)"
  shows "grow_result v n s (attach v b (detach v s))"
proof -
  let ?d = "detach v s"
  have d: "buf_inv ?d" "cb_vars ?d v = None"
    using detach_inv [OF inv] detach_vars [OF inv] by auto
  have "holders (attach v b ?d) (cb_next ?d) = {v}"
    using holders_fresh [OF d(1)] by (auto simp: holders_def attach_def)
  moreover have "cb_vars (attach v b ?d) w = cb_vars s w" if "w \<noteq> v" for w
    using that by (simp add: attach_def detach_vars [OF inv])
  moreover have "GetBufSize (attach v b ?d) v = n"
    by (simp add: GetBufSize_def GetInternalData_def attach_def b)
  ultimately show ?thesis
    unfolding grow_result_def
    using attach_inv [OF d b(1,2)] attach_contents [OF d(1)] detach_contents [OF inv] pre b(3)
    by (auto simp: attach_def)
qed

lemma Grow_no_force:
  assumes inv: "buf_inv s" and env: "env_ok env n" and r: "Grow env v n f False s = Inr s'"
  shows "grow_result v n s s'"
proof (cases "cb_vars s v")
  case None
  then have c: "contents s v = []" by (rule contents_None)
  have d: "detach v s = s" using None by (simp add: detach_def)
  show ?thesis
  proof (cases "n = 0")
    case True
    then have "s' = s"
      using r [unfolded Grow_unfold [OF env]] None by simp
    then show ?thesis
      using inv True c None
      by (simp add: grow_result_def GetBufSize_def GetInternalData_def)
  next
    case False
    then have "s' = attach v (new_block n n 1 (unat n) []) (detach v s)"
      using r [unfolded Grow_unfold [OF env]] None unfolding d
      by (auto simp: CreateBuffer_ok [OF env] attach_def set_var_def
          split: if_splits)
    then show ?thesis using inv c by (auto intro!: grow_result_attach simp: block_ok_def)
  qed
next
  case (Some a)
  obtain b where b: "cb_heap s a = Some b" using buf_invD(2) [OF inv Some] by blast
  have ok: "unat (m_nSize b) \<le> length (m_bytes b)" "unat (m_nAllocSize b) \<le> length (m_bytes b)"
    using buf_invD(4) [OF inv b] by (simp_all add: block_ok_def)
  have c: "contents s v = take (unat (m_nSize b)) (m_bytes b)" by (rule contents_Some [OF Some b])
  consider (shared) "m_nRefs b > 1"
    | (size) "\<not> m_nRefs b > 1" "\<not> f" "n \<le> m_nAllocSize b"
    | (free) "\<not> m_nRefs b > 1" "f \<or> \<not> n \<le> m_nAllocSize b" "n = 0"
    | (realloc) "\<not> m_nRefs b > 1" "f \<or> \<not> n \<le> m_nAllocSize b" "n \<noteq> 0" by blast
  then show ?thesis
  proof cases
    case shared
    then have "s' = attach v (new_block n n 1 (unat n) (take (unat (m_nSize b)) (m_bytes b))) (detach v s)"
      using r [unfolded Grow_unfold [OF env]] Some b
      by (auto simp: Grow_unshare_ok [OF inv env Some b]
          split: if_splits)
    moreover have "take (length (contents s v))
        (take (unat n) (m_bytes (new_block n n 1 (unat n) (take (unat (m_nSize b)) (m_bytes b)))))
      = take (unat n) (contents s v)"
      using ok by (simp add: c new_block_def min_def)
    ultimately show ?thesis
      using inv by (auto intro!: grow_result_attach simp: block_ok_def)
  next
    case size
    then have s': "s' = set_block a (Some (b\<lparr> m_nSize := n \<rparr>)) s"
      using r [unfolded Grow_unfold [OF env]] Some b
      by (simp)
    have h: "holders s a = {v}" by (rule sole_holder [OF inv Some b size(1)])
    have n: "unat n \<le> length (m_bytes b)" using size ok by (simp add: word_le_nat_alt)
    have "buf_inv s'"
      unfolding s' using n ok by (intro update_block_inv [OF inv b]) (auto simp: block_ok_def)
    moreover have "contents s' w = contents s w" if "w \<noteq> v" for w
      unfolding s' using that h by (intro update_block_contents [OF inv]) auto
    moreover have "contents s' v = take (unat n) (m_bytes b)"
      using Some by (simp add: s' contents_def GetInternalData_def)
    ultimately show ?thesis
      using ok n h Some
      by (auto simp: grow_result_def c s' GetBufSize_def GetInternalData_def holders_def min_def)
  next
    case free
    then have s': "s' = detach v s"
      using r [unfolded Grow_unfold [OF env]] Some b
      by (auto simp: detach_def release_shared_def split: if_splits)
    show ?thesis
      using detach_inv [OF inv] detach_contents [OF inv] free
      by (auto simp: grow_result_def s' GetBufSize_def GetInternalData_def detach_vars [OF inv]
          contents_def)
  next
    case realloc
    have rf: "m_nRefs b = 1 \<or> m_nRefs b = -1"
      using buf_invD(5) [OF inv b] realloc by (auto simp: refs_ok_def)
    have s': "s' = attach v (new_block n (n + of_nat ALLOC_INCR_DEFAULT) (m_nRefs b)
                 (unat n + ALLOC_INCR_DEFAULT) (m_bytes b)) (detach v s)"
      using r [unfolded Grow_unfold [OF env]] Some b realloc
      by (auto simp: Grow_realloc_ok [OF inv env Some b]
          split: if_splits)
    have "unat (n + of_nat ALLOC_INCR_DEFAULT) \<le> unat n + ALLOC_INCR_DEFAULT"
      by (simp add: unat_word_ariths ALLOC_INCR_DEFAULT_def)
    moreover have "take (length (contents s v)) (take (unat n) (m_bytes (new_block n
          (n + of_nat ALLOC_INCR_DEFAULT) (m_nRefs b) (unat n + ALLOC_INCR_DEFAULT) (m_bytes b))))
      = take (unat n) (contents s v)"
      using ok by (simp add: c new_block_def min_def)
    ultimately show ?thesis
      unfolding s' using rf by (intro grow_result_attach [OF inv]) (auto simp: block_ok_def)
  qed
qed

lemma Grow_empty:
  assumes "buf_inv s" "5 \<le> sizet_bits env"
  shows "Grow env v 0 f True s = Inr (detach v s)"
proof -
  have "(16::nat) < 2 ^ sizet_bits env"
    using power_increasing [OF assms(2), of "2::nat"] by simp
  then have "\<not> size_t env (unat (0::DWORD) + sizeof_header) \<le> unat (0::DWORD)"
    by (simp add: size_t_def sizeof_header_def)
  then show ?thesis
    using buf_invD(2) [OF assms(1), of v]
    by (auto simp: Grow_def detach_def release_shared_def split: option.splits)
qed

lemma Grow_total:
  assumes inv: "buf_inv s" and env: "env_ok env n"
  shows "(\<exists>s'. Grow env v n f False s = Inr s')
       \<or> Grow env v n f False s = Inl CB_MEMORY \<and> (\<exists>k. \<not> heap_ok env (cb_next s) k)"
proof (cases "cb_vars s v")
  case None
  then show ?thesis
    unfolding Grow_unfold [OF env] by (auto simp: CreateBuffer_ok [OF env])
next
  case (Some a)
  then obtain b where b: "cb_heap s a = Some b" using buf_invD(2) [OF inv] by blast
  show ?thesis
    unfolding Grow_unfold [OF env]
    using Some b by (auto simp: Grow_unshare_ok [OF inv env Some b] Grow_realloc_ok [OF inv env Some b])
qed

section \<open>The operations as commands, and what they promise\<close>

datatype buf_op =
    OpSetBufSize nat DWORD | OpEmpty nat | OpSetAt nat DWORD BYTE | OpAssign nat nat
  | OpCopy nat nat | OpAppendBuf nat nat | OpFreeExtra nat | OpLoad nat "BYTE list"
  | OpAppend nat "BYTE list" | OpLock nat | OpUnlock nat | OpGetData nat

fun exec_buf :: "heap_env \<Rightarrow> buf_op \<Rightarrow> buf_state \<Rightarrow> buf_error + buf_state" where
  "exec_buf env (OpSetBufSize v n) s = SetBufSize env v n s"
| "exec_buf env (OpEmpty v) s = Empty env v s"
| "exec_buf env (OpSetAt v i x) s = SetAt env v i x s"
| "exec_buf env (OpAssign v w) s = assign env v w s"
| "exec_buf env (OpCopy v w) s = copy_construct env v w s"
| "exec_buf env (OpAppendBuf v w) s = append_buf env v w s"
| "exec_buf env (OpFreeExtra v) s = FreeExtra env v s"
| "exec_buf env (OpLoad v xs) s = Load env v xs s"
| "exec_buf env (OpAppend v xs) s = Append env v xs s"
| "exec_buf env (OpLock v) s = Lock env v s"
| "exec_buf env (OpUnlock v) s = Inr (Unlock v s)"
| "exec_buf env (OpGetData v) s = GetData env v s"

text \<open>The abstract state is what every variable contains. Bytes by which a buffer
  grows without being written are not specified.\<close>

fun buf_spec :: "buf_op \<Rightarrow> (nat \<Rightarrow> BYTE list) \<Rightarrow> (nat \<Rightarrow> BYTE list) \<Rightarrow> bool" where
  "buf_spec (OpSetBufSize v n) m m' \<longleftrightarrow>
     (\<exists>pad. length pad = unat n - length (m v) \<and> m' = m(v := take (unat n) (m v) @ pad))"
| "buf_spec (OpEmpty v) m m' \<longleftrightarrow> m' = m(v := [])"
| "buf_spec (OpSetAt v i x) m m' \<longleftrightarrow>
     (\<exists>pad. length pad = Suc (unat i) - length (m v) \<and> m' = m(v := (m v @ pad)[unat i := x]))"
| "buf_spec (OpAssign v w) m m' \<longleftrightarrow> m' = m(v := m w)"
| "buf_spec (OpCopy v w) m m' \<longleftrightarrow> m' = m(v := m w)"
| "buf_spec (OpAppendBuf v w) m m' \<longleftrightarrow> m' = m(v := m v @ m w)"
| "buf_spec (OpLoad v xs) m m' \<longleftrightarrow> m' = m(v := xs)"
| "buf_spec (OpAppend v xs) m m' \<longleftrightarrow> m' = m(v := m v @ xs)"
| "buf_spec (OpFreeExtra v) m m' \<longleftrightarrow> m' = m"
| "buf_spec (OpLock v) m m' \<longleftrightarrow> m' = m"
| "buf_spec (OpUnlock v) m m' \<longleftrightarrow> m' = m"
| "buf_spec (OpGetData v) m m' \<longleftrightarrow> m' = m"

text \<open>The callers' obligations: lengths are DWORDs, sizes do not wrap, a buffer is
  not appended to itself, a constructed variable is new, and an index is not the
  largest DWORD.\<close>

fun buf_pre :: "buf_op \<Rightarrow> buf_state \<Rightarrow> bool" where
  "buf_pre (OpSetAt v i x) s \<longleftrightarrow> i \<noteq> -1"
| "buf_pre (OpCopy v w) s \<longleftrightarrow> v \<noteq> w \<and> cb_vars s v = None"
| "buf_pre (OpAppendBuf v w) s \<longleftrightarrow> v \<noteq> w \<and> length (contents s v) + length (contents s w) < 2 ^ 32"
| "buf_pre (OpLoad v xs) s \<longleftrightarrow> length xs < 2 ^ 32"
| "buf_pre (OpAppend v xs) s \<longleftrightarrow> length (contents s v) + length xs < 2 ^ 32"
| "buf_pre _ s \<longleftrightarrow> True"

definition buf_correct :: "heap_env \<Rightarrow> buf_op \<Rightarrow> buf_state \<Rightarrow> bool" where
  "buf_correct env c s \<longleftrightarrow>
     (case exec_buf env c s of
        Inr s' \<Rightarrow> buf_inv s' \<and> buf_spec c (contents s) (contents s')
      | Inl e \<Rightarrow> e = CB_MEMORY \<and> (\<exists>k. \<not> heap_ok env (cb_next s) k))"

lemma grow_resultD:
  assumes "grow_result v n s s'"
  shows "buf_inv s'" "w \<noteq> v \<Longrightarrow> contents s' w = contents s w" "GetBufSize s' v = n"
    "take (length (contents s v)) (contents s' v) = take (unat n) (contents s v)"
    "n \<noteq> 0 \<Longrightarrow> \<exists>a b. cb_vars s' v = Some a \<and> cb_heap s' a = Some b \<and> holders s' a = {v}
       \<and> m_nSize b = n"
    "length (contents s' v) = unat n"
    "w \<noteq> v \<Longrightarrow> cb_vars s' w = cb_vars s w"
    "cb_vars s' v = Some a \<Longrightarrow> holders s' a = {v}"
proof -
  show "n \<noteq> 0 \<Longrightarrow> \<exists>a b. cb_vars s' v = Some a \<and> cb_heap s' a = Some b \<and> holders s' a = {v}
       \<and> m_nSize b = n"
    using assms buf_invD(2) [of s' v] unfolding grow_result_def
    by (fastforce simp: GetBufSize_def GetInternalData_def)
  show "length (contents s' v) = unat n"
    using assms length_contents [of s' v] unfolding grow_result_def by simp
qed (use assms in \<open>auto simp: grow_result_def\<close>)

lemma grow_contents:
  assumes "grow_result v n s s'"
  shows "\<exists>pad. length pad = unat n - length (contents s v)
      \<and> contents s' = (contents s)(v := take (unat n) (contents s v) @ pad)"
proof -
  let ?pad = "drop (length (contents s v)) (contents s' v)"
  have "contents s' v = take (unat n) (contents s v) @ ?pad"
    using append_take_drop_id [of "length (contents s v)" "contents s' v"] grow_resultD(4) [OF assms]
    by simp
  moreover have "length ?pad = unat n - length (contents s v)" using grow_resultD(6) [OF assms] by simp
  ultimately show ?thesis
    using grow_resultD(2) [OF assms] by (intro exI [of _ ?pad]) (auto simp: fun_eq_iff)
qed

lemma grow_contents_same:
  "grow_result v n s s' \<Longrightarrow> length (contents s v) = unat n \<Longrightarrow> contents s' = contents s"
  using grow_contents [of v n s s'] by auto

text \<open>A memcpy into the sole holder of a block, within the block's size.\<close>

lemma poke_var_ok:
  assumes inv: "buf_inv s" and v: "cb_vars s v = Some a" "holders s a = {v}"
    and fit: "off + length src \<le> length (contents s v)"
  shows "\<exists>s'. poke_var v off src s = Inr s' \<and> buf_inv s'
       \<and> contents s' = (contents s)(v := write_at off src (contents s v))"
proof -
  obtain b where b: "cb_heap s a = Some b" using buf_invD(2) [OF inv v(1)] by blast
  have ok: "block_ok b" by (rule buf_invD(4) [OF inv b])
  let ?b = "b\<lparr> m_bytes := write_at off src (m_bytes b) \<rparr>"
  let ?s = "set_block a (Some ?b) s"
  have c: "contents s v = take (unat (m_nSize b)) (m_bytes b)" by (rule contents_Some [OF v(1) b])
  have f: "off + length src \<le> unat (m_nSize b)" "off + length src \<le> length (m_bytes b)"
    using fit ok by (auto simp: c block_ok_def)
  have 1: "poke_var v off src s = Inr ?s" using v b f by (simp add: poke_var_def poke_def)
  have 2: "buf_inv ?s" using ok f by (intro update_block_inv [OF inv b]) (auto simp: block_ok_def)
  have "contents ?s v = write_at off src (contents s v)"
    using v(1) f ok by (simp add: contents_def GetInternalData_def b take_write_at block_ok_def)
  moreover have "contents ?s w = contents s w" if "w \<noteq> v" for w
    using that v by (intro update_block_contents [OF inv]) auto
  ultimately show ?thesis using 1 2 by (intro exI [of _ ?s]) (auto simp: fun_eq_iff)
qed

lemma poke_after_grow:
  assumes g: "grow_result v n s s1" and n: "n \<noteq> 0"
    and fit: "off + length src \<le> unat n"
  shows "\<exists>s'. poke_var v off src s1 = Inr s' \<and> buf_inv s'
       \<and> contents s' = (contents s1)(v := write_at off src (contents s1 v))"
proof -
  obtain a where "cb_vars s1 v = Some a" "holders s1 a = {v}" using grow_resultD(5) [OF g n] by blast
  then show ?thesis using poke_var_ok [OF grow_resultD(1) [OF g]] fit grow_resultD(6) [OF g] by simp
qed

lemma Grow_cases [consumes 2, case_names ok mem]:
  assumes "buf_inv s" "env_ok env n"
  obtains (ok) s' where "Grow env v n f False s = Inr s'" "grow_result v n s s'"
  | (mem) "Grow env v n f False s = Inl CB_MEMORY" "\<exists>k. \<not> heap_ok env (cb_next s) k"
  using Grow_total [OF assms] Grow_no_force [OF assms] by blast

section \<open>Every operation keeps its promise\<close>

lemma SetBufSize_correct:
  assumes inv: "buf_inv s" and env: "sizet_bits env = 64"
  shows "buf_correct env (OpSetBufSize v n) s"
  by (rule Grow_cases [OF inv env_ok_64 [OF env], where n = n and v = v and f = False])
    (auto simp: buf_correct_def SetBufSize_def grow_resultD(1) dest: grow_contents)

lemma Empty_correct:
  assumes inv: "buf_inv s" and env: "sizet_bits env = 64"
  shows "buf_correct env (OpEmpty v) s"
proof -
  have "contents (detach v s) = (contents s)(v := [])"
    using detach_contents [OF inv] contents_None [of "detach v s" v]
    by (auto simp: fun_eq_iff detach_vars [OF inv])
  then show ?thesis
    using Grow_empty [OF inv, of env] env detach_inv [OF inv]
    by (simp add: buf_correct_def Empty_def)
qed

lemma SetAt_correct:
  assumes inv: "buf_inv s" and env: "sizet_bits env = 64" and i: "i \<noteq> -1"
  shows "buf_correct env (OpSetAt v i x) s"
proof -
  let ?n = "if i \<ge> GetBufSize s v then i + 1 else GetBufSize s v"
  have i1: "unat (i + 1) = Suc (unat i)"
    using i by (rule unat_plus_one)
  have n: "unat ?n = max (Suc (unat i)) (length (contents s v))"
    using i1 by (auto simp: length_contents [OF inv] word_le_nat_alt)
  have nz: "?n \<noteq> 0"
  proof
    assume "?n = 0"
    then have "unat ?n = 0" by (simp only: unat_0)
    then show False using n by simp
  qed
  show ?thesis
  using inv env_ok_64 [OF env, of ?n]
  proof (cases rule: Grow_cases [where v = v and f = False])
    case (ok s1)
    have "unat i + length [x] \<le> unat ?n" using n by simp
    then obtain s' where s': "poke_var v (unat i) [x] s1 = Inr s'" "buf_inv s'"
        "contents s' = (contents s1)(v := write_at (unat i) [x] (contents s1 v))"
      using poke_after_grow [OF ok(2) nz] by blast
    obtain pad where pad: "length pad = unat ?n - length (contents s v)"
        "contents s1 = (contents s)(v := take (unat ?n) (contents s v) @ pad)"
      using grow_contents [OF ok(2)] by blast
    have "take (unat ?n) (contents s v) = contents s v" using n by simp
    moreover have "write_at (unat i) [x] (contents s v @ pad) = (contents s v @ pad)[unat i := x]"
      using n pad by (simp add: write_at_def upd_conv_take_nth_drop)
    ultimately have "contents s' = (contents s)(v := (contents s v @ pad)[unat i := x])"
      using s'(3) pad(2) by simp
    moreover have "length pad = Suc (unat i) - length (contents s v)" using pad n by simp
    moreover have "cb_vars s1 v \<noteq> None" using grow_resultD(5) [OF ok(2) nz] by auto
    ultimately show ?thesis
      using ok s' by (auto simp: buf_correct_def SetAt_def Let_def)
  qed (auto simp: buf_correct_def SetAt_def Let_def)
qed

lemma Load_correct:
  assumes inv: "buf_inv s" and env: "sizet_bits env = 64" and len: "length xs < 2 ^ 32"
  shows "buf_correct env (OpLoad v xs) s"
proof -
  let ?n = "of_nat (length xs) :: DWORD"
  have n: "unat ?n = length xs" using len by (simp add: unat_of_nat32)
  show ?thesis
  using inv env_ok_64 [OF env, of ?n]
  proof (cases rule: Grow_cases [where v = v and f = False])
    case (ok s1)
    have others: "contents s1 w = contents s w" if "w \<noteq> v" for w
      using grow_resultD(2) [OF ok(2) that] .
    show ?thesis
    proof (cases "?n = 0")
      case True
      then have "xs = []" using n by simp
      then show ?thesis
        using ok others grow_resultD(1,6) [OF ok(2)] True
        by (auto simp: buf_correct_def Load_def Let_def fun_eq_iff)
    next
      case False
      obtain s' where s': "poke_var v 0 xs s1 = Inr s'" "buf_inv s'"
          "contents s' = (contents s1)(v := write_at 0 xs (contents s1 v))"
        using poke_after_grow [OF ok(2) False, of 0 xs] n by auto
      then show ?thesis
        using ok False n others grow_resultD(6) [OF ok(2)] grow_resultD(5) [OF ok(2) False]
        by (auto simp: buf_correct_def Load_def Let_def word_neq_0_conv fun_eq_iff)
    qed
  qed (auto simp: buf_correct_def Load_def Let_def)
qed

lemma append_step:
  assumes inv: "buf_inv s" and g: "grow_result v n s s1" and nz: "n \<noteq> 0"
    and n: "unat n = length (contents s v) + length ys"
  shows "\<exists>s'. poke_var v (length (contents s v)) ys s1 = Inr s' \<and> buf_inv s'
       \<and> contents s' = (contents s)(v := contents s v @ ys)"
proof -
  obtain s' where s': "poke_var v (length (contents s v)) ys s1 = Inr s'" "buf_inv s'"
      "contents s' = (contents s1)(v := write_at (length (contents s v)) ys (contents s1 v))"
    using poke_after_grow [OF g nz, of "length (contents s v)" ys] n by auto
  obtain pad where pad: "length pad = length ys" "contents s1 = (contents s)(v := contents s v @ pad)"
    using grow_contents [OF g] n by auto
  have "contents s' = (contents s)(v := contents s v @ ys)"
    using s'(3) pad by (auto simp: fun_eq_iff write_at_def)
  then show ?thesis using s' by blast
qed

lemma Append_correct:
  assumes inv: "buf_inv s" and env: "sizet_bits env = 64"
    and len: "length (contents s v) + length xs < 2 ^ 32"
  shows "buf_correct env (OpAppend v xs) s"
proof -
  let ?n = "of_nat (length xs) + GetBufSize s v :: DWORD"
  have x: "unat (of_nat (length xs) :: DWORD) = length xs" using len by (simp add: unat_of_nat32)
  have n: "unat ?n = length (contents s v) + length xs"
    using len x by (subst unat_add_no_wrap) (simp_all add: length_contents [OF inv])
  show ?thesis
  using inv env_ok_64 [OF env, of ?n]
  proof (cases rule: Grow_cases [where v = v and f = False])
    case (ok s1)
    show ?thesis
    proof (cases "?n = 0")
      case True
      then have "xs = []" "contents s v = []" using n by simp_all
      then show ?thesis
        using ok grow_resultD(1-3) [OF ok(2)] True grow_contents [OF ok(2)] n
        by (auto simp: buf_correct_def Append_def Let_def)
    next
      case False
      obtain s' where s': "poke_var v (length (contents s v)) xs s1 = Inr s'" "buf_inv s'"
          "contents s' = (contents s)(v := contents s v @ xs)"
        using append_step [OF inv ok(2) False n] by blast
      then show ?thesis
        using ok False x grow_resultD(3) [OF ok(2)] grow_resultD(5) [OF ok(2) False]
        by (auto simp: buf_correct_def Append_def Let_def word_neq_0_conv length_contents [OF inv])
    qed
  qed (auto simp: buf_correct_def Append_def Let_def)
qed

lemma IsEmpty_contents:
  assumes "buf_inv s"
  shows "IsEmpty s v \<longleftrightarrow> contents s v = []"
proof -
  have "IsEmpty s v \<longleftrightarrow> GetBufSize s v = 0"
    by (auto simp: IsEmpty_def GetBufSize_def split: option.splits)
  also have "\<dots> \<longleftrightarrow> length (contents s v) = 0"
    using length_contents [OF assms] by (simp add: unat_eq_0)
  finally show ?thesis by simp
qed

lemma peek_var_ok:
  assumes "buf_inv s" "IsEmpty s v \<longrightarrow> n \<noteq> 0" "n = unat (GetBufSize s v)"
  shows "peek_var v n s = Inr (contents s v)"
proof -
  obtain b where b: "GetInternalData s v = Some b"
    using assms(2,3) by (auto simp: IsEmpty_def GetBufSize_def split: option.splits)
  then have "block_ok b"
    using buf_invD(4) [OF assms(1)] by (auto simp: GetInternalData_def split: option.splits)
  then show ?thesis
    using b assms(3) by (simp add: peek_var_def peek_def contents_def GetBufSize_def block_ok_def)
qed

lemma append_buf_correct:
  assumes inv: "buf_inv s" and env: "sizet_bits env = 64" and vw: "v \<noteq> w"
    and len: "length (contents s v) + length (contents s w) < 2 ^ 32"
  shows "buf_correct env (OpAppendBuf v w) s"
proof (cases "IsEmpty s w")
  case True
  then show ?thesis using inv by (simp add: buf_correct_def append_buf_def IsEmpty_contents)
next
  case False
  let ?n = "GetBufSize s v + GetBufSize s w"
  have w: "contents s w \<noteq> []" using False IsEmpty_contents [OF inv] by simp
  have n: "unat ?n = length (contents s v) + length (contents s w)"
    using len by (subst unat_add_no_wrap) (simp_all add: length_contents [OF inv])
  then have nz: "?n \<noteq> 0" using w by (metis add_is_0 length_0_conv unat_0)
  show ?thesis
  using inv env_ok_64 [OF env, of ?n]
  proof (cases rule: Grow_cases [where v = v and f = False])
    case (ok s1)
    have cw: "contents s1 w = contents s w" using grow_resultD(2) [OF ok(2)] vw by metis
    have "\<not> IsEmpty s1 w" using w cw IsEmpty_contents [OF grow_resultD(1) [OF ok(2)]] by simp
    then have "peek_var w (unat (GetBufSize s1 w)) s1 = Inr (contents s w)"
      using peek_var_ok [OF grow_resultD(1) [OF ok(2)]] cw by simp
    moreover obtain s' where "poke_var v (length (contents s v)) (contents s w) s1 = Inr s'"
        "buf_inv s'" "contents s' = (contents s)(v := contents s v @ contents s w)"
      using append_step [OF inv ok(2) nz n] by blast
    ultimately show ?thesis
      using ok False grow_resultD(5) [OF ok(2) nz]
      by (auto simp: buf_correct_def append_buf_def Let_def length_contents [OF inv])
  qed (use False in \<open>auto simp: buf_correct_def append_buf_def Let_def\<close>)
qed

lemma copy_locked:
  assumes inv: "buf_inv s" and g: "grow_result v n s s1" and vw: "v \<noteq> w"
    and n: "n = GetBufSize s w" "n \<noteq> 0"
  shows "\<exists>s'. res_bind (peek_var w (unat n) s1) (\<lambda>data. poke_var v 0 data s1) = Inr s'
       \<and> buf_inv s' \<and> contents s' = (contents s)(v := contents s w)"
proof -
  have i1: "buf_inv s1" by (rule grow_resultD(1) [OF g])
  have cw: "contents s1 w = contents s w" using grow_resultD(2) [OF g] vw by metis
  then have "unat (GetBufSize s1 w) = unat n"
    using length_contents [OF inv, of w] length_contents [OF i1, of w] n by simp
  then have nw: "unat n = unat (GetBufSize s1 w)" by (rule sym)
  have "unat n \<noteq> 0" using n(2) by (simp add: unat_0_iff)
  then have p: "peek_var w (unat n) s1 = Inr (contents s w)"
    unfolding cw [symmetric] by (intro peek_var_ok [OF i1 _ nw] impI)
  have len: "length (contents s w) = unat n" using n length_contents [OF inv] by simp
  obtain s' where s': "poke_var v 0 (contents s w) s1 = Inr s'" "buf_inv s'"
      "contents s' = (contents s1)(v := write_at 0 (contents s w) (contents s1 v))"
    using poke_after_grow [OF g n(2), of 0 "contents s w"] len by auto
  have "contents s' = (contents s)(v := contents s w)"
    using s'(3) grow_resultD(2,6) [OF g] len by (auto simp: fun_eq_iff)
  then show ?thesis using s' p by simp
qed

lemma not_empty_block:
  assumes inv: "buf_inv s" and a: "cb_vars s w = Some a" and ne: "\<not> IsEmpty s w"
  obtains b where "cb_heap s a = Some b" "m_nSize b = GetBufSize s w" "m_nSize b \<noteq> 0"
    "contents s w = take (unat (m_nSize b)) (m_bytes b)"
    "m_nRefs b = -1 \<or> 1 \<le> m_nRefs b"
proof -
  obtain b where b: "cb_heap s a = Some b" using buf_invD(2) [OF inv a] by blast
  show thesis
    using that [OF b] a b ne buf_invD(5) [OF inv b]
    by (auto simp: IsEmpty_def GetBufSize_def GetInternalData_def contents_def refs_ok_def)
qed

lemma assign_correct:
  assumes inv: "buf_inv s" and env: "sizet_bits env = 64"
  shows "buf_correct env (OpAssign v w) s"
proof (cases "v = w \<or> IsEmpty s w \<or> cb_vars s w = None")
  case True
  then show ?thesis
    using Empty_correct [OF inv env, of v] inv IsEmpty_contents [OF inv, of w] contents_None [of s w]
    by (cases "v = w") (auto simp: buf_correct_def assign_def split: sum.splits option.splits)
next
  case False
  then obtain a where ne: "v \<noteq> w" "\<not> IsEmpty s w" and a: "cb_vars s w = Some a" by auto
  obtain b where b: "cb_heap s a = Some b" "m_nSize b = GetBufSize s w" "m_nSize b \<noteq> 0"
      "contents s w = take (unat (m_nSize b)) (m_bytes b)" "m_nRefs b = -1 \<or> 1 \<le> m_nRefs b"
    using not_empty_block [OF inv a ne(2)] by blast
  let ?locked = "m_nRefs b = -1 \<or> (\<exists>d \<in> set_option (GetInternalData s v). m_nRefs d = -1)"
  consider (locked) ?locked | (same) "\<not> ?locked" "cb_vars s v = Some a"
    | (share) "\<not> ?locked" "cb_vars s v \<noteq> Some a" by blast
  then show ?thesis
  proof cases
    case locked
    from inv env_ok_64 [OF env, of "m_nSize b"] show ?thesis
    proof (cases rule: Grow_cases [where v = v and f = False])
      case (ok s1)
      then show ?thesis
        using copy_locked [OF inv ok(2) ne(1) b(2,3)] locked ne a b(1)
        by (auto simp: buf_correct_def assign_def)
    qed (use locked ne a b in \<open>auto simp: buf_correct_def assign_def\<close>)
  next
    case same
    then have "contents s v = contents s w" using a by (simp add: contents_def GetInternalData_def)
    then have "exec_buf env (OpAssign v w) s = Inr s" "(contents s)(v := contents s w) = contents s"
      using same ne a b(1) by (auto simp: assign_def)
    then show ?thesis using inv by (simp add: buf_correct_def)
  next
    case share
    let ?d = "detach v s"
    have d: "buf_inv ?d" "cb_vars ?d v = None"
      using detach_inv [OF inv] detach_vars [OF inv] by auto
    have h: "cb_heap ?d a = Some b"
      using share(2) b(1) detach_heap [OF inv] buf_invD(2) [OF inv, of v]
      by (cases "cb_vars s v") (auto simp: detach_def)
    have e: "Empty env v s = Inr ?d" using Grow_empty [OF inv, of env] env by (simp add: Empty_def)
    have x: "exec_buf env (OpAssign v w) s = Inr (share v a b ?d)"
      using share ne a b(1) h by (simp add: assign_def e set_refs_def share_def)
    have "contents (share v a b ?d) = (contents s)(v := contents s w)"
      using share_contents [OF d(1) h] detach_contents [OF inv] b(4) by (auto simp: fun_eq_iff)
    then show ?thesis
      using share_inv [OF d h] share b(5) x by (auto simp: buf_correct_def)
  qed
qed

lemma copy_construct_correct:
  assumes inv: "buf_inv s" and env: "sizet_bits env = 64" and v: "v \<noteq> w" "cb_vars s v = None"
  shows "buf_correct env (OpCopy v w) s"
proof (cases "IsEmpty s w \<or> cb_vars s w = None")
  case True
  have "set_var v None s = s" using v by (simp add: set_var_def fun_upd_idem)
  moreover have "(contents s)(v := contents s w) = contents s"
    using True contents_None [OF v(2)] contents_None [of s w] IsEmpty_contents [OF inv, of w]
    by (auto simp: fun_upd_idem)
  ultimately show ?thesis
    using True inv by (auto simp: buf_correct_def copy_construct_def split: option.splits)
next
  case False
  have s: "set_var v None s = s" using v by (simp add: set_var_def fun_upd_idem)
  obtain a where a: "cb_vars s w = Some a" using False by auto
  obtain b where b: "cb_heap s a = Some b" "m_nSize b = GetBufSize s w" "m_nSize b \<noteq> 0"
      "contents s w = take (unat (m_nSize b)) (m_bytes b)" "m_nRefs b = -1 \<or> 1 \<le> m_nRefs b"
    using not_empty_block [OF inv a] False by blast
  show ?thesis
  proof (cases "m_nRefs b = -1")
    case True
    from inv env_ok_64 [OF env, of "m_nSize b"] show ?thesis
    proof (cases rule: Grow_cases [where v = v and f = False])
      case (ok s1)
      then show ?thesis
        using copy_locked [OF inv ok(2) v(1) b(2,3)] grow_resultD(5) [OF ok(2) b(3)] False a b(1) s True
        by (auto simp: buf_correct_def copy_construct_def)
    qed (use True False a b(1) s in \<open>auto simp: buf_correct_def copy_construct_def\<close>)
  next
    case nl: False
    have "exec_buf env (OpCopy v w) s = Inr (share v a b s)"
      using nl False a b(1) s by (simp add: copy_construct_def set_refs_def share_def)
    moreover have "contents (share v a b s) = (contents s)(v := contents s w)"
      using share_contents [OF inv b(1)] b(4) by (auto simp: fun_eq_iff)
    ultimately show ?thesis
      using share_inv [OF inv v(2) b(1)] nl b(5) by (simp add: buf_correct_def)
  qed
qed

lemma same_size_correct:
  assumes inv: "buf_inv s" and env: "sizet_bits env = 64"
  shows "(\<exists>s1. Grow env v (GetBufSize s v) f False s = Inr s1 \<and> grow_result v (GetBufSize s v) s s1
             \<and> contents s1 = contents s)
       \<or> Grow env v (GetBufSize s v) f False s = Inl CB_MEMORY \<and> (\<exists>k. \<not> heap_ok env (cb_next s) k)"
  using inv env_ok_64 [OF env, of "GetBufSize s v"]
  by (cases rule: Grow_cases [where v = v and f = f])
    (auto intro: grow_contents_same [OF _ length_contents [OF inv]])

lemma FreeExtra_correct:
  assumes "buf_inv s" "sizet_bits env = 64"
  shows "buf_correct env (OpFreeExtra v) s"
  using same_size_correct [OF assms, of v True]
  by (auto simp: buf_correct_def FreeExtra_def grow_resultD(1))

lemma GetData_correct:
  assumes "buf_inv s" "sizet_bits env = 64"
  shows "buf_correct env (OpGetData v) s"
  using same_size_correct [OF assms, of v False] assms(1)
  by (auto simp: buf_correct_def GetData_def grow_resultD(1) split: option.splits)

lemma set_refs_ok:
  assumes inv: "buf_inv s" and h: "holders s a = {v}" and n: "n = 1 \<or> n = -1"
  shows "buf_inv (set_refs a n s)" "contents (set_refs a n s) = contents s"
proof -
  have hold: "holders (set_refs a n s) x = holders s x" for x
    by (auto simp: holders_def set_refs_def split: option.splits)
  show "buf_inv (set_refs a n s)"
    using inv n h unfolding buf_inv_def hold
    by (auto simp: set_refs_def refs_ok_def block_ok_def split: option.splits)
  show "contents (set_refs a n s) = contents s"
    by (rule ext, rule contents_cong) (auto simp: set_refs_def split: option.splits)
qed

lemma Lock_correct:
  assumes inv: "buf_inv s" and env: "sizet_bits env = 64"
  shows "buf_correct env (OpLock v) s"
proof (cases "cb_vars s v")
  case None
  then show ?thesis using inv by (simp add: buf_correct_def Lock_def)
next
  case (Some a)
  then obtain b where b: "cb_heap s a = Some b" using buf_invD(2) [OF inv] by blast
  consider s1 where "Grow env v (GetBufSize s v) False False s = Inr s1"
      "grow_result v (GetBufSize s v) s s1" "contents s1 = contents s"
    | "Grow env v (GetBufSize s v) False False s = Inl CB_MEMORY" "\<exists>k. \<not> heap_ok env (cb_next s) k"
    using same_size_correct [OF inv env, of v False] by blast
  then show ?thesis
  proof cases
    case (1 s1)
    have "cb_vars s1 v \<noteq> None"
    proof (cases "m_nRefs b > 1")
      case True
      then show ?thesis
        using 1(1) Some b unfolding Grow_unfold [OF env_ok_64 [OF env]]
        by (auto simp: Grow_unshare_ok [OF inv env_ok_64 [OF env] Some b] attach_def split: if_splits)
    next
      case nz: False
      then show ?thesis
        using 1(1,2) Some b grow_resultD(5) [OF 1(2)]
        unfolding Grow_unfold [OF env_ok_64 [OF env]]
        by (cases "GetBufSize s v = 0") auto
    qed
    then obtain a' where a': "cb_vars s1 v = Some a'" "holders s1 a' = {v}"
      using grow_resultD(8) [OF 1(2)] by blast
    show ?thesis
      using set_refs_ok [OF grow_resultD(1) [OF 1(2)] a'(2), of "-1"] 1(1,3) Some a'(1)
      by (simp add: buf_correct_def Lock_def)
  qed (use Some in \<open>simp add: buf_correct_def Lock_def\<close>)
qed

lemma Unlock_correct:
  assumes inv: "buf_inv s"
  shows "buf_correct env (OpUnlock v) s"
proof (cases "cb_vars s v")
  case None
  then show ?thesis using inv by (simp add: buf_correct_def Unlock_def)
next
  case (Some a)
  then obtain b where b: "cb_heap s a = Some b" using buf_invD(2) [OF inv] by blast
  show ?thesis
    using Some b inv set_refs_ok [OF inv sole_holder [OF inv Some b], of 1]
    by (simp add: buf_correct_def Unlock_def)
qed

lemmas buf_op_correct = SetBufSize_correct Empty_correct SetAt_correct assign_correct
  copy_construct_correct append_buf_correct FreeExtra_correct Load_correct Append_correct
  Lock_correct Unlock_correct GetData_correct

section \<open>Programs of buffer operations\<close>

lemma exec_buf_correct:
  assumes "buf_inv s" "sizet_bits env = 64" "buf_pre c s"
  shows "buf_correct env c s"
  using assms by (cases c) (auto intro: buf_op_correct)

fun run_buf :: "heap_env \<Rightarrow> buf_op list \<Rightarrow> buf_state \<Rightarrow> buf_error + buf_state" where
  "run_buf env [] s = Inr s"
| "run_buf env (c # cs) s = res_bind (exec_buf env c s) (run_buf env cs)"

fun pre_run :: "heap_env \<Rightarrow> buf_op list \<Rightarrow> buf_state \<Rightarrow> bool" where
  "pre_run env [] s = True"
| "pre_run env (c # cs) s \<longleftrightarrow> buf_pre c s \<and>
     (case exec_buf env c s of Inl _ \<Rightarrow> True | Inr s' \<Rightarrow> pre_run env cs s')"

fun op_target :: "buf_op \<Rightarrow> nat" where
  "op_target (OpSetBufSize v n) = v"
| "op_target (OpEmpty v) = v"
| "op_target (OpSetAt v i x) = v"
| "op_target (OpAssign v w) = v"
| "op_target (OpCopy v w) = v"
| "op_target (OpAppendBuf v w) = v"
| "op_target (OpFreeExtra v) = v"
| "op_target (OpLoad v xs) = v"
| "op_target (OpAppend v xs) = v"
| "op_target (OpLock v) = v"
| "op_target (OpUnlock v) = v"
| "op_target (OpGetData v) = v"

lemma buf_spec_frame: "buf_spec c m m' \<Longrightarrow> w \<noteq> op_target c \<Longrightarrow> m' w = m w"
  by (cases c) auto

lemma buf_correct_cases:
  assumes "buf_correct env c s"
  obtains s' where "exec_buf env c s = Inr s'" "buf_inv s'" "buf_spec c (contents s) (contents s')"
  | "exec_buf env c s = Inl CB_MEMORY" "\<exists>k. \<not> heap_ok env (cb_next s) k"
  using assms unfolding buf_correct_def by (cases "exec_buf env c s") auto

lemma run_buf_inv:
  assumes "buf_inv s" "sizet_bits env = 64" "pre_run env cs s"
  shows "case run_buf env cs s of Inr s' \<Rightarrow> buf_inv s'
     | Inl e \<Rightarrow> e = CB_MEMORY \<and> (\<exists>k n. \<not> heap_ok env k n)"
  using assms
proof (induction cs arbitrary: s)
  case (Cons c cs)
  have "buf_correct env c s" using Cons.prems by (intro exec_buf_correct) auto
  then show ?case
    by (cases rule: buf_correct_cases) (use Cons in \<open>auto split: sum.splits\<close>)
qed simp

lemma run_buf_frame:
  assumes "buf_inv s" "sizet_bits env = 64" "pre_run env cs s" "run_buf env cs s = Inr s'"
    and "\<forall>c \<in> set cs. op_target c \<noteq> w"
  shows "contents s' w = contents s w"
  using assms
proof (induction cs arbitrary: s)
  case (Cons c cs)
  have "buf_correct env c s" using Cons.prems by (intro exec_buf_correct) auto
  then obtain s1 where s1: "exec_buf env c s = Inr s1" "buf_inv s1" "contents s1 w = contents s w"
    by (cases rule: buf_correct_cases) (use Cons.prems buf_spec_frame in \<open>auto split: sum.splits\<close>)
  then show ?case using Cons.IH [of s1] Cons.prems by auto
qed simp

text \<open>A platform and a state for the examples: one block shared by two variables.\<close>

definition demo_env :: heap_env where
  "demo_env = \<lparr> sizet_bits = 64, heap_ok = (\<lambda>_ _. True) \<rparr>"

definition demo_env32 :: heap_env where
  "demo_env32 = \<lparr> sizet_bits = 32, heap_ok = (\<lambda>_ _. True) \<rparr>"

definition demo_shared :: buf_state where
  "demo_shared = (case run_buf demo_env [OpLoad 0 [1, 2, 3], OpAssign 1 0] buf_init of
     Inr s \<Rightarrow> s | Inl _ \<Rightarrow> buf_init)"

lemmas buf_exec_defs = SetBufSize_def Empty_def SetAt_def assign_def copy_construct_def
  append_buf_def FreeExtra_def Load_def Append_def Lock_def Unlock_def GetData_def Grow_def
  CreateBuffer_def Grow_unshare_def Grow_realloc_def release_shared_def poke_def poke_var_def
  peek_def peek_var_def set_refs_def GetBufSize_def GetAllocSize_def IsEmpty_def
  GetInternalData_def size_t_def sizeof_header_def ALLOC_INCR_DEFAULT_def buf_init_def
  demo_env_def demo_env32_def write_at_def contents_def

lemma demo_shared_run:
  "run_buf demo_env [OpLoad 0 [1, 2, 3], OpAssign 1 0] buf_init = Inr demo_shared"
  "pre_run demo_env [OpLoad 0 [1, 2, 3], OpAssign 1 0] buf_init"
  by (simp_all add: demo_shared_def buf_exec_defs)

lemma demo_shared_inv: "buf_inv demo_shared"
  using run_buf_inv [OF buf_inv_init _ demo_shared_run(2)] demo_shared_run(1)
  by (simp add: demo_env_def)

section \<open>Comparison\<close>

text \<open>\<open>Compare\<close> orders by length first and then by the bytes.\<close>

definition shortlex_less :: "BYTE list \<Rightarrow> BYTE list \<Rightarrow> bool" where
  "shortlex_less xs ys \<longleftrightarrow>
     length xs < length ys \<or> length xs = length ys \<and> ord_class.lexordp xs ys"

lemma memcmp_zero: "length xs = length ys \<Longrightarrow> memcmp xs ys = 0 \<longleftrightarrow> xs = ys"
  by (induction xs ys rule: memcmp.induct) auto

lemma memcmp_less: "length xs = length ys \<Longrightarrow> memcmp xs ys < 0 \<longleftrightarrow> ord_class.lexordp xs ys"
  by (induction xs ys rule: memcmp.induct) auto

lemma sint_diff_sign:
  fixes x y :: DWORD
  assumes "unat x < 2 ^ 31" "unat y < 2 ^ 31"
  shows "sint (x - y) = int (unat x) - int (unat y)"
proof -
  have "x - y = word_of_int (int (unat x) - int (unat y))"
    by (simp add: uint_nat [symmetric] wi_hom_sub [symmetric])
  moreover have "int (unat x) < 2 ^ 31" "int (unat y) < 2 ^ 31"
    using assms [THEN of_nat_less_iff [where 'a = int, THEN iffD2]] unfolding of_nat_power of_nat_numeral
    by blast+
  moreover have "0 \<le> int (unat x)" "0 \<le> int (unat y)" by (rule of_nat_0_le_iff)+
  moreover from calculation have "- (2 ^ 31) \<le> int (unat x) - int (unat y)" by linarith
  moreover from calculation have "int (unat x) - int (unat y) < 2 ^ 31" by linarith
  ultimately show ?thesis
    by (simp only: sint_sbintrunc') (simp add: signed_take_bit_int_eq_self)
qed

lemma sint_diff_zero: "sint (x - y :: DWORD) = 0 \<longleftrightarrow> x = y"
  by (metis right_minus_eq signed_eq_0_iff)

lemma Compare_contents:
  assumes "buf_inv s"
  shows "Compare s v w =
    (if GetBufSize s v = GetBufSize s w then memcmp (contents s v) (contents s w)
     else sint (GetBufSize s v - GetBufSize s w))"
proof (cases "GetBufSize s v = GetBufSize s w \<and> GetBufSize s v \<noteq> 0")
  case True
  then have nz: "unat (GetBufSize s v) \<noteq> 0" using unat_0_iff by blast
  have "peek_var v (unat (GetBufSize s v)) s = Inr (contents s v)"
    by (rule peek_var_ok [OF assms impI [OF nz] refl])
  moreover have "peek_var w (unat (GetBufSize s v)) s = Inr (contents s w)"
    by (rule peek_var_ok [OF assms impI [OF nz]]) (simp add: True)
  moreover have "GetBufSize s w \<noteq> 0" using True by metis
  ultimately show ?thesis using True by (simp add: Compare_def Let_def)
next
  case False
  then show ?thesis
    using length_contents [OF assms, of v] by (auto simp: Compare_def Let_def sint_diff_zero)
qed

section \<open>The interface the stream relies on\<close>

text \<open>A store of byte buffers: resizing keeps the common prefix and the other
  buffers, a write inside the buffer replaces exactly those bytes, and the only
  failure is running out of memory.\<close>

locale byte_store =
  fixes inv :: "'s \<Rightarrow> bool"
    and content :: "'s \<Rightarrow> nat \<Rightarrow> BYTE list"
    and bsize :: "'s \<Rightarrow> nat \<Rightarrow> DWORD"
    and resize :: "nat \<Rightarrow> DWORD \<Rightarrow> 's \<Rightarrow> 'e + 's"
    and put :: "nat \<Rightarrow> nat \<Rightarrow> BYTE list \<Rightarrow> 's \<Rightarrow> 'e + 's"
    and get :: "nat \<Rightarrow> nat \<Rightarrow> nat \<Rightarrow> 's \<Rightarrow> 'e + BYTE list \<times> 's"
    and oom :: 'e
  assumes bsize_content: "inv s \<Longrightarrow> unat (bsize s v) = length (content s v)"
    and resize_ok: "inv s \<Longrightarrow> resize v n s = Inr s' \<Longrightarrow>
      inv s' \<and> (\<exists>pad. length pad = unat n - length (content s v)
        \<and> content s' = (content s)(v := take (unat n) (content s v) @ pad))"
    and resize_err: "inv s \<Longrightarrow> resize v n s = Inl e \<Longrightarrow> e = oom"
    and put_ok: "inv s \<Longrightarrow> off + length src \<le> length (content s v) \<Longrightarrow> put v off src s = Inr s' \<Longrightarrow>
      inv s' \<and> content s' = (content s)(v := write_at off src (content s v))"
    and put_err: "inv s \<Longrightarrow> off + length src \<le> length (content s v) \<Longrightarrow> put v off src s = Inl e \<Longrightarrow> e = oom"
    and get_ok: "inv s \<Longrightarrow> off + k \<le> length (content s v) \<Longrightarrow> 0 < k \<Longrightarrow> get v off k s = Inr (bs, s') \<Longrightarrow>
      inv s' \<and> content s' = content s \<and> bs = take k (drop off (content s v))"
    and get_err: "inv s \<Longrightarrow> off + k \<le> length (content s v) \<Longrightarrow> 0 < k \<Longrightarrow> get v off k s = Inl e \<Longrightarrow> e = oom"

text \<open>\<open>memcpy(buf.GetData() + off, src, length)\<close> of the code.\<close>

definition put_data :: "heap_env \<Rightarrow> nat \<Rightarrow> nat \<Rightarrow> BYTE list \<Rightarrow> buf_state \<Rightarrow> buf_error + buf_state" where
  "put_data env v off src s = res_bind (GetData env v s) (\<lambda>s1.
     if src = [] then Inr s1 else poke_var v off src s1)"

text \<open>\<open>memcpy(dest, buf.GetData() + off, n)\<close>.\<close>

definition get_data :: "heap_env \<Rightarrow> nat \<Rightarrow> nat \<Rightarrow> nat \<Rightarrow> buf_state \<Rightarrow> buf_error + BYTE list \<times> buf_state" where
  "get_data env v off n s = res_bind (GetData env v s) (\<lambda>s1.
     res_bind (peek_var v (off + n) s1) (\<lambda>bs. Inr (drop off bs, s1)))"

lemma GetData_cases [consumes 2, case_names 1 2]:
  assumes inv: "buf_inv s" and env: "sizet_bits env = 64"
  obtains s1 where "GetData env v s = Inr s1" "buf_inv s1" "contents s1 = contents s"
    | "GetData env v s = Inl CB_MEMORY"
  using exec_buf_correct [OF inv env, of "OpGetData v"]
  by (auto simp: buf_correct_def split: sum.splits)

lemma peek_var_prefix:
  assumes inv: "buf_inv s" and n: "n \<le> length (contents s v)" "0 < n"
  shows "peek_var v n s = Inr (take n (contents s v))"
proof -
  obtain b where b: "GetInternalData s v = Some b"
    using n by (auto simp: contents_def split: option.splits)
  then have "block_ok b"
    using buf_invD(4) [OF inv] by (auto simp: GetInternalData_def split: option.splits)
  then show ?thesis
    using b n by (simp add: peek_var_def peek_def contents_def block_ok_def min_def
        split: if_splits)
qed

lemma get_data_cases [consumes 4]:
  assumes inv: "buf_inv s" and env: "sizet_bits env = 64"
    and fit: "off + n \<le> length (contents s v)" "0 < n"
  obtains s' where "get_data env v off n s = Inr (take n (drop off (contents s v)), s')" "buf_inv s'"
      "contents s' = contents s"
  | "get_data env v off n s = Inl CB_MEMORY"
  using inv env
proof (cases rule: GetData_cases [where v = v])
  case (1 s1)
  then have "peek_var v (off + n) s1 = Inr (take (off + n) (contents s v))"
    using peek_var_prefix [OF 1(2)] fit by simp
  then have "get_data env v off n s = Inr (take n (drop off (contents s v)), s1)"
    using 1(1) by (simp add: get_data_def take_drop add.commute)
  then show ?thesis using that(1) 1 by blast
qed (use that(2) in \<open>auto simp: get_data_def\<close>)

lemma put_data_cases:
  assumes inv: "buf_inv s" and env: "sizet_bits env = 64"
    and fit: "off + length src \<le> length (contents s v)"
  obtains s' where "put_data env v off src s = Inr s'" "buf_inv s'"
      "contents s' = (contents s)(v := write_at off src (contents s v))"
  | "put_data env v off src s = Inl CB_MEMORY"
  using inv env
proof (cases rule: GetData_cases [where v = v])
  case (1 s1)
  note c = 1(3)
  show ?thesis
  proof (cases "src = []")
    case True
    then show ?thesis using that(1) [of s1] 1 c by (simp add: put_data_def fun_upd_idem)
  next
    case False
    then have len: "contents s v \<noteq> []" using fit by auto
    then obtain a where a: "cb_vars s v = Some a" using contents_None by fastforce
    then have g: "grow_result v (GetBufSize s v) s s1"
      using 1(1) Grow_no_force [OF inv env_ok_64 [OF env]] by (simp add: GetData_def)
    have "GetBufSize s v \<noteq> 0" using len length_contents [OF inv, of v] by auto
    then obtain a' where "cb_vars s1 v = Some a'" "holders s1 a' = {v}"
      using grow_resultD(5) [OF g] by blast
    then obtain s' where "poke_var v off src s1 = Inr s'" "buf_inv s'"
        "contents s' = (contents s)(v := write_at off src (contents s v))"
      using poke_var_ok [OF 1(2)] fit c by metis
    then show ?thesis using that(1) [of s'] 1(1) False by (simp add: put_data_def)
  qed
qed (use that(2) in \<open>auto simp: put_data_def\<close>)

interpretation cbuf: byte_store "\<lambda>s. buf_inv s \<and> sizet_bits env = 64" contents GetBufSize
  "SetBufSize env" "put_data env" "get_data env" CB_MEMORY for env
proof (unfold_locales, goal_cases)
  case (1 s v) then show ?case by (simp add: length_contents)
next
  case (2 s v n s')
  then show ?case using SetBufSize_correct [of s env v n] by (simp add: buf_correct_def)
next
  case (3 s v n e)
  then show ?case using SetBufSize_correct [of s env v n] by (simp add: buf_correct_def)
next
  case (4 s off src v s')
  then show ?case by (metis put_data_cases Inl_Inr_False sum.inject(2))
next
  case (5 s off src v e)
  then show ?case by (metis put_data_cases Inl_Inr_False sum.inject(1))
next
  case (6 s off n v bs s')
  then have i: "buf_inv s" "sizet_bits env = 64" by simp_all
  from i 6(2,3) show ?case by (cases rule: get_data_cases) (use 6(4) i in auto)
next
  case (7 s off n v e)
  then have i: "buf_inv s" "sizet_bits env = 64" by simp_all
  from i 7(2,3) show ?case by (cases rule: get_data_cases) (use 7(4) in auto)
qed

section \<open>Properties\<close>

text \<open>What the obligations exclude goes wrong: a buffer of 101 bytes appended to itself is
  copied past the end of its block (a short one into the slack behind its size), and a store at the
  largest index ends as out of memory on a buffer without a block and far past the block on another.\<close>

lemma append_to_itself:
  "run_buf demo_env [OpLoad 0 (replicate 101 1), OpAppendBuf 0 0] buf_init = Inl CB_FAULT"
  by (simp add: buf_exec_defs Let_def set_block_def set_var_def)

lemma SetAt_last_index:
  "run_buf demo_env [OpSetAt 0 (-1) 7] buf_init = Inl CB_MEMORY"
  "run_buf demo_env [OpLoad 0 [1, 2, 3], OpSetAt 0 (-1) 7] buf_init = Inl CB_FAULT"
  by (simp_all add: buf_exec_defs unsigned_minus_1_eq_mask mask_eq_exp_minus_1)

text \<open>The count of a block is its holders: it fits the 32-bit \<open>long\<close> of the code as long as fewer than
  \<open>2 ^ 31\<close> variables share a block.\<close>

lemma refs_in_range:
  assumes "buf_inv s" "cb_heap s a = Some b" "card (holders s a) < 2 ^ 31"
  shows "- (2 ^ 31) \<le> m_nRefs b \<and> m_nRefs b < 2 ^ 31"
  using buf_invD(5) [OF assms(1,2)] assms(3) by (auto simp: refs_ok_def)

text \<open>C30: On a platform with a 64-bit \<open>SIZE_T\<close>, a buffer operation that meets its obligations
  (\<open>buf_pre\<close>: no buffer is appended to itself, the lengths given fit a DWORD and do not wrap when they
  are added, no store at index 0xffffffff, a variable that is constructed is new) either runs out of
  memory or keeps the reference count invariant and changes the contents of the variables exactly as
  specified: a write through one variable never shows in another that shares its block. (A block has
  fewer than \<open>2 ^ 31\<close> holders, so that its count does not wrap.)\<close>

theorem buffer_refines_contents:
  assumes "buf_inv s" "sizet_bits env = 64" "buf_pre c s"
  shows "case exec_buf env c s of
      Inr s' \<Rightarrow> buf_inv s' \<and> buf_spec c (contents s) (contents s')
    | Inl e \<Rightarrow> e = CB_MEMORY \<and> (\<exists>k. \<not> heap_ok env (cb_next s) k)"
  using exec_buf_correct [OF assms] by (simp add: buf_correct_def)

lemma buffer_refines_contents_witness:
  "\<exists>s'. exec_buf demo_env (OpAppend 1 [4]) demo_shared = Inr s'
      \<and> contents s' = (contents demo_shared)(1 := [1, 2, 3, 4])"
proof -
  have c: "contents demo_shared 1 = [1, 2, 3]"
    by (simp add: demo_shared_def buf_exec_defs)
  show ?thesis
    using buffer_refines_contents [OF demo_shared_inv, of demo_env "OpAppend 1 [4]"] c
    by (auto simp: demo_env_def split: sum.splits)
qed

text \<open>C31: A run of buffer operations from the initial state, with a 64-bit \<open>SIZE_T\<close> and each
  operation meeting its obligations (\<open>pre_run\<close>: no buffer appended to itself, no lengths that wrap when
  added, no store at index 0xffffffff, only new variables constructed), never writes or reads outside
  a block and never throws an invalid argument: it ends in a consistent heap or out of memory. The
  excluded cases do overrun (\<open>append_to_itself\<close>, \<open>SetAt_last_index\<close>, \<open>Grow_overflow_32\<close>).\<close>

theorem buffer_runs_are_safe:
  assumes "sizet_bits env = 64" "pre_run env cs buf_init"
  shows "run_buf env cs buf_init \<noteq> Inl CB_FAULT \<and> run_buf env cs buf_init \<noteq> Inl CB_INVALID_ARG
    \<and> (\<forall>s'. run_buf env cs buf_init = Inr s' \<longrightarrow> buf_inv s')"
  using run_buf_inv [OF buf_inv_init assms] by (auto split: sum.splits)

lemma buffer_runs_are_safe_witness:
  "run_buf demo_env [OpLoad 0 [1, 2, 3], OpAssign 1 0] buf_init \<noteq> Inl CB_FAULT
   \<and> buf_inv demo_shared"
  using buffer_runs_are_safe [OF _ demo_shared_run(2)]
  unfolding demo_shared_run(1) by (simp add: demo_env_def)

text \<open>C32: Operations that target other variables never change what a variable
  contains, however the blocks are shared.\<close>

theorem buffer_isolation:
  assumes "buf_inv s" "sizet_bits env = 64" "pre_run env cs s" "run_buf env cs s = Inr s'"
    and "\<forall>c \<in> set cs. op_target c \<noteq> w"
  shows "contents s' w = contents s w"
  using run_buf_frame [OF assms] .

lemma buffer_isolation_witness:
  "\<exists>s'. run_buf demo_env [OpSetAt 1 0 9] demo_shared = Inr s' \<and> contents s' 0 = [1, 2, 3]
      \<and> contents s' 1 = [9, 2, 3]"
proof -
  obtain s' where s': "run_buf demo_env [OpSetAt 1 0 9] demo_shared = Inr s'"
      "contents s' 1 = [9, 2, 3]"
    by (simp add: demo_shared_def buf_exec_defs)
  have "contents s' 0 = contents demo_shared 0"
    by (rule buffer_isolation [OF demo_shared_inv _ _ s'(1)]) (simp_all add: demo_env_def split: sum.splits)
  then show ?thesis using s' by (simp add: demo_shared_def buf_exec_defs)
qed

text \<open>\<open>Compare\<close> is a total order on buffers shorter than 2 GB: zero exactly for
  equal contents, negative exactly when the first is shorter, or as long and
  lexicographically smaller.\<close>

theorem Compare_shortlex:
  assumes "buf_inv s" "length (contents s v) < 2 ^ 31" "length (contents s w) < 2 ^ 31"
  shows "(Compare s v w = 0 \<longleftrightarrow> contents s v = contents s w)
    \<and> (Compare s v w < 0 \<longleftrightarrow> shortlex_less (contents s v) (contents s w))"
proof -
  have l: "length (contents s x) = unat (GetBufSize s x)" for x by (rule length_contents [OF assms(1)])
  have d: "sint (GetBufSize s v - GetBufSize s w) = int (length (contents s v)) - int (length (contents s w))"
    unfolding l using assms(2,3) by (intro sint_diff_sign) (simp_all add: l)
  have e: "GetBufSize s v = GetBufSize s w \<longleftrightarrow> length (contents s v) = length (contents s w)"
    by (simp add: l word_unat_eq_iff)
  show ?thesis
    unfolding Compare_contents [OF assms(1)] e d
    by (auto simp: memcmp_zero memcmp_less shortlex_less_def)
qed

lemma Compare_shortlex_witness:
  "Compare demo_shared 0 1 = 0 \<and> \<not> Compare demo_shared 0 1 < 0"
proof -
  have "contents demo_shared 0 = [1, 2, 3]" "contents demo_shared 1 = [1, 2, 3]"
    by (simp_all add: demo_shared_def buf_exec_defs)
  then show ?thesis
    using Compare_shortlex [OF demo_shared_inv, of 0 1] by simp
qed

text \<open>With a 32-bit \<open>SIZE_T\<close> the overflow guard of \<open>Grow\<close> misses the slack that
  the reallocation adds: growing a three byte buffer to 0xffffffef bytes succeeds,
  with 83 bytes behind a size of 4294967279.\<close>

theorem Grow_overflow_32:
  "\<exists>s s' b. run_buf demo_env32 [OpLoad 0 [1, 2, 3]] buf_init = Inr s
     \<and> SetBufSize demo_env32 0 4294967279 s = Inr s'
     \<and> GetInternalData s' 0 = Some b
     \<and> unat (m_nSize b) = 4294967279 \<and> length (m_bytes b) = 83"
  by (simp add: buf_exec_defs)

end
