(* ===== verification/Stream.thy ===== *)
theory Stream
  imports Buffer
begin

text \<open>
  \<open>CBufferStream\<close> (src/ECSUtil/XmlLiteUtil.h): the COM stream over a \<open>CBuffer\<close> that
  the XML writer fills before a request and the reader drains after a response.
  The operations take the buffer operations they call as arguments, so that their
  correctness is proved once over the interface \<open>byte_store\<close> and holds for
  \<open>CBuffer\<close> by its interpretation.
\<close>

section \<open>State and operations\<close>

datatype HRESULT = S_OK | E_ACCESSDENIED | E_NOTIMPL | E_NOINTERFACE | STG_E_INVALIDFUNCTION

datatype interface_id = IID_IUnknown | IID_IStream | IID_ISequentialStream | IID_Other

text \<open>\<open>_liPosition\<close> is the union of a LowPart and a HighPart; its cast to DWORD is
  the LowPart.\<close>

record CBufferStream =
  bs_pBuf :: nat
  bs_LowPart :: DWORD
  bs_HighPart :: DWORD
  bs_refcount :: int
  bReadOnly :: bool

definition stream_new :: "nat \<Rightarrow> bool \<Rightarrow> CBufferStream" where
  "stream_new buf ro = \<lparr> bs_pBuf = buf, bs_LowPart = 0, bs_HighPart = 0, bs_refcount = 0,
                        bReadOnly = ro \<rparr>"

definition stream_AddRef :: "CBufferStream \<Rightarrow> int \<times> CBufferStream" where
  "stream_AddRef st = (bs_refcount st + 1, st\<lparr> bs_refcount := bs_refcount st + 1 \<rparr>)"

text \<open>\<open>None\<close>: the object deleted itself.\<close>

definition stream_Release :: "CBufferStream \<Rightarrow> int \<times> CBufferStream option" where
  "stream_Release st = (let res = bs_refcount st - 1 in
     (res, if res = 0 then None else Some (st\<lparr> bs_refcount := res \<rparr>)))"

definition stream_QueryInterface :: "interface_id \<Rightarrow> CBufferStream \<Rightarrow> HRESULT \<times> CBufferStream" where
  "stream_QueryInterface iid st =
     (if iid \<in> {IID_IUnknown, IID_IStream, IID_ISequentialStream}
      then (S_OK, snd (stream_AddRef st)) else (E_NOINTERFACE, st))"

definition advance :: "DWORD \<Rightarrow> CBufferStream \<Rightarrow> CBufferStream" where
  "advance n st = st\<lparr> bs_LowPart := bs_LowPart st + n, bs_HighPart := 0 \<rparr>"

definition stream_Read ::
  "('s \<Rightarrow> nat \<Rightarrow> DWORD) \<Rightarrow> (nat \<Rightarrow> nat \<Rightarrow> nat \<Rightarrow> 's \<Rightarrow> 'e + BYTE list \<times> 's)
   \<Rightarrow> DWORD \<Rightarrow> CBufferStream \<Rightarrow> 's \<Rightarrow> 'e + HRESULT \<times> BYTE list \<times> CBufferStream \<times> 's" where
  "stream_Read bsize get cb st s =
     (if bs_LowPart st < bsize s (bs_pBuf st) then
        let dwRemainingBytes = bsize s (bs_pBuf st) - bs_LowPart st;
            cbRead = (if cb > dwRemainingBytes then dwRemainingBytes else cb) in
        if cbRead = 0 then Inr (S_OK, [], advance 0 st, s)
        else res_bind (get (bs_pBuf st) (unat (bs_LowPart st)) (unat cbRead) s) (\<lambda>(data, s1).
             Inr (S_OK, data, advance cbRead st, s1))
      else Inr (S_OK, [], st, s))"

definition stream_Write ::
  "('s \<Rightarrow> nat \<Rightarrow> DWORD) \<Rightarrow> (nat \<Rightarrow> DWORD \<Rightarrow> 's \<Rightarrow> 'e + 's)
   \<Rightarrow> (nat \<Rightarrow> nat \<Rightarrow> BYTE list \<Rightarrow> 's \<Rightarrow> 'e + 's)
   \<Rightarrow> BYTE list \<Rightarrow> CBufferStream \<Rightarrow> 's \<Rightarrow> 'e + HRESULT \<times> DWORD \<times> CBufferStream \<times> 's" where
  "stream_Write bsize resize put pv st s =
     (if bReadOnly st then Inr (E_ACCESSDENIED, 0, st, s)
      else let cb = (of_nat (length pv) :: DWORD); pos = bs_LowPart st; buf = bs_pBuf st in
        res_bind (if pos + cb > bsize s buf
                  then res_bind (resize buf (pos + cb + 8196) s) (resize buf (pos + cb))
                  else Inr s) (\<lambda>s1.
        res_bind (put buf (unat pos) pv s1) (\<lambda>s2.
        Inr (S_OK, cb, advance cb st, s2))))"

datatype seek_origin = STREAM_SEEK_SET | STREAM_SEEK_CUR | STREAM_SEEK_END | SEEK_OTHER

definition stream_Seek ::
  "('s \<Rightarrow> nat \<Rightarrow> DWORD) \<Rightarrow> DWORD \<Rightarrow> seek_origin \<Rightarrow> CBufferStream \<Rightarrow> 's \<Rightarrow> HRESULT \<times> CBufferStream" where
  "stream_Seek bsize dist origin st s = (case origin of
     STREAM_SEEK_SET \<Rightarrow> (S_OK, st\<lparr> bs_LowPart := dist, bs_HighPart := 0 \<rparr>)
   | STREAM_SEEK_CUR \<Rightarrow> (S_OK, advance dist st)
   | STREAM_SEEK_END \<Rightarrow> (S_OK, st\<lparr> bs_LowPart := bsize s (bs_pBuf st) + dist, bs_HighPart := 0 \<rparr>)
   | SEEK_OTHER \<Rightarrow> (STG_E_INVALIDFUNCTION, st))"

definition stream_Stat :: "('s \<Rightarrow> nat \<Rightarrow> DWORD) \<Rightarrow> CBufferStream \<Rightarrow> 's \<Rightarrow> HRESULT \<times> ULONGLONG" where
  "stream_Stat bsize st s = (S_OK, ucast (bsize s (bs_pBuf st)))"

text \<open>SetSize, CopyTo, Commit, Revert, LockRegion, UnlockRegion and Clone.\<close>

definition stream_NotImpl :: HRESULT where "stream_NotImpl = E_NOTIMPL"

text \<open>A producer writing a sequence of chunks, as the XML writer does.\<close>

fun write_chunks ::
  "('s \<Rightarrow> nat \<Rightarrow> DWORD) \<Rightarrow> (nat \<Rightarrow> DWORD \<Rightarrow> 's \<Rightarrow> 'e + 's)
   \<Rightarrow> (nat \<Rightarrow> nat \<Rightarrow> BYTE list \<Rightarrow> 's \<Rightarrow> 'e + 's)
   \<Rightarrow> BYTE list list \<Rightarrow> CBufferStream \<Rightarrow> 's \<Rightarrow> 'e + CBufferStream \<times> 's" where
  "write_chunks bsize resize put [] st s = Inr (st, s)"
| "write_chunks bsize resize put (c # cs) st s =
     res_bind (stream_Write bsize resize put c st s) (\<lambda>(_, _, st1, s1).
     write_chunks bsize resize put cs st1 s1)"

text \<open>A consumer reading chunks of the given sizes, as the XML reader does.\<close>

fun read_chunks ::
  "('s \<Rightarrow> nat \<Rightarrow> DWORD) \<Rightarrow> (nat \<Rightarrow> nat \<Rightarrow> nat \<Rightarrow> 's \<Rightarrow> 'e + BYTE list \<times> 's)
   \<Rightarrow> DWORD list \<Rightarrow> CBufferStream \<Rightarrow> 's \<Rightarrow> 'e + BYTE list \<times> CBufferStream \<times> 's" where
  "read_chunks bsize get [] st s = Inr ([], st, s)"
| "read_chunks bsize get (n # ns) st s =
     res_bind (stream_Read bsize get n st s) (\<lambda>(_, d, st1, s1).
     res_bind (read_chunks bsize get ns st1 s1) (\<lambda>(ds, st2, s2). Inr (d @ ds, st2, s2)))"

section \<open>Correctness over the interface\<close>

lemma advance_sel [simp]:
  "bs_pBuf (advance n st) = bs_pBuf st" "bs_LowPart (advance n st) = bs_LowPart st + n"
  "bs_HighPart (advance n st) = 0" "bReadOnly (advance n st) = bReadOnly st"
  "bs_refcount (advance n st) = bs_refcount st"
  by (simp_all add: advance_def)

context byte_store
begin

lemma write_resize:
  assumes "inv s" "unat n + 8196 < 2 ^ 32" "length (content s v) < unat n"
    and "res_bind (resize v (n + 8196) s) (resize v n) = Inr s'"
  shows "inv s' \<and> (\<exists>pad. length (content s v @ pad) = unat n
           \<and> content s' = (content s)(v := content s v @ pad))"
proof -
  obtain s1 where s1: "resize v (n + 8196) s = Inr s1" "resize v n s1 = Inr s'"
    using assms(4) by (auto simp: res_simps)
  have n: "unat (n + 8196) = unat n + 8196"
    using assms(2) by (subst unat_add_no_wrap) simp_all
  obtain p1 where p1: "inv s1" "length p1 = unat n + 8196 - length (content s v)"
      "content s1 = (content s)(v := content s v @ p1)"
    using resize_ok [OF assms(1) s1(1)] assms(3) n by auto
  obtain p2 where p2: "inv s'" "length p2 = unat n - length (content s1 v)"
      "content s' = (content s1)(v := take (unat n) (content s1 v) @ p2)"
    using resize_ok [OF p1(1) s1(2)] by auto
  have "content s' v = content s v @ take (unat n - length (content s v)) p1"
    using p1 p2 assms(3) by simp
  moreover have "length (content s v @ take (unat n - length (content s v)) p1) = unat n"
    using p1(2) assms(3) by simp
  ultimately show ?thesis
    using p2(1,3) p1(3) by (metis fun_upd_same fun_upd_upd)
qed

lemma write_ok:
  assumes inv: "inv s" and ro: "\<not> bReadOnly st"
    and fit: "unat (bs_LowPart st) + length pv + 8196 < 2 ^ 32"
    and w: "stream_Write bsize resize put pv st s = Inr (hr, n, st', s')"
  shows "hr = S_OK \<and> n = of_nat (length pv) \<and> st' = advance n st \<and> inv s'
    \<and> unat (bs_LowPart st') = unat (bs_LowPart st) + length pv
    \<and> (\<exists>pad. length (content s (bs_pBuf st) @ pad)
               = max (length (content s (bs_pBuf st))) (unat (bs_LowPart st) + length pv)
         \<and> content s' = (content s)(bs_pBuf st :=
              write_at (unat (bs_LowPart st)) pv (content s (bs_pBuf st) @ pad)))"
proof -
  let ?b = "bs_pBuf st" and ?pos = "bs_LowPart st" and ?cb = "of_nat (length pv) :: DWORD"
  have cb: "unat ?cb = length pv" using fit by (simp add: unat_of_nat32)
  have p: "unat (?pos + ?cb) = unat ?pos + length pv"
    using fit cb by (subst unat_add_no_wrap) simp_all
  obtain s1 where s1: "(if ?pos + ?cb > bsize s ?b
      then res_bind (resize ?b (?pos + ?cb + 8196) s) (resize ?b (?pos + ?cb)) else Inr s) = Inr s1"
      "put ?b (unat ?pos) pv s1 = Inr s'"
      and r: "hr = S_OK" "n = ?cb" "st' = advance ?cb st"
    using w ro by (auto simp: stream_Write_def Let_def res_simps)
  have "inv s1 \<and> (\<exists>pad. length (content s ?b @ pad) = max (length (content s ?b)) (unat ?pos + length pv)
      \<and> content s1 = (content s)(?b := content s ?b @ pad))"
  proof (cases "?pos + ?cb > bsize s ?b")
    case True
    then have "length (content s ?b) < unat ?pos + length pv"
      by (simp add: word_less_nat_alt p bsize_content [OF inv])
    then show ?thesis
      using write_resize [OF inv, of "?pos + ?cb" ?b s1] s1(1) True fit p by auto
  next
    case False
    then have "unat ?pos + length pv \<le> length (content s ?b)"
      by (simp add: word_less_nat_alt p bsize_content [OF inv])
    then show ?thesis using s1(1) False inv by (auto intro!: exI [of _ "[]"])
  qed
  then obtain pad where pad: "inv s1"
      "length (content s ?b @ pad) = max (length (content s ?b)) (unat ?pos + length pv)"
      "content s1 = (content s)(?b := content s ?b @ pad)" by blast
  have "unat ?pos + length pv \<le> length (content s1 ?b)" using pad(2,3) by simp
  then show ?thesis
    using put_ok [OF pad(1) _ s1(2)] pad p r by (auto intro!: exI [of _ pad])
qed

lemma write_append:
  assumes inv: "inv s" and ro: "\<not> bReadOnly st"
    and pos: "unat (bs_LowPart st) = length (content s (bs_pBuf st))"
    and fit: "length (content s (bs_pBuf st)) + length (concat cs) + 8196 < 2 ^ 32"
    and w: "write_chunks bsize resize put cs st s = Inr (st', s')"
  shows "inv s' \<and> bs_pBuf st' = bs_pBuf st \<and> bReadOnly st' = bReadOnly st
    \<and> content s' = (content s)(bs_pBuf st := content s (bs_pBuf st) @ concat cs)
    \<and> unat (bs_LowPart st') = length (content s' (bs_pBuf st))"
  using assms
proof (induction cs arbitrary: st s)
  case Nil
  then show ?case by (simp add: fun_upd_idem)
next
  case (Cons c cs)
  obtain hr n st1 s1 where w1: "stream_Write bsize resize put c st s = Inr (hr, n, st1, s1)"
      "write_chunks bsize resize put cs st1 s1 = Inr (st', s')"
    using Cons.prems(5) by (auto simp: res_simps)
  obtain pad where pad: "st1 = advance n st" "inv s1" "unat (bs_LowPart st1) = unat (bs_LowPart st) + length c"
      "length (content s (bs_pBuf st) @ pad) = length (content s (bs_pBuf st)) + length c"
      "content s1 = (content s)(bs_pBuf st := write_at (unat (bs_LowPart st)) c (content s (bs_pBuf st) @ pad))"
    using write_ok [OF Cons.prems(1,2) _ w1(1)] Cons.prems(3,4) by (auto simp: max_def)
  have c1: "content s1 = (content s)(bs_pBuf st := content s (bs_pBuf st) @ c)"
    using pad(4,5) Cons.prems(3) by (simp add: write_at_def)
  have st1: "bs_pBuf st1 = bs_pBuf st" "bReadOnly st1 = bReadOnly st" using pad(1) by simp_all
  have "inv s' \<and> bs_pBuf st' = bs_pBuf st1 \<and> bReadOnly st' = bReadOnly st1
    \<and> content s' = (content s1)(bs_pBuf st1 := content s1 (bs_pBuf st1) @ concat cs)
    \<and> unat (bs_LowPart st') = length (content s' (bs_pBuf st1))"
    by (rule Cons.IH [OF pad(2)]) (use Cons.prems st1 pad(3) c1 w1(2) in auto)
  then show ?case using st1 c1 by simp
qed

lemma read_ok:
  assumes inv: "inv s" and r: "stream_Read bsize get cb st s = Inr (hr, d, st', s')"
  shows "hr = S_OK \<and> inv s' \<and> content s' = content s \<and> bs_pBuf st' = bs_pBuf st
    \<and> d = take (unat cb) (drop (unat (bs_LowPart st)) (content s (bs_pBuf st)))
    \<and> unat (bs_LowPart st') = unat (bs_LowPart st) + length d"
proof (cases "bs_LowPart st < bsize s (bs_pBuf st)")
  case False
  then show ?thesis
    using inv r by (auto simp: stream_Read_def word_less_nat_alt bsize_content)
next
  case True
  let ?b = "bs_pBuf st" and ?pos = "bs_LowPart st"
  define rem where "rem = bsize s ?b - ?pos"
  define n where "n = (if cb > rem then rem else cb)"
  have rem: "unat rem = length (content s ?b) - unat ?pos"
    using True by (simp add: rem_def unat_sub bsize_content [OF inv] word_le_nat_alt word_less_nat_alt less_imp_le)
  have lt: "unat ?pos < length (content s ?b)"
    using True by (simp add: word_less_nat_alt bsize_content [OF inv])
  have n: "unat n = min (unat cb) (length (content s ?b) - unat ?pos)"
    by (auto simp: n_def rem [symmetric] word_less_nat_alt min_def)
  have t: "take (unat n) (drop (unat ?pos) (content s ?b)) = take (unat cb) (drop (unat ?pos) (content s ?b))"
    by (simp add: n min_def)
  have nl: "unat (?pos + n) = unat ?pos + unat n"
    using n lt bsize_content [OF inv, of ?b] unat_bound32 [of "bsize s ?b"]
    by (intro unat_add_no_wrap) simp
  have eq: "stream_Read bsize get cb st s = (if n = 0 then Inr (S_OK, [], advance 0 st, s)
      else res_bind (get ?b (unat ?pos) (unat n) s) (\<lambda>(data, s1).
           Inr (S_OK, data, advance n st, s1)))"
    by (simp only: stream_Read_def Let_def n_def rem_def True if_True)
  show ?thesis
  proof (cases "n = 0")
    case True
    then have "unat n = 0" by simp
    then have "take (unat cb) (drop (unat ?pos) (content s ?b)) = []" using t by simp
    then show ?thesis using r inv True eq by auto
  next
    case False
    obtain s1 where g: "get ?b (unat ?pos) (unat n) s = Inr (d, s1)" "hr = S_OK" "st' = advance n st" "s' = s1"
      using r False eq by (auto simp: res_simps)
    have "0 < unat n" using False by (simp add: unat_gt_0)
    then show ?thesis
      using get_ok [OF inv _ _ g(1)] n lt t nl g by (simp add: min_def split: if_splits)
  qed
qed

lemma read_chunks_ok:
  assumes inv: "inv s" and r: "read_chunks bsize get ns st s = Inr (d, st', s')"
  shows "inv s' \<and> content s' = content s
    \<and> d = take (\<Sum>n\<leftarrow>ns. unat n) (drop (unat (bs_LowPart st)) (content s (bs_pBuf st)))"
  using assms
proof (induction ns arbitrary: st s d)
  case (Cons n ns)
  obtain hr d1 st1 s1 d2 where w: "stream_Read bsize get n st s = Inr (hr, d1, st1, s1)"
      "read_chunks bsize get ns st1 s1 = Inr (d2, st', s')" "d = d1 @ d2"
    using Cons.prems(2) by (auto simp: res_simps)
  note r1 = read_ok [OF Cons.prems(1) w(1)]
  have "inv s1" using r1 by blast
  note IH = Cons.IH [OF this w(2)]
  have "drop (unat (bs_LowPart st1)) (content s (bs_pBuf st))
      = drop (unat n) (drop (unat (bs_LowPart st)) (content s (bs_pBuf st))) \<or>
      length (drop (unat (bs_LowPart st)) (content s (bs_pBuf st))) \<le> unat n
      \<and> drop (unat (bs_LowPart st1)) (content s (bs_pBuf st)) = []"
    using r1 by (auto simp: add.commute min_def)
  then show ?case
    using r1 IH w(3) by (auto simp: take_add)
qed simp

text \<open>Only memory can run out.\<close>

lemma write_err:
  assumes inv: "inv s" and fit: "unat (bs_LowPart st) + length pv + 8196 < 2 ^ 32"
    and w: "stream_Write bsize resize put pv st s = Inl e"
  shows "e = oom"
proof -
  let ?b = "bs_pBuf st" and ?pos = "bs_LowPart st" and ?cb = "of_nat (length pv) :: DWORD"
  have cb: "unat ?cb = length pv" using fit by (simp add: unat_of_nat32)
  have p: "unat (?pos + ?cb) = unat ?pos + length pv"
    using fit cb by (subst unat_add_no_wrap) simp_all
  have ro: "\<not> bReadOnly st" using w by (auto simp: stream_Write_def)
  let ?r = "if ?pos + ?cb > bsize s ?b
      then res_bind (resize ?b (?pos + ?cb + 8196) s) (resize ?b (?pos + ?cb)) else Inr s"
  consider "?r = Inl e" | s1 where "?r = Inr s1" "put ?b (unat ?pos) pv s1 = Inl e"
    using w ro by (auto simp: stream_Write_def Let_def res_simps)
  then show ?thesis
  proof cases
    case 1
    then show ?thesis
      using resize_err [OF inv] resize_err resize_ok [OF inv]
      by (simp add: res_simps split: if_splits) blast
  next
    case (2 s1)
    have "inv s1 \<and> unat ?pos + length pv \<le> length (content s1 ?b)"
    proof (cases "?pos + ?cb > bsize s ?b")
      case True
      then have "length (content s ?b) < unat ?pos + length pv"
        by (simp add: word_less_nat_alt p bsize_content [OF inv])
      then show ?thesis
        using write_resize [OF inv, of "?pos + ?cb" ?b s1] 2(1) True fit p by auto
    next
      case False
      then show ?thesis
        using 2(1) inv by (auto simp: word_less_nat_alt p bsize_content [OF inv])
    qed
    then show ?thesis using put_err 2(2) by blast
  qed
qed

lemma write_chunks_err:
  assumes "inv s" "\<not> bReadOnly st" "unat (bs_LowPart st) = length (content s (bs_pBuf st))"
    and "length (content s (bs_pBuf st)) + length (concat cs) + 8196 < 2 ^ 32"
    and "write_chunks bsize resize put cs st s = Inl e"
  shows "e = oom"
  using assms
proof (induction cs arbitrary: st s)
  case (Cons c cs)
  then consider "stream_Write bsize resize put c st s = Inl e"
    | hr n st1 s1 where "stream_Write bsize resize put c st s = Inr (hr, n, st1, s1)"
        "write_chunks bsize resize put cs st1 s1 = Inl e"
    by (auto simp: res_simps)
  then show ?case
  proof cases
    case 1
    then show ?thesis using write_err [OF Cons.prems(1) _ 1] Cons.prems(3,4) by simp
  next
    case (2 hr n st1 s1)
    have wc: "write_chunks bsize resize put [c] st s = Inr (st1, s1)" using 2(1) by simp
    have cc: "concat [c] = c" by simp
    have "length (content s (bs_pBuf st)) + length (concat [c]) + 8196 < 2 ^ 32"
      using Cons.prems(4) by simp
    from write_append [OF Cons.prems(1-3) this wc, unfolded cc]
    have a: "inv s1" "bs_pBuf st1 = bs_pBuf st" "bReadOnly st1 = bReadOnly st"
        "content s1 = (content s)(bs_pBuf st := content s (bs_pBuf st) @ c)"
        "unat (bs_LowPart st1) = length (content s1 (bs_pBuf st))"
      by blast+
    have "\<not> bReadOnly st1" using a(3) Cons.prems(2) by simp
    moreover have "unat (bs_LowPart st1) = length (content s1 (bs_pBuf st1))" using a(2,5) by (simp only:)
    moreover have "length (content s1 (bs_pBuf st1)) + length (concat cs) + 8196 < 2 ^ 32"
      using a(2,4) Cons.prems(4) by simp
    ultimately show ?thesis by (rule Cons.IH [OF a(1) _ _ _ 2(2)])
  qed
qed simp

lemma read_err:
  assumes inv: "inv s" and r: "stream_Read bsize get cb st s = Inl e"
  shows "e = oom"
proof -
  let ?b = "bs_pBuf st" and ?pos = "bs_LowPart st"
  define n where "n = (if cb > bsize s ?b - ?pos then bsize s ?b - ?pos else cb)"
  have True: "?pos < bsize s ?b" using r by (simp add: stream_Read_def split: if_splits)
  have g: "get ?b (unat ?pos) (unat n) s = Inl e" "n \<noteq> 0"
    using r True unfolding n_def by (auto simp: stream_Read_def Let_def res_simps split: if_splits)
  have "unat n \<le> unat (bsize s ?b - ?pos)" by (auto simp: n_def word_le_nat_alt word_less_nat_alt)
  then have "unat ?pos + unat n \<le> length (content s ?b)"
    using True by (simp add: unat_sub bsize_content [OF inv] word_le_nat_alt word_less_nat_alt less_imp_le)
  then show ?thesis using get_err [OF inv _ _ g(1)] g(2) by (simp add: unat_gt_0)
qed

lemma read_chunks_err:
  assumes "inv s" "read_chunks bsize get ns st s = Inl e"
  shows "e = oom"
  using assms
proof (induction ns arbitrary: st s)
  case (Cons n ns)
  then consider "stream_Read bsize get n st s = Inl e"
    | hr d st1 s1 where "stream_Read bsize get n st s = Inr (hr, d, st1, s1)"
        "read_chunks bsize get ns st1 s1 = Inl e"
    by (auto simp: res_simps)
  then show ?case
    by cases (use read_err [OF Cons.prems(1)] read_ok [OF Cons.prems(1)] Cons.IH in blast)+
qed simp

lemma write_then_read:
  assumes inv: "inv s" and empty: "content s v = []"
    and fit: "length (concat cs) + 8196 < 2 ^ 32" and ns: "length (concat cs) \<le> (\<Sum>n\<leftarrow>ns. unat n)"
  shows "case write_chunks bsize resize put cs (stream_new v False) s of
      Inl e \<Rightarrow> e = oom
    | Inr (_, s1) \<Rightarrow> content s1 = (content s)(v := concat cs)
       \<and> (case read_chunks bsize get ns (stream_new v True) s1 of
            Inl e \<Rightarrow> e = oom
          | Inr (d, _, s2) \<Rightarrow> d = concat cs \<and> content s2 = content s1)"
proof (cases "write_chunks bsize resize put cs (stream_new v False) s")
  case (Inl e)
  then show ?thesis
    using write_chunks_err [OF inv _ _ _ Inl] empty fit by (simp add: stream_new_def)
next
  case (Inr r)
  obtain st1 s1 where r: "r = (st1, s1)" by (cases r)
  have w: "inv s1" "content s1 = (content s)(v := concat cs)"
    using write_append [OF inv _ _ _ Inr [unfolded r]] empty fit by (auto simp: stream_new_def)
  show ?thesis
  proof (cases "read_chunks bsize get ns (stream_new v True) s1")
    case (Inl e)
    then show ?thesis using read_chunks_err [OF w(1) Inl] w(2) Inr r by simp
  next
    case R: (Inr q)
    obtain d st2 s2 where q: "q = (d, st2, s2)" by (cases q)
    show ?thesis
      using read_chunks_ok [OF w(1) R [unfolded q]] w(2) Inr r R q ns by (simp add: stream_new_def)
  qed
qed

end

section \<open>The stream over \<open>CBuffer\<close>\<close>

definition CBufferStream_Write ::
  "heap_env \<Rightarrow> BYTE list list \<Rightarrow> CBufferStream \<Rightarrow> buf_state \<Rightarrow> buf_error + CBufferStream \<times> buf_state" where
  "CBufferStream_Write env = write_chunks GetBufSize (SetBufSize env) (put_data env)"

definition CBufferStream_Read ::
  "heap_env \<Rightarrow> DWORD list \<Rightarrow> CBufferStream \<Rightarrow> buf_state \<Rightarrow> buf_error + BYTE list \<times> CBufferStream \<times> buf_state" where
  "CBufferStream_Read env = read_chunks GetBufSize (get_data env)"

lemmas stream_defs = stream_new_def stream_Write_def stream_Read_def put_data_def get_data_def
  advance_def Let_def

text \<open>What a writer puts into an empty buffer through a stream, in chunks of any
  sizes, is what a reader gets back from a new read-only stream over it, in
  chunks of any sizes; no other buffer changes, and the only failure of either is
  running out of memory.\<close>

theorem stream_roundtrip:
  assumes "buf_inv s" "sizet_bits env = 64" "IsEmpty s v"
    and "length (concat cs) + 8196 < 2 ^ 32" "length (concat cs) \<le> (\<Sum>n\<leftarrow>ns. unat n)"
  shows "case CBufferStream_Write env cs (stream_new v False) s of
      Inl e \<Rightarrow> e = CB_MEMORY
    | Inr (_, s1) \<Rightarrow> contents s1 = (contents s)(v := concat cs)
       \<and> (case CBufferStream_Read env ns (stream_new v True) s1 of
            Inl e \<Rightarrow> e = CB_MEMORY
          | Inr (d, _, s2) \<Rightarrow> d = concat cs \<and> contents s2 = contents s1)"
  unfolding CBufferStream_Write_def CBufferStream_Read_def
  using cbuf.write_then_read [of s env v cs ns] assms IsEmpty_contents [OF assms(1)] by simp

lemma stream_roundtrip_witness:
  "\<exists>st1 s1 st2 s2. CBufferStream_Write demo_env [[1, 2], [3]] (stream_new 0 False) buf_init = Inr (st1, s1)
     \<and> CBufferStream_Read demo_env [1, 9] (stream_new 0 True) s1 = Inr ([1, 2, 3], st2, s2)"
proof -
  obtain st1 s1 where w: "CBufferStream_Write demo_env [[1, 2], [3]] (stream_new 0 False) buf_init = Inr (st1, s1)"
    and r: "\<exists>q. CBufferStream_Read demo_env [1, 9] (stream_new 0 True) s1 = Inr q"
    by (simp add: CBufferStream_Write_def CBufferStream_Read_def stream_defs buf_exec_defs)
  have "IsEmpty buf_init 0" by (simp add: buf_exec_defs)
  then show ?thesis
    using stream_roundtrip [OF buf_inv_init, of demo_env 0 "[[1, 2], [3]]" "[1, 9]"] w r
    by (auto simp: demo_env_def)
qed

end
