(* ===== verification/Uri.thy ===== *)
theory Uri
  imports Prelude
begin

text \<open>
  Percent encoding and hexadecimal digests (src/ECSUtil/UriUtils.cpp, UriUtils.h
  and \<open>BinaryToHexString\<close> of fmtnum.cpp). Strings are the UTF-8 bytes the code
  gets from \<open>CAnsiString::Set\<close>. The decoder of the code is the Windows function
  WSDUriDecode, which is not part of the sources: it is a parameter of what uses it, and
  \<open>pct_decode\<close> is the RFC 3986 decoder against which the encoder is specified.
\<close>

section \<open>The encoder\<close>

datatype E_URI_ENCODE = StdSAFE | AllSAFE | V4Auth | V4AuthSlash

definition pSAFEInit :: string where "pSAFEInit = ''-./_~''"
definition pSAFEAllInit :: string where "pSAFEAllInit = ''/''"
definition pSAFEv4AuthInit :: string where "pSAFEv4AuthInit = ''-./_~''"
definition pSAFEv4AuthSlashInit :: string where "pSAFEv4AuthSlashInit = ''-._~''"

definition InitUriEncodeArray :: "string \<Rightarrow> bool list" where
  "InitUriEncodeArray pSpecialChars =
     foldl (\<lambda>arr c. arr[char_code c := True])
       (map (\<lambda>i. (65 \<le> i \<and> i \<le> 90) \<or> (97 \<le> i \<and> i \<le> 122) \<or> (48 \<le> i \<and> i \<le> 57)) [0..<256])
       pSpecialChars"

definition safe_array :: "E_URI_ENCODE \<Rightarrow> bool list" where
  "safe_array t = (case t of
     StdSAFE \<Rightarrow> InitUriEncodeArray pSAFEInit
   | AllSAFE \<Rightarrow> InitUriEncodeArray pSAFEAllInit
   | V4Auth \<Rightarrow> InitUriEncodeArray pSAFEv4AuthInit
   | V4AuthSlash \<Rightarrow> InitUriEncodeArray pSAFEv4AuthSlashInit)"

definition DEC2HEX :: string where "DEC2HEX = ''0123456789ABCDEF''"

definition EscapeChar :: "char \<Rightarrow> string" where
  "EscapeChar ch = [CHR ''%'', DEC2HEX ! (char_code ch div 16), DEC2HEX ! (char_code ch mod 16)]"

definition encode_char :: "bool list \<Rightarrow> char \<Rightarrow> string" where
  "encode_char pSafe ch = (if pSafe ! char_code ch then [ch] else EscapeChar ch)"

text \<open>The source pointer stops at the first NUL.\<close>

definition UriEncode :: "string \<Rightarrow> E_URI_ENCODE \<Rightarrow> string" where
  "UriEncode pszInput t =
     concat (map (encode_char (safe_array t)) (takeWhile (\<lambda>c. c \<noteq> CHR 0x00) pszInput))"

definition EncodeSpecialChars :: "string \<Rightarrow> string" where
  "EncodeSpecialChars sSource = (case str_find ''://'' sSource of
     None \<Rightarrow> sSource
   | Some i \<Rightarrow>
       let iStart = i + 3;
           sOutput = take iStart sSource
             @ concat (map (\<lambda>ch. if ch = CHR ''#'' then EscapeChar ch else [ch]) (drop iStart sSource)) in
       if sOutput \<noteq> [] \<and> last sOutput = CHR ''='' then butlast sOutput @ ''%3D'' else sOutput)"

definition hex_lower :: string where "hex_lower = ''0123456789abcdef''"

definition BinaryToHexString :: "BYTE list \<Rightarrow> string" where
  "BinaryToHexString data = concat (map (\<lambda>b.
     [hex_lower ! unat (drop_bit 4 b), hex_lower ! unat (and b 0x0F)]) data)"

lemma set_BinaryToHexString: "set (BinaryToHexString data) \<subseteq> set hex_lower"
proof -
  have mem: "hex_lower ! i \<in> set hex_lower" if "i < 16" for i by (rule nth_mem) (use that in \<open>simp add: hex_lower_def\<close>)
  have "hex_lower ! unat (drop_bit 4 b) \<in> set hex_lower" "hex_lower ! unat (and b 0x0F) \<in> set hex_lower" for b :: BYTE
  proof -
    have "unat b < 2 ^ LENGTH(8)" by (rule unsigned_less)
    then have "unat b < 256" by simp
    then have "unat (drop_bit 4 b) < 16" unfolding unat_drop_bit_eq drop_bit_eq_div [of 4 "unat b"] by simp
    moreover have "unat (and b 0x0F) < 16"
    proof -
      have "and b 0x0F \<le> 0x0F" by (rule word_and_le1)
      then have "unat (and b 0x0F) \<le> unat (0x0F :: BYTE)" by (simp add: word_le_nat_alt)
      then show ?thesis by simp
    qed
    ultimately show "hex_lower ! unat (drop_bit 4 b) \<in> set hex_lower" "hex_lower ! unat (and b 0x0F) \<in> set hex_lower"
      by (simp_all add: mem)
  qed
  then show ?thesis by (auto simp: BinaryToHexString_def)
qed

section \<open>The specification: RFC 3986 decoding\<close>

definition hex_value :: "char \<Rightarrow> nat option" where
  "hex_value c =
     (if is_digit_ascii c then Some (char_code c - 48)
      else if 65 \<le> char_code c \<and> char_code c \<le> 70 then Some (char_code c - 55)
      else if 97 \<le> char_code c \<and> char_code c \<le> 102 then Some (char_code c - 87)
      else None)"

fun pct_decode :: "string \<Rightarrow> string" where
  "pct_decode (c # h # l # s) =
     (if c = CHR ''%'' then
        (case (hex_value h, hex_value l) of
           (Some a, Some b) \<Rightarrow> char_of (16 * a + b) # pct_decode s
         | _ \<Rightarrow> c # pct_decode (h # l # s))
      else c # pct_decode (h # l # s))"
| "pct_decode (c # s) = c # pct_decode s"
| "pct_decode [] = []"

text \<open>Every percent sign starts an escape.\<close>

fun well_escaped :: "string \<Rightarrow> bool" where
  "well_escaped [] = True"
| "well_escaped (c # s) =
     (if c = CHR ''%'' then
        (case s of h # l # s' \<Rightarrow> hex_value h \<noteq> None \<and> hex_value l \<noteq> None \<and> well_escaped s'
         | _ \<Rightarrow> False)
      else well_escaped s)"

section \<open>Lemmas\<close>

lemma pct_decode_plain [simp]: "c \<noteq> CHR ''%'' \<Longrightarrow> pct_decode (c # s) = c # pct_decode s"
  by (cases "(c # s)" rule: pct_decode.cases) auto

lemma hex_digits: "list_all (\<lambda>n. hex_value (DEC2HEX ! n) = Some n) [0..<16]"
  by code_simp

lemma hex_digit:
  assumes "n < 16"
  shows "hex_value (DEC2HEX ! n) = Some n" and "DEC2HEX ! n \<in> set DEC2HEX"
proof -
  show "hex_value (DEC2HEX ! n) = Some n" using hex_digits assms by (simp add: list_all_iff)
  show "DEC2HEX ! n \<in> set DEC2HEX" using assms by (intro nth_mem) (simp add: DEC2HEX_def)
qed

lemma pct_decode_escape [simp]: "pct_decode (EscapeChar c @ s) = c # pct_decode s"
proof -
  have lt: "char_code c div 16 < 16" "char_code c mod 16 < 16" by (simp_all add: less_mult_imp_div_less)
  have "char_of (16 * (char_code c div 16) + char_code c mod 16) = c"
    by (simp add: char_code_def)
  then show ?thesis
    by (simp add: EscapeChar_def hex_digit(1) [OF lt(1)] hex_digit(1) [OF lt(2)])
qed

lemma well_escaped_escape [simp]: "well_escaped (EscapeChar c @ s) = well_escaped s"
proof -
  have lt: "char_code c div 16 < 16" "char_code c mod 16 < 16" by (simp_all add: less_mult_imp_div_less)
  then show ?thesis
    by (simp add: EscapeChar_def hex_digit(1) [OF lt(1)] hex_digit(1) [OF lt(2)])
qed

lemma alnum_array:
  "length (map f [0..<256]) = 256" "i < 256 \<Longrightarrow> map f [0..<256] ! i = f i"
  by (simp_all only: length_map length_upt diff_zero nth_map nth_upt add_0)

lemma set_flags:
  "length (foldl (\<lambda>arr c. arr[char_code c := True]) arr sp) = length arr"
  "length arr = 256 \<Longrightarrow> n < 256 \<Longrightarrow>
   foldl (\<lambda>arr c. arr[char_code c := True]) arr sp ! n \<longleftrightarrow> arr ! n \<or> n \<in> char_code ` set sp"
  by (induction sp arbitrary: arr) (auto simp: nth_list_update)

lemma length_InitUriEncodeArray [simp]: "length (InitUriEncodeArray sp) = 256"
  unfolding InitUriEncodeArray_def set_flags(1) by (rule alnum_array(1))

lemma InitUriEncodeArray_nth:
  "InitUriEncodeArray sp ! char_code c \<longleftrightarrow> is_alnum_ascii c \<or> c \<in> set sp"
  unfolding InitUriEncodeArray_def set_flags(2) [OF alnum_array(1) char_code_less]
    alnum_array(2) [OF char_code_less]
  by (auto simp: is_alnum_ascii_def is_upper_ascii_def is_lower_ascii_def
      is_digit_ascii_def char_code_inject)

definition safe_specials :: "E_URI_ENCODE \<Rightarrow> string" where
  "safe_specials t = (case t of StdSAFE \<Rightarrow> ''-./_~'' | AllSAFE \<Rightarrow> ''/''
     | V4Auth \<Rightarrow> ''-./_~'' | V4AuthSlash \<Rightarrow> ''-._~'')"

definition is_safe :: "E_URI_ENCODE \<Rightarrow> char \<Rightarrow> bool" where
  "is_safe t c \<longleftrightarrow> is_alnum_ascii c \<or> c \<in> set (safe_specials t)"

lemma safe_array_nth: "safe_array t ! char_code c \<longleftrightarrow> is_safe t c"
  by (cases t) (simp_all add: safe_array_def InitUriEncodeArray_nth is_safe_def safe_specials_def
      pSAFEInit_def pSAFEAllInit_def pSAFEv4AuthInit_def pSAFEv4AuthSlashInit_def)

lemma percent_not_safe: "\<not> is_safe t CHR ''%''"
  by (cases t) (simp_all add: is_safe_def safe_specials_def is_alnum_ascii_def is_upper_ascii_def
      is_lower_ascii_def is_digit_ascii_def char_code_def)

lemma encode_char_safe: "encode_char (safe_array t) c = (if is_safe t c then [c] else EscapeChar c)"
  by (simp add: encode_char_def safe_array_nth)

lemma pct_decode_encode:
  "pct_decode (concat (map (encode_char (safe_array t)) s) @ r) = s @ pct_decode r"
proof (induction s)
  case (Cons c s)
  have "is_safe t c \<Longrightarrow> c \<noteq> CHR ''%''" using percent_not_safe by metis
  then show ?case using Cons by (auto simp: encode_char_safe)
qed simp

lemma takeWhile_no_NUL: "CHR 0x00 \<notin> set s \<Longrightarrow> takeWhile (\<lambda>c. c \<noteq> CHR 0x00) s = s"
  by (simp add: takeWhile_eq_all_conv) metis

lemma decode_UriEncode: "CHR 0x00 \<notin> set s \<Longrightarrow> pct_decode (UriEncode s t) = s"
  using pct_decode_encode [of t s "[]"] by (simp add: UriEncode_def takeWhile_no_NUL)

lemma UriEncode_chars: "c \<in> set (UriEncode s t) \<Longrightarrow> is_safe t c \<or> c = CHR ''%'' \<or> c \<in> set DEC2HEX"
proof -
  have esc: "c \<in> set (EscapeChar x) \<Longrightarrow> c = CHR ''%'' \<or> c \<in> set DEC2HEX" for c x
    using hex_digit(2) [of "char_code x div 16"] hex_digit(2) [of "char_code x mod 16"]
    by (auto simp: EscapeChar_def less_mult_imp_div_less)
  assume "c \<in> set (UriEncode s t)"
  then obtain x where "c \<in> set (encode_char (safe_array t) x)" by (auto simp: UriEncode_def)
  then show ?thesis using esc by (auto simp: encode_char_safe split: if_splits)
qed

lemma length_UriEncode: "length (UriEncode s t) \<le> 3 * length (takeWhile (\<lambda>c. c \<noteq> CHR 0x00) s)"
proof -
  have "length (encode_char (safe_array t) c) \<le> 3" for c by (simp add: encode_char_safe EscapeChar_def)
  then have "length (concat (map (encode_char (safe_array t)) u)) \<le> 3 * length u" for u
    by (induction u) (auto intro: order_trans add_mono)
  then show ?thesis by (simp add: UriEncode_def)
qed

lemma UriEncode_StdSAFE_V4Auth: "UriEncode s V4Auth = UriEncode s StdSAFE"
  by (simp add: UriEncode_def safe_array_def pSAFEInit_def pSAFEv4AuthInit_def)

lemma UriEncode_well_escaped: "well_escaped (UriEncode s t)"
proof -
  have "well_escaped (concat (map (encode_char (safe_array t)) u))" for u
  proof (induction u)
    case (Cons c u)
    have "is_safe t c \<Longrightarrow> c \<noteq> CHR ''%''" using percent_not_safe by metis
    then show ?case using Cons by (auto simp: encode_char_safe)
  qed simp
  then show ?thesis by (simp add: UriEncode_def)
qed

subsection \<open>Special characters of a shareable URL\<close>

definition escape_hash :: "char \<Rightarrow> string" where
  "escape_hash ch = (if ch = CHR ''#'' then EscapeChar ch else [ch])"

lemma hex_value_not_special: "hex_value CHR ''='' = None" "hex_value CHR ''#'' = None"
  by (simp_all add: hex_value_def is_digit_ascii_def char_code_def)

lemma decode_append: "well_escaped a \<Longrightarrow> pct_decode (a @ b) = pct_decode a @ pct_decode b"
  by (induction a rule: well_escaped.induct) (auto split: list.splits if_splits option.splits)

lemma escape_hash_decode:
  "well_escaped r \<Longrightarrow> well_escaped (concat (map escape_hash r))
     \<and> pct_decode (concat (map escape_hash r)) = pct_decode r"
proof (induction r rule: well_escaped.induct)
  case (2 c s)
  show ?case
  proof (cases "c = CHR ''%''")
    case True
    then obtain h l s' where s: "s = h # l # s'" "hex_value h \<noteq> None" "hex_value l \<noteq> None" "well_escaped s'"
      using 2 by (auto split: list.splits)
    then have "h \<noteq> CHR ''#''" "l \<noteq> CHR ''#''" using hex_value_not_special by auto
    then show ?thesis using s True 2 by (auto simp: escape_hash_def)
  next
    case False
    then show ?thesis using 2 by (auto simp: escape_hash_def)
  qed
qed simp

lemma well_escaped_butlast: "well_escaped (a @ ''='') \<Longrightarrow> well_escaped a"
proof (induction a rule: well_escaped.induct)
  case (2 c s)
  show ?case
  proof (cases "c = CHR ''%''")
    case True
    then obtain h l s' where s: "s = h # l # s'"
      using "2.prems" by (cases s; cases "tl s") (auto simp: hex_value_not_special)
    then show ?thesis using 2 True by auto
  next
    case False
    then show ?thesis using 2 by auto
  qed
qed simp

lemma escape_hash_no_hash: "CHR ''#'' \<notin> set (concat (map escape_hash r))"
proof -
  have "c \<in> set (EscapeChar x) \<Longrightarrow> c \<noteq> CHR ''#''" for c x
  proof -
    have "CHR ''#'' \<notin> set DEC2HEX" by (simp add: DEC2HEX_def)
    then show "c \<in> set (EscapeChar x) \<Longrightarrow> c \<noteq> CHR ''#''"
      using hex_digit(2) [of "char_code x div 16"] hex_digit(2) [of "char_code x mod 16"]
      by (auto simp: EscapeChar_def less_mult_imp_div_less)
  qed
  then show ?thesis by (fastforce simp: escape_hash_def split: if_splits)
qed

lemma str_find_protocol: "CHR '':'' \<notin> set p \<Longrightarrow> str_find ''://'' (p @ ''://'' @ r) = Some (length p)"
  by (induction p) auto

lemma EncodeSpecialChars_url:
  assumes "CHR '':'' \<notin> set p"
  shows "EncodeSpecialChars (p @ ''://'' @ r) =
    (let e = concat (map escape_hash r) in
     p @ ''://'' @ (if r \<noteq> [] \<and> last r = CHR ''='' then butlast e @ ''%3D'' else e))"
proof -
  have eh: "(\<lambda>ch. if ch = CHR ''#'' then EscapeChar ch else [ch]) = escape_hash"
    by (simp add: escape_hash_def fun_eq_iff)
  have lst: "r \<noteq> [] \<Longrightarrow> last (concat (map escape_hash r)) = CHR ''='' \<longleftrightarrow> last r = CHR ''=''"
    by (cases r rule: rev_cases)
      (auto simp: escape_hash_def EscapeChar_def DEC2HEX_def char_code_def)
  have ne: "concat (map escape_hash r) = [] \<longleftrightarrow> r = []"
    by (cases r) (auto simp: escape_hash_def EscapeChar_def)
  show ?thesis
    using lst ne unfolding EncodeSpecialChars_def str_find_protocol [OF assms] option.case Let_def eh
    by (simp add: butlast_append)
qed

section \<open>The interface of the decoder\<close>

text \<open>What the signing code relies on: decoding an encoded string gives it back.\<close>

locale uri_decoder =
  fixes dec :: "string \<Rightarrow> string"
  assumes dec_encode: "CHR 0x00 \<notin> set s \<Longrightarrow> dec (UriEncode s t) = s"
begin

lemma reencode_path: "CHR 0x00 \<notin> set p \<Longrightarrow> UriEncode (dec (UriEncode p StdSAFE)) V4Auth = UriEncode p StdSAFE"
  by (simp add: dec_encode UriEncode_StdSAFE_V4Auth)

lemma reencode_query:
  "CHR 0x00 \<notin> set v \<Longrightarrow> UriEncode (dec (UriEncode v t)) V4AuthSlash = UriEncode v V4AuthSlash"
  by (simp add: dec_encode)

end

interpretation rfc3986: uri_decoder pct_decode
  by unfold_locales (rule decode_UriEncode)

section \<open>Properties\<close>

text \<open>Percent encoding loses nothing: for every safe set, the RFC 3986 decoder
  gives back any string without NUL, so different strings never share an encoding.\<close>

theorem UriEncode_roundtrip:
  assumes "CHR 0x00 \<notin> set s" "CHR 0x00 \<notin> set u"
  shows "pct_decode (UriEncode s t) = s \<and> (UriEncode s t = UriEncode u t \<longleftrightarrow> s = u)"
  using decode_UriEncode [OF assms(1), of t] decode_UriEncode [OF assms(2), of t] by metis

lemma UriEncode_roundtrip_witness:
  "pct_decode (UriEncode ''a b/c#'' AllSAFE) = ''a b/c#'' \<and> UriEncode ''a b/c#'' StdSAFE = ''a%20b/c%23''
   \<and> UriEncode ''a b'' AllSAFE \<noteq> UriEncode ''a+b'' AllSAFE"
proof -
  have "UriEncode ''a b/c#'' StdSAFE = ''a%20b/c%23''" by code_simp
  then show ?thesis
    using UriEncode_roundtrip [of "''a b/c#''" "''x''" AllSAFE]
      UriEncode_roundtrip [of "''a b''" "''a+b''" AllSAFE] by simp
qed

text \<open>The output of the encoder holds only characters that are safe for its
  type, percent signs that start a two digit escape, and upper case hex digits; and
  with its terminator it fits the 4 * SRC_LEN + 1 characters of the output buffer.\<close>

theorem UriEncode_output:
  "(\<forall>c \<in> set (UriEncode s t). is_safe t c \<or> c = CHR ''%'' \<or> c \<in> set DEC2HEX)
   \<and> well_escaped (UriEncode s t)
   \<and> length (UriEncode s t) + 1 \<le> 4 * length (takeWhile (\<lambda>c. c \<noteq> CHR 0x00) s) + 1"
  using UriEncode_chars UriEncode_well_escaped length_UriEncode [of s t] by fastforce

lemma UriEncode_output_witness:
  "list_all (\<lambda>c. is_safe StdSAFE c \<or> c = CHR ''%'' \<or> c \<in> set DEC2HEX) (UriEncode ''a b'' StdSAFE)"
  using UriEncode_output [of "''a b''" StdSAFE] unfolding list_all_iff by blast

text \<open>\<open>EncodeSpecialChars\<close> keeps the URL: what follows the protocol decodes to
  the same string, holds no '#', and does not end in '='.\<close>

theorem EncodeSpecialChars_correct:
  assumes "CHR '':'' \<notin> set p" "well_escaped r"
  shows "\<exists>e. EncodeSpecialChars (p @ ''://'' @ r) = p @ ''://'' @ e
    \<and> pct_decode e = pct_decode r \<and> CHR ''#'' \<notin> set e \<and> (e \<noteq> [] \<longrightarrow> last e \<noteq> CHR ''='')"
proof -
  let ?e = "concat (map escape_hash r)"
  have d: "well_escaped ?e" "pct_decode ?e = pct_decode r" using escape_hash_decode [OF assms(2)] by auto
  have nh: "CHR ''#'' \<notin> set ?e" by (rule escape_hash_no_hash)
  show ?thesis
  proof (cases "r \<noteq> [] \<and> last r = CHR ''=''")
    case True
    then obtain b where b: "r = b @ ''=''" by (metis append_butlast_last_id)
    let ?b = "concat (map escape_hash b)"
    have eb: "?e = ?b @ ''=''" by (simp add: b escape_hash_def)
    have "well_escaped ?b" using d(1) unfolding eb by (rule well_escaped_butlast)
    moreover have "pct_decode ''%3D'' = ''=''" by code_simp
    ultimately have "pct_decode (?b @ ''%3D'') = pct_decode r"
      using decode_append [of ?b "''%3D''"] decode_append [of ?b "''=''"] d(2) eb by simp
    moreover have "EncodeSpecialChars (p @ ''://'' @ r) = p @ ''://'' @ ?b @ ''%3D''"
      unfolding EncodeSpecialChars_url [OF assms(1)] eb Let_def using True by simp
    moreover have "CHR ''#'' \<notin> set (?b @ ''%3D'')" using nh eb by simp
    ultimately show ?thesis by (intro exI [of _ "?b @ ''%3D''"]) simp
  next
    case False
    have "last ?e \<noteq> CHR ''=''" if "?e \<noteq> []"
      using that False by (cases r rule: rev_cases)
        (auto simp: escape_hash_def EscapeChar_def DEC2HEX_def char_code_def)
    then show ?thesis
      unfolding EncodeSpecialChars_url [OF assms(1)] Let_def if_not_P [OF False] using d nh by blast
  qed
qed

lemma EncodeSpecialChars_correct_witness:
  "EncodeSpecialChars ''http://h/a#b?s=x='' = ''http://h/a%23b?s=x%3D''
   \<and> pct_decode ''h/a%23b?s=x%3D'' = ''h/a#b?s=x=''"
proof -
  have e: "EncodeSpecialChars ''http://h/a#b?s=x='' = ''http://h/a%23b?s=x%3D''" by code_simp
  obtain e where "EncodeSpecialChars (''http'' @ ''://'' @ ''h/a#b?s=x='') = ''http'' @ ''://'' @ e"
      "pct_decode e = pct_decode ''h/a#b?s=x=''"
    using EncodeSpecialChars_correct [of "''http''" "''h/a#b?s=x=''"] by auto
  then have "pct_decode ''h/a%23b?s=x%3D'' = pct_decode ''h/a#b?s=x=''" using e by simp
  then show ?thesis using e by simp
qed

text \<open>The path that the version 4 signature covers is the path that is sent:
  decoding the encoded request path and encoding it for the signature changes
  nothing, for any decoder that inverts the encoder.\<close>

theorem signed_path_is_sent_path:
  assumes "\<And>s t. CHR 0x00 \<notin> set s \<Longrightarrow> dec (UriEncode s t) = s" "CHR 0x00 \<notin> set p"
  shows "UriEncode (dec (UriEncode p StdSAFE)) V4Auth = UriEncode p StdSAFE"
  by (rule uri_decoder.reencode_path [OF _ assms(2)]) (unfold_locales, rule assms(1))

lemma signed_path_is_sent_path_witness:
  "UriEncode (pct_decode (UriEncode ''/b/a c'' StdSAFE)) V4Auth = UriEncode ''/b/a c'' StdSAFE"
  by (rule signed_path_is_sent_path [OF rfc3986.dec_encode]) simp_all

end
