(* ===== verification/S3Errors.thy ===== *)
theory S3Errors
  imports Prelude
begin

text \<open>
  S3 error codes and their translation (src/ECSUtil/S3Error.h, S3Error.cpp), and
  the error value every request returns: \<open>S3_ERROR\<close> with its HTTP error map and
  its formatting (src/ECSUtil/ECSConnection.h, ECSConnection.cpp). The translation
  maps are built on first use; the reader-writer lock around them only serialises
  that construction and is not part of this model.
\<close>

section \<open>Codes and the translation table\<close>

text \<open>The enumeration is unscoped: its constants are the integers in order.\<close>

type_synonym E_S3_ERROR_TYPE = nat

abbreviation (input) "S3_ERROR_SUCCESS \<equiv> (0 :: E_S3_ERROR_TYPE)"
abbreviation (input) "S3_ERROR_UNKNOWN \<equiv> (1 :: E_S3_ERROR_TYPE)"
abbreviation (input) "S3_ERROR_AccessDenied \<equiv> (2 :: E_S3_ERROR_TYPE)"
abbreviation (input) "S3_ERROR_AccountProblem \<equiv> (3 :: E_S3_ERROR_TYPE)"
abbreviation (input) "S3_ERROR_AmbiguousGrantByEmailAddress \<equiv> (4 :: E_S3_ERROR_TYPE)"
abbreviation (input) "S3_ERROR_BadDigest \<equiv> (5 :: E_S3_ERROR_TYPE)"
abbreviation (input) "S3_ERROR_BucketAlreadyExists \<equiv> (6 :: E_S3_ERROR_TYPE)"
abbreviation (input) "S3_ERROR_BucketAlreadyOwnedByYou \<equiv> (7 :: E_S3_ERROR_TYPE)"
abbreviation (input) "S3_ERROR_BucketNotEmpty \<equiv> (8 :: E_S3_ERROR_TYPE)"
abbreviation (input) "S3_ERROR_CredentialsNotSupported \<equiv> (9 :: E_S3_ERROR_TYPE)"
abbreviation (input) "S3_ERROR_CrossLocationLoggingProhibited \<equiv> (10 :: E_S3_ERROR_TYPE)"
abbreviation (input) "S3_ERROR_EntityTooSmall \<equiv> (11 :: E_S3_ERROR_TYPE)"
abbreviation (input) "S3_ERROR_EntityTooLarge \<equiv> (12 :: E_S3_ERROR_TYPE)"
abbreviation (input) "S3_ERROR_ExpiredToken \<equiv> (13 :: E_S3_ERROR_TYPE)"
abbreviation (input) "S3_ERROR_IllegalVersioningConfigurationException \<equiv> (14 :: E_S3_ERROR_TYPE)"
abbreviation (input) "S3_ERROR_IncompleteBody \<equiv> (15 :: E_S3_ERROR_TYPE)"
abbreviation (input) "S3_ERROR_IncorrectNumberOfFilesInPostRequest \<equiv> (16 :: E_S3_ERROR_TYPE)"
abbreviation (input) "S3_ERROR_InlineDataTooLarge \<equiv> (17 :: E_S3_ERROR_TYPE)"
abbreviation (input) "S3_ERROR_InternalError \<equiv> (18 :: E_S3_ERROR_TYPE)"
abbreviation (input) "S3_ERROR_InvalidAccessKeyId \<equiv> (19 :: E_S3_ERROR_TYPE)"
abbreviation (input) "S3_ERROR_InvalidAddressingHeader \<equiv> (20 :: E_S3_ERROR_TYPE)"
abbreviation (input) "S3_ERROR_InvalidArgument \<equiv> (21 :: E_S3_ERROR_TYPE)"
abbreviation (input) "S3_ERROR_InvalidBucketName \<equiv> (22 :: E_S3_ERROR_TYPE)"
abbreviation (input) "S3_ERROR_InvalidBucketState \<equiv> (23 :: E_S3_ERROR_TYPE)"
abbreviation (input) "S3_ERROR_InvalidDigest \<equiv> (24 :: E_S3_ERROR_TYPE)"
abbreviation (input) "S3_ERROR_InvalidEncryptionAlgorithmError \<equiv> (25 :: E_S3_ERROR_TYPE)"
abbreviation (input) "S3_ERROR_InvalidLocationConstraint \<equiv> (26 :: E_S3_ERROR_TYPE)"
abbreviation (input) "S3_ERROR_InvalidObjectState \<equiv> (27 :: E_S3_ERROR_TYPE)"
abbreviation (input) "S3_ERROR_InvalidPart \<equiv> (28 :: E_S3_ERROR_TYPE)"
abbreviation (input) "S3_ERROR_InvalidPartOrder \<equiv> (29 :: E_S3_ERROR_TYPE)"
abbreviation (input) "S3_ERROR_InvalidPayer \<equiv> (30 :: E_S3_ERROR_TYPE)"
abbreviation (input) "S3_ERROR_InvalidPolicyDocument \<equiv> (31 :: E_S3_ERROR_TYPE)"
abbreviation (input) "S3_ERROR_InvalidRange \<equiv> (32 :: E_S3_ERROR_TYPE)"
abbreviation (input) "S3_ERROR_InvalidRequest \<equiv> (33 :: E_S3_ERROR_TYPE)"
abbreviation (input) "S3_ERROR_InvalidSecurity \<equiv> (34 :: E_S3_ERROR_TYPE)"
abbreviation (input) "S3_ERROR_InvalidSOAPRequest \<equiv> (35 :: E_S3_ERROR_TYPE)"
abbreviation (input) "S3_ERROR_InvalidStorageClass \<equiv> (36 :: E_S3_ERROR_TYPE)"
abbreviation (input) "S3_ERROR_InvalidTargetBucketForLogging \<equiv> (37 :: E_S3_ERROR_TYPE)"
abbreviation (input) "S3_ERROR_InvalidToken \<equiv> (38 :: E_S3_ERROR_TYPE)"
abbreviation (input) "S3_ERROR_InvalidURI \<equiv> (39 :: E_S3_ERROR_TYPE)"
abbreviation (input) "S3_ERROR_KeyTooLong \<equiv> (40 :: E_S3_ERROR_TYPE)"
abbreviation (input) "S3_ERROR_MalformedACLError \<equiv> (41 :: E_S3_ERROR_TYPE)"
abbreviation (input) "S3_ERROR_MalformedPOSTRequest \<equiv> (42 :: E_S3_ERROR_TYPE)"
abbreviation (input) "S3_ERROR_MalformedXML \<equiv> (43 :: E_S3_ERROR_TYPE)"
abbreviation (input) "S3_ERROR_MaxMessageLengthExceeded \<equiv> (44 :: E_S3_ERROR_TYPE)"
abbreviation (input) "S3_ERROR_MaxPostPreDataLengthExceededError \<equiv> (45 :: E_S3_ERROR_TYPE)"
abbreviation (input) "S3_ERROR_MetadataTooLarge \<equiv> (46 :: E_S3_ERROR_TYPE)"
abbreviation (input) "S3_ERROR_MethodNotAllowed \<equiv> (47 :: E_S3_ERROR_TYPE)"
abbreviation (input) "S3_ERROR_MissingAttachment \<equiv> (48 :: E_S3_ERROR_TYPE)"
abbreviation (input) "S3_ERROR_MissingContentLength \<equiv> (49 :: E_S3_ERROR_TYPE)"
abbreviation (input) "S3_ERROR_MissingRequestBodyError \<equiv> (50 :: E_S3_ERROR_TYPE)"
abbreviation (input) "S3_ERROR_MissingSecurityElement \<equiv> (51 :: E_S3_ERROR_TYPE)"
abbreviation (input) "S3_ERROR_MissingSecurityHeader \<equiv> (52 :: E_S3_ERROR_TYPE)"
abbreviation (input) "S3_ERROR_NoLoggingStatusForKey \<equiv> (53 :: E_S3_ERROR_TYPE)"
abbreviation (input) "S3_ERROR_NoSuchBucket \<equiv> (54 :: E_S3_ERROR_TYPE)"
abbreviation (input) "S3_ERROR_NoSuchKey \<equiv> (55 :: E_S3_ERROR_TYPE)"
abbreviation (input) "S3_ERROR_NoSuchLifecycleConfiguration \<equiv> (56 :: E_S3_ERROR_TYPE)"
abbreviation (input) "S3_ERROR_NoSuchUpload \<equiv> (57 :: E_S3_ERROR_TYPE)"
abbreviation (input) "S3_ERROR_NoSuchVersion \<equiv> (58 :: E_S3_ERROR_TYPE)"
abbreviation (input) "S3_ERROR_NotImplemented \<equiv> (59 :: E_S3_ERROR_TYPE)"
abbreviation (input) "S3_ERROR_NotSignedUp \<equiv> (60 :: E_S3_ERROR_TYPE)"
abbreviation (input) "S3_ERROR_NotSuchBucketPolicy \<equiv> (61 :: E_S3_ERROR_TYPE)"
abbreviation (input) "S3_ERROR_OperationAborted \<equiv> (62 :: E_S3_ERROR_TYPE)"
abbreviation (input) "S3_ERROR_PermanentRedirect \<equiv> (63 :: E_S3_ERROR_TYPE)"
abbreviation (input) "S3_ERROR_PreconditionFailed \<equiv> (64 :: E_S3_ERROR_TYPE)"
abbreviation (input) "S3_ERROR_Redirect \<equiv> (65 :: E_S3_ERROR_TYPE)"
abbreviation (input) "S3_ERROR_RestoreAlreadyInProgress \<equiv> (66 :: E_S3_ERROR_TYPE)"
abbreviation (input) "S3_ERROR_RequestIsNotMultiPartContent \<equiv> (67 :: E_S3_ERROR_TYPE)"
abbreviation (input) "S3_ERROR_RequestTimeout \<equiv> (68 :: E_S3_ERROR_TYPE)"
abbreviation (input) "S3_ERROR_RequestTimeTooSkewed \<equiv> (69 :: E_S3_ERROR_TYPE)"
abbreviation (input) "S3_ERROR_RequestTorrentOfBucketError \<equiv> (70 :: E_S3_ERROR_TYPE)"
abbreviation (input) "S3_ERROR_SignatureDoesNotMatch \<equiv> (71 :: E_S3_ERROR_TYPE)"
abbreviation (input) "S3_ERROR_ServiceUnavailable \<equiv> (72 :: E_S3_ERROR_TYPE)"
abbreviation (input) "S3_ERROR_SlowDown \<equiv> (73 :: E_S3_ERROR_TYPE)"
abbreviation (input) "S3_ERROR_TemporaryRedirect \<equiv> (74 :: E_S3_ERROR_TYPE)"
abbreviation (input) "S3_ERROR_TokenRefreshRequired \<equiv> (75 :: E_S3_ERROR_TYPE)"
abbreviation (input) "S3_ERROR_TooManyBuckets \<equiv> (76 :: E_S3_ERROR_TYPE)"
abbreviation (input) "S3_ERROR_UnexpectedContent \<equiv> (77 :: E_S3_ERROR_TYPE)"
abbreviation (input) "S3_ERROR_UnresolvableGrantByEmailAddress \<equiv> (78 :: E_S3_ERROR_TYPE)"
abbreviation (input) "S3_ERROR_UserKeyMustBeSpecified \<equiv> (79 :: E_S3_ERROR_TYPE)"
abbreviation (input) "S3_ERROR_ObjectUnderRetention \<equiv> (80 :: E_S3_ERROR_TYPE)"
abbreviation (input) "S3_ERROR_MetadataSearchNotEnabled \<equiv> (81 :: E_S3_ERROR_TYPE)"
abbreviation (input) "S3_ERROR_LAST_CODE \<equiv> (82 :: E_S3_ERROR_TYPE)"

type_synonym S3_ERROR_TRANS = "E_S3_ERROR_TYPE \<times> string \<times> string"

definition S3ErrorTransTable :: "S3_ERROR_TRANS list" where
 \<open>S3ErrorTransTable =
 [(S3_ERROR_AccessDenied, ''AccessDenied'',
   ''Access Denied''),
  (S3_ERROR_AccountProblem, ''AccountProblem'',
   ''There is a problem with your AWS account that prevents the operation from completing successfully. Please use Contact Us.''),
  (S3_ERROR_AmbiguousGrantByEmailAddress, ''AmbiguousGrantByEmailAddress'',
   ''The email address you provided is associated with more than one account.''),
  (S3_ERROR_BadDigest, ''BadDigest'',
   ''The Content-MD5 you specified did not match what we received.''),
  (S3_ERROR_BucketAlreadyExists, ''BucketAlreadyExists'',
   ''The requested bucket name is not available. The bucket namespace is shared by all users of the system. Please select a different name and try again.''),
  (S3_ERROR_BucketAlreadyOwnedByYou, ''BucketAlreadyOwnedByYou'',
   ''Your previous request to create the named bucket succeeded and you already own it. You get this error in all AWS regions except US Standard, us-east-1. In us-east-1 region, you will get 200 OK, but it is no-op (if bucket exists it Amazon S3 will not do anything).''),
  (S3_ERROR_BucketNotEmpty, ''BucketNotEmpty'',
   ''The bucket you tried to delete is not empty.''),
  (S3_ERROR_CredentialsNotSupported, ''CredentialsNotSupported'',
   ''This request does not support credentials.''),
  (S3_ERROR_CrossLocationLoggingProhibited, ''CrossLocationLoggingProhibited'',
   ''Cross-location logging not allowed. Buckets in one geographic location cannot log information to a bucket in another location.''),
  (S3_ERROR_EntityTooSmall, ''EntityTooSmall'',
   ''Your proposed upload is smaller than the minimum allowed object size.''),
  (S3_ERROR_EntityTooLarge, ''EntityTooLarge'',
   ''Your proposed upload exceeds the maximum allowed object size.''),
  (S3_ERROR_ExpiredToken, ''ExpiredToken'',
   ''The provided token has expired.''),
  (S3_ERROR_IllegalVersioningConfigurationException, ''IllegalVersioningConfigurationException'',
   ''Indicates that the versioning configuration specified in the request is invalid.''),
  (S3_ERROR_IncompleteBody, ''IncompleteBody'',
   ''You did not provide the number of bytes specified by the Content-Length HTTP header''),
  (S3_ERROR_IncorrectNumberOfFilesInPostRequest, ''IncorrectNumberOfFilesInPostRequest'',
   ''POST requires exactly one file upload per request.''),
  (S3_ERROR_InlineDataTooLarge, ''InlineDataTooLarge'',
   ''Inline data exceeds the maximum allowed size.''),
  (S3_ERROR_InternalError, ''InternalError'',
   ''We encountered an internal error. Please try again.''),
  (S3_ERROR_InvalidAccessKeyId, ''InvalidAccessKeyId'',
   ''The AWS access key Id you provided does not exist in our records.''),
  (S3_ERROR_InvalidAddressingHeader, ''InvalidAddressingHeader'',
   ''You must specify the Anonymous role.''),
  (S3_ERROR_InvalidArgument, ''InvalidArgument'',
   ''Invalid Argument''),
  (S3_ERROR_InvalidBucketName, ''InvalidBucketName'',
   ''The specified bucket is not valid.''),
  (S3_ERROR_InvalidBucketState, ''InvalidBucketState'',
   ''The request is not valid with the current state of the bucket.''),
  (S3_ERROR_InvalidDigest, ''InvalidDigest'',
   ''The Content-MD5 you specified is not valid.''),
  (S3_ERROR_InvalidEncryptionAlgorithmError, ''InvalidEncryptionAlgorithmError'',
   ''The encryption request you specified is not valid. The valid value is AES256.''),
  (S3_ERROR_InvalidLocationConstraint, ''InvalidLocationConstraint'',
   ''The specified location constraint is not valid. For more information about regions, see How to Select a Region for Your Buckets.''),
  (S3_ERROR_InvalidObjectState, ''InvalidObjectState'',
   ''The operation is not valid for the current state of the object.''),
  (S3_ERROR_InvalidPart, ''InvalidPart'',
   ''One or more of the specified parts could not be found. The part might not have been uploaded, or the specified entity tag might not have matched the part's entity tag.''),
  (S3_ERROR_InvalidPartOrder, ''InvalidPartOrder'',
   ''The list of parts was not in ascending order.Parts list must specified in order by part number.''),
  (S3_ERROR_InvalidPayer, ''InvalidPayer'',
   ''All access to this object has been disabled.''),
  (S3_ERROR_InvalidPolicyDocument, ''InvalidPolicyDocument'',
   ''The content of the form does not meet the conditions specified in the policy document.''),
  (S3_ERROR_InvalidRange, ''InvalidRange'',
   ''The requested range cannot be satisfied.''),
  (S3_ERROR_InvalidRequest, ''InvalidRequest'',
   ''SOAP requests must be made over an HTTPS connection.''),
  (S3_ERROR_InvalidSecurity, ''InvalidSecurity'',
   ''The provided security credentials are not valid.''),
  (S3_ERROR_InvalidSOAPRequest, ''InvalidSOAPRequest'',
   ''The SOAP request body is invalid.''),
  (S3_ERROR_InvalidStorageClass, ''InvalidStorageClass'',
   ''The storage class you specified is not valid.''),
  (S3_ERROR_InvalidTargetBucketForLogging, ''InvalidTargetBucketForLogging'',
   ''The target bucket for logging does not exist, is not owned by you, or does not have the appropriate grants for the log-delivery group.''),
  (S3_ERROR_InvalidToken, ''InvalidToken'',
   ''The provided token is malformed or otherwise invalid.''),
  (S3_ERROR_InvalidURI, ''InvalidURI'',
   ''Couldn't parse the specified URI.''),
  (S3_ERROR_KeyTooLong, ''KeyTooLong'',
   ''Your key is too long.''),
  (S3_ERROR_MalformedACLError, ''MalformedACLError'',
   ''The XML you provided was not well-formed or did not validate against our published schema.''),
  (S3_ERROR_MalformedPOSTRequest, ''MalformedPOSTRequest'',
   ''The body of your POST request is not well-formed multipart/form-data.''),
  (S3_ERROR_MalformedXML, ''MalformedXML'',
   ''This happens when the user sends malformed xml (xml that doesn't conform to the published xsd) for the configuration. The error message is, "The XML you provided was not well - formed or did not validate against our published schema."''),
  (S3_ERROR_MaxMessageLengthExceeded, ''MaxMessageLengthExceeded'',
   ''Your request was too big.''),
  (S3_ERROR_MaxPostPreDataLengthExceededError, ''MaxPostPreDataLengthExceededError'',
   ''Your POST request fields preceding the upload file were too large.''),
  (S3_ERROR_MetadataTooLarge, ''MetadataTooLarge'',
   ''Your metadata headers exceed the maximum allowed metadata size.''),
  (S3_ERROR_MethodNotAllowed, ''MethodNotAllowed'',
   ''The specified method is not allowed against this resource.''),
  (S3_ERROR_MissingAttachment, ''MissingAttachment'',
   ''A SOAP attachment was expected, but none were found.''),
  (S3_ERROR_MissingContentLength, ''MissingContentLength'',
   ''You must provide the Content-Length HTTP header.''),
  (S3_ERROR_MissingRequestBodyError, ''MissingRequestBodyError'',
   ''This happens when the user sends an empty xml document as a request. The error message is, "Request body is empty."''),
  (S3_ERROR_MissingSecurityElement, ''MissingSecurityElement'',
   ''The SOAP 1.1 request is missing a security element.''),
  (S3_ERROR_MissingSecurityHeader, ''MissingSecurityHeader'',
   ''Your request is missing a required header.''),
  (S3_ERROR_NoLoggingStatusForKey, ''NoLoggingStatusForKey'',
   ''There is no such thing as a logging status subresource for a key.''),
  (S3_ERROR_NoSuchBucket, ''NoSuchBucket'',
   ''The specified bucket does not exist.''),
  (S3_ERROR_NoSuchKey, ''NoSuchKey'',
   ''The specified key does not exist.''),
  (S3_ERROR_NoSuchLifecycleConfiguration, ''NoSuchLifecycleConfiguration'',
   ''The lifecycle configuration does not exist.''),
  (S3_ERROR_NoSuchUpload, ''NoSuchUpload'',
   ''The specified multipart upload does not exist. The upload ID might be invalid, or the multipart upload might have been aborted or completed.''),
  (S3_ERROR_NoSuchVersion, ''NoSuchVersion'',
   ''Indicates that the version ID specified in the request does not match an existing version.''),
  (S3_ERROR_NotImplemented, ''NotImplemented'',
   ''A header you provided implies functionality that is not implemented.''),
  (S3_ERROR_NotSignedUp, ''NotSignedUp'',
   ''Your account is not signed up for the Amazon S3 service. You must sign up before you can use Amazon S3. You can sign up at the following URL: http://aws.amazon.com/s3''),
  (S3_ERROR_NotSuchBucketPolicy, ''NotSuchBucketPolicy'',
   ''The specified bucket does not have a bucket policy.''),
  (S3_ERROR_OperationAborted, ''OperationAborted'',
   ''A conflicting conditional operation is currently in progress against this resource. Try again.''),
  (S3_ERROR_PermanentRedirect, ''PermanentRedirect'',
   ''The bucket you are attempting to access must be addressed using the specified endpoint. Send all future requests to this endpoint.''),
  (S3_ERROR_PreconditionFailed, ''PreconditionFailed'',
   ''At least one of the preconditions you specified did not hold.''),
  (S3_ERROR_Redirect, ''Redirect'',
   ''Temporary redirect.''),
  (S3_ERROR_RestoreAlreadyInProgress, ''RestoreAlreadyInProgress'',
   ''Object restore is already in progress.''),
  (S3_ERROR_RequestIsNotMultiPartContent, ''RequestIsNotMultiPartContent'',
   ''Bucket POST must be of the enclosure-type multipart/form-data.''),
  (S3_ERROR_RequestTimeout, ''RequestTimeout'',
   ''Your socket connection to the server was not read from or written to within the timeout period.''),
  (S3_ERROR_RequestTimeTooSkewed, ''RequestTimeTooSkewed'',
   ''The difference between the request time and the server's time is too large.''),
  (S3_ERROR_RequestTorrentOfBucketError, ''RequestTorrentOfBucketError'',
   ''Requesting the torrent file of a bucket is not permitted.''),
  (S3_ERROR_SignatureDoesNotMatch, ''SignatureDoesNotMatch'',
   ''The request signature we calculated does not match the signature you provided. Check your AWS secret access key and signing method. For more information, see REST Authentication and SOAP Authentication for details.''),
  (S3_ERROR_ServiceUnavailable, ''ServiceUnavailable'',
   ''Reduce your request rate.''),
  (S3_ERROR_SlowDown, ''SlowDown'',
   ''Reduce your request rate.''),
  (S3_ERROR_TemporaryRedirect, ''TemporaryRedirect'',
   ''You are being redirected to the bucket while DNS updates.''),
  (S3_ERROR_TokenRefreshRequired, ''TokenRefreshRequired'',
   ''The provided token must be refreshed.''),
  (S3_ERROR_TooManyBuckets, ''TooManyBuckets'',
   ''You have attempted to create more buckets than allowed.''),
  (S3_ERROR_UnexpectedContent, ''UnexpectedContent'',
   ''This request does not support content.''),
  (S3_ERROR_UnresolvableGrantByEmailAddress, ''UnresolvableGrantByEmailAddress'',
   ''The email address you provided does not match any account on record.''),
  (S3_ERROR_UserKeyMustBeSpecified, ''UserKeyMustBeSpecified'',
   ''The bucket POST must contain the specified field name. If it is specified, check the order of the fields.''),
  (S3_ERROR_ObjectUnderRetention, ''ObjectUnderRetention'',
   ''The object is under retention and can't be deleted or modified.''),
  (S3_ERROR_MetadataSearchNotEnabled, ''Metadata search not enabled'',
   ''Metadata search is not enabled for this bucket.'')]\<close>

record s3_maps =
  bMapsInitialized :: bool
  IDMap :: "string \<Rightarrow> S3_ERROR_TRANS option"
  CodeMap :: "E_S3_ERROR_TYPE \<Rightarrow> S3_ERROR_TRANS option"

definition s3_maps_init :: s3_maps where
  "s3_maps_init = \<lparr> bMapsInitialized = False, IDMap = (\<lambda>_. None), CodeMap = (\<lambda>_. None) \<rparr>"

text \<open>\<open>std::map::insert\<close> keeps an entry that is already there. The keys of the first
  map compare without case: they are folded.\<close>

definition map_insert :: "'k \<Rightarrow> 'v \<Rightarrow> ('k \<Rightarrow> 'v option) \<Rightarrow> ('k \<Rightarrow> 'v option)" where
  "map_insert k v m = (if m k = None then m(k \<mapsto> v) else m)"

definition PopulateMaps :: "s3_maps \<Rightarrow> s3_maps" where
  "PopulateMaps st =
     (if bMapsInitialized st then st
      else (foldl (\<lambda>st r. st\<lparr> IDMap := map_insert (lower_str (fst (snd r))) r (IDMap st),
                             CodeMap := map_insert (fst r) r (CodeMap st) \<rparr>) st S3ErrorTransTable)
           \<lparr> bMapsInitialized := True \<rparr>)"

definition S3TranslateError :: "string \<Rightarrow> s3_maps \<Rightarrow> E_S3_ERROR_TYPE \<times> s3_maps" where
  "S3TranslateError pszErrorID st0 =
     (let st = (if \<not> bMapsInitialized st0 then PopulateMaps st0 else st0) in
      (case IDMap st (lower_str pszErrorID) of Some r \<Rightarrow> fst r | None \<Rightarrow> S3_ERROR_UNKNOWN, st))"

definition S3ErrorInfo :: "E_S3_ERROR_TYPE \<Rightarrow> s3_maps \<Rightarrow> (string \<times> string) option \<times> s3_maps" where
  "S3ErrorInfo Code st0 =
     (let st = (if \<not> bMapsInitialized st0 then PopulateMaps st0 else st0) in
      (map_option snd (CodeMap st Code), st))"

section \<open>The maps\<close>

text \<open>The states the program can have: untouched, or populated.\<close>

definition s3_maps_ok :: "s3_maps \<Rightarrow> bool" where
  "s3_maps_ok st \<longleftrightarrow> st = s3_maps_init \<or> st = PopulateMaps s3_maps_init"

lemma foldl_map_insert:
  "foldl (\<lambda>m r. map_insert (f r) r m) m xs k =
     (case m k of Some v \<Rightarrow> Some v | None \<Rightarrow> map_of (map (\<lambda>r. (f r, r)) xs) k)"
  by (induction xs arbitrary: m) (auto simp: map_insert_def split: option.splits)

lemma populate_fields:
  fixes st :: s3_maps
  shows "foldl (\<lambda>st r. st\<lparr> IDMap := map_insert (f r) r (IDMap st),
                      CodeMap := map_insert (g r) r (CodeMap st) \<rparr>) st xs
   = st\<lparr> IDMap := foldl (\<lambda>m r. map_insert (f r) r m) (IDMap st) xs,
         CodeMap := foldl (\<lambda>m r. map_insert (g r) r m) (CodeMap st) xs \<rparr>"
  by (induction xs arbitrary: st) simp_all

lemma populated_maps:
  "IDMap (PopulateMaps s3_maps_init) = map_of (map (\<lambda>r. (lower_str (fst (snd r)), r)) S3ErrorTransTable)"
  "CodeMap (PopulateMaps s3_maps_init) = map_of (map (\<lambda>r. (fst r, r)) S3ErrorTransTable)"
  "bMapsInitialized (PopulateMaps s3_maps_init)"
  unfolding PopulateMaps_def populate_fields
  by (simp_all add: s3_maps_init_def fun_eq_iff foldl_map_insert)

lemma s3_maps_ok_step:
  assumes "s3_maps_ok st"
  shows "(if \<not> bMapsInitialized st then PopulateMaps st else st) = PopulateMaps s3_maps_init"
  using assms populated_maps(3) by (auto simp: s3_maps_ok_def s3_maps_init_def)

lemma S3TranslateError_ok:
  "s3_maps_ok st \<Longrightarrow> S3TranslateError s st =
    ((case map_of (map (\<lambda>r. (lower_str (fst (snd r)), r)) S3ErrorTransTable) (lower_str s) of
        Some r \<Rightarrow> fst r | None \<Rightarrow> S3_ERROR_UNKNOWN), PopulateMaps s3_maps_init)"
  unfolding S3TranslateError_def Let_def s3_maps_ok_step populated_maps by simp

lemma S3ErrorInfo_ok:
  "s3_maps_ok st \<Longrightarrow> S3ErrorInfo c st =
    (map_option snd (map_of (map (\<lambda>r. (fst r, r)) S3ErrorTransTable) c), PopulateMaps s3_maps_init)"
  unfolding S3ErrorInfo_def Let_def s3_maps_ok_step populated_maps by simp

lemma table_ids: "map (\<lambda>r. fst (snd r)) S3ErrorTransTable =
   [''AccessDenied'', ''AccountProblem'', ''AmbiguousGrantByEmailAddress'', ''BadDigest''
    , ''BucketAlreadyExists'', ''BucketAlreadyOwnedByYou'', ''BucketNotEmpty''
    , ''CredentialsNotSupported'', ''CrossLocationLoggingProhibited'', ''EntityTooSmall''
    , ''EntityTooLarge'', ''ExpiredToken'', ''IllegalVersioningConfigurationException''
    , ''IncompleteBody'', ''IncorrectNumberOfFilesInPostRequest'', ''InlineDataTooLarge''
    , ''InternalError'', ''InvalidAccessKeyId'', ''InvalidAddressingHeader''
    , ''InvalidArgument'', ''InvalidBucketName'', ''InvalidBucketState'', ''InvalidDigest''
    , ''InvalidEncryptionAlgorithmError'', ''InvalidLocationConstraint''
    , ''InvalidObjectState'', ''InvalidPart'', ''InvalidPartOrder'', ''InvalidPayer''
    , ''InvalidPolicyDocument'', ''InvalidRange'', ''InvalidRequest'', ''InvalidSecurity''
    , ''InvalidSOAPRequest'', ''InvalidStorageClass'', ''InvalidTargetBucketForLogging''
    , ''InvalidToken'', ''InvalidURI'', ''KeyTooLong'', ''MalformedACLError''
    , ''MalformedPOSTRequest'', ''MalformedXML'', ''MaxMessageLengthExceeded''
    , ''MaxPostPreDataLengthExceededError'', ''MetadataTooLarge'', ''MethodNotAllowed''
    , ''MissingAttachment'', ''MissingContentLength'', ''MissingRequestBodyError''
    , ''MissingSecurityElement'', ''MissingSecurityHeader'', ''NoLoggingStatusForKey''
    , ''NoSuchBucket'', ''NoSuchKey'', ''NoSuchLifecycleConfiguration'', ''NoSuchUpload''
    , ''NoSuchVersion'', ''NotImplemented'', ''NotSignedUp'', ''NotSuchBucketPolicy''
    , ''OperationAborted'', ''PermanentRedirect'', ''PreconditionFailed'', ''Redirect''
    , ''RestoreAlreadyInProgress'', ''RequestIsNotMultiPartContent'', ''RequestTimeout''
    , ''RequestTimeTooSkewed'', ''RequestTorrentOfBucketError'', ''SignatureDoesNotMatch''
    , ''ServiceUnavailable'', ''SlowDown'', ''TemporaryRedirect'', ''TokenRefreshRequired''
    , ''TooManyBuckets'', ''UnexpectedContent'', ''UnresolvableGrantByEmailAddress''
    , ''UserKeyMustBeSpecified'', ''ObjectUnderRetention'', ''Metadata search not enabled'']"
  by (simp add: S3ErrorTransTable_def)

lemma table_lower_ids: "map lower_str (map (\<lambda>r. fst (snd r)) S3ErrorTransTable) =
   [''accessdenied'', ''accountproblem'', ''ambiguousgrantbyemailaddress'', ''baddigest''
    , ''bucketalreadyexists'', ''bucketalreadyownedbyyou'', ''bucketnotempty''
    , ''credentialsnotsupported'', ''crosslocationloggingprohibited'', ''entitytoosmall''
    , ''entitytoolarge'', ''expiredtoken'', ''illegalversioningconfigurationexception''
    , ''incompletebody'', ''incorrectnumberoffilesinpostrequest'', ''inlinedatatoolarge''
    , ''internalerror'', ''invalidaccesskeyid'', ''invalidaddressingheader''
    , ''invalidargument'', ''invalidbucketname'', ''invalidbucketstate'', ''invaliddigest''
    , ''invalidencryptionalgorithmerror'', ''invalidlocationconstraint''
    , ''invalidobjectstate'', ''invalidpart'', ''invalidpartorder'', ''invalidpayer''
    , ''invalidpolicydocument'', ''invalidrange'', ''invalidrequest'', ''invalidsecurity''
    , ''invalidsoaprequest'', ''invalidstorageclass'', ''invalidtargetbucketforlogging''
    , ''invalidtoken'', ''invaliduri'', ''keytoolong'', ''malformedaclerror''
    , ''malformedpostrequest'', ''malformedxml'', ''maxmessagelengthexceeded''
    , ''maxpostpredatalengthexceedederror'', ''metadatatoolarge'', ''methodnotallowed''
    , ''missingattachment'', ''missingcontentlength'', ''missingrequestbodyerror''
    , ''missingsecurityelement'', ''missingsecurityheader'', ''nologgingstatusforkey''
    , ''nosuchbucket'', ''nosuchkey'', ''nosuchlifecycleconfiguration'', ''nosuchupload''
    , ''nosuchversion'', ''notimplemented'', ''notsignedup'', ''notsuchbucketpolicy''
    , ''operationaborted'', ''permanentredirect'', ''preconditionfailed'', ''redirect''
    , ''restorealreadyinprogress'', ''requestisnotmultipartcontent'', ''requesttimeout''
    , ''requesttimetooskewed'', ''requesttorrentofbucketerror'', ''signaturedoesnotmatch''
    , ''serviceunavailable'', ''slowdown'', ''temporaryredirect'', ''tokenrefreshrequired''
    , ''toomanybuckets'', ''unexpectedcontent'', ''unresolvablegrantbyemailaddress''
    , ''userkeymustbespecified'', ''objectunderretention'', ''metadata search not enabled'']"
  unfolding table_ids
  by (simp add: lower_str_def to_lower_def is_upper_ascii_def char_code_def char_of_def bit_Suc_0_iff)

lemma table_ids_distinct: "distinct (map (\<lambda>r. lower_str (fst (snd r))) S3ErrorTransTable)"
  using table_lower_ids unfolding map_map comp_def by simp

lemma table_codes: "map fst S3ErrorTransTable = [2..<82]"
  by (simp add: S3ErrorTransTable_def upt_rec_numeral)

section \<open>The error value\<close>

record ECS_CERT_INFO =
  sCertName :: string
  sCertSubject :: string
  sCertSubjectAltName :: string
  SerializedCert :: "BYTE list"

record S3_ERROR =
  dwError :: DWORD
  dwHttpError :: DWORD
  dwSecureError :: DWORD
  S3Error :: E_S3_ERROR_TYPE
  sS3Code :: string
  sS3Resource :: string
  sS3RequestID :: string
  sDetails :: string
  sHostAddr :: string
  CertInfo :: ECS_CERT_INFO

definition S3_ERROR_new :: "DWORD \<Rightarrow> S3_ERROR" where
  "S3_ERROR_new e = \<lparr> dwError = e, dwHttpError = 0, dwSecureError = 0, S3Error = S3_ERROR_SUCCESS,
     sS3Code = [], sS3Resource = [], sS3RequestID = [], sDetails = [], sHostAddr = [],
     CertInfo = \<lparr> sCertName = [], sCertSubject = [], sCertSubjectAltName = [], SerializedCert = [] \<rparr> \<rparr>"

text \<open>\<open>HTTP_E_STATUS_x\<close> is \<open>MAKE_HRESULT(SEVERITY_ERROR, FACILITY_HTTP, x)\<close>.\<close>

definition HTTP_E_STATUS :: "DWORD \<Rightarrow> DWORD" where "HTTP_E_STATUS n = 0x80190000 + n"

definition HTTP_E_STATUS_UNEXPECTED :: DWORD where "HTTP_E_STATUS_UNEXPECTED = 0x80190001"

definition HttpErrorInitArray :: "(DWORD \<times> DWORD) list" where
  "HttpErrorInitArray = map (\<lambda>n. (n, HTTP_E_STATUS n))
     [300, 301, 302, 303, 304, 305, 307, 400, 401, 402, 403, 404, 405, 406, 407, 408, 409, 410,
      411, 412, 413, 414, 415, 500, 501, 502, 503, 504, 505]"

definition HttpErrorMap :: "DWORD \<Rightarrow> DWORD option" where
  "HttpErrorMap = foldl (\<lambda>m r. map_insert (fst r) (snd r) m) (\<lambda>_. None) HttpErrorInitArray"

definition IfError :: "S3_ERROR \<Rightarrow> bool" where
  "IfError e \<longleftrightarrow> dwError e \<noteq> 0 \<or> dwHttpError e \<ge> 400 \<or> S3Error e \<noteq> S3_ERROR_SUCCESS"

definition IfNotFound :: "S3_ERROR \<Rightarrow> bool" where
  "IfNotFound e \<longleftrightarrow> dwError e = HTTP_E_STATUS 404 \<or> S3Error e = S3_ERROR_NoSuchKey \<or> dwHttpError e = 404"

definition error_eq :: "S3_ERROR \<Rightarrow> S3_ERROR \<Rightarrow> bool" where
  "error_eq a b \<longleftrightarrow> dwError a = dwError b \<and> dwHttpError a = dwHttpError b
     \<and> S3Error a = S3Error b \<and> sS3Code a = sS3Code b"

text \<open>\<open>SetError\<close>, which the copy constructor and the assignment apply.\<close>

definition SetError :: "S3_ERROR \<Rightarrow> S3_ERROR" where
  "SetError e =
     (if dwError e \<noteq> 0 \<or> \<not> IfError e then e
      else e\<lparr> dwError := (case HttpErrorMap (dwHttpError e) of
                None \<Rightarrow> HTTP_E_STATUS_UNEXPECTED | Some h \<Rightarrow> h) \<rparr>)"

lemma IfError_SetError: "IfError (SetError e) = IfError e"
  by (auto simp: SetError_def IfError_def HTTP_E_STATUS_UNEXPECTED_def split: option.splits)

lemma IfError_http: "dwHttpError e \<ge> 400 \<Longrightarrow> IfError e"
  by (simp add: IfError_def)

section \<open>Formatting\<close>

text \<open>The text of a secure channel error: a line per flag. The flags are the bits of
  the WinHTTP callback (winhttp.h).\<close>

definition ErrorArray :: "(DWORD \<times> string) list" where
  "ErrorArray =
   [(0x00000001, ''Certification revocation checking has been enabled, but the revocation check failed to verify whether a certificate has been revoked. The server used to check for revocation might be unreachable.'' @ [CHR 0x0D, CHR 0x0A]),
    (0x00000002, ''SSL certificate is invalid.'' @ [CHR 0x0D, CHR 0x0A]),
    (0x00000004, ''SSL certificate was revoked.'' @ [CHR 0x0D, CHR 0x0A]),
    (0x00000008, ''The function is unfamiliar with the Certificate Authority that generated the server'' @ [CHR 0x27] @ ''s certificate.'' @ [CHR 0x0D, CHR 0x0A]),
    (0x00000010, ''SSL certificate common name (host name field) is incorrect, for example, if you entered www.microsoft.com and the common name on the certificate says www.msn.com.'' @ [CHR 0x0D, CHR 0x0A]),
    (0x00000020, ''SSL certificate date that was received from the server is bad. The certificate is expired.'' @ [CHR 0x0D, CHR 0x0A]),
    (0x80000000, ''The application experienced an internal error loading the SSL libraries.'' @ [CHR 0x0D, CHR 0x0A])]"

definition GetSecureErrorText :: "DWORD \<Rightarrow> string" where
  "GetSecureErrorText e = concat (map (\<lambda>(m, tx). if and e m \<noteq> 0 then tx else []) ErrorArray)"

definition add_line :: "string \<Rightarrow> string \<Rightarrow> string \<Rightarrow> string" where
  "add_line sLineEnd sMsg item = (if sMsg \<noteq> [] then sMsg @ sLineEnd else sMsg) @ item"

definition add_if :: "bool \<Rightarrow> string \<Rightarrow> string \<Rightarrow> string \<Rightarrow> string" where
  "add_if c sLineEnd item sMsg = (if c then add_line sLineEnd sMsg item else sMsg)"

definition cert_text :: "ECS_CERT_INFO \<Rightarrow> string" where
  "cert_text ci = ''Cert Name: '' @ sCertName ci @ [CHR 0x0A, CHR 0x0A] @ ''Cert Subject:'' @ [CHR 0x0A]
     @ sCertSubject ci @ [CHR 0x0A, CHR 0x0A] @ ''Cert Subject Alternate Names:'' @ [CHR 0x0A]
     @ sCertSubjectAltName ci @ [CHR 0x0A]"

text \<open>The loops that flatten line ends: a pair becomes one blank (the first character is
  deleted, the second overwritten), a single one is overwritten.\<close>

function collapse_pair :: "char \<Rightarrow> char \<Rightarrow> string \<Rightarrow> string" where
  "collapse_pair a b s = (case str_find [a, b] s of
     None \<Rightarrow> s
   | Some i \<Rightarrow> collapse_pair a b (take i s @ CHR '' '' # drop (i + 2) s))"
  by pat_completeness auto

termination collapse_pair
proof (relation "measure (\<lambda>(a, b, s). length s)")
  fix a b :: char and s i assume "str_find [a, b] s = Some i"
  then have "i + 2 \<le> length s" using str_find_Some by force
  then show "((a, b, take i s @ CHR '' '' # drop (i + 2) s), a, b, s) \<in> measure (\<lambda>(a, b, s). length s)"
    by simp
qed simp

datatype line_char = LF | CR

fun line_char_of :: "line_char \<Rightarrow> char" where
  "line_char_of LF = CHR 0x0A"
| "line_char_of CR = CHR 0x0D"

function blank_char :: "line_char \<Rightarrow> string \<Rightarrow> string" where
  "blank_char lc s = (case find_char (line_char_of lc) s of
     None \<Rightarrow> s
   | Some i \<Rightarrow> blank_char lc (s[i := CHR '' '']))"
  by pat_completeness auto

lemma count_list_update_less:
  "i < length s \<Longrightarrow> s ! i = c \<Longrightarrow> c \<noteq> d \<Longrightarrow> count_list (s[i := d]) c < count_list s c"
  by (induction s arbitrary: i) (auto split: nat.splits)

termination blank_char
proof (relation "measure (\<lambda>(lc, s). count_list s (line_char_of lc))")
  fix lc s i assume "find_char (line_char_of lc) s = Some i"
  then have "i < length s" "s ! i = line_char_of lc" using find_char_Some by auto
  moreover have "line_char_of lc \<noteq> CHR '' ''" by (cases lc) auto
  ultimately show "((lc, s[i := CHR '' '']), lc, s) \<in> measure (\<lambda>(lc, s). count_list s (line_char_of lc))"
    using count_list_update_less by auto
qed simp

declare collapse_pair.simps [simp del] blank_char.simps [simp del]

definition one_line :: "string \<Rightarrow> string" where
  "one_line sMsg = blank_char CR (blank_char LF
     (collapse_pair (CHR 0x0A) (CHR 0x0D) (collapse_pair (CHR 0x0D) (CHR 0x0A) sMsg)))"

definition Format ::
  "(DWORD \<Rightarrow> string) \<Rightarrow> s3_maps \<Rightarrow> bool \<Rightarrow> S3_ERROR \<Rightarrow> string" where
  "Format GetNTErrorText maps bOneLine e =
     (let le = (if bOneLine then '', '' else [CHR 0x0D, CHR 0x0A]);
          m0 = (if dwError e \<noteq> 0 then GetNTErrorText (dwError e) else []);
          m1 = add_if ((dwHttpError e \<noteq> 0 \<and> dwHttpError e \<noteq> 200) \<or> dwError e = HTTP_E_STATUS_UNEXPECTED)
                 le (''Http: '' @ decimal (unat (dwHttpError e))) m0;
          m2 = (if S3Error e \<noteq> S3_ERROR_SUCCESS
                then (case fst (S3ErrorInfo (S3Error e) maps) of
                        Some (_, tx) \<Rightarrow> add_line le m1 (''S3Error = '' @ tx)
                      | None \<Rightarrow> m1)
                else m1);
          m3 = add_if (sS3Code e \<noteq> []) le (''S3 Code: '' @ sS3Code e) m2;
          m4 = add_if (sS3Resource e \<noteq> []) le (''S3 Resource: '' @ sS3Resource e) m3;
          m5 = add_if (sS3RequestID e \<noteq> []) le (''S3 RequestID: '' @ sS3RequestID e) m4;
          m6 = add_if (dwSecureError e \<noteq> 0) le
                 (''Secure Error: '' @ GetSecureErrorText (dwSecureError e) @ le @ cert_text (CertInfo e)) m5;
          m7 = add_if (sDetails e \<noteq> []) le (''Details: '' @ sDetails e) m6;
          m8 = add_if (sHostAddr e \<noteq> [] \<and> IfError e) le (''IP: '' @ sHostAddr e) m7
      in if bOneLine then one_line m8 else m8)"

subsection \<open>Lemmas\<close>

lemma HttpErrorMap_map_of: "HttpErrorMap = map_of HttpErrorInitArray"
proof
  fix k
  have "map (\<lambda>r. (fst r, snd r)) HttpErrorInitArray = HttpErrorInitArray" by simp
  moreover have "foldl (\<lambda>m r. map_insert (fst r) (snd r) m) m xs k
      = (case m k of Some v \<Rightarrow> Some v | None \<Rightarrow> map_of xs k)"
    for m and xs :: "(DWORD \<times> DWORD) list"
    by (induction xs arbitrary: m) (auto simp: map_insert_def split: option.splits)
  ultimately show "HttpErrorMap k = map_of HttpErrorInitArray k" by (simp add: HttpErrorMap_def)
qed

lemma HttpErrorMap_nonzero: "HttpErrorMap n = Some h \<Longrightarrow> h \<noteq> 0"
proof -
  assume "HttpErrorMap n = Some h"
  then have "(n, h) \<in> set HttpErrorInitArray" unfolding HttpErrorMap_map_of by (rule map_of_SomeD)
  moreover have "\<forall>x \<in> set HttpErrorInitArray. snd x \<noteq> 0"
    by (simp add: HttpErrorInitArray_def HTTP_E_STATUS_def)
  ultimately show ?thesis by auto
qed

lemma find_char_update:
  "x \<noteq> c \<Longrightarrow> x \<noteq> CHR '' '' \<Longrightarrow> x \<in> set (s[i := CHR '' '']) \<Longrightarrow> x \<in> set s"
  using set_update_subset_insert by fastforce

lemma blank_char_none: "line_char_of lc \<notin> set (blank_char lc s)"
proof (induction lc s rule: blank_char.induct)
  case (1 lc s)
  show ?case
  proof (cases "find_char (line_char_of lc) s")
    case None
    then have "blank_char lc s = s" by (subst blank_char.simps) simp
    then show ?thesis using None by (simp add: find_char_None)
  next
    case (Some i)
    then show ?thesis using 1 [OF Some] by (subst blank_char.simps) simp
  qed
qed

lemma blank_char_other: "x \<noteq> CHR '' '' \<Longrightarrow> x \<in> set (blank_char lc s) \<Longrightarrow> x \<in> set s"
proof (induction lc s rule: blank_char.induct)
  case (1 lc s)
  show ?case
  proof (cases "find_char (line_char_of lc) s")
    case None
    then show ?thesis using 1(3) by (subst (asm) blank_char.simps) simp
  next
    case (Some i)
    have "blank_char lc s = blank_char lc (s[i := CHR '' ''])"
      by (subst blank_char.simps) (simp add: Some)
    then have "x \<in> set (s[i := CHR '' ''])" using 1(1) [OF Some 1(2)] 1(3) by simp
    then show ?thesis using 1(2) set_update_subset_insert by fastforce
  qed
qed

lemma one_line_no_ends: "CHR 0x0A \<notin> set (one_line s) \<and> CHR 0x0D \<notin> set (one_line s)"
  using blank_char_none [of CR] blank_char_none [of LF] blank_char_other [of "CHR 0x0A" CR]
  by (fastforce simp: one_line_def)

lemma one_line_id: "CHR 0x0A \<notin> set s \<Longrightarrow> CHR 0x0D \<notin> set s \<Longrightarrow> one_line s = s"
proof -
  assume n: "CHR 0x0A \<notin> set s" "CHR 0x0D \<notin> set s"
  have "str_find [a, b] s = None" if "a \<notin> set s" for a b
    using that by (induction s) auto
  then show ?thesis
    using n by (simp add: one_line_def collapse_pair.simps blank_char.simps find_char_None [THEN iffD2])
qed

section \<open>Properties\<close>

text \<open>The translation inverts the table: whatever the state of the lazily built
  maps, an S3 error id is recognised in any letter case as its code, whose id and text
  are found again, and an id that is in no entry is unknown.\<close>

theorem S3TranslateError_correct:
  assumes "s3_maps_ok st"
  shows "(\<forall>(c, i, tx) \<in> set S3ErrorTransTable.
            (eq_nocase s i \<longrightarrow> fst (S3TranslateError s st) = c)
          \<and> fst (S3ErrorInfo c st) = Some (i, tx))
    \<and> ((\<forall>r \<in> set S3ErrorTransTable. \<not> eq_nocase s (fst (snd r)))
         \<longrightarrow> fst (S3TranslateError s st) = S3_ERROR_UNKNOWN)
    \<and> s3_maps_ok (snd (S3TranslateError s st))"
proof -
  have d1: "distinct (map fst (map (\<lambda>r. (lower_str (fst (snd r)), r)) S3ErrorTransTable))"
    using table_ids_distinct by (simp add: comp_def)
  have d2: "distinct (map fst (map (\<lambda>r. (fst r, r)) S3ErrorTransTable))"
    using table_codes distinct_upt [of 2 82] by (simp only: map_map comp_def fst_conv)
  have 1: "fst (S3TranslateError s st) = c" if "(c, i, tx) \<in> set S3ErrorTransTable" "eq_nocase s i" for c i tx
  proof -
    have "map_of (map (\<lambda>r. (lower_str (fst (snd r)), r)) S3ErrorTransTable) (lower_str s) = Some (c, i, tx)"
      by (rule map_of_is_SomeI [OF d1])
        (use that in \<open>auto simp: eq_nocase_def intro!: rev_image_eqI [of "(c, i, tx)"]\<close>)
    then show ?thesis by (simp add: S3TranslateError_ok [OF assms])
  qed
  have 2: "fst (S3ErrorInfo c st) = Some (i, tx)" if "(c, i, tx) \<in> set S3ErrorTransTable" for c i tx
  proof -
    have "map_of (map (\<lambda>r. (fst r, r)) S3ErrorTransTable) c = Some (c, i, tx)"
      by (rule map_of_is_SomeI [OF d2])
        (use that in \<open>auto intro!: rev_image_eqI [of "(c, i, tx)"]\<close>)
    then show ?thesis by (simp add: S3ErrorInfo_ok [OF assms])
  qed
  have 3: "fst (S3TranslateError s st) = S3_ERROR_UNKNOWN"
    if "\<forall>r \<in> set S3ErrorTransTable. \<not> eq_nocase s (fst (snd r))"
  proof -
    have "map_of (map (\<lambda>r. (lower_str (fst (snd r)), r)) S3ErrorTransTable) (lower_str s) = None"
      using that by (auto simp: map_of_eq_None_iff eq_nocase_def)
    then show ?thesis by (simp add: S3TranslateError_ok [OF assms])
  qed
  have 4: "s3_maps_ok (snd (S3TranslateError s st))"
    by (simp add: S3TranslateError_ok [OF assms] s3_maps_ok_def)
  show ?thesis using 1 2 3 4 by blast
qed

lemma S3TranslateError_correct_witness:
  "fst (S3TranslateError ''nosuchKEY'' s3_maps_init) = S3_ERROR_NoSuchKey"
proof -
  have m: "(S3_ERROR_NoSuchKey, ''NoSuchKey'', ''The specified key does not exist.'') \<in> set S3ErrorTransTable"
    by (simp add: S3ErrorTransTable_def)
  have e: "eq_nocase ''nosuchKEY'' ''NoSuchKey''" by code_simp
  have "s3_maps_ok s3_maps_init" by (simp add: s3_maps_ok_def)
  then show ?thesis using S3TranslateError_correct [of s3_maps_init "''nosuchKEY''"] m e by blast
qed

text \<open>An error value that was copied or assigned reports through its Win32 code:
  it is an error exactly when the original was, an error has a code other than
  ERROR_SUCCESS, a code that was set is kept, and copying again changes nothing.\<close>

theorem SetError_normalizes:
  "IfError (SetError e) = IfError e
   \<and> (IfError e \<longleftrightarrow> dwError (SetError e) \<noteq> 0)
   \<and> (dwError e \<noteq> 0 \<longrightarrow> SetError e = e)
   \<and> SetError (SetError e) = SetError e"
  using HttpErrorMap_nonzero [of "dwHttpError e"]
  by (auto simp: SetError_def IfError_def HTTP_E_STATUS_UNEXPECTED_def split: option.splits)

lemma SetError_normalizes_witness:
  "SetError ((S3_ERROR_new 5)\<lparr> dwHttpError := 404 \<rparr>) = (S3_ERROR_new 5)\<lparr> dwHttpError := 404 \<rparr>"
  using SetError_normalizes [of "(S3_ERROR_new 5)\<lparr> dwHttpError := 404 \<rparr>"] by (simp add: S3_ERROR_new_def)

text \<open>A formatted error on one line holds no carriage return and no line feed,
  whatever the system error text and the server's strings contain, and the flattening
  loops end on every message.\<close>

theorem Format_one_line:
  "CHR 0x0A \<notin> set (Format nt maps True e) \<and> CHR 0x0D \<notin> set (Format nt maps True e)"
  using one_line_no_ends by (simp add: Format_def Let_def)

end
