(* ===== verification/ThreadPool.thy ===== *)
theory ThreadPool
  imports Prelude "HOL-Library.Multiset"
begin

text \<open>
  The thread pool (src/ECSUtil/ThreadPool.h): a priority message queue, a queue of
  delayed messages, and worker threads that take a message, process it outside the
  locks and remove it. The critical sections under the pool and queue locks are the
  atomic steps of the model; the virtual \<open>CompareEntry\<close> and the outcome of
  \<open>DoProcess\<close>, the clock and the thread ids are inputs. Thread creation by the
  operating system is taken to succeed.
\<close>

section \<open>State\<close>

record 'm CMsgEntry =
  bProcessing :: bool
  uPriority :: DWORD
  uLineNo :: DWORD
  uGrouping :: DWORD
  ullUniqueID :: nat
  ftDueTime :: FILETIME
  Payload :: 'm

record 'm CThreadWork =
  w_ThreadID :: nat
  w_bActive :: bool
  w_bExit :: bool
  w_bInUse :: bool
  w_uGrouping :: DWORD
  w_Msg :: "'m option"
  w_pMsg :: "nat option"
  w_ftIdleTime :: FILETIME

record 'm CThreadPool =
  dwMaxNumThreads :: DWORD
  dwMinNumThreads :: DWORD
  dwMaxNumThreadsRange :: DWORD
  dwQueueRangeMin :: DWORD
  dwQueueRangeMax :: DWORD
  perfNumThreads :: DWORD
  perfQueueSize :: DWORD
  perfQueueMax :: DWORD
  perfQueueRateIn :: DWORD
  perfQueueRateOut :: DWORD
  perfWorkItems :: DWORD
  perfOverflow :: DWORD
  dwMaxConcurrentThreads :: DWORD
  bDisable :: bool
  evEmptyEvent :: bool
  MsgQueue :: "'m CMsgEntry list"
  FutureMsgQueue :: "'m CMsgEntry list"
  Pool :: "'m CThreadWork list"
  nextUniqueID :: nat
  nextThreadID :: nat

definition GROUPING_DONT_CARE :: DWORD where "GROUPING_DONT_CARE = 0"
definition GROUPING_ALONE_BASE :: DWORD where "GROUPING_ALONE_BASE = 1000"

definition pool_init :: "'m CThreadPool" where
  "pool_init = \<lparr> dwMaxNumThreads = 20, dwMinNumThreads = 4, dwMaxNumThreadsRange = 0,
     dwQueueRangeMin = 0, dwQueueRangeMax = 0, perfNumThreads = 0, perfQueueSize = 0,
     perfQueueMax = 0, perfQueueRateIn = 0, perfQueueRateOut = 0, perfWorkItems = 0,
     perfOverflow = 0, dwMaxConcurrentThreads = 0, bDisable = False, evEmptyEvent = False,
     MsgQueue = [], FutureMsgQueue = [], Pool = [], nextUniqueID = 0, nextThreadID = 1 \<rparr>"

section \<open>Operations\<close>

definition GetMsgQueueCount :: "'m CThreadPool \<Rightarrow> DWORD" where
  "GetMsgQueueCount p = of_nat (length (MsgQueue p))"

definition worker_counts :: "nat \<Rightarrow> 'm CThreadWork \<Rightarrow> bool" where
  "worker_counts ignore w \<longleftrightarrow>
     (ignore = 0 \<or> w_ThreadID w \<noteq> ignore) \<and> w_bActive w \<and> \<not> w_bExit w"

definition NumThreads :: "nat \<Rightarrow> 'm CThreadPool \<Rightarrow> DWORD" where
  "NumThreads ignore p = of_nat (length (filter (worker_counts ignore) (Pool p)))"

text \<open>\<open>GetNumThreadsInternal\<close> returns the count and stores it in the counter.\<close>

definition GetNumThreadsInternal :: "nat \<Rightarrow> 'm CThreadPool \<Rightarrow> DWORD \<times> 'm CThreadPool" where
  "GetNumThreadsInternal ignore p = (NumThreads ignore p, p\<lparr> perfNumThreads := NumThreads ignore p \<rparr>)"

definition GetMinNumThreadsInternal :: "'m CThreadPool \<Rightarrow> DWORD" where
  "GetMinNumThreadsInternal p =
     (if dwMinNumThreads p > 0 then dwMinNumThreads p
      else if FutureMsgQueue p = [] \<and> MsgQueue p = [] then dwMinNumThreads p
      else 1)"

definition group_conflict :: "DWORD \<Rightarrow> 'm CThreadWork \<Rightarrow> bool" where
  "group_conflict g w \<longleftrightarrow> w_bInUse w
     \<and> (g \<noteq> GROUPING_DONT_CARE \<or> w_uGrouping w \<noteq> GROUPING_DONT_CARE)
     \<and> (g \<ge> GROUPING_ALONE_BASE \<or> w_uGrouping w \<ge> GROUPING_ALONE_BASE \<or> w_uGrouping w \<noteq> g)"

definition IfInGroup :: "DWORD \<Rightarrow> 'm CThreadPool \<Rightarrow> bool" where
  "IfInGroup g p \<longleftrightarrow> \<not> (\<exists>w \<in> set (Pool p). group_conflict g w)"

text \<open>The search from the back of the queue for the last entry of at least this
  priority; the new entry goes right after it, or to the front.\<close>

definition insert_msg :: "'m CMsgEntry \<Rightarrow> 'm CMsgEntry list \<Rightarrow> 'm CMsgEntry list" where
  "insert_msg Rec q =
     (let r = rev q; k = length (takeWhile (\<lambda>e. \<not> uPriority e \<ge> uPriority Rec) r) in
      if k = length q then Rec # q else rev (drop k r) @ Rec # rev (take k r))"

definition set_worker :: "nat \<Rightarrow> ('m CThreadWork \<Rightarrow> 'm CThreadWork) \<Rightarrow> 'm CThreadPool \<Rightarrow> 'm CThreadPool" where
  "set_worker i f p = p\<lparr> Pool := (Pool p)[i := f (Pool p ! i)] \<rparr>"

definition SetIdle :: "FILETIME \<Rightarrow> 'm CThreadWork \<Rightarrow> 'm CThreadWork" where
  "SetIdle now w = w\<lparr> w_bInUse := False, w_ftIdleTime := now \<rparr>"

text \<open>\<open>UpdatePerf\<close>: \<open>pMsg\<close> is the message to queue with its line, priority, grouping
  and delay, \<open>pResetIdle\<close> the worker that has finished.\<close>

definition UpdatePerf ::
  "FILETIME \<Rightarrow> ('m \<times> DWORD \<times> DWORD \<times> DWORD \<times> DWORD) option \<Rightarrow> nat option
   \<Rightarrow> 'm CThreadPool \<Rightarrow> 'm CThreadPool" where
  "UpdatePerf now pMsg pResetIdle p0 =
     (let p1 = (case pResetIdle of None \<Rightarrow> p0 | Some i \<Rightarrow> set_worker i (SetIdle now) p0);
          p2 = (case pMsg of
                  None \<Rightarrow> p1
                | Some (payload, uLine, prio, grouping, dwDelay) \<Rightarrow>
                    let Rec = \<lparr> bProcessing = False, uPriority = prio, uLineNo = uLine,
                                uGrouping = grouping, ullUniqueID = nextUniqueID p1,
                                ftDueTime = (if dwDelay \<noteq> 0 then now + ucast dwDelay * 10000 else 0),
                                Payload = payload \<rparr> in
                    p1\<lparr> perfQueueRateIn := perfQueueRateIn p1 + 1,
                        nextUniqueID := Suc (nextUniqueID p1),
                        MsgQueue := insert_msg Rec (MsgQueue p1) \<rparr>);
          dwCount = GetMsgQueueCount p2 in
      p2\<lparr> perfQueueSize := dwCount, perfWorkItems := 0,
          perfQueueMax := (if dwCount > perfQueueMax p2 then dwCount else perfQueueMax p2) \<rparr>)"

definition new_worker :: "nat \<Rightarrow> 'm CThreadWork" where
  "new_worker tid = \<lparr> w_ThreadID = tid, w_bActive = True, w_bExit = False, w_bInUse = False,
     w_uGrouping = GROUPING_DONT_CARE, w_Msg = None, w_pMsg = None, w_ftIdleTime = 0 \<rparr>"

definition restart_worker :: "nat \<Rightarrow> 'm CThreadWork \<Rightarrow> 'm CThreadWork" where
  "restart_worker tid w = w\<lparr> w_ThreadID := tid, w_bActive := True, w_bExit := False, w_bInUse := False \<rparr>"

text \<open>The first slot whose thread has ended is used again, or a slot is added.\<close>

fun start_in :: "nat \<Rightarrow> 'm CThreadWork list \<Rightarrow> 'm CThreadWork list" where
  "start_in tid [] = [new_worker tid]"
| "start_in tid (w # ws) =
     (if \<not> w_bActive w then restart_worker tid w # ws else w # start_in tid ws)"

definition StartNewThread :: "'m CThreadPool \<Rightarrow> 'm CThreadPool" where
  "StartNewThread p = p\<lparr> Pool := start_in (nextThreadID p) (Pool p),
                         nextThreadID := Suc (nextThreadID p) \<rparr>"

fun start_threads :: "nat \<Rightarrow> 'm CThreadPool \<Rightarrow> 'm CThreadPool" where
  "start_threads 0 p = p"
| "start_threads (Suc n) p = start_threads n (StartNewThread p)"

text \<open>The proportional number of threads. All arithmetic is on DWORDs.\<close>

definition real_max_threads :: "'m CThreadPool \<Rightarrow> DWORD" where
  "real_max_threads p =
     (if dwQueueRangeMin p > 0 then
        let dwCurrentQueueSize = GetMsgQueueCount p + perfOverflow p in
        if dwCurrentQueueSize < dwQueueRangeMin p then dwMaxNumThreads p
        else if dwCurrentQueueSize > dwQueueRangeMax p then dwMaxNumThreadsRange p
        else if dwQueueRangeMax p > dwQueueRangeMin p then
          (dwCurrentQueueSize - dwQueueRangeMin p) * (dwMaxNumThreadsRange p - dwMaxNumThreads p)
            div (dwQueueRangeMax p - dwQueueRangeMin p) + dwMaxNumThreads p
        else dwMaxNumThreads p
      else dwMaxNumThreads p)"

text \<open>The part of \<open>AddThreads\<close> under the lock of the pool; the limit was computed before.
  Each start adds one to the count, so the loop that fills up to the minimum runs
  as often as threads are missing.\<close>

definition AddThreads_locked :: "DWORD \<Rightarrow> 'm CThreadPool \<Rightarrow> 'm CThreadPool" where
  "AddThreads_locked dwRealMaxThreads p =
     (if NumThreads 0 p < dwRealMaxThreads then
        let p1 = start_threads (unat (GetMinNumThreadsInternal p) - unat (NumThreads 0 p)) p;
            dwActive = NumThreads 0 p1;
            p2 = p1\<lparr> perfNumThreads := dwActive \<rparr> in
        if dwRealMaxThreads - dwActive > 0 \<and> GetMsgQueueCount p2 > dwActive
           \<and> (case MsgQueue p2 of [] \<Rightarrow> False | e # _ \<Rightarrow> IfInGroup (uGrouping e) p2)
        then StartNewThread p2 else p2
      else p\<lparr> perfNumThreads := NumThreads 0 p \<rparr>)"

definition AddThreads :: "'m CThreadPool \<Rightarrow> 'm CThreadPool" where
  "AddThreads p = AddThreads_locked (real_max_threads p) p"

datatype send_result = SENT | WOULD_BLOCK | WAITS

text \<open>\<open>SendMessageToPool\<close>: a full queue returns to a caller that does not block, and
  makes any other wait for the delete event (here: the send is not performed and
  can be retried).\<close>

definition SendMessageToPool ::
  "FILETIME \<Rightarrow> nat \<Rightarrow> DWORD \<Rightarrow> 'm \<Rightarrow> DWORD \<Rightarrow> DWORD \<Rightarrow> bool option \<Rightarrow> DWORD \<Rightarrow> bool \<Rightarrow> DWORD
   \<Rightarrow> 'm CThreadPool \<Rightarrow> send_result \<times> 'm CThreadPool" where
  "SendMessageToPool now tid uLine Msg dwMaxQueueSize prio threadExit grouping noBlock dwDelay p =
     (let m0 = (if threadExit \<noteq> None \<and> dwMaxQueueSize = 0 then 10000 else dwMaxQueueSize);
          m1 = (if \<exists>w \<in> set (Pool p). w_ThreadID w = tid then 0 else m0) in
      if m1 \<noteq> 0 \<and> GetMsgQueueCount p > m1 \<and> noBlock then (WOULD_BLOCK, p)
      else if m1 \<noteq> 0 \<and> GetMsgQueueCount p > m1 \<and> threadExit \<noteq> Some True then (WAITS, p)
      else (SENT, AddThreads (UpdatePerf now (Some (Msg, uLine, prio, grouping, dwDelay)) None p)))"

definition push_delayed ::
  "FILETIME \<Rightarrow> DWORD \<Rightarrow> DWORD \<Rightarrow> 'm \<Rightarrow> DWORD \<Rightarrow> DWORD \<Rightarrow> 'm CThreadPool \<Rightarrow> 'm CThreadPool" where
  "push_delayed now uLine dwDueTime Msg prio grouping p =
     (let Rec = \<lparr> bProcessing = False, uPriority = prio, uLineNo = uLine, uGrouping = grouping,
                  ullUniqueID = nextUniqueID p, ftDueTime = now + ucast dwDueTime * 10000,
                  Payload = Msg \<rparr> in
      p\<lparr> FutureMsgQueue := FutureMsgQueue p @ [Rec], nextUniqueID := Suc (nextUniqueID p) \<rparr>)"

definition SendMessageToPoolDelayed ::
  "FILETIME \<Rightarrow> DWORD \<Rightarrow> DWORD \<Rightarrow> 'm \<Rightarrow> DWORD \<Rightarrow> DWORD \<Rightarrow> 'm CThreadPool \<Rightarrow> 'm CThreadPool" where
  "SendMessageToPoolDelayed now uLine dwDueTime Msg prio grouping p =
     AddThreads (push_delayed now uLine dwDueTime Msg prio grouping p)"

section \<open>The worker\<close>

definition next_msg :: "'m CMsgEntry list \<Rightarrow> 'm CMsgEntry option" where
  "next_msg q = find (\<lambda>e. \<not> bProcessing e) q"

definition mark_processing :: "nat \<Rightarrow> bool \<Rightarrow> 'm CMsgEntry list \<Rightarrow> 'm CMsgEntry list" where
  "mark_processing i b q = map (\<lambda>e. if ullUniqueID e = i then e\<lparr> bProcessing := b \<rparr> else e) q"

definition count_in_use :: "'m CThreadPool \<Rightarrow> DWORD" where
  "count_in_use p = of_nat (length (filter w_bInUse (Pool p)))"

datatype take_result = TAKEN | NOTHING | GROUPED_OUT | NOT_DUE FILETIME

text \<open>The first critical section of \<open>DoWork\<close>: the first entry nobody is processing,
  if its group and its due time allow. \<open>w\<close> is the worker's slot in the pool.\<close>

definition take_msg :: "FILETIME \<Rightarrow> nat \<Rightarrow> 'm CThreadPool \<Rightarrow> take_result \<times> 'm CThreadPool" where
  "take_msg now w p = (case next_msg (MsgQueue p) of
     None \<Rightarrow> (NOTHING, p)
   | Some e \<Rightarrow>
       let p1 = set_worker w (\<lambda>x. x\<lparr> w_Msg := Some (Payload e), w_uGrouping := uGrouping e \<rparr>) p in
       if \<not> IfInGroup (uGrouping e) p1 then (GROUPED_OUT, p1)
       else if ftDueTime e \<noteq> 0 \<and> now < ftDueTime e then (NOT_DUE (ftDueTime e - now), p1)
       else let p2 = set_worker w (\<lambda>x. x\<lparr> w_bInUse := True, w_pMsg := Some (ullUniqueID e) \<rparr>)
                       (p1\<lparr> MsgQueue := mark_processing (ullUniqueID e) True (MsgQueue p1) \<rparr>) in
            (TAKEN, p2\<lparr> perfWorkItems := count_in_use p2 \<rparr>))"

text \<open>The cycle time a worker sets when the message is not due yet, in milliseconds.\<close>

definition wait_millisec :: "FILETIME \<Rightarrow> DWORD" where
  "wait_millisec d = (let t = (ucast (d * 1000 div 10000000) :: DWORD) in
     if t > 0 \<and> t < 5000 then t else 5000)"

fun erase_id :: "nat \<Rightarrow> 'm CMsgEntry list \<Rightarrow> 'm CMsgEntry list" where
  "erase_id i [] = []"
| "erase_id i (e # q) = (if ullUniqueID e = i then q else e # erase_id i q)"

text \<open>The second critical section, after \<open>DoProcess\<close> returned \<open>bProcessed\<close>: the entry is
  erased, or given back. The worker is still in use; \<open>w_pMsg\<close> is its local \<open>pMsg\<close>.\<close>

definition finish_msg :: "nat \<Rightarrow> bool \<Rightarrow> 'm CThreadPool \<Rightarrow> 'm CThreadPool" where
  "finish_msg w bProcessed p0 = (case w_pMsg (Pool p0 ! w) of
     None \<Rightarrow> p0
   | Some i \<Rightarrow>
       let p1 = (if bProcessed then p0\<lparr> perfQueueRateOut := perfQueueRateOut p0 + 1 \<rparr> else p0);
           running = NumThreads 0 p1;
           p2 = p1\<lparr> perfNumThreads := running,
                    dwMaxConcurrentThreads := max running (dwMaxConcurrentThreads p1) \<rparr>;
           p3 = (if bProcessed
                 then let q = erase_id i (MsgQueue p2) in
                   p2\<lparr> MsgQueue := q,
                       evEmptyEvent := (if q \<noteq> MsgQueue p2 \<and> q = [] then True else evEmptyEvent p2) \<rparr>
                 else p2\<lparr> MsgQueue := mark_processing i False (MsgQueue p2) \<rparr>) in
       set_worker w (\<lambda>x. x\<lparr> w_pMsg := None \<rparr>) p3)"

text \<open>After it the worker is set idle (\<open>UpdatePerf\<close> with the worker), and ends itself when
  the pool is over the limit its last \<open>AddThreads\<close> computed.\<close>

definition kill_if_over :: "nat \<Rightarrow> DWORD \<Rightarrow> 'm CThreadPool \<Rightarrow> 'm CThreadPool" where
  "kill_if_over w dwRealMaxThreads p =
     (if NumThreads 0 p > dwRealMaxThreads
      then set_worker w (\<lambda>x. x\<lparr> w_bExit := True \<rparr>) p else p)"

definition IfThreadIdleTooLong :: "FILETIME \<Rightarrow> 'm CThreadWork \<Rightarrow> bool" where
  "IfThreadIdleTooLong now w \<longleftrightarrow>
     \<not> w_bInUse w \<and> \<not> (w_ftIdleTime w = 0 \<or> w_ftIdleTime w + 100000000 > now)"

text \<open>The housekeeping of a worker whose wait timed out; \<open>bFutureEmpty\<close> was read in a
  critical section before.\<close>

definition idle_check :: "bool \<Rightarrow> FILETIME \<Rightarrow> nat \<Rightarrow> 'm CThreadPool \<Rightarrow> 'm CThreadPool" where
  "idle_check bFutureEmpty now w p =
     (if bFutureEmpty \<and> NumThreads 0 p > GetMinNumThreadsInternal p
         \<and> IfThreadIdleTooLong now (Pool p ! w)
      then set_worker w (\<lambda>x. x\<lparr> w_bExit := True \<rparr>) p else p)"

definition exit_worker :: "nat \<Rightarrow> 'm CThreadPool \<Rightarrow> 'm CThreadPool" where
  "exit_worker w p =
     (let p1 = set_worker w (\<lambda>x. x\<lparr> w_bInUse := False, w_bActive := False \<rparr>) p in
      p1\<lparr> perfNumThreads := NumThreads (w_ThreadID (Pool p ! w)) p1 \<rparr>)"

definition DeleteOldThreadEntries :: "FILETIME \<Rightarrow> 'm CThreadPool \<Rightarrow> 'm CThreadPool" where
  "DeleteOldThreadEntries now p =
     p\<lparr> Pool := filter (\<lambda>w. \<not> (\<not> w_bActive w \<and> w_ftIdleTime w + 300000000 < now)) (Pool p) \<rparr>"

section \<open>Searching\<close>

definition SearchMessage ::
  "('m \<Rightarrow> 'm \<Rightarrow> bool) \<Rightarrow> 'm \<Rightarrow> bool \<Rightarrow> 'm CThreadPool \<Rightarrow> 'm option" where
  "SearchMessage cmp MsgFind bInProcess p =
     map_option Payload (find (\<lambda>e. (bInProcess \<or> \<not> bProcessing e) \<and> cmp MsgFind (Payload e)) (MsgQueue p))"

definition kill_match :: "('m \<Rightarrow> 'm \<Rightarrow> bool) \<Rightarrow> 'm \<Rightarrow> 'm CMsgEntry \<Rightarrow> bool" where
  "kill_match cmp MsgFind e \<longleftrightarrow> \<not> bProcessing e \<and> cmp MsgFind (Payload e)"

text \<open>One pass of the loop of \<open>SearchMessageKill\<close> erases the first match and starts
  over; it ends when a pass finds none.\<close>

fun erase_first :: "('a \<Rightarrow> bool) \<Rightarrow> 'a list \<Rightarrow> 'a list option" where
  "erase_first P [] = None"
| "erase_first P (x # xs) = (if P x then Some xs else map_option ((#) x) (erase_first P xs))"

lemma erase_first_length: "erase_first P xs = Some ys \<Longrightarrow> length ys < length xs"
  by (induction xs arbitrary: ys) (auto split: if_splits)

function kill_loop :: "('a \<Rightarrow> bool) \<Rightarrow> 'a list \<Rightarrow> bool \<Rightarrow> bool \<times> 'a list" where
  "kill_loop P q bFound = (case erase_first P q of
     None \<Rightarrow> (bFound, q)
   | Some q' \<Rightarrow> kill_loop P q' True)"
  by pat_completeness auto

termination kill_loop
  by (relation "measure (\<lambda>(P, q, b). length q)") (auto dest: erase_first_length)

declare kill_loop.simps [simp del]

definition SearchMessageKill ::
  "('m \<Rightarrow> 'm \<Rightarrow> bool) \<Rightarrow> 'm \<Rightarrow> 'm CThreadPool \<Rightarrow> bool \<times> 'm CThreadPool" where
  "SearchMessageKill cmp MsgFind p =
     (let (bFound, q) = kill_loop (kill_match cmp MsgFind) (MsgQueue p) False in
      (bFound, p\<lparr> MsgQueue := q,
         perfQueueSize := (if bFound then of_nat (length q) else perfQueueSize p) \<rparr>))"

text \<open>\<open>SearchMessageBackModify\<close> offers the matching entries to a callback, latest first. The
  callback may change the message, have it deleted, stop the search, ask to start over
  (which also stops the pass) or throw. \<open>back_pass\<close> is one pass over the reversed queue.\<close>

datatype 'm found_result = FoundThrows DWORD | Found 'm bool bool bool

fun back_pass ::
  "('m \<Rightarrow> 'm \<Rightarrow> bool) \<Rightarrow> 'm \<Rightarrow> ('m \<Rightarrow> 'c \<Rightarrow> 'm found_result \<times> 'c) \<Rightarrow> 'm CMsgEntry list \<Rightarrow> 'c
   \<Rightarrow> (DWORD + bool) \<times> 'm CMsgEntry list \<times> 'c" where
  "back_pass cmp MsgFind FoundProc [] c = (Inr False, [], c)"
| "back_pass cmp MsgFind FoundProc (e # r) c =
     (if \<not> bProcessing e \<and> cmp MsgFind (Payload e) then
        (case FoundProc (Payload e) c of
           (FoundThrows err, c') \<Rightarrow> (Inl err, e # r, c')
         | (Found m bDelete bRewind bDone, c') \<Rightarrow>
             let keep = (if bDelete then [] else [e\<lparr> Payload := m \<rparr>]) in
             if bDone \<or> bRewind then (Inr bRewind, keep @ r, c')
             else let (res, r', c'') = back_pass cmp MsgFind FoundProc r c' in (res, keep @ r', c''))
      else let (res, r', c') = back_pass cmp MsgFind FoundProc r c in (res, e # r', c'))"

definition set_queue_perf :: "'m CMsgEntry list \<Rightarrow> 'm CThreadPool \<Rightarrow> 'm CThreadPool" where
  "set_queue_perf q p =
     (let n = of_nat (length q);
          counted = p\<lparr> perfQueueSize := n, perfQueueMax := max n (perfQueueMax p) \<rparr> in
      (if length q < length (MsgQueue p) then counted else p)\<lparr> MsgQueue := q \<rparr>)"

text \<open>Starting over is up to the callback, so the search may not return.\<close>

partial_function (option) SearchMessageBackModify ::
  "('m \<Rightarrow> 'm \<Rightarrow> bool) \<Rightarrow> 'm \<Rightarrow> ('m \<Rightarrow> 'c \<Rightarrow> 'm found_result \<times> 'c) \<Rightarrow> 'c \<Rightarrow> 'm CThreadPool
   \<Rightarrow> (DWORD \<times> 'm CThreadPool \<times> 'c) option" where
  "SearchMessageBackModify cmp MsgFind FoundProc c p =
     (case back_pass cmp MsgFind FoundProc (rev (MsgQueue p)) c of
        (res, r, c') \<Rightarrow>
          let p' = set_queue_perf (rev r) p in
          (case res of
             Inl err \<Rightarrow> Some (err, p', c')
           | Inr bRewind \<Rightarrow>
               if bRewind then SearchMessageBackModify cmp MsgFind FoundProc c' p'
               else Some (0, p', c')))"

definition GetCurrentWorkItems :: "'m CThreadPool \<Rightarrow> 'm list" where
  "GetCurrentWorkItems p =
     map (\<lambda>w. the (w_Msg w)) (filter (\<lambda>w. w_bActive w \<and> w_bInUse w) (Pool p))"

text \<open>\<open>DumpQueue\<close> hands the queued messages and then those in work to \<open>DumpEntry\<close>, which can
  end the dump; the result is what was dumped.\<close>

definition DumpQueue :: "(bool \<Rightarrow> 'm \<Rightarrow> bool) \<Rightarrow> 'm CThreadPool \<Rightarrow> (bool \<times> 'm) list" where
  "DumpQueue DumpEntry p =
     (let all = map (\<lambda>e. (False, Payload e)) (MsgQueue p) @ map (Pair True) (GetCurrentWorkItems p);
          n = length (takeWhile (\<lambda>(b, m). DumpEntry b m) all) in
      take (Suc n) all)"

text \<open>\<open>KillThreadQueueSRW\<close>: every worker is told to end (and nothing is taken any more, since
  both callers disable the pool first); when none is active the list is cleared.\<close>

definition KillThreads_notify :: "'m CThreadPool \<Rightarrow> 'm CThreadPool" where
  "KillThreads_notify p = p\<lparr> bDisable := True, Pool := map (\<lambda>w. w\<lparr> w_bExit := True \<rparr>) (Pool p) \<rparr>"

definition KillThreads_clear :: "'m CThreadPool \<Rightarrow> 'm CThreadPool option" where
  "KillThreads_clear p = (if \<exists>w \<in> set (Pool p). w_bActive w then None else Some (p\<lparr> Pool := [] \<rparr>))"

definition reset_perf :: "'m CThreadPool \<Rightarrow> 'm CThreadPool" where
  "reset_perf p = p\<lparr> perfNumThreads := 0, perfQueueSize := 0, perfQueueMax := 0, perfWorkItems := 0 \<rparr>"

definition DiscardPool_end :: "'m CThreadPool \<Rightarrow> 'm CThreadPool option" where
  "DiscardPool_end p = map_option (\<lambda>q. reset_perf (q\<lparr> MsgQueue := [], FutureMsgQueue := [] \<rparr>)) (KillThreads_clear p)"

section \<open>Delayed messages\<close>

definition is_due :: "bool \<Rightarrow> FILETIME \<Rightarrow> 'm CMsgEntry \<Rightarrow> bool" where
  "is_due bFlush now e \<longleftrightarrow> bFlush \<or> now \<ge> ftDueTime e"

text \<open>A turn of \<open>TransferFutureQueue\<close> has three critical sections, between which the locks
  are free: the scan copies the last due entry it sees, the copy is sent without a limit,
  and the entry is erased by the id of the copy, if it is still there.\<close>

definition transfer_scan :: "bool \<Rightarrow> FILETIME \<Rightarrow> 'm CThreadPool \<Rightarrow> 'm CMsgEntry option" where
  "transfer_scan bFlush now p = find (is_due bFlush now) (rev (FutureMsgQueue p))"

definition transfer_send :: "FILETIME \<Rightarrow> 'm CMsgEntry \<Rightarrow> 'm CThreadPool \<Rightarrow> 'm CThreadPool" where
  "transfer_send now DueMsg p =
     UpdatePerf now (Some (Payload DueMsg, uLineNo DueMsg, uPriority DueMsg, uGrouping DueMsg, 0)) None p"

definition transfer_erase :: "'m CMsgEntry \<Rightarrow> 'm CThreadPool \<Rightarrow> 'm CThreadPool" where
  "transfer_erase DueMsg p = p\<lparr> FutureMsgQueue := erase_id (ullUniqueID DueMsg) (FutureMsgQueue p) \<rparr>"

text \<open>With no limit \<open>SendMessageToPool\<close> always sends.\<close>

lemma transfer_send_is_send:
  "SendMessageToPool now tid (uLineNo e) (Payload e) 0 (uPriority e) None (uGrouping e) False 0 p
     = (SENT, AddThreads (transfer_send now e p))"
  by (simp add: SendMessageToPool_def transfer_send_def Let_def)

lemma StartNewThread_future [simp]: "FutureMsgQueue (StartNewThread p) = FutureMsgQueue p"
  by (simp add: StartNewThread_def)

lemma start_threads_future [simp]: "FutureMsgQueue (start_threads n p) = FutureMsgQueue p"
  by (induction n arbitrary: p) simp_all

lemma AddThreads_future [simp]: "FutureMsgQueue (AddThreads_locked mx p) = FutureMsgQueue p"
  by (simp add: AddThreads_locked_def Let_def)

lemma transfer_send_future [simp]: "FutureMsgQueue (transfer_send now e p) = FutureMsgQueue p"
  by (simp add: transfer_send_def UpdatePerf_def Let_def)

lemma erase_id_length: "\<exists>e \<in> set q. ullUniqueID e = i \<Longrightarrow> length (erase_id i q) < length q"
  by (induction q) auto

lemma transfer_scan_Some: "transfer_scan fl now p = Some e \<Longrightarrow> e \<in> set (FutureMsgQueue p) \<and> is_due fl now e"
  unfolding transfer_scan_def using nth_mem [of _ "rev (FutureMsgQueue p)"] by (auto simp: find_Some_iff)

text \<open>The whole call, when no other thread comes between.\<close>

function transfer_loop :: "bool \<Rightarrow> FILETIME \<Rightarrow> nat \<Rightarrow> 'm CThreadPool \<Rightarrow> 'm CThreadPool" where
  "transfer_loop bFlush now tid p =
     (case transfer_scan bFlush now p of
        None \<Rightarrow> p
      | Some e \<Rightarrow>
          transfer_loop bFlush now tid (transfer_erase e
            (snd (SendMessageToPool now tid (uLineNo e) (Payload e) 0 (uPriority e) None
                    (uGrouping e) False 0 p))))"
  by pat_completeness auto

termination transfer_loop
  by (relation "measure (\<lambda>(b, now, tid, p). length (FutureMsgQueue p))")
    (auto simp: transfer_erase_def transfer_send_is_send AddThreads_def
      intro!: erase_id_length dest!: transfer_scan_Some)

declare transfer_loop.simps [simp del]

definition TransferFutureQueue :: "bool \<Rightarrow> FILETIME \<Rightarrow> nat \<Rightarrow> 'm CThreadPool \<Rightarrow> 'm CThreadPool" where
  "TransferFutureQueue bFlush now tid p = transfer_loop bFlush now tid p"

text \<open>\<open>Terminate\<close>, once the threads have ended: the delayed messages move to the queue.\<close>

definition Terminate_end :: "FILETIME \<Rightarrow> nat \<Rightarrow> 'm CThreadPool \<Rightarrow> 'm CThreadPool option" where
  "Terminate_end now tid p = map_option (\<lambda>q. reset_perf (TransferFutureQueue True now tid q)) (KillThreads_clear p)"

section \<open>A stable priority queue\<close>

text \<open>What the pool relies on: insertion keeps the order by priority and puts an entry
  behind all earlier ones of its priority.\<close>

locale stable_priority_queue =
  fixes prio :: "'e \<Rightarrow> 'p::linorder" and ins :: "'e \<Rightarrow> 'e list \<Rightarrow> 'e list"
  assumes ins_mset: "mset (ins x q) = add_mset x (mset q)"
    and ins_sorted: "sorted_wrt (\<lambda>a b. prio b \<le> prio a) q \<Longrightarrow> sorted_wrt (\<lambda>a b. prio b \<le> prio a) (ins x q)"
    and ins_class: "sorted_wrt (\<lambda>a b. prio b \<le> prio a) q \<Longrightarrow>
      filter (\<lambda>e. prio e = p) (ins x q) = filter (\<lambda>e. prio e = p) q @ (if prio x = p then [x] else [])"
begin

lemma fold_ins_sorted:
  "sorted_wrt (\<lambda>a b. prio b \<le> prio a) q \<Longrightarrow> sorted_wrt (\<lambda>a b. prio b \<le> prio a) (fold ins xs q)"
  by (induction xs arbitrary: q) (auto simp: ins_sorted)

lemma fold_ins_class:
  "sorted_wrt (\<lambda>a b. prio b \<le> prio a) q \<Longrightarrow>
   filter (\<lambda>e. prio e = p) (fold ins xs q) = filter (\<lambda>e. prio e = p) q @ filter (\<lambda>e. prio e = p) xs"
  by (induction xs arbitrary: q) (auto simp: ins_sorted ins_class)

lemma fold_ins_mset: "mset (fold ins xs q) = mset xs + mset q"
  by (induction xs arbitrary: q) (auto simp: ins_mset)

end

lemma insert_msg_Nil [simp]: "insert_msg R [] = [R]"
  by (simp add: insert_msg_def)

lemma insert_msg_snoc:
  "insert_msg R (q @ [e]) =
     (if uPriority R \<le> uPriority e then q @ [e, R] else insert_msg R q @ [e])"
  by (simp add: insert_msg_def Let_def)

lemma mset_insert_msg [simp]: "mset (insert_msg R q) = add_mset R (mset q)"
  by (induction q rule: rev_induct) (auto simp: insert_msg_snoc)

lemma set_insert_msg [simp]: "set (insert_msg R q) = insert R (set q)"
  by (induction q rule: rev_induct) (auto simp: insert_msg_snoc)

lemma length_insert_msg [simp]: "length (insert_msg R q) = Suc (length q)"
  by (induction q rule: rev_induct) (auto simp: insert_msg_snoc)

lemma insert_msg_sorted:
  "sorted_wrt (\<lambda>a b. uPriority b \<le> uPriority a) q \<Longrightarrow>
   sorted_wrt (\<lambda>a b. uPriority b \<le> uPriority a) (insert_msg R q)"
  by (induction q rule: rev_induct) (auto simp: insert_msg_snoc sorted_wrt_append)

lemma insert_msg_class:
  "sorted_wrt (\<lambda>a b. uPriority b \<le> uPriority a) q \<Longrightarrow>
   filter (\<lambda>e. uPriority e = p) (insert_msg R q)
     = filter (\<lambda>e. uPriority e = p) q @ (if uPriority R = p then [R] else [])"
  by (induction q rule: rev_induct) (auto simp: insert_msg_snoc sorted_wrt_append)

interpretation msg_queue: stable_priority_queue uPriority insert_msg
  by unfold_locales (auto simp: insert_msg_sorted insert_msg_class)

text \<open>The order of the queue: by priority, and by arrival within a priority.\<close>

definition before :: "'m CMsgEntry \<Rightarrow> 'm CMsgEntry \<Rightarrow> bool" where
  "before a b \<longleftrightarrow> uPriority b < uPriority a \<or> uPriority a = uPriority b \<and> ullUniqueID a < ullUniqueID b"

lemma insert_msg_before:
  "sorted_wrt before q \<Longrightarrow> \<forall>e \<in> set q. ullUniqueID e < ullUniqueID R \<Longrightarrow> sorted_wrt before (insert_msg R q)"
proof (induction q rule: rev_induct)
  case (snoc e q)
  have "before a R" if "uPriority R \<le> uPriority e" "a = e \<or> a \<in> set q" for a
    using snoc.prems that by (fastforce simp: sorted_wrt_append before_def)
  then show ?case using snoc by (auto simp: insert_msg_snoc sorted_wrt_append before_def not_le)
qed simp

section \<open>The invariant of the pool\<close>

definition compatible :: "DWORD \<Rightarrow> DWORD \<Rightarrow> bool" where
  "compatible g h \<longleftrightarrow> g = h \<and> g < GROUPING_ALONE_BASE"

text \<open>A worker's current entry is in the queue, marked, and its own.\<close>

definition worker_ok :: "'m CMsgEntry list \<Rightarrow> 'm CThreadWork \<Rightarrow> bool" where
  "worker_ok q w \<longleftrightarrow> (\<forall>i. w_pMsg w = Some i \<longrightarrow> w_bInUse w \<and> w_bActive w
     \<and> (\<exists>e \<in> set q. ullUniqueID e = i \<and> bProcessing e \<and> w_Msg w = Some (Payload e)
          \<and> w_uGrouping w = uGrouping e))"

text \<open>Both relations are symmetric, so a sorted list of workers is one of which every
  two satisfy them.\<close>

definition group_rel :: "'m CThreadWork \<Rightarrow> 'm CThreadWork \<Rightarrow> bool" where
  "group_rel a b \<longleftrightarrow> (w_bInUse a \<longrightarrow> w_bInUse b \<longrightarrow> compatible (w_uGrouping a) (w_uGrouping b))"

definition owner_rel :: "'m CThreadWork \<Rightarrow> 'm CThreadWork \<Rightarrow> bool" where
  "owner_rel a b \<longleftrightarrow> (w_pMsg a \<noteq> None \<longrightarrow> w_pMsg a \<noteq> w_pMsg b)"

definition group_ok :: "'m CThreadWork list \<Rightarrow> bool" where "group_ok ws \<longleftrightarrow> sorted_wrt group_rel ws"

definition owners_ok :: "'m CThreadWork list \<Rightarrow> bool" where "owners_ok ws \<longleftrightarrow> sorted_wrt owner_rel ws"

definition pool_inv :: "'m CThreadPool \<Rightarrow> bool" where
  "pool_inv p \<longleftrightarrow>
     sorted_wrt before (MsgQueue p)
   \<and> distinct (map ullUniqueID (MsgQueue p @ FutureMsgQueue p))
   \<and> (\<forall>e \<in> set (MsgQueue p @ FutureMsgQueue p). ullUniqueID e < nextUniqueID p)
   \<and> (\<forall>e \<in> set (FutureMsgQueue p). \<not> bProcessing e)
   \<and> (\<forall>w \<in> set (Pool p). worker_ok (MsgQueue p) w)
   \<and> (\<forall>e \<in> set (MsgQueue p). bProcessing e \<longrightarrow> (\<exists>w \<in> set (Pool p). w_pMsg w = Some (ullUniqueID e)))
   \<and> owners_ok (Pool p) \<and> group_ok (Pool p)"

lemma pool_inv_init: "pool_inv pool_init"
  by (simp add: pool_inv_def pool_init_def owners_ok_def group_ok_def)

subsection \<open>Workers\<close>

lemma sorted_wrt_update:
  assumes "sorted_wrt R ws" "\<And>j. j < length ws \<Longrightarrow> j \<noteq> i \<Longrightarrow> R (ws ! j) w \<and> R w (ws ! j)"
  shows "sorted_wrt R (ws[i := w])"
proof (cases "i < length ws")
  case True
  then show ?thesis
    using assms by (auto simp: sorted_wrt_iff_nth_less nth_list_update)
qed (use assms(1) in \<open>simp add: list_update_beyond\<close>)

lemma owners_ok_update:
  assumes "owners_ok ws" "w_pMsg w = None \<or> (\<forall>j < length ws. j \<noteq> i \<longrightarrow> w_pMsg (ws ! j) \<noteq> w_pMsg w)"
  shows "owners_ok (ws[i := w])"
  using assms unfolding owners_ok_def
  by (intro sorted_wrt_update) (auto simp: owner_rel_def)

lemma group_ok_update:
  assumes "group_ok ws"
    and "w_bInUse w \<longrightarrow> (\<forall>j < length ws. j \<noteq> i \<longrightarrow> w_bInUse (ws ! j) \<longrightarrow>
           compatible (w_uGrouping (ws ! j)) (w_uGrouping w))"
  shows "group_ok (ws[i := w])"
  using assms unfolding group_ok_def
  by (intro sorted_wrt_update) (auto simp: group_rel_def compatible_def)

lemma group_ok_regroup:
  assumes ok: "group_ok ws" and w: "w < length ws"
    and x: "w_bInUse x \<Longrightarrow> w_bInUse (ws ! w) \<and> w_uGrouping x = w_uGrouping (ws ! w)"
  shows "group_ok (ws[w := x])"
proof (rule group_ok_update [OF ok], intro impI allI)
  fix j assume j: "w_bInUse x" "j < length ws" "j \<noteq> w" "w_bInUse (ws ! j)"
  have "sorted_wrt group_rel ws" using ok by (simp add: group_ok_def)
  then have "group_rel (ws ! w) (ws ! j) \<or> group_rel (ws ! j) (ws ! w)"
    using j(2,3) w sorted_wrt_nth_less [of group_rel ws w j] sorted_wrt_nth_less [of group_rel ws j w]
    by (cases j w rule: linorder_cases) auto
  then show "compatible (w_uGrouping (ws ! j)) (w_uGrouping x)"
    using x [OF j(1)] j(4) by (auto simp: group_rel_def compatible_def)
qed

lemma start_in_cases:
  obtains (slot) i where "i < length ws" "\<not> w_bActive (ws ! i)" "start_in tid ws = ws[i := restart_worker tid (ws ! i)]"
  | (new) "start_in tid ws = ws @ [new_worker tid]"
proof -
  have "(\<exists>i < length ws. \<not> w_bActive (ws ! i) \<and> start_in tid ws = ws[i := restart_worker tid (ws ! i)])
      \<or> start_in tid ws = ws @ [new_worker tid]"
  proof (induction ws)
    case (Cons w ws)
    show ?case
    proof (cases "w_bActive w")
      case True
      then show ?thesis using Cons by (auto 4 4 intro: exI [of _ "Suc _"])
    qed (auto intro!: exI [of _ 0])
  qed simp
  then show thesis using slot new by blast
qed

definition pool_workers_ok :: "'m CMsgEntry list \<Rightarrow> 'm CThreadWork list \<Rightarrow> bool" where
  "pool_workers_ok q ws \<longleftrightarrow> (\<forall>w \<in> set ws. worker_ok q w)
     \<and> (\<forall>e \<in> set q. bProcessing e \<longrightarrow> (\<exists>w \<in> set ws. w_pMsg w = Some (ullUniqueID e)))
     \<and> owners_ok ws \<and> group_ok ws"

lemma pool_inv_split:
  "pool_inv p \<longleftrightarrow>
     sorted_wrt before (MsgQueue p)
   \<and> distinct (map ullUniqueID (MsgQueue p @ FutureMsgQueue p))
   \<and> (\<forall>e \<in> set (MsgQueue p @ FutureMsgQueue p). ullUniqueID e < nextUniqueID p)
   \<and> (\<forall>e \<in> set (FutureMsgQueue p). \<not> bProcessing e)
   \<and> pool_workers_ok (MsgQueue p) (Pool p)"
  by (auto simp: pool_inv_def pool_workers_ok_def)

lemma start_in_ok:
  assumes "pool_workers_ok q ws"
  shows "pool_workers_ok q (start_in tid ws)"
proof (cases tid ws rule: start_in_cases)
  case (slot i)
  have i: "ws ! i \<in> set ws" using slot by simp
  then have none: "w_pMsg (ws ! i) = None"
    using assms slot(2) by (auto simp: pool_workers_ok_def worker_ok_def)
  have w: "w_pMsg (restart_worker tid (ws ! i)) = None" "\<not> w_bInUse (restart_worker tid (ws ! i))"
    using none by (simp_all add: restart_worker_def)
  have keep: "\<exists>w \<in> set (ws[i := x]). w_pMsg w = Some k" if "\<exists>w \<in> set ws. w_pMsg w = Some k" for x k
    using that none slot(1) by (metis in_set_conv_nth length_list_update nth_list_update_neq option.distinct(1))
  show ?thesis
    using assms slot(3) w keep set_update_subset_insert [of ws i]
    by (auto simp: pool_workers_ok_def worker_ok_def intro!: owners_ok_update group_ok_update
        dest!: subsetD [OF set_update_subset_insert])
next
  case new
  then show ?thesis
    using assms
    by (auto simp: pool_workers_ok_def worker_ok_def new_worker_def owners_ok_def group_ok_def
        sorted_wrt_append owner_rel_def group_rel_def)
qed

subsection \<open>The queue\<close>

lemma erase_id_filter:
  "distinct (map ullUniqueID q) \<Longrightarrow> erase_id i q = filter (\<lambda>e. ullUniqueID e \<noteq> i) q"
proof (induction q)
  case (Cons e q)
  show ?case
  proof (cases "ullUniqueID e = i")
    case True
    have "ullUniqueID e \<notin> ullUniqueID ` set q" using Cons.prems by simp
    then have "\<forall>x \<in> set q. ullUniqueID x \<noteq> i" using True by (metis imageI)
    then have "filter (\<lambda>e. ullUniqueID e \<noteq> i) q = q" by (simp add: filter_id_conv)
    then show ?thesis using True by simp
  qed (use Cons in simp)
qed simp

lemma before_mark: "before (if c then a\<lparr>bProcessing := b\<rparr> else a) (if d then e\<lparr>bProcessing := b\<rparr> else e) = before a e"
  by (simp add: before_def)

lemma mark_sorted: "sorted_wrt before (mark_processing i b q) = sorted_wrt before q"
  by (simp add: mark_processing_def sorted_wrt_map before_mark)

lemma mark_ids [simp]: "map ullUniqueID (mark_processing i b q) = map ullUniqueID q"
  by (simp add: mark_processing_def comp_def if_distrib cong: if_cong)

lemma mark_payloads [simp]: "map Payload (mark_processing i b q) = map Payload q"
  by (simp add: mark_processing_def comp_def if_distrib cong: if_cong)

lemma mark_set_id: "ullUniqueID ` set (mark_processing i b q) = ullUniqueID ` set q"
  by (metis list.set_map mark_ids)

lemma mark_keeps: "e \<in> set q \<Longrightarrow> ullUniqueID e \<noteq> i \<Longrightarrow> e \<in> set (mark_processing i b q)"
  unfolding mark_processing_def by (auto intro: rev_image_eqI)

lemma mark_member:
  "e \<in> set (mark_processing i b q) \<Longrightarrow>
   (ullUniqueID e \<noteq> i \<and> e \<in> set q) \<or> (ullUniqueID e = i \<and> bProcessing e = b)"
  unfolding mark_processing_def by (auto split: if_splits)

lemma worker_ok_mono:
  "worker_ok q w \<Longrightarrow> (\<And>e. e \<in> set q \<Longrightarrow> bProcessing e \<Longrightarrow> w_pMsg w = Some (ullUniqueID e) \<Longrightarrow> e \<in> set q') \<Longrightarrow>
   worker_ok q' w"
  unfolding worker_ok_def by blast

lemma finish_workers_ok:
  assumes ok: "pool_workers_ok q ws" and w: "w < length ws" "w_pMsg (ws ! w) = Some i"
    and d: "distinct (map ullUniqueID q)"
    and q': "q' = erase_id i q \<or> q' = mark_processing i False q"
    and x: "w_pMsg x = None" "w_uGrouping x = w_uGrouping (ws ! w)"
  shows "pool_workers_ok q' (ws[w := x])"
proof -
  have keep: "e \<in> set q'" if "e \<in> set q" "ullUniqueID e \<noteq> i" for e
    using that q' by (auto simp: erase_id_filter [OF d] mark_keeps)
  have proc: "e \<in> set q \<and> ullUniqueID e \<noteq> i" if "e \<in> set q'" "bProcessing e" for e
    using that q' mark_member [of e i False q] by (auto simp: erase_id_filter [OF d])
  have other: "w_pMsg (ws ! j) \<noteq> Some i" if "j < length ws" "j \<noteq> w" for j
  proof -
    have "sorted_wrt owner_rel ws" using ok by (simp add: pool_workers_ok_def owners_ok_def)
    then have "owner_rel (ws ! w) (ws ! j) \<or> owner_rel (ws ! j) (ws ! w)"
      using that w(1) sorted_wrt_nth_less [of owner_rel ws w j] sorted_wrt_nth_less [of owner_rel ws j w]
      by (cases j w rule: linorder_cases) auto
    then show ?thesis using w(2) by (auto simp: owner_rel_def)
  qed
  have "worker_ok q' v" if v: "v \<in> set (ws[w := x])" for v
  proof -
    obtain j where "j < length (ws[w := x])" "v = ws[w := x] ! j"
      using v unfolding in_set_conv_nth by blast
    then have j: "j < length ws" "v = (if j = w then x else ws ! j)"
      using w(1) by (auto simp: nth_list_update)
    show ?thesis
    proof (cases "j = w")
      case True
      then show ?thesis using j x by (simp add: worker_ok_def)
    next
      case False
      have "worker_ok q (ws ! j)" using ok j(1) by (simp add: pool_workers_ok_def)
      then show ?thesis
        using worker_ok_mono [of q "ws ! j" q'] keep other [OF j(1) False] j False by auto
    qed
  qed
  moreover have "\<exists>v \<in> set (ws[w := x]). w_pMsg v = Some (ullUniqueID e)"
    if e: "e \<in> set q'" "bProcessing e" for e
  proof -
    obtain v where v: "v \<in> set ws" "w_pMsg v = Some (ullUniqueID e)"
      using ok proc [OF e] e(2) by (auto simp: pool_workers_ok_def)
    obtain j where j: "j < length ws" "ws ! j = v" using v(1) by (auto simp: in_set_conv_nth)
    have "j \<noteq> w" using j v(2) w(2) proc [OF e] by auto
    then have "ws[w := x] ! j = v" using j by simp
    then show ?thesis using j v(2) by (metis length_list_update nth_mem)
  qed
  moreover have "group_ok (ws[w := x])"
    using ok w x(2) by (intro group_ok_regroup) (auto simp: pool_workers_ok_def worker_ok_def)
  ultimately show ?thesis
    using ok x(1) by (auto simp: pool_workers_ok_def intro!: owners_ok_update)
qed

lemma take_workers_ok:
  assumes ok: "pool_workers_ok q ws" and w: "w < length ws" "w_pMsg (ws ! w) = None"
    and e: "e \<in> set q" "\<not> bProcessing e" and d: "distinct (map ullUniqueID q)"
    and x: "w_pMsg x = Some (ullUniqueID e)" "w_bInUse x" "w_bActive x" "w_Msg x = Some (Payload e)"
      "w_uGrouping x = uGrouping e"
    and g: "\<And>j. j < length ws \<Longrightarrow> j \<noteq> w \<Longrightarrow> w_bInUse (ws ! j) \<Longrightarrow> compatible (w_uGrouping (ws ! j)) (uGrouping e)"
  shows "pool_workers_ok (mark_processing (ullUniqueID e) True q) (ws[w := x])"
proof -
  let ?i = "ullUniqueID e" and ?q = "mark_processing (ullUniqueID e) True q"
  have me: "e\<lparr>bProcessing := True\<rparr> \<in> set ?q"
    using e(1) unfolding mark_processing_def by (auto intro!: rev_image_eqI)
  have free: "w_pMsg v \<noteq> Some ?i" if "v \<in> set ws" for v
  proof
    assume "w_pMsg v = Some ?i"
    moreover have "worker_ok q v" using ok that by (simp add: pool_workers_ok_def)
    ultimately obtain e' where e': "e' \<in> set q" "ullUniqueID e' = ?i" "bProcessing e'"
      unfolding worker_ok_def by blast
    then have "e' = e" using e(1) d by (auto simp: distinct_map inj_on_def)
    then show False using e' e(2) by simp
  qed
  have "worker_ok ?q v" if "v \<in> set (ws[w := x])" for v
  proof -
    have "v = x \<or> v \<in> set ws" using that set_update_subset_insert by fast
    then show ?thesis
    proof
      assume "v = x"
      then show ?thesis using x by (auto simp: worker_ok_def intro!: bexI [OF _ me])
    next
      assume v: "v \<in> set ws"
      then have "worker_ok q v" using ok by (simp add: pool_workers_ok_def)
      then show ?thesis using worker_ok_mono [of q v ?q] free [OF v] mark_keeps by metis
    qed
  qed
  moreover have "\<exists>v \<in> set (ws[w := x]). w_pMsg v = Some (ullUniqueID a)"
    if a: "a \<in> set ?q" "bProcessing a" for a
  proof (cases "ullUniqueID a = ?i")
    case True
    then show ?thesis using x(1) w(1) set_update_memI [of w ws x] by metis
  next
    case False
    then have "a \<in> set q" using mark_member [OF a(1)] by simp
    then obtain v where v: "v \<in> set ws" "w_pMsg v = Some (ullUniqueID a)"
      using ok a(2) by (auto simp: pool_workers_ok_def)
    obtain j where j: "j < length ws" "ws ! j = v" using v(1) by (auto simp: in_set_conv_nth)
    have "j \<noteq> w" using j v(2) w(2) by auto
    then have "ws[w := x] ! j = v" using j by simp
    then show ?thesis using j v(2) by (metis length_list_update nth_mem)
  qed
  ultimately show ?thesis
    using ok x g free by (auto simp: pool_workers_ok_def intro!: owners_ok_update group_ok_update)
qed

lemma kill_loop_filter:
  "kill_loop P q b = (b \<or> (\<exists>x \<in> set q. P x), filter (\<lambda>x. \<not> P x) q)"
proof (induction P q b rule: kill_loop.induct)
  case (1 P q b)
  have none: "erase_first P xs = None \<longleftrightarrow> (\<forall>x \<in> set xs. \<not> P x)" for xs
    by (induction xs) auto
  have some: "erase_first P xs = Some ys \<Longrightarrow>
      (\<exists>x \<in> set xs. P x) \<and> filter (\<lambda>x. \<not> P x) ys = filter (\<lambda>x. \<not> P x) xs" for xs ys
    by (induction xs arbitrary: ys) (auto split: if_splits)
  show ?case
  proof (cases "erase_first P q")
    case None
    then have n: "\<forall>x \<in> set q. \<not> P x" using none by blast
    then have "filter (\<lambda>x. \<not> P x) q = q" by (simp add: filter_id_conv)
    moreover have "kill_loop P q b = (b, q)" by (subst kill_loop.simps) (simp add: None)
    ultimately show ?thesis using n by auto
  next
    case (Some q')
    then show ?thesis using 1 [OF Some] some [OF Some] by (subst kill_loop.simps) simp
  qed
qed

section \<open>The pool as a transition system\<close>

text \<open>One event per critical section. The guards say which thread can be where: a
  worker takes a message when it is running and holds none, erases or gives back the one it
  holds, and is then set idle; a thread ends only outside \<open>DoWork\<close>. \<open>EvPush\<close> is the insertion of
  \<open>SendMessageToPool\<close>, whose check of the queue's length came before, and \<open>EvAddThreads\<close> what follows
  every insertion, with the limit computed before it. The turns of \<open>TransferFutureQueue\<close>
  have local state and are steps of the runs in PoolRuns.thy; \<open>Terminate\<close> is \<open>EvKillThreads\<close>,
  \<open>EvClear\<close>, the turns of a transfer and \<open>EvResetPerf\<close>.\<close>

datatype 'm pool_event =
    EvPush FILETIME DWORD 'm DWORD DWORD DWORD
  | EvPushDelayed FILETIME DWORD DWORD 'm DWORD DWORD
  | EvAddThreads DWORD
  | EvTake FILETIME nat
  | EvFinish nat bool
  | EvSetIdle FILETIME nat
  | EvKillIfOver nat DWORD
  | EvIdle bool FILETIME nat
  | EvExit nat
  | EvKill 'm
  | EvGarbageCollect FILETIME
  | EvKillThreads
  | EvClear
  | EvResetPerf
  | EvSetMinThreads DWORD
  | EvSetMaxThreads DWORD
  | EvSetThreadRange DWORD DWORD DWORD

definition SetMinThreads :: "DWORD \<Rightarrow> 'm CThreadPool \<Rightarrow> 'm CThreadPool" where
  "SetMinThreads n p = p\<lparr> dwMinNumThreads := n \<rparr>"

definition SetMaxThreads :: "DWORD \<Rightarrow> 'm CThreadPool \<Rightarrow> 'm CThreadPool" where
  "SetMaxThreads n p = p\<lparr> dwMaxNumThreads := n \<rparr>"

definition SetThreadRange :: "DWORD \<Rightarrow> DWORD \<Rightarrow> DWORD \<Rightarrow> 'm CThreadPool \<Rightarrow> 'm CThreadPool" where
  "SetThreadRange r lo hi p =
     p\<lparr> dwMaxNumThreadsRange := r, dwQueueRangeMin := lo, dwQueueRangeMax := hi \<rparr>"

definition at_rest :: "nat \<Rightarrow> 'm CThreadPool \<Rightarrow> bool" where
  "at_rest w p \<longleftrightarrow> w < length (Pool p) \<and> w_pMsg (Pool p ! w) = None \<and> \<not> w_bInUse (Pool p ! w)"

fun pool_exec :: "('m \<Rightarrow> 'm \<Rightarrow> bool) \<Rightarrow> 'm pool_event \<Rightarrow> 'm CThreadPool \<Rightarrow> 'm CThreadPool option" where
  "pool_exec cmp (EvPush now line m pr g d) p = Some (UpdatePerf now (Some (m, line, pr, g, d)) None p)"
| "pool_exec cmp (EvPushDelayed now line due m pr g) p = Some (push_delayed now line due m pr g p)"
| "pool_exec cmp (EvAddThreads mx) p = Some (AddThreads_locked mx p)"
| "pool_exec cmp (EvTake now w) p =
     (if at_rest w p \<and> w_bActive (Pool p ! w) \<and> \<not> w_bExit (Pool p ! w) \<and> \<not> bDisable p
      then Some (snd (take_msg now w p)) else None)"
| "pool_exec cmp (EvFinish w b) p =
     (if w < length (Pool p) \<and> w_pMsg (Pool p ! w) \<noteq> None then Some (finish_msg w b p) else None)"
| "pool_exec cmp (EvSetIdle now w) p =
     (if w < length (Pool p) \<and> w_pMsg (Pool p ! w) = None \<and> w_bInUse (Pool p ! w)
      then Some (UpdatePerf now None (Some w) p) else None)"
| "pool_exec cmp (EvKillIfOver w mx) p = (if at_rest w p then Some (kill_if_over w mx p) else None)"
| "pool_exec cmp (EvIdle fe now w) p = (if at_rest w p then Some (idle_check fe now w p) else None)"
| "pool_exec cmp (EvExit w) p = (if at_rest w p then Some (exit_worker w p) else None)"
| "pool_exec cmp (EvKill m) p = Some (snd (SearchMessageKill cmp m p))"
| "pool_exec cmp (EvGarbageCollect now) p = Some (DeleteOldThreadEntries now p)"
| "pool_exec cmp EvKillThreads p = Some (KillThreads_notify p)"
| "pool_exec cmp EvClear p = KillThreads_clear p"
| "pool_exec cmp EvResetPerf p = Some (reset_perf p)"
| "pool_exec cmp (EvSetMinThreads n) p = Some (SetMinThreads n p)"
| "pool_exec cmp (EvSetMaxThreads n) p = Some (SetMaxThreads n p)"
| "pool_exec cmp (EvSetThreadRange r lo hi) p = Some (SetThreadRange r lo hi p)"

subsection \<open>Preservation\<close>

definition same_queues :: "'m CThreadPool \<Rightarrow> 'm CThreadPool \<Rightarrow> bool" where
  "same_queues p p' \<longleftrightarrow> MsgQueue p' = MsgQueue p \<and> FutureMsgQueue p' = FutureMsgQueue p
     \<and> nextUniqueID p' = nextUniqueID p"

lemma pool_inv_same:
  "same_queues p p' \<Longrightarrow> pool_workers_ok (MsgQueue p) (Pool p') \<Longrightarrow> pool_inv p \<Longrightarrow> pool_inv p'"
  by (simp add: same_queues_def pool_inv_split)

lemma StartNewThread_inv: "pool_inv p \<Longrightarrow> pool_inv (StartNewThread p) \<and> same_queues p (StartNewThread p)"
  by (simp add: pool_inv_split StartNewThread_def start_in_ok same_queues_def)

lemma start_threads_inv: "pool_inv p \<Longrightarrow> pool_inv (start_threads n p) \<and> same_queues p (start_threads n p)"
proof (induction n arbitrary: p)
  case (Suc n)
  then show ?case using StartNewThread_inv [of p] Suc.IH [of "StartNewThread p"]
    by (simp add: same_queues_def)
qed (simp add: same_queues_def)

lemma pool_inv_perf [simp]:
  "pool_inv (p\<lparr> perfNumThreads := a \<rparr>) = pool_inv p"
  "pool_inv (p\<lparr> perfQueueRateOut := a \<rparr>) = pool_inv p"
  "pool_inv (p\<lparr> perfWorkItems := a \<rparr>) = pool_inv p"
  "same_queues q (p\<lparr> perfNumThreads := a \<rparr>) = same_queues q p"
  by (simp_all add: pool_inv_def same_queues_def)

lemma AddThreads_inv:
  assumes "pool_inv p"
  shows "pool_inv (AddThreads_locked mx p) \<and> same_queues p (AddThreads_locked mx p)"
proof -
  define p1 where "p1 = start_threads (unat (GetMinNumThreadsInternal p) - unat (NumThreads 0 p)) p"
  define p2 where "p2 = p1\<lparr> perfNumThreads := NumThreads 0 p1 \<rparr>"
  have 1: "pool_inv p1" "same_queues p p1" using start_threads_inv [OF assms] by (simp_all add: p1_def)
  then have 2: "pool_inv p2" "same_queues p p2" by (simp_all add: p2_def)
  have 3: "pool_inv (StartNewThread p2)" "same_queues p (StartNewThread p2)"
    using StartNewThread_inv [OF 2(1)] 2(2) by (simp_all add: same_queues_def)
  have "AddThreads_locked mx p \<in> {p2, StartNewThread p2, p\<lparr> perfNumThreads := NumThreads 0 p \<rparr>}"
    by (simp add: AddThreads_locked_def Let_def p1_def p2_def)
  then show ?thesis using 2 3 assms by (auto simp: same_queues_def)
qed

lemma UpdatePerf_send:
  assumes inv: "pool_inv p"
  shows "pool_inv (UpdatePerf now (Some (m, line, pr, g, d)) None p)"
    and "FutureMsgQueue (UpdatePerf now (Some (m, line, pr, g, d)) None p) = FutureMsgQueue p"
    and "mset (map Payload (MsgQueue (UpdatePerf now (Some (m, line, pr, g, d)) None p)))
       = add_mset m (mset (map Payload (MsgQueue p)))"
    and "nextUniqueID (UpdatePerf now (Some (m, line, pr, g, d)) None p) = Suc (nextUniqueID p)"
    and "Pool (UpdatePerf now (Some (m, line, pr, g, d)) None p) = Pool p"
proof -
  let ?p = "UpdatePerf now (Some (m, line, pr, g, d)) None p"
  define R where "R = \<lparr> bProcessing = False, uPriority = pr, uLineNo = line,
    uGrouping = g, ullUniqueID = nextUniqueID p,
    ftDueTime = (if d \<noteq> 0 then now + ucast d * 10000 else 0), Payload = m \<rparr>"
  have R: "ullUniqueID R = nextUniqueID p" "\<not> bProcessing R" "Payload R = m" by (simp_all add: R_def)
  have q: "MsgQueue ?p = insert_msg R (MsgQueue p)" by (simp add: UpdatePerf_def Let_def R_def)
  show rest: "FutureMsgQueue ?p = FutureMsgQueue p" "nextUniqueID ?p = Suc (nextUniqueID p)" "Pool ?p = Pool p"
    by (simp_all add: UpdatePerf_def Let_def)
  show "mset (map Payload (MsgQueue ?p)) = add_mset m (mset (map Payload (MsgQueue p)))"
    by (simp add: R(3) q)
  have lt: "\<forall>e \<in> set (MsgQueue p). ullUniqueID e < ullUniqueID R" using inv R(1) by (simp add: pool_inv_def)
  have d: "distinct (map ullUniqueID (insert_msg R (MsgQueue p) @ FutureMsgQueue p))"
  proof -
    have "mset (map ullUniqueID (insert_msg R (MsgQueue p) @ FutureMsgQueue p))
        = mset (ullUniqueID R # map ullUniqueID (MsgQueue p @ FutureMsgQueue p))" by simp
    moreover have "distinct (ullUniqueID R # map ullUniqueID (MsgQueue p @ FutureMsgQueue p))"
      using inv R(1) by (force simp: pool_inv_def)
    ultimately show ?thesis by (metis mset_eq_imp_distinct_iff)
  qed
  have w: "pool_workers_ok (insert_msg R (MsgQueue p)) (Pool p)"
    using inv R(2) by (auto simp: pool_inv_split pool_workers_ok_def intro: worker_ok_mono)
  have s: "sorted_wrt before (insert_msg R (MsgQueue p))"
    using inv insert_msg_before [OF _ lt] by (simp add: pool_inv_def)
  have b: "\<forall>e \<in> set (insert_msg R (MsgQueue p) @ FutureMsgQueue p). ullUniqueID e < Suc (nextUniqueID p)"
    using inv R(1) by (auto simp: pool_inv_def less_Suc_eq)
  have f: "\<forall>e \<in> set (FutureMsgQueue p). \<not> bProcessing e" using inv by (simp add: pool_inv_def)
  show "pool_inv ?p" unfolding pool_inv_split rest q using d w s b f by blast
qed

definition live :: "'m CThreadPool \<Rightarrow> 'm multiset" where
  "live p = mset (map Payload (MsgQueue p)) + mset (map Payload (FutureMsgQueue p))"

lemma live_same: "same_queues p p' \<Longrightarrow> live p' = live p"
  by (simp add: same_queues_def live_def)

lemma send_ok:
  assumes inv: "pool_inv p"
    and s: "SendMessageToPool now tid line m mq pr ex g nb d p = (r, p')"
  shows "pool_inv p'" and "live p' = (if r = SENT then add_mset m (live p) else live p)"
    and "r = SENT \<Longrightarrow> FutureMsgQueue p' = FutureMsgQueue p"
    and "r = SENT \<Longrightarrow> nextUniqueID p' = Suc (nextUniqueID p)"
proof -
  let ?u = "UpdatePerf now (Some (m, line, pr, g, d)) None p"
  note u = UpdatePerf_send [OF inv, of now m line pr g d]
  note a = AddThreads_inv [OF u(1), of "real_max_threads ?u", folded AddThreads_def]
  have "r \<noteq> SENT \<and> p' = p \<or> r = SENT \<and> p' = AddThreads ?u"
    using s by (auto simp: SendMessageToPool_def Let_def split: if_splits)
  then show "pool_inv p'" and "live p' = (if r = SENT then add_mset m (live p) else live p)"
    and "r = SENT \<Longrightarrow> FutureMsgQueue p' = FutureMsgQueue p"
    and "r = SENT \<Longrightarrow> nextUniqueID p' = Suc (nextUniqueID p)"
    using inv a u by (auto simp: live_def same_queues_def)
qed

lemma push_ok:
  assumes "pool_inv p"
  shows "pool_inv (UpdatePerf now (Some (m, line, pr, g, d)) None p)
    \<and> live (UpdatePerf now (Some (m, line, pr, g, d)) None p) = add_mset m (live p)"
  using UpdatePerf_send [OF assms, of now m line pr g d] by (simp add: live_def)

lemma push_delayed_ok:
  assumes inv: "pool_inv p"
  shows "pool_inv (push_delayed now line due m pr g p)
    \<and> live (push_delayed now line due m pr g p) = add_mset m (live p)"
proof -
  define R where "R = \<lparr> bProcessing = False, uPriority = pr, uLineNo = line, uGrouping = g,
    ullUniqueID = nextUniqueID p, ftDueTime = now + ucast due * 10000, Payload = m \<rparr>"
  have R: "ullUniqueID R = nextUniqueID p" "\<not> bProcessing R" "Payload R = m" by (simp_all add: R_def)
  have p1: "push_delayed now line due m pr g p
      = p\<lparr> FutureMsgQueue := FutureMsgQueue p @ [R], nextUniqueID := Suc (nextUniqueID p) \<rparr>"
    by (simp add: push_delayed_def R_def Let_def)
  have lt: "ullUniqueID e < nextUniqueID p" if "e \<in> set (MsgQueue p) \<union> set (FutureMsgQueue p)" for e
    using inv that by (auto simp: pool_inv_def)
  then have "nextUniqueID p \<notin> ullUniqueID ` (set (MsgQueue p) \<union> set (FutureMsgQueue p))" by fastforce
  then have "distinct (map ullUniqueID (MsgQueue p @ FutureMsgQueue p @ [R]))"
    using inv R by (simp add: pool_inv_def image_Un)
  then show ?thesis
    using inv R lt unfolding pool_inv_split p1 by (auto simp: less_Suc_eq live_def)
qed

lemma add_threads_ok: "pool_inv p \<Longrightarrow> pool_inv (AddThreads_locked mx p) \<and> live (AddThreads_locked mx p) = live p"
  using AddThreads_inv [of p mx] live_same by blast

end
