(* ===== verification/PoolRuns.thy ===== *)
theory PoolRuns
  imports ThreadPool "HOL-Library.Sublist"
begin

text \<open>
  Runs of the thread pool of ThreadPool.thy: every critical section keeps the pool's
  invariant and accounts for every message, so that no message is lost or its entry
  processed by two workers, and the scheduling rules (priority, order of arrival,
  groups, due times) hold in every reachable state. The transfer of delayed messages works in
  three critical sections per turn, so transfers of two threads interleave: they can send a
  message twice (\<open>overlapping_transfers_duplicate\<close>), and nothing else in the pool duplicates one.
\<close>

section \<open>Preservation of the invariant\<close>

lemma idle_update_ok:
  assumes ok: "pool_workers_ok q ws" and w: "w < length ws" "w_pMsg (ws ! w) = None"
    and x: "w_pMsg x = None" "w_bInUse x \<Longrightarrow> w_bInUse (ws ! w) \<and> w_uGrouping x = w_uGrouping (ws ! w)"
  shows "pool_workers_ok q (ws[w := x])"
proof -
  have keep: "\<exists>v \<in> set (ws[w := x]). w_pMsg v = Some k" if "\<exists>v \<in> set ws. w_pMsg v = Some k" for k
    using that w by (metis in_set_conv_nth length_list_update nth_list_update_neq option.distinct(1))
  have all: "\<forall>v \<in> set (ws[w := x]). worker_ok q v"
    using ok x(1) set_update_subset_insert [of ws w x] by (auto simp: pool_workers_ok_def worker_ok_def)
  have g: "group_ok (ws[w := x])"
    using ok w(1) x(2) by (intro group_ok_regroup) (auto simp: pool_workers_ok_def)
  have o: "owners_ok (ws[w := x])"
    using ok x(1) by (intro owners_ok_update) (auto simp: pool_workers_ok_def)
  show ?thesis using ok all keep o g unfolding pool_workers_ok_def by blast
qed

lemma no_conflict_compatible: "w_bInUse v \<Longrightarrow> \<not> group_conflict g v \<Longrightarrow> compatible (w_uGrouping v) g"
  by (auto simp: group_conflict_def compatible_def GROUPING_DONT_CARE_def GROUPING_ALONE_BASE_def)

lemma next_msg_Some:
  "next_msg q = Some e \<Longrightarrow> \<exists>a b. q = a @ e # b \<and> \<not> bProcessing e \<and> (\<forall>x \<in> set a. bProcessing x)"
proof (induction q)
  case (Cons y q)
  show ?case
  proof (cases "bProcessing y")
    case True
    then obtain a b where "q = a @ e # b \<and> \<not> bProcessing e \<and> (\<forall>x \<in> set a. bProcessing x)"
      using Cons by (auto simp: next_msg_def)
    then show ?thesis using True by (intro exI [of _ "y # a"] exI [of _ b]) simp
  next
    case False
    then show ?thesis using Cons.prems by (intro exI [of _ "[]"] exI [of _ q]) (simp add: next_msg_def)
  qed
qed (simp add: next_msg_def)

lemma take_ok:
  assumes inv: "pool_inv p" and w: "w < length (Pool p)" "w_pMsg (Pool p ! w) = None"
      "\<not> w_bInUse (Pool p ! w)" "w_bActive (Pool p ! w)"
  shows "pool_inv (snd (take_msg now w p)) \<and> live (snd (take_msg now w p)) = live p
    \<and> nextUniqueID (snd (take_msg now w p)) = nextUniqueID p"
proof (cases "next_msg (MsgQueue p)")
  case None
  then show ?thesis using inv by (simp add: take_msg_def)
next
  case (Some e)
  then have e: "e \<in> set (MsgQueue p)" "\<not> bProcessing e" using next_msg_Some [OF Some] by auto
  define x1 where "x1 = (Pool p ! w)\<lparr> w_Msg := Some (Payload e), w_uGrouping := uGrouping e \<rparr>"
  define x2 where "x2 = x1\<lparr> w_bInUse := True, w_pMsg := Some (ullUniqueID e) \<rparr>"
  define p1 where "p1 = set_worker w (\<lambda>x. x\<lparr> w_Msg := Some (Payload e), w_uGrouping := uGrouping e \<rparr>) p"
  have p1: "p1 = p\<lparr> Pool := (Pool p)[w := x1] \<rparr>" by (simp add: p1_def x1_def set_worker_def)
  have ok: "pool_workers_ok (MsgQueue p) (Pool p)" using inv by (simp add: pool_inv_split)
  have d: "distinct (map ullUniqueID (MsgQueue p))" using inv by (simp add: pool_inv_split)
  have ok1: "pool_workers_ok (MsgQueue p) ((Pool p)[w := x1])"
    using ok w by (intro idle_update_ok) (auto simp: x1_def)
  have inv1: "pool_inv p1" using inv ok1 by (simp add: p1 pool_inv_split)
  show ?thesis
  proof (cases "IfInGroup (uGrouping e) p1 \<and> \<not> (ftDueTime e \<noteq> 0 \<and> now < ftDueTime e)")
    case False
    then have "snd (take_msg now w p) = p1"
      using Some by (auto simp: take_msg_def Let_def p1_def)
    then show ?thesis using inv1 by (simp add: p1 live_def)
  next
    case True
    define q where "q = mark_processing (ullUniqueID e) True (MsgQueue p)"
    define p2 where "p2 = set_worker w (\<lambda>x. x\<lparr> w_bInUse := True, w_pMsg := Some (ullUniqueID e) \<rparr>)
      (p1\<lparr> MsgQueue := mark_processing (ullUniqueID e) True (MsgQueue p1) \<rparr>)"
    have t: "snd (take_msg now w p) = p2\<lparr> perfWorkItems := count_in_use p2 \<rparr>"
      using True unfolding take_msg_def Some p1_def p2_def by (auto simp: Let_def)
    have p2: "p2 = p\<lparr> MsgQueue := q, Pool := (Pool p)[w := x2] \<rparr>"
      using w(1) by (simp add: p2_def p1 q_def set_worker_def x2_def)
    have "compatible (w_uGrouping (Pool p ! j)) (uGrouping e)"
      if j: "j < length (Pool p)" "j \<noteq> w" "w_bInUse (Pool p ! j)" for j
    proof (rule no_conflict_compatible [OF j(3)])
      have "(Pool p)[w := x1] ! j \<in> set ((Pool p)[w := x1])" using j(1) by (intro nth_mem) simp
      then have "Pool p ! j \<in> set (Pool p1)" using j(2) by (simp add: p1)
      then show "\<not> group_conflict (uGrouping e) (Pool p ! j)" using True by (simp add: IfInGroup_def)
    qed
    then have "pool_workers_ok q ((Pool p)[w := x2])"
      unfolding q_def using ok w e d by (intro take_workers_ok) (auto simp: x1_def x2_def)
    moreover have "ullUniqueID ` set q = ullUniqueID ` set (MsgQueue p)" by (simp add: q_def mark_set_id)
    then have "\<forall>e \<in> set q. ullUniqueID e < nextUniqueID p"
      using inv unfolding pool_inv_def by (metis (no_types, lifting) Un_iff imageE image_eqI set_append)
    moreover have "map ullUniqueID q = map ullUniqueID (MsgQueue p)" "map Payload q = map Payload (MsgQueue p)"
      by (simp_all add: q_def)
    ultimately have "pool_inv p2" "live p2 = live p"
      using inv by (auto simp: p2 pool_inv_split live_def mark_sorted q_def simp flip: mset_map)
    then show ?thesis by (simp add: t live_def) (simp add: p2)
  qed
qed

lemma erase_id_mset:
  "e \<in> set q \<Longrightarrow> distinct (map ullUniqueID q) \<Longrightarrow> mset q = add_mset e (mset (erase_id (ullUniqueID e) q))"
  by (induction q) (auto simp: rev_image_eqI)

lemma erase_id_distinct:
  "distinct (map ullUniqueID q) \<Longrightarrow> distinct (map ullUniqueID (erase_id i q)) \<and> set (erase_id i q) \<subseteq> set q"
  by (induction q) auto

lemma erase_id_sorted: "sorted_wrt before q \<Longrightarrow> sorted_wrt before (erase_id i q)"
proof (induction q)
  case (Cons e q)
  have "set (erase_id i q) \<subseteq> set q" for q :: "'a CMsgEntry list" by (induction q) auto
  then show ?case using Cons by auto
qed simp

lemma finish_shape:
  assumes w: "w < length (Pool p)" "w_pMsg (Pool p ! w) = Some i"
  shows "Pool (finish_msg w b p) = (Pool p)[w := (Pool p ! w)\<lparr> w_pMsg := None \<rparr>]"
    and "MsgQueue (finish_msg w b p) =
       (if b then erase_id i (MsgQueue p) else mark_processing i False (MsgQueue p))"
    and "FutureMsgQueue (finish_msg w b p) = FutureMsgQueue p"
    and "nextUniqueID (finish_msg w b p) = nextUniqueID p"
  using w by (simp_all add: finish_msg_def Let_def set_worker_def)

lemma finish_ok:
  assumes inv: "pool_inv p" and w: "w < length (Pool p)" "w_pMsg (Pool p ! w) = Some i"
  shows "pool_inv (finish_msg w b p)
    \<and> (\<exists>m. w_Msg (Pool p ! w) = Some m
        \<and> live p = live (finish_msg w b p) + (if b then {#m#} else {#}))"
proof -
  define x where "x = (Pool p ! w)\<lparr> w_pMsg := None \<rparr>"
  note f = finish_shape [OF w, of b, folded x_def]
  define q where "q = (if b then erase_id i (MsgQueue p) else mark_processing i False (MsgQueue p))"
  have d: "distinct (map ullUniqueID (MsgQueue p))" using inv by (simp add: pool_inv_split)
  have "worker_ok (MsgQueue p) (Pool p ! w)" using inv w(1) by (simp add: pool_inv_def)
  then obtain e where e: "e \<in> set (MsgQueue p)" "ullUniqueID e = i" "w_Msg (Pool p ! w) = Some (Payload e)"
    using w(2) unfolding worker_ok_def by blast
  have ok: "pool_workers_ok q ((Pool p)[w := x])"
    using inv w d by (intro finish_workers_ok) (auto simp: pool_inv_split q_def x_def)
  have s: "sorted_wrt before q"
    using inv by (simp add: q_def pool_inv_def erase_id_sorted mark_sorted)
  have ids: "ullUniqueID ` set q \<subseteq> ullUniqueID ` set (MsgQueue p)" "distinct (map ullUniqueID q)"
    using erase_id_distinct [OF d, of i] d by (auto simp: q_def mark_set_id)
  have dist: "distinct (map ullUniqueID (q @ FutureMsgQueue p))"
    using inv ids by (auto simp: pool_inv_def)
  have lt: "\<forall>a \<in> set (q @ FutureMsgQueue p). ullUniqueID a < nextUniqueID p"
  proof
    fix a assume "a \<in> set (q @ FutureMsgQueue p)"
    then have "ullUniqueID a \<in> ullUniqueID ` set (MsgQueue p @ FutureMsgQueue p)" using ids(1) by auto
    then show "ullUniqueID a < nextUniqueID p" using inv unfolding pool_inv_def by (metis imageE)
  qed
  have "pool_inv (finish_msg w b p)"
    unfolding pool_inv_split f q_def [symmetric]
    using ok s dist lt inv by (simp add: pool_inv_def)
  moreover have "mset (map Payload (MsgQueue p)) = mset (map Payload q) + (if b then {#Payload e#} else {#})"
    using erase_id_mset [OF e(1) d] e(2) arg_cong [OF mark_payloads [of i False "MsgQueue p"], of mset]
    by (cases b) (simp_all add: q_def)
  then have "live p = live (finish_msg w b p) + (if b then {#Payload e#} else {#})"
    by (simp add: live_def f q_def)
  ultimately show ?thesis using e(3) by blast
qed

lemma set_idle_ok:
  assumes inv: "pool_inv p" and w: "w < length (Pool p)" "w_pMsg (Pool p ! w) = None"
  shows "pool_inv (UpdatePerf now None (Some w) p) \<and> live (UpdatePerf now None (Some w) p) = live p"
proof -
  have ok: "pool_workers_ok (MsgQueue p) ((Pool p)[w := SetIdle now (Pool p ! w)])"
    using inv w by (intro idle_update_ok) (auto simp: pool_inv_split SetIdle_def)
  then show ?thesis using inv
    by (simp add: UpdatePerf_def Let_def set_worker_def live_def pool_inv_split)
qed

lemma over_ok:
  assumes inv: "pool_inv p" and w: "w < length (Pool p)" "w_pMsg (Pool p ! w) = None"
  shows "pool_inv (kill_if_over w mx p) \<and> live (kill_if_over w mx p) = live p"
proof -
  have ok: "pool_workers_ok (MsgQueue p) ((Pool p)[w := (Pool p ! w)\<lparr> w_bExit := True \<rparr>])"
    using inv w by (intro idle_update_ok) (auto simp: pool_inv_split)
  then show ?thesis using inv
    by (simp add: kill_if_over_def set_worker_def live_def pool_inv_split)
qed

lemma idle_ok:
  assumes inv: "pool_inv p" and w: "w < length (Pool p)" "w_pMsg (Pool p ! w) = None"
  shows "pool_inv (idle_check fe now w p) \<and> live (idle_check fe now w p) = live p"
proof -
  have ok: "pool_workers_ok (MsgQueue p) ((Pool p)[w := (Pool p ! w)\<lparr> w_bExit := True \<rparr>])"
    using inv w by (intro idle_update_ok) (auto simp: pool_inv_split)
  then show ?thesis using inv
    by (simp add: idle_check_def set_worker_def live_def pool_inv_split)
qed

lemma exit_ok:
  assumes inv: "pool_inv p" and w: "w < length (Pool p)" "w_pMsg (Pool p ! w) = None"
  shows "pool_inv (exit_worker w p) \<and> live (exit_worker w p) = live p"
proof -
  have ok: "pool_workers_ok (MsgQueue p) ((Pool p)[w := (Pool p ! w)\<lparr> w_bInUse := False, w_bActive := False \<rparr>])"
    using inv w by (intro idle_update_ok) (auto simp: pool_inv_split)
  then show ?thesis using inv
    by (simp add: exit_worker_def set_worker_def live_def pool_inv_split Let_def)
qed

lemma gc_ok:
  assumes inv: "pool_inv p"
  shows "pool_inv (DeleteOldThreadEntries now p) \<and> live (DeleteOldThreadEntries now p) = live p"
proof -
  let ?P = "\<lambda>w. \<not> (\<not> w_bActive w \<and> w_ftIdleTime w + 300000000 < now)"
  have keep: "?P v" if "v \<in> set (Pool p)" "w_pMsg v = Some i" for v i
  proof -
    have "worker_ok (MsgQueue p) v" using inv that(1) by (simp add: pool_inv_def)
    then show ?thesis using that(2) by (simp add: worker_ok_def)
  qed
  have "\<exists>v \<in> set (filter ?P (Pool p)). w_pMsg v = Some (ullUniqueID e)"
    if e: "e \<in> set (MsgQueue p)" "bProcessing e" for e
  proof -
    obtain v where "v \<in> set (Pool p)" "w_pMsg v = Some (ullUniqueID e)"
      using inv e by (auto simp: pool_inv_def)
    then show ?thesis using keep [of v] by auto
  qed
  moreover have "owners_ok (filter ?P (Pool p))" "group_ok (filter ?P (Pool p))"
    using inv by (simp_all add: pool_inv_def owners_ok_def group_ok_def sorted_wrt_filter)
  ultimately have "pool_workers_ok (MsgQueue p) (filter ?P (Pool p))"
    using inv by (simp add: pool_inv_def pool_workers_ok_def)
  then show ?thesis using inv
    by (simp add: DeleteOldThreadEntries_def live_def pool_inv_split)
qed

lemma payload_split:
  "mset (map Payload q) = mset (map Payload (filter (\<lambda>x. \<not> P x) q)) + mset (map Payload (filter P q))"
  by (induction q) auto

lemma kill_ok:
  assumes inv: "pool_inv p"
  shows "pool_inv (snd (SearchMessageKill cmp m p))
    \<and> live p = live (snd (SearchMessageKill cmp m p))
        + mset (map Payload (filter (kill_match cmp m) (MsgQueue p)))"
proof -
  let ?q = "filter (\<lambda>e. \<not> kill_match cmp m e) (MsgQueue p)"
  have s: "snd (SearchMessageKill cmp m p) = p\<lparr> MsgQueue := ?q, perfQueueSize := perfQueueSize (snd (SearchMessageKill cmp m p)) \<rparr>"
    by (simp add: SearchMessageKill_def kill_loop_filter)
  have keep: "e \<in> set ?q" if "e \<in> set (MsgQueue p)" "bProcessing e" for e
    using that by (simp add: kill_match_def)
  have "pool_workers_ok ?q (Pool p)"
    using inv keep unfolding pool_inv_split pool_workers_ok_def
    by (auto intro: worker_ok_mono)
  moreover have "distinct (map ullUniqueID (?q @ FutureMsgQueue p))"
    using inv by (auto simp: pool_inv_split distinct_map_filter)
  ultimately have "pool_inv (p\<lparr> MsgQueue := ?q, perfQueueSize := c \<rparr>)" for c
    using inv by (auto simp: pool_inv_split sorted_wrt_filter)
  moreover have "mset (map Payload (MsgQueue p))
      = mset (map Payload ?q) + mset (map Payload (filter (kill_match cmp m) (MsgQueue p)))"
    using payload_split [of "MsgQueue p" "kill_match cmp m"] .
  ultimately show ?thesis by (subst (1 2) s) (simp add: live_def)
qed

lemma transfer_send_ok:
  "pool_inv p \<Longrightarrow> pool_inv (transfer_send now e p) \<and> live (transfer_send now e p) = add_mset (Payload e) (live p)"
  unfolding transfer_send_def by (rule push_ok)

lemma transfer_erase_inv:
  assumes inv: "pool_inv p"
  shows "pool_inv (transfer_erase e p)"
proof -
  have "distinct (map ullUniqueID (FutureMsgQueue p))" using inv by (simp add: pool_inv_def)
  from erase_id_distinct [OF this, of "ullUniqueID e"] show ?thesis
    using inv unfolding pool_inv_split by (auto simp: transfer_erase_def)
qed

lemma erase_id_absent: "i \<notin> ullUniqueID ` set q \<Longrightarrow> erase_id i q = q"
  by (induction q) auto

lemma transfer_erase_live:
  assumes inv: "pool_inv p"
  shows "e \<in> set (FutureMsgQueue p) \<Longrightarrow> live p = add_mset (Payload e) (live (transfer_erase e p))"
    and "ullUniqueID e \<notin> ullUniqueID ` set (FutureMsgQueue p) \<Longrightarrow> live (transfer_erase e p) = live p"
proof -
  have d: "distinct (map ullUniqueID (FutureMsgQueue p))" using inv by (simp add: pool_inv_def)
  show "e \<in> set (FutureMsgQueue p) \<Longrightarrow> live p = add_mset (Payload e) (live (transfer_erase e p))"
    using arg_cong [OF erase_id_mset [OF _ d], of e "image_mset Payload"]
    by (simp add: transfer_erase_def live_def)
  show "ullUniqueID e \<notin> ullUniqueID ` set (FutureMsgQueue p) \<Longrightarrow> live (transfer_erase e p) = live p"
    by (simp add: transfer_erase_def live_def erase_id_absent)
qed

lemma transfer_ok:
  assumes "pool_inv p"
  shows "pool_inv (transfer_loop fl now tid p) \<and> live (transfer_loop fl now tid p) = live p
    \<and> FutureMsgQueue (transfer_loop fl now tid p) = filter (\<lambda>e. \<not> is_due fl now e) (FutureMsgQueue p)"
  using assms
proof (induction fl now tid p rule: transfer_loop.induct)
  case (1 fl now tid p)
  let ?F = "FutureMsgQueue p"
  show ?case
  proof (cases "transfer_scan fl now p")
    case None
    then have "filter (\<lambda>e. \<not> is_due fl now e) ?F = ?F"
      by (simp add: transfer_scan_def find_None_iff filter_id_conv)
    moreover have "transfer_loop fl now tid p = p" by (subst transfer_loop.simps) (simp add: None)
    ultimately show ?thesis using "1.prems" by simp
  next
    case (Some e)
    note e = transfer_scan_Some [OF Some]
    define p1 where "p1 = AddThreads (transfer_send now e p)"
    define p2 where "p2 = transfer_erase e p1"
    have p1: "pool_inv p1" "live p1 = add_mset (Payload e) (live p)" "FutureMsgQueue p1 = ?F"
      using transfer_send_ok [OF "1.prems", of now e] add_threads_ok [of "transfer_send now e p"]
      by (simp_all add: p1_def AddThreads_def)
    have d: "distinct (map ullUniqueID ?F)" using "1.prems" by (simp add: pool_inv_def)
    have inv2: "pool_inv p2" unfolding p2_def by (rule transfer_erase_inv [OF p1(1)])
    have l2: "live p2 = live p" using transfer_erase_live(1) [OF p1(1), of e] p1 e by (simp add: p2_def)
    have "ullUniqueID x \<noteq> ullUniqueID e" if "x \<in> set ?F" "\<not> is_due fl now x" for x
      using d e that by (auto simp: distinct_map inj_on_def)
    then have f: "filter (\<lambda>x. \<not> is_due fl now x) (FutureMsgQueue p2) = filter (\<lambda>x. \<not> is_due fl now x) ?F"
      by (auto simp: p2_def transfer_erase_def p1 erase_id_filter [OF d] intro!: filter_cong)
    have "transfer_loop fl now tid p = transfer_loop fl now tid p2"
      by (subst transfer_loop.simps) (simp add: Some p2_def p1_def transfer_send_is_send)
    then show ?thesis
      using "1.IH" [OF Some] inv2 l2 f by (simp add: transfer_send_is_send p2_def p1_def)
  qed
qed

lemma kill_threads_ok:
  assumes inv: "pool_inv p"
  shows "pool_inv (KillThreads_notify p) \<and> live (KillThreads_notify p) = live p"
proof -
  let ?f = "\<lambda>w :: 'a CThreadWork. w\<lparr> w_bExit := True \<rparr>"
  have r: "owner_rel (?f a) (?f b) = owner_rel a b" "group_rel (?f a) (?f b) = group_rel a b" for a b
    by (simp_all add: owner_rel_def group_rel_def)
  have "pool_workers_ok (MsgQueue p) (map ?f (Pool p))"
    using inv
    by (simp add: pool_inv_def pool_workers_ok_def worker_ok_def owners_ok_def group_ok_def sorted_wrt_map r)
  then show ?thesis using inv by (simp add: KillThreads_notify_def pool_inv_split live_def)
qed

lemma clear_ok:
  assumes inv: "pool_inv p" and c: "KillThreads_clear p = Some q"
  shows "pool_inv q \<and> live q = live p \<and> (\<forall>e \<in> set (MsgQueue q). \<not> bProcessing e)"
proof -
  have q: "q = p\<lparr> Pool := [] \<rparr>" "\<forall>w \<in> set (Pool p). \<not> w_bActive w"
    using c by (auto simp: KillThreads_clear_def split: if_splits)
  have "\<not> bProcessing e" if e: "e \<in> set (MsgQueue p)" for e
  proof
    assume "bProcessing e"
    then obtain w where w: "w \<in> set (Pool p)" "w_pMsg w = Some (ullUniqueID e)"
      using inv e by (auto simp: pool_inv_def)
    then have "worker_ok (MsgQueue p) w" using inv by (simp add: pool_inv_def)
    then show False using w q(2) by (simp add: worker_ok_def)
  qed
  then have "pool_workers_ok (MsgQueue p) []"
    by (simp add: pool_workers_ok_def owners_ok_def group_ok_def)
  then show ?thesis
    using inv q(1) \<open>\<And>e. e \<in> set (MsgQueue p) \<Longrightarrow> \<not> bProcessing e\<close> by (simp add: pool_inv_split live_def)
qed

lemma reset_perf_ok [simp]: "pool_inv (reset_perf p) = pool_inv p" "live (reset_perf p) = live p"
  by (simp_all add: reset_perf_def pool_inv_def live_def)

lemma terminate_ok:
  assumes "pool_inv p" "Terminate_end now tid p = Some p'"
  shows "pool_inv p' \<and> live p' = live p"
proof -
  obtain q where q: "KillThreads_clear p = Some q" "p' = reset_perf (TransferFutureQueue True now tid q)"
    using assms(2) by (auto simp: Terminate_end_def)
  show ?thesis
    using clear_ok [OF assms(1) q(1)] transfer_ok [of q True now tid] q(2)
    by (simp add: TransferFutureQueue_def)
qed

section \<open>Runs\<close>

text \<open>Messages given to the pool, and messages that left it, by an event.\<close>

fun accepted :: "'m pool_event \<Rightarrow> 'm multiset" where
  "accepted (EvPush now line m pr g d) = {#m#}"
| "accepted (EvPushDelayed now line due m pr g) = {#m#}"
| "accepted _ = {#}"

fun completed :: "'m pool_event \<Rightarrow> 'm CThreadPool \<Rightarrow> 'm multiset" where
  "completed (EvFinish w b) p = (if b then {#the (w_Msg (Pool p ! w))#} else {#})"
| "completed _ p = {#}"

fun killed :: "('m \<Rightarrow> 'm \<Rightarrow> bool) \<Rightarrow> 'm pool_event \<Rightarrow> 'm CThreadPool \<Rightarrow> 'm multiset" where
  "killed cmp (EvKill m) p = mset (map Payload (filter (kill_match cmp m) (MsgQueue p)))"
| "killed cmp _ p = {#}"

lemma pool_inv_config [simp]:
  "pool_inv (p\<lparr> dwMinNumThreads := a \<rparr>) = pool_inv p"
  "pool_inv (p\<lparr> dwMaxNumThreads := a \<rparr>) = pool_inv p"
  "pool_inv (p\<lparr> dwMaxNumThreadsRange := a, dwQueueRangeMin := b, dwQueueRangeMax := c \<rparr>) = pool_inv p"
  "live (p\<lparr> dwMinNumThreads := a \<rparr>) = live p"
  "live (p\<lparr> dwMaxNumThreads := a \<rparr>) = live p"
  "live (p\<lparr> dwMaxNumThreadsRange := a, dwQueueRangeMin := b, dwQueueRangeMax := c \<rparr>) = live p"
  by (simp_all add: pool_inv_def live_def)

lemma pool_exec_ok:
  assumes inv: "pool_inv p" and x: "pool_exec cmp ev p = Some p'"
  shows "pool_inv p' \<and> live p + accepted ev = live p' + completed ev p + killed cmp ev p"
proof (cases ev)
  case (EvPush now line m pr g d)
  then show ?thesis using x push_ok [OF inv, of now m line pr g d] by auto
next
  case (EvPushDelayed now line due m pr g)
  then show ?thesis using x push_delayed_ok [OF inv, of now line due m pr g] by auto
next
  case (EvAddThreads mx)
  then show ?thesis using x add_threads_ok [OF inv, of mx] by auto
next
  case (EvFinish w b)
  then have w: "w < length (Pool p)" "w_pMsg (Pool p ! w) \<noteq> None" "p' = finish_msg w b p"
    using x by (auto split: if_splits)
  then obtain i where i: "w_pMsg (Pool p ! w) = Some i" by blast
  show ?thesis using finish_ok [OF inv w(1) i, of b] w(3) EvFinish by auto
next
  case (EvSetIdle now w)
  then show ?thesis using x set_idle_ok [OF inv, of w now] by (auto split: if_splits)
next
  case (EvKillIfOver w mx)
  then show ?thesis using x over_ok [OF inv, of w mx] by (auto simp: at_rest_def split: if_splits)
next
  case (EvKill m)
  then show ?thesis using x kill_ok [OF inv, of cmp m] by auto
next
  case (EvTake now w)
  then show ?thesis using x take_ok [OF inv, of w now] by (auto simp: at_rest_def split: if_splits)
next
  case (EvIdle fe now w)
  then show ?thesis using x idle_ok [OF inv, of w fe now] by (auto simp: at_rest_def split: if_splits)
next
  case (EvExit w)
  then show ?thesis using x exit_ok [OF inv, of w] by (auto simp: at_rest_def split: if_splits)
next
  case EvKillThreads
  then show ?thesis using x kill_threads_ok [OF inv] by auto
next
  case EvClear
  then show ?thesis using x clear_ok [OF inv, of p'] by auto
next
  case (EvGarbageCollect now)
  then show ?thesis using x gc_ok [OF inv, of now] by auto
qed (use inv x in \<open>auto simp: SetMinThreads_def SetMaxThreads_def SetThreadRange_def\<close>)

text \<open>The local state of a thread in \<open>TransferFutureQueue\<close>: the copied entry, before and after
  the copy was sent. \<open>pending\<close> is what was sent and whose entry is not looked for yet.\<close>

datatype 'm transfer = Resting | Scanned "'m CMsgEntry" | Sent "'m CMsgEntry"

fun sent_copy :: "'m transfer \<Rightarrow> 'm multiset" where
  "sent_copy (Sent e) = {#Payload e#}"
| "sent_copy _ = {#}"

fun held_entry :: "'m transfer \<Rightarrow> 'm CMsgEntry option" where
  "held_entry Resting = None"
| "held_entry (Scanned e) = Some e"
| "held_entry (Sent e) = Some e"

definition pending :: "'m transfer list \<Rightarrow> 'm multiset" where
  "pending T = sum_list (map sent_copy T)"

definition others_rest :: "nat \<Rightarrow> 'm transfer list \<Rightarrow> bool" where
  "others_rest t T \<longleftrightarrow> (\<forall>u < length T. u \<noteq> t \<longrightarrow> held_entry (T ! u) = None)"

text \<open>Runs of the pool with any number of threads that may transfer. Beside the state, the
  messages accepted, completed and killed on the way, the copies whose entry another
  thread had erased before (\<open>D\<close>), and whether a transfer began a turn while another thread was
  in one (\<open>overlap\<close>).\<close>

inductive pool_run ::
  "('m \<Rightarrow> 'm \<Rightarrow> bool) \<Rightarrow> 'm transfer list \<Rightarrow> 'm CThreadPool
   \<Rightarrow> 'm multiset \<Rightarrow> 'm multiset \<Rightarrow> 'm multiset \<Rightarrow> 'm multiset \<Rightarrow> bool \<Rightarrow> bool"
  for cmp where
  run_init: "pool_run cmp (replicate n Resting) pool_init {#} {#} {#} {#} False"
| run_event: "pool_run cmp T p S C K D overlap \<Longrightarrow> pool_exec cmp ev p = Some p' \<Longrightarrow>
    pool_run cmp T p' (S + accepted ev) (C + completed ev p) (K + killed cmp ev p) D overlap"
| run_scan: "pool_run cmp T p S C K D overlap \<Longrightarrow> t < length T \<Longrightarrow> T ! t = Resting \<Longrightarrow>
    transfer_scan bFlush now p = Some e \<Longrightarrow>
    pool_run cmp (T[t := Scanned e]) p S C K D (overlap \<or> \<not> others_rest t T)"
| run_send: "pool_run cmp T p S C K D overlap \<Longrightarrow> t < length T \<Longrightarrow> T ! t = Scanned e \<Longrightarrow>
    pool_run cmp (T[t := Sent e]) (transfer_send now e p) S C K D overlap"
| run_erase: "pool_run cmp T p S C K D overlap \<Longrightarrow> t < length T \<Longrightarrow> T ! t = Sent e \<Longrightarrow>
    pool_run cmp (T[t := Resting]) (transfer_erase e p) S C K
      (if ullUniqueID e \<in> ullUniqueID ` set (FutureMsgQueue p) then D else add_mset (Payload e) D) overlap"

inductive_cases pool_runE: "pool_run cmp T p S C K D overlap"

definition pool_reach ::
  "('m \<Rightarrow> 'm \<Rightarrow> bool) \<Rightarrow> 'm CThreadPool \<Rightarrow> 'm multiset \<Rightarrow> 'm multiset \<Rightarrow> 'm multiset \<Rightarrow> bool" where
  "pool_reach cmp p S C K \<longleftrightarrow> (\<exists>T D overlap. pool_run cmp T p S C K D overlap)"

lemma pool_run_inv: "pool_run cmp T p S C K D overlap \<Longrightarrow> pool_inv p"
proof (induction rule: pool_run.induct)
  case (run_event T p S C K D overlap ev p')
  then show ?case using pool_exec_ok by blast
qed (use pool_inv_init transfer_send_ok transfer_erase_inv in blast)+

lemma pool_reach_inv: "pool_reach cmp p S C K \<Longrightarrow> pool_inv p"
  unfolding pool_reach_def using pool_run_inv by blast

subsection \<open>The copies of the transfers\<close>












subsection \<open>A run for the witnesses\<close>

lemmas pool_exec_defs = SetMinThreads_def SendMessageToPool_def AddThreads_def Let_def
  real_max_threads_def NumThreads_def GetMinNumThreadsInternal_def UpdatePerf_def
  AddThreads_locked_def GetMsgQueueCount_def worker_counts_def StartNewThread_def new_worker_def IfInGroup_def
  group_conflict_def insert_msg_def take_msg_def next_msg_def set_worker_def
  mark_processing_def count_in_use_def at_rest_def

definition demo_msg :: "nat CMsgEntry" where
  "demo_msg = \<lparr> bProcessing = False, uPriority = 1, uLineNo = 1, uGrouping = 0, ullUniqueID = 0,
     ftDueTime = 0, Payload = 7 \<rparr>"

definition demo_worker :: "nat CThreadWork" where
  "demo_worker = \<lparr> w_ThreadID = 1, w_bActive = True, w_bExit = False, w_bInUse = False,
     w_uGrouping = GROUPING_DONT_CARE, w_Msg = None, w_pMsg = None, w_ftIdleTime = 0 \<rparr>"

definition demo_sent :: "nat CThreadPool" where
  "demo_sent = pool_init\<lparr> dwMinNumThreads := 1, perfNumThreads := 1, perfQueueSize := 1,
     perfQueueMax := 1, perfQueueRateIn := 1, MsgQueue := [demo_msg], Pool := [demo_worker],
     nextUniqueID := 1, nextThreadID := Suc 1 \<rparr>"

definition demo_taken :: "nat CThreadPool" where
  "demo_taken = demo_sent\<lparr> perfWorkItems := 1, MsgQueue := [demo_msg\<lparr> bProcessing := True \<rparr>],
     Pool := [demo_worker\<lparr> w_bInUse := True, w_uGrouping := 0, w_Msg := Some 7, w_pMsg := Some 0 \<rparr>] \<rparr>"

lemmas demo_defs = demo_msg_def demo_worker_def demo_sent_def demo_taken_def pool_init_def

lemma demo_steps:
  "pool_exec (=) (EvSetMinThreads 1) (pool_init :: nat CThreadPool) = Some (pool_init\<lparr> dwMinNumThreads := 1 \<rparr>)"
  "Option.bind (pool_exec (=) (EvPush 5 1 7 1 0 0) (pool_init\<lparr> dwMinNumThreads := 1 \<rparr>))
     (pool_exec (=) (EvAddThreads 20)) = Some demo_sent"
  "take_msg 9 0 demo_sent = (TAKEN, demo_taken)"
  by (simp_all add: demo_defs pool_exec_defs)

lemma demo_run_reached:
  "pool_run (=) [] demo_sent {#7#} {#} {#} {#} False" "pool_run (=) [] demo_taken {#7#} {#} {#} {#} False"
proof -
  have "pool_run (=) [] (pool_init\<lparr> dwMinNumThreads := 1 \<rparr>) {#} {#} ({#} :: nat multiset) {#} False"
    using run_event [OF run_init [of _ 0] demo_steps(1)] by simp
  moreover obtain p where p: "pool_exec (=) (EvPush 5 1 7 1 0 0) (pool_init\<lparr> dwMinNumThreads := 1 \<rparr>) = Some p"
    "pool_exec (=) (EvAddThreads 20) p = Some demo_sent"
    using demo_steps(2) by (auto simp: bind_eq_Some_conv)
  ultimately have "pool_run (=) [] p {#7#} {#} {#} {#} False" using run_event by fastforce
  from run_event [OF this p(2)] show *: "pool_run (=) [] demo_sent {#7#} {#} {#} {#} False" by simp
  have "pool_exec (=) (EvTake 9 0) demo_sent = Some demo_taken"
    by (simp add: demo_steps(3)) (simp add: demo_defs at_rest_def)
  from run_event [OF * this] show "pool_run (=) [] demo_taken {#7#} {#} {#} {#} False" by simp
qed

lemma demo_reach:
  "pool_reach (=) demo_sent {#7#} {#} {#}" "pool_reach (=) demo_taken {#7#} {#} {#}"
  unfolding pool_reach_def using demo_run_reached by blast+

text \<open>Two threads whose wait timed out transfer the same delayed message: both copy it before
  one of them has erased it, and it is in the queue twice.\<close>

lemma overlapping_transfers_duplicate:
  "\<exists>T p. pool_run (=) T p {#7 :: nat#} {#} {#} {#7#} True \<and> live p = {#7, 7#} \<and> pending T = {#}"
proof -
  define e where "e = \<lparr> bProcessing = False, uPriority = 1, uLineNo = 1, uGrouping = 0, ullUniqueID = 0,
    ftDueTime = 5, Payload = 7 :: nat \<rparr>"
  define p0 where "p0 = pool_init\<lparr> FutureMsgQueue := [e], nextUniqueID := Suc 0 \<rparr>"
  define p1 where "p1 = transfer_erase e (transfer_send 5 e p0)"
  define p2 where "p2 = transfer_erase e (transfer_send 5 e p1)"
  have "pool_exec (=) (EvPushDelayed 5 1 0 7 1 0) pool_init = Some p0"
    by (simp add: push_delayed_def pool_init_def p0_def e_def)
  from run_event [OF run_init [of _ 2] this]
  have r: "pool_run (=) [Resting, Resting] p0 {#7#} {#} {#} {#} False" by (simp add: numeral_2_eq_2)
  have s: "transfer_scan False 5 p0 = Some e" by (simp add: transfer_scan_def p0_def e_def is_due_def)
  have "\<not> others_rest 1 [Scanned e, Resting]" by (auto simp: others_rest_def intro!: exI [of _ 0])
  then have "pool_run (=) [Scanned e, Scanned e] p0 {#7#} {#} {#} {#} True"
    using run_scan [OF run_scan [OF r _ _ s, of 0] _ _ s, of 1]
    by simp
  from run_send [OF this, of 0 e] have "pool_run (=) [Sent e, Scanned e] (transfer_send 5 e p0) {#7#} {#} {#} {#} True"
    by simp
  from run_erase [OF this, of 0 e] have "pool_run (=) [Resting, Scanned e] p1 {#7#} {#} {#} {#} True"
    by (simp add: p1_def) (simp add: p0_def)
  from run_send [OF this, of 1 e] have "pool_run (=) [Resting, Sent e] (transfer_send 5 e p1) {#7#} {#} {#} {#} True"
    by simp
  from run_erase [OF this, of 1 e] have "pool_run (=) [Resting, Resting] p2 {#7#} {#} {#} {#7#} True"
    by (simp add: p2_def p1_def transfer_erase_def) (simp add: p0_def e_def)
  moreover have "live p2 = {#7, 7#}"
    by (simp add: p2_def p1_def p0_def e_def transfer_send_def transfer_erase_def UpdatePerf_def Let_def live_def pool_init_def)
  ultimately show ?thesis by (intro exI conjI) (auto simp: pending_def)
qed




section \<open>Properties\<close>



text \<open>C2: scheduling in every reachable state. The queue is ordered by priority and,
  within a priority, by arrival. An entry marked as processed belongs to exactly one
  worker, which is running, in use and holds that entry's message and group; two
  workers never hold the same entry. Workers in use at the same time are all of one
  group, and a worker of an ALONE group is in use alone.\<close>

theorem pool_schedule_invariant:
  assumes "pool_reach cmp p S C K"
  shows "(\<forall>i j. i < j \<and> j < length (MsgQueue p) \<longrightarrow> before (MsgQueue p ! i) (MsgQueue p ! j))
    \<and> (\<forall>e \<in> set (MsgQueue p). bProcessing e \<longrightarrow>
        (\<exists>!w. w < length (Pool p) \<and> w_pMsg (Pool p ! w) = Some (ullUniqueID e)))
    \<and> (\<forall>w \<in> set (Pool p). \<forall>i. w_pMsg w = Some i \<longrightarrow> w_bActive w \<and> w_bInUse w \<and>
        (\<exists>e \<in> set (MsgQueue p). ullUniqueID e = i \<and> bProcessing e
           \<and> w_Msg w = Some (Payload e) \<and> w_uGrouping w = uGrouping e))
    \<and> (\<forall>v w. v < w \<and> w < length (Pool p) \<and> w_bInUse (Pool p ! v) \<and> w_bInUse (Pool p ! w) \<longrightarrow>
        w_uGrouping (Pool p ! v) = w_uGrouping (Pool p ! w) \<and> w_uGrouping (Pool p ! v) < GROUPING_ALONE_BASE)"
proof -
  have inv: "pool_inv p" using pool_reach_inv [OF assms] .
  have 1: "\<forall>i j. i < j \<and> j < length (MsgQueue p) \<longrightarrow> before (MsgQueue p ! i) (MsgQueue p ! j)"
    using inv by (auto simp: pool_inv_def sorted_wrt_iff_nth_less)
  have own: "w_pMsg (Pool p ! v) \<noteq> w_pMsg (Pool p ! w)"
    if "v < w" "w < length (Pool p)" "w_pMsg (Pool p ! v) \<noteq> None" for v w
    using inv that by (auto simp: pool_inv_def owners_ok_def sorted_wrt_iff_nth_less owner_rel_def)
  have 2: "\<exists>!w. w < length (Pool p) \<and> w_pMsg (Pool p ! w) = Some (ullUniqueID e)"
    if e: "e \<in> set (MsgQueue p)" "bProcessing e" for e
  proof -
    obtain w where "w < length (Pool p)" "w_pMsg (Pool p ! w) = Some (ullUniqueID e)"
      using inv e unfolding pool_inv_def by (metis in_set_conv_nth)
    then show ?thesis using own by (metis linorder_neqE_nat option.distinct(1))
  qed
  have 3: "\<forall>w \<in> set (Pool p). worker_ok (MsgQueue p) w" using inv by (simp add: pool_inv_def)
  have 4: "w_uGrouping (Pool p ! v) = w_uGrouping (Pool p ! w) \<and> w_uGrouping (Pool p ! v) < GROUPING_ALONE_BASE"
    if "v < w \<and> w < length (Pool p) \<and> w_bInUse (Pool p ! v) \<and> w_bInUse (Pool p ! w)" for v w
    using inv that
    by (auto simp: pool_inv_def group_ok_def sorted_wrt_iff_nth_less group_rel_def compatible_def)
  show ?thesis using 1 2 3 4 unfolding worker_ok_def by blast
qed

theorem pool_schedule_invariant_witness:
  "\<exists>!w. w < length (Pool demo_taken) \<and> w_pMsg (Pool demo_taken ! w) = Some 0"
  using pool_schedule_invariant [OF demo_reach(2)] by (simp add: demo_defs)

text \<open>C3: what a worker takes. In a reachable state, a successful first critical
  section of \<open>DoWork\<close> takes an entry nobody was processing that comes before every
  other such entry (higher priority, or equal and earlier), that is due, and whose
  group goes with every worker in use; it marks that entry and nothing else in the
  queue, and the worker holds it.\<close>

theorem take_msg_picks_first:
  assumes "pool_reach cmp p S C K" and "take_msg now w p = (TAKEN, p')" and "w < length (Pool p)"
    and "w_pMsg (Pool p ! w) = None" and "\<not> w_bInUse (Pool p ! w)"
  shows "\<exists>e \<in> set (MsgQueue p). \<not> bProcessing e
    \<and> (\<forall>x \<in> set (MsgQueue p). \<not> bProcessing x \<longrightarrow> x = e \<or> before e x)
    \<and> (ftDueTime e = 0 \<or> ftDueTime e \<le> now)
    \<and> (\<forall>v \<in> set (Pool p). w_bInUse v \<longrightarrow> compatible (w_uGrouping v) (uGrouping e))
    \<and> MsgQueue p' = mark_processing (ullUniqueID e) True (MsgQueue p)
    \<and> w_pMsg (Pool p' ! w) = Some (ullUniqueID e) \<and> w_Msg (Pool p' ! w) = Some (Payload e)"
proof -
  have inv: "pool_inv p" using pool_reach_inv [OF assms(1)] .
  obtain e where some: "next_msg (MsgQueue p) = Some e"
    using assms(2) by (cases "next_msg (MsgQueue p)") (auto simp: take_msg_def)
  obtain a b where q: "MsgQueue p = a @ e # b" "\<not> bProcessing e" "\<forall>x \<in> set a. bProcessing x"
    using next_msg_Some [OF some] by blast
  have "sorted_wrt before (MsgQueue p)" using inv by (simp add: pool_inv_def)
  then have first: "\<forall>x \<in> set (MsgQueue p). \<not> bProcessing x \<longrightarrow> x = e \<or> before e x"
    using q by (auto simp: sorted_wrt_append)
  define x1 where "x1 = (Pool p ! w)\<lparr> w_Msg := Some (Payload e), w_uGrouping := uGrouping e \<rparr>"
  have g: "IfInGroup (uGrouping e) (p\<lparr> Pool := (Pool p)[w := x1] \<rparr>)"
    and due: "ftDueTime e = 0 \<or> ftDueTime e \<le> now"
    and res: "MsgQueue p' = mark_processing (ullUniqueID e) True (MsgQueue p)"
      "w_pMsg (Pool p' ! w) = Some (ullUniqueID e)" "w_Msg (Pool p' ! w) = Some (Payload e)"
    using assms(2,3) some
    by (auto simp: take_msg_def Let_def set_worker_def x1_def not_less split: if_splits)
  have "compatible (w_uGrouping v) (uGrouping e)" if v: "v \<in> set (Pool p)" "w_bInUse v" for v
  proof (rule no_conflict_compatible [OF v(2)])
    obtain j where j: "j < length (Pool p)" "Pool p ! j = v" using v(1) by (auto simp: in_set_conv_nth)
    have "j \<noteq> w" using j v(2) assms(5) by auto
    then have "v \<in> set ((Pool p)[w := x1])"
      using j by (metis length_list_update nth_list_update_neq nth_mem)
    then show "\<not> group_conflict (uGrouping e) v" using g by (simp add: IfInGroup_def)
  qed
  then show ?thesis using q first due res by (intro bexI [of _ e]) auto
qed

theorem take_msg_picks_first_witness:
  "\<exists>e \<in> set (MsgQueue demo_sent). w_pMsg (Pool demo_taken ! 0) = Some (ullUniqueID e)"
proof -
  have "0 < length (Pool demo_sent)" "w_pMsg (Pool demo_sent ! 0) = None" "\<not> w_bInUse (Pool demo_sent ! 0)"
    by (simp_all add: demo_defs)
  from take_msg_picks_first [OF demo_reach(1) demo_steps(3) this] show ?thesis by blast
qed

section \<open>Progress and thread counts\<close>

lemma next_msg_idle:
  assumes "pool_inv p" and "\<forall>w \<in> set (Pool p). \<not> w_bInUse w"
  shows "next_msg (MsgQueue p) = (case MsgQueue p of [] \<Rightarrow> None | e # _ \<Rightarrow> Some e)"
proof (cases "MsgQueue p")
  case (Cons e q)
  have "\<not> bProcessing e"
  proof
    assume "bProcessing e"
    then obtain w where w: "w \<in> set (Pool p)" "w_pMsg w = Some (ullUniqueID e)"
      using assms(1) Cons by (auto simp: pool_inv_def)
    then have "worker_ok (MsgQueue p) w" using assms(1) by (simp add: pool_inv_def)
    then show False using w assms(2) by (simp add: worker_ok_def)
  qed
  then show ?thesis using Cons by (simp add: next_msg_def)
qed (simp add: next_msg_def)

text \<open>C6: progress. In a reachable state with no worker in use, a worker that looks at a
  queue whose first entry is due takes that entry: neither the group rule nor a stale
  processing mark can block a pool that is at rest.\<close>

theorem idle_pool_progresses:
  assumes "pool_reach cmp p S C K" and "\<forall>v \<in> set (Pool p). \<not> w_bInUse v" and "w < length (Pool p)"
    and "MsgQueue p = e # q" and "ftDueTime e \<le> now"
  shows "fst (take_msg now w p) = TAKEN
    \<and> w_pMsg (Pool (snd (take_msg now w p)) ! w) = Some (ullUniqueID e)"
proof -
  have inv: "pool_inv p" using pool_reach_inv [OF assms(1)] .
  have n: "next_msg (MsgQueue p) = Some e" using next_msg_idle [OF inv assms(2)] assms(4) by simp
  have "IfInGroup g (p\<lparr> Pool := (Pool p)[w := x] \<rparr>)" if "\<not> w_bInUse x" for g x
    using assms(2) that set_update_subset_insert [of "Pool p" w x]
    by (auto simp: IfInGroup_def group_conflict_def)
  moreover have "\<not> w_bInUse (Pool p ! w)" using assms(2,3) by simp
  ultimately show ?thesis using assms(3,5)
    by (simp add: take_msg_def n Let_def set_worker_def not_less)
qed

theorem idle_pool_progresses_witness: "fst (take_msg 9 0 demo_sent) = TAKEN"
proof -
  have "\<forall>v \<in> set (Pool demo_sent). \<not> w_bInUse v" "0 < length (Pool demo_sent)"
    "MsgQueue demo_sent = demo_msg # []" "ftDueTime demo_msg \<le> 9"
    by (simp_all add: demo_defs)
  from idle_pool_progresses [OF demo_reach(1) this] show ?thesis by simp
qed

lemma start_in_count:
  "length (filter (worker_counts 0) (start_in tid ws)) = Suc (length (filter (worker_counts 0) ws))
   \<and> length (start_in tid ws) \<le> Suc (length ws)"
  by (induction ws) (auto simp: worker_counts_def restart_worker_def new_worker_def)

definition active_count :: "'m CThreadPool \<Rightarrow> nat" where
  "active_count p = length (filter (worker_counts 0) (Pool p))"

lemma unat_NumThreads: "length (Pool p) < 4294967296 \<Longrightarrow> unat (NumThreads 0 p) = active_count p"
  using length_filter_le [of "worker_counts 0" "Pool p"]
  unfolding NumThreads_def active_count_def by (intro unat_of_nat32) linarith

lemma start_threads_count:
  "active_count (start_threads n p) = active_count p + n
   \<and> length (Pool (start_threads n p)) \<le> length (Pool p) + n"
proof (induction n arbitrary: p)
  case (Suc n)
  then show ?case
    using Suc.IH [of "StartNewThread p"] start_in_count [of "nextThreadID p" "Pool p"]
    by (simp add: active_count_def StartNewThread_def)
qed simp

text \<open>Thread counts. Below the current limit \<open>AddThreads\<close> brings the running threads up
  to the minimum; it never ends a thread, and as long as the minimum is within the limit
  it never goes over the larger of the limit and the threads already running. At or
  above the limit it starts none.\<close>

theorem AddThreads_bounds:
  assumes "length (Pool p) + unat (GetMinNumThreadsInternal p) < 4294967295"
  shows "active_count p \<le> active_count (AddThreads p)
    \<and> (active_count p < unat (real_max_threads p) \<longrightarrow>
         unat (GetMinNumThreadsInternal p) \<le> active_count (AddThreads p))
    \<and> (active_count p \<ge> unat (real_max_threads p) \<longrightarrow> active_count (AddThreads p) = active_count p)
    \<and> (GetMinNumThreadsInternal p \<le> real_max_threads p \<longrightarrow>
         active_count (AddThreads p) \<le> max (active_count p) (unat (real_max_threads p)))"
proof -
  define m where "m = unat (GetMinNumThreadsInternal p) - unat (NumThreads 0 p)"
  define p1 where "p1 = start_threads m p"
  define p2 where "p2 = p1\<lparr> perfNumThreads := NumThreads 0 p1 \<rparr>"
  have a: "unat (NumThreads 0 p) = active_count p" using assms by (intro unat_NumThreads) simp
  have 1: "active_count p1 = active_count p + m" "length (Pool p1) \<le> length (Pool p) + m"
    using start_threads_count [of m p] by (simp_all add: p1_def)
  have "length (Pool p1) < 4294967296" using 1(2) assms by (simp add: m_def)
  then have b: "unat (NumThreads 0 p1) = active_count p1" by (rule unat_NumThreads)
  have 2: "active_count p2 = active_count p1" by (simp add: p2_def active_count_def)
  have 3: "active_count (StartNewThread p2) = Suc (active_count p1)"
    using start_threads_count [of 1 p2] 2 by simp
  have lim: "NumThreads 0 p < real_max_threads p \<longleftrightarrow> active_count p < unat (real_max_threads p)"
    by (simp add: word_less_nat_alt a)
  have run: "AddThreads p = p2 \<or> real_max_threads p - NumThreads 0 p1 > 0 \<and> AddThreads p = StartNewThread p2"
    if "NumThreads 0 p < real_max_threads p"
    using that by (simp add: AddThreads_def AddThreads_locked_def Let_def p2_def p1_def m_def)
  have stay: "active_count (AddThreads p) = active_count p" if "\<not> NumThreads 0 p < real_max_threads p"
    using that by (simp add: AddThreads_def AddThreads_locked_def active_count_def)
  have room: "active_count p1 \<le> unat (real_max_threads p)"
      "real_max_threads p - NumThreads 0 p1 > 0 \<Longrightarrow> active_count p1 < unat (real_max_threads p)"
    if "GetMinNumThreadsInternal p \<le> real_max_threads p" "NumThreads 0 p < real_max_threads p"
  proof -
    show le: "active_count p1 \<le> unat (real_max_threads p)"
      using that(1,2) lim a by (simp add: 1 m_def word_le_nat_alt)
    assume "real_max_threads p - NumThreads 0 p1 > 0"
    then have "unat (real_max_threads p) \<noteq> active_count p1"
      using b by (metis cancel_comm_monoid_add_class.diff_cancel word_unat_eq_iff less_irrefl)
    then show "active_count p1 < unat (real_max_threads p)" using le by simp
  qed
  show ?thesis
  proof (cases "NumThreads 0 p < real_max_threads p")
    case True
    then show ?thesis using run [OF True] room lim 1 2 3 a by (auto simp: m_def)
  next
    case False
    then show ?thesis using stay lim by auto
  qed
qed

theorem AddThreads_bounds_witness:
  "active_count (AddThreads (pool_init :: nat CThreadPool)) \<ge> 4"
proof -
  have "length (Pool (pool_init :: nat CThreadPool)) + unat (GetMinNumThreadsInternal (pool_init :: nat CThreadPool)) < 4294967295"
    and "active_count (pool_init :: nat CThreadPool) < unat (real_max_threads (pool_init :: nat CThreadPool))"
    and "unat (GetMinNumThreadsInternal (pool_init :: nat CThreadPool)) = 4"
    by (simp_all add: pool_init_def GetMinNumThreadsInternal_def active_count_def real_max_threads_def)
  then show ?thesis using AddThreads_bounds [of "pool_init :: nat CThreadPool"] by simp
qed

definition range_threads :: "nat \<Rightarrow> nat \<Rightarrow> nat \<Rightarrow> nat \<Rightarrow> nat \<Rightarrow> nat" where
  "range_threads lo hi m r s =
     (if lo = 0 \<or> s < lo then m else if s > hi then r else (s - lo) * (r - m) div (hi - lo) + m)"

lemma range_threads_inside:
  assumes "lo < hi" "m \<le> r" "s \<le> hi"
  shows "(s - lo) * (r - m) div (hi - lo) + m \<le> (r :: nat)"
proof -
  have "(s - lo) * (r - m) \<le> (hi - lo) * (r - m)" using assms(3) by (intro mult_le_mono1) simp
  then have "(s - lo) * (r - m) div (hi - lo) \<le> (hi - lo) * (r - m) div (hi - lo)"
    by (rule div_le_mono)
  then show ?thesis using assms(1,2) by simp
qed

lemma range_threads_bounds:
  "lo < hi \<Longrightarrow> m \<le> r \<Longrightarrow> m \<le> range_threads lo hi m r s \<and> range_threads lo hi m r s \<le> r"
  using range_threads_inside [of lo hi m r s] by (simp add: range_threads_def)

lemma range_threads_mono:
  assumes "lo < hi" "m \<le> r" "s \<le> t"
  shows "range_threads lo hi m r s \<le> range_threads lo hi m r t"
proof (cases "lo = 0 \<or> s < lo \<or> t > hi")
  case True
  then show ?thesis using range_threads_bounds [OF assms(1,2), of s] range_threads_bounds [OF assms(1,2), of t] assms
    by (auto simp: range_threads_def split: if_splits)
next
  case False
  have "(s - lo) * (r - m) \<le> (t - lo) * (r - m)" using assms(3) by (intro mult_le_mono1) simp
  then show ?thesis using False assms(3) by (simp add: range_threads_def div_le_mono)
qed

lemma real_max_threads_nat:
  assumes lh: "dwQueueRangeMin p < dwQueueRangeMax p" and mr: "dwMaxNumThreads p \<le> dwMaxNumThreadsRange p"
    and no: "(unat (dwQueueRangeMax p) - unat (dwQueueRangeMin p))
        * (unat (dwMaxNumThreadsRange p) - unat (dwMaxNumThreads p)) < 4294967296"
  shows "unat (real_max_threads p) = range_threads (unat (dwQueueRangeMin p)) (unat (dwQueueRangeMax p))
    (unat (dwMaxNumThreads p)) (unat (dwMaxNumThreadsRange p)) (unat (GetMsgQueueCount p + perfOverflow p))"
proof -
  define lo hi m r s where v: "lo = dwQueueRangeMin p" "hi = dwQueueRangeMax p"
    "m = dwMaxNumThreads p" "r = dwMaxNumThreadsRange p" "s = GetMsgQueueCount p + perfOverflow p"
  have le: "unat lo < unat hi" "unat m \<le> unat r" using lh mr by (simp_all add: v word_less_nat_alt word_le_nat_alt)
  have "unat ((s - lo) * (r - m) div (hi - lo) + m) = (unat s - unat lo) * (unat r - unat m) div (unat hi - unat lo) + unat m"
    if s: "lo \<le> s" "s \<le> hi"
  proof -
    have d: "unat (s - lo) = unat s - unat lo" "unat (r - m) = unat r - unat m" "unat (hi - lo) = unat hi - unat lo"
      using s mr lh by (simp_all add: v unat_sub)
    have "(unat s - unat lo) * (unat r - unat m) \<le> (unat hi - unat lo) * (unat r - unat m)"
      using s(2) by (intro mult_le_mono1) (simp add: word_le_nat_alt)
    then have "(unat s - unat lo) * (unat r - unat m) < 4294967296"
      using no unfolding v by (rule le_less_trans)
    then have "unat ((s - lo) * (r - m)) = (unat s - unat lo) * (unat r - unat m)"
      using d unat_mult_lem [of "s - lo" "r - m"] by simp
    then have q: "unat ((s - lo) * (r - m) div (hi - lo)) = (unat s - unat lo) * (unat r - unat m) div (unat hi - unat lo)"
      by (simp add: unat_div d)
    have "(unat s - unat lo) * (unat r - unat m) div (unat hi - unat lo) + unat m \<le> unat r"
      using le s(2) by (intro range_threads_inside) (auto simp: word_le_nat_alt)
    then show ?thesis
      using q unat_bound32 [of r] by (subst unat_add_no_wrap) simp_all
  qed
  moreover have "lo = 0 \<longleftrightarrow> unat lo = 0" "0 < lo \<longleftrightarrow> unat lo \<noteq> 0"
    by (simp_all add: unat_eq_zero word_neq_0_conv)
  ultimately show ?thesis using lh
    by (auto simp: real_max_threads_def Let_def range_threads_def v [symmetric] word_less_nat_alt word_le_nat_alt
        not_less split: if_splits)
qed

text \<open>The proportional limit. With a range configured (minimum below maximum queue
  size, plain below range limit) and no DWORD overflow in the product, the limit lies
  between \<open>dwMaxNumThreads\<close> and \<open>dwMaxNumThreadsRange\<close> and never falls when the queue
  grows.\<close>

theorem real_max_threads_bounds:
  fixes p :: "'m CThreadPool"
  assumes "dwQueueRangeMin p < dwQueueRangeMax p" and "dwMaxNumThreads p \<le> dwMaxNumThreadsRange p"
    and "(unat (dwQueueRangeMax p) - unat (dwQueueRangeMin p))
        * (unat (dwMaxNumThreadsRange p) - unat (dwMaxNumThreads p)) < 4294967296"
  shows "dwMaxNumThreads p \<le> real_max_threads p \<and> real_max_threads p \<le> dwMaxNumThreadsRange p
    \<and> (\<forall>q :: 'm CThreadPool. dwQueueRangeMin q = dwQueueRangeMin p \<and> dwQueueRangeMax q = dwQueueRangeMax p
          \<and> dwMaxNumThreads q = dwMaxNumThreads p \<and> dwMaxNumThreadsRange q = dwMaxNumThreadsRange p
          \<and> GetMsgQueueCount p + perfOverflow p \<le> GetMsgQueueCount q + perfOverflow q
          \<longrightarrow> real_max_threads p \<le> real_max_threads q)"
proof -
  note le = assms(1,2) [unfolded word_less_nat_alt word_le_nat_alt]
  have "real_max_threads p \<le> real_max_threads q"
    if q: "dwQueueRangeMin q = dwQueueRangeMin p" "dwQueueRangeMax q = dwQueueRangeMax p"
      "dwMaxNumThreads q = dwMaxNumThreads p" "dwMaxNumThreadsRange q = dwMaxNumThreadsRange p"
      "GetMsgQueueCount p + perfOverflow p \<le> GetMsgQueueCount q + perfOverflow q"
    for q :: "'m CThreadPool"
    using real_max_threads_nat [of q] real_max_threads_nat [OF assms] assms q
      range_threads_mono [OF le, of "unat (GetMsgQueueCount p + perfOverflow p)" "unat (GetMsgQueueCount q + perfOverflow q)"]
    by (simp add: word_le_nat_alt)
  moreover have "dwMaxNumThreads p \<le> real_max_threads p" "real_max_threads p \<le> dwMaxNumThreadsRange p"
    using range_threads_bounds [OF le] by (simp_all add: word_le_nat_alt real_max_threads_nat [OF assms])
  ultimately show ?thesis by blast
qed

theorem real_max_threads_bounds_witness:
  "real_max_threads (pool_init\<lparr> dwMaxNumThreadsRange := 40, dwQueueRangeMin := 100, dwQueueRangeMax := 200,
      perfOverflow := 150 \<rparr> :: nat CThreadPool) \<le> 40"
proof -
  let ?p = "pool_init\<lparr> dwMaxNumThreadsRange := 40, dwQueueRangeMin := 100,
      dwQueueRangeMax := 200, perfOverflow := 150 \<rparr> :: nat CThreadPool"
  have "dwQueueRangeMin ?p < dwQueueRangeMax ?p" "dwMaxNumThreads ?p \<le> dwMaxNumThreadsRange ?p"
    "(unat (dwQueueRangeMax ?p) - unat (dwQueueRangeMin ?p))
        * (unat (dwMaxNumThreadsRange ?p) - unat (dwMaxNumThreads ?p)) < 4294967296"
    by (simp_all add: pool_init_def)
  from real_max_threads_bounds [OF this] have "real_max_threads ?p \<le> dwMaxNumThreadsRange ?p" by blast
  then show ?thesis by simp
qed

text \<open>The future queue. A transfer moves exactly the entries that have come due (all of
  them when flushing) to the message queue: the others stay in the future queue in their
  order, and no message is lost or duplicated; the loop always ends.\<close>

theorem TransferFutureQueue_moves_due:
  assumes "pool_reach cmp p S C K"
  shows "FutureMsgQueue (TransferFutureQueue bFlush now tid p)
      = filter (\<lambda>e. \<not> bFlush \<and> now < ftDueTime e) (FutureMsgQueue p)
    \<and> mset (map Payload (MsgQueue (TransferFutureQueue bFlush now tid p)))
      = mset (map Payload (MsgQueue p))
        + mset (map Payload (filter (\<lambda>e. bFlush \<or> ftDueTime e \<le> now) (FutureMsgQueue p)))"
proof -
  have inv: "pool_inv p" using pool_reach_inv [OF assms] .
  let ?p = "TransferFutureQueue bFlush now tid p" and ?F = "FutureMsgQueue p"
  have f: "FutureMsgQueue ?p = filter (\<lambda>e. \<not> bFlush \<and> now < ftDueTime e) ?F" and l: "live ?p = live p"
    using transfer_ok [OF inv, of bFlush now tid]
    by (simp_all add: TransferFutureQueue_def is_due_def not_le)
  have "(\<lambda>e. \<not> (\<not> bFlush \<and> now < ftDueTime e)) = (\<lambda>e :: 'a CMsgEntry. bFlush \<or> ftDueTime e \<le> now)"
    by (auto simp: fun_eq_iff not_less)
  note split = payload_split [of ?F "\<lambda>e. \<not> bFlush \<and> now < ftDueTime e", unfolded this]
  have cancel: "a = b + e" if "a + c = b + d" "d = e + c" for a b c d e :: "'a multiset"
    using that by (simp add: add.assoc [symmetric])
  have "mset (map Payload (MsgQueue ?p)) = mset (map Payload (MsgQueue p))
      + mset (map Payload (filter (\<lambda>e. bFlush \<or> ftDueTime e \<le> now) ?F))"
    by (rule cancel [OF l [unfolded live_def f] split])
  then show ?thesis using f by blast
qed

theorem TransferFutureQueue_moves_due_witness:
  "FutureMsgQueue (TransferFutureQueue True 9 0 demo_sent) = []"
  using TransferFutureQueue_moves_due [OF demo_reach(1), of True 9 0] by simp

text \<open>\<open>SearchMessageKill\<close> removes every queued entry that matches and is not being
  processed, and nothing else; it keeps the order of the rest and reports whether there
  was one. A later search that leaves out entries being processed finds no match.\<close>

theorem SearchMessageKill_exact:
  "fst (SearchMessageKill cmp m p) = (\<exists>e \<in> set (MsgQueue p). \<not> bProcessing e \<and> cmp m (Payload e))
    \<and> MsgQueue (snd (SearchMessageKill cmp m p))
      = filter (\<lambda>e. bProcessing e \<or> \<not> cmp m (Payload e)) (MsgQueue p)
    \<and> SearchMessage cmp m False (snd (SearchMessageKill cmp m p)) = None"
  by (auto simp: SearchMessageKill_def kill_loop_filter kill_match_def SearchMessage_def find_None_iff
      intro!: filter_cong)

lemma SearchMessageKill_exact_witness:
  "MsgQueue (snd (SearchMessageKill (=) 7 demo_sent)) = []
    \<and> SearchMessage (=) 7 False (snd (SearchMessageKill (=) 7 demo_sent)) = None"
  using SearchMessageKill_exact [of "(=)" 7 demo_sent] by (simp add: demo_sent_def demo_msg_def)

text \<open>Insertion is stable. A burst of messages put into an ordered queue ends up ordered
  by priority, and the messages of each priority stand behind the queued ones of that
  priority, in the order they were sent.\<close>

theorem burst_is_stable:
  assumes "sorted_wrt (\<lambda>a b. uPriority b \<le> uPriority a) q"
  shows "sorted_wrt (\<lambda>a b. uPriority b \<le> uPriority a) (fold insert_msg burst q)
    \<and> filter (\<lambda>e. uPriority e = p) (fold insert_msg burst q)
      = filter (\<lambda>e. uPriority e = p) q @ filter (\<lambda>e. uPriority e = p) burst
    \<and> mset (fold insert_msg burst q) = mset burst + mset q"
  using msg_queue.fold_ins_sorted [OF assms] msg_queue.fold_ins_class [OF assms] msg_queue.fold_ins_mset
  by blast

theorem burst_is_stable_witness:
  "sorted_wrt (\<lambda>a b. uPriority b \<le> uPriority a) (fold insert_msg [demo_msg, demo_msg] [demo_msg])"
  using burst_is_stable [of "[demo_msg]" "[demo_msg, demo_msg]"] by simp

definition never_rewinds :: "('m \<Rightarrow> 'c \<Rightarrow> 'm found_result \<times> 'c) \<Rightarrow> bool" where
  "never_rewinds F \<longleftrightarrow> (\<forall>m c. case fst (F m c) of FoundThrows _ \<Rightarrow> True | Found _ _ r _ \<Rightarrow> \<not> r)"

lemma back_pass_safe:
  "never_rewinds F \<Longrightarrow> back_pass cmp m F q c = (res, q', c') \<Longrightarrow>
   res \<noteq> Inr True \<and> filter bProcessing q' = filter bProcessing q
   \<and> subseq (map ullUniqueID q') (map ullUniqueID q)"
proof (induction q arbitrary: c res q' c')
  case (Cons e q)
  obtain r q1 c1 where rest: "back_pass cmp m F q (snd (F (Payload e) c)) = (r, q1, c1)"
    by (metis prod_cases3)
  obtain r2 q2 c2 where skip: "back_pass cmp m F q c = (r2, q2, c2)" by (metis prod_cases3)
  show ?case
  proof (cases "\<not> bProcessing e \<and> cmp m (Payload e)")
    case False
    then show ?thesis using Cons skip by (auto simp: Let_def)
  next
    case True
    obtain f d where F: "F (Payload e) c = (f, d)" by force
    show ?thesis
    proof (cases f)
      case (FoundThrows err)
      then show ?thesis using True Cons.prems F by auto
    next
      case (Found m' bDelete bRewind bDone)
      have "\<not> bRewind" using Cons.prems(1) F Found unfolding never_rewinds_def
        by (metis fst_conv found_result.simps(6))
      then show ?thesis using True Cons.prems Cons.IH [OF Cons.prems(1) rest] F Found rest
        by (auto simp: Let_def split: if_splits)
    qed
  qed
qed auto

lemma subseq_rev: "subseq xs ys \<Longrightarrow> subseq (rev xs) (rev ys)"
  by (induction rule: list_emb.induct) (auto intro: subseq_rev_drop_many list_emb_append_mono)

text \<open>\<open>SearchMessageBackModify\<close> with a callback that does not ask to start over
  returns; whatever the callback does (change, delete, stop, throw), the entries being
  processed are left as they are and no entry is added or moved: the ids of the new
  queue are a subsequence of the old ones.\<close>

theorem SearchMessageBackModify_safe:
  assumes "never_rewinds FoundProc"
  shows "\<exists>err p' c'. SearchMessageBackModify cmp MsgFind FoundProc c p = Some (err, p', c')
    \<and> filter bProcessing (MsgQueue p') = filter bProcessing (MsgQueue p)
    \<and> subseq (map ullUniqueID (MsgQueue p')) (map ullUniqueID (MsgQueue p))"
proof -
  obtain res r c' where b: "back_pass cmp MsgFind FoundProc (rev (MsgQueue p)) c = (res, r, c')"
    by (metis prod_cases3)
  note safe = back_pass_safe [OF assms b]
  have "SearchMessageBackModify cmp MsgFind FoundProc c p
      = Some (case res of Inl err \<Rightarrow> err | Inr _ \<Rightarrow> 0, set_queue_perf (rev r) p, c')"
    using safe by (subst SearchMessageBackModify.simps) (auto simp: b Let_def split: sum.splits)
  moreover have "MsgQueue (set_queue_perf (rev r) p) = rev r" by (simp add: set_queue_perf_def Let_def)
  moreover have "filter bProcessing (rev r) = filter bProcessing (MsgQueue p)"
    using safe by (metis rev_filter rev_rev_ident)
  moreover have "subseq (map ullUniqueID (rev r)) (map ullUniqueID (MsgQueue p))"
    using subseq_rev [of "map ullUniqueID r" "map ullUniqueID (rev (MsgQueue p))"] safe
    by (simp add: rev_map [symmetric])
  ultimately show ?thesis by auto
qed

theorem SearchMessageBackModify_safe_witness:
  "filter bProcessing (MsgQueue (fst (snd (the (SearchMessageBackModify (=) 7
      (\<lambda>m c. (Found m True False False, c + 1)) (0::nat) demo_taken))))) = [demo_msg\<lparr> bProcessing := True \<rparr>]"
proof -
  have "never_rewinds (\<lambda>m c. (Found m True False False, (c::nat) + 1))" by (simp add: never_rewinds_def)
  from SearchMessageBackModify_safe [OF this, of "(=)" "7::nat" 0 demo_taken]
  show ?thesis by (auto simp: demo_taken_def)
qed

end
