(* ===== verification/Failover.thy ===== *)
theory Failover
  imports S3Errors
begin

text \<open>
  Request retries and failover between the addresses of a host (ECSConnection.cpp,
  GetCurrentServerIP to SendRequest): the process-wide map of bad addresses, the load
  balancing index, and the retry loop. One HTTP exchange (\<open>SendRequestInternal\<close>), the
  clock and the date formats are parameters; the header requests of the caller are a
  value of any type that an exchange may change. FILETIME sums are 64-bit.
\<close>

section \<open>State\<close>

type_synonym headers = "string \<Rightarrow> (string \<times> string) option"

record ecs_conn =
  sHost :: string
  IPListHost :: "string list"
  IPListLocal :: "string list"
  iIPList :: nat
  Headers :: headers
  dwBadIPAddrAge :: DWORD
  dwMaxRetryCount :: DWORD
  dwPauseBetweenRetries :: DWORD
  dwPauseAfter500Error :: DWORD
  bInitialized :: bool
  bTestConnection :: bool
  DisconnectCB :: bool
  BadIPMap :: "string \<times> string \<Rightarrow> (FILETIME \<times> S3_ERROR) option"
  LoadBalMap :: "string \<Rightarrow> nat option"

text \<open>What version 4 signing adds to the headers of a request: nothing without it, the hash of
  the body, or the marks of a chunked stream with the length of its data.\<close>

datatype v4_payload = NotV4 | V4_signed string | V4_chunked string

text \<open>What the request uses of the system: the clock, one exchange with the server at an
  address, the two date formats of the headers, and WINHTTP_ERROR_LAST of the SDK; and what
  its arguments fix for every attempt: the port text behind the address in the host header,
  the length text of the data it sends (with a flag whether the generic content type is
  wanted, too) and the marks of version 4.\<close>

record ('h, 'w) ecs_env =
  env_clock :: "'w \<Rightarrow> FILETIME \<times> 'w"
  env_send :: "string \<Rightarrow> headers \<Rightarrow> 'h \<Rightarrow> 'w \<Rightarrow> (S3_ERROR \<times> bool \<times> 'h) \<times> 'w"
  env_canonical :: "FILETIME \<Rightarrow> string"
  env_iso8601 :: "FILETIME \<Rightarrow> string"
  env_winhttp_last :: DWORD
  env_host_port :: string
  env_content :: "(string \<times> bool) option"
  env_payload :: v4_payload

definition MaxRetryCount :: DWORD where "MaxRetryCount = 5"

definition SetRetries :: "DWORD \<Rightarrow> DWORD \<Rightarrow> DWORD \<Rightarrow> ecs_conn \<Rightarrow> ecs_conn" where
  "SetRetries cnt pause pause500 c =
     c\<lparr> dwMaxRetryCount := (if cnt = 0 then MaxRetryCount else cnt),
        dwPauseBetweenRetries := pause, dwPauseAfter500Error := pause500 \<rparr>"

definition SetIPList :: "string list \<Rightarrow> ecs_conn \<Rightarrow> ecs_conn" where
  "SetIPList ips c = (if IPListHost c \<noteq> ips then c\<lparr> IPListHost := ips, iIPList := 0 \<rparr> else c)"

section \<open>Headers\<close>

definition is_space_ascii :: "char \<Rightarrow> bool" where
  "is_space_ascii ch \<longleftrightarrow> char_code ch = 32 \<or> (9 \<le> char_code ch \<and> char_code ch \<le> 13)"

definition TrimLeft :: "string \<Rightarrow> string" where "TrimLeft s = dropWhile is_space_ascii s"

definition TrimRight :: "string \<Rightarrow> string" where "TrimRight s = rev (dropWhile is_space_ascii (rev s))"

text \<open>The map is keyed by the lower case label; an existing header is replaced only
  when \<open>bOverride\<close> is set.\<close>

definition AddHeader :: "string \<Rightarrow> string \<Rightarrow> bool \<Rightarrow> headers \<Rightarrow> headers" where
  "AddHeader pszHeaderLabel pszHeaderText bOverride hs =
     (let sHeaderLabel = TrimRight (TrimLeft pszHeaderLabel); k = lower_str sHeaderLabel in
      if hs k \<noteq> None \<and> \<not> bOverride then hs else hs(k \<mapsto> (sHeaderLabel, pszHeaderText)))"

text \<open>The headers \<open>SendRequestInternal\<close> sends to the address \<open>ip\<close>, and leaves in the connection:
  the host header is fixed up if there is one, length and type of the data are added, and what
  version 4 signing needs.\<close>

definition exchange_headers :: "('h, 'w) ecs_env \<Rightarrow> string \<Rightarrow> headers \<Rightarrow> headers" where
  "exchange_headers env ip hs =
     (let h1 = (case hs ''host'' of None \<Rightarrow> hs
                  | Some (sHeader, _) \<Rightarrow> hs(''host'' \<mapsto> (sHeader, ip @ env_host_port env)));
          h2 = (case env_content env of None \<Rightarrow> h1
                  | Some (len, generic) \<Rightarrow>
                      (let h = AddHeader ''content-length'' len True h1 in
                       if generic then AddHeader ''content-type'' ''application/octet-stream'' False h else h)) in
      case env_payload env of
        NotV4 \<Rightarrow> h2
      | V4_signed h \<Rightarrow> AddHeader ''x-amz-content-sha256'' h True h2
      | V4_chunked n \<Rightarrow> AddHeader ''x-amz-content-sha256'' ''STREAMING-AWS4-HMAC-SHA256-PAYLOAD'' True
          (AddHeader ''content-encoding'' ''aws-chunked'' True
             (AddHeader ''x-amz-decoded-content-length'' n True h2)))"

section \<open>Choosing an address\<close>

definition GetCurrentServerIP :: "ecs_conn \<Rightarrow> string \<times> ecs_conn" where
  "GetCurrentServerIP c =
     (if IPListLocal c = [] then (''?'', c)
      else let k = (if iIPList c \<ge> length (IPListLocal c) then 0 else iIPList c) in
           (IPListLocal c ! k, c\<lparr> iIPList := k \<rparr>))"

definition InitHeader :: "('h, 'w) ecs_env \<Rightarrow> bool \<Rightarrow> FILETIME \<Rightarrow> ecs_conn \<Rightarrow> ecs_conn" where
  "InitHeader env bS3v4 stNow c =
     (let (ip, c1) = GetCurrentServerIP c;
          hs = AddHeader ''host'' ip True (\<lambda>_. None) in
      c1\<lparr> Headers := (if \<not> bS3v4 then AddHeader ''date'' (env_canonical env stNow) True hs
                      else AddHeader ''x-amz-date'' (env_iso8601 env stNow) True hs) \<rparr>)"

definition expire_bad :: "FILETIME \<Rightarrow> FILETIME \<Rightarrow> ecs_conn \<Rightarrow> ecs_conn" where
  "expire_bad ftNow liBadIPAge c = c\<lparr> BadIPMap := (\<lambda>k. case BadIPMap c k of
      None \<Rightarrow> None
    | Some (ftError, e) \<Rightarrow> if ftNow > ftError + liBadIPAge then None else Some (ftError, e)) \<rparr>"

text \<open>The loop over the addresses from the current one: at most as many steps as there
  are addresses, past the bad ones.\<close>

fun scan_ips :: "(string \<Rightarrow> bool) \<Rightarrow> string list \<Rightarrow> nat \<Rightarrow> nat \<Rightarrow> bool \<times> nat" where
  "scan_ips bad ips 0 k = (False, k)"
| "scan_ips bad ips (Suc n) k =
     (let k' = (if k \<ge> length ips then 0 else k) in
      if bad (ips ! k') then scan_ips bad ips n (Suc k') else (True, k'))"

definition is_bad :: "ecs_conn \<Rightarrow> string \<Rightarrow> bool" where
  "is_bad c ip \<longleftrightarrow> BadIPMap c (sHost c, ip) \<noteq> None"

definition GetNextECSIP :: "FILETIME \<Rightarrow> ecs_conn \<Rightarrow> bool \<times> ecs_conn" where
  "GetNextECSIP ftNow c0 =
     (let c = c0\<lparr> dwBadIPAddrAge := (if dwBadIPAddrAge c0 = 0 then 720000 else dwBadIPAddrAge c0) \<rparr> in
      if IPListLocal c = [] then (False, c)
      else
        let c1 = expire_bad ftNow (ucast (dwBadIPAddrAge c) * 10000) c;
            n = (case LoadBalMap c1 (sHost c1) of None \<Rightarrow> 0 | Some k \<Rightarrow> k);
            n' = (if Suc n \<ge> length (IPListLocal c1) then 0 else Suc n);
            (found, k) = scan_ips (is_bad c1) (IPListLocal c1) (length (IPListLocal c1)) n' in
        (found, c1\<lparr> iIPList := k, LoadBalMap := (LoadBalMap c1)(sHost c1 \<mapsto> k) \<rparr>))"

text \<open>When every address of the host is bad, all entries of the host are removed.\<close>

definition TestAllIPBad :: "ecs_conn \<Rightarrow> ecs_conn" where
  "TestAllIPBad c =
     (if filter (\<lambda>ip. \<not> is_bad c ip) (IPListLocal c) = []
      then c\<lparr> BadIPMap := (\<lambda>k. if fst k = sHost c then None else BadIPMap c k) \<rparr> else c)"

definition LogBadIPAddr :: "FILETIME \<Rightarrow> (string \<Rightarrow> S3_ERROR option) \<Rightarrow> ecs_conn \<Rightarrow> ecs_conn" where
  "LogBadIPAddr ftNow IPUsed c =
     (if bTestConnection c then c
      else TestAllIPBad (c\<lparr> BadIPMap := (\<lambda>(h, ip).
             if h = sHost c \<and> IPUsed ip \<noteq> None then Some (ftNow, the (IPUsed ip)) else BadIPMap c (h, ip)) \<rparr>))"

definition IfMarkIPBad :: "DWORD \<Rightarrow> DWORD \<Rightarrow> bool" where
  "IfMarkIPBad winhttp_last e \<longleftrightarrow> e \<ge> 12000 \<and> e \<le> winhttp_last \<and> e \<noteq> 12017 \<and> e \<noteq> 12152"

section \<open>The retry loop\<close>

text \<open>What happens on the way, in order: exchanges, pauses and the disconnect callback.\<close>

datatype 'h net_event = Sent string headers 'h | Slept DWORD | Disconnected S3_ERROR

record ('h, 'w) request =
  rq_conn :: ecs_conn
  rq_hdr :: 'h
  rq_used :: "string \<Rightarrow> S3_ERROR option"
  rq_world :: 'w
  rq_trace :: "'h net_event list"

definition rq_time :: "('h, 'w) ecs_env \<Rightarrow> ('h, 'w) request \<Rightarrow> FILETIME \<times> ('h, 'w) request" where
  "rq_time env r = (let (t, w) = env_clock env (rq_world r) in (t, r\<lparr> rq_world := w \<rparr>))"

definition rq_next_ip :: "('h, 'w) ecs_env \<Rightarrow> ('h, 'w) request \<Rightarrow> bool \<times> ('h, 'w) request" where
  "rq_next_ip env r = (let (t, r1) = rq_time env r; (ok, c) = GetNextECSIP t (rq_conn r1) in
     (ok, r1\<lparr> rq_conn := c \<rparr>))"

definition rq_log_bad :: "('h, 'w) ecs_env \<Rightarrow> ('h, 'w) request \<Rightarrow> ('h, 'w) request" where
  "rq_log_bad env r = (let (t, r1) = rq_time env r in
     r1\<lparr> rq_conn := LogBadIPAddr t (rq_used r1) (rq_conn r1) \<rparr>)"

definition refresh_dates :: "('h, 'w) ecs_env \<Rightarrow> FILETIME \<Rightarrow> headers \<Rightarrow> headers" where
  "refresh_dates env stNow hs =
     (let h1 = (if hs ''date'' \<noteq> None then AddHeader ''date'' (env_canonical env stNow) True hs else hs) in
      if h1 ''x-amz-date'' \<noteq> None then AddHeader ''x-amz-date'' (env_iso8601 env stNow) True h1 else h1)"

text \<open>One exchange, with the headers as they go out; they stay in the connection. Assigning the
  result applies \<open>SetError\<close>.\<close>

definition rq_send :: "('h, 'w) ecs_env \<Rightarrow> ('h, 'w) request \<Rightarrow> S3_ERROR \<times> bool \<times> ('h, 'w) request" where
  "rq_send env r0 =
     (let (stNow, r) = rq_time env r0;
          (ip, c) = GetCurrentServerIP (rq_conn r);
          hs = exchange_headers env ip (refresh_dates env stNow (Headers (rq_conn r)));
          ((e, got, hdr), w) = env_send env ip hs (rq_hdr r) (rq_world r) in
      (SetError e, got, r\<lparr> rq_conn := c\<lparr> Headers := hs \<rparr>, rq_hdr := hdr, rq_world := w,
                           rq_trace := rq_trace r @ [Sent ip hs (rq_hdr r)] \<rparr>))"

datatype attempt_result =
    RET S3_ERROR            \<comment> \<open>return Error\<close>
  | THROW S3_ERROR bool     \<comment> \<open>the error and whether the server answered\<close>
  | LEAVE S3_ERROR          \<comment> \<open>break\<close>
  | AGAIN S3_ERROR

text \<open>What follows a failed exchange: no retry for streams, when the server was reached, after
  repeated timeouts or when aborted; otherwise the address is noted and the next one chosen.\<close>

definition after_failure ::
  "('h, 'w) ecs_env \<Rightarrow> bool \<Rightarrow> 'h \<Rightarrow> nat \<Rightarrow> bool \<Rightarrow> S3_ERROR \<Rightarrow> ('h, 'w) request
   \<Rightarrow> attempt_result \<times> ('h, 'w) request" where
  "after_failure env bStream SaveHeaderReq i got e r =
     (if bStream then (THROW e got, r)
      else if dwHttpError e < 500 \<and> (got \<or> dwError e = 12175) then (THROW e got, r)
      else if dwError e = 12002 \<and> i > 1 then (THROW e got, r)
      else if (\<not> bInitialized (rq_conn r) \<or> bTestConnection (rq_conn r)) \<and> dwError e = 12002
      then (THROW e got, r)
      else if dwError e = 995 then (RET e, r)
      else
        let (ip, c) = GetCurrentServerIP (rq_conn r);
            r1 = (if IfMarkIPBad (env_winhttp_last env) (dwError e)
                  then r\<lparr> rq_conn := c, rq_used := map_insert ip e (rq_used r) \<rparr> else r);
            (ok, r2) = rq_next_ip env r1 in
        if \<not> ok then (LEAVE e, r2)
        else (AGAIN e, r2\<lparr> rq_hdr := SaveHeaderReq,
                rq_trace := rq_trace r2 @ [Slept (if dwHttpError e = 500
                   then dwPauseAfter500Error (rq_conn r2) else dwPauseBetweenRetries (rq_conn r2))] \<rparr>))"

text \<open>The body of the loop, for attempt \<open>i\<close>.\<close>

definition attempt ::
  "('h, 'w) ecs_env \<Rightarrow> bool \<Rightarrow> 'h \<Rightarrow> nat \<Rightarrow> ('h, 'w) request \<Rightarrow> attempt_result \<times> ('h, 'w) request" where
  "attempt env bStream SaveHeaderReq i r0 =
     (let (e, got, r) = rq_send env r0 in
      if \<not> IfError e then
        (if got \<and> (dwHttpError e = 0 \<or> dwHttpError e \<ge> 200 \<and> dwHttpError e < 300)
         then (RET e, if rq_used r \<noteq> (\<lambda>_. None) then rq_log_bad env r else r)
         else after_failure env bStream SaveHeaderReq i got
                (if \<not> got then e\<lparr> dwError := 1232 \<rparr> else e\<lparr> dwError := HTTP_E_STATUS_UNEXPECTED \<rparr>) r)
      else after_failure env bStream SaveHeaderReq i got e r)"

text \<open>\<open>n\<close> attempts are left. The result is the error of the last one.\<close>

fun send_loop ::
  "('h, 'w) ecs_env \<Rightarrow> bool \<Rightarrow> 'h \<Rightarrow> nat \<Rightarrow> nat \<Rightarrow> S3_ERROR \<Rightarrow> ('h, 'w) request
   \<Rightarrow> attempt_result \<times> ('h, 'w) request" where
  "send_loop env bStream sv 0 i e r = (LEAVE e, r)"
| "send_loop env bStream sv (Suc n) i e r =
     (case attempt env bStream sv i r of
        (AGAIN e', r') \<Rightarrow> send_loop env bStream sv n (Suc i) e' r'
      | res \<Rightarrow> res)"

definition disconnect_wanted :: "ecs_conn \<Rightarrow> S3_ERROR \<Rightarrow> bool \<Rightarrow> bool" where
  "disconnect_wanted c e got \<longleftrightarrow>
     IfError e \<and> DisconnectCB c \<and> \<not> bTestConnection c
     \<and> (\<not> got \<or> S3Error e = S3_ERROR_InvalidAccessKeyId \<or> S3Error e = S3_ERROR_RequestTimeTooSkewed)
     \<and> dwError e \<noteq> 995 \<and> dwError e \<noteq> 12152 \<and> dwError e \<noteq> 12030"

text \<open>The exception handler and the tail after it.\<close>

definition send_tail ::
  "('h, 'w) ecs_env \<Rightarrow> attempt_result \<Rightarrow> ('h, 'w) request \<Rightarrow> S3_ERROR \<times> ('h, 'w) request" where
  "send_tail env res r =
     (let tail = (\<lambda>e r. (e, if \<not> IfError e \<and> rq_used r \<noteq> (\<lambda>_. None) then rq_log_bad env r else r)) in
      case res of
        RET e \<Rightarrow> (e, r)
      | THROW e got \<Rightarrow>
          tail e (if disconnect_wanted (rq_conn r) e got
                  then r\<lparr> rq_trace := rq_trace r @ [Disconnected e] \<rparr> else r)
      | LEAVE e \<Rightarrow> tail e r
      | AGAIN e \<Rightarrow> tail e r)"

definition SEC_E_NO_IP_ADDRESSES :: DWORD where "SEC_E_NO_IP_ADDRESSES = 0x80090335"

definition SendRequest ::
  "('h, 'w) ecs_env \<Rightarrow> bool \<Rightarrow> 'h \<Rightarrow> ecs_conn \<Rightarrow> 'w \<Rightarrow> S3_ERROR \<times> ('h, 'w) request" where
  "SendRequest env bStream hdr c w =
     (let r0 = \<lparr> rq_conn = c\<lparr> IPListLocal := IPListHost c \<rparr>, rq_hdr = hdr, rq_used = (\<lambda>_. None),
                 rq_world = w, rq_trace = [] \<rparr>;
          (ok1, r1) = rq_next_ip env r0;
          (ok, r2) = (if ok1 then (True, r1)
                      else rq_next_ip env (r1\<lparr> rq_conn := TestAllIPBad (rq_conn r1) \<rparr>)) in
      if \<not> ok then send_tail env (THROW (S3_ERROR_new SEC_E_NO_IP_ADDRESSES) False) r2
      else
        let c2 = rq_conn r2;
            c3 = (if bTestConnection c2 then c2\<lparr> dwMaxRetryCount := min 2 (dwMaxRetryCount c2) \<rparr> else c2);
            (res, r3) = send_loop env bStream hdr (unat (dwMaxRetryCount c3)) 0 (S3_ERROR_new 0)
                          (r2\<lparr> rq_conn := c3 \<rparr>) in
        send_tail env res r3)"

section \<open>Lemmas\<close>

lemma GetCurrentServerIP_mem: "IPListLocal c \<noteq> [] \<Longrightarrow> fst (GetCurrentServerIP c) \<in> set (IPListLocal c)"
  by (simp add: GetCurrentServerIP_def Let_def)

lemma scan_ips_sound:
  "scan_ips bad ips n k = (True, k') \<Longrightarrow> ips \<noteq> [] \<Longrightarrow> k' < length ips \<and> \<not> bad (ips ! k')"
  by (induction bad ips n k rule: scan_ips.induct) (auto simp: Let_def split: if_splits)

text \<open>A failed scan has looked at \<open>n\<close> consecutive addresses, cyclically.\<close>

lemma scan_ips_all:
  "scan_ips bad ips n k = (False, k') \<Longrightarrow> ips \<noteq> [] \<Longrightarrow> k \<le> length ips \<Longrightarrow> j < n
    \<Longrightarrow> bad (ips ! ((k + j) mod length ips))"
proof (induction bad ips n k arbitrary: j rule: scan_ips.induct)
  case (2 bad ips n k)
  define k1 where "k1 = (if k \<ge> length ips then 0 else k)"
  have k1: "k1 = k mod length ips" "k1 < length ips" using "2.prems"(2,3) by (auto simp: k1_def)
  have b: "bad (ips ! k1)" "scan_ips bad ips n (Suc k1) = (False, k')"
    using "2.prems"(1) by (auto simp: k1_def Let_def split: if_splits)
  show ?case
  proof (cases j)
    case 0
    then show ?thesis using b k1 by simp
  next
    case (Suc j')
    have "bad (ips ! ((Suc k1 + j') mod length ips))"
      using "2.IH" [OF k1_def b(1,2)] "2.prems"(2,4) k1(2) Suc by simp
    moreover have "(Suc k1 + j') mod length ips = (k + j) mod length ips"
      unfolding k1(1) Suc by (metis add_Suc_right add_Suc mod_add_left_eq)
    ultimately show ?thesis by simp
  qed
qed simp

lemma scan_ips_complete:
  assumes "scan_ips bad ips (length ips) k = (False, k')" "ips \<noteq> []" "k < length ips" "ip \<in> set ips"
  shows "bad ip"
proof -
  obtain m where m: "m < length ips" "ips ! m = ip" using assms(4) by (auto simp: in_set_conv_nth)
  define j where "j = (if k \<le> m then m - k else m + length ips - k)"
  have "j < length ips" "(k + j) mod length ips = m" using m(1) assms(3) by (auto simp: j_def)
  then show ?thesis using scan_ips_all [OF assms(1,2), of j] assms(3) m(2) by simp
qed

text \<open>What no step of a request changes.\<close>

definition same_conn :: "ecs_conn \<Rightarrow> ecs_conn \<Rightarrow> bool" where
  "same_conn c c' \<longleftrightarrow> sHost c' = sHost c \<and> IPListHost c' = IPListHost c \<and> IPListLocal c' = IPListLocal c
     \<and> bTestConnection c' = bTestConnection c \<and> bInitialized c' = bInitialized c
     \<and> dwMaxRetryCount c' = dwMaxRetryCount c \<and> DisconnectCB c' = DisconnectCB c"

lemma same_conn_refl [simp]: "same_conn c c"
  by (simp add: same_conn_def)

lemma same_conn_trans: "same_conn a b \<Longrightarrow> same_conn b c \<Longrightarrow> same_conn a c"
  by (simp add: same_conn_def)

lemma GetCurrentServerIP_same: "same_conn c (snd (GetCurrentServerIP c))"
  by (simp add: GetCurrentServerIP_def same_conn_def Let_def)

lemma GetNextECSIP_same: "same_conn c (snd (GetNextECSIP t c))"
  by (simp add: GetNextECSIP_def same_conn_def Let_def expire_bad_def split: prod.split)

lemma TestAllIPBad_same: "same_conn c (TestAllIPBad c)"
  by (simp add: TestAllIPBad_def same_conn_def)

lemma LogBadIPAddr_same: "same_conn c (LogBadIPAddr t u c)"
  by (simp add: LogBadIPAddr_def TestAllIPBad_def same_conn_def)

lemma rq_next_ip_step:
  "rq_next_ip env r = (ok, r') \<Longrightarrow> same_conn (rq_conn r) (rq_conn r') \<and> rq_trace r' = rq_trace r
    \<and> rq_hdr r' = rq_hdr r \<and> rq_used r' = rq_used r \<and> (\<exists>t. (ok, rq_conn r') = GetNextECSIP t (rq_conn r))"
  using GetNextECSIP_same [of "rq_conn r"]
  by (auto simp: rq_next_ip_def rq_time_def Let_def split: prod.splits) (metis snd_conv, metis)

lemma rq_log_bad_step:
  "same_conn (rq_conn r) (rq_conn (rq_log_bad env r)) \<and> rq_trace (rq_log_bad env r) = rq_trace r
    \<and> (\<exists>t. rq_conn (rq_log_bad env r) = LogBadIPAddr t (rq_used r) (rq_conn r))"
  using LogBadIPAddr_same by (auto simp: rq_log_bad_def rq_time_def Let_def split: prod.splits)

text \<open>One exchange is one \<open>Sent\<close> event, to a listed address, with the caller's headers.\<close>

lemma rq_send_step:
  assumes "rq_send env r = (e, got, r')" "IPListLocal (rq_conn r) \<noteq> []"
  shows "same_conn (rq_conn r) (rq_conn r') \<and> rq_used r' = rq_used r
    \<and> BadIPMap (rq_conn r') = BadIPMap (rq_conn r)
    \<and> (\<exists>ip hs w e0 w'. ip \<in> set (IPListLocal (rq_conn r)) \<and> rq_trace r' = rq_trace r @ [Sent ip hs (rq_hdr r)]
        \<and> env_send env ip hs (rq_hdr r) w = ((e0, got, rq_hdr r'), w') \<and> e = SetError e0)"
proof -
  obtain t w1 where t: "env_clock env (rq_world r) = (t, w1)" by force
  obtain ip c where c: "GetCurrentServerIP (rq_conn r) = (ip, c)" by force
  let ?hs = "exchange_headers env ip (refresh_dates env t (Headers (rq_conn r)))"
  obtain e0 g hdr w2 where s: "env_send env ip ?hs (rq_hdr r) w1 = ((e0, g, hdr), w2)" by (metis prod_cases4 surj_pair)
  have "same_conn (rq_conn r) c" "ip \<in> set (IPListLocal (rq_conn r))" "BadIPMap c = BadIPMap (rq_conn r)"
    using GetCurrentServerIP_same [of "rq_conn r"] GetCurrentServerIP_mem [OF assms(2)] c
    by (auto simp: GetCurrentServerIP_def Let_def split: if_splits)
  moreover have "e = SetError e0" "got = g" "r' = r\<lparr> rq_world := w2, rq_conn := c\<lparr> Headers := ?hs \<rparr>, rq_hdr := hdr,
      rq_trace := rq_trace r @ [Sent ip ?hs (rq_hdr r)] \<rparr>"
    using assms(1) t c s by (auto simp: rq_send_def rq_time_def Let_def)
  ultimately show ?thesis using s
    by (intro conjI exI [of _ ip] exI [of _ ?hs] exI [of _ w1] exI [of _ e0] exI [of _ w2])
      (auto simp: same_conn_def)
qed

definition is_AGAIN :: "attempt_result \<Rightarrow> bool" where
  "is_AGAIN x \<longleftrightarrow> (case x of AGAIN _ \<Rightarrow> True | _ \<Rightarrow> False)"

fun result_error :: "attempt_result \<Rightarrow> S3_ERROR" where
  "result_error (RET e) = e"
| "result_error (THROW e g) = e"
| "result_error (LEAVE e) = e"
| "result_error (AGAIN e) = e"

text \<open>An answer that counts as success.\<close>

definition answered_ok :: "('h, 'w) ecs_env \<Rightarrow> S3_ERROR \<Rightarrow> bool" where
  "answered_ok env e \<longleftrightarrow> (\<exists>ip hs h w e0 h' w'. env_send env ip hs h w = ((e0, True, h'), w') \<and> e = SetError e0
     \<and> (dwHttpError e = 0 \<or> 200 \<le> dwHttpError e \<and> dwHttpError e < 300))"

definition bad_le :: "ecs_conn \<Rightarrow> ecs_conn \<Rightarrow> bool" where
  "bad_le c' c \<longleftrightarrow> (\<forall>k v. BadIPMap c' k = Some v \<longrightarrow> BadIPMap c k = Some v)"

lemma bad_le_refl [simp]: "bad_le c c" by (simp add: bad_le_def)

lemma bad_le_trans: "bad_le a b \<Longrightarrow> bad_le b c \<Longrightarrow> bad_le a c" by (simp add: bad_le_def)

lemma GetNextECSIP_bad_le: "bad_le (snd (GetNextECSIP t c)) c"
  by (auto simp: GetNextECSIP_def bad_le_def Let_def expire_bad_def split: prod.split option.splits if_splits)

lemma TestAllIPBad_bad_le: "bad_le (TestAllIPBad c) c"
  by (auto simp: TestAllIPBad_def bad_le_def split: if_splits)

lemma after_failure_step:
  assumes a: "after_failure env bStream sv i got e r = (res, r')"
  shows "same_conn (rq_conn r) (rq_conn r') \<and> bad_le (rq_conn r') (rq_conn r)
    \<and> (rq_trace r' = rq_trace r \<or> (\<exists>n. rq_trace r' = rq_trace r @ [Slept n]))
    \<and> (is_AGAIN res \<longrightarrow> rq_hdr r' = sv \<and> \<not> bStream) \<and> result_error res = e"
proof -
  obtain ip c where c: "GetCurrentServerIP (rq_conn r) = (ip, c)" by force
  define r1 where "r1 = (if IfMarkIPBad (env_winhttp_last env) (dwError e)
                  then r\<lparr> rq_conn := c, rq_used := map_insert ip e (rq_used r) \<rparr> else r)"
  obtain ok r2 where n: "rq_next_ip env r1 = (ok, r2)" by force
  have 1: "same_conn (rq_conn r) (rq_conn r1)" "bad_le (rq_conn r1) (rq_conn r)" "rq_trace r1 = rq_trace r"
    using GetCurrentServerIP_same [of "rq_conn r"] c
    by (auto simp: r1_def GetCurrentServerIP_def bad_le_def Let_def split: if_splits)
  have "same_conn (rq_conn r1) (rq_conn r2)" "bad_le (rq_conn r2) (rq_conn r1)" "rq_trace r2 = rq_trace r1"
    using rq_next_ip_step [OF n] GetNextECSIP_bad_le by (metis snd_conv)+
  then have 2: "same_conn (rq_conn r) (rq_conn r2)" "bad_le (rq_conn r2) (rq_conn r)" "rq_trace r2 = rq_trace r"
    using 1 same_conn_trans bad_le_trans by metis+
  have "(res = THROW e got \<or> res = RET e) \<and> r' = r \<or> res = LEAVE e \<and> r' = r2
      \<or> (\<exists>k. res = AGAIN e \<and> \<not> bStream \<and> r' = r2\<lparr> rq_hdr := sv, rq_trace := rq_trace r2 @ [Slept k] \<rparr>)"
    using a unfolding after_failure_def c Let_def prod.case r1_def [symmetric] n
    by (auto split: if_splits)
  then show ?thesis using 2 by (auto simp: is_AGAIN_def)
qed

lemma attempt_step:
  assumes a: "attempt env bStream sv i r = (res, r')" and ips: "IPListLocal (rq_conn r) \<noteq> []"
  shows "same_conn (rq_conn r) (rq_conn r')
    \<and> (\<exists>ip hs. ip \<in> set (IPListLocal (rq_conn r)) \<and>
         (rq_trace r' = rq_trace r @ [Sent ip hs (rq_hdr r)] \<or>
          (\<exists>n. rq_trace r' = rq_trace r @ [Sent ip hs (rq_hdr r), Slept n])))
    \<and> (is_AGAIN res \<longrightarrow> rq_hdr r' = sv \<and> \<not> bStream)
    \<and> (\<not> IfError (result_error res) \<longrightarrow> answered_ok env (result_error res))
    \<and> (bTestConnection (rq_conn r) \<longrightarrow> bad_le (rq_conn r') (rq_conn r))"
proof -
  obtain e got r1 where s: "rq_send env r = (e, got, r1)" by (metis prod_cases3)
  note st = rq_send_step [OF s ips]
  obtain ip hs where ev: "ip \<in> set (IPListLocal (rq_conn r))" "rq_trace r1 = rq_trace r @ [Sent ip hs (rq_hdr r)]"
    using st by blast
  have b1: "bad_le (rq_conn r1) (rq_conn r)" using st by (simp add: bad_le_def)
  have errs: "IfError (e\<lparr> dwError := 1232 \<rparr>)" "IfError (e\<lparr> dwError := HTTP_E_STATUS_UNEXPECTED \<rparr>)"
    by (simp_all add: IfError_def HTTP_E_STATUS_UNEXPECTED_def)
  define ok where "ok \<longleftrightarrow> \<not> IfError e \<and> got \<and> (dwHttpError e = 0 \<or> dwHttpError e \<ge> 200 \<and> dwHttpError e < 300)"
  define e1 where "e1 = (if IfError e then e else if \<not> got then e\<lparr> dwError := 1232 \<rparr>
      else e\<lparr> dwError := HTTP_E_STATUS_UNEXPECTED \<rparr>)"
  have err: "IfError e1" using errs by (simp add: e1_def)
  have "attempt env bStream sv i r =
      (if ok then (RET e, if rq_used r1 \<noteq> (\<lambda>_. None) then rq_log_bad env r1 else r1)
       else after_failure env bStream sv i got e1 r1)"
    by (auto simp: attempt_def s ok_def e1_def)
  then consider (good) "ok" "res = RET e" "r' = (if rq_used r1 \<noteq> (\<lambda>_. None) then rq_log_bad env r1 else r1)"
    | (bad) "after_failure env bStream sv i got e1 r1 = (res, r')"
    using a by (cases ok) auto
  then show ?thesis
  proof cases
    case good
    have ok: "answered_ok env e" using st good(1) unfolding ok_def answered_ok_def by metis
    have le: "bTestConnection (rq_conn r) \<longrightarrow> bad_le (rq_conn r') (rq_conn r)"
      using rq_log_bad_step [of r1 env] st good by (auto simp: LogBadIPAddr_def bad_le_def same_conn_def)
    have "same_conn (rq_conn r) (rq_conn r')" "rq_trace r' = rq_trace r1"
      using rq_log_bad_step [of r1 env] st good same_conn_trans by (auto split: if_splits)
    then show ?thesis using ev ok le good(2) by (auto simp: is_AGAIN_def)
  next
    case bad
    note f = after_failure_step [OF bad]
    have "same_conn (rq_conn r) (rq_conn r')" "bad_le (rq_conn r') (rq_conn r)"
      using f st b1 same_conn_trans bad_le_trans by blast+
    then show ?thesis using f ev err by auto
  qed
qed

text \<open>The exchanges of a trace: address and caller's headers.\<close>

fun sent :: "'h net_event list \<Rightarrow> (string \<times> 'h) list" where
  "sent [] = []"
| "sent (Sent ip hs h # es) = (ip, h) # sent es"
| "sent (_ # es) = sent es"

lemma sent_append [simp]: "sent (a @ b) = sent a @ sent b"
  by (induction a rule: sent.induct) auto

definition answer_ok_or_error :: "('h, 'w) ecs_env \<Rightarrow> S3_ERROR \<Rightarrow> bool" where
  "answer_ok_or_error env e \<longleftrightarrow> IfError e \<or> answered_ok env e"

lemma send_loop_step:
  assumes "send_loop env bStream sv n i e r = (res, r')" "IPListLocal (rq_conn r) \<noteq> []" "rq_hdr r = sv"
    and "0 < n \<or> answer_ok_or_error env e"
  shows "same_conn (rq_conn r) (rq_conn r')
    \<and> (\<exists>xs. sent (rq_trace r') = sent (rq_trace r) @ xs \<and> length xs \<le> n \<and> (0 < n \<longrightarrow> xs \<noteq> [])
         \<and> (bStream \<longrightarrow> length xs \<le> 1) \<and> (\<forall>(ip, h) \<in> set xs. ip \<in> set (IPListLocal (rq_conn r)) \<and> h = sv))
    \<and> answer_ok_or_error env (result_error res)
    \<and> (bTestConnection (rq_conn r) \<longrightarrow> bad_le (rq_conn r') (rq_conn r))"
  using assms
proof (induction env bStream sv n i e r rule: send_loop.induct)
  case (2 env bStream sv n i e r)
  obtain res1 r1 where a: "attempt env bStream sv i r = (res1, r1)" by force
  note st = attempt_step [OF a "2.prems"(2)]
  have ok: "answer_ok_or_error env (result_error res1)" using st by (auto simp: answer_ok_or_error_def)
  obtain ip hs where ev: "ip \<in> set (IPListLocal (rq_conn r))"
      "rq_trace r1 = rq_trace r @ [Sent ip hs (rq_hdr r)] \<or>
       (\<exists>n. rq_trace r1 = rq_trace r @ [Sent ip hs (rq_hdr r), Slept n])"
    using st by blast
  have s1: "sent (rq_trace r1) = sent (rq_trace r) @ [(ip, sv)]" using ev(2) "2.prems"(3) by auto
  show ?case
  proof (cases "is_AGAIN res1")
    case True
    then obtain e1 where e1: "res1 = AGAIN e1" by (auto simp: is_AGAIN_def split: attempt_result.splits)
    have l: "send_loop env bStream sv n (Suc i) e1 r1 = (res, r')" using "2.prems"(1) a e1 by simp
    have c: "same_conn (rq_conn r) (rq_conn r1)" "rq_hdr r1 = sv" "\<not> bStream" using st True by auto
    have ips: "IPListLocal (rq_conn r1) = IPListLocal (rq_conn r)" using c(1) by (simp add: same_conn_def)
    note ih = "2.IH" [OF a [symmetric] e1 l]
    have ih': "same_conn (rq_conn r1) (rq_conn r')
      \<and> (\<exists>xs. sent (rq_trace r') = sent (rq_trace r1) @ xs \<and> length xs \<le> n \<and> (0 < n \<longrightarrow> xs \<noteq> [])
           \<and> (bStream \<longrightarrow> length xs \<le> 1) \<and> (\<forall>(ip, h) \<in> set xs. ip \<in> set (IPListLocal (rq_conn r1)) \<and> h = sv))
      \<and> answer_ok_or_error env (result_error res)
      \<and> (bTestConnection (rq_conn r1) \<longrightarrow> bad_le (rq_conn r') (rq_conn r1))"
      using ih ips "2.prems"(2) c(2) ok e1 by simp
    then obtain xs where xs: "sent (rq_trace r') = sent (rq_trace r1) @ xs" "length xs \<le> n"
        "\<forall>(ip, h) \<in> set xs. ip \<in> set (IPListLocal (rq_conn r1)) \<and> h = sv" by blast
    have "\<exists>xs. sent (rq_trace r') = sent (rq_trace r) @ xs \<and> length xs \<le> Suc n \<and> (0 < Suc n \<longrightarrow> xs \<noteq> [])
         \<and> (bStream \<longrightarrow> length xs \<le> 1) \<and> (\<forall>(ip, h) \<in> set xs. ip \<in> set (IPListLocal (rq_conn r)) \<and> h = sv)"
      using xs s1 ev(1) ips c(3) by (intro exI [of _ "(ip, sv) # xs"]) auto
    moreover have "same_conn (rq_conn r) (rq_conn r')" using c(1) ih' same_conn_trans by blast
    moreover have "bTestConnection (rq_conn r) \<longrightarrow> bad_le (rq_conn r') (rq_conn r)"
      using ih' st c(1) bad_le_trans by (auto simp: same_conn_def)
    ultimately show ?thesis using ih' by blast
  next
    case False
    then have "res = res1" "r' = r1"
      using "2.prems"(1) a by (auto simp: is_AGAIN_def split: attempt_result.splits)
    then show ?thesis using st ok s1 ev(1) by (auto intro!: exI [of _ "[(ip, sv)]"])
  qed
qed auto

lemma send_tail_step:
  assumes "send_tail env res r = (e, r')"
  shows "e = result_error res \<and> same_conn (rq_conn r) (rq_conn r') \<and> sent (rq_trace r') = sent (rq_trace r)
    \<and> (bTestConnection (rq_conn r) \<longrightarrow> bad_le (rq_conn r') (rq_conn r))"
proof -
  define tail where "tail = (\<lambda>e (r :: ('a, 'b) request). if \<not> IfError e \<and> rq_used r \<noteq> (\<lambda>_. None) then rq_log_bad env r else r)"
  have t: "same_conn (rq_conn q) (rq_conn (tail e q)) \<and> rq_trace (tail e q) = rq_trace q
      \<and> (bTestConnection (rq_conn q) \<longrightarrow> bad_le (rq_conn (tail e q)) (rq_conn q))" for e q
    using rq_log_bad_step [of q env] by (auto simp: tail_def LogBadIPAddr_def)
  define q where "q = (case res of THROW e got \<Rightarrow> if disconnect_wanted (rq_conn r) e got
      then r\<lparr> rq_trace := rq_trace r @ [Disconnected e] \<rparr> else r | _ \<Rightarrow> r)"
  have q: "rq_conn q = rq_conn r" "sent (rq_trace q) = sent (rq_trace r)"
    by (cases res; simp add: q_def)+
  have "e = result_error res \<and> (r' = q \<or> r' = tail e q)"
    using assms by (cases res) (auto simp: send_tail_def tail_def q_def)
  then show ?thesis using t [of q e] q by auto
qed

section \<open>The headers of a request\<close>

text \<open>The headers an attempt may write. \<open>keeps_headers H hs\<close>: every other header is as in \<open>H\<close>,
  host and dates are there exactly if they were, and the caller's content type stays.\<close>

definition own_headers :: "string list" where
  "own_headers = [''host'', ''date'', ''x-amz-date'', ''content-length'', ''content-type'',
     ''x-amz-content-sha256'', ''content-encoding'', ''x-amz-decoded-content-length'']"

definition keeps_headers :: "headers \<Rightarrow> headers \<Rightarrow> bool" where
  "keeps_headers H hs \<longleftrightarrow> (\<forall>k. k \<notin> set own_headers \<longrightarrow> hs k = H k)
     \<and> (\<forall>k \<in> {''host'', ''date'', ''x-amz-date''}. hs k = None \<longleftrightarrow> H k = None)
     \<and> (H ''content-type'' \<noteq> None \<longrightarrow> hs ''content-type'' = H ''content-type'')"


lemma keeps_headers_refl [simp]: "keeps_headers H H"
  by (simp add: keeps_headers_def)



lemma own_mem [simp]:
  "''host'' \<in> set own_headers" "''date'' \<in> set own_headers" "''x-amz-date'' \<in> set own_headers"
  "''content-length'' \<in> set own_headers" "''content-type'' \<in> set own_headers"
  "''x-amz-content-sha256'' \<in> set own_headers" "''content-encoding'' \<in> set own_headers"
  "''x-amz-decoded-content-length'' \<in> set own_headers"
  by (simp_all add: own_headers_def)




fun sent_headers :: "'h net_event list \<Rightarrow> (string \<times> headers) list" where
  "sent_headers [] = []"
| "sent_headers (Sent ip hs h # es) = (ip, hs) # sent_headers es"
| "sent_headers (_ # es) = sent_headers es"

lemma sent_headers_append [simp]: "sent_headers (a @ b) = sent_headers a @ sent_headers b"
  by (induction a rule: sent_headers.induct) auto











section \<open>Properties\<close>

lemma is_bad_expired:
  "bad_le (expire_bad t a c) c"
  by (auto simp: bad_le_def expire_bad_def split: option.splits if_splits)

lemma GetNextECSIP_spec:
  "let (ok, c') = GetNextECSIP t c in
     (ok \<longleftrightarrow> (\<exists>ip \<in> set (IPListLocal c). \<not> is_bad c' ip))
   \<and> (ok \<longrightarrow> fst (GetCurrentServerIP c') \<in> set (IPListLocal c) \<and> \<not> is_bad c' (fst (GetCurrentServerIP c')))
   \<and> bad_le c' c"
proof (cases "IPListLocal c = []")
  case True
  then show ?thesis by (simp add: GetNextECSIP_def Let_def bad_le_def)
next
  case False
  define a where "a = (if dwBadIPAddrAge c = 0 then 720000 else dwBadIPAddrAge c)"
  define c1 where "c1 = expire_bad t (ucast a * 10000) (c\<lparr> dwBadIPAddrAge := a \<rparr>)"
  define n where "n = (let n = (case LoadBalMap c1 (sHost c1) of None \<Rightarrow> 0 | Some k \<Rightarrow> k)
      in if Suc n \<ge> length (IPListLocal c1) then 0 else Suc n)"
  obtain ok k where s: "scan_ips (is_bad c1) (IPListLocal c1) (length (IPListLocal c1)) n = (ok, k)" by force
  define c' where "c' = c1\<lparr> iIPList := k, LoadBalMap := (LoadBalMap c1)(sHost c1 \<mapsto> k) \<rparr>"
  have g: "GetNextECSIP t c = (ok, c')"
    using False s by (simp add: GetNextECSIP_def Let_def a_def [symmetric] c1_def [symmetric] n_def c'_def)
  have ips: "IPListLocal c1 = IPListLocal c" "IPListLocal c' = IPListLocal c" "is_bad c' = is_bad c1"
    by (simp_all add: c'_def c1_def expire_bad_def is_bad_def fun_eq_iff)
  have n: "n < length (IPListLocal c)" using False by (simp add: n_def ips Let_def)
  have le: "bad_le c' c"
    using is_bad_expired [of t "ucast a * 10000" "c\<lparr> dwBadIPAddrAge := a \<rparr>"] by (simp add: bad_le_def c'_def c1_def)
  show ?thesis
  proof (cases ok)
    case True
    then have k: "k < length (IPListLocal c)" "\<not> is_bad c1 (IPListLocal c ! k)"
      using scan_ips_sound [of "is_bad c1" "IPListLocal c1"] s False ips(1) by auto
    have "fst (GetCurrentServerIP c') = IPListLocal c ! k"
      using k(1) False by (simp add: GetCurrentServerIP_def ips) (simp add: c'_def)
    then show ?thesis using g True k le ips nth_mem [OF k(1)] by auto
  next
    case no: False
    then have "\<forall>ip \<in> set (IPListLocal c). is_bad c1 ip"
      using scan_ips_complete [of "is_bad c1" "IPListLocal c1" n k] s False ips(1) n by auto
    then show ?thesis using g no le ips by auto
  qed
qed

text \<open>A connection and a server for the witnesses: the first address does not answer.\<close>

definition demo_conn :: ecs_conn where
  "demo_conn = \<lparr> sHost = ''h'', IPListHost = [''a'', ''b''], IPListLocal = [''a'', ''b''], iIPList = 0,
     Headers = (\<lambda>_. None), dwBadIPAddrAge = 0, dwMaxRetryCount = 5, dwPauseBetweenRetries = 1,
     dwPauseAfter500Error = 1, bInitialized = True, bTestConnection = False, DisconnectCB = False,
     BadIPMap = [(''h'', ''b'') \<mapsto> (0, S3_ERROR_new 12029)], LoadBalMap = (\<lambda>_. None) \<rparr>"

definition demo_env :: "(nat, nat) ecs_env" where
  "demo_env = \<lparr> env_clock = (\<lambda>w. (5, w)),
     env_send = (\<lambda>ip hs h w. ((if ip = ''a'' then (S3_ERROR_new 12029, False, h + 1)
                                else ((S3_ERROR_new 0)\<lparr> dwHttpError := 200 \<rparr>, True, h)), w + 1)),
     env_canonical = (\<lambda>_. ''d''), env_iso8601 = (\<lambda>_. ''d''), env_winhttp_last = 12188,
     env_host_port = '':9021'', env_content = Some (''3'', True), env_payload = NotV4 \<rparr>"

text \<open>The choice of an address. \<open>GetNextECSIP\<close> succeeds exactly when the host has an
  address that is not marked bad (after old marks were dropped); the current address is
  then one of the list that is not bad. It adds no mark.\<close>

theorem GetNextECSIP_correct:
  "let (ok, c') = GetNextECSIP t c in
     (ok \<longleftrightarrow> (\<exists>ip \<in> set (IPListLocal c). \<not> is_bad c' ip))
   \<and> (ok \<longrightarrow> fst (GetCurrentServerIP c') \<in> set (IPListLocal c) \<and> \<not> is_bad c' (fst (GetCurrentServerIP c')))
   \<and> bad_le c' c"
  by (rule GetNextECSIP_spec)

theorem GetNextECSIP_correct_witness:
  "fst (GetNextECSIP 5 demo_conn) \<and> \<not> is_bad (snd (GetNextECSIP 5 demo_conn)) ''a''"
proof -
  obtain ok c' where g: "GetNextECSIP 5 demo_conn = (ok, c')" by force
  have p: "ok \<longleftrightarrow> (\<exists>ip \<in> set (IPListLocal demo_conn). \<not> is_bad c' ip)" "bad_le c' demo_conn"
    using GetNextECSIP_correct [of 5 demo_conn] unfolding g by auto
  have "sHost c' = sHost demo_conn" using GetNextECSIP_same [of demo_conn 5] unfolding g same_conn_def by simp
  then have "sHost c' = ''h''" by (simp add: demo_conn_def)
  then have "\<not> is_bad c' ''a''" using p(2) unfolding is_bad_def bad_le_def demo_conn_def by fastforce
  then show ?thesis using p(1) g by (simp add: demo_conn_def)
qed

lemma TestAllIPBad_some:
  "IPListLocal c \<noteq> [] \<Longrightarrow> \<exists>ip \<in> set (IPListLocal c). \<not> is_bad (TestAllIPBad c) ip"
proof (cases "filter (\<lambda>ip. \<not> is_bad c ip) (IPListLocal c) = []")
  case True
  assume ne: "IPListLocal c \<noteq> []"
  have "\<not> is_bad (TestAllIPBad c) ip" for ip using True by (simp add: TestAllIPBad_def is_bad_def)
  then show ?thesis using ne by (meson hd_in_set)
next
  case False
  then show ?thesis unfolding TestAllIPBad_def by (auto simp: filter_empty_conv)
qed

text \<open>Marking never shuts a host off. After a request that got through marked the
  addresses that failed on the way, at least one address of the host is still good;
  marks of other hosts are kept; a test connection marks nothing.\<close>

theorem LogBadIPAddr_leaves_one:
  assumes "IPListLocal c \<noteq> []" and "\<not> bTestConnection c"
  shows "(\<exists>ip \<in> set (IPListLocal c). \<not> is_bad (LogBadIPAddr t used c) ip)
    \<and> (\<forall>h ip. h \<noteq> sHost c \<longrightarrow> BadIPMap (LogBadIPAddr t used c) (h, ip) = BadIPMap c (h, ip))
    \<and> LogBadIPAddr t used (c\<lparr> bTestConnection := True \<rparr>) = c\<lparr> bTestConnection := True \<rparr>"
proof -
  let ?c = "c\<lparr> BadIPMap := (\<lambda>(h, ip).
             if h = sHost c \<and> used ip \<noteq> None then Some (t, the (used ip)) else BadIPMap c (h, ip)) \<rparr>"
  have "LogBadIPAddr t used c = TestAllIPBad ?c" using assms(2) by (simp add: LogBadIPAddr_def)
  moreover have "\<exists>ip \<in> set (IPListLocal c). \<not> is_bad (TestAllIPBad ?c) ip"
    using TestAllIPBad_some [of ?c] assms(1) by simp
  moreover have "BadIPMap (TestAllIPBad ?c) (h, ip) = BadIPMap c (h, ip)" if "h \<noteq> sHost c" for h ip
    using that by (simp add: TestAllIPBad_def)
  ultimately show ?thesis by (simp add: LogBadIPAddr_def)
qed

theorem LogBadIPAddr_leaves_one_witness:
  "\<exists>ip \<in> {''a'', ''b''}. \<not> is_bad (LogBadIPAddr 9 [''a'' \<mapsto> S3_ERROR_new 12029] demo_conn) ip"
  using LogBadIPAddr_leaves_one [of demo_conn 9 "[''a'' \<mapsto> S3_ERROR_new 12029]"] by (simp add: demo_conn_def)

lemma rq_next_ip_retry:
  assumes "rq_next_ip env r = (False, r1)" and "IPListLocal (rq_conn r) \<noteq> []"
  shows "fst (rq_next_ip env (r1\<lparr> rq_conn := TestAllIPBad (rq_conn r1) \<rparr>))"
proof -
  obtain t where g1: "GetNextECSIP t (rq_conn r) = (False, rq_conn r1)"
    using rq_next_ip_step [OF assms(1)] by metis
  have same: "sHost (rq_conn r1) = sHost (rq_conn r)" "IPListLocal (rq_conn r1) = IPListLocal (rq_conn r)"
    using rq_next_ip_step [OF assms(1)] by (simp_all add: same_conn_def)
  have "\<forall>ip \<in> set (IPListLocal (rq_conn r)). is_bad (rq_conn r1) ip"
    using GetNextECSIP_spec [of t "rq_conn r"] g1 by simp
  then have "filter (\<lambda>ip. \<not> is_bad (rq_conn r1) ip) (IPListLocal (rq_conn r1)) = []"
    by (simp add: same filter_empty_conv)
  then have clean: "BadIPMap (TestAllIPBad (rq_conn r1)) (sHost (rq_conn r1), ip) = None" for ip
    by (simp add: TestAllIPBad_def)
  obtain ok r2 where n: "rq_next_ip env (r1\<lparr> rq_conn := TestAllIPBad (rq_conn r1) \<rparr>) = (ok, r2)" by force
  obtain t2 where g2: "GetNextECSIP t2 (TestAllIPBad (rq_conn r1)) = (ok, rq_conn r2)"
    using rq_next_ip_step [OF n] by (metis select_convs(1) surjective update_convs(1))
  have t: "sHost (TestAllIPBad (rq_conn r1)) = sHost (rq_conn r1)"
      "IPListLocal (TestAllIPBad (rq_conn r1)) = IPListLocal (rq_conn r)"
    using TestAllIPBad_same [of "rq_conn r1"] same by (simp_all add: same_conn_def)
  have "sHost (rq_conn r2) = sHost (rq_conn r1)"
    using GetNextECSIP_same [of "TestAllIPBad (rq_conn r1)" t2] g2 t(1) by (simp add: same_conn_def)
  moreover have "bad_le (rq_conn r2) (TestAllIPBad (rq_conn r1))"
    using GetNextECSIP_bad_le [of t2 "TestAllIPBad (rq_conn r1)"] g2 by simp
  ultimately have "\<not> is_bad (rq_conn r2) ip" for ip
    using clean [of ip] unfolding is_bad_def bad_le_def by (metis not_None_eq)
  then have ok
    using GetNextECSIP_spec [of t2 "TestAllIPBad (rq_conn r1)"] g2 t(2) assms(2) by (simp add: ex_in_conv)
  then show ?thesis using n by simp
qed

lemma SendRequest_step:
  assumes ips: "IPListHost c \<noteq> []" and n: "0 < dwMaxRetryCount c"
    and r: "SendRequest env bStream hdr c w = (e, r)"
  shows "(\<exists>xs. sent (rq_trace r) = xs \<and> xs \<noteq> [] \<and> length xs \<le> unat (dwMaxRetryCount c)
      \<and> (bTestConnection c \<longrightarrow> length xs \<le> 2) \<and> (bStream \<longrightarrow> length xs \<le> 1)
      \<and> (\<forall>(ip, h) \<in> set xs. ip \<in> set (IPListHost c) \<and> h = hdr))
    \<and> (bTestConnection c \<longrightarrow> bad_le (rq_conn r) c)
    \<and> answer_ok_or_error env e"
proof -
  define r0 where "r0 = \<lparr> rq_conn = c\<lparr> IPListLocal := IPListHost c \<rparr>, rq_hdr = hdr, rq_used = (\<lambda>_. None),
                 rq_world = w, rq_trace = [] \<rparr>"
  obtain ok1 r1 where n1: "rq_next_ip env r0 = (ok1, r1)" by force
  define r1' where "r1' = r1\<lparr> rq_conn := TestAllIPBad (rq_conn r1) \<rparr>"
  obtain ok2 r2' where n2: "rq_next_ip env r1' = (ok2, r2')" by force
  define r2 where "r2 = (if ok1 then r1 else r2')"
  have ne: "IPListLocal (rq_conn r0) \<noteq> []" using ips by (simp add: r0_def)
  have ok: "ok1 \<or> ok2"
    using rq_next_ip_retry [of env r0 r1] n1 ne n2 r1'_def by (cases ok1) auto
  have s0: "same_conn (rq_conn r0) (rq_conn r1)" "bad_le (rq_conn r1) (rq_conn r0)" "rq_trace r1 = []" "rq_hdr r1 = hdr"
    using rq_next_ip_step [OF n1] GetNextECSIP_bad_le by (auto simp: r0_def) (metis snd_conv)
  have s1: "same_conn (rq_conn r1) (rq_conn r1')" "bad_le (rq_conn r1') (rq_conn r1)"
    using TestAllIPBad_same TestAllIPBad_bad_le by (simp_all add: r1'_def)
  have s2: "same_conn (rq_conn r1') (rq_conn r2')" "bad_le (rq_conn r2') (rq_conn r1')" "rq_trace r2' = []" "rq_hdr r2' = hdr"
    using rq_next_ip_step [OF n2] GetNextECSIP_bad_le s0(3,4) by (auto simp: r1'_def) (metis snd_conv)
  have r2: "same_conn (rq_conn r0) (rq_conn r2)" "bad_le (rq_conn r2) (rq_conn r0)" "rq_trace r2 = []" "rq_hdr r2 = hdr"
    using s0 s1 s2 same_conn_trans bad_le_trans unfolding r2_def by (metis (full_types))+
  define c2 where "c2 = rq_conn r2"
  define c3 where "c3 = (if bTestConnection c2 then c2\<lparr> dwMaxRetryCount := min 2 (dwMaxRetryCount c2) \<rparr> else c2)"
  obtain res r3 where l: "send_loop env bStream hdr (unat (dwMaxRetryCount c3)) 0 (S3_ERROR_new 0)
                          (r2\<lparr> rq_conn := c3 \<rparr>) = (res, r3)" by force
  have tail: "send_tail env res r3 = (e, r)"
    using r ok n1 n2 l unfolding SendRequest_def Let_def
    by (auto simp: r0_def [symmetric] r1'_def [symmetric] r2_def c2_def c3_def split: if_splits)
  have c: "IPListLocal c3 = IPListHost c" "bTestConnection c3 = bTestConnection c" "bad_le c3 c"
    using r2 by (auto simp: c3_def c2_def r0_def same_conn_def bad_le_def)
  have cnt: "dwMaxRetryCount c3 = (if bTestConnection c then min 2 (dwMaxRetryCount c) else dwMaxRetryCount c)"
    using r2(1) by (simp add: c3_def c2_def r0_def same_conn_def)
  have cnt': "0 < unat (dwMaxRetryCount c3)" "unat (dwMaxRetryCount c3) \<le> unat (dwMaxRetryCount c)"
      "bTestConnection c \<Longrightarrow> unat (dwMaxRetryCount c3) \<le> 2"
    using n unfolding cnt by (auto simp: min_def word_le_nat_alt word_less_nat_alt unat_eq_zero)
  have st: "same_conn c3 (rq_conn r3) \<and> (\<exists>xs. sent (rq_trace r3) = xs \<and> length xs \<le> unat (dwMaxRetryCount c3) \<and> xs \<noteq> []
         \<and> (bStream \<longrightarrow> length xs \<le> 1) \<and> (\<forall>(ip, h) \<in> set xs. ip \<in> set (IPListHost c) \<and> h = hdr))
    \<and> answer_ok_or_error env (result_error res) \<and> (bTestConnection c3 \<longrightarrow> bad_le (rq_conn r3) c3)"
    using send_loop_step [OF l] ips r2(3,4) c cnt'(1) by simp
  note tl = send_tail_step [OF tail]
  have "bTestConnection c \<longrightarrow> bad_le (rq_conn r) c"
    using st tl c bad_le_trans by (metis same_conn_def)
  then show ?thesis using st tl cnt' by auto
qed



text \<open>C24: success is real. When \<open>SendRequest\<close> reports no error, some exchange reached the
  server and was answered with that result and with status 0 or 2xx; a result without
  error from an exchange that did not reach the server, or with another status, is
  never passed on. With no address at all the result is SEC_E_NO_IP_ADDRESSES and
  nothing is sent.\<close>

theorem SendRequest_success:
  assumes "0 < dwMaxRetryCount c" and "SendRequest env bStream hdr c w = (e, r)"
  shows "(\<not> IfError e \<longrightarrow> answered_ok env e)
    \<and> (IPListHost c = [] \<longrightarrow> dwError e = SEC_E_NO_IP_ADDRESSES \<and> sent (rq_trace r) = [])"
proof (cases "IPListHost c = []")
  case False
  then show ?thesis using SendRequest_step [OF False assms] by (auto simp: answer_ok_or_error_def)
next
  case True
  define r0 where "r0 = \<lparr> rq_conn = c\<lparr> IPListLocal := IPListHost c \<rparr>, rq_hdr = hdr, rq_used = (\<lambda>_. None),
                 rq_world = w, rq_trace = [] \<rparr>"
  have none: "\<not> fst (rq_next_ip env q)" if "IPListLocal (rq_conn q) = []" for q
    using that by (auto simp: rq_next_ip_def rq_time_def GetNextECSIP_def Let_def split: prod.split)
  obtain r1 where n1: "rq_next_ip env r0 = (False, r1)"
    using none [of r0] True by (cases "rq_next_ip env r0") (auto simp: r0_def)
  have c1: "IPListLocal (rq_conn r1) = []" "rq_trace r1 = []"
    using rq_next_ip_step [OF n1] True by (auto simp: r0_def same_conn_def)
  let ?r = "r1\<lparr> rq_conn := TestAllIPBad (rq_conn r1) \<rparr>"
  have c2: "IPListLocal (rq_conn ?r) = []" using TestAllIPBad_same [of "rq_conn r1"] c1(1) by (simp add: same_conn_def)
  obtain r2 where n2: "rq_next_ip env ?r = (False, r2)"
    using none [OF c2] by (cases "rq_next_ip env ?r") auto
  have t: "send_tail env (THROW (S3_ERROR_new SEC_E_NO_IP_ADDRESSES) False) r2 = (e, r)"
    using assms(2) n1 n2 unfolding SendRequest_def Let_def by (simp add: r0_def)
  have "sent (rq_trace r2) = []" using rq_next_ip_step [OF n2] c1(2) by simp
  then show ?thesis using send_tail_step [OF t] True
    by (simp add: S3_ERROR_new_def IfError_def SEC_E_NO_IP_ADDRESSES_def)
qed

theorem SendRequest_success_witness:
  "dwError (fst (SendRequest demo_env False 0 (demo_conn\<lparr> IPListHost := [] \<rparr>) 0)) = SEC_E_NO_IP_ADDRESSES"
proof -
  obtain e r where s: "SendRequest demo_env False 0 (demo_conn\<lparr> IPListHost := [] \<rparr>) 0 = (e, r)" by force
  have "0 < dwMaxRetryCount (demo_conn\<lparr> IPListHost := [] \<rparr>)" by (simp add: demo_conn_def)
  from SendRequest_success [OF this s] show ?thesis unfolding s by simp
qed

end
