(* ===== verification/Xml.thy ===== *)
theory Xml
  imports Prelude
begin

text \<open>
  Reading XML (XmlLiteUtil.cpp). The XmlLite reader is a parameter: the nodes it delivers, and
  the result of the Read that ended them. ScanXml keeps the stack of open elements and calls
  back with the path; ProcessXmlTextField stores a text by the type its field map gives.
\<close>

section \<open>ScanXml\<close>

definition FAILED :: "DWORD \<Rightarrow> bool" where
  "FAILED hr \<longleftrightarrow> hr \<ge> 0x80000000"

record xml_attr =
  xa_IsDefault :: bool
  xa_Prefix :: string
  xa_LocalName :: string
  xa_Value :: string

datatype xml_node = XnElement string string bool "xml_attr list" | XnEndElement | XnText string | XnOther

datatype xml_event = XmlText string string | XmlElement string "(string \<times> string) list" | XmlEndElement string

type_synonym 'c xml_cb = "xml_event \<Rightarrow> 'c \<Rightarrow> DWORD \<times> 'c"

definition xml_name :: "string \<Rightarrow> string \<Rightarrow> string" where
  "xml_name pfx local_name = (if pfx \<noteq> [] then pfx @ '':'' @ local_name else local_name)"

definition AttrList :: "xml_attr list \<Rightarrow> (string \<times> string) list" where
  "AttrList as = map (\<lambda>a. (xml_name (xa_Prefix a) (xa_LocalName a), xa_Value a)) (filter (\<lambda>a. \<not> xa_IsDefault a) as)"

definition stack_path :: "string list \<Rightarrow> string" where
  "stack_path XmlStack = ''/'' @ concat (map (\<lambda>sName. ''/'' @ sName) XmlStack)"

fun ScanNodes :: "'c xml_cb \<Rightarrow> xml_node list \<Rightarrow> string list \<Rightarrow> 'c \<Rightarrow> DWORD \<times> 'c" where
  "ScanNodes cb [] XmlStack ctx = (0, ctx)"
| "ScanNodes cb (XnElement pfx ln bEmptyElement attrs # ns) XmlStack ctx =
     (let XmlStack' = XmlStack @ [xml_name pfx ln];
          (hr, ctx1) = cb (XmlElement (stack_path XmlStack') (AttrList attrs)) ctx in
      if FAILED hr then (hr, ctx1)
      else if bEmptyElement then
        (let (hr2, ctx2) = cb (XmlEndElement (stack_path XmlStack')) ctx1 in
         if FAILED hr2 then (hr2, ctx2) else ScanNodes cb ns XmlStack ctx2)
      else ScanNodes cb ns XmlStack' ctx1)"
| "ScanNodes cb (XnEndElement # ns) XmlStack ctx =
     (let (hr, ctx1) = cb (XmlEndElement (stack_path XmlStack)) ctx in
      if FAILED hr then (hr, ctx1) else ScanNodes cb ns (butlast XmlStack) ctx1)"
| "ScanNodes cb (XnText v # ns) XmlStack ctx =
     (let (hr, ctx1) = cb (XmlText (stack_path XmlStack) v) ctx in
      if FAILED hr then (hr, ctx1) else ScanNodes cb ns XmlStack ctx1)"
| "ScanNodes cb (XnOther # ns) XmlStack ctx = ScanNodes cb ns XmlStack ctx"

text \<open>The result of the last Read is dropped, a parse error included.\<close>

definition ScanXml :: "'c xml_cb \<Rightarrow> xml_node list \<times> DWORD \<Rightarrow> 'c \<Rightarrow> DWORD \<times> 'c" where
  "ScanXml cb reader ctx = ScanNodes cb (fst reader) [] ctx"

section \<open>ProcessXmlTextField\<close>

datatype E_XML_FIELD_TYPE = XT_Invalid | XT_Bool | XT_String | XT_Time | XT_U32 | XT_U64 | XT_S32 | XT_S64

datatype xml_field = XF_Bool bool | XF_String string | XF_Time FILETIME | XF_32 DWORD | XF_64 ULONGLONG

record XML_FIELD_ENTRY =
  xf_Type :: E_XML_FIELD_TYPE
  xf_uOffset :: nat

definition ERROR_XML_PARSE_ERROR :: DWORD where "ERROR_XML_PARSE_ERROR = 1465"

text \<open>\<open>wcstoul\<close> and its kin with base 0: white space, a sign, a prefix that gives the base, digits;
  the number and the rest of the string (all of it when there is no digit).\<close>

definition digit_of :: "char \<Rightarrow> nat" where
  "digit_of c = (if is_digit_ascii c then char_code c - 48
     else if is_upper_ascii c then char_code c - 55
     else if is_lower_ascii c then char_code c - 87 else 99)"

definition strto_base :: "string \<Rightarrow> nat \<times> string" where
  "strto_base s =
     (case s of
        CHR ''0'' # c # d # r \<Rightarrow>
          if to_lower c = CHR ''x'' \<and> digit_of d < 16 then (16, d # r) else (8, s)
      | CHR ''0'' # r \<Rightarrow> (8, s)
      | _ \<Rightarrow> (10, s))"

definition digits_value :: "nat \<Rightarrow> string \<Rightarrow> nat" where
  "digits_value b ds = foldl (\<lambda>n c. n * b + digit_of c) 0 ds"

definition strto :: "string \<Rightarrow> bool \<times> nat \<times> string" where
  "strto s =
     (let t = dropWhile is_space_c s;
          (neg, u) = (case t of CHR ''-'' # r \<Rightarrow> (True, r) | CHR ''+'' # r \<Rightarrow> (False, r) | _ \<Rightarrow> (False, t));
          (b, v) = strto_base u;
          ds = takeWhile (\<lambda>c. digit_of c < b) v in
      if ds = [] then (False, 0, s) else (neg, digits_value b ds, dropWhile (\<lambda>c. digit_of c < b) v))"

text \<open>Out of range the unsigned functions give the maximum, the signed ones the nearest limit.\<close>

definition wcsto_unsigned :: "nat \<Rightarrow> string \<Rightarrow> int \<times> string" where
  "wcsto_unsigned w s = (case strto s of (neg, n, r) \<Rightarrow>
     (if n \<ge> 2 ^ w then 2 ^ w - 1 else if neg then - int n else int n, r))"

definition wcsto_signed :: "nat \<Rightarrow> string \<Rightarrow> int \<times> string" where
  "wcsto_signed w s = (case strto s of (neg, n, r) \<Rightarrow>
     (if neg then max (- int n) (- (2 ^ (w - 1))) else min (int n) (2 ^ (w - 1) - 1), r))"

definition ProcessXmlTextField ::
  "(string \<Rightarrow> DWORD \<times> FILETIME) \<Rightarrow> (string \<Rightarrow> XML_FIELD_ENTRY option) \<Rightarrow> string \<Rightarrow> string \<Rightarrow> string
   \<Rightarrow> (nat \<Rightarrow> xml_field) \<Rightarrow> DWORD \<times> (nat \<Rightarrow> xml_field)" where
  "ProcessXmlTextField parse_date FieldMap sPathRoot sXmlPath sValue ctx =
     (if sPathRoot \<noteq> take (length sPathRoot) sXmlPath then (ERROR_INVALID_DATA, ctx)
      else
        let sField0 = drop (length sPathRoot) sXmlPath;
            sField = (if sField0 \<noteq> [] \<and> hd sField0 = CHR ''/'' then tl sField0 else sField0) in
        case FieldMap sField of
          None \<Rightarrow> (0, ctx)
        | Some e \<Rightarrow>
            (let off = xf_uOffset e in
             case xf_Type e of
               XT_Invalid \<Rightarrow> (0, ctx)
             | XT_Bool \<Rightarrow>
                 if eq_nocase sValue ''false'' then (0, ctx(off := XF_Bool False))
                 else if eq_nocase sValue ''true'' then (0, ctx(off := XF_Bool True))
                 else (ERROR_XML_PARSE_ERROR, ctx)
             | XT_String \<Rightarrow> (0, ctx(off := XF_String sValue))
             | XT_Time \<Rightarrow> (let (dwError, ft) = parse_date sValue in (dwError, ctx(off := XF_Time ft)))
             | XT_U32 \<Rightarrow> (let (n, r) = wcsto_unsigned 32 sValue in
                 (if r \<noteq> [] then ERROR_XML_PARSE_ERROR else 0, ctx(off := XF_32 (of_int n))))
             | XT_U64 \<Rightarrow> (let (n, r) = wcsto_unsigned 64 sValue in
                 (if r \<noteq> [] then ERROR_XML_PARSE_ERROR else 0, ctx(off := XF_64 (of_int n))))
             | XT_S32 \<Rightarrow> (let (n, r) = wcsto_signed 32 sValue in
                 (if r \<noteq> [] then ERROR_XML_PARSE_ERROR else 0, ctx(off := XF_32 (of_int n))))
             | XT_S64 \<Rightarrow> (let (n, r) = wcsto_signed 64 sValue in
                 (if r \<noteq> [] then ERROR_XML_PARSE_ERROR else 0, ctx(off := XF_64 (of_int n))))))"

section \<open>The events of a document\<close>

text \<open>Reference: a document as a tree, the nodes a reader delivers for it, and its events in
  document order.\<close>

datatype xml_tree = XElem string string "xml_attr list" bool "xml_tree list" | XTxt string | XMisc

definition leaf :: "string \<Rightarrow> string \<Rightarrow> xml_tree" where
  "leaf name v = XElem [] name [] False [XTxt v]"

text \<open>An element with a text; no text node stands for the empty text.\<close>

definition text_elem :: "string \<Rightarrow> string \<Rightarrow> xml_tree" where
  "text_elem name v = XElem [] name [] False (if v = [] then [] else [XTxt v])"

fun tree_nodes :: "xml_tree \<Rightarrow> xml_node list" where
  "tree_nodes (XElem pfx ln as selfclosed cs) =
     (if selfclosed then [XnElement pfx ln True as]
      else XnElement pfx ln False as # concat (map tree_nodes cs) @ [XnEndElement])"
| "tree_nodes (XTxt v) = [XnText v]"
| "tree_nodes XMisc = [XnOther]"

fun tree_events :: "string list \<Rightarrow> xml_tree \<Rightarrow> xml_event list" where
  "tree_events anc (XElem pfx ln as selfclosed cs) =
     (let here = anc @ [xml_name pfx ln] in
      XmlElement (stack_path here) (AttrList as)
        # (if selfclosed then [] else concat (map (tree_events here) cs)) @ [XmlEndElement (stack_path here)])"
| "tree_events anc (XTxt v) = [XmlText (stack_path anc) v]"
| "tree_events anc XMisc = []"

fun run_events :: "'c xml_cb \<Rightarrow> xml_event list \<Rightarrow> 'c \<Rightarrow> DWORD \<times> 'c" where
  "run_events cb [] ctx = (0, ctx)"
| "run_events cb (ev # evs) ctx =
     (let (hr, ctx1) = cb ev ctx in if FAILED hr then (hr, ctx1) else run_events cb evs ctx1)"

lemma not_FAILED_0 [simp]: "\<not> FAILED 0"
  by (simp add: FAILED_def)

lemma run_events_append:
  "run_events cb (as @ bs) ctx =
     (let (hr, c) = run_events cb as ctx in if FAILED hr then (hr, c) else run_events cb bs c)"
  by (induction as arbitrary: ctx) (auto simp: Let_def split: prod.splits)

lemma ScanNodes_tree:
  "ScanNodes cb (tree_nodes t @ ns) st ctx =
     (let (hr, c) = run_events cb (tree_events st t) ctx in if FAILED hr then (hr, c) else ScanNodes cb ns st c)"
proof (induction t arbitrary: ns st ctx)
  case (XElem pfx ln as selfclosed cs)
  have kids: "ScanNodes cb (concat (map tree_nodes cs) @ ns') st' ctx' =
      (let (hr, c) = run_events cb (concat (map (tree_events st') cs)) ctx' in
       if FAILED hr then (hr, c) else ScanNodes cb ns' st' c)" for ns' st' ctx'
    using XElem.IH
  proof (induction cs arbitrary: ctx')
    case (Cons t cs)
    have "ScanNodes cb (tree_nodes t @ concat (map tree_nodes cs) @ ns') st' ctx' =
      (let (hr, c) = run_events cb (tree_events st' t) ctx' in
       if FAILED hr then (hr, c) else ScanNodes cb (concat (map tree_nodes cs) @ ns') st' c)"
      by (rule Cons.prems) simp
    moreover have "ScanNodes cb (concat (map tree_nodes cs) @ ns') st' c =
      (let (hr, c) = run_events cb (concat (map (tree_events st') cs)) c in
       if FAILED hr then (hr, c) else ScanNodes cb ns' st' c)" for c
      by (rule Cons.IH) (use Cons.prems in auto)
    ultimately show ?case by (auto simp: run_events_append Let_def split: prod.splits)
  qed simp
  show ?case
    by (cases selfclosed) (auto simp: kids run_events_append Let_def split: prod.splits)
qed (auto simp: Let_def split: prod.splits)

text \<open>What every call of the callback keeps holds after the scan.\<close>

lemma ScanNodes_keeps:
  assumes cb: "\<And>ev c. P c \<Longrightarrow> P (snd (cb ev c))"
  shows "P c \<Longrightarrow> P (snd (ScanNodes cb ns st c))"
proof (induction ns arbitrary: st c)
  case (Cons n ns)
  have step: "P (snd (let (hr, c1) = cb ev c0 in if FAILED hr then (hr, c1) else f c1))"
    if "P c0" "\<And>c1. P c1 \<Longrightarrow> P (snd (f c1))" for ev c0 f
    using cb [OF that(1), of ev] that(2) by (auto split: prod.splits)
  show ?case
  proof (cases n)
    case (XnElement pfx ln e as)
    then show ?thesis using Cons by (cases e) (auto simp: Let_def intro!: step [unfolded Let_def])
  qed (use Cons in \<open>auto intro!: step [unfolded Let_def]\<close>)
qed simp

lemma ScanXml_keeps: "(\<And>ev c. P c \<Longrightarrow> P (snd (cb ev c))) \<Longrightarrow> P c \<Longrightarrow> P (snd (ScanXml cb reader c))"
  unfolding ScanXml_def by (rule ScanNodes_keeps)

lemma ScanXml_trees:
  "ScanXml cb (concat (map tree_nodes ts), hrEnd) ctx = run_events cb (concat (map (tree_events []) ts)) ctx"
proof (induction ts arbitrary: ctx)
  case (Cons t ts)
  have "ScanNodes cb (tree_nodes t @ concat (map tree_nodes ts)) [] ctx =
      (let (hr, c) = run_events cb (tree_events [] t) ctx in
       if FAILED hr then (hr, c) else ScanNodes cb (concat (map tree_nodes ts)) [] c)"
    by (rule ScanNodes_tree)
  then show ?case using Cons.IH by (auto simp: ScanXml_def run_events_append Let_def split: prod.splits)
qed (simp add: ScanXml_def)

lemma ScanXml_tree: "ScanXml cb (tree_nodes t, hrEnd) ctx = run_events cb (tree_events [] t) ctx"
  using ScanXml_trees [of cb "[t]"] by simp

section \<open>Properties\<close>

text \<open>C22: ScanXml visits a document the way a traversal of its tree does: the callback gets, in
  document order, each element with its attributes, each text and each end of an element (also
  for an element written as one empty tag), with the path of the elements around it, up to the
  first failure, which is the result.\<close>

theorem ScanXml_visits_document:
  "ScanXml cb (concat (map tree_nodes ts), hrEnd) ctx = run_events cb (concat (map (tree_events []) ts)) ctx"
  by (rule ScanXml_trees)

end
