(* ===== verification/Dates.thy ===== *)
theory Dates
  imports Prelude
begin

text \<open>
  Dates as ISO 8601 strings (ECSConnection.cpp, ParseISO8601Date and FormatISO8601Date) and the
  number format they use (fmtnum.h). The conversions of the Windows date structures are
  parameters; the formats given to _stscanf_s are modelled.
\<close>

section \<open>SYSTEMTIME\<close>

type_synonym WORD = "16 word"

record SYSTEMTIME =
  wYear :: WORD
  wMonth :: WORD
  wDayOfWeek :: WORD
  wDay :: WORD
  wHour :: WORD
  wMinute :: WORD
  wSecond :: WORD
  wMilliseconds :: WORD

definition zero_time :: SYSTEMTIME where
  "zero_time = \<lparr> wYear = 0, wMonth = 0, wDayOfWeek = 0, wDay = 0, wHour = 0, wMinute = 0, wSecond = 0,
     wMilliseconds = 0 \<rparr>"

text \<open>\<open>Inl\<close> is what GetLastError returns after the failed call.\<close>

record date_env =
  SystemTimeToFileTime :: "SYSTEMTIME \<Rightarrow> DWORD + FILETIME"
  FileTimeToSystemTime :: "FILETIME \<Rightarrow> SYSTEMTIME option"
  TzSpecificLocalTimeToSystemTime :: "SYSTEMTIME \<Rightarrow> DWORD + SYSTEMTIME"
  SystemTimeToTzSpecificLocalTime :: "SYSTEMTIME \<Rightarrow> SYSTEMTIME option"

section \<open>Numbers\<close>

text \<open>\<open>FmtNum\<close> of an unsigned number, in decimal, without commas.\<close>

definition FmtNum :: "nat \<Rightarrow> nat \<Rightarrow> bool \<Rightarrow> string" where
  "FmtNum t width lead_zero =
     (let s = decimal t in replicate (width - length s) (if lead_zero then CHR ''0'' else CHR '' '') @ s)"

section \<open>The formats of _stscanf_s\<close>

datatype scan_item = ScanNum "nat option" | ScanChr char

text \<open>\<open>%hd\<close> with an optional width: white space, a sign, digits; the value is cut to 16 bits.\<close>

definition scan_digits :: "nat option \<Rightarrow> string \<Rightarrow> string" where
  "scan_digits w s = (case w of None \<Rightarrow> takeWhile is_digit_ascii s | Some n \<Rightarrow> takeWhile is_digit_ascii (take n s))"

definition scan_hd :: "nat option \<Rightarrow> string \<Rightarrow> (WORD \<times> string) option" where
  "scan_hd w s0 =
     (let s = dropWhile is_space_c s0;
          signed = (s \<noteq> [] \<and> (hd s = CHR ''-'' \<or> hd s = CHR ''+'') \<and> w \<noteq> Some 0);
          u = (if signed then tl s else s);
          ds = scan_digits (if signed then map_option (\<lambda>n. n - 1) w else w) u in
      if ds = [] then None
      else Some (if signed \<and> hd s = CHR ''-'' then - of_nat (undecimal ds) else of_nat (undecimal ds),
                 drop (length ds) u))"

text \<open>The values converted before the first item that does not match.\<close>

fun scan :: "scan_item list \<Rightarrow> string \<Rightarrow> WORD list" where
  "scan [] s = []"
| "scan (ScanChr c # f) s = (if s \<noteq> [] \<and> hd s = c then scan f (tl s) else [])"
| "scan (ScanNum w # f) s = (case scan_hd w s of None \<Rightarrow> [] | Some (v, r) \<Rightarrow> v # scan f r)"

definition ext_format :: "scan_item list" where
  "ext_format = [ScanNum None, ScanChr CHR ''-'', ScanNum None, ScanChr CHR ''-'', ScanNum None, ScanChr CHR ''T'',
     ScanNum None, ScanChr CHR '':'', ScanNum None, ScanChr CHR '':'', ScanNum None, ScanChr CHR ''.'', ScanNum None]"

definition basic_format :: "scan_item list" where
  "basic_format = [ScanNum (Some 4), ScanNum (Some 2), ScanNum (Some 2), ScanChr CHR ''T'',
     ScanNum (Some 2), ScanNum (Some 2), ScanNum (Some 2), ScanNum (Some 3)]"

text \<open>The arguments of the scan are the members in this order.\<close>

definition store_fields :: "WORD list \<Rightarrow> SYSTEMTIME \<Rightarrow> SYSTEMTIME" where
  "store_fields vs st =
     (let g = (\<lambda>i old. if i < length vs then vs ! i else old) in
      \<lparr> wYear = g 0 (wYear st), wMonth = g 1 (wMonth st), wDayOfWeek = wDayOfWeek st, wDay = g 2 (wDay st),
        wHour = g 3 (wHour st), wMinute = g 4 (wMinute st), wSecond = g 5 (wSecond st),
        wMilliseconds = g 6 (wMilliseconds st) \<rparr>)"

section \<open>Parsing and formatting\<close>

text \<open>The two formats, tried in turn.\<close>

definition scan_date :: "string \<Rightarrow> SYSTEMTIME option" where
  "scan_date pszDate =
     (let vs = scan ext_format pszDate; st = store_fields vs zero_time in
      if length vs < 3 then
        let vs2 = scan basic_format pszDate in
        if length vs2 < 3 then None else Some (store_fields vs2 st)
      else Some st)"

text \<open>The error and the date, zero when there is an error.\<close>

definition ParseISO8601Date :: "date_env \<Rightarrow> string \<Rightarrow> bool \<Rightarrow> DWORD \<times> FILETIME" where
  "ParseISO8601Date env pszDate bLocal =
     (case scan_date pszDate of
        None \<Rightarrow> (ERROR_INVALID_DATA, 0)
      | Some stDate \<Rightarrow>
          (case (if bLocal then TzSpecificLocalTimeToSystemTime env stDate else Inr stDate) of
             Inl e \<Rightarrow> (e, 0)
           | Inr st \<Rightarrow> (case SystemTimeToFileTime env st of Inl e \<Rightarrow> (e, 0) | Inr ft \<Rightarrow> (0, ft))))"

definition format_fields :: "SYSTEMTIME \<Rightarrow> bool \<Rightarrow> bool \<Rightarrow> string" where
  "format_fields st bMilliSec bBasicFormat =
     (let sDateSep = (if \<not> bBasicFormat then ''-'' else []); sTimeSep = (if \<not> bBasicFormat then '':'' else []) in
      FmtNum (unat (wYear st)) 4 True @ sDateSep @ FmtNum (unat (wMonth st)) 2 True @ sDateSep @ FmtNum (unat (wDay st)) 2 True
      @ ''T'' @ FmtNum (unat (wHour st)) 2 True @ sTimeSep @ FmtNum (unat (wMinute st)) 2 True @ sTimeSep @ FmtNum (unat (wSecond st)) 2 True
      @ (if bMilliSec then ''.'' @ FmtNum (unat (wMilliseconds st)) 3 True else []) @ ''Z'')"

definition FormatISO8601Date_st :: "date_env \<Rightarrow> SYSTEMTIME \<Rightarrow> bool \<Rightarrow> bool \<Rightarrow> bool \<Rightarrow> string" where
  "FormatISO8601Date_st env stDateUTC bLocal bMilliSec bBasicFormat =
     (case (if bLocal then SystemTimeToTzSpecificLocalTime env stDateUTC else Some stDateUTC) of
        None \<Rightarrow> []
      | Some stDate \<Rightarrow> format_fields stDate bMilliSec bBasicFormat)"

definition FormatISO8601Date :: "date_env \<Rightarrow> FILETIME \<Rightarrow> bool \<Rightarrow> bool \<Rightarrow> bool \<Rightarrow> string" where
  "FormatISO8601Date env ftDate bLocal bMilliSec bBasicFormat =
     (case FileTimeToSystemTime env ftDate of
        None \<Rightarrow> []
      | Some stDateUTC \<Rightarrow> FormatISO8601Date_st env stDateUTC bLocal bMilliSec bBasicFormat)"

section \<open>Lemmas\<close>

lemma undecimal_zeros: "undecimal (replicate k (CHR ''0'') @ s) = undecimal s"
  by (induction k) (simp_all add: undecimal_def undecimal_step_def char_code_def)

lemma FmtNum_digits:
  "list_all is_digit_ascii (FmtNum n w True)" "FmtNum n w True \<noteq> []" "undecimal (FmtNum n w True) = n"
  "is_digit_ascii (hd (FmtNum n w True))"
proof -
  have d: "list_all is_digit_ascii (decimal n)" using decimal_digits by (simp add: list_all_iff)
  have z: "is_digit_ascii (CHR ''0'')" by (simp add: is_digit_ascii_def char_code_def)
  show 1: "list_all is_digit_ascii (FmtNum n w True)" using d z by (auto simp: FmtNum_def Let_def list_all_iff)
  show 2: "FmtNum n w True \<noteq> []" by (simp add: FmtNum_def Let_def)
  show "undecimal (FmtNum n w True) = n" by (simp add: FmtNum_def Let_def undecimal_zeros)
  show "is_digit_ascii (hd (FmtNum n w True))" using 1 2 by (cases "FmtNum n w True") simp_all
qed

lemma digit_not_space: "is_digit_ascii c \<Longrightarrow> \<not> is_space_c c \<and> c \<noteq> CHR ''-'' \<and> c \<noteq> CHR ''+''"
  by (auto simp: is_digit_ascii_def is_space_c_def char_code_def)

lemma scan_hd_digits:
  assumes d: "list_all is_digit_ascii ds" "ds \<noteq> []"
    and r: "case w of None \<Rightarrow> (r = [] \<or> \<not> is_digit_ascii (hd r)) | Some n \<Rightarrow> length ds = n"
  shows "scan_hd w (ds @ r) = Some (of_nat (undecimal ds), r)"
proof -
  have h: "is_digit_ascii (hd ds)" using d by (cases ds) simp_all
  note ns = digit_not_space [OF h]
  have s: "dropWhile is_space_c (ds @ r) = ds @ r" using d(2) ns by (cases ds) simp_all
  have "takeWhile is_digit_ascii (ds @ r) = ds" if "r = [] \<or> \<not> is_digit_ascii (hd r)"
    using d(1) that by (cases r) (auto simp: list_all_iff takeWhile_eq_all_conv [THEN iffD2])
  then have sd: "scan_digits w (ds @ r) = ds"
    using r d(1) by (auto simp: scan_digits_def list_all_iff takeWhile_eq_all_conv split: option.splits)
  show ?thesis using d(2) ns sd unfolding scan_hd_def Let_def s by simp
qed

text \<open>The items of the formats on a date made of padded numbers.\<close>

lemma scan_FmtNum:
  "r = [] \<or> \<not> is_digit_ascii (hd r) \<Longrightarrow> scan (ScanNum None # f) (FmtNum n w True @ r) = of_nat n # scan f r"
  "length (FmtNum n w True) = k \<Longrightarrow> scan (ScanNum (Some k) # f) (FmtNum n w True @ r) = of_nat n # scan f r"
  using scan_hd_digits [OF FmtNum_digits(1,2) [of n w], where w = None and r = r]
    scan_hd_digits [OF FmtNum_digits(1,2) [of n w], where w = "Some k" and r = r]
  by (simp_all add: FmtNum_digits(3))

lemma not_digit: "\<not> is_digit_ascii (CHR ''-'')" "\<not> is_digit_ascii (CHR ''T'')" "\<not> is_digit_ascii (CHR '':'')"
  "\<not> is_digit_ascii (CHR ''.'')" "\<not> is_digit_ascii (CHR ''Z'')"
  by (simp_all add: is_digit_ascii_def char_code_def)

lemma length_FmtNum: "n < 10 ^ Suc k \<Longrightarrow> length (FmtNum n (Suc k) True) = Suc k"
  using length_decimal [of n k] by (simp add: FmtNum_def Let_def)

lemma scan_extended:
  "scan ext_format (format_fields st bMilliSec False) =
     [wYear st, wMonth st, wDay st, wHour st, wMinute st, wSecond st] @ (if bMilliSec then [wMilliseconds st] else [])"
  by (simp add: ext_format_def format_fields_def scan_FmtNum not_digit del: scan.simps(3))

text \<open>The extended format reads the date without separators as one number.\<close>

lemma basic_not_extended:
  "length (scan ext_format (format_fields st bMilliSec True)) < 3"
proof -
  have digits: "list_all is_digit_ascii (FmtNum (unat (wYear st)) 4 True @ FmtNum (unat (wMonth st)) 2 True @ FmtNum (unat (wDay st)) 2 True)"
    using FmtNum_digits(1) by simp
  obtain ds r where f: "format_fields st bMilliSec True = ds @ CHR ''T'' # r" "list_all is_digit_ascii ds" "ds \<noteq> []"
    using digits FmtNum_digits(2) unfolding format_fields_def Let_def by (simp add: append_assoc [symmetric] del: append_assoc)
  have "scan_hd None (ds @ CHR ''T'' # r) = Some (of_nat (undecimal ds), CHR ''T'' # r)"
    using scan_hd_digits [OF f(2,3), where w = None and r = "CHR ''T'' # r"] not_digit by simp
  then show ?thesis unfolding f(1) ext_format_def by simp
qed

lemma scan_basic:
  assumes "unat (wYear st) < 10000" "unat (wMonth st) < 100" "unat (wDay st) < 100" "unat (wHour st) < 100"
    "unat (wMinute st) < 100" "unat (wSecond st) < 100"
  shows "scan basic_format (format_fields st bMilliSec True) =
     [wYear st, wMonth st, wDay st, wHour st, wMinute st, wSecond st]"
proof -
  have F4: "n < 10000 \<Longrightarrow> length (FmtNum n 4 True) = 4" for n using length_FmtNum [of n 3] by simp
  have F2: "n < 100 \<Longrightarrow> length (FmtNum n 2 True) = 2" for n using length_FmtNum [of n 1] by (simp add: numeral_2_eq_2)
  have l: "length (FmtNum (unat (wYear st)) 4 True) = 4" "length (FmtNum (unat (wMonth st)) 2 True) = 2"
    "length (FmtNum (unat (wDay st)) 2 True) = 2" "length (FmtNum (unat (wHour st)) 2 True) = 2"
    "length (FmtNum (unat (wMinute st)) 2 True) = 2" "length (FmtNum (unat (wSecond st)) 2 True) = 2"
    using assms F4 F2 by blast+
  have tail: "scan [ScanNum (Some 3)] (CHR ''Z'' # s) = []" "scan [ScanNum (Some 3)] (CHR ''.'' # s) = []" for s
    by (simp_all add: scan_hd_def Let_def scan_digits_def is_space_c_def char_code_def not_digit)
  show ?thesis
    by (simp add: basic_format_def format_fields_def scan_FmtNum(2) l tail del: scan.simps(3))
qed

lemma format_parse:
  assumes "bBasic \<longrightarrow> unat (wYear st) < 10000 \<and> unat (wMonth st) < 100 \<and> unat (wDay st) < 100
    \<and> unat (wHour st) < 100 \<and> unat (wMinute st) < 100 \<and> unat (wSecond st) < 100"
  shows "ParseISO8601Date env (FormatISO8601Date_st env st False bMilliSec bBasic) False =
    (case SystemTimeToFileTime env (st\<lparr> wDayOfWeek := 0, wMilliseconds := (if bMilliSec \<and> \<not> bBasic then wMilliseconds st else 0) \<rparr>) of
       Inl e \<Rightarrow> (e, 0) | Inr ft \<Rightarrow> (0, ft))"
proof -
  have "scan_date (format_fields st bMilliSec bBasic)
    = Some (st\<lparr> wDayOfWeek := 0, wMilliseconds := (if bMilliSec \<and> \<not> bBasic then wMilliseconds st else 0) \<rparr>)"
  proof (cases bBasic)
    case False
    then show ?thesis by (simp add: scan_date_def scan_extended Let_def store_fields_def zero_time_def)
  next
    case True
    then have "scan basic_format (format_fields st bMilliSec True) =
     [wYear st, wMonth st, wDay st, wHour st, wMinute st, wSecond st]" using assms scan_basic by blast
    moreover obtain vs where vs: "scan ext_format (format_fields st bMilliSec True) = vs" "length vs < 3"
      using basic_not_extended by blast
    ultimately show ?thesis using True vs by (simp add: scan_date_def Let_def store_fields_def zero_time_def)
  qed
  then show ?thesis by (simp add: ParseISO8601Date_def FormatISO8601Date_st_def)
qed

section \<open>Properties\<close>

text \<open>C23: A date formatted in UTC parses back to the same date, to the second, and to the
  millisecond when it was formatted with milliseconds in the extended form; the basic form (no
  separators) needs a year of at most four digits and the other fields of at most two.\<close>

theorem ISO8601_roundtrip:
  assumes "bBasic \<longrightarrow> unat (wYear st) < 10000 \<and> unat (wMonth st) < 100 \<and> unat (wDay st) < 100
    \<and> unat (wHour st) < 100 \<and> unat (wMinute st) < 100 \<and> unat (wSecond st) < 100"
  shows "ParseISO8601Date env (FormatISO8601Date_st env st False bMilliSec bBasic) False =
    (case SystemTimeToFileTime env (st\<lparr> wDayOfWeek := 0, wMilliseconds := (if bMilliSec \<and> \<not> bBasic then wMilliseconds st else 0) \<rparr>) of
       Inl e \<Rightarrow> (e, 0) | Inr ft \<Rightarrow> (0, ft))"
  using assms by (rule format_parse)

lemma ISO8601_roundtrip_witness:
  "ParseISO8601Date \<lparr> SystemTimeToFileTime = (\<lambda>st. Inr (ucast (wYear st))), FileTimeToSystemTime = (\<lambda>_. None),
      TzSpecificLocalTimeToSystemTime = Inr, SystemTimeToTzSpecificLocalTime = Some \<rparr>
    (FormatISO8601Date_st \<lparr> SystemTimeToFileTime = (\<lambda>st. Inr (ucast (wYear st))), FileTimeToSystemTime = (\<lambda>_. None),
      TzSpecificLocalTimeToSystemTime = Inr, SystemTimeToTzSpecificLocalTime = Some \<rparr>
       (zero_time\<lparr> wYear := 2024, wMonth := 2, wDay := 29 \<rparr>) False False True) False = (0, 2024)"
  by (subst ISO8601_roundtrip) (simp_all add: zero_time_def)

end
