(* ===== verification/Listing.thy ===== *)
theory Listing
  imports S3Errors Uri Xml Dates "HOL-Library.Char_ord" "HOL-Library.List_Lexorder"
begin

text \<open>
  Listing a folder (ECSConnection.cpp, XmlDirListingS3CB, XmlDirListingS3VersionsCB and
  DirListingInternal): the answer to each request is scanned with callbacks that collect the
  entries, and requests go on from the marker of the last answer. The requests and the XML
  reader are parameters; the loop over pages has fuel, \<open>None\<close> when it runs out.
\<close>

declare IfError_SetError [simp]

section \<open>Entries\<close>

record S3_SYSTEM_METADATA =
  ftLastMod :: FILETIME
  llSize :: ULONGLONG
  dwRetentionSeconds :: DWORD
  bIsLatest :: bool
  bDeleted :: bool
  sVersionId :: string
  sETag :: string
  sOwnerDisplayName :: string
  sOwnerID :: string

definition metadata_new :: S3_SYSTEM_METADATA where
  "metadata_new = \<lparr> ftLastMod = 0, llSize = 0, dwRetentionSeconds = 0, bIsLatest = False, bDeleted = False,
     sVersionId = [], sETag = [], sOwnerDisplayName = [], sOwnerID = [] \<rparr>"

text \<open>\<open>Empty\<close> leaves the owner id.\<close>

definition metadata_Empty :: "S3_SYSTEM_METADATA \<Rightarrow> S3_SYSTEM_METADATA" where
  "metadata_Empty m = m\<lparr> ftLastMod := 0, llSize := 0, dwRetentionSeconds := 0, sETag := [], sOwnerDisplayName := [],
     bIsLatest := False, bDeleted := False, sVersionId := [] \<rparr>"

record DIR_ENTRY =
  sName :: string
  bDir :: bool
  Properties :: S3_SYSTEM_METADATA

record XML_DIR_LISTING_CONTEXT =
  sObjName :: string
  bGotRootElement :: bool
  bGotKey :: bool
  DirList :: "DIR_ENTRY list"
  Rec :: DIR_ENTRY
  pszSearchName :: "string option"
  RetSearchName :: string
  bIsTruncated :: bool
  sPrefix :: string
  sPrefixNoObj :: string
  sS3NextMarker :: string
  sS3NextKeyMarker :: string
  sS3NextVersionIdMarker :: string
  sLastFullObjName :: string

definition EmptyRec :: "DIR_ENTRY \<Rightarrow> DIR_ENTRY" where
  "EmptyRec r = r\<lparr> sName := [], Properties := metadata_Empty (Properties r) \<rparr>"

definition map_rec :: "(DIR_ENTRY \<Rightarrow> DIR_ENTRY) \<Rightarrow> XML_DIR_LISTING_CONTEXT \<Rightarrow> XML_DIR_LISTING_CONTEXT" where
  "map_rec f c = c\<lparr> Rec := f (Rec c) \<rparr>"

definition map_props :: "(S3_SYSTEM_METADATA \<Rightarrow> S3_SYSTEM_METADATA) \<Rightarrow> XML_DIR_LISTING_CONTEXT \<Rightarrow> XML_DIR_LISTING_CONTEXT" where
  "map_props f = map_rec (\<lambda>r. r\<lparr> Properties := f (Properties r) \<rparr>)"

section \<open>Pieces of the callbacks\<close>

text \<open>The prefix, less the object name it ends with.\<close>

definition got_prefix :: "string \<Rightarrow> XML_DIR_LISTING_CONTEXT \<Rightarrow> XML_DIR_LISTING_CONTEXT" where
  "got_prefix v c = c\<lparr> sPrefix := v, sPrefixNoObj :=
     (if sObjName c \<noteq> [] \<and> drop (length v - length (sObjName c)) v = sObjName c
      then take (length v - length (sObjName c)) v else v) \<rparr>"

definition drop_slash :: "string \<Rightarrow> string" where
  "drop_slash s = (if s \<noteq> [] \<and> last s = CHR ''/'' then butlast s else s)"

definition got_key :: "string \<Rightarrow> XML_DIR_LISTING_CONTEXT \<Rightarrow> XML_DIR_LISTING_CONTEXT" where
  "got_key v c =
     (let pre = sPrefixNoObj c;
          name = (if eq_nocase pre (take (length pre) v) then drop (length pre) v else v) in
      map_rec (\<lambda>r. r\<lparr> sName := drop_slash name, bDir := (name \<noteq> [] \<and> last name = CHR ''/'') \<rparr>) (c\<lparr> bGotKey := True \<rparr>))"

definition got_common_prefix :: "string \<Rightarrow> XML_DIR_LISTING_CONTEXT \<Rightarrow> XML_DIR_LISTING_CONTEXT" where
  "got_common_prefix v c =
     (let pre = sPrefixNoObj c in
      map_rec (\<lambda>r. r\<lparr> sName := (if pre = take (length pre) v then drop_slash (drop (length pre) v) else v), bDir := True \<rparr>) c)"

text \<open>\<open>_stscanf_s\<close> with \<open>%I64u\<close>; nothing is stored when there is no number.\<close>

definition scan_u64 :: "string \<Rightarrow> ULONGLONG \<Rightarrow> ULONGLONG" where
  "scan_u64 s old =
     (let t = dropWhile is_space_c s;
          neg = (t \<noteq> [] \<and> hd t = CHR ''-'');
          u = (if t \<noteq> [] \<and> (hd t = CHR ''-'' \<or> hd t = CHR ''+'') then tl t else t);
          ds = takeWhile is_digit_ascii u; n = undecimal ds in
      if ds = [] then old else if n \<ge> 2 ^ 64 then - 1 else if neg then - of_nat n else of_nat n)"

definition got_date :: "date_env \<Rightarrow> string \<Rightarrow> XML_DIR_LISTING_CONTEXT \<Rightarrow> DWORD \<times> XML_DIR_LISTING_CONTEXT" where
  "got_date denv v c =
     (let (dwError, ft) = ParseISO8601Date denv v False;
          c' = map_props (\<lambda>m. m\<lparr> ftLastMod := ft \<rparr>) c in
      if IfError (S3_ERROR_new dwError) then (dwError, c') else (0, c'))"

text \<open>An entry is appended unless it is a folder already listed.\<close>

definition push_entry :: "XML_DIR_LISTING_CONTEXT \<Rightarrow> XML_DIR_LISTING_CONTEXT" where
  "push_entry c =
     (let r = Rec c; bDup = (bDir r \<and> (\<exists>e \<in> set (DirList c). bDir e \<and> sName e = sName r)) in
      if bDup then c
      else c\<lparr> DirList := DirList c @ [r],
              RetSearchName := (if pszSearchName c = Some (sName r) then sName r else RetSearchName c) \<rparr>)"

section \<open>The callback for objects\<close>

definition XmlDirListingS3CB :: "date_env \<Rightarrow> XML_DIR_LISTING_CONTEXT xml_cb" where
  "XmlDirListingS3CB denv ev c =
     (case ev of
        XmlText sXmlPath v \<Rightarrow>
          if eq_nocase sXmlPath ''//ListBucketResult/Prefix'' then (0, got_prefix v c)
          else if eq_nocase sXmlPath ''//ListBucketResult/IsTruncated'' then (0, c\<lparr> bIsTruncated := (v = ''true'') \<rparr>)
          else if eq_nocase sXmlPath ''//ListBucketResult/NextMarker'' then (0, c\<lparr> sS3NextMarker := v \<rparr>)
          else if eq_nocase sXmlPath ''//ListBucketResult/Contents/Key'' then (0, got_key v (c\<lparr> sLastFullObjName := v \<rparr>))
          else if eq_nocase sXmlPath ''//ListBucketResult/Contents/LastModified'' then got_date denv v c
          else if eq_nocase sXmlPath ''//ListBucketResult/Contents/ETag'' then (0, map_props (\<lambda>m. m\<lparr> sETag := v \<rparr>) c)
          else if eq_nocase sXmlPath ''//ListBucketResult/Contents/Size''
          then (0, map_props (\<lambda>m. m\<lparr> llSize := scan_u64 v (llSize m) \<rparr>) c)
          else if eq_nocase sXmlPath ''//ListBucketResult/Contents/Owner/ID'' then (0, map_props (\<lambda>m. m\<lparr> sOwnerID := v \<rparr>) c)
          else if eq_nocase sXmlPath ''//ListBucketResult/Contents/Owner/DisplayName''
          then (0, map_props (\<lambda>m. m\<lparr> sOwnerDisplayName := v \<rparr>) c)
          else if eq_nocase sXmlPath ''//ListBucketResult/CommonPrefixes/Prefix'' then (0, got_common_prefix v c)
          else (0, c)
      | XmlEndElement sXmlPath \<Rightarrow>
          if eq_nocase sXmlPath ''//ListBucketResult/Contents'' \<or> eq_nocase sXmlPath ''//ListBucketResult/CommonPrefixes''
          then (if sName (Rec c) \<noteq> [] then (0, map_rec EmptyRec (push_entry c)) else (0, c))
          else (0, c)
      | XmlElement sXmlPath _ \<Rightarrow>
          if eq_nocase sXmlPath ''//ListBucketResult'' then (0, c\<lparr> bGotRootElement := True \<rparr>) else (0, c))"

section \<open>The callback for versions\<close>

definition XmlDirListingS3VersionsCB :: "date_env \<Rightarrow> XML_DIR_LISTING_CONTEXT xml_cb" where
  "XmlDirListingS3VersionsCB denv ev c =
     (case ev of
        XmlText sXmlPath v \<Rightarrow>
          if eq_nocase sXmlPath ''//ListVersionsResult/Prefix'' then (0, got_prefix v c)
          else if eq_nocase sXmlPath ''//ListVersionsResult/IsTruncated'' then (0, c\<lparr> bIsTruncated := (v = ''true'') \<rparr>)
          else if eq_nocase sXmlPath ''//ListVersionsResult/NextKeyMarker'' then (0, c\<lparr> sS3NextKeyMarker := v \<rparr>)
          else if eq_nocase sXmlPath ''//ListVersionsResult/NextVersionIdMarker'' then (0, c\<lparr> sS3NextVersionIdMarker := v \<rparr>)
          else if eq_nocase sXmlPath ''//ListVersionsResult/Version/Key''
            \<or> eq_nocase sXmlPath ''//ListVersionsResult/DeleteMarker/Key'' then (0, got_key v c)
          else if eq_nocase sXmlPath ''//ListVersionsResult/Version/LastModified''
            \<or> eq_nocase sXmlPath ''//ListVersionsResult/DeleteMarker/LastModified'' then got_date denv v c
          else if eq_nocase sXmlPath ''//ListVersionsResult/Version/ETag'' then (0, map_props (\<lambda>m. m\<lparr> sETag := v \<rparr>) c)
          else if eq_nocase sXmlPath ''//ListVersionsResult/Version/Size''
          then (0, map_props (\<lambda>m. m\<lparr> llSize := scan_u64 v (llSize m) \<rparr>) c)
          else if eq_nocase sXmlPath ''//ListVersionsResult/Version/Owner/ID''
            \<or> eq_nocase sXmlPath ''//ListVersionsResult/DeleteMarker/Owner/ID'' then (0, map_props (\<lambda>m. m\<lparr> sOwnerID := v \<rparr>) c)
          else if eq_nocase sXmlPath ''//ListVersionsResult/Version/Owner/DisplayName''
            \<or> eq_nocase sXmlPath ''//ListVersionsResult/DeleteMarker/Owner/DisplayName''
          then (0, map_props (\<lambda>m. m\<lparr> sOwnerDisplayName := v \<rparr>) c)
          else if eq_nocase sXmlPath ''//ListVersionsResult/Version/VersionId''
            \<or> eq_nocase sXmlPath ''//ListVersionsResult/DeleteMarker/VersionId''
          then (0, map_props (\<lambda>m. m\<lparr> sVersionId := (if v = ''null'' then [] else v) \<rparr>) c)
          else if eq_nocase sXmlPath ''//ListVersionsResult/Version/IsLatest''
            \<or> eq_nocase sXmlPath ''//ListVersionsResult/DeleteMarker/IsLatest''
          then (0, map_props (\<lambda>m. m\<lparr> bIsLatest := (v = ''true'') \<rparr>) c)
          else if eq_nocase sXmlPath ''//ListVersionsResult/CommonPrefixes/Prefix'' then (0, got_common_prefix v c)
          else (0, c)
      | XmlEndElement sXmlPath \<Rightarrow>
          if eq_nocase sXmlPath ''//ListVersionsResult/Version'' \<or> eq_nocase sXmlPath ''//ListVersionsResult/DeleteMarker''
            \<or> eq_nocase sXmlPath ''//ListVersionsResult/CommonPrefixes''
          then (0, map_rec EmptyRec (push_entry
                 (if eq_nocase sXmlPath ''//ListVersionsResult/DeleteMarker''
                    \<and> \<not> (bDir (Rec c) \<and> (\<exists>e \<in> set (DirList c). bDir e \<and> sName e = sName (Rec c)))
                  then map_props (\<lambda>m. m\<lparr> bDeleted := True \<rparr>) c else c)))
          else (0, c)
      | XmlElement sXmlPath _ \<Rightarrow>
          if eq_nocase sXmlPath ''//ListVersionsResult'' then (0, c\<lparr> bGotRootElement := True \<rparr>) else (0, c))"

section \<open>The requests\<close>

record 'w list_env =
  le_request :: "string \<Rightarrow> 'w \<Rightarrow> (S3_ERROR \<times> string) \<times> 'w"
  le_reader :: "string \<Rightarrow> xml_node list \<times> DWORD"
  le_dates :: date_env
  le_dwS3BucketListingMax :: DWORD

record LISTING_NEXT_MARKER_CONTEXT =
  bTruncated :: bool
  dwMaxNum :: DWORD
  nm_sS3NextMarker :: string
  nm_sS3NextKeyMarker :: string
  nm_sS3NextVersionIdMarker :: string

definition marker_Clear :: "LISTING_NEXT_MARKER_CONTEXT \<Rightarrow> LISTING_NEXT_MARKER_CONTEXT" where
  "marker_Clear m = m\<lparr> bTruncated := False, nm_sS3NextMarker := [], nm_sS3NextKeyMarker := [], nm_sS3NextVersionIdMarker := [] \<rparr>"

text \<open>The resource and whether a query has begun.\<close>

definition AppendQuery :: "string \<times> bool \<Rightarrow> string \<Rightarrow> string \<times> bool" where
  "AppendQuery r sQuery = (fst r @ (if snd r then ''&'' else ''?'') @ sQuery, True)"

definition append_if :: "bool \<Rightarrow> string \<Rightarrow> string \<times> bool \<Rightarrow> string \<times> bool" where
  "append_if b sQuery r = (if b then AppendQuery r sQuery else r)"

definition max_keys :: "DWORD \<Rightarrow> DWORD option \<Rightarrow> bool \<Rightarrow> DWORD" where
  "max_keys listing_max pNextMax bSingle =
     (case pNextMax of
        Some n \<Rightarrow> if n \<noteq> 0 then n else if bSingle then 10
                  else if listing_max \<ge> 10 \<and> listing_max < 1000 then listing_max else 0
      | None \<Rightarrow> if bSingle then 10 else if listing_max \<ge> 10 \<and> listing_max < 1000 then listing_max else 0)"

definition listing_resource ::
  "DWORD \<Rightarrow> string \<Rightarrow> string \<Rightarrow> bool \<Rightarrow> bool \<Rightarrow> char \<Rightarrow> DWORD option \<Rightarrow> string \<times> string \<times> string \<Rightarrow> string" where
  "listing_resource listing_max sPathIn pszObjName bS3Versions bSingle cDelimiter pNextMax markers =
     (let (sBucket, sPrefix) =
            (case str_find_from ''/'' 1 sPathIn of
               None \<Rightarrow> (sPathIn, [])
             | Some iSlash \<Rightarrow> (take iSlash sPathIn, UriEncode (drop (iSlash + 1) sPathIn @ pszObjName) AllSAFE));
          dwMaxKeys = max_keys listing_max pNextMax bSingle;
          (m, km, vm) = markers in
      fst (append_if (vm \<noteq> []) (''version-id-marker='' @ UriEncode vm AllSAFE)
            (append_if (km \<noteq> []) (''key-marker='' @ UriEncode km AllSAFE)
              (append_if (m \<noteq> []) (''marker='' @ UriEncode m AllSAFE)
                (append_if (sPrefix \<noteq> []) (''prefix='' @ sPrefix)
                  (append_if (dwMaxKeys \<noteq> 0) (''max-keys='' @ decimal (unat dwMaxKeys))
                    (append_if (cDelimiter \<noteq> CHR 0x00) (''delimiter='' @ [cDelimiter])
                      (append_if bS3Versions ''versions'' (sBucket @ ''/'', False)))))))))"

text \<open>What one answer does to the context: \<open>Inl\<close> is the error thrown.\<close>

definition malformed :: "string \<Rightarrow> S3_ERROR \<Rightarrow> S3_ERROR" where
  "malformed sResource e = SetError (e\<lparr> dwHttpError := 500, S3Error := S3_ERROR_MalformedXML, sS3Code := ''MalformedXML'',
     sS3RequestID := ''GET'', sS3Resource := sResource \<rparr>)"

definition scan_page ::
  "'w list_env \<Rightarrow> bool \<Rightarrow> string \<Rightarrow> S3_ERROR \<Rightarrow> string \<Rightarrow> XML_DIR_LISTING_CONTEXT \<Rightarrow> (S3_ERROR \<times> XML_DIR_LISTING_CONTEXT) + XML_DIR_LISTING_CONTEXT" where
  "scan_page env bS3Versions sResource Error RetData c =
     (if IfError Error then Inl (Error, c)
      else if RetData = [] then Inl (SetError (Error\<lparr> dwHttpError := 500, S3Error := S3_ERROR_UNKNOWN \<rparr>), c)
      else if take 5 RetData \<noteq> ''<?xml'' then Inl (malformed sResource Error, c)
      else
        let (hr, c1) = ScanXml (if bS3Versions then XmlDirListingS3VersionsCB (le_dates env) else XmlDirListingS3CB (le_dates env))
                         (le_reader env RetData) (c\<lparr> bGotRootElement := False \<rparr>) in
        if FAILED hr then Inl (S3_ERROR_new hr, c1)
        else if sPrefix c1 \<noteq> [] \<and> \<not> bIsTruncated c1 \<and> DirList c1 = [] \<and> \<not> bGotKey c1
        then Inl (SetError ((S3_ERROR_new 0)\<lparr> dwHttpError := 404, S3Error := S3_ERROR_NoSuchKey \<rparr>), c1)
        else Inr (if bIsTruncated c1 \<and> \<not> bS3Versions \<and> sS3NextMarker c1 = []
                  then c1\<lparr> sS3NextMarker := sLastFullObjName c1 \<rparr> else c1))"

definition next_markers :: "XML_DIR_LISTING_CONTEXT \<Rightarrow> string \<times> string \<times> string" where
  "next_markers c = (if bIsTruncated c then (sS3NextMarker c, sS3NextKeyMarker c, sS3NextVersionIdMarker c) else ([], [], []))"

definition save_markers :: "XML_DIR_LISTING_CONTEXT \<Rightarrow> LISTING_NEXT_MARKER_CONTEXT \<Rightarrow> LISTING_NEXT_MARKER_CONTEXT" where
  "save_markers c m = (if bIsTruncated c
     then m\<lparr> nm_sS3NextMarker := sS3NextMarker c, nm_sS3NextKeyMarker := sS3NextKeyMarker c,
            nm_sS3NextVersionIdMarker := sS3NextVersionIdMarker c, bTruncated := True \<rparr>
     else marker_Clear m)"

text \<open>The result: the error, the context and the markers for the caller.\<close>

type_synonym listing_result = "S3_ERROR \<times> XML_DIR_LISTING_CONTEXT \<times> LISTING_NEXT_MARKER_CONTEXT option"

fun listing_loop ::
  "'w list_env \<Rightarrow> string \<Rightarrow> string \<Rightarrow> bool \<Rightarrow> bool \<Rightarrow> char \<Rightarrow> nat \<Rightarrow> string \<times> string \<times> string
   \<Rightarrow> LISTING_NEXT_MARKER_CONTEXT option \<Rightarrow> XML_DIR_LISTING_CONTEXT \<Rightarrow> 'w \<Rightarrow> (listing_result \<times> 'w) option" where
  "listing_loop env sPathIn obj bS3Versions bSingle cDelimiter 0 markers pNext c w = None"
| "listing_loop env sPathIn obj bS3Versions bSingle cDelimiter (Suc fuel) markers pNext c w =
     (let markers = (case pNext of None \<Rightarrow> markers
            | Some n \<Rightarrow> (nm_sS3NextMarker n, nm_sS3NextKeyMarker n, nm_sS3NextVersionIdMarker n));
          pNext1 = map_option (\<lambda>n. n\<lparr> bTruncated := False \<rparr>) pNext in
      if sPathIn = [] then Some ((S3_ERROR_new 123, c, pNext1), w)
      else
        let sResource = listing_resource (le_dwS3BucketListingMax env) sPathIn obj bS3Versions bSingle cDelimiter
              (map_option dwMaxNum pNext) markers;
            ((e, RetData), w1) = le_request env sResource w;
            Error = SetError e in
        (case scan_page env bS3Versions sResource Error RetData c of
           Inl (err, c1) \<Rightarrow> Some ((err, c1, pNext1), w1)
         | Inr c1 \<Rightarrow>
             let pNext2 = map_option (save_markers c1) pNext1; next = next_markers c1 in
             if \<not> bGotRootElement c1
             then Some ((SetError (Error\<lparr> dwHttpError := 500, S3Error := S3_ERROR_MalformedXML \<rparr>), c1, pNext2), w1)
             else if pNext \<noteq> None \<or> next = ([], [], []) \<or> bSingle
             then Some ((Error, c1\<lparr> DirList := sort_key sName (DirList c1) \<rparr>, pNext2), w1)
             else listing_loop env sPathIn obj bS3Versions bSingle cDelimiter fuel next pNext c1 w1))"

definition listing_context :: "string \<Rightarrow> string option \<Rightarrow> string \<Rightarrow> XML_DIR_LISTING_CONTEXT" where
  "listing_context obj search ret = \<lparr> sObjName = obj, bGotRootElement = False, bGotKey = False, DirList = [],
     Rec = \<lparr> sName = [], bDir = False, Properties = metadata_new \<rparr>, pszSearchName = search, RetSearchName = ret,
     bIsTruncated = False, sPrefix = [], sPrefixNoObj = [], sS3NextMarker = [], sS3NextKeyMarker = [],
     sS3NextVersionIdMarker = [], sLastFullObjName = [] \<rparr>"

definition DirListingInternal ::
  "'w list_env \<Rightarrow> nat \<Rightarrow> string \<Rightarrow> string option \<Rightarrow> string \<Rightarrow> bool \<Rightarrow> bool \<Rightarrow> string
   \<Rightarrow> LISTING_NEXT_MARKER_CONTEXT option \<Rightarrow> char \<Rightarrow> 'w \<Rightarrow> (listing_result \<times> 'w) option" where
  "DirListingInternal env fuel pszPathIn search ret bS3Versions bSingle obj pNext cDelimiter w =
     listing_loop env pszPathIn obj bS3Versions bSingle cDelimiter fuel ([], [], []) pNext (listing_context obj search ret) w"

definition DirListing ::
  "'w list_env \<Rightarrow> nat \<Rightarrow> string \<Rightarrow> bool \<Rightarrow> string \<Rightarrow> LISTING_NEXT_MARKER_CONTEXT option \<Rightarrow> char \<Rightarrow> 'w
   \<Rightarrow> (listing_result \<times> 'w) option" where
  "DirListing env fuel pszPath bSingle obj pNext cDelimiter w =
     DirListingInternal env fuel pszPath None [] False bSingle obj pNext cDelimiter w"

definition DirListingS3Versions ::
  "'w list_env \<Rightarrow> nat \<Rightarrow> string \<Rightarrow> string \<Rightarrow> LISTING_NEXT_MARKER_CONTEXT option \<Rightarrow> char \<Rightarrow> 'w \<Rightarrow> (listing_result \<times> 'w) option" where
  "DirListingS3Versions env fuel pszPath obj pNext cDelimiter w =
     DirListingInternal env fuel pszPath None [] True False obj pNext cDelimiter w"

section \<open>What the callbacks keep\<close>

text \<open>A folder is listed once; unless versions are listed, no name is empty.\<close>

definition listed_ok :: "bool \<Rightarrow> XML_DIR_LISTING_CONTEXT \<Rightarrow> bool" where
  "listed_ok nonempty c \<longleftrightarrow> distinct (map sName (filter bDir (DirList c)))
     \<and> (nonempty \<longrightarrow> (\<forall>e \<in> set (DirList c). sName e \<noteq> []))"

lemma listed_okI: "listed_ok b c \<Longrightarrow> DirList c' = DirList c \<Longrightarrow> listed_ok b c'"
  by (simp add: listed_ok_def)

lemma DirList_simps [simp]:
  "DirList (map_rec f c) = DirList c" "DirList (map_props g c) = DirList c" "DirList (got_prefix v c) = DirList c"
  "DirList (got_key v c) = DirList c" "DirList (got_common_prefix v c) = DirList c"
  by (simp_all add: map_rec_def map_props_def got_prefix_def got_key_def got_common_prefix_def Let_def)

lemma got_date_DirList [simp]: "DirList (snd (got_date denv v c)) = DirList c"
  by (simp add: got_date_def Let_def split: prod.splits)

lemma push_entry_DirList:
  "DirList (push_entry c) = (if bDir (Rec c) \<and> sName (Rec c) \<in> set (map sName (filter bDir (DirList c)))
     then DirList c else DirList c @ [Rec c])"
  by (auto simp: push_entry_def Let_def image_iff)

lemma push_entry_ok:
  assumes "listed_ok b c" "b \<longrightarrow> sName (Rec c) \<noteq> []"
  shows "listed_ok b (push_entry c)"
proof (cases "bDir (Rec c) \<and> sName (Rec c) \<in> set (map sName (filter bDir (DirList c)))")
  case True
  then have "DirList (push_entry c) = DirList c" unfolding push_entry_DirList by simp
  then show ?thesis by (rule listed_okI [OF assms(1)])
next
  case False
  then have "DirList (push_entry c) = DirList c @ [Rec c]" unfolding push_entry_DirList by simp
  then show ?thesis using assms False unfolding listed_ok_def by (cases "bDir (Rec c)") auto
qed

lemma S3CB_DirList:
  "DirList (snd (XmlDirListingS3CB denv ev c)) = DirList c
   \<or> sName (Rec c) \<noteq> [] \<and> DirList (snd (XmlDirListingS3CB denv ev c)) = DirList (push_entry c)"
  unfolding XmlDirListingS3CB_def by (cases ev) simp_all

lemma S3CB_ok: "listed_ok True c \<Longrightarrow> listed_ok True (snd (XmlDirListingS3CB denv ev c))"
  using S3CB_DirList [of denv ev c] push_entry_ok [of True c] by (elim disjE conjE) (blast intro: listed_okI)+

lemma VersionsCB_DirList:
  "DirList (snd (XmlDirListingS3VersionsCB denv ev c)) = DirList c
   \<or> DirList (snd (XmlDirListingS3VersionsCB denv ev c)) = DirList (push_entry c)
   \<or> DirList (snd (XmlDirListingS3VersionsCB denv ev c)) = DirList (push_entry (map_props (bDeleted_update (\<lambda>_. True)) c))"
  unfolding XmlDirListingS3VersionsCB_def by (cases ev) simp_all

lemma VersionsCB_ok: "listed_ok False c \<Longrightarrow> listed_ok False (snd (XmlDirListingS3VersionsCB denv ev c))"
proof -
  assume c: "listed_ok False c"
  then have "listed_ok False (map_props (bDeleted_update (\<lambda>_. True)) c)"
    by (rule listed_okI) simp
  then have "listed_ok False (push_entry (map_props (bDeleted_update (\<lambda>_. True)) c))" "listed_ok False (push_entry c)"
    using c by (simp_all add: push_entry_ok)
  then show ?thesis using c VersionsCB_DirList [of denv ev c] by (elim disjE) (blast intro: listed_okI)+
qed

lemma scan_page_ok:
  assumes "scan_page env bV res e data c = Inr c'" "listed_ok (\<not> bV) c"
  shows "listed_ok (\<not> bV) c'"
proof -
  define c0 where "c0 = c\<lparr> bGotRootElement := False \<rparr>"
  have 0: "listed_ok (\<not> bV) c0" using listed_okI [OF assms(2)] by (simp add: c0_def)
  define cb where "cb = (if bV then XmlDirListingS3VersionsCB (le_dates env) else XmlDirListingS3CB (le_dates env))"
  have "listed_ok (\<not> bV) (snd (cb ev c1))" if "listed_ok (\<not> bV) c1" for ev c1
    using that S3CB_ok VersionsCB_ok by (cases bV) (simp_all add: cb_def)
  then have 1: "listed_ok (\<not> bV) (snd (ScanXml cb (le_reader env data) c0))"
    using ScanXml_keeps [of "listed_ok (\<not> bV)" cb] 0 by blast
  obtain hr c1 where s: "ScanXml cb (le_reader env data) c0 = (hr, c1)" by force
  have "DirList c' = DirList c1"
    using assms(1) s unfolding scan_page_def cb_def [symmetric] c0_def [symmetric] by (auto split: if_splits)
  then show ?thesis using listed_okI [of "\<not> bV" c1 c'] 1 s by simp
qed

lemma IfError_new: "IfError (S3_ERROR_new hr) = (hr \<noteq> 0)"
  by (simp add: IfError_def S3_ERROR_new_def)

lemma FAILED_nonzero: "FAILED hr \<Longrightarrow> hr \<noteq> 0"
  by auto

lemma scan_page_error: "scan_page env bV res e data c = Inl (err, c') \<Longrightarrow> IfError err"
  by (auto simp: scan_page_def malformed_def IfError_http IfError_new Let_def dest: FAILED_nonzero split: if_splits prod.splits)

text \<open>One round of the loop that does not end in an error.\<close>

definition round_markers :: "LISTING_NEXT_MARKER_CONTEXT option \<Rightarrow> string \<times> string \<times> string \<Rightarrow> string \<times> string \<times> string" where
  "round_markers pNext ms = (case pNext of None \<Rightarrow> ms
     | Some n \<Rightarrow> (nm_sS3NextMarker n, nm_sS3NextKeyMarker n, nm_sS3NextVersionIdMarker n))"

lemma listing_roundE:
  assumes run: "listing_loop env path obj bV bS d (Suc fuel) ms pNext c w = Some ((e, c', m), w')" and ok: "\<not> IfError e"
  obtains e1 data w1 c1 where "path \<noteq> []"
    "le_request env (listing_resource (le_dwS3BucketListingMax env) path obj bV bS d (map_option dwMaxNum pNext)
       (round_markers pNext ms)) w = ((e1, data), w1)"
    "scan_page env bV (listing_resource (le_dwS3BucketListingMax env) path obj bV bS d (map_option dwMaxNum pNext)
       (round_markers pNext ms)) (SetError e1) data c = Inr c1"
    "bGotRootElement c1"
    "(pNext \<noteq> None \<or> next_markers c1 = ([], [], []) \<or> bS) \<and> e = SetError e1 \<and> w' = w1
       \<and> c' = c1\<lparr> DirList := sort_key sName (DirList c1) \<rparr>
     \<or> pNext = None \<and> \<not> bS \<and> next_markers c1 \<noteq> ([], [], [])
       \<and> listing_loop env path obj bV bS d fuel (next_markers c1) pNext c1 w1 = Some ((e, c', m), w')"
proof -
  have path: "path \<noteq> []" using run ok by (auto simp: Let_def IfError_new)
  define res where "res = listing_resource (le_dwS3BucketListingMax env) path obj bV bS d (map_option dwMaxNum pNext)
     (round_markers pNext ms)"
  obtain e1 data w1 where q: "le_request env res w = ((e1, data), w1)" by (metis prod.exhaust)
  have unf: "listing_loop env path obj bV bS d (Suc fuel) ms pNext c w =
      (case scan_page env bV res (SetError e1) data c of
         Inl (err, c1) \<Rightarrow> Some ((err, c1, map_option (\<lambda>n. n\<lparr> bTruncated := False \<rparr>) pNext), w1)
       | Inr c1 \<Rightarrow>
           let pNext2 = map_option (save_markers c1) (map_option (\<lambda>n. n\<lparr> bTruncated := False \<rparr>) pNext); next = next_markers c1 in
           if \<not> bGotRootElement c1
           then Some ((SetError ((SetError e1)\<lparr> dwHttpError := 500, S3Error := S3_ERROR_MalformedXML \<rparr>), c1, pNext2), w1)
           else if pNext \<noteq> None \<or> next = ([], [], []) \<or> bS
           then Some ((SetError e1, c1\<lparr> DirList := sort_key sName (DirList c1) \<rparr>, pNext2), w1)
           else listing_loop env path obj bV bS d fuel next pNext c1 w1)"
    using path q by (simp add: Let_def res_def round_markers_def)
  show thesis
  proof (cases "scan_page env bV res (SetError e1) data c")
    case (Inl a)
    obtain err c2 where a: "a = (err, c2)" by force
    have "e = err" using run Inl a unfolding unf by simp
    then show thesis using ok scan_page_error [OF Inl [unfolded a]] by simp
  next
    case (Inr c1)
    have root: "bGotRootElement c1" using run ok Inr unfolding unf by (auto simp: Let_def IfError_http split: if_splits)
    show thesis
      by (rule that [OF path q [unfolded res_def] Inr [unfolded res_def] root])
        (use run Inr root in \<open>unfold unf, auto simp: Let_def split: if_splits\<close>)
  qed
qed

lemma listing_loop_ok:
  "\<lbrakk> listing_loop env path obj bV bS d fuel ms pNext c w = Some ((e, c', m), w'); listed_ok (\<not> bV) c; \<not> IfError e \<rbrakk>
   \<Longrightarrow> listed_ok (\<not> bV) c' \<and> sorted (map sName (DirList c'))"
proof (induction fuel arbitrary: ms c w)
  case (Suc fuel)
  obtain e1 data w1 c1 res where r: "scan_page env bV res (SetError e1) data c = Inr c1"
    "(pNext \<noteq> None \<or> next_markers c1 = ([], [], []) \<or> bS) \<and> e = SetError e1 \<and> w' = w1
       \<and> c' = c1\<lparr> DirList := sort_key sName (DirList c1) \<rparr>
     \<or> pNext = None \<and> \<not> bS \<and> next_markers c1 \<noteq> ([], [], [])
       \<and> listing_loop env path obj bV bS d fuel (next_markers c1) pNext c1 w1 = Some ((e, c', m), w')"
    by (rule listing_roundE [OF Suc.prems(1,3)]) blast
  note ok1 = scan_page_ok [OF r(1) Suc.prems(2)]
  have s: "distinct (map sName (filter bDir (sort_key sName (DirList c1)))) = distinct (map sName (filter bDir (DirList c1)))"
    by (simp add: filter_sort distinct_map)
  show ?case
  proof (cases "pNext = None \<and> \<not> bS \<and> next_markers c1 \<noteq> ([], [], [])")
    case True
    then have "listing_loop env path obj bV bS d fuel (next_markers c1) pNext c1 w1 = Some ((e, c', m), w')" using r(2) by blast
    then show ?thesis using Suc.IH ok1 Suc.prems(3) by blast
  next
    case False
    then have "c' = c1\<lparr> DirList := sort_key sName (DirList c1) \<rparr>" using r(2) by blast
    then show ?thesis using ok1 s by (simp add: listed_ok_def)
  qed
qed simp

section \<open>A server with pages\<close>

text \<open>What a listing stands for: objects and common prefixes under a prefix, page after page. An
  object comes with its date, tag, size, owner (if the server tells it) and storage class as text.
  A page also has the fields of the request it answers; \<open>pg_next\<close> is empty when it has no marker
  for the next one.\<close>

datatype list_item = ItemKey string string string string "(string \<times> string) option" string | ItemPrefix string

record list_page =
  pg_attrs :: "xml_attr list"
  pg_name :: string
  pg_marker :: string
  pg_maxkeys :: string
  pg_delimiter :: string
  pg_truncated :: bool
  pg_next :: string
  pg_items :: "list_item list"

definition owner_tree :: "(string \<times> string) option \<Rightarrow> xml_tree list" where
  "owner_tree ow = (case ow of None \<Rightarrow> []
     | Some (i, n) \<Rightarrow> [XElem [] ''Owner'' [] False [text_elem ''ID'' i, text_elem ''DisplayName'' n]])"

fun item_tree :: "list_item \<Rightarrow> xml_tree" where
  "item_tree (ItemKey k date etag sz ow cls) = XElem [] ''Contents'' [] False
     ([text_elem ''Key'' k, text_elem ''LastModified'' date, text_elem ''ETag'' etag, text_elem ''Size'' sz]
      @ owner_tree ow @ [text_elem ''StorageClass'' cls])"
| "item_tree (ItemPrefix p) = XElem [] ''CommonPrefixes'' [] False [text_elem ''Prefix'' p]"

definition page_tree :: "string \<Rightarrow> list_page \<Rightarrow> xml_tree" where
  "page_tree pre pg = XElem [] ''ListBucketResult'' (pg_attrs pg) False
     ([text_elem ''Name'' (pg_name pg), text_elem ''Prefix'' pre, text_elem ''Marker'' (pg_marker pg),
       text_elem ''MaxKeys'' (pg_maxkeys pg), text_elem ''Delimiter'' (pg_delimiter pg),
       text_elem ''IsTruncated'' (if pg_truncated pg then ''true'' else ''false''), text_elem ''NextMarker'' (pg_next pg)]
      @ map item_tree (pg_items pg))"

text \<open>The entry of an item: its name under the prefix without a final slash, and the properties
  its fields give to the record of the callback. A field that is missing leaves what was there.\<close>

fun item_key :: "list_item \<Rightarrow> string" where
  "item_key (ItemKey k date etag sz ow cls) = k" | "item_key (ItemPrefix p) = p"

fun is_key :: "list_item \<Rightarrow> bool" where
  "is_key (ItemKey k date etag sz ow cls) = True" | "is_key (ItemPrefix p) = False"

definition item_name :: "string \<Rightarrow> list_item \<Rightarrow> string" where
  "item_name pre it = drop_slash (drop (length pre) (item_key it))"

definition item_dir :: "string \<Rightarrow> list_item \<Rightarrow> bool" where
  "item_dir pre it = (let n = drop (length pre) (item_key it) in is_key it \<longrightarrow> n \<noteq> [] \<and> last n = CHR ''/'')"

definition set_if :: "string \<Rightarrow> ('a \<Rightarrow> 'a) \<Rightarrow> 'a \<Rightarrow> 'a" where
  "set_if v f m = (if v = [] then m else f m)"

definition owner_props :: "(string \<times> string) option \<Rightarrow> S3_SYSTEM_METADATA \<Rightarrow> S3_SYSTEM_METADATA" where
  "owner_props ow m = (case ow of None \<Rightarrow> m
     | Some (i, n) \<Rightarrow> set_if n (sOwnerDisplayName_update (\<lambda>_. n)) (set_if i (sOwnerID_update (\<lambda>_. i)) m))"

fun item_props :: "date_env \<Rightarrow> list_item \<Rightarrow> S3_SYSTEM_METADATA \<Rightarrow> S3_SYSTEM_METADATA" where
  "item_props denv (ItemKey k date etag sz ow cls) m = owner_props ow
     (set_if sz (\<lambda>m. m\<lparr> llSize := scan_u64 sz (llSize m) \<rparr>) (set_if etag (sETag_update (\<lambda>_. etag))
       (set_if date (ftLastMod_update (\<lambda>_. snd (ParseISO8601Date denv date False))) m)))"
| "item_props denv (ItemPrefix p) m = m"

text \<open>The entries, from the properties the record has before them: an item without a name (the
  folder's own key) makes none and leaves its properties for the next one; after an entry, only
  its owner id is left. \<open>left_props\<close> is what the record has after them.\<close>

definition left_prop :: "date_env \<Rightarrow> string \<Rightarrow> S3_SYSTEM_METADATA \<Rightarrow> list_item \<Rightarrow> S3_SYSTEM_METADATA" where
  "left_prop denv pre m it = (if item_name pre it = [] then item_props denv it m else metadata_Empty (item_props denv it m))"

fun listing_entries :: "date_env \<Rightarrow> string \<Rightarrow> S3_SYSTEM_METADATA \<Rightarrow> list_item list \<Rightarrow> DIR_ENTRY list" where
  "listing_entries denv pre m [] = []"
| "listing_entries denv pre m (it # its) =
     (if item_name pre it = [] then []
      else [\<lparr> sName = item_name pre it, bDir = item_dir pre it, Properties = item_props denv it m \<rparr>])
     @ listing_entries denv pre (left_prop denv pre m it) its"

definition left_props :: "date_env \<Rightarrow> string \<Rightarrow> S3_SYSTEM_METADATA \<Rightarrow> list_item list \<Rightarrow> S3_SYSTEM_METADATA" where
  "left_props denv pre m its = foldl (left_prop denv pre) m its"

lemma listing_entries_append:
  "listing_entries denv pre m (a @ b) = listing_entries denv pre m a @ listing_entries denv pre (left_props denv pre m a) b"
  by (induction a arbitrary: m) (simp_all add: left_props_def)

definition item_ok :: "date_env \<Rightarrow> string \<Rightarrow> list_item \<Rightarrow> bool" where
  "item_ok denv pre it \<longleftrightarrow> item_key it \<noteq> [] \<and> take (length pre) (item_key it) = pre
     \<and> (case it of ItemKey k date etag sz ow cls \<Rightarrow> \<not> FAILED (fst (ParseISO8601Date denv date False)) | ItemPrefix p \<Rightarrow> True)"

definition add_listed :: "DIR_ENTRY list \<Rightarrow> DIR_ENTRY \<Rightarrow> DIR_ENTRY list" where
  "add_listed es e = (if bDir e \<and> (\<exists>x \<in> set es. bDir x \<and> sName x = sName e) then es else es @ [e])"

text \<open>The last key of the pages, and the marker the next request takes: the one of the page; for a page
  without one what is left of the pages before it, or the last key. (The state of both.)\<close>

fun last_key :: "string \<Rightarrow> list_item list \<Rightarrow> string" where
  "last_key l [] = l"
| "last_key l (it # its) = last_key (if is_key it then item_key it else l) its"

definition page_marker :: "string \<times> string \<Rightarrow> list_page \<Rightarrow> string \<times> string" where
  "page_marker s pg = (let l = last_key (snd s) (pg_items pg); m = (if pg_next pg = [] then fst s else pg_next pg) in
     (if pg_truncated pg \<and> m = [] then l else m, l))"

section \<open>The callback on a page\<close>

lemma same_length_paths:
  "\<not> eq_nocase ''//ListBucketResult/CommonPrefixes/Prefix'' ''//ListBucketResult/Contents/LastModified''"
  "\<not> eq_nocase ''//ListBucketResult/Contents/StorageClass'' ''//ListBucketResult/Contents/LastModified''"
  "\<not> eq_nocase ''//ListBucketResult/Contents/StorageClass'' ''//ListBucketResult/CommonPrefixes/Prefix''"
  "\<not> eq_nocase ''//ListBucketResult/Contents/Size'' ''//ListBucketResult/Contents/ETag''"
  "\<not> eq_nocase ''//ListBucketResult/Marker'' ''//ListBucketResult/Prefix''"
  "\<not> eq_nocase ''//ListBucketResult/Contents/Owner'' ''//ListBucketResult/CommonPrefixes''"
  by (simp_all add: eq_nocase_def lower_str_def to_lower_def is_upper_ascii_def char_code_def)

lemma got_date_eq:
  "got_date denv v c = (fst (ParseISO8601Date denv v False),
     map_props (ftLastMod_update (\<lambda>_. snd (ParseISO8601Date denv v False))) c)"
  by (simp add: got_date_def IfError_new Let_def split: prod.split)

lemma cb_leaves:
  "XmlDirListingS3CB denv (XmlText ''//ListBucketResult/Name'' v) c = (0, c)"
  "XmlDirListingS3CB denv (XmlText ''//ListBucketResult/Prefix'' v) c = (0, got_prefix v c)"
  "XmlDirListingS3CB denv (XmlText ''//ListBucketResult/Marker'' v) c = (0, c)"
  "XmlDirListingS3CB denv (XmlText ''//ListBucketResult/MaxKeys'' v) c = (0, c)"
  "XmlDirListingS3CB denv (XmlText ''//ListBucketResult/Delimiter'' v) c = (0, c)"
  "XmlDirListingS3CB denv (XmlText ''//ListBucketResult/IsTruncated'' v) c = (0, c\<lparr> bIsTruncated := (v = ''true'') \<rparr>)"
  "XmlDirListingS3CB denv (XmlText ''//ListBucketResult/NextMarker'' v) c = (0, c\<lparr> sS3NextMarker := v \<rparr>)"
  "XmlDirListingS3CB denv (XmlText ''//ListBucketResult/Contents/Key'' v) c = (0, got_key v (c\<lparr> sLastFullObjName := v \<rparr>))"
  "XmlDirListingS3CB denv (XmlText ''//ListBucketResult/Contents/LastModified'' v) c = got_date denv v c"
  "XmlDirListingS3CB denv (XmlText ''//ListBucketResult/Contents/ETag'' v) c = (0, map_props (\<lambda>m. m\<lparr> sETag := v \<rparr>) c)"
  "XmlDirListingS3CB denv (XmlText ''//ListBucketResult/Contents/Size'' v) c
    = (0, map_props (\<lambda>m. m\<lparr> llSize := scan_u64 v (llSize m) \<rparr>) c)"
  "XmlDirListingS3CB denv (XmlText ''//ListBucketResult/Contents/Owner/ID'' v) c = (0, map_props (\<lambda>m. m\<lparr> sOwnerID := v \<rparr>) c)"
  "XmlDirListingS3CB denv (XmlText ''//ListBucketResult/Contents/Owner/DisplayName'' v) c
    = (0, map_props (\<lambda>m. m\<lparr> sOwnerDisplayName := v \<rparr>) c)"
  "XmlDirListingS3CB denv (XmlText ''//ListBucketResult/Contents/StorageClass'' v) c = (0, c)"
  "XmlDirListingS3CB denv (XmlText ''//ListBucketResult/CommonPrefixes/Prefix'' v) c = (0, got_common_prefix v c)"
  by (simp_all add: XmlDirListingS3CB_def eq_nocase_length same_length_paths)

lemma cb_elements:
  "XmlDirListingS3CB denv (XmlElement ''//ListBucketResult'' as) c = (0, c\<lparr> bGotRootElement := True \<rparr>)"
  "length p > 18 \<Longrightarrow> XmlDirListingS3CB denv (XmlElement p as) c = (0, c)"
  "length p \<noteq> 27 \<Longrightarrow> length p \<noteq> 33 \<Longrightarrow> XmlDirListingS3CB denv (XmlEndElement p) c = (0, c)"
  "XmlDirListingS3CB denv (XmlEndElement ''//ListBucketResult/Contents/Owner'') c = (0, c)"
  "XmlDirListingS3CB denv (XmlEndElement ''//ListBucketResult/Contents'') c
    = (if sName (Rec c) \<noteq> [] then (0, map_rec EmptyRec (push_entry c)) else (0, c))"
  "XmlDirListingS3CB denv (XmlEndElement ''//ListBucketResult/CommonPrefixes'') c
    = (if sName (Rec c) \<noteq> [] then (0, map_rec EmptyRec (push_entry c)) else (0, c))"
  by (simp_all add: XmlDirListingS3CB_def eq_nocase_length same_length_paths)

lemma map_props_set_if: "(if v = [] then c else map_props f c) = map_props (set_if v f) c"
  by (simp add: set_if_def map_props_def map_rec_def)

lemma map_props_comp: "map_props f (map_props g c) = map_props (\<lambda>m. f (g m)) c"
  by (simp add: map_props_def map_rec_def)

text \<open>The fields of an object.\<close>

lemma content_fields:
  "run_events (XmlDirListingS3CB denv) (tree_events [''ListBucketResult'', ''Contents''] (text_elem ''Key'' v)) c
    = (0, if v = [] then c else got_key v (c\<lparr> sLastFullObjName := v \<rparr>))"
  "\<not> FAILED (fst (ParseISO8601Date denv v False)) \<Longrightarrow>
   run_events (XmlDirListingS3CB denv) (tree_events [''ListBucketResult'', ''Contents''] (text_elem ''LastModified'' v)) c
    = (0, map_props (set_if v (ftLastMod_update (\<lambda>_. snd (ParseISO8601Date denv v False)))) c)"
  "run_events (XmlDirListingS3CB denv) (tree_events [''ListBucketResult'', ''Contents''] (text_elem ''ETag'' v)) c
    = (0, map_props (set_if v (sETag_update (\<lambda>_. v))) c)"
  "run_events (XmlDirListingS3CB denv) (tree_events [''ListBucketResult'', ''Contents''] (text_elem ''Size'' v)) c
    = (0, map_props (set_if v (\<lambda>m. m\<lparr> llSize := scan_u64 v (llSize m) \<rparr>)) c)"
  "run_events (XmlDirListingS3CB denv) (tree_events [''ListBucketResult'', ''Contents''] (text_elem ''StorageClass'' v)) c = (0, c)"
  "run_events (XmlDirListingS3CB denv) (tree_events [''ListBucketResult'', ''Contents'', ''Owner''] (text_elem ''ID'' v)) c
    = (0, map_props (set_if v (sOwnerID_update (\<lambda>_. v))) c)"
  "run_events (XmlDirListingS3CB denv) (tree_events [''ListBucketResult'', ''Contents'', ''Owner''] (text_elem ''DisplayName'' v)) c
    = (0, map_props (set_if v (sOwnerDisplayName_update (\<lambda>_. v))) c)"
  unfolding map_props_set_if [symmetric]
  by (simp_all add: text_elem_def AttrList_def Let_def stack_path_def xml_name_def cb_leaves cb_elements got_date_eq)

lemma owner_props_Some:
  "owner_props (Some (i, n)) = (\<lambda>m. set_if n (sOwnerDisplayName_update (\<lambda>_. n)) (set_if i (sOwnerID_update (\<lambda>_. i)) m))"
  by (simp add: owner_props_def fun_eq_iff)

lemma owner_fields:
  "run_events (XmlDirListingS3CB denv) (concat (map (tree_events [''ListBucketResult'', ''Contents'']) (owner_tree ow))) c
    = (0, map_props (owner_props ow) c)"
proof (cases ow)
  case None
  then show ?thesis by (simp add: owner_tree_def owner_props_def map_props_def map_rec_def)
next
  case (Some p)
  then show ?thesis
    by (cases p) (simp add: owner_tree_def owner_props_Some run_events_append content_fields map_props_comp
      stack_path_def xml_name_def cb_elements AttrList_def Let_def)
qed

text \<open>Between items: the record has no name and the properties \<open>m\<close>; the last key was \<open>l\<close>.\<close>

definition between :: "string \<Rightarrow> S3_SYSTEM_METADATA \<Rightarrow> string \<Rightarrow> XML_DIR_LISTING_CONTEXT \<Rightarrow> bool" where
  "between pre m l c \<longleftrightarrow> sObjName c = [] \<and> sPrefixNoObj c = pre \<and> sName (Rec c) = [] \<and> Properties (Rec c) = m
     \<and> sLastFullObjName c = l"

definition same_page :: "XML_DIR_LISTING_CONTEXT \<Rightarrow> XML_DIR_LISTING_CONTEXT \<Rightarrow> bool" where
  "same_page c c' \<longleftrightarrow> bGotRootElement c' = bGotRootElement c \<and> bIsTruncated c' = bIsTruncated c \<and> sPrefix c' = sPrefix c
     \<and> sS3NextMarker c' = sS3NextMarker c \<and> sS3NextKeyMarker c' = sS3NextKeyMarker c
     \<and> sS3NextVersionIdMarker c' = sS3NextVersionIdMarker c"

text \<open>The end of an item.\<close>

lemma entry_end:
  assumes "sObjName c = []" "sPrefixNoObj c = pre" "sLastFullObjName c = l"
    "Rec c = \<lparr> sName = n, bDir = d, Properties = m \<rparr>"
    and c': "c' = (if sName (Rec c) \<noteq> [] then map_rec EmptyRec (push_entry c) else c)"
  shows "between pre (if n = [] then m else metadata_Empty m) l c'" "same_page c c'" "bGotKey c' = bGotKey c"
    "DirList c' = foldl add_listed (DirList c) (if n = [] then [] else [\<lparr> sName = n, bDir = d, Properties = m \<rparr>])"
  using assms(1-4) unfolding c'
  by (simp_all add: between_def same_page_def map_rec_def EmptyRec_def push_entry_def add_listed_def Let_def) auto

lemma item_events:
  assumes c: "between pre m l c" and ok: "item_ok denv pre it"
  obtains c' where "run_events (XmlDirListingS3CB denv) (tree_events [''ListBucketResult''] (item_tree it)) c = (0, c')"
    "between pre (left_prop denv pre m it) (last_key l [it]) c'" "same_page c c'" "bGotKey c' = (bGotKey c \<or> is_key it)"
    "DirList c' = foldl add_listed (DirList c) (listing_entries denv pre m [it])"
proof (cases it)
  case (ItemKey k date etag sz ow cls)
  define F where "F = (\<lambda>m. item_props denv it m)"
  define c1 where "c1 = map_props F (got_key k (c\<lparr> sLastFullObjName := k \<rparr>))"
  define c2 where "c2 = (if sName (Rec c1) \<noteq> [] then map_rec EmptyRec (push_entry c1) else c1)"
  have k: "k \<noteq> []" "take (length pre) k = pre" "\<not> FAILED (fst (ParseISO8601Date denv date False))"
    using ok by (simp_all add: item_ok_def ItemKey)
  have r: "Rec c1 = \<lparr> sName = item_name pre it, bDir = item_dir pre it, Properties = F m \<rparr>"
    "sObjName c1 = []" "sPrefixNoObj c1 = pre" "sLastFullObjName c1 = k" "DirList c1 = DirList c" "same_page c c1" "bGotKey c1"
    using c k by (cases "Rec c"; simp add: c1_def between_def got_key_def map_props_def map_rec_def same_page_def Let_def
      item_name_def item_dir_def ItemKey)+
  have F: "F = (\<lambda>m. owner_props ow (set_if sz (\<lambda>m. m\<lparr> llSize := scan_u64 sz (llSize m) \<rparr>) (set_if etag (sETag_update (\<lambda>_. etag))
       (set_if date (ftLastMod_update (\<lambda>_. snd (ParseISO8601Date denv date False))) m))))"
    by (simp add: F_def ItemKey)
  have run: "run_events (XmlDirListingS3CB denv) (tree_events [''ListBucketResult''] (item_tree it)) c = (0, c2)"
    unfolding ItemKey item_tree.simps
    using k by (simp add: stack_path_def xml_name_def cb_elements run_events_append content_fields owner_fields map_props_comp
      c2_def c1_def F Let_def)
  note e = entry_end [OF r(2-4,1) c2_def]
  have it: "last_key l [it] = k" "is_key it" "F m = item_props denv it m" by (simp_all add: ItemKey F_def)
  show thesis
    by (rule that [OF run]) (use e r(5-7) it in \<open>simp_all add: left_prop_def same_page_def split: if_splits\<close>)
next
  case (ItemPrefix p)
  define c1 where "c1 = got_common_prefix p c"
  define c2 where "c2 = (if sName (Rec c1) \<noteq> [] then map_rec EmptyRec (push_entry c1) else c1)"
  have k: "p \<noteq> []" "take (length pre) p = pre" using ok by (simp_all add: item_ok_def ItemPrefix)
  have r: "Rec c1 = \<lparr> sName = item_name pre it, bDir = item_dir pre it, Properties = m \<rparr>"
    "sObjName c1 = []" "sPrefixNoObj c1 = pre" "sLastFullObjName c1 = l" "DirList c1 = DirList c" "same_page c c1" "bGotKey c1 = bGotKey c"
    using c k by (cases "Rec c"; simp add: c1_def between_def got_common_prefix_def map_rec_def same_page_def Let_def
      item_name_def item_dir_def ItemPrefix)+
  have run: "run_events (XmlDirListingS3CB denv) (tree_events [''ListBucketResult''] (item_tree it)) c = (0, c2)"
    using k(1) by (simp add: ItemPrefix text_elem_def AttrList_def stack_path_def xml_name_def cb_leaves cb_elements c2_def c1_def Let_def)
  note e = entry_end [OF r(2-4,1) c2_def]
  have it: "last_key l [it] = l" "\<not> is_key it" "item_props denv it m = m" by (simp_all add: ItemPrefix)
  show thesis
    by (rule that [OF run]) (use e r(5-7) it in \<open>simp_all add: left_prop_def same_page_def split: if_splits\<close>)
qed

lemma items_events:
  assumes "between pre m l c" "\<forall>it \<in> set its. item_ok denv pre it"
  shows "\<exists>c'. run_events (XmlDirListingS3CB denv) (concat (map (\<lambda>it. tree_events [''ListBucketResult''] (item_tree it)) its)) c = (0, c')
    \<and> between pre (left_props denv pre m its) (last_key l its) c' \<and> same_page c c' \<and> bGotKey c' = (bGotKey c \<or> (\<exists>it \<in> set its. is_key it))
    \<and> DirList c' = foldl add_listed (DirList c) (listing_entries denv pre m its)"
  using assms
proof (induction its arbitrary: m l c)
  case (Cons it its)
  obtain c1 where 1: "run_events (XmlDirListingS3CB denv) (tree_events [''ListBucketResult''] (item_tree it)) c = (0, c1)"
    "between pre (left_prop denv pre m it) (last_key l [it]) c1" "same_page c c1" "bGotKey c1 = (bGotKey c \<or> is_key it)"
    "DirList c1 = foldl add_listed (DirList c) (listing_entries denv pre m [it])"
    using item_events [OF Cons.prems(1), of denv it] Cons.prems(2) by auto
  obtain c2 where 2: "run_events (XmlDirListingS3CB denv) (concat (map (\<lambda>it. tree_events [''ListBucketResult''] (item_tree it)) its)) c1 = (0, c2)"
    "between pre (left_props denv pre (left_prop denv pre m it) its) (last_key (last_key l [it]) its) c2" "same_page c1 c2"
    "bGotKey c2 = (bGotKey c1 \<or> (\<exists>it \<in> set its. is_key it))"
    "DirList c2 = foldl add_listed (DirList c1) (listing_entries denv pre (left_prop denv pre m it) its)"
    using Cons.IH [OF 1(2)] Cons.prems(2) by auto
  have "run_events (XmlDirListingS3CB denv) (concat (map (\<lambda>it. tree_events [''ListBucketResult''] (item_tree it)) (it # its))) c = (0, c2)"
    using 1(1) 2(1) by (simp add: run_events_append)
  moreover have "same_page c c2" using 1(3) 2(3) by (simp add: same_page_def)
  ultimately show ?case using 1 2 by (intro exI [of _ c2]) (auto simp: left_props_def)
qed (simp add: same_page_def left_props_def)

text \<open>Before a page: the prefix is not known yet, or it is the same as before.\<close>

definition before_page :: "string \<Rightarrow> S3_SYSTEM_METADATA \<Rightarrow> string \<Rightarrow> XML_DIR_LISTING_CONTEXT \<Rightarrow> bool" where
  "before_page pre m l c \<longleftrightarrow> sPrefix c \<in> {[], pre} \<and> sPrefixNoObj c \<in> {[], pre} \<and> between (sPrefixNoObj c) m l c"

lemma page_events:
  assumes "before_page pre m l c" "\<forall>it \<in> set (pg_items pg). item_ok denv pre it"
  shows "\<exists>c'. run_events (XmlDirListingS3CB denv) (tree_events [] (page_tree pre pg)) c = (0, c')
    \<and> before_page pre (left_props denv pre m (pg_items pg)) (last_key l (pg_items pg)) c'
    \<and> bGotRootElement c' \<and> bIsTruncated c' = pg_truncated pg \<and> sPrefix c' = pre
    \<and> sS3NextMarker c' = (if pg_next pg = [] then sS3NextMarker c else pg_next pg)
    \<and> sS3NextKeyMarker c' = sS3NextKeyMarker c \<and> sS3NextVersionIdMarker c' = sS3NextVersionIdMarker c
    \<and> bGotKey c' = (bGotKey c \<or> (\<exists>it \<in> set (pg_items pg). is_key it))
    \<and> DirList c' = foldl add_listed (DirList c) (listing_entries denv pre m (pg_items pg))"
proof -
  define cp where "cp = (if pre = [] then c\<lparr> bGotRootElement := True \<rparr> else got_prefix pre (c\<lparr> bGotRootElement := True \<rparr>))"
  define ct where "ct = cp\<lparr> bIsTruncated := pg_truncated pg \<rparr>"
  define c1 where "c1 = (if pg_next pg = [] then ct else ct\<lparr> sS3NextMarker := pg_next pg \<rparr>)"
  have cp: "between pre m l cp" "bGotRootElement cp" "sPrefix cp = pre" "DirList cp = DirList c" "bGotKey cp = bGotKey c"
    "sS3NextMarker cp = sS3NextMarker c" "sS3NextKeyMarker cp = sS3NextKeyMarker c" "sS3NextVersionIdMarker cp = sS3NextVersionIdMarker c"
    using assms(1) by (auto simp: cp_def before_page_def between_def got_prefix_def)
  have r: "between pre m l c1" "bGotRootElement c1" "bIsTruncated c1 = pg_truncated pg" "sPrefix c1 = pre" "DirList c1 = DirList c"
    "bGotKey c1 = bGotKey c" "sS3NextMarker c1 = (if pg_next pg = [] then sS3NextMarker c else pg_next pg)"
    "sS3NextKeyMarker c1 = sS3NextKeyMarker c" "sS3NextVersionIdMarker c1 = sS3NextVersionIdMarker c"
    using cp by (simp_all add: c1_def ct_def between_def)
  obtain c2 where 2: "run_events (XmlDirListingS3CB denv) (concat (map (\<lambda>it. tree_events [''ListBucketResult''] (item_tree it)) (pg_items pg))) c1 = (0, c2)"
    "between pre (left_props denv pre m (pg_items pg)) (last_key l (pg_items pg)) c2" "same_page c1 c2"
    "bGotKey c2 = (bGotKey c1 \<or> (\<exists>it \<in> set (pg_items pg). is_key it))"
    "DirList c2 = foldl add_listed (DirList c1) (listing_entries denv pre m (pg_items pg))"
    using items_events [OF r(1) assms(2)] by blast
  have "run_events (XmlDirListingS3CB denv) (tree_events [] (page_tree pre pg)) c = (0, c2)"
    using 2(1) by (cases "pg_next pg = []"; cases "pre = []"; cases "pg_truncated pg") (simp_all add: page_tree_def text_elem_def
      AttrList_def Let_def stack_path_def xml_name_def cb_leaves cb_elements run_events_append c1_def ct_def cp_def comp_def)
  moreover have "before_page pre (left_props denv pre m (pg_items pg)) (last_key l (pg_items pg)) c2"
    using 2(2,3) r(4) by (simp add: before_page_def between_def same_page_def)
  ultimately show ?thesis using 2 r by (intro exI [of _ c2]) (simp add: same_page_def)
qed

text \<open>The server answers each request with the next document, and records the requests.\<close>

definition paged_env ::
  "(string \<Rightarrow> xml_node list \<times> DWORD) \<Rightarrow> date_env \<Rightarrow> DWORD \<Rightarrow> (string list \<times> string list) list_env" where
  "paged_env reader denv mx = \<lparr>
     le_request = (\<lambda>res (docs, requests). ((S3_ERROR_new 0, hd docs), (tl docs, requests @ [res]))),
     le_reader = reader, le_dates = denv, le_dwS3BucketListingMax = mx \<rparr>"

definition page_doc :: "(string \<Rightarrow> xml_node list \<times> DWORD) \<Rightarrow> string \<Rightarrow> string \<Rightarrow> list_page \<Rightarrow> bool" where
  "page_doc reader pre data pg \<longleftrightarrow> take 5 data = ''<?xml'' \<and> fst (reader data) = tree_nodes (page_tree pre pg)"

text \<open>Every page but the last one is truncated and leads to a marker.\<close>

fun chain_ok :: "string \<times> string \<Rightarrow> list_page list \<Rightarrow> bool" where
  "chain_ok s [] = False"
| "chain_ok s [pg] = (\<not> pg_truncated pg)"
| "chain_ok s (pg # pgs) = (pg_truncated pg \<and> fst (page_marker s pg) \<noteq> [] \<and> chain_ok (page_marker s pg) pgs)"

fun page_requests :: "(string \<times> string \<times> string \<Rightarrow> string) \<Rightarrow> string \<times> string \<times> string \<Rightarrow> string \<times> string \<Rightarrow> list_page list \<Rightarrow> string list" where
  "page_requests res ms s [] = []"
| "page_requests res ms s (pg # pgs) = res ms # page_requests res (fst (page_marker s pg), [], []) (page_marker s pg) pgs"

lemma SetError_new_0 [simp]: "SetError (S3_ERROR_new 0) = S3_ERROR_new 0" "\<not> IfError (S3_ERROR_new 0)"
  by (simp_all add: SetError_def IfError_def S3_ERROR_new_def)

lemma scan_page_doc:
  assumes pd: "page_doc (le_reader env) pre data pg" and c: "before_page pre m (snd s) c" "sS3NextMarker c = fst s"
      "sS3NextKeyMarker c = []" "sS3NextVersionIdMarker c = []"
    and it: "\<forall>it \<in> set (pg_items pg). item_ok (le_dates env) pre it"
    and ne: "pre = [] \<or> pg_truncated pg \<or> bGotKey c \<or> (\<exists>it \<in> set (pg_items pg). is_key it)
      \<or> foldl add_listed (DirList c) (listing_entries (le_dates env) pre m (pg_items pg)) \<noteq> []"
  shows "\<exists>c'. scan_page env False res (S3_ERROR_new 0) data c = Inr c'
    \<and> before_page pre (left_props (le_dates env) pre m (pg_items pg)) (snd (page_marker s pg)) c' \<and> bGotRootElement c'
    \<and> sS3NextMarker c' = fst (page_marker s pg) \<and> sS3NextKeyMarker c' = [] \<and> sS3NextVersionIdMarker c' = []
    \<and> next_markers c' = (if pg_truncated pg then fst (page_marker s pg) else [], [], [])
    \<and> bGotKey c' = (bGotKey c \<or> (\<exists>it \<in> set (pg_items pg). is_key it))
    \<and> DirList c' = foldl add_listed (DirList c) (listing_entries (le_dates env) pre m (pg_items pg))"
proof -
  define c0 where "c0 = c\<lparr> bGotRootElement := False \<rparr>"
  have c0: "before_page pre m (snd s) c0" "DirList c0 = DirList c" "sS3NextKeyMarker c0 = []" "sS3NextVersionIdMarker c0 = []"
      "bGotKey c0 = bGotKey c" "sS3NextMarker c0 = fst s"
    using c by (simp_all add: c0_def before_page_def between_def)
  obtain c1 where 1: "run_events (XmlDirListingS3CB (le_dates env)) (tree_events [] (page_tree pre pg)) c0 = (0, c1)"
    "before_page pre (left_props (le_dates env) pre m (pg_items pg)) (last_key (snd s) (pg_items pg)) c1"
    "bGotRootElement c1" "bIsTruncated c1 = pg_truncated pg" "sPrefix c1 = pre"
    "sS3NextMarker c1 = (if pg_next pg = [] then fst s else pg_next pg)"
    "sS3NextKeyMarker c1 = []" "sS3NextVersionIdMarker c1 = []" "bGotKey c1 = (bGotKey c \<or> (\<exists>it \<in> set (pg_items pg). is_key it))"
    "DirList c1 = foldl add_listed (DirList c) (listing_entries (le_dates env) pre m (pg_items pg))"
    using page_events [OF c0(1) it] unfolding c0 by blast
  have d: "take 5 data = ''<?xml''" "fst (le_reader env data) = tree_nodes (page_tree pre pg)" using pd by (simp_all add: page_doc_def)
  then have "data \<noteq> []" by auto
  have scan: "ScanXml (XmlDirListingS3CB (le_dates env)) (le_reader env data) c0 = (0, c1)"
    using ScanXml_tree [of "XmlDirListingS3CB (le_dates env)" "page_tree pre pg" "snd (le_reader env data)" c0] 1(1) d(2)
    by (metis prod.collapse)
  define c2 where "c2 = (if bIsTruncated c1 \<and> sS3NextMarker c1 = [] then c1\<lparr> sS3NextMarker := sLastFullObjName c1 \<rparr> else c1)"
  have "scan_page env False res (S3_ERROR_new 0) data c = Inr c2"
    using scan 1(4,5,9,10) d(1) ne \<open>data \<noteq> []\<close> unfolding scan_page_def c0_def [symmetric] by (auto simp: c2_def)
  moreover have "before_page pre (left_props (le_dates env) pre m (pg_items pg)) (snd (page_marker s pg)) c2"
    using 1(2) by (simp add: c2_def before_page_def between_def page_marker_def Let_def)
  moreover have "sS3NextMarker c2 = fst (page_marker s pg)"
    using 1(2,4,6) by (auto simp: c2_def before_page_def between_def page_marker_def Let_def)
  moreover have "bGotRootElement c2" "bIsTruncated c2 = pg_truncated pg" "sS3NextKeyMarker c2 = []" "sS3NextVersionIdMarker c2 = []"
      "bGotKey c2 = bGotKey c1" "DirList c2 = DirList c1"
    using 1 by (simp_all add: c2_def)
  ultimately show ?thesis using 1(9,10) by (intro exI [of _ c2]) (simp add: next_markers_def)
qed

lemma foldl_add_listed: "es \<noteq> [] \<Longrightarrow> foldl add_listed es xs \<noteq> []"
  by (induction xs arbitrary: es) (auto simp: add_listed_def)

lemma foldl_add_listed_nonempty: "xs \<noteq> [] \<Longrightarrow> foldl add_listed es xs \<noteq> []"
proof (cases xs)
  case (Cons x ys)
  have "add_listed es x \<noteq> []" by (auto simp: add_listed_def)
  then show ?thesis using foldl_add_listed Cons by simp
qed simp

lemma listing_entries_nonempty: "it \<in> set its \<Longrightarrow> item_name pre it \<noteq> [] \<Longrightarrow> listing_entries denv pre m its \<noteq> []"
  by (induction its arbitrary: m) auto

text \<open>Something of the folder is on one of the pages: a key (its own counts) or an entry.\<close>

definition shows_folder :: "string \<Rightarrow> list_page list \<Rightarrow> bool" where
  "shows_folder pre ps \<longleftrightarrow> pre = [] \<or> (\<exists>pg \<in> set ps. \<exists>it \<in> set (pg_items pg). is_key it \<or> item_name pre it \<noteq> [])"

lemma listing_pages:
  assumes "list_all2 (page_doc reader pre) docs ps" "chain_ok s ps" "\<forall>pg \<in> set ps. \<forall>it \<in> set (pg_items pg). item_ok denv pre it"
    "DirList c \<noteq> [] \<or> bGotKey c \<or> shows_folder pre ps" "path \<noteq> []" "length ps \<le> fuel"
    "before_page pre m (snd s) c" "sS3NextMarker c = fst s" "sS3NextKeyMarker c = []" "sS3NextVersionIdMarker c = []"
  shows "\<exists>c'. listing_loop (paged_env reader denv mx) path [] False False d fuel ms None c (docs, reqs)
      = Some ((S3_ERROR_new 0, c', None), ([], reqs @ page_requests (listing_resource mx path [] False False d None) ms s ps))
    \<and> DirList c' = sort_key sName (foldl add_listed (DirList c) (listing_entries denv pre m (concat (map pg_items ps))))"
  using assms
proof (induction ps arbitrary: docs fuel ms c reqs s m rule: list.induct)
  case (Cons pg pgs)
  obtain data docs' where docs: "docs = data # docs'" "page_doc reader pre data pg" "list_all2 (page_doc reader pre) docs' pgs"
    using Cons.prems(1) by (cases docs) auto
  obtain f where f: "fuel = Suc f" "length pgs \<le> f" using Cons.prems(6) by (cases fuel) auto
  let ?env = "paged_env reader denv mx" and ?res = "listing_resource mx path [] False False d None" and ?s = "page_marker s pg"
  have nxt: "pgs = [] \<longrightarrow> \<not> pg_truncated pg" "pgs \<noteq> [] \<longrightarrow> pg_truncated pg \<and> fst ?s \<noteq> [] \<and> chain_ok ?s pgs"
    using Cons.prems(2) by (cases pgs; simp)+
  let ?es = "foldl add_listed (DirList c) (listing_entries denv pre m (pg_items pg))"
  let ?got = "\<lambda>c. DirList c \<noteq> [] \<or> bGotKey c"
  have here: "?es \<noteq> []" if "DirList c \<noteq> [] \<or> (\<exists>it \<in> set (pg_items pg). item_name pre it \<noteq> [])"
    using that foldl_add_listed foldl_add_listed_nonempty listing_entries_nonempty by metis
  have ne: "pre = [] \<or> pg_truncated pg \<or> bGotKey c \<or> (\<exists>it \<in> set (pg_items pg). is_key it) \<or> ?es \<noteq> []"
    using Cons.prems(4) nxt here by (cases pgs) (auto simp: shows_folder_def)
  have pd: "page_doc (le_reader ?env) pre data pg" using docs(2) by (simp add: paged_env_def)
  have its: "\<forall>it \<in> set (pg_items pg). item_ok (le_dates ?env) pre it" using Cons.prems(3) by (simp add: paged_env_def)
  have dn: "le_dates ?env = denv" by (simp add: paged_env_def)
  obtain c1 where c1: "scan_page ?env False (?res ms) (S3_ERROR_new 0) data c = Inr c1"
    "before_page pre (left_props denv pre m (pg_items pg)) (snd ?s) c1" "bGotRootElement c1" "sS3NextMarker c1 = fst ?s"
    "sS3NextKeyMarker c1 = []" "sS3NextVersionIdMarker c1 = []"
    "next_markers c1 = (if pg_truncated pg then fst ?s else [], [], [])"
    "bGotKey c1 = (bGotKey c \<or> (\<exists>it \<in> set (pg_items pg). is_key it))" "DirList c1 = ?es"
    using scan_page_doc [OF pd Cons.prems(7-10) its, unfolded dn, OF ne, of "?res ms"] by blast
  have step: "listing_loop ?env path [] False False d fuel ms None c (docs, reqs) =
      (if next_markers c1 = ([], [], [])
       then Some ((S3_ERROR_new 0, c1\<lparr> DirList := sort_key sName (DirList c1) \<rparr>, None), (docs', reqs @ [?res ms]))
       else listing_loop ?env path [] False False d f (next_markers c1) None c1 (docs', reqs @ [?res ms]))"
    using c1(1,3) Cons.prems(5) unfolding f(1) docs(1) by (simp add: paged_env_def)
  show ?case
  proof (cases pgs)
    case Nil
    then have "docs' = []" "next_markers c1 = ([], [], [])" using docs(3) nxt(1) c1(7) by simp_all
    then show ?thesis using step Nil c1(9) by simp
  next
    case more: (Cons pg2 pgs2)
    then have mk: "pg_truncated pg" "fst ?s \<noteq> []" "chain_ok ?s pgs" "next_markers c1 = (fst ?s, [], [])" using nxt c1(7) by auto
    have "DirList c1 \<noteq> [] \<or> bGotKey c1 \<or> shows_folder pre pgs"
      using Cons.prems(4) here by (auto simp: shows_folder_def c1(8,9))
    then obtain c' where "listing_loop ?env path [] False False d f (next_markers c1) None c1 (docs', reqs @ [?res ms])
      = Some ((S3_ERROR_new 0, c', None), ([], (reqs @ [?res ms]) @ page_requests ?res (next_markers c1) ?s pgs))"
      "DirList c' = sort_key sName (foldl add_listed (DirList c1) (listing_entries denv pre (left_props denv pre m (pg_items pg)) (concat (map pg_items pgs))))"
      using Cons.IH [OF docs(3) mk(3) _ _ Cons.prems(5) f(2) c1(2,4-6), where reqs = "reqs @ [?res ms]" and ms = "next_markers c1"] Cons.prems(3)
      by auto
    then show ?thesis using step mk c1(9) by (auto simp: listing_entries_append)
  qed
qed simp

section \<open>Properties\<close>

text \<open>A listing that ends without error is well formed, whatever the answers were: its entries
  are sorted by name, no folder is listed twice, and (unless versions are listed) no name is
  empty.\<close>

theorem listing_well_formed:
  assumes "DirListingInternal env fuel path search ret bS3Versions bSingle obj pNext d w = Some ((e, c, m), w')"
    and "\<not> IfError e"
  shows "sorted (map sName (DirList c)) \<and> distinct (map sName (filter bDir (DirList c)))
    \<and> (bS3Versions \<or> [] \<notin> set (map sName (DirList c)))"
proof -
  have "listed_ok (\<not> bS3Versions) (listing_context obj search ret)" by (simp add: listed_ok_def listing_context_def)
  then show ?thesis using listing_loop_ok [OF assms(1) [unfolded DirListingInternal_def] _ assms(2)] by (auto simp: listed_ok_def)
qed

text \<open>C21: From a server that answers its requests one after the other with the pages of a listing, each
  but the last one truncated and leading to a marker, DirListing asks once for each page and returns,
  sorted by name and each folder once, the objects and common prefixes of all pages: the name without
  the prefix and a final slash, and date, tag, size and owner as the page gives them. The marker of a
  request is the one of the page before; if that has none it is the last one an earlier page had,
  and only without any the last key. An item without a name, the folder's own key, is no entry; a field
  that an item does not give has what such an item left, and the owner id is that of the item
  before (\<open>listing_entries\<close>). This is for keys under the prefix, dates that do not fail as a
  HRESULT, and a folder of which something is listed.\<close>

theorem DirListing_collects_pages:
  assumes "list_all2 (page_doc reader pre) docs ps" and "chain_ok ([], []) ps"
    and "\<forall>pg \<in> set ps. \<forall>it \<in> set (pg_items pg). item_ok denv pre it"
    and "shows_folder pre ps" and "path \<noteq> []" and "length ps \<le> fuel"
  shows "\<exists>c. DirListing (paged_env reader denv mx) fuel path False [] None d (docs, [])
      = Some ((S3_ERROR_new 0, c, None), ([], page_requests (listing_resource mx path [] False False d None) ([], [], []) ([], []) ps))
    \<and> DirList c = sort_key sName (foldl add_listed [] (listing_entries denv pre metadata_new (concat (map pg_items ps))))"
proof -
  let ?c = "listing_context [] None []"
  have "before_page pre metadata_new (snd ([], [])) ?c" "sS3NextMarker ?c = fst ([], [])" "sS3NextKeyMarker ?c = []"
    "sS3NextVersionIdMarker ?c = []" "DirList ?c = []"
    by (simp_all add: before_page_def between_def listing_context_def)
  then show ?thesis unfolding DirListing_def DirListingInternal_def
    using listing_pages [OF assms(1-3) _ assms(5,6), where c = ?c and reqs = "[]"
      and ms = "([], [], [])" and m = metadata_new and mx = mx and d = d] assms(4)
    by simp
qed

text \<open>Two pages of a folder: its own key, an object, a folder, and an object without an owner.\<close>

definition demo_pages :: "list_page list" where
  "demo_pages = [\<lparr> pg_attrs = [], pg_name = ''k'', pg_marker = [], pg_maxkeys = ''3'', pg_delimiter = ''/'', pg_truncated = True,
       pg_next = ''f/z/'',
       pg_items = [ItemKey ''f/'' ''2011-02-26T01:56:20.000Z'' ''t0'' ''0'' (Some (''u0'', ''n0'')) ''STANDARD'',
         ItemKey ''f/b'' ''2011-02-26T01:56:20.000Z'' ''t1'' ''142863'' (Some (''u1'', ''n1'')) ''STANDARD'', ItemPrefix ''f/z/''] \<rparr>,
     \<lparr> pg_attrs = [], pg_name = ''k'', pg_marker = ''f/z/'', pg_maxkeys = ''3'', pg_delimiter = ''/'', pg_truncated = False,
       pg_next = [], pg_items = [ItemKey ''f/a'' ''2011-02-26T01:56:20.000Z'' ''t2'' ''7'' None ''STANDARD''] \<rparr>]"

definition demo_docs :: "string list" where "demo_docs = [''<?xml1'', ''<?xml2'']"

definition demo_reader :: "string \<Rightarrow> xml_node list \<times> DWORD" where
  "demo_reader s = (tree_nodes (page_tree ''f/'' (if s = ''<?xml1'' then demo_pages ! 0 else demo_pages ! 1)), 1)"

definition demo_dates :: date_env where
  "demo_dates = \<lparr> SystemTimeToFileTime = (\<lambda>_. Inr 0), FileTimeToSystemTime = (\<lambda>_. None),
     TzSpecificLocalTimeToSystemTime = Inr, SystemTimeToTzSpecificLocalTime = Some \<rparr>"

lemma demo_page_docs: "list_all2 (page_doc demo_reader ''f/'') demo_docs demo_pages"
  by (simp add: demo_docs_def demo_pages_def page_doc_def demo_reader_def)

lemma demo_date_ok: "\<not> FAILED (fst (ParseISO8601Date demo_dates v False))"
  by (simp add: ParseISO8601Date_def demo_dates_def ERROR_INVALID_DATA_def FAILED_def split: option.split)

lemma demo_chain: "chain_ok ([], []) demo_pages" "\<forall>pg \<in> set demo_pages. \<forall>it \<in> set (pg_items pg). item_ok demo_dates ''f/'' it"
  "shows_folder ''f/'' demo_pages"
  by (simp_all add: demo_pages_def item_ok_def demo_date_ok page_marker_def shows_folder_def item_name_def drop_slash_def)

lemma demo_entries:
  "map (\<lambda>e. (sName e, sOwnerID (Properties e))) (sort_key sName (foldl add_listed [] (listing_entries demo_dates ''f/'' metadata_new
     (concat (map pg_items demo_pages))))) = [(''a'', ''u1''), (''b'', ''u1''), (''z'', ''u1'')]"
  by (simp add: demo_pages_def add_listed_def item_name_def item_dir_def left_prop_def owner_props_def set_if_def drop_slash_def
    metadata_new_def metadata_Empty_def Let_def)

lemma demo_listing:
  "\<exists>c. DirListing (paged_env demo_reader demo_dates 0) 2 ''/k/f/'' False [] None (CHR ''/'') (demo_docs, [])
      = Some ((S3_ERROR_new 0, c, None), ([], page_requests (listing_resource 0 ''/k/f/'' [] False False (CHR ''/'') None) ([], [], []) ([], []) demo_pages))"
  using listing_pages [OF demo_page_docs demo_chain(1,2), of "listing_context [] None []" "''/k/f/''" 2 metadata_new 0 "CHR ''/''" "([], [], [])" "[]"]
  demo_chain(3) by (auto simp: DirListing_def DirListingInternal_def demo_pages_def before_page_def between_def listing_context_def)

lemma DirListing_collects_pages_witness:
  "\<exists>c. DirListing (paged_env demo_reader demo_dates 0) 2 ''/k/f/'' False [] None (CHR ''/'') (demo_docs, [])
      = Some ((S3_ERROR_new 0, c, None), ([], page_requests (listing_resource 0 ''/k/f/'' [] False False (CHR ''/'') None) ([], [], []) ([], []) demo_pages))
    \<and> map (\<lambda>e. (sName e, sOwnerID (Properties e))) (DirList c) = [(''a'', ''u1''), (''b'', ''u1''), (''z'', ''u1'')]"
proof -
  have "length demo_pages \<le> 2" by (simp add: demo_pages_def)
  then show ?thesis
    using DirListing_collects_pages [OF demo_page_docs demo_chain, of "''/k/f/''" 2 0 "CHR ''/''"] demo_entries by auto
qed

lemma listing_well_formed_witness:
  "\<exists>e c m w'. DirListingInternal (paged_env demo_reader demo_dates 0) 2 ''/k/f/'' None [] False False [] None (CHR ''/'') (demo_docs, [])
     = Some ((e, c, m), w') \<and> sorted (map sName (DirList c)) \<and> [] \<notin> set (map sName (DirList c))"
proof -
  obtain c where c: "DirListingInternal (paged_env demo_reader demo_dates 0) 2 ''/k/f/'' None [] False False [] None (CHR ''/'') (demo_docs, [])
     = Some ((S3_ERROR_new 0, c, None), ([], page_requests (listing_resource 0 ''/k/f/'' [] False False (CHR ''/'') None) ([], [], []) ([], []) demo_pages))"
    using demo_listing unfolding DirListing_def by blast
  then show ?thesis using listing_well_formed [OF c] by auto
qed

end
