(* ===== verification/Delete.thy ===== *)
theory Delete
  imports S3Errors Uri Xml "HOL-Library.Char_ord" "HOL-Library.List_Lexorder" "HOL-Library.Product_Lexorder"
begin

text \<open>
  Deleting objects (ECSConnection.cpp, DeleteS3 to DeleteS3Send): folders are listed and
  deleted with their contents, the entries are collected and sent in bulk delete requests
  of at most 1000 entries. The directory listing and the requests are parameters; the
  body of a bulk delete is the list of its objects (the XML writer does not fail), its
  answer the events the XML reader delivers. The order of strings is \<open>CString::Compare\<close>.
  The recursion into folders is bounded by fuel, \<open>None\<close> when it runs out.
\<close>

section \<open>State\<close>

type_synonym S3_DELETE_ENTRY = "string \<times> string"

definition MaxS3DeleteObjects :: nat where "MaxS3DeleteObjects = 1000"

text \<open>An index below the start of a CString makes ATL throw, which is not caught.\<close>

datatype del_error = DE_S3 S3_ERROR | DE_ATL

text \<open>\<open>batches\<close> records the bulk deletes sent: bucket, objects of the body, and the
  entries they stand for.\<close>

record 'w del_state =
  S3DeletePathList :: "S3_DELETE_ENTRY list"
  batches :: "(string \<times> (string \<times> string) list \<times> S3_DELETE_ENTRY list) list"
  dworld :: 'w

record 'w del_env =
  de_list :: "string \<Rightarrow> 'w \<Rightarrow> (S3_ERROR \<times> (string \<times> bool) list) \<times> 'w"
  de_post :: "string \<Rightarrow> (string \<times> string) list \<Rightarrow> 'w \<Rightarrow> (S3_ERROR \<times> (DWORD + xml_event list)) \<times> 'w"
  de_delete :: "string \<Rightarrow> 'w \<Rightarrow> S3_ERROR \<times> 'w"

section \<open>The answer of a bulk delete\<close>

record XML_DELETES3_ENTRY =
  xd_sKey :: string
  xd_Error :: E_S3_ERROR_TYPE
  xd_sCode :: string
  xd_sMessage :: string
  xd_sRequestId :: string
  xd_sHostId :: string

definition XML_DELETES3_ENTRY_Clear :: XML_DELETES3_ENTRY where
  "XML_DELETES3_ENTRY_Clear = \<lparr> xd_sKey = [], xd_Error = S3_ERROR_UNKNOWN, xd_sCode = [],
     xd_sMessage = [], xd_sRequestId = [], xd_sHostId = [] \<rparr>"

definition XmlDeleteS3CB ::
  "s3_maps \<Rightarrow> xml_event \<Rightarrow> XML_DELETES3_ENTRY list \<times> XML_DELETES3_ENTRY
   \<Rightarrow> XML_DELETES3_ENTRY list \<times> XML_DELETES3_ENTRY" where
  "XmlDeleteS3CB maps ev ctx = (case ctx of (ErrorList, Rec) \<Rightarrow>
     (case ev of
        XmlText sXmlPath v \<Rightarrow>
          if eq_nocase sXmlPath ''//DeleteResult/Error/Code''
          then (ErrorList, Rec\<lparr> xd_sCode := v, xd_Error := fst (S3TranslateError v maps) \<rparr>)
          else if eq_nocase sXmlPath ''//DeleteResult/Error/Message''
          then (ErrorList, Rec\<lparr> xd_sMessage := v \<rparr>)
          else if eq_nocase sXmlPath ''//DeleteResult/Error/RequestId''
          then (ErrorList, Rec\<lparr> xd_sRequestId := v \<rparr>)
          else if eq_nocase sXmlPath ''//DeleteResult/Error/HostId''
          then (ErrorList, Rec\<lparr> xd_sHostId := v \<rparr>)
          else if eq_nocase sXmlPath ''//DeleteResult/Error/Key''
          then (ErrorList, Rec\<lparr> xd_sKey := v \<rparr>)
          else (ErrorList, Rec)
      | XmlElement sXmlPath _ \<Rightarrow>
          if eq_nocase sXmlPath ''//DeleteResult/Error'' then (ErrorList, XML_DELETES3_ENTRY_Clear)
          else (ErrorList, Rec)
      | XmlEndElement sXmlPath \<Rightarrow>
          if eq_nocase sXmlPath ''//DeleteResult/Error''
          then (ErrorList @ [Rec], XML_DELETES3_ENTRY_Clear) else (ErrorList, Rec)))"

definition delete_errors :: "s3_maps \<Rightarrow> xml_event list \<Rightarrow> XML_DELETES3_ENTRY list" where
  "delete_errors maps evs =
     fst (foldl (\<lambda>ctx ev. XmlDeleteS3CB maps ev ctx) ([], XML_DELETES3_ENTRY_Clear) evs)"

definition error_details :: "XML_DELETES3_ENTRY list \<Rightarrow> string" where
  "error_details es =
     concat (map (\<lambda>r. xd_sCode r @ '':'' @ xd_sMessage r @ '': '' @ xd_sKey r @ [CHR 0x0A]) es)"

section \<open>Sending a batch\<close>

text \<open>The bucket: set already, or what stands between the first two slashes.\<close>

definition pick_bucket :: "string \<Rightarrow> string \<Rightarrow> string option" where
  "pick_bucket sBucket sKey =
     (if sBucket = [] then map_option (\<lambda>iSlash. take (iSlash - 1) (drop 1 sKey)) (str_find_from ''/'' 1 sKey)
      else Some sBucket)"

text \<open>The loop over the sorted list from its end: at most \<open>n\<close> more entries, all of the
  bucket of the first. \<open>None\<close> is ERROR_INVALID_DATA. The result holds the bucket, the
  objects, the entries taken and those left (still reversed).\<close>

fun collect ::
  "nat \<Rightarrow> string \<Rightarrow> S3_DELETE_ENTRY list
   \<Rightarrow> (string \<times> (string \<times> string) list \<times> S3_DELETE_ENTRY list \<times> S3_DELETE_ENTRY list) option" where
  "collect n sBucket [] = Some (sBucket, [], [], [])"
| "collect 0 sBucket (e # es) = Some (sBucket, [], [], e # es)"
| "collect (Suc n) sBucket ((sKey, sVersionId) # es) =
     (case pick_bucket sBucket sKey of
        None \<Rightarrow> None
      | Some b \<Rightarrow>
          if str_find (''/'' @ b @ ''/'') sKey \<noteq> Some 0 then None
          else map_option (\<lambda>(b', objs, taken, rest).
                 (b', (str_mid (length b + 2) sKey, sVersionId) # objs, (sKey, sVersionId) # taken, rest))
               (collect n b es))"

definition DeleteS3Send ::
  "'w del_env \<Rightarrow> s3_maps \<Rightarrow> 'w del_state \<Rightarrow> del_error option \<times> 'w del_state" where
  "DeleteS3Send env maps st =
     (if S3DeletePathList st = [] then (None, st)
      else case collect MaxS3DeleteObjects [] (rev (remdups_adj (sort (S3DeletePathList st)))) of
        None \<Rightarrow> (Some (DE_S3 (S3_ERROR_new 13)), st)
      | Some (sBucket, objs, taken, rest) \<Rightarrow>
          let ((e, answer), w) = de_post env sBucket objs (dworld st);
              Error = SetError e;
              st' = st\<lparr> S3DeletePathList := rev rest, batches := batches st @ [(sBucket, objs, taken)],
                        dworld := w \<rparr> in
          if IfError Error then (Some (DE_S3 Error), st')
          else case answer of
            Inl hr \<Rightarrow> (Some (DE_S3 (S3_ERROR_new hr)), st')
          | Inr evs \<Rightarrow>
              let ErrorList = delete_errors maps evs in
              if ErrorList = [] then (None, st')
              else (Some (DE_S3 (SetError (Error\<lparr> sDetails := error_details ErrorList, dwHttpError := 500,
                                                  S3Error := xd_Error (hd ErrorList) \<rparr>))), st'))"

section \<open>Folders\<close>

definition child_key :: "string \<Rightarrow> string \<times> bool \<Rightarrow> S3_DELETE_ENTRY" where
  "child_key sKey d = (sKey @ fst d @ (if snd d then ''/'' else []), [])"

text \<open>The entry itself, after its contents; more than 1000 collected entries are sent.\<close>

definition add_entry ::
  "'w del_env \<Rightarrow> s3_maps \<Rightarrow> S3_DELETE_ENTRY \<Rightarrow> 'w del_state \<Rightarrow> del_error option \<times> 'w del_state" where
  "add_entry env maps e st =
     (let st1 = st\<lparr> S3DeletePathList := S3DeletePathList st @ [e] \<rparr> in
      if length (S3DeletePathList st1) > MaxS3DeleteObjects then DeleteS3Send env maps st1 else (None, st1))"

fun DeleteS3Internal ::
  "'w del_env \<Rightarrow> s3_maps \<Rightarrow> nat \<Rightarrow> S3_DELETE_ENTRY list \<Rightarrow> 'w del_state
   \<Rightarrow> (del_error option \<times> 'w del_state) option" where
  "DeleteS3Internal env maps fuel [] st = Some (None, st)"
| "DeleteS3Internal env maps 0 (e # es) st = None"
| "DeleteS3Internal env maps (Suc n) ((sKey, sVersionId) # es) st =
     (if sKey = [] then Some (Some DE_ATL, st)
      else
        case (if last sKey = CHR ''/'' then
                let ((e, DirList), w) = de_list env sKey (dworld st);
                    Error = SetError e; st1 = st\<lparr> dworld := w \<rparr> in
                if IfError Error \<and> \<not> IfNotFound Error then Some (Some (DE_S3 Error), st1)
                else if \<not> IfError Error then DeleteS3Internal env maps n (map (child_key sKey) DirList) st1
                else Some (None, st1)
              else Some (None, st)) of
          None \<Rightarrow> None
        | Some (Some err, st1) \<Rightarrow> Some (Some err, st1)
        | Some (None, st1) \<Rightarrow>
            (case add_entry env maps (sKey, sVersionId) st1 of
               (Some err, st2) \<Rightarrow> Some (Some err, st2)
             | (None, st2) \<Rightarrow> DeleteS3Internal env maps (Suc n) es st2))"

definition DeleteS3_list ::
  "'w del_env \<Rightarrow> s3_maps \<Rightarrow> nat \<Rightarrow> S3_DELETE_ENTRY list \<Rightarrow> 'w
   \<Rightarrow> (del_error option \<times> 'w del_state) option" where
  "DeleteS3_list env maps fuel PathList w =
     (case DeleteS3Internal env maps fuel PathList
             \<lparr> S3DeletePathList = [], batches = [], dworld = w \<rparr> of
        None \<Rightarrow> None
      | Some (Some err, st) \<Rightarrow> Some (Some err, st)
      | Some (None, st) \<Rightarrow> Some (DeleteS3Send env maps st))"

definition DeleteS3 ::
  "'w del_env \<Rightarrow> s3_maps \<Rightarrow> nat \<Rightarrow> string \<Rightarrow> string option \<Rightarrow> 'w \<Rightarrow> (del_error option \<times> 'w) option" where
  "DeleteS3 env maps fuel sPath pszVersionId w =
     (if sPath = [] then Some (Some (DE_S3 (S3_ERROR_new 123)), w)
      else if last sPath = CHR ''/'' then
        map_option (\<lambda>(r, st). (r, dworld st))
          (DeleteS3_list env maps fuel [(sPath, case pszVersionId of None \<Rightarrow> [] | Some v \<Rightarrow> v)] w)
      else
        let sResource = UriEncode sPath StdSAFE @ (case pszVersionId of None \<Rightarrow> [] | Some v \<Rightarrow> ''?versionId='' @ v);
            (e, w') = de_delete env sResource w; Error = SetError e in
        Some (if IfError Error then Some (DE_S3 Error) else None, w'))"

section \<open>Lemmas\<close>

lemma str_find_zero: "str_find p s = Some 0 \<Longrightarrow> \<exists>r. s = p @ r"
  using str_find_Some [of p s 0] by (metis append_take_drop_id drop0)

text \<open>Keys that do not start with two slashes, as every object key does.\<close>

definition plain_keys :: "S3_DELETE_ENTRY list \<Rightarrow> bool" where
  "plain_keys es \<longleftrightarrow> (\<forall>e \<in> set es. take 2 (fst e) \<noteq> ''//'')"

definition full_key :: "string \<Rightarrow> string \<times> string \<Rightarrow> S3_DELETE_ENTRY" where
  "full_key b e = (''/'' @ b @ ''/'' @ fst e, snd e)"

declare str_find.simps [simp del]

lemma collect_Suc:
  assumes "collect (Suc n) b ((sKey, v) # es) = Some (b', objs, taken, rest)"
  obtains b1 o1 t1 where "b \<noteq> [] \<longrightarrow> b1 = b" "str_find (''/'' @ b1 @ ''/'') sKey = Some 0"
    "collect n b1 es = Some (b', o1, t1, rest)" "objs = (str_mid (length b1 + 2) sKey, v) # o1"
    "taken = (sKey, v) # t1"
proof -
  obtain b1 where b1: "pick_bucket b sKey = Some b1"
    using assms by (cases "pick_bucket b sKey") simp_all
  define pre where "pre = ''/'' @ b1 @ ''/''"
  have f: "str_find pre sKey = Some 0"
    using assms b1 by (simp add: pre_def split: if_splits)
  obtain b2 o1 t1 r1 where c: "collect n b1 es = Some (b2, o1, t1, r1)"
    using assms b1 f by (cases "collect n b1 es") (auto simp: pre_def)
  have "b2 = b'" "r1 = rest" "objs = (str_mid (length b1 + 2) sKey, v) # o1" "taken = (sKey, v) # t1"
    using assms b1 f c by (simp_all add: pre_def)
  moreover have "b \<noteq> [] \<longrightarrow> b1 = b" using b1 unfolding pick_bucket_def by (metis option.inject)
  ultimately show thesis using that f c unfolding pre_def by blast
qed

lemma collect_split:
  "collect n b es = Some (b', objs, taken, rest) \<Longrightarrow>
   es = taken @ rest \<and> length taken = min n (length es) \<and> length objs = length taken"
proof (induction es arbitrary: n b objs taken)
  case (Cons e es)
  show ?case
  proof (cases n)
    case (Suc m)
    obtain k v where e: "e = (k, v)" by force
    obtain b1 o1 t1 where c: "collect m b1 es = Some (b', o1, t1, rest)"
      "objs = (str_mid (length b1 + 2) k, v) # o1" "taken = (k, v) # t1"
      by (rule collect_Suc [OF Cons.prems [unfolded Suc e]])
    have ih: "es = t1 @ rest" "length t1 = min m (length es)" "length o1 = length t1"
      using Cons.IH [OF c(1)] by blast+
    have "e # es = taken @ rest" using ih(1) c(3) e by simp
    moreover have "length taken = Suc (min m (length es))" using ih(2) c(3) by (simp only: list.size add_0_right add_Suc_right)
    moreover have "length objs = length taken" using ih(3) c(2,3) by (simp only: list.size)
    ultimately show ?thesis using Suc by (metis length_Cons min_Suc_Suc)
  qed (use Cons.prems in auto)
qed auto

lemma collect_same_bucket:
  "collect n b es = Some (b', objs, taken, rest) \<Longrightarrow> b \<noteq> [] \<Longrightarrow> b' = b \<and> taken = map (full_key b) objs"
proof (induction es arbitrary: n objs taken)
  case (Cons e es)
  show ?case
  proof (cases n)
    case (Suc m)
    obtain k v where e: "e = (k, v)" by force
    obtain b1 o1 t1 where c: "b \<noteq> [] \<longrightarrow> b1 = b" "str_find (''/'' @ b1 @ ''/'') k = Some 0"
      "collect m b1 es = Some (b', o1, t1, rest)" "objs = (str_mid (length b1 + 2) k, v) # o1"
      "taken = (k, v) # t1"
      by (rule collect_Suc [OF Cons.prems(1) [unfolded Suc e]])
    obtain r where "k = (''/'' @ b @ ''/'') @ r" using str_find_zero c(1,2) Cons.prems(2) by metis
    then show ?thesis using Cons.IH [of m o1 t1] c e Cons.prems(2) by (simp add: full_key_def str_mid_def)
  qed (use Cons.prems in auto)
qed auto

lemma collect_bucket:
  assumes "collect n [] es = Some (b', objs, taken, rest)" "plain_keys taken"
  shows "taken = map (full_key b') objs"
proof (cases es)
  case (Cons e es')
  show ?thesis
  proof (cases n)
    case (Suc m)
    obtain k v where e: "e = (k, v)" by force
    obtain b1 o1 t1 where c: "str_find (''/'' @ b1 @ ''/'') k = Some 0"
      "collect m b1 es' = Some (b', o1, t1, rest)" "objs = (str_mid (length b1 + 2) k, v) # o1"
      "taken = (k, v) # t1"
      by (rule collect_Suc [OF assms(1) [unfolded Suc e Cons]])
    obtain r where r: "k = (''/'' @ b1 @ ''/'') @ r" using str_find_zero [OF c(1)] by blast
    have "b1 \<noteq> []" using assms(2) c(4) r by (auto simp: plain_keys_def)
    then show ?thesis using collect_same_bucket [OF c(2)] c(3,4) r by (simp add: full_key_def str_mid_def)
  qed (use Cons assms in auto)
qed (use assms in auto)

definition batch_ok :: "string \<times> (string \<times> string) list \<times> S3_DELETE_ENTRY list \<Rightarrow> bool" where
  "batch_ok = (\<lambda>(b, objs, taken). taken \<noteq> [] \<and> length taken \<le> MaxS3DeleteObjects \<and> sorted_wrt (>) taken
     \<and> length objs = length taken \<and> (plain_keys taken \<longrightarrow> taken = map (full_key b) objs))"

definition sent_entries :: "'w del_state \<Rightarrow> S3_DELETE_ENTRY list" where
  "sent_entries st = concat (map (\<lambda>(b, objs, taken). taken) (batches st))"

definition handled :: "'w del_state \<Rightarrow> S3_DELETE_ENTRY set" where
  "handled st = set (sent_entries st) \<union> set (S3DeletePathList st)"

lemma sorted_distinct_remdups_adj: "sorted xs \<Longrightarrow> distinct (remdups_adj xs)"
  by (induction xs rule: remdups_adj.induct) (auto simp: less_le)

lemma remdups_sort: "sorted_wrt (>) (rev (remdups_adj (sort xs)))" "set (remdups_adj (sort xs)) = set xs"
  "length (remdups_adj (sort xs)) \<le> length xs"
proof -
  have "sorted (remdups_adj (sort xs))" "distinct (remdups_adj (sort xs))"
    by (simp_all add: sorted_remdups_adj sorted_distinct_remdups_adj)
  then show "sorted_wrt (>) (rev (remdups_adj (sort xs)))"
    by (simp add: sorted_wrt_rev strict_sorted_iff)
  show "length (remdups_adj (sort xs)) \<le> length xs"
    using remdups_adj_length [of "sort xs"] by simp
qed simp

lemma Send_step:
  assumes "DeleteS3Send env maps st = (r, st')" "S3DeletePathList st \<noteq> []"
  shows "(st' = st \<and> r \<noteq> None)
    \<or> (\<exists>b objs taken rest. rev (remdups_adj (sort (S3DeletePathList st))) = taken @ rest
         \<and> S3DeletePathList st' = rev rest \<and> batches st' = batches st @ [(b, objs, taken)]
         \<and> length taken = min 1000 (length (remdups_adj (sort (S3DeletePathList st))))
         \<and> batch_ok (b, objs, taken) \<and> handled st' = handled st)"
proof (cases "collect MaxS3DeleteObjects [] (rev (remdups_adj (sort (S3DeletePathList st))))")
  case None
  then show ?thesis using assms by (auto simp: DeleteS3Send_def)
next
  case (Some a)
  obtain b objs taken rest where a: "a = (b, objs, taken, rest)" by (metis prod_cases4)
  note c = Some [unfolded a]
  note sp = collect_split [OF c]
  have ne: "taken \<noteq> []"
  proof -
    have "set (remdups_adj (sort (S3DeletePathList st))) \<noteq> {}" using assms(2) by simp
    then have "remdups_adj (sort (S3DeletePathList st)) \<noteq> []" by (metis list.set(1))
    then have "length taken > 0" using sp by (simp add: MaxS3DeleteObjects_def)
    then show ?thesis by simp
  qed
  have srt: "sorted_wrt (>) taken"
    using remdups_sort(1) [of "S3DeletePathList st"] sp by (metis sorted_wrt_append)
  have ok: "batch_ok (b, objs, taken)" using ne srt sp collect_bucket [OF c] by (simp add: batch_ok_def)
  obtain e answer w where p: "de_post env b objs (dworld st) = ((e, answer), w)" by (metis prod.exhaust)
  have st': "S3DeletePathList st' = rev rest \<and> batches st' = batches st @ [(b, objs, taken)]"
    using assms c p by (auto simp: DeleteS3Send_def Let_def split: if_splits sum.splits)
  have "set (S3DeletePathList st) = set taken \<union> set rest"
    using sp remdups_sort(2) [of "S3DeletePathList st"] by (metis set_append set_rev)
  then have "handled st' = handled st" using st' by (auto simp: handled_def sent_entries_def)
  then show ?thesis using st' sp ok by (auto simp: MaxS3DeleteObjects_def)
qed

text \<open>Between entries at most 1000 are pending, and every batch sent is well formed.\<close>

definition del_inv :: "'w del_state \<Rightarrow> bool" where
  "del_inv st \<longleftrightarrow> (\<forall>b \<in> set (batches st). batch_ok b)"

lemma Send_inv:
  assumes s: "DeleteS3Send env maps st = (r, st')" and inv: "del_inv st"
    and len: "length (S3DeletePathList st) \<le> 1001"
  shows "del_inv st' \<and> handled st' = handled st \<and> (r = None \<longrightarrow> length (S3DeletePathList st') \<le> 1
    \<and> (length (S3DeletePathList st) \<le> 1000 \<longrightarrow> S3DeletePathList st' = []))"
proof (cases "S3DeletePathList st = []")
  case True
  then show ?thesis using s inv by (simp add: DeleteS3Send_def)
next
  case False
  let ?l = "remdups_adj (sort (S3DeletePathList st))"
  have ll: "length ?l \<le> length (S3DeletePathList st)" by (rule remdups_sort(3))
  have "length (S3DeletePathList st') \<le> 1 \<and> (length (S3DeletePathList st) \<le> 1000 \<longrightarrow> S3DeletePathList st' = [])"
    if t: "rev ?l = taken @ rest" "S3DeletePathList st' = rev rest" "length taken = min 1000 (length ?l)" for taken rest
  proof -
    have "length ?l = length taken + length rest" using t(1) by (metis length_append length_rev)
    then have "length rest \<le> 1" "length (S3DeletePathList st) \<le> 1000 \<longrightarrow> length rest = 0"
      using t(3) ll len by linarith+
    then show ?thesis using t(2) by simp
  qed
  then show ?thesis using Send_step [OF s False] inv
    by (auto simp: del_inv_def)
qed

lemma add_entry_cases:
  assumes "add_entry env maps e st = (r, st')"
  obtains (sent) "length (S3DeletePathList st) \<ge> 1000"
      "DeleteS3Send env maps (st\<lparr> S3DeletePathList := S3DeletePathList st @ [e] \<rparr>) = (r, st')"
  | (kept) "length (S3DeletePathList st) < 1000" "r = None"
      "st' = st\<lparr> S3DeletePathList := S3DeletePathList st @ [e] \<rparr>"
  using assms unfolding add_entry_def Let_def MaxS3DeleteObjects_def
  by (cases "length (S3DeletePathList st) < 1000") auto

lemma handled_add: "handled (st\<lparr> S3DeletePathList := S3DeletePathList st @ [e] \<rparr>) = insert e (handled st)"
  by (auto simp: handled_def sent_entries_def)

lemma add_entry_step:
  assumes "add_entry env maps e st = (r, st')" "del_inv st" "length (S3DeletePathList st) \<le> 1000"
  shows "del_inv st' \<and> handled st' = insert e (handled st) \<and> (r = None \<longrightarrow> length (S3DeletePathList st') \<le> 1000)"
  using assms(1)
proof (cases rule: add_entry_cases)
  case sent
  then show ?thesis using assms(2,3) Send_inv [OF sent(2)] handled_add [of st e] by (auto simp: del_inv_def)
next
  case kept
  then show ?thesis using assms(2,3) handled_add [of st e] by (simp add: del_inv_def)
qed

text \<open>The entries a delete stands for: those given, and the contents of the folders among
  them as the listings report them.\<close>

inductive under :: "(string \<Rightarrow> S3_ERROR \<times> (string \<times> bool) list) \<Rightarrow> S3_DELETE_ENTRY list \<Rightarrow> S3_DELETE_ENTRY \<Rightarrow> bool"
  for L where
  under_root: "e \<in> set es \<Longrightarrow> under L es e"
| under_child: "e \<in> set es \<Longrightarrow> fst e \<noteq> [] \<Longrightarrow> last (fst e) = CHR ''/'' \<Longrightarrow> L (fst e) = (Er, DirList)
    \<Longrightarrow> \<not> IfError (SetError Er) \<Longrightarrow> under L (map (child_key (fst e)) DirList) d \<Longrightarrow> under L es d"

text \<open>The listing of each folder is a fixed one while the delete runs: nobody else changes the folders,
  and the entries the delete has sent do not show in what it lists later. (It lists a folder before it
  sends anything of it, and once, if no entry given lies under another one given.)\<close>

definition stable_listing :: "'w del_env \<Rightarrow> (string \<Rightarrow> S3_ERROR \<times> (string \<times> bool) list) \<Rightarrow> bool" where
  "stable_listing env L \<longleftrightarrow> (\<forall>k w. fst (de_list env k w) = L k)"

definition contents :: "(string \<Rightarrow> S3_ERROR \<times> (string \<times> bool) list) \<Rightarrow> string \<Rightarrow> S3_DELETE_ENTRY set" where
  "contents L k = {c. k \<noteq> [] \<and> last k = CHR ''/'' \<and>
     (\<exists>Er D. L k = (Er, D) \<and> \<not> IfError (SetError Er) \<and> under L (map (child_key k) D) c)}"

lemma under_iff: "under L es d \<longleftrightarrow> d \<in> set es \<or> (\<exists>e \<in> set es. d \<in> contents L (fst e))"
  unfolding contents_def by (subst under.simps) blast

lemma under_nil [simp]: "\<not> under L [] d"
  by (simp add: under_iff)

lemma under_cons: "under L ((k, v) # es) d \<longleftrightarrow> d = (k, v) \<or> d \<in> contents L k \<or> under L es d"
  by (auto simp: under_iff)

definition folder_step ::
  "'w del_env \<Rightarrow> s3_maps \<Rightarrow> nat \<Rightarrow> string \<Rightarrow> 'w del_state \<Rightarrow> (del_error option \<times> 'w del_state) option" where
  "folder_step env maps n sKey st =
     (if last sKey = CHR ''/'' then
        let ((e, DirList), w) = de_list env sKey (dworld st);
            Error = SetError e; st1 = st\<lparr> dworld := w \<rparr> in
        if IfError Error \<and> \<not> IfNotFound Error then Some (Some (DE_S3 Error), st1)
        else if \<not> IfError Error then DeleteS3Internal env maps n (map (child_key sKey) DirList) st1
        else Some (None, st1)
      else Some (None, st))"

lemma Internal_cons:
  "DeleteS3Internal env maps (Suc n) ((sKey, sVersionId) # es) st =
     (if sKey = [] then Some (Some DE_ATL, st)
      else case folder_step env maps n sKey st of
          None \<Rightarrow> None
        | Some (Some err, st1) \<Rightarrow> Some (Some err, st1)
        | Some (None, st1) \<Rightarrow>
            (case add_entry env maps (sKey, sVersionId) st1 of
               (Some err, st2) \<Rightarrow> Some (Some err, st2)
             | (None, st2) \<Rightarrow> DeleteS3Internal env maps (Suc n) es st2))"
  by (simp add: folder_step_def)

lemma Internal_consE:
  assumes "DeleteS3Internal env maps (Suc n) ((k, v) # es) st = Some (r, st')"
  obtains (empty) "k = []" "r = Some DE_ATL" "st' = st"
  | (folder) "k \<noteq> []" "r \<noteq> None" "folder_step env maps n k st = Some (r, st')"
  | (add) st1 where "k \<noteq> []" "r \<noteq> None" "folder_step env maps n k st = Some (None, st1)"
      "add_entry env maps (k, v) st1 = (r, st')"
  | (rest) st1 st2 where "k \<noteq> []" "folder_step env maps n k st = Some (None, st1)"
      "add_entry env maps (k, v) st1 = (None, st2)" "DeleteS3Internal env maps (Suc n) es st2 = Some (r, st')"
  using assms unfolding Internal_cons by (auto split: if_splits option.splits prod.splits)

lemma folder_stepE:
  assumes "folder_step env maps n k st = Some (r, st')"
  obtains (plain) "last k \<noteq> CHR ''/''" "r = None" "st' = st"
  | (listed) e D w where "last k = CHR ''/''" "de_list env k (dworld st) = ((e, D), w)" "\<not> IfError (SetError e)"
      "DeleteS3Internal env maps n (map (child_key k) D) (st\<lparr> dworld := w \<rparr>) = Some (r, st')"
  | (unlisted) e D w where "last k = CHR ''/''" "de_list env k (dworld st) = ((e, D), w)" "IfError (SetError e)"
      "st' = st\<lparr> dworld := w \<rparr>" "r = None \<longleftrightarrow> IfNotFound (SetError e)"
  using assms unfolding folder_step_def by (auto simp: Let_def split: if_splits prod.splits)

definition pending_ok :: "'w del_state \<Rightarrow> bool" where
  "pending_ok st \<longleftrightarrow> del_inv st \<and> length (S3DeletePathList st) \<le> 1000"

lemma dworld_irrelevant [simp]:
  "pending_ok (st\<lparr> dworld := w \<rparr>) = pending_ok st" "handled (st\<lparr> dworld := w \<rparr>) = handled st"
  "del_inv (st\<lparr> dworld := w \<rparr>) = del_inv st" "sent_entries (st\<lparr> dworld := w \<rparr>) = sent_entries st"
  by (simp_all add: pending_ok_def del_inv_def handled_def sent_entries_def)

lemma contents_file [simp]: "last k \<noteq> CHR ''/'' \<Longrightarrow> contents L k = {}"
  by (simp add: contents_def)

lemma contents_folder:
  "k \<noteq> [] \<Longrightarrow> last k = CHR ''/'' \<Longrightarrow> L k = (e, D) \<Longrightarrow>
   contents L k = (if IfError (SetError e) then {} else {c. under L (map (child_key k) D) c})"
  by (auto simp: contents_def)

text \<open>A folder's contents have longer keys, so they precede it in a descending batch.\<close>

definition names_ok :: "(string \<Rightarrow> S3_ERROR \<times> (string \<times> bool) list) \<Rightarrow> bool" where
  "names_ok L \<longleftrightarrow> (\<forall>k. \<forall>d \<in> set (snd (L k)). fst d \<noteq> [])"

lemma less_append: "s \<noteq> [] \<Longrightarrow> (k :: string) < k @ s"
  by (induction k) (auto simp: neq_Nil_conv)

lemma under_longer:
  "under L es c \<Longrightarrow> names_ok L \<Longrightarrow> \<forall>e \<in> set es. \<exists>s. s \<noteq> [] \<and> fst e = k @ s \<Longrightarrow> \<exists>s. s \<noteq> [] \<and> fst c = k @ s"
proof (induction rule: under.induct)
  case (under_child e es Er D d)
  obtain s where "s \<noteq> []" "fst e = k @ s" using under_child.prems(2) under_child.hyps(1) by blast
  then have "\<forall>c \<in> set (map (child_key (fst e)) D). \<exists>s. s \<noteq> [] \<and> fst c = k @ s" by (auto simp: child_key_def)
  then show ?case using under_child.IH under_child.prems(1) by blast
qed auto

lemma contents_greater:
  assumes "c \<in> contents L k" "names_ok L" shows "(k, v) < c"
proof -
  obtain Er D where D: "L k = (Er, D)" "under L (map (child_key k) D) c" using assms(1) by (auto simp: contents_def)
  have "\<forall>e \<in> set (map (child_key k) D). \<exists>s. s \<noteq> [] \<and> fst e = k @ s"
    using assms(2) D(1) unfolding names_ok_def child_key_def
    by (auto dest!: spec [of _ k] bspec)
  then obtain s where "s \<noteq> []" "fst c = k @ s" using under_longer [OF D(2) assms(2)] by blast
  then show ?thesis using less_append [of s k] by (cases c) simp
qed

definition contents_first :: "(string \<Rightarrow> S3_ERROR \<times> (string \<times> bool) list) \<Rightarrow> 'w del_state \<Rightarrow> bool" where
  "contents_first L st \<longleftrightarrow> (\<forall>xs k v ys. sent_entries st = xs @ (k, v) # ys \<longrightarrow> contents L k \<subseteq> set xs)
     \<and> (\<forall>k v. (k, v) \<in> handled st \<longrightarrow> contents L k \<subseteq> handled st)"

lemma descending_earlier:
  assumes "sorted_wrt (>) (us @ e # rest)" "c \<in> set (us @ e # rest)" "e < c"
  shows "c \<in> set (us :: ('a :: linorder) list)"
  using assms by (auto simp: sorted_wrt_append)

lemma contents_first_dworld [simp]: "contents_first L (st\<lparr> dworld := w \<rparr>) = contents_first L st"
  by (simp add: contents_first_def)

lemma Send_contents_first:
  assumes s: "DeleteS3Send env maps st = (r, st')" and cf: "contents_first L st" and nm: "names_ok L"
  shows "contents_first L st'"
proof (cases "S3DeletePathList st = [] \<or> st' = st")
  case True
  then show ?thesis using s cf by (auto simp: DeleteS3Send_def)
next
  case False
  then obtain b objs taken rest where t: "rev (remdups_adj (sort (S3DeletePathList st))) = taken @ rest"
    "batches st' = batches st @ [(b, objs, taken)]" "handled st' = handled st"
    using Send_step [OF s] by blast
  have se: "sent_entries st' = sent_entries st @ taken" using t(2) by (simp add: sent_entries_def)
  have srt: "sorted_wrt (>) (taken @ rest)" using remdups_sort(1) [of "S3DeletePathList st"] t(1) by simp
  have pend: "set (taken @ rest) = set (S3DeletePathList st)"
    using remdups_sort(2) [of "S3DeletePathList st"] t(1) by (metis set_rev)
  have "contents L k \<subseteq> set xs" if split: "sent_entries st @ taken = xs @ (k, v) # ys" for xs k v ys
  proof (cases "\<exists>us. xs = sent_entries st @ us \<and> taken = us @ (k, v) # ys")
    case True
    then obtain us where us: "xs = sent_entries st @ us" "taken = us @ (k, v) # ys" by blast
    have "(k, v) \<in> handled st" using us(2) pend by (auto simp: handled_def)
    then have "contents L k \<subseteq> set (sent_entries st) \<union> set (taken @ rest)"
      using cf pend unfolding contents_first_def handled_def by blast
    moreover have "c \<in> set us" if "c \<in> set (taken @ rest)" "c \<in> contents L k" for c
      using descending_earlier [of us "(k, v)" "ys @ rest" c] srt that contents_greater [OF that(2) nm, of v] us(2) by simp
    ultimately show ?thesis unfolding us(1) by auto
  next
    case False
    then obtain us where us: "sent_entries st = xs @ us" "us @ taken = (k, v) # ys"
      using split by (auto simp: append_eq_append_conv2)
    then have "us \<noteq> []" using False by auto
    then obtain zs where "sent_entries st = xs @ (k, v) # zs" using us by (cases us) auto
    then show ?thesis using cf unfolding contents_first_def by blast
  qed
  then show ?thesis using cf unfolding contents_first_def se t(3) by blast
qed

lemma add_entry_contents_first:
  assumes "add_entry env maps (k, v) st = (r, st')" "contents_first L st" "names_ok L" "contents L k \<subseteq> handled st"
  shows "contents_first L st'"
proof -
  have "sent_entries (st\<lparr> S3DeletePathList := S3DeletePathList st @ [(k, v)] \<rparr>) = sent_entries st"
    by (simp add: sent_entries_def)
  then have cf: "contents_first L (st\<lparr> S3DeletePathList := S3DeletePathList st @ [(k, v)] \<rparr>)"
    using assms(2,4) unfolding contents_first_def handled_add by auto
  show ?thesis using assms(1)
  proof (cases rule: add_entry_cases)
    case sent
    then show ?thesis using Send_contents_first cf assms(3) by blast
  qed (use cf in simp)
qed

lemma Internal_step:
  "DeleteS3Internal env maps n es st = Some (r, st') \<Longrightarrow> pending_ok st \<Longrightarrow> stable_listing env L \<Longrightarrow>
   del_inv st' \<and> (r = None \<longrightarrow> pending_ok st' \<and> handled st' = handled st \<union> {d. under L es d})
   \<and> handled st \<subseteq> handled st' \<and> handled st' \<subseteq> handled st \<union> {d. under L es d}
   \<and> (names_ok L \<longrightarrow> contents_first L st \<longrightarrow> contents_first L st')"
proof (induction n arbitrary: es st r st')
  case 0
  then show ?case by (cases es) (auto simp: pending_ok_def)
next
  case (Suc n)
  note stable = Suc.prems(3)
  have lk: "L k = (e, D)" if "de_list env k w0 = ((e, D), w)" for k w0 e D w
    using that stable unfolding stable_listing_def by (metis fst_conv)
  have fold: "del_inv st1 \<and> (x = None \<longrightarrow> pending_ok st1 \<and> handled st1 = handled st0 \<union> contents L k)
      \<and> handled st0 \<subseteq> handled st1 \<and> handled st1 \<subseteq> handled st0 \<union> contents L k
      \<and> (names_ok L \<longrightarrow> contents_first L st0 \<longrightarrow> contents_first L st1)"
    if fs: "folder_step env maps n k st0 = Some (x, st1)" and ok: "pending_ok st0" and k: "k \<noteq> []" for k st0 x st1
    using fs
  proof (cases rule: folder_stepE)
    case plain
    then show ?thesis using ok by (simp add: pending_ok_def)
  next
    case (listed e D w)
    then show ?thesis using Suc.IH [OF listed(4) _ stable] ok contents_folder [where L = L, OF k listed(1) lk [OF listed(2)]] by simp
  next
    case (unlisted e D w)
    then show ?thesis using ok contents_folder [where L = L, OF k unlisted(1) lk [OF unlisted(2)]] by (auto simp: pending_ok_def)
  qed
  show ?case using Suc.prems(1,2)
  proof (induction es arbitrary: st)
    case Nil
    then show ?case by (simp add: pending_ok_def)
  next
    case (Cons e es)
    obtain k v where e: "e = (k, v)" by force
    note ok = Cons.prems(2)
    have u: "{d. under L (e # es) d} = insert (k, v) (contents L k \<union> {d. under L es d})"
      unfolding e under_cons by blast
    show ?case using Cons.prems(1) [unfolded e]
    proof (cases rule: Internal_consE)
      case empty
      then show ?thesis using ok by (simp add: pending_ok_def)
    next
      case folder
      then show ?thesis using fold [OF folder(3) ok folder(1)] unfolding u by blast
    next
      case (add st1)
      then show ?thesis using fold [OF add(3) ok add(1)] add_entry_step [OF add(4)]
          add_entry_contents_first [OF add(4)] unfolding u by (auto simp: pending_ok_def)
    next
      case (rest st1 st2)
      note f = fold [OF rest(2) ok rest(1)]
      have a: "pending_ok st2" "handled st2 = insert (k, v) (handled st \<union> contents L k)"
        using f add_entry_step [OF rest(3)] by (simp_all add: pending_ok_def)
      have "names_ok L \<longrightarrow> contents_first L st \<longrightarrow> contents_first L st2"
        using f add_entry_contents_first [OF rest(3)] by simp
      then show ?thesis using Cons.IH [OF rest(4) a(1)] a(2) unfolding u by auto
    qed
  qed
qed

lemma start_ok:
  "pending_ok \<lparr> S3DeletePathList = [], batches = [], dworld = w \<rparr>"
  "handled \<lparr> S3DeletePathList = [], batches = [], dworld = w \<rparr> = {}"
  "contents_first L \<lparr> S3DeletePathList = [], batches = [], dworld = w \<rparr>"
  by (simp_all add: pending_ok_def del_inv_def handled_def sent_entries_def contents_first_def)

lemma DeleteS3_list_split:
  assumes "DeleteS3_list env maps fuel PathList w = Some (r, st)"
  obtains (failed) "r \<noteq> None"
      "DeleteS3Internal env maps fuel PathList \<lparr> S3DeletePathList = [], batches = [], dworld = w \<rparr> = Some (r, st)"
  | (walked) st1 where "DeleteS3Internal env maps fuel PathList \<lparr> S3DeletePathList = [], batches = [], dworld = w \<rparr> = Some (None, st1)"
      "DeleteS3Send env maps st1 = (r, st)"
  using assms unfolding DeleteS3_list_def by (auto split: option.splits)

lemma DeleteS3_list_step:
  assumes run: "DeleteS3_list env maps fuel PathList w = Some (r, st)" and L: "stable_listing env L"
  shows "del_inv st" "handled st \<subseteq> {d. under L PathList d}" "names_ok L \<longrightarrow> contents_first L st"
    "r = None \<longrightarrow> S3DeletePathList st = [] \<and> handled st = {d. under L PathList d}"
proof -
  have "del_inv st \<and> handled st \<subseteq> {d. under L PathList d} \<and> (names_ok L \<longrightarrow> contents_first L st)
    \<and> (r = None \<longrightarrow> S3DeletePathList st = [] \<and> handled st = {d. under L PathList d})"
    using run
  proof (cases rule: DeleteS3_list_split)
    case failed
    then show ?thesis using Internal_step [OF failed(2) start_ok(1) L] by (auto simp: start_ok)
  next
    case (walked st1)
    note i = Internal_step [OF walked(1) start_ok(1) L]
    have p: "del_inv st1" "length (S3DeletePathList st1) \<le> 1000" using i by (simp_all add: pending_ok_def)
    have "length (S3DeletePathList st1) \<le> 1001" using p(2) by simp
    note s = Send_inv [OF walked(2) p(1) this]
    show ?thesis using i s p(2) Send_contents_first [OF walked(2)] by (auto simp: start_ok)
  qed
  then show "del_inv st" "handled st \<subseteq> {d. under L PathList d}" "names_ok L \<longrightarrow> contents_first L st"
    "r = None \<longrightarrow> S3DeletePathList st = [] \<and> handled st = {d. under L PathList d}" by blast+
qed

definition ranked :: "'w del_env \<Rightarrow> (string \<Rightarrow> nat) \<Rightarrow> bool" where
  "ranked env rank \<longleftrightarrow> (\<forall>k w. \<forall>d \<in> set (snd (fst (de_list env k w))). rank (fst (child_key k d)) < rank k)"

lemma Internal_returns:
  "ranked env rank \<Longrightarrow> \<forall>e \<in> set es. rank (fst e) < n \<Longrightarrow> DeleteS3Internal env maps n es st \<noteq> None"
proof (induction n arbitrary: es st)
  case 0
  then show ?case by (cases es) auto
next
  case (Suc n)
  have fold: "folder_step env maps n k st0 \<noteq> None" if k: "rank k < Suc n" for k st0
  proof -
    obtain e D w where li: "de_list env k (dworld st0) = ((e, D), w)" by (metis prod.exhaust)
    have "rank (fst (child_key k d)) < n" if "d \<in> set D" for d
      using Suc.prems(1) [unfolded ranked_def, rule_format, of d k "dworld st0"] li that k by simp
    then have "\<forall>c \<in> set (map (child_key k) D). rank (fst c) < n" by simp
    then show ?thesis using Suc.IH [OF Suc.prems(1), of "map (child_key k) D"] li
      by (auto simp: folder_step_def Let_def)
  qed
  show ?case using Suc.prems(2)
  proof (induction es arbitrary: st)
    case (Cons e es)
    obtain k v where e: "e = (k, v)" by force
    have "folder_step env maps n k st \<noteq> None" using fold Cons.prems e by simp
    moreover have "DeleteS3Internal env maps (Suc n) es st2 \<noteq> None" for st2 using Cons by simp
    ultimately show ?case unfolding e Internal_cons by (auto split: option.splits prod.splits)
  qed simp
qed

section \<open>Properties\<close>

text \<open>Every bulk delete request carries between one and 1000 objects, in strictly
  descending key order (so a folder follows its contents), and its body stands for exactly the
  entries of one bucket taken from the pending list: bucket and object key give the entry's key.\<close>

theorem DeleteS3_batches:
  assumes "DeleteS3_list env maps fuel PathList w = Some (r, st)" and "stable_listing env L"
    and "(b, objs, taken) \<in> set (batches st)"
  shows "1 \<le> length taken \<and> length taken \<le> 1000 \<and> length objs = length taken \<and> sorted_wrt (>) taken
    \<and> (plain_keys taken \<longrightarrow> taken = map (\<lambda>(k, v). (''/'' @ b @ ''/'' @ k, v)) objs)"
proof -
  have "batch_ok (b, objs, taken)" using DeleteS3_list_step(1) [OF assms(1,2)] assms(3) unfolding del_inv_def by blast
  moreover have "full_key b = (\<lambda>(k, v). (''/'' @ b @ ''/'' @ k, v))" by (simp add: fun_eq_iff full_key_def)
  ultimately show ?thesis by (simp add: batch_ok_def MaxS3DeleteObjects_def Suc_le_eq)
qed

text \<open>C18: With listings that do not change while it runs, a delete sends only entries it was
  given or that a listing put under a folder it was given, whatever happens; when it reports
  success it has sent all of them and nothing is left pending.\<close>

theorem DeleteS3_sends_exactly:
  assumes "DeleteS3_list env maps fuel PathList w = Some (r, st)" and "stable_listing env L"
  shows "set (sent_entries st) \<subseteq> {d. under L PathList d} \<and>
    (r = None \<longrightarrow> S3DeletePathList st = [] \<and> set (sent_entries st) = {d. under L PathList d})"
  using DeleteS3_list_step(2,4) [OF assms] by (auto simp: handled_def)

text \<open>C17: In the order of the requests, over all batches and whether or not the delete
  succeeds, a folder is sent only after everything a listing put under it.\<close>

theorem DeleteS3_contents_before_folder:
  assumes "DeleteS3_list env maps fuel PathList w = Some (r, st)" and "stable_listing env L" and "names_ok L"
    and "sent_entries st = before @ (k, v) # after"
  shows "contents L k \<subseteq> set before"
  using DeleteS3_list_step(3) [OF assms(1,2)] assms(3,4) unfolding contents_first_def by blast

text \<open>C20: When the folders have finite depth (the entries of a listing rank below the folder
  listed), the recursion of DeleteS3 returns: a fuel above the ranks of the paths is enough.\<close>

theorem DeleteS3_returns:
  assumes "ranked env rank" and "\<forall>e \<in> set PathList. rank (fst e) < fuel"
  shows "\<exists>r st. DeleteS3_list env maps fuel PathList w = Some (r, st)"
  using Internal_returns [OF assms, of maps "\<lparr> S3DeletePathList = [], batches = [], dworld = w \<rparr>"]
  unfolding DeleteS3_list_def by (auto split: option.splits)

definition demo_env :: "nat del_env" where
  "demo_env = \<lparr> de_list = (\<lambda>k w. ((S3_ERROR_new 0, if k = ''/b/d/'' then [(''x'', False)] else []), w)),
     de_post = (\<lambda>b objs w. ((S3_ERROR_new 0, Inr []), Suc w)), de_delete = (\<lambda>p w. (S3_ERROR_new 0, w)) \<rparr>"

lemma demo_stable: "stable_listing demo_env (\<lambda>k. (S3_ERROR_new 0, if k = ''/b/d/'' then [(''x'', False)] else []))"
  by (simp add: stable_listing_def demo_env_def)

lemma demo_names: "names_ok (\<lambda>k. (S3_ERROR_new 0, if k = ''/b/d/'' then [(''x'', False)] else []))"
  by (simp add: names_ok_def)

lemma demo_ok: "\<not> IfError (SetError (S3_ERROR_new 0))"
  by (simp add: IfError_def SetError_def S3_ERROR_new_def)

lemma demo_send:
  assumes "S3DeletePathList st = [(''/b/d/x'', []), (''/b/d/'', [])]"
  shows "DeleteS3Send demo_env maps st = (None, st\<lparr> S3DeletePathList := [],
     batches := batches st @ [(''b'', [(''d/x'', []), (''d/'', [])], [(''/b/d/x'', []), (''/b/d/'', [])])],
     dworld := Suc (dworld st) \<rparr>)"
proof -
  have l: "rev (remdups_adj (sort (S3DeletePathList st))) = [(''/b/d/x'', []), (''/b/d/'', [])]"
    unfolding assms by simp
  have c: "collect 1000 [] [(''/b/d/x'', []), (''/b/d/'', [])] =
    Some (''b'', [(''d/x'', []), (''d/'', [])], [(''/b/d/x'', []), (''/b/d/'', [])], [])"
    by (simp add: eval_nat_numeral pick_bucket_def str_find_from_def str_find.simps str_mid_def)
  show ?thesis unfolding DeleteS3Send_def l MaxS3DeleteObjects_def c
    by (simp add: assms demo_env_def demo_ok delete_errors_def)
qed

lemma demo_run:
  "DeleteS3_list demo_env maps 2 [(''/b/d/'', [])] 0 =
     Some (None, \<lparr> S3DeletePathList = [], batches = [(''b'', [(''d/x'', []), (''d/'', [])], [(''/b/d/x'', []), (''/b/d/'', [])])],
       dworld = 1 \<rparr>)"
proof -
  have li: "de_list demo_env ''/b/d/'' w = ((S3_ERROR_new 0, [(''x'', False)]), w)" for w by (simp add: demo_env_def)
  have "DeleteS3Internal demo_env maps 2 [(''/b/d/'', [])] \<lparr> S3DeletePathList = [], batches = [], dworld = 0 \<rparr>
    = Some (None, \<lparr> S3DeletePathList = [(''/b/d/x'', []), (''/b/d/'', [])], batches = [], dworld = 0 \<rparr>)"
    by (simp add: numeral_2_eq_2 li demo_ok child_key_def add_entry_def MaxS3DeleteObjects_def)
  then show ?thesis by (simp add: DeleteS3_list_def demo_send)
qed

lemma DeleteS3_batches_witness:
  "sorted_wrt (>) [(''/b/d/x'', [] :: string), (''/b/d/'', [])]
   \<and> [(''/b/d/x'', []), (''/b/d/'', [])] = map (\<lambda>(k, v). (''/'' @ ''b'' @ ''/'' @ k, v)) [(''d/x'', [] :: string), (''d/'', [])]"
  using DeleteS3_batches [OF demo_run demo_stable, of "''b''" "[(''d/x'', []), (''d/'', [])]"
    "[(''/b/d/x'', []), (''/b/d/'', [])]"] by (simp add: plain_keys_def)

lemma DeleteS3_sends_exactly_witness:
  "{(''/b/d/x'', []), (''/b/d/'', [])}
     = {d. under (\<lambda>k. (S3_ERROR_new 0, if k = ''/b/d/'' then [(''x'', False)] else [])) [(''/b/d/'', [])] d}"
  using DeleteS3_sends_exactly [OF demo_run demo_stable] by (simp add: sent_entries_def)

lemma DeleteS3_contents_before_folder_witness:
  "contents (\<lambda>k. (S3_ERROR_new 0, if k = ''/b/d/'' then [(''x'', False)] else [])) ''/b/d/'' \<subseteq> {(''/b/d/x'', [])}"
  using DeleteS3_contents_before_folder [OF demo_run demo_stable demo_names, of "[(''/b/d/x'', [])]" "''/b/d/''" "[]" "[]"]
  by (simp add: sent_entries_def)

lemma DeleteS3_returns_witness:
  "\<exists>r st. DeleteS3_list demo_env s3_maps_init 2 [(''/b/d/'', [])] 0 = Some (r, st)"
  by (rule DeleteS3_returns [where rank = "\<lambda>k. if k = ''/b/d/'' then 1 else 0"])
     (simp_all add: ranked_def demo_env_def child_key_def)

end
