(* ===== verification/RWLock.thy ===== *)
theory RWLock
  imports Prelude
begin

text \<open>
  The reader/writer locks (CRWLock.h, CRWLock.cpp): a Windows SRWLOCK, which is a parameter,
  and on top of it a lock that a thread may take again in inner stack frames. Every
  CRWLockAcquire is registered with its lock; only the last locked one of a thread
  releases the SRWLOCK. A step is one critical section of the list lock, or the SRWLOCK
  being granted to a thread that waits for it.
\<close>

section \<open>The SRWLOCK\<close>

text \<open>\<open>None\<close>: the call blocks (acquire), or the caller does not hold the lock in that mode (release).\<close>

record 's srw_ops =
  InitializeSRWLock :: 's
  AcquireSRWLockExclusive :: "'s \<Rightarrow> 's option"
  AcquireSRWLockShared :: "'s \<Rightarrow> 's option"
  ReleaseSRWLockExclusive :: "'s \<Rightarrow> 's option"
  ReleaseSRWLockShared :: "'s \<Rightarrow> 's option"

text \<open>What the documentation of SRW locks promises; the view of a lock is the number of its
  shared holders and whether it is held exclusively.\<close>

definition srw_documented :: "'s srw_ops \<Rightarrow> ('s \<Rightarrow> nat \<times> bool) \<Rightarrow> bool" where
  "srw_documented ops view \<longleftrightarrow>
     view (InitializeSRWLock ops) = (0, False) \<and>
     (\<forall>s s'. AcquireSRWLockExclusive ops s = Some s' \<longrightarrow> view s = (0, False) \<and> view s' = (0, True)) \<and>
     (\<forall>s s'. AcquireSRWLockShared ops s = Some s' \<longrightarrow> \<not> snd (view s) \<and> view s' = (Suc (fst (view s)), False)) \<and>
     (\<forall>s. view s = (0, True) \<longrightarrow> (\<exists>s'. ReleaseSRWLockExclusive ops s = Some s' \<and> view s' = (0, False))) \<and>
     (\<forall>s n. view s = (Suc n, False) \<longrightarrow> (\<exists>s'. ReleaseSRWLockShared ops s = Some s' \<and> view s' = (n, False)))"

lemma srw_release:
  assumes "srw_documented ops view" "if w then view s = (0, True) else view s = (Suc n, False)"
  shows "\<exists>s'. (if w then ReleaseSRWLockExclusive ops s else ReleaseSRWLockShared ops s) = Some s'
    \<and> view s' = (if w then (0, False) else (n, False))"
  using assms unfolding srw_documented_def by (cases w) auto

lemma srw_acquire:
  assumes "srw_documented ops view"
    "(if w then AcquireSRWLockExclusive ops s else AcquireSRWLockShared ops s) = Some s'"
  shows "if w then view s = (0, False) \<and> view s' = (0, True)
         else \<not> snd (view s) \<and> view s' = (Suc (fst (view s)), False)"
  using assms unfolding srw_documented_def by (cases w) auto

section \<open>State\<close>

record CRWLockAcquire =
  pLock :: bool
  dwThreadId :: nat
  bLocked :: bool
  bWrite :: bool
  bWaiting :: bool

record 's CRWLock =
  RWLock :: 's
  Instances :: "nat list"
  acqs :: "nat \<Rightarrow> CRWLockAcquire"

definition CRWLock_new :: "'s srw_ops \<Rightarrow> (nat \<Rightarrow> CRWLockAcquire) \<Rightarrow> 's CRWLock" where
  "CRWLock_new ops a = \<lparr> RWLock = InitializeSRWLock ops, Instances = [], acqs = a \<rparr>"

definition CRWLock_IsLocked :: "'s CRWLock \<Rightarrow> bool" where
  "CRWLock_IsLocked st \<longleftrightarrow> Instances st \<noteq> []"

definition CRWLock_IsWriteLocked :: "'s CRWLock \<Rightarrow> bool" where
  "CRWLock_IsWriteLocked st \<longleftrightarrow> (\<exists>i \<in> set (Instances st). bWrite (acqs st i))"

definition CRWLock_destroy :: "'s CRWLock \<Rightarrow> 's CRWLock" where
  "CRWLock_destroy st = st\<lparr> Instances := [],
     acqs := (\<lambda>i. if i \<in> set (Instances st) then (acqs st i)\<lparr> bLocked := False, pLock := False \<rparr> else acqs st i) \<rparr>"

definition upd :: "nat \<Rightarrow> (CRWLockAcquire \<Rightarrow> CRWLockAcquire) \<Rightarrow> 's CRWLock \<Rightarrow> 's CRWLock" where
  "upd i f st = st\<lparr> acqs := (acqs st)(i := f (acqs st i)) \<rparr>"

section \<open>Operations\<close>

text \<open>The other locked instances of the thread of instance \<open>i\<close>.\<close>

definition thread_others :: "'s CRWLock \<Rightarrow> nat \<Rightarrow> nat list" where
  "thread_others st i = filter (\<lambda>j. j \<noteq> i \<and> dwThreadId (acqs st j) = dwThreadId (acqs st i) \<and> bLocked (acqs st j))
     (Instances st)"

text \<open>\<open>None\<close>: the SRWLOCK is released in a mode it is not held in. The release of the SRWLOCK and the
  reset of \<open>bLocked\<close> behind it are one step: the flag of an instance is looked at only by instances of the
  same thread, which is inside this call between the two. So an instance counts as locked here up
  to the release, and the flag of the code for one assignment longer.\<close>

definition Acquire_Unlock :: "'s srw_ops \<Rightarrow> nat \<Rightarrow> 's CRWLock \<Rightarrow> 's CRWLock option" where
  "Acquire_Unlock ops i st =
     (if \<not> pLock (acqs st i) then Some st
      else if bLocked (acqs st i) then
        if length (thread_others st i) > 0 then Some (upd i (bLocked_update (\<lambda>_. False)) st)
        else case (if bWrite (acqs st i) then ReleaseSRWLockExclusive ops (RWLock st)
                   else ReleaseSRWLockShared ops (RWLock st)) of
               None \<Rightarrow> None
             | Some s \<Rightarrow> Some (upd i (bLocked_update (\<lambda>_. False)) (st\<lparr> RWLock := s \<rparr>))
      else Some st)"

text \<open>Lock up to the point where it has the lock already or must wait for the SRWLOCK.\<close>

definition Lock_begin :: "'s srw_ops \<Rightarrow> nat \<Rightarrow> bool \<Rightarrow> 's CRWLock \<Rightarrow> 's CRWLock option" where
  "Lock_begin ops i bWriteParam st =
     (if \<not> pLock (acqs st i) then Some st
      else case Acquire_Unlock ops i st of None \<Rightarrow> None
      | Some st1 \<Rightarrow>
          let st2 = upd i (\<lambda>a. a\<lparr> bWrite := bWriteParam, bWaiting := True \<rparr>) st1;
              bThreadLocked = (thread_others st2 i \<noteq> []);
              bWriteLocked = (\<exists>j \<in> set (thread_others st2 i). bWrite (acqs st2 j)) in
          if bThreadLocked \<and> \<not> (\<not> bWriteLocked \<and> bWrite (acqs st2 i))
          then Some (upd i (\<lambda>a. a\<lparr> bLocked := True, bWaiting := False \<rparr>) st2)
          else Some st2)"

text \<open>The SRWLOCK is granted; \<open>None\<close> while it blocks.\<close>

definition Lock_grant :: "'s srw_ops \<Rightarrow> nat \<Rightarrow> 's CRWLock \<Rightarrow> 's CRWLock option" where
  "Lock_grant ops i st =
     (case (if bWrite (acqs st i) then AcquireSRWLockExclusive ops (RWLock st)
            else AcquireSRWLockShared ops (RWLock st)) of
        None \<Rightarrow> None
      | Some s \<Rightarrow> Some (upd i (\<lambda>a. a\<lparr> bLocked := True, bWaiting := False \<rparr>) (st\<lparr> RWLock := s \<rparr>)))"

definition Acquire_new :: "'s srw_ops \<Rightarrow> nat \<Rightarrow> nat \<Rightarrow> bool \<Rightarrow> bool \<Rightarrow> 's CRWLock \<Rightarrow> 's CRWLock option" where
  "Acquire_new ops i tid bWriteParam bGetLock st =
     (let st1 = st\<lparr> acqs := (acqs st)(i := \<lparr> pLock = True, dwThreadId = tid, bLocked = False, bWrite = bWriteParam,
                                          bWaiting = False \<rparr>),
                    Instances := Instances st @ [i] \<rparr> in
      if bGetLock then Lock_begin ops i bWriteParam st1 else Some st1)"

definition Acquire_destroy :: "'s srw_ops \<Rightarrow> nat \<Rightarrow> 's CRWLock \<Rightarrow> 's CRWLock option" where
  "Acquire_destroy ops i st =
     (case Acquire_Unlock ops i st of None \<Rightarrow> None
      | Some st1 \<Rightarrow>
          Some (if pLock (acqs st1 i)
                then upd i (pLock_update (\<lambda>_. False)) (st1\<lparr> Instances := remove1 i (Instances st1) \<rparr>)
                else st1))"

section \<open>The simple lock\<close>

text \<open>CSimpleRWLockAcquire has no list and no recursion; the state is the SRWLOCK of its lock.\<close>

record CSimpleRWLockAcquire =
  s_pLock :: bool
  s_dwThreadId :: nat
  s_bLocked :: bool
  s_bWrite :: bool

definition Simple_Unlock ::
  "'s srw_ops \<Rightarrow> CSimpleRWLockAcquire \<Rightarrow> 's \<Rightarrow> (CSimpleRWLockAcquire \<times> 's) option" where
  "Simple_Unlock ops a s =
     (if \<not> s_pLock a then Some (a, s)
      else if s_bLocked a then
        map_option (\<lambda>s'. (a\<lparr> s_bLocked := False \<rparr>, s'))
          (if s_bWrite a then ReleaseSRWLockExclusive ops s else ReleaseSRWLockShared ops s)
      else Some (a, s))"

text \<open>The part of Lock before the wait, and the grant.\<close>

definition Simple_Lock_begin ::
  "'s srw_ops \<Rightarrow> bool \<Rightarrow> CSimpleRWLockAcquire \<Rightarrow> 's \<Rightarrow> (CSimpleRWLockAcquire \<times> 's) option" where
  "Simple_Lock_begin ops bWriteParam a s =
     (if \<not> s_pLock a then Some (a, s)
      else map_option (\<lambda>(a', s'). (a'\<lparr> s_bWrite := bWriteParam \<rparr>, s')) (Simple_Unlock ops a s))"

definition Simple_Lock_grant ::
  "'s srw_ops \<Rightarrow> CSimpleRWLockAcquire \<Rightarrow> 's \<Rightarrow> (CSimpleRWLockAcquire \<times> 's) option" where
  "Simple_Lock_grant ops a s =
     map_option (\<lambda>s'. (a\<lparr> s_bLocked := True \<rparr>, s'))
       (if s_bWrite a then AcquireSRWLockExclusive ops s else AcquireSRWLockShared ops s)"

definition Simple_new :: "nat \<Rightarrow> bool \<Rightarrow> CSimpleRWLockAcquire" where
  "Simple_new tid bWriteParam = \<lparr> s_pLock = True, s_dwThreadId = tid, s_bLocked = False, s_bWrite = bWriteParam \<rparr>"

definition Simple_destroy ::
  "'s srw_ops \<Rightarrow> CSimpleRWLockAcquire \<Rightarrow> 's \<Rightarrow> (CSimpleRWLockAcquire \<times> 's) option" where
  "Simple_destroy ops a s = map_option (\<lambda>(a', s'). (a'\<lparr> s_pLock := False \<rparr>, s')) (Simple_Unlock ops a s)"

text \<open>A scope guarded by a simple lock gives back what it took.\<close>

lemma simple_scope:
  assumes ops: "srw_documented ops view"
    and b: "Simple_Lock_begin ops w (Simple_new tid w0) s = Some (a, s0)" and g: "Simple_Lock_grant ops a s0 = Some (a1, s1)"
  shows "\<exists>a2 s2. Simple_destroy ops a1 s1 = Some (a2, s2) \<and> view s2 = view s \<and> \<not> s_bLocked a2"
proof -
  have a: "a = \<lparr> s_pLock = True, s_dwThreadId = tid, s_bLocked = False, s_bWrite = w \<rparr>" "s0 = s"
    using b by (simp_all add: Simple_Lock_begin_def Simple_new_def Simple_Unlock_def)
  have acq: "(if w then AcquireSRWLockExclusive ops s else AcquireSRWLockShared ops s) = Some s1"
    and a1: "a1 = a\<lparr> s_bLocked := True \<rparr>" using g a by (auto simp: Simple_Lock_grant_def)
  note v = srw_acquire [OF ops acq]
  have "\<exists>s2. (if w then ReleaseSRWLockExclusive ops s1 else ReleaseSRWLockShared ops s1) = Some s2 \<and> view s2 = view s"
  proof (cases w)
    case True
    then show ?thesis using v srw_release [OF ops, of True s1] by simp
  next
    case False
    then have "view s1 = (Suc (fst (view s)), False)" "view s = (fst (view s), False)" using v by (auto simp: prod_eq_iff)
    then show ?thesis using False srw_release [OF ops, of False s1 "fst (view s)"] by simp
  qed
  then show ?thesis unfolding a1 a(1) by (auto simp: Simple_destroy_def Simple_Unlock_def)
qed

section \<open>Runs\<close>

datatype lock_op = OpNew nat nat bool bool | OpLock nat bool | OpGrant nat | OpUnlock nat | OpDestroy nat

datatype 'a outcome = Blocked | Invalid | Done 'a

definition valid :: "'a option \<Rightarrow> 'a outcome" where
  "valid r = (case r of None \<Rightarrow> Invalid | Some x \<Rightarrow> Done x)"

fun exec :: "'s srw_ops \<Rightarrow> lock_op \<Rightarrow> 's CRWLock \<Rightarrow> 's CRWLock outcome" where
  "exec ops (OpNew i tid w g) st = valid (Acquire_new ops i tid w g st)"
| "exec ops (OpLock i w) st = valid (Lock_begin ops i w st)"
| "exec ops (OpGrant i) st = (case Lock_grant ops i st of None \<Rightarrow> Blocked | Some st' \<Rightarrow> Done st')"
| "exec ops (OpUnlock i) st = valid (Acquire_Unlock ops i st)"
| "exec ops (OpDestroy i) st = valid (Acquire_destroy ops i st)"

text \<open>How the SDK uses the lock. A thread that waits does nothing else; an instance is constructed
  once; a thread that only reads does not ask to write; and a writing instance is not unlocked
  while only reading ones of its thread stay locked (stack frames unlock the inner ones first).\<close>

definition quiet :: "'s CRWLock \<Rightarrow> nat \<Rightarrow> bool" where
  "quiet st t \<longleftrightarrow> (\<forall>j \<in> set (Instances st). dwThreadId (acqs st j) = t \<longrightarrow> \<not> bWaiting (acqs st j))"

definition keeps_writer :: "'s CRWLock \<Rightarrow> nat \<Rightarrow> bool" where
  "keeps_writer st i \<longleftrightarrow> bLocked (acqs st i) \<and> bWrite (acqs st i) \<and> thread_others st i \<noteq> []
     \<longrightarrow> (\<exists>j \<in> set (thread_others st i). bWrite (acqs st j))"

definition may_lock :: "'s CRWLock \<Rightarrow> nat \<Rightarrow> bool \<Rightarrow> bool" where
  "may_lock st i w \<longleftrightarrow> w \<and> thread_others st i \<noteq> [] \<longrightarrow> (\<exists>j \<in> set (thread_others st i). bWrite (acqs st j))"

fun disciplined :: "'s CRWLock \<Rightarrow> lock_op \<Rightarrow> bool" where
  "disciplined st (OpNew i tid w g) \<longleftrightarrow> i \<notin> set (Instances st) \<and> quiet st tid \<and>
     (g \<longrightarrow> may_lock (st\<lparr> acqs := (acqs st)(i := (acqs st i)\<lparr> dwThreadId := tid \<rparr>) \<rparr>) i w)"
| "disciplined st (OpLock i w) \<longleftrightarrow> i \<in> set (Instances st) \<and> quiet st (dwThreadId (acqs st i))
     \<and> keeps_writer st i \<and> may_lock st i w"
| "disciplined st (OpGrant i) \<longleftrightarrow> i \<in> set (Instances st) \<and> bWaiting (acqs st i)"
| "disciplined st (OpUnlock i) \<longleftrightarrow> i \<in> set (Instances st) \<and> quiet st (dwThreadId (acqs st i)) \<and> keeps_writer st i"
| "disciplined st (OpDestroy i) \<longleftrightarrow> i \<in> set (Instances st) \<and> quiet st (dwThreadId (acqs st i)) \<and> keeps_writer st i"

inductive lock_reach :: "'s srw_ops \<Rightarrow> 's CRWLock \<Rightarrow> bool" for ops where
  reach_new: "lock_reach ops (CRWLock_new ops a)"
| reach_step: "lock_reach ops st \<Longrightarrow> disciplined st p \<Longrightarrow> exec ops p st = Done st' \<Longrightarrow> lock_reach ops st'"

section \<open>What a thread holds\<close>

definition held_by :: "'s CRWLock \<Rightarrow> nat \<Rightarrow> nat set" where
  "held_by st t = {i \<in> set (Instances st). bLocked (acqs st i) \<and> dwThreadId (acqs st i) = t}"

definition mode :: "'s CRWLock \<Rightarrow> nat \<Rightarrow> bool option" where
  "mode st t = (if held_by st t = {} then None else Some (\<exists>i \<in> held_by st t. bWrite (acqs st i)))"

definition readers :: "(nat \<Rightarrow> bool option) \<Rightarrow> nat set" where "readers m = {t. m t = Some False}"
definition writers :: "(nat \<Rightarrow> bool option) \<Rightarrow> nat set" where "writers m = {t. m t = Some True}"

text \<open>The SRWLOCK is held as the threads' modes say.\<close>

definition agrees :: "nat \<times> bool \<Rightarrow> (nat \<Rightarrow> bool option) \<Rightarrow> bool" where
  "agrees v m \<longleftrightarrow> finite (readers m) \<and> v = (card (readers m), writers m \<noteq> {})
     \<and> (\<forall>t. m t = Some True \<longrightarrow> m = (\<lambda>_. None)(t := Some True))"

lemma upd_sets:
  "readers (m(t := x)) = (if x = Some False then insert t (readers m) else readers m - {t})"
  "writers (m(t := x)) = (if x = Some True then insert t (writers m) else writers m - {t})"
  by (auto simp: readers_def writers_def)

lemma agrees_none: "agrees v (\<lambda>_. None) \<longleftrightarrow> v = (0, False)"
  by (simp add: agrees_def readers_def writers_def)

lemma no_writers: "writers m = {} \<longleftrightarrow> (\<forall>t. m t \<noteq> Some True)"
  by (auto simp: writers_def)

lemma agrees_shared:
  "writers m = {} \<Longrightarrow> agrees v m \<longleftrightarrow> finite (readers m) \<and> v = (card (readers m), False)"
  unfolding no_writers by (auto simp: agrees_def writers_def)

lemma agrees_release:
  assumes "agrees v m" "m t = Some w"
  shows "if w then v = (0, True) \<and> agrees (0, False) (m(t := None))
         else \<exists>n. v = (Suc n, False) \<and> agrees (n, False) (m(t := None))"
proof (cases w)
  case True
  then have m: "m = (\<lambda>_. None)(t := Some True)" using assms(2) assms(1) [unfolded agrees_def] by simp
  have "readers m = {}" "writers m = {t}" by (simp_all add: m upd_sets) (simp_all add: readers_def writers_def)
  moreover have "m(t := None) = (\<lambda>_. None)" using m by (metis fun_upd_idem_iff fun_upd_upd)
  moreover have "v = (card (readers m), writers m \<noteq> {})" using assms(1) unfolding agrees_def by blast
  ultimately show ?thesis using True by (simp add: agrees_none)
next
  case False
  then have r: "t \<in> readers m" using assms(2) by (simp add: readers_def)
  have "m u \<noteq> Some True" for u
  proof
    assume "m u = Some True"
    then have m: "m = (\<lambda>_. None)(u := Some True)" using assms(1) unfolding agrees_def by blast
    have "m t = (if t = u then Some True else None)" by (subst m) simp
    then show False using assms(2) False by (simp split: if_splits)
  qed
  then have w: "writers m = {}" "writers (m(t := None)) = {}" by (simp_all add: no_writers)
  have fin: "finite (readers m)" and v: "v = (card (readers m), False)" using assms(1) agrees_shared [OF w(1)] by simp_all
  have "agrees (card (readers m - {t}), False) (m(t := None))"
    using fin agrees_shared [OF w(2)] by (simp add: upd_sets)
  moreover have "card (readers m) = Suc (card (readers m - {t}))" using r fin by (metis card.remove)
  ultimately show ?thesis using False v by simp
qed

lemma agrees_acquire:
  assumes "agrees v m" "m t = None"
  shows "v = (0, False) \<Longrightarrow> agrees (0, True) (m(t := Some True))"
    "\<not> snd v \<Longrightarrow> agrees (Suc (fst v), False) (m(t := Some False))"
proof -
  assume v: "v = (0, False)"
  then have "readers m = {}" "writers m = {}" using assms by (auto simp: agrees_def)
  then have "m u \<noteq> Some False" "m u \<noteq> Some True" for u by (auto simp: readers_def writers_def)
  then have "m u = None" for u by (metis (full_types) not_None_eq)
  then have "m = (\<lambda>_. None)" by (rule ext)
  then show "agrees (0, True) (m(t := Some True))"
    by (simp add: agrees_def upd_sets) (simp add: readers_def writers_def)
next
  assume "\<not> snd v"
  then have w: "writers m = {}" "writers (m(t := Some False)) = {}" "t \<notin> readers m"
    using assms by (auto simp: agrees_def readers_def no_writers)
  then show "agrees (Suc (fst v), False) (m(t := Some False))"
    using assms(1) agrees_shared [OF w(1)] agrees_shared [OF w(2)] by (simp add: upd_sets)
qed

section \<open>The invariant\<close>

definition alone_waiting :: "'s CRWLock \<Rightarrow> nat \<Rightarrow> bool" where
  "alone_waiting st i \<longleftrightarrow> (\<forall>j \<in> set (Instances st). j \<noteq> i \<longrightarrow> dwThreadId (acqs st j) = dwThreadId (acqs st i) \<longrightarrow> \<not> bWaiting (acqs st j))"

definition lock_inv :: "('s \<Rightarrow> nat \<times> bool) \<Rightarrow> 's CRWLock \<Rightarrow> bool" where
  "lock_inv view st \<longleftrightarrow> distinct (Instances st) \<and> (\<forall>i \<in> set (Instances st). pLock (acqs st i))
     \<and> (\<forall>i \<in> set (Instances st). bWaiting (acqs st i) \<longrightarrow> mode st (dwThreadId (acqs st i)) = None \<and> alone_waiting st i)
     \<and> agrees (view (RWLock st)) (mode st)"

lemma others_held:
  "set (thread_others st i) = held_by st (dwThreadId (acqs st i)) - {i}"
  by (auto simp: thread_others_def held_by_def)

lemma upd_simps [simp]:
  "Instances (upd i f st) = Instances st" "RWLock (upd i f st) = RWLock st"
  "acqs (upd i f st) j = (if j = i then f (acqs st i) else acqs st j)"
  by (simp_all add: upd_def)

text \<open>A change of one instance of thread \<open>t\<close> leaves what other threads hold.\<close>

lemma mode_other:
  assumes "\<And>j. j \<noteq> i \<Longrightarrow> acqs st' j = acqs st j" "dwThreadId (acqs st' i) = dwThreadId (acqs st i)"
    "set (Instances st') - {i} = set (Instances st) - {i}" "t \<noteq> dwThreadId (acqs st i)"
  shows "mode st' t = mode st t"
proof -
  have "j \<in> held_by st' t \<longleftrightarrow> j \<in> held_by st t" for j
  proof (cases "j = i")
    case False
    then have "j \<in> set (Instances st') \<longleftrightarrow> j \<in> set (Instances st)" using assms(3) by blast
    then show ?thesis using False assms(1) by (simp add: held_by_def)
  qed (use assms(2,4) in \<open>simp add: held_by_def\<close>)
  then have h: "held_by st' t = held_by st t" by blast
  have "j \<noteq> i" if "j \<in> held_by st t" for j using that assms(4) by (auto simp: held_by_def)
  then have "(\<exists>j \<in> held_by st t. bWrite (acqs st' j)) = (\<exists>j \<in> held_by st t. bWrite (acqs st j))"
    using assms(1) by (intro bex_cong) auto
  then show ?thesis unfolding mode_def h by simp
qed

lemma mode_upd:
  assumes "\<And>j. j \<noteq> i \<Longrightarrow> acqs st' j = acqs st j" "dwThreadId (acqs st' i) = dwThreadId (acqs st i)"
    "set (Instances st') - {i} = set (Instances st) - {i}" "mode st' (dwThreadId (acqs st i)) = m"
  shows "mode st' = (mode st)(dwThreadId (acqs st i) := m)"
  using mode_other [OF assms(1-3)] assms(4) by (auto simp: fun_eq_iff)

text \<open>What the thread of an instance holds, by that instance and the others.\<close>

lemma mode_split:
  assumes "i \<in> set (Instances st)"
  shows "mode st (dwThreadId (acqs st i)) =
    (if bLocked (acqs st i) then Some (bWrite (acqs st i) \<or> (\<exists>j \<in> set (thread_others st i). bWrite (acqs st j)))
     else if thread_others st i = [] then None else Some (\<exists>j \<in> set (thread_others st i). bWrite (acqs st j)))"
proof -
  let ?t = "dwThreadId (acqs st i)"
  have "held_by st ?t = (if bLocked (acqs st i) then insert i (set (thread_others st i)) else set (thread_others st i))"
    using assms unfolding others_held by (auto simp: held_by_def)
  then show ?thesis unfolding mode_def by simp
qed

lemma thread_others_upd [simp]:
  assumes "\<And>a. dwThreadId (f a) = dwThreadId a"
  shows "thread_others (upd i f st) i = thread_others st i"
  unfolding thread_others_def using assms by (auto intro: filter_cong)

lemma thread_others_RWLock [simp]: "thread_others (st\<lparr> RWLock := s \<rparr>) i = thread_others st i"
  by (simp add: thread_others_def)

text \<open>One instance changes, the SRWLOCK follows: the invariant is kept when the new view agrees.\<close>

lemma inv_change:
  assumes inv: "lock_inv view st" and i: "i \<in> set (Instances st)" and q: "alone_waiting st i"
    and f: "\<And>a. dwThreadId (f a) = dwThreadId a" "pLock (f (acqs st i))"
    and m: "mode (upd i f (st\<lparr> RWLock := s \<rparr>)) (dwThreadId (acqs st i)) = m"
    and ag: "agrees (view s) ((mode st)(dwThreadId (acqs st i) := m))"
    and w: "bWaiting (f (acqs st i)) \<Longrightarrow> m = None"
  shows "lock_inv view (upd i f (st\<lparr> RWLock := s \<rparr>))"
proof -
  let ?st' = "upd i f (st\<lparr> RWLock := s \<rparr>)" and ?t = "dwThreadId (acqs st i)"
  have md: "mode ?st' = (mode st)(?t := m)" by (rule mode_upd) (use f m in auto)
  have "mode ?st' (dwThreadId (acqs ?st' j)) = None \<and> alone_waiting ?st' j"
    if j: "j \<in> set (Instances st)" "bWaiting (acqs ?st' j)" for j
  proof (cases "j = i")
    case False
    have "dwThreadId (acqs st j) \<noteq> ?t" using q j False unfolding alone_waiting_def by auto
    then show ?thesis using inv j False f(1) unfolding md lock_inv_def alone_waiting_def by simp
  next
    case True
    then have "alone_waiting ?st' j" using q f(1) unfolding alone_waiting_def by simp
    then show ?thesis using md w j True f by simp
  qed
  then show ?thesis using inv f ag unfolding lock_inv_def md by auto
qed

lemma quiet_alone: "quiet st (dwThreadId (acqs st i)) \<Longrightarrow> alone_waiting st i"
  unfolding quiet_def alone_waiting_def by blast

lemma Acquire_Unlock_ok:
  assumes ops: "srw_documented ops view" and inv: "lock_inv view st" and i: "i \<in> set (Instances st)"
    and q: "quiet st (dwThreadId (acqs st i))" and k: "keeps_writer st i"
  shows "\<exists>s. Acquire_Unlock ops i st = Some (upd i (bLocked_update (\<lambda>_. False)) (st\<lparr> RWLock := s \<rparr>))
    \<and> lock_inv view (upd i (bLocked_update (\<lambda>_. False)) (st\<lparr> RWLock := s \<rparr>))"
proof -
  let ?f = "bLocked_update (\<lambda>_. False)" and ?t = "dwThreadId (acqs st i)"
  have p: "pLock (acqs st i)" using inv i by (simp add: lock_inv_def)
  have m: "mode (upd i ?f (st\<lparr> RWLock := s \<rparr>)) ?t =
      (if thread_others st i = [] then None else Some (\<exists>j \<in> set (thread_others st i). bWrite (acqs st j)))" for s
  proof -
    have "j \<noteq> i" if "j \<in> set (thread_others st i)" for j using that by (simp add: thread_others_def)
    then have "(\<exists>j \<in> set (thread_others st i). bWrite (acqs (upd i ?f (st\<lparr> RWLock := s \<rparr>)) j))
        = (\<exists>j \<in> set (thread_others st i). bWrite (acqs st j))" by auto
    then show ?thesis using mode_split [of i "upd i ?f (st\<lparr> RWLock := s \<rparr>)"] i by simp
  qed
  have ag: "agrees (view (RWLock st)) (mode st)" using inv by (simp add: lock_inv_def)
  note ch = inv_change [OF inv i quiet_alone [OF q], of ?f, OF _ _ m]
  show ?thesis
  proof (cases "bLocked (acqs st i) \<and> thread_others st i = []")
    case True
    then have "mode st ?t = Some (bWrite (acqs st i))" using mode_split [OF i] by simp
    note rel = agrees_release [OF ag this]
    have "\<exists>s. (if bWrite (acqs st i) then ReleaseSRWLockExclusive ops (RWLock st)
        else ReleaseSRWLockShared ops (RWLock st)) = Some s \<and> agrees (view s) ((mode st)(?t := None))"
    proof (cases "bWrite (acqs st i)")
      case True
      then show ?thesis using rel srw_release [OF ops, of True "RWLock st"] by force
    next
      case False
      then obtain n where "view (RWLock st) = (Suc n, False)" "agrees (n, False) ((mode st)(?t := None))" using rel by auto
      then show ?thesis using False srw_release [OF ops, of False "RWLock st" n] by force
    qed
    then obtain s where s: "(if bWrite (acqs st i) then ReleaseSRWLockExclusive ops (RWLock st)
        else ReleaseSRWLockShared ops (RWLock st)) = Some s" "agrees (view s) ((mode st)(?t := None))" by blast
    then show ?thesis using True p ch [of s] q i by (auto simp: Acquire_Unlock_def quiet_def)
  next
    case False
    then have same: "(if thread_others st i = [] then None else Some (\<exists>j \<in> set (thread_others st i). bWrite (acqs st j)))
        = mode st ?t"
      using mode_split [OF i] k by (auto simp: keeps_writer_def)
    have r: "st\<lparr> RWLock := RWLock st \<rparr> = st" by simp
    have "upd i ?f st = st" if "\<not> bLocked (acqs st i)"
      using that by (cases "acqs st i") (simp add: upd_def fun_upd_idem)
    then have u: "Acquire_Unlock ops i st = Some (upd i ?f (st\<lparr> RWLock := RWLock st \<rparr>))" using False p unfolding r by (auto simp: Acquire_Unlock_def)
    have "lock_inv view (upd i ?f (st\<lparr> RWLock := RWLock st \<rparr>))"
      by (rule ch) (use p ag q i same in \<open>auto simp: quiet_def\<close>)
    then show ?thesis using u by blast
  qed
qed

lemma Lock_begin_ok:
  assumes ops: "srw_documented ops view" and inv: "lock_inv view st" and i: "i \<in> set (Instances st)"
    and q: "quiet st (dwThreadId (acqs st i))" and k: "keeps_writer st i" and ml: "may_lock st i w"
  shows "\<exists>st'. Lock_begin ops i w st = Some st' \<and> lock_inv view st'"
proof -
  have p: "pLock (acqs st i)" using inv i by (simp add: lock_inv_def)
  obtain s where u: "Acquire_Unlock ops i st = Some (upd i (bLocked_update (\<lambda>_. False)) (st\<lparr> RWLock := s \<rparr>))"
    "lock_inv view (upd i (bLocked_update (\<lambda>_. False)) (st\<lparr> RWLock := s \<rparr>))"
    using Acquire_Unlock_ok [OF ops inv i q k] by blast
  define st1 where "st1 = upd i (bLocked_update (\<lambda>_. False)) (st\<lparr> RWLock := s \<rparr>)"
  define f where "f = (\<lambda>a :: CRWLockAcquire. a\<lparr> bWrite := w, bWaiting := True \<rparr>)"
  define g where "g = (\<lambda>a :: CRWLockAcquire. a\<lparr> bWrite := w, bLocked := True, bWaiting := False \<rparr>)"
  let ?o = "thread_others st i" and ?t = "dwThreadId (acqs st i)"
  have ne: "j \<noteq> i" if "j \<in> set ?o" for j using that by (simp add: thread_others_def)
  have 1: "lock_inv view st1" "i \<in> set (Instances st1)" "\<not> bLocked (acqs st1 i)" "thread_others st1 i = ?o"
    "dwThreadId (acqs st1 i) = ?t" "pLock (acqs st1 i)" "st1\<lparr> RWLock := RWLock st1 \<rparr> = st1"
    using u(2) i p by (simp_all add: st1_def)
  have al: "alone_waiting st1 i" using quiet_alone [OF q] by (simp add: alone_waiting_def st1_def)
  have wr: "(\<exists>j \<in> set ?o. bWrite (acqs (upd i h st1) j)) = (\<exists>j \<in> set ?o. bWrite (acqs st j))" for h
    using ne by (auto simp: st1_def)
  have wr1: "(\<exists>j \<in> set ?o. bWrite (acqs st1 j)) = (\<exists>j \<in> set ?o. bWrite (acqs st j))"
    using ne by (auto simp: st1_def)
  have m1: "mode st1 ?t = (if ?o = [] then None else Some (\<exists>j \<in> set ?o. bWrite (acqs st j)))"
    using mode_split [OF 1(2)] 1 wr1 by simp
  have ag: "agrees (view (RWLock st1)) ((mode st1)(?t := mode st1 ?t))" using 1(1) by (simp add: lock_inv_def)
  have gf: "upd i (\<lambda>a. a\<lparr> bLocked := True, bWaiting := False \<rparr>) (upd i f st1) = upd i g st1"
    by (simp add: upd_def f_def g_def)
  have o2: "thread_others (upd i f st1) i = ?o" using 1(4) by (simp add: f_def)
  have w2: "bWrite (acqs (upd i f st1) i) = w" by (simp add: f_def)
  have lb: "Lock_begin ops i w st = (if ?o \<noteq> [] \<and> \<not> (\<not> (\<exists>j \<in> set ?o. bWrite (acqs st j)) \<and> w)
      then Some (upd i g st1) else Some (upd i f st1))"
    unfolding gf [symmetric] Lock_begin_def u(1) st1_def [symmetric] f_def [symmetric] Let_def option.case o2 w2 wr
    using p by (simp only: not_True_eq_False if_False)
  show ?thesis
  proof (cases "?o = []")
    case True
    have "mode (upd i f (st1\<lparr> RWLock := RWLock st1 \<rparr>)) ?t = None"
      using mode_split [of i "upd i f st1"] 1 True by (simp add: f_def)
    then have "lock_inv view (upd i f (st1\<lparr> RWLock := RWLock st1 \<rparr>))"
      by (intro inv_change [OF 1(1,2) al _ _ refl]) (use 1 ag m1 True in \<open>simp_all add: f_def\<close>)
    then show ?thesis using lb True by simp
  next
    case False
    then have wle: "w \<longrightarrow> (\<exists>j \<in> set ?o. bWrite (acqs st j))" using ml by (auto simp: may_lock_def)
    have "mode (upd i g (st1\<lparr> RWLock := RWLock st1 \<rparr>)) ?t = mode st1 ?t"
      using mode_split [of i "upd i g st1"] 1 False wle wr [of g] m1 by (auto simp: g_def)
    then have "lock_inv view (upd i g (st1\<lparr> RWLock := RWLock st1 \<rparr>))"
      by (intro inv_change [OF 1(1,2) al _ _ refl]) (use 1 ag in \<open>simp_all add: g_def\<close>)
    then show ?thesis using lb False wle by auto
  qed
qed

lemma Lock_grant_ok:
  assumes ops: "srw_documented ops view" and inv: "lock_inv view st" and i: "i \<in> set (Instances st)"
    and w: "bWaiting (acqs st i)" and g: "Lock_grant ops i st = Some st'"
  shows "lock_inv view st'"
proof -
  let ?t = "dwThreadId (acqs st i)" and ?f = "\<lambda>a :: CRWLockAcquire. a\<lparr> bLocked := True, bWaiting := False \<rparr>"
  obtain s where s: "(if bWrite (acqs st i) then AcquireSRWLockExclusive ops (RWLock st)
      else AcquireSRWLockShared ops (RWLock st)) = Some s" "st' = upd i ?f (st\<lparr> RWLock := s \<rparr>)"
    using g by (auto simp: Lock_grant_def split: option.splits)
  have wt: "mode st ?t = None" "alone_waiting st i" "pLock (acqs st i)" "agrees (view (RWLock st)) (mode st)"
    using inv i w by (simp_all add: lock_inv_def)
  have o: "thread_others st i = []" using mode_split [OF i] wt(1) by (auto split: if_splits)
  have m: "mode (upd i ?f (st\<lparr> RWLock := s \<rparr>)) ?t = Some (bWrite (acqs st i))"
    using mode_split [of i "upd i ?f (st\<lparr> RWLock := s \<rparr>)"] i o by simp
  have "agrees (view s) ((mode st)(?t := Some (bWrite (acqs st i))))"
    using srw_acquire [OF ops s(1)] agrees_acquire [OF wt(4,1)] by (cases "bWrite (acqs st i)") auto
  then show ?thesis using inv_change [OF inv i wt(2), of ?f, OF _ _ m] wt(3) s(2) by simp
qed

lemma held_by_same:
  assumes "\<And>j. j \<noteq> i \<Longrightarrow> acqs st' j = acqs st j" "set (Instances st') - {i} = set (Instances st) - {i}"
    "i \<in> set (Instances st) \<Longrightarrow> \<not> bLocked (acqs st i)" "i \<in> set (Instances st') \<Longrightarrow> \<not> bLocked (acqs st' i)"
  shows "mode st' = mode st"
proof
  fix t
  have "j \<in> held_by st' t \<longleftrightarrow> j \<in> held_by st t \<and> j \<noteq> i" for j
  proof (cases "j = i")
    case False
    then have "j \<in> set (Instances st') \<longleftrightarrow> j \<in> set (Instances st)" using assms(2) by blast
    then show ?thesis using False assms(1) by (simp add: held_by_def)
  qed (use assms(3,4) in \<open>auto simp: held_by_def\<close>)
  moreover have ni: "i \<notin> held_by st t" using assms(3) by (auto simp: held_by_def)
  ultimately have h: "held_by st' t = held_by st t" by blast
  have "acqs st' j = acqs st j" if "j \<in> held_by st t" for j using assms(1) [of j] ni that by (cases "j = i") simp_all
  then have "(\<exists>j \<in> held_by st t. bWrite (acqs st' j)) = (\<exists>j \<in> held_by st t. bWrite (acqs st j))" by simp
  then show "mode st' t = mode st t" unfolding mode_def h by simp
qed

lemma Acquire_new_ok:
  assumes ops: "srw_documented ops view" and inv: "lock_inv view st" and d: "disciplined st (OpNew i tid w g)"
  shows "\<exists>st'. Acquire_new ops i tid w g st = Some st' \<and> lock_inv view st'"
proof -
  define st1 where "st1 = st\<lparr> acqs := (acqs st)(i := \<lparr> pLock = True, dwThreadId = tid, bLocked = False, bWrite = w,
    bWaiting = False \<rparr>), Instances := Instances st @ [i] \<rparr>"
  have i: "i \<notin> set (Instances st)" and q: "quiet st tid" using d by simp_all
  have m: "mode st1 = mode st" by (rule held_by_same [where i = i]) (use i in \<open>auto simp: st1_def\<close>)
  have a: "acqs st1 j = acqs st j" "j \<in> set (Instances st)" if "j \<in> set (Instances st1)" "bWaiting (acqs st1 j)" for j
    using that by (auto simp: st1_def split: if_splits)
  have aw: "alone_waiting st1 j" if j: "alone_waiting st j" "acqs st1 j = acqs st j" for j
    unfolding alone_waiting_def
  proof (intro ballI impI notI)
    fix k assume k: "k \<in> set (Instances st1)" "k \<noteq> j" "dwThreadId (acqs st1 k) = dwThreadId (acqs st1 j)" "bWaiting (acqs st1 k)"
    show False using j(1) k a [OF k(1,4)] j(2) unfolding alone_waiting_def by metis
  qed
  have "\<forall>j \<in> set (Instances st1). bWaiting (acqs st1 j) \<longrightarrow> mode st (dwThreadId (acqs st1 j)) = None \<and> alone_waiting st1 j"
  proof (intro ballI impI)
    fix j assume j: "j \<in> set (Instances st1)" "bWaiting (acqs st1 j)"
    have "mode st (dwThreadId (acqs st j)) = None \<and> alone_waiting st j"
      using inv a [OF j] j(2) unfolding lock_inv_def by simp
    then show "mode st (dwThreadId (acqs st1 j)) = None \<and> alone_waiting st1 j" using a [OF j] aw [of j] by simp
  qed
  moreover have "distinct (Instances st1)" "RWLock st1 = RWLock st" using inv i by (simp_all add: lock_inv_def st1_def)
  moreover have "pLock (acqs st1 j)" if "j \<in> set (Instances st1)" for j
    using inv that by (auto simp: lock_inv_def st1_def)
  moreover have "agrees (view (RWLock st)) (mode st)" using inv by (simp add: lock_inv_def)
  ultimately have "lock_inv view st1" unfolding lock_inv_def m by simp
  moreover have "quiet st1 (dwThreadId (acqs st1 i))" using q i by (auto simp: quiet_def st1_def)
  moreover have "keeps_writer st1 i" by (simp add: keeps_writer_def st1_def)
  moreover have "may_lock st1 i w" if g
  proof -
    have "thread_others st1 i = thread_others (st\<lparr> acqs := (acqs st)(i := (acqs st i)\<lparr> dwThreadId := tid \<rparr>) \<rparr>) i"
      using i by (auto simp: thread_others_def st1_def intro: filter_cong)
    moreover have "j \<noteq> i" if "j \<in> set (thread_others st1 i)" for j using that by (simp add: thread_others_def)
    ultimately show ?thesis using d that by (auto simp: may_lock_def st1_def)
  qed
  ultimately show ?thesis using Lock_begin_ok [OF ops, of st1 i w] by (auto simp: Acquire_new_def Let_def st1_def)
qed

lemma Acquire_destroy_ok:
  assumes ops: "srw_documented ops view" and inv: "lock_inv view st" and d: "disciplined st (OpDestroy i)"
  shows "\<exists>st'. Acquire_destroy ops i st = Some st' \<and> lock_inv view st'"
proof -
  have i: "i \<in> set (Instances st)" using d by simp
  obtain s where u: "Acquire_Unlock ops i st = Some (upd i (bLocked_update (\<lambda>_. False)) (st\<lparr> RWLock := s \<rparr>))"
    "lock_inv view (upd i (bLocked_update (\<lambda>_. False)) (st\<lparr> RWLock := s \<rparr>))"
    using Acquire_Unlock_ok [OF ops inv i] d by auto
  define st1 where "st1 = upd i (bLocked_update (\<lambda>_. False)) (st\<lparr> RWLock := s \<rparr>)"
  define st2 where "st2 = upd i (pLock_update (\<lambda>_. False)) (st1\<lparr> Instances := remove1 i (Instances st1) \<rparr>)"
  have inv1: "lock_inv view st1" using u(2) by (simp add: st1_def)
  have dist: "set (remove1 i (Instances st1)) = set (Instances st1) - {i}" using inv1 by (simp add: lock_inv_def)
  have m: "mode st2 = mode st1" by (rule held_by_same [where i = i]) (use dist in \<open>auto simp: st2_def st1_def\<close>)
  have r: "acqs st2 j = acqs st1 j" if "j \<noteq> i" for j using that by (simp add: st2_def)
  have "pLock (acqs st1 i)" using inv i by (simp add: lock_inv_def st1_def)
  moreover have "lock_inv view st2"
    using inv1 dist r unfolding lock_inv_def m alone_waiting_def by (auto simp: st2_def)
  ultimately show ?thesis using u(1) by (simp add: Acquire_destroy_def st1_def [symmetric] st2_def)
qed

lemma valid_ok: "\<exists>st'. r = Some st' \<and> P st' \<Longrightarrow> valid r \<noteq> Invalid \<and> (valid r = Done x \<longrightarrow> P x)"
  by (auto simp: valid_def)

text \<open>A disciplined step of a lock in the invariant does not go wrong and keeps it.\<close>

lemma step_ok:
  assumes ops: "srw_documented ops view" and inv: "lock_inv view st" and d: "disciplined st p"
  shows "exec ops p st \<noteq> Invalid \<and> (exec ops p st = Done st' \<longrightarrow> lock_inv view st')"
proof (cases p)
  case (OpNew i tid w g)
  show ?thesis using valid_ok [OF Acquire_new_ok [OF ops inv d [unfolded OpNew]]] unfolding OpNew exec.simps .
next
  case (OpLock i w)
  have "\<exists>st'. Lock_begin ops i w st = Some st' \<and> lock_inv view st'"
    using Lock_begin_ok [OF ops inv, of i w] d unfolding OpLock by simp
  from valid_ok [OF this] show ?thesis unfolding OpLock exec.simps .
next
  case (OpGrant i)
  show ?thesis
  proof (cases "Lock_grant ops i st")
    case (Some st1)
    then show ?thesis using Lock_grant_ok [OF ops inv _ _ Some] d unfolding OpGrant by auto
  qed (use OpGrant in simp)
next
  case (OpUnlock i)
  have "\<exists>st'. Acquire_Unlock ops i st = Some st' \<and> lock_inv view st'"
    using Acquire_Unlock_ok [OF ops inv, of i] d unfolding OpUnlock by fastforce
  from valid_ok [OF this] show ?thesis unfolding OpUnlock exec.simps .
next
  case (OpDestroy i)
  show ?thesis using valid_ok [OF Acquire_destroy_ok [OF ops inv d [unfolded OpDestroy]]] unfolding OpDestroy exec.simps .
qed

lemma new_inv: "srw_documented ops view \<Longrightarrow> lock_inv view (CRWLock_new ops a)"
proof -
  assume "srw_documented ops view"
  moreover have "mode (CRWLock_new ops a) = (\<lambda>_. None)" by (simp add: fun_eq_iff mode_def held_by_def CRWLock_new_def)
  ultimately show ?thesis by (simp add: lock_inv_def agrees_none srw_documented_def) (simp add: CRWLock_new_def)
qed

lemma reach_inv: "lock_reach ops st \<Longrightarrow> srw_documented ops view \<Longrightarrow> lock_inv view st"
  by (induction rule: lock_reach.induct) (use new_inv step_ok in blast)+

lemma mode_writer:
  "i \<in> held_by st t \<Longrightarrow> bWrite (acqs st i) \<Longrightarrow> mode st t = Some True"
  by (auto simp: mode_def)

lemma reach_exclusive:
  assumes ops: "srw_documented ops view" and r: "lock_reach ops st"
    and i: "i \<in> held_by st t" "bWrite (acqs st i)"
  shows "view (RWLock st) = (0, True) \<and> (\<forall>j u. j \<in> held_by st u \<longrightarrow> u = t)"
proof -
  have ag: "agrees (view (RWLock st)) (mode st)" using reach_inv [OF r ops] by (simp add: lock_inv_def)
  have mt: "mode st t = Some True" using mode_writer [OF i] .
  have v: "view (RWLock st) = (0, True)" using agrees_release [OF ag mt] by simp
  have m: "mode st = (\<lambda>_. None)(t := Some True)" using ag mt by (simp add: agrees_def)
  have "u = t" if "j \<in> held_by st u" for j u
  proof -
    have "mode st u \<noteq> None" using that by (auto simp: mode_def)
    then show ?thesis unfolding m by (simp split: if_splits)
  qed
  then show ?thesis using v by blast
qed

section \<open>An SRWLOCK and two runs\<close>

definition count_srw :: "(nat \<times> bool) srw_ops" where
  "count_srw = \<lparr> InitializeSRWLock = (0, False),
     AcquireSRWLockExclusive = (\<lambda>s. if s = (0, False) then Some (0, True) else None),
     AcquireSRWLockShared = (\<lambda>s. if snd s then None else Some (Suc (fst s), False)),
     ReleaseSRWLockExclusive = (\<lambda>s. if s = (0, True) then Some (0, False) else None),
     ReleaseSRWLockShared = (\<lambda>s. if fst s > 0 \<and> \<not> snd s then Some (fst s - 1, False) else None) \<rparr>"

lemma count_srw_documented: "srw_documented count_srw (\<lambda>s. s)"
  by (auto simp: srw_documented_def count_srw_def)

definition no_acq :: CRWLockAcquire where
  "no_acq = \<lparr> pLock = False, dwThreadId = 0, bLocked = False, bWrite = False, bWaiting = False \<rparr>"

text \<open>Thread 1 writes (instance 0) and reads again in an inner frame (instance 1).\<close>

definition outer_st :: "(nat \<times> bool) CRWLock" where
  "outer_st = \<lparr> RWLock = (0, True), Instances = [0],
     acqs = (\<lambda>_. no_acq)(0 := \<lparr> pLock = True, dwThreadId = 1, bLocked = True, bWrite = True, bWaiting = False \<rparr>) \<rparr>"

definition nested_st :: "(nat \<times> bool) CRWLock" where
  "nested_st = outer_st\<lparr> Instances := [0, 1],
     acqs := (acqs outer_st)(1 := \<lparr> pLock = True, dwThreadId = 1, bLocked = True, bWrite = False, bWaiting = False \<rparr>) \<rparr>"

definition waiting_st :: "(nat \<times> bool) CRWLock" where
  "waiting_st = \<lparr> RWLock = (0, False), Instances = [0],
     acqs = (\<lambda>_. no_acq)(0 := \<lparr> pLock = True, dwThreadId = 1, bLocked = False, bWrite = True, bWaiting = True \<rparr>) \<rparr>"

lemmas lock_eval = valid_def Acquire_new_def Lock_begin_def Lock_grant_def Acquire_Unlock_def upd_def thread_others_def Let_def
  count_srw_def no_acq_def outer_st_def nested_st_def waiting_st_def CRWLock_new_def

lemma run_new: "exec count_srw (OpNew 0 1 True True) (CRWLock_new count_srw (\<lambda>_. no_acq)) = Done waiting_st"
  by (simp add: lock_eval fun_eq_iff)

lemma run_grant: "exec count_srw (OpGrant 0) waiting_st = Done outer_st"
  by (simp add: lock_eval fun_eq_iff)

lemma run_nested: "exec count_srw (OpNew 1 1 False True) outer_st = Done nested_st"
  by (simp add: lock_eval fun_eq_iff)

lemma nested_reach: "lock_reach count_srw nested_st"
proof -
  have 1: "lock_reach count_srw waiting_st"
    by (rule reach_step [OF reach_new _ run_new]) (simp add: lock_eval quiet_def may_lock_def)
  have 2: "lock_reach count_srw outer_st"
    by (rule reach_step [OF 1 _ run_grant]) (simp add: lock_eval)
  show ?thesis
    by (rule reach_step [OF 2 _ run_nested]) (simp add: lock_eval quiet_def may_lock_def)
qed

text \<open>Unlocked in the other order, the last release is in the wrong mode.\<close>

lemma lock_mode_mismatch:
  "\<exists>st. exec count_srw (OpUnlock 0) nested_st = Done st \<and> exec count_srw (OpUnlock 1) st = Invalid"
  by (simp add: lock_eval)

section \<open>Properties\<close>

text \<open>C12: Used as the SDK uses it, a reader/writer lock never goes wrong: in every reachable
  state every allowed operation either blocks on the SRWLOCK or completes, and completing leads
  to a state that is well formed again (each thread holds the SRWLOCK in the mode its instances
  say, a waiting thread holds nothing, every registered instance refers to the lock).\<close>

theorem lock_never_goes_wrong:
  assumes "srw_documented ops view" and "lock_reach ops st" and "disciplined st p"
  shows "exec ops p st = Blocked \<or> (\<exists>st'. exec ops p st = Done st' \<and> lock_inv view st')"
  using step_ok [OF assms(1) reach_inv [OF assms(2,1)] assms(3)] by (cases "exec ops p st") auto

text \<open>C13: While an instance of some thread holds the lock for writing, the SRWLOCK is held
  exclusively and every locked instance belongs to that thread.\<close>

theorem lock_mutual_exclusion:
  assumes "srw_documented ops view" and "lock_reach ops st"
    and "i \<in> set (Instances st)" and "bLocked (acqs st i)" and "bWrite (acqs st i)"
    and "j \<in> set (Instances st)" and "bLocked (acqs st j)"
  shows "dwThreadId (acqs st j) = dwThreadId (acqs st i) \<and> view (RWLock st) = (0, True)"
proof -
  have "i \<in> held_by st (dwThreadId (acqs st i))" "j \<in> held_by st (dwThreadId (acqs st j))"
    using assms(3,4,6,7) by (simp_all add: held_by_def)
  then show ?thesis using reach_exclusive [OF assms(1,2) _ assms(5)] by blast
qed

lemma lock_never_goes_wrong_witness:
  "exec count_srw (OpUnlock 1) nested_st = Blocked
   \<or> (\<exists>st'. exec count_srw (OpUnlock 1) nested_st = Done st' \<and> lock_inv (\<lambda>s. s) st')"
  by (rule lock_never_goes_wrong [OF count_srw_documented nested_reach])
    (simp add: lock_eval quiet_def keeps_writer_def)

lemma lock_mutual_exclusion_witness:
  "dwThreadId (acqs nested_st 1) = dwThreadId (acqs nested_st 0) \<and> RWLock nested_st = (0, True)"
  by (rule lock_mutual_exclusion [OF count_srw_documented nested_reach]) (simp_all add: lock_eval)

end
