(* ===== verification/SharedQueue.thy ===== *)
theory SharedQueue
  imports Prelude
begin

text \<open>
  The shared queues with their events (CSharedQueue.h, CSharedQueue.cpp): queues and
  events refer to each other, an operation on a queue triggers the events linked to it,
  and a bounded push waits on such an event. Every operation runs under the lock of its
  queue; the order of the events of a queue does not matter. SetEvent succeeds.
\<close>

unbundle bit_operations_syntax

section \<open>Queues and events\<close>

definition TRIGGEREVENTS_PUSH :: DWORD where "TRIGGEREVENTS_PUSH = 0x01"
definition TRIGGEREVENTS_DELETE :: DWORD where "TRIGGEREVENTS_DELETE = 0x08"
definition TRIGGEREVENTS_EMPTY :: DWORD where "TRIGGEREVENTS_EMPTY = 0x10"
definition TRIGGEREVENTS_POP :: DWORD where "TRIGGEREVENTS_POP = 0x400"
definition TRIGGEREVENTS_NONE :: DWORD where "TRIGGEREVENTS_NONE = 0"
definition TRIGGEREVENTS_ALL :: DWORD where "TRIGGEREVENTS_ALL = NOT TRIGGEREVENTS_NONE"

record CSharedQueueEvent =
  evQueue :: bool
  dwCount :: DWORD
  bAllEvents :: bool
  bEnable :: bool
  EnableTriggerEventFlags :: DWORD
  QueueList :: "nat set"

record 'a CSharedQueue =
  items :: "'a list"
  EventList :: "nat set"

text \<open>The queues and events of the process, by their addresses.\<close>

record 'a sq_world =
  queues :: "nat \<Rightarrow> 'a CSharedQueue"
  events :: "nat \<Rightarrow> CSharedQueueEvent"

definition CSharedQueueEvent_new :: CSharedQueueEvent where
  "CSharedQueueEvent_new = \<lparr> evQueue = False, dwCount = 0, bAllEvents = False, bEnable = False,
     EnableTriggerEventFlags = TRIGGEREVENTS_ALL, QueueList = {} \<rparr>"

definition EnableTriggerEvents :: "DWORD \<Rightarrow> CSharedQueueEvent \<Rightarrow> CSharedQueueEvent" where
  "EnableTriggerEvents flags e = e\<lparr> EnableTriggerEventFlags := EnableTriggerEventFlags e OR flags \<rparr>"

definition DisableTriggerEvents :: "DWORD \<Rightarrow> CSharedQueueEvent \<Rightarrow> CSharedQueueEvent" where
  "DisableTriggerEvents flags e = e\<lparr> EnableTriggerEventFlags := EnableTriggerEventFlags e AND NOT flags \<rparr>"

definition EnableAllTriggerEvents :: "CSharedQueueEvent \<Rightarrow> CSharedQueueEvent" where
  "EnableAllTriggerEvents e = e\<lparr> EnableTriggerEventFlags := TRIGGEREVENTS_ALL \<rparr>"

definition DisableAllTriggerEvents :: "CSharedQueueEvent \<Rightarrow> CSharedQueueEvent" where
  "DisableAllTriggerEvents e = e\<lparr> EnableTriggerEventFlags := TRIGGEREVENTS_NONE \<rparr>"

definition SetCount :: "DWORD \<Rightarrow> CSharedQueueEvent \<Rightarrow> CSharedQueueEvent" where
  "SetCount n e = e\<lparr> dwCount := n \<rparr>"

definition SetAllEvents :: "bool \<Rightarrow> CSharedQueueEvent \<Rightarrow> CSharedQueueEvent" where
  "SetAllEvents b e = e\<lparr> bAllEvents := b \<rparr>"

definition Enable :: "bool \<Rightarrow> CSharedQueueEvent \<Rightarrow> CSharedQueueEvent" where
  "Enable b e = e\<lparr> bEnable := b \<rparr>"

definition set_event :: "nat \<Rightarrow> (CSharedQueueEvent \<Rightarrow> CSharedQueueEvent) \<Rightarrow> 'a sq_world \<Rightarrow> 'a sq_world" where
  "set_event e f w = w\<lparr> events := (events w)(e := f (events w e)) \<rparr>"

definition set_queue :: "nat \<Rightarrow> ('a CSharedQueue \<Rightarrow> 'a CSharedQueue) \<Rightarrow> 'a sq_world \<Rightarrow> 'a sq_world" where
  "set_queue q f w = w\<lparr> queues := (queues w)(q := f (queues w q)) \<rparr>"

definition triggers :: "DWORD \<Rightarrow> DWORD \<Rightarrow> CSharedQueueEvent \<Rightarrow> bool" where
  "triggers dwCurCount TriggeringEvent e \<longleftrightarrow> EnableTriggerEventFlags e AND TriggeringEvent \<noteq> 0
     \<and> bEnable e \<and> (bAllEvents e \<or> dwCurCount \<le> dwCount e)"

definition TriggerEvent :: "nat \<Rightarrow> DWORD \<Rightarrow> DWORD \<Rightarrow> 'a sq_world \<Rightarrow> 'a sq_world" where
  "TriggerEvent q dwCurCount TriggeringEvent w = w\<lparr> events := (\<lambda>e.
     if e \<in> EventList (queues w q) \<and> triggers dwCurCount TriggeringEvent (events w e)
     then (events w e)\<lparr> evQueue := True \<rparr> else events w e) \<rparr>"

section \<open>Links\<close>

definition Link :: "nat \<Rightarrow> nat \<Rightarrow> 'a sq_world \<Rightarrow> 'a sq_world" where
  "Link e q w = set_event e (\<lambda>v. v\<lparr> QueueList := insert q (QueueList v) \<rparr>)
     (set_queue q (\<lambda>v. v\<lparr> EventList := insert e (EventList v) \<rparr>) w)"

text \<open>From one queue, or from all of them.\<close>

definition Unlink :: "nat \<Rightarrow> nat option \<Rightarrow> 'a sq_world \<Rightarrow> 'a sq_world" where
  "Unlink e pQueue w = (case pQueue of
     None \<Rightarrow> set_event e (\<lambda>v. v\<lparr> QueueList := {} \<rparr>)
       (w\<lparr> queues := (\<lambda>q. if q \<in> QueueList (events w e)
            then (queues w q)\<lparr> EventList := EventList (queues w q) - {e} \<rparr> else queues w q) \<rparr>)
   | Some q \<Rightarrow> set_event e (\<lambda>v. v\<lparr> QueueList := QueueList v - {q} \<rparr>)
       (set_queue q (\<lambda>v. v\<lparr> EventList := EventList v - {e} \<rparr>) w))"

definition Event_destroy :: "nat \<Rightarrow> 'a sq_world \<Rightarrow> 'a sq_world" where
  "Event_destroy e w = Unlink e None w"

text \<open>The destructor of a queue walks over its event list while Unlink erases from it, which
  is undefined unless the list is empty.\<close>

definition Queue_destroy :: "nat \<Rightarrow> 'a sq_world \<Rightarrow> 'a sq_world option" where
  "Queue_destroy q w = (if EventList (queues w q) = {} then Some w else None)"

section \<open>Queue operations\<close>

text \<open>\<open>(DWORD)size()\<close>: the count is cut to 32 bits.\<close>

definition GetCount :: "nat \<Rightarrow> 'a sq_world \<Rightarrow> DWORD" where
  "GetCount q w = of_nat (length (items (queues w q)))"

definition sq_push_back :: "nat \<Rightarrow> 'a \<Rightarrow> 'a sq_world \<Rightarrow> 'a sq_world" where
  "sq_push_back q x w = set_queue q (\<lambda>v. v\<lparr> items := items v @ [x] \<rparr>) (TriggerEvent q (GetCount q w) TRIGGEREVENTS_PUSH w)"

definition sq_push_front :: "nat \<Rightarrow> 'a \<Rightarrow> 'a sq_world \<Rightarrow> 'a sq_world" where
  "sq_push_front q x w = set_queue q (\<lambda>v. v\<lparr> items := x # items v \<rparr>) (TriggerEvent q (GetCount q w) TRIGGEREVENTS_PUSH w)"

text \<open>Popping from an empty std::list is undefined.\<close>

definition sq_pop_front :: "nat \<Rightarrow> 'a sq_world \<Rightarrow> 'a sq_world option" where
  "sq_pop_front q w = (if items (queues w q) = [] then None else
     Some (set_queue q (\<lambda>v. v\<lparr> items := tl (items v) \<rparr>) (TriggerEvent q (GetCount q w) TRIGGEREVENTS_POP w)))"

definition sq_pop_back :: "nat \<Rightarrow> 'a sq_world \<Rightarrow> 'a sq_world option" where
  "sq_pop_back q w = (if items (queues w q) = [] then None else
     Some (set_queue q (\<lambda>v. v\<lparr> items := butlast (items v) \<rparr>) (TriggerEvent q (GetCount q w) TRIGGEREVENTS_POP w)))"

definition sq_clear :: "nat \<Rightarrow> 'a sq_world \<Rightarrow> 'a sq_world" where
  "sq_clear q w = TriggerEvent q 0 TRIGGEREVENTS_EMPTY (set_queue q (\<lambda>v. v\<lparr> items := [] \<rparr>) w)"

section \<open>The bounded push\<close>

text \<open>\<open>others k\<close> is what the other threads do to the world during the \<open>k\<close>-th wait of at most a
  second, \<open>pTestAbort k\<close> the answer of the abort callback before it. \<open>None\<close>: still waiting.
  The new event \<open>e\<close> is local; an automatic event is reset by the lock that waits for it.\<close>

fun wait_loop ::
  "(nat \<Rightarrow> 'a sq_world \<Rightarrow> 'a sq_world) \<Rightarrow> (nat \<Rightarrow> bool) \<Rightarrow> nat \<Rightarrow> nat \<Rightarrow> DWORD \<Rightarrow> nat \<Rightarrow> nat \<Rightarrow> 'a sq_world
   \<Rightarrow> (bool \<times> 'a sq_world) option" where
  "wait_loop others pTestAbort q e dwMax k 0 w = None"
| "wait_loop others pTestAbort q e dwMax k (Suc fuel) w =
     (if length (items (queues w q)) > unat dwMax then
        if pTestAbort k then Some (True, w)
        else wait_loop others pTestAbort q e dwMax (Suc k) fuel
               (set_event e (\<lambda>v. v\<lparr> evQueue := False \<rparr>) (others k w))
      else Some (False, w))"

definition WaitForQueue ::
  "(nat \<Rightarrow> 'a sq_world \<Rightarrow> 'a sq_world) \<Rightarrow> (nat \<Rightarrow> bool) \<Rightarrow> nat \<Rightarrow> nat \<Rightarrow> DWORD \<Rightarrow> nat \<Rightarrow> 'a sq_world
   \<Rightarrow> (bool \<times> 'a sq_world) option" where
  "WaitForQueue others pTestAbort q e dwMaxQueueSize fuel w =
     (if dwMaxQueueSize \<noteq> 0 \<and> length (items (queues w q)) > unat dwMaxQueueSize then
        let w1 = Link e q (set_event e (\<lambda>_. CSharedQueueEvent_new) w);
            w2 = set_event e (\<lambda>v. SetCount dwMaxQueueSize (Enable True
                   (EnableTriggerEvents TRIGGEREVENTS_EMPTY (EnableTriggerEvents TRIGGEREVENTS_DELETE
                     (EnableTriggerEvents TRIGGEREVENTS_POP v))))) w1 in
        map_option (\<lambda>(ab, w3). (ab, Event_destroy e w3)) (wait_loop others pTestAbort q e dwMaxQueueSize 0 fuel w2)
      else Some (False, w))"

definition push_back_max ::
  "(nat \<Rightarrow> 'a sq_world \<Rightarrow> 'a sq_world) \<Rightarrow> (nat \<Rightarrow> bool) \<Rightarrow> nat \<Rightarrow> nat \<Rightarrow> 'a \<Rightarrow> DWORD \<Rightarrow> nat \<Rightarrow> 'a sq_world
   \<Rightarrow> (bool \<times> 'a sq_world) option" where
  "push_back_max others pTestAbort q e x dwMaxQueueSize fuel w =
     map_option (\<lambda>(ab, w1). (ab, sq_push_back q x w1))
       (if dwMaxQueueSize > 0 \<and> GetCount q w > dwMaxQueueSize
        then WaitForQueue others pTestAbort q e dwMaxQueueSize fuel w else Some (False, w))"

section \<open>Lemmas\<close>

definition links_ok :: "'a sq_world \<Rightarrow> bool" where
  "links_ok w \<longleftrightarrow> (\<forall>e q. e \<in> EventList (queues w q) \<longleftrightarrow> q \<in> QueueList (events w e))"

lemma world_simps [simp]:
  "queues (set_event e f w) = queues w" "events (set_queue q g w) = events w"
  "events (set_event e f w) e' = (if e' = e then f (events w e) else events w e')"
  "queues (set_queue q g w) q' = (if q' = q then g (queues w q) else queues w q')"
  by (simp_all add: set_event_def set_queue_def)

lemma TriggerEvent_simps [simp]:
  "queues (TriggerEvent q n t w) = queues w"
  "QueueList (events (TriggerEvent q n t w) e) = QueueList (events w e)"
  by (simp_all add: TriggerEvent_def)

lemma Link_ok: "links_ok w \<Longrightarrow> links_ok (Link e q w)"
  by (auto simp: links_ok_def Link_def)

lemma Unlink_ok: "links_ok w \<Longrightarrow> links_ok (Unlink e pQueue w)"
  by (auto simp: links_ok_def Unlink_def split: option.splits)

lemma Unlink_all_gone: "links_ok w \<Longrightarrow> e \<notin> EventList (queues (Unlink e None w) q)"
  by (auto simp: links_ok_def Unlink_def)

lemma links_items:
  "links_ok w \<Longrightarrow> (\<And>v. EventList (f v) = EventList v) \<Longrightarrow> links_ok (set_queue q f (TriggerEvent q' n t w))"
  by (auto simp: links_ok_def)

lemma links_clear:
  "links_ok w \<Longrightarrow> (\<And>v. EventList (f v) = EventList v) \<Longrightarrow> links_ok (TriggerEvent q' n t (set_queue q f w))"
  by (auto simp: links_ok_def)

text \<open>What threads do to the queues: each step is one operation.\<close>

datatype 'a sq_op = SqPushBack nat 'a | SqPushFront nat 'a | SqPopFront nat | SqPopBack nat | SqClear nat
  | SqNewEvent nat | SqLink nat nat | SqUnlink nat "nat option" | SqDestroyEvent nat | SqDestroyQueue nat
  | SqSet nat DWORD bool bool DWORD | SqWait nat

text \<open>\<open>None\<close> is undefined behaviour; an event is constructed where none is.\<close>

fun sq_exec :: "'a sq_op \<Rightarrow> 'a sq_world \<Rightarrow> 'a sq_world option" where
  "sq_exec (SqPushBack q x) w = Some (sq_push_back q x w)"
| "sq_exec (SqPushFront q x) w = Some (sq_push_front q x w)"
| "sq_exec (SqPopFront q) w = sq_pop_front q w"
| "sq_exec (SqPopBack q) w = sq_pop_back q w"
| "sq_exec (SqClear q) w = Some (sq_clear q w)"
| "sq_exec (SqNewEvent e) w = (if QueueList (events w e) = {} then Some (set_event e (\<lambda>_. CSharedQueueEvent_new) w) else None)"
| "sq_exec (SqLink e q) w = Some (Link e q w)"
| "sq_exec (SqUnlink e pQueue) w = Some (Unlink e pQueue w)"
| "sq_exec (SqDestroyEvent e) w = Some (Event_destroy e w)"
| "sq_exec (SqDestroyQueue q) w = Queue_destroy q w"
| "sq_exec (SqSet e n en al fl) w = Some (set_event e (\<lambda>v. SetCount n (Enable en (SetAllEvents al
     (EnableTriggerEvents fl (DisableAllTriggerEvents v))))) w)"
| "sq_exec (SqWait e) w = Some (set_event e (\<lambda>v. v\<lparr> evQueue := False \<rparr>) w)"

fun sq_run :: "'a sq_op list \<Rightarrow> 'a sq_world \<Rightarrow> 'a sq_world option" where
  "sq_run [] w = Some w"
| "sq_run (p # ps) w = (case sq_exec p w of None \<Rightarrow> None | Some w' \<Rightarrow> sq_run ps w')"

lemmas event_defs = SetCount_def Enable_def SetAllEvents_def EnableTriggerEvents_def DisableAllTriggerEvents_def
  CSharedQueueEvent_new_def

lemma set_event_links:
  "links_ok w \<Longrightarrow> QueueList (f (events w e)) = QueueList (events w e) \<Longrightarrow> links_ok (set_event e f w)"
  by (auto simp: links_ok_def)

lemma sq_exec_ok: "sq_exec p w = Some w' \<Longrightarrow> links_ok w \<Longrightarrow> links_ok w'"
  by (cases p) (auto simp: sq_push_back_def sq_push_front_def sq_pop_front_def sq_pop_back_def sq_clear_def
    Event_destroy_def Queue_destroy_def event_defs Link_ok Unlink_ok
    intro!: links_items links_clear set_event_links split: if_splits)

lemma sq_run_ok: "sq_run ps w = Some w' \<Longrightarrow> links_ok w \<Longrightarrow> links_ok w'"
  by (induction ps arbitrary: w) (auto split: option.splits intro: sq_exec_ok)

lemma links_wait:
  assumes "wait_loop others pTestAbort q e dwMax k fuel w = Some (ab, w')" "\<not> ab"
  shows "length (items (queues w' q)) \<le> unat dwMax"
  using assms by (induction others pTestAbort q e dwMax k fuel w rule: wait_loop.induct) (auto split: if_splits)

lemma Event_destroy_items [simp]: "items (queues (Event_destroy e w) q) = items (queues w q)"
  by (simp add: Event_destroy_def Unlink_def)

lemma WaitForQueue_bound:
  assumes "WaitForQueue others pTestAbort q e dwMax fuel w = Some (ab, w')" "\<not> ab" "dwMax \<noteq> 0"
  shows "length (items (queues w' q)) \<le> unat dwMax"
  using assms links_wait by (auto simp: WaitForQueue_def Let_def split: if_splits)

lemma wait_loop_returns:
  "\<lbrakk> k \<le> n; n < k + fuel; pTestAbort n \<or> (n > k \<and> (\<forall>w. length (items (queues (others (n - 1) w) q)) \<le> unat dwMax)) \<rbrakk>
   \<Longrightarrow> wait_loop others pTestAbort q e dwMax k fuel w \<noteq> None"
proof (induction others pTestAbort q e dwMax k fuel w rule: wait_loop.induct)
  case (2 others pTestAbort q e dwMax k fuel w)
  let ?w = "set_event e (\<lambda>v. v\<lparr> evQueue := False \<rparr>) (others k w)"
  show ?case
  proof (cases "length (items (queues w q)) > unat dwMax \<and> \<not> pTestAbort k")
    case True
    have "wait_loop others pTestAbort q e dwMax (Suc k) fuel ?w \<noteq> None"
    proof (cases "pTestAbort n \<or> n > Suc k")
      case True
      then have "n \<noteq> k" using \<open>_ \<and> \<not> pTestAbort k\<close> "2.prems"(3) by auto
      then show ?thesis using True "2.IH" "2.prems" \<open>_ \<and> \<not> pTestAbort k\<close> by auto
    next
      case False
      then have "n = Suc k" using "2.prems"(1,3) by auto
      then have n: "n = Suc k" "length (items (queues (others k w) q)) \<le> unat dwMax" using False "2.prems"(3) by auto
      then obtain f where "fuel = Suc f" using "2.prems"(2) by (cases fuel) auto
      then show ?thesis using n(2) by simp
    qed
    then show ?thesis using True by simp
  qed auto
qed simp

definition sq_init :: "'a sq_world" where
  "sq_init = \<lparr> queues = (\<lambda>_. \<lparr> items = [], EventList = {} \<rparr>), events = (\<lambda>_. CSharedQueueEvent_new) \<rparr>"

lemma init_links: "links_ok sq_init"
  by (simp add: links_ok_def sq_init_def CSharedQueueEvent_new_def)

text \<open>The event of a bounded push is linked with the limit as its count, but a pop triggers with
  the size before it: the pop that makes room does not signal it.\<close>

definition waiter_world :: "nat sq_world" where
  "waiter_world = sq_push_back 0 8 (sq_push_back 0 7 (set_event 1 (\<lambda>v. SetCount 1 (Enable True v)) (Link 1 0 sq_init)))"

lemma pop_at_limit_not_signalled:
  "\<exists>w. sq_pop_front 0 (set_event 1 (\<lambda>v. v\<lparr> evQueue := False \<rparr>) waiter_world) = Some w
     \<and> length (items (queues w 0)) = 1 \<and> \<not> evQueue (events w 1)"
  by (simp add: waiter_world_def sq_pop_front_def sq_push_back_def TriggerEvent_def triggers_def Link_def sq_init_def
    GetCount_def event_defs word_le_nat_alt)

section \<open>Properties\<close>

text \<open>Whatever sequence of operations runs, queues and events refer to each other: an event is
  in the list of a queue exactly when the queue is in the list of the event; so once an event is
  destroyed no queue triggers it any more.\<close>

theorem event_links_symmetric:
  assumes "sq_run ps sq_init = Some w"
  shows "(\<forall>e q. e \<in> EventList (queues w q) \<longleftrightarrow> q \<in> QueueList (events w e))
    \<and> (\<forall>e q. e \<notin> EventList (queues (Event_destroy e w) q))"
proof -
  have l: "links_ok w" by (rule sq_run_ok [OF assms init_links])
  then have "e \<notin> EventList (queues (Event_destroy e w) q)" for e q
    using Unlink_all_gone unfolding Event_destroy_def by blast
  then show ?thesis using l unfolding links_ok_def by blast
qed

text \<open>A bounded push that was not aborted leaves at most one element more than the limit,
  whatever the other threads did while it waited, with the new element last.\<close>

theorem push_back_max_bound:
  assumes "push_back_max others pTestAbort q e x dwMaxQueueSize fuel w = Some (False, w')"
    and "dwMaxQueueSize > 0" and "length (items (queues w q)) < 2 ^ 32"
  shows "length (items (queues w' q)) \<le> unat dwMaxQueueSize + 1 \<and> last (items (queues w' q)) = x"
proof -
  have c: "unat (GetCount q w) = length (items (queues w q))" using assms(3) by (simp add: GetCount_def unat_of_nat32)
  obtain w1 where w1: "w' = sq_push_back q x w1"
    "(if dwMaxQueueSize > 0 \<and> GetCount q w > dwMaxQueueSize
      then WaitForQueue others pTestAbort q e dwMaxQueueSize fuel w else Some (False, w)) = Some (False, w1)"
    using assms(1) by (auto simp: push_back_max_def split: if_splits)
  have "length (items (queues w1 q)) \<le> unat dwMaxQueueSize"
  proof (cases "GetCount q w > dwMaxQueueSize")
    case True
    then show ?thesis using w1(2) assms(2) WaitForQueue_bound [of others pTestAbort q e dwMaxQueueSize fuel w False w1] by simp
  next
    case False
    then show ?thesis using w1(2) assms(2) c by (simp add: word_less_nat_alt)
  qed
  then show ?thesis using w1(1) by (simp add: sq_push_back_def)
qed

text \<open>A bounded push returns: if at some wait the other threads bring the queue down to the
  limit, or the callback aborts, the loop ends with that wait (it polls every second, whether
  or not it is signalled).\<close>

theorem WaitForQueue_returns:
  assumes "n < fuel"
    and "pTestAbort n \<or> (0 < n \<and> (\<forall>w. length (items (queues (others (n - 1) w) q)) \<le> unat dwMaxQueueSize))"
  shows "\<exists>r. WaitForQueue others pTestAbort q e dwMaxQueueSize fuel w = Some r"
proof -
  have "\<exists>r. wait_loop others pTestAbort q e dwMaxQueueSize 0 fuel w2 = Some r" for w2
    using wait_loop_returns [of 0 n fuel pTestAbort others q dwMaxQueueSize e w2] assms by auto
  then show ?thesis unfolding WaitForQueue_def Let_def by (auto simp: split_beta)
qed

definition demo_others :: "nat \<Rightarrow> nat sq_world \<Rightarrow> nat sq_world" where
  "demo_others k w = set_queue 0 (\<lambda>v. v\<lparr> items := [] \<rparr>) w"

lemma event_links_symmetric_witness:
  "\<exists>w :: nat sq_world. sq_run [SqLink 1 0, SqPushBack 0 7, SqDestroyEvent 1] sq_init = Some w \<and> 1 \<notin> EventList (queues w 0)"
proof -
  obtain w :: "nat sq_world" where w: "sq_run [SqLink 1 0, SqPushBack 0 7] sq_init = Some w" by simp
  then have "sq_run [SqLink 1 0, SqPushBack 0 7, SqDestroyEvent 1] sq_init = Some (Event_destroy 1 w)" by simp
  then show ?thesis using event_links_symmetric [OF w] by blast
qed

lemma push_back_max_bound_witness:
  "\<exists>w'. push_back_max demo_others (\<lambda>_. False) 0 2 9 1 5 waiter_world = Some (False, w')
     \<and> length (items (queues w' 0)) \<le> 2 \<and> last (items (queues w' 0)) = 9"
proof -
  have i: "items (queues waiter_world 0) = [7, 8]"
    by (simp add: waiter_world_def sq_push_back_def Link_def sq_init_def)
  then have "\<exists>w'. push_back_max demo_others (\<lambda>_. False) 0 2 9 1 5 waiter_world = Some (False, w')"
    by (simp add: push_back_max_def WaitForQueue_def GetCount_def Let_def Link_def numeral_eq_Suc demo_others_def)
  then obtain w' where "push_back_max demo_others (\<lambda>_. False) 0 2 9 1 5 waiter_world = Some (False, w')" by blast
  then show ?thesis using push_back_max_bound [of demo_others "\<lambda>_. False" 0 2 9 1 5 waiter_world w'] i by auto
qed

lemma WaitForQueue_returns_witness:
  "\<exists>r. WaitForQueue demo_others (\<lambda>_. False) 0 2 1 2 waiter_world = Some r"
  by (rule WaitForQueue_returns [of 1]) (simp_all add: demo_others_def)

end
