(* ===== verification/Multipart.thy ===== *)
theory Multipart
  imports S3Errors Uri Xml Dates
begin

text \<open>
  The requests of a multipart upload (ECSConnection.cpp, S3MultiPartInitiate to
  S3MultiPartUpload): what is sent, and what is taken from the answers. The exchange itself,
  the XML reader and the base64 encoder are parameters; the XML writer gives the document it is
  asked for and does not fail.
\<close>

section \<open>Requests\<close>

datatype mp_body = NoBody | DataBody string | XmlBody xml_tree | StreamBody ULONGLONG

record mp_request =
  rq_Method :: string
  rq_Resource :: string
  rq_Headers :: "(string \<times> string) list"
  rq_Body :: mp_body

text \<open>An answer: the error, the data, and for each header asked for its contents.\<close>

type_synonym mp_reply = "S3_ERROR \<times> string \<times> (string \<times> string list) list"

record 'w mp_env =
  mp_send :: "mp_request \<Rightarrow> 'w \<Rightarrow> mp_reply \<times> 'w"
  mp_reader :: "string \<Rightarrow> xml_node list \<times> DWORD"
  mp_base64 :: "BYTE list \<Rightarrow> string"
  mp_maps :: s3_maps
  mp_dates :: date_env

definition mp_scan :: "'w mp_env \<Rightarrow> 'c xml_cb \<Rightarrow> string \<Rightarrow> 'c \<Rightarrow> DWORD \<times> 'c" where
  "mp_scan env cb data = ScanXml cb (mp_reader env data)"

section \<open>Errors in answers\<close>

text \<open>The context is the error itself; empty texts change nothing.\<close>

definition XmlS3ErrorCB :: "s3_maps \<Rightarrow> S3_ERROR xml_cb" where
  "XmlS3ErrorCB maps ev e =
     (case ev of
        XmlText sXmlPath v \<Rightarrow>
          (0, if v = [] then e
              else if eq_nocase sXmlPath ''//Error/Code'' then e\<lparr> S3Error := fst (S3TranslateError v maps), sS3Code := v \<rparr>
              else if eq_nocase sXmlPath ''//Error/Message'' then e\<lparr> sDetails := v \<rparr>
              else if eq_nocase sXmlPath ''//Error/Resource'' then e\<lparr> sS3Resource := v \<rparr>
              else if eq_nocase sXmlPath ''//Error/RequestId'' then e\<lparr> sS3RequestID := v \<rparr>
              else e)
      | _ \<Rightarrow> (0, e))"

definition XmlECSAdminErrorCB :: "s3_maps \<Rightarrow> S3_ERROR xml_cb" where
  "XmlECSAdminErrorCB maps ev e =
     (case ev of
        XmlText sXmlPath v \<Rightarrow>
          (0, if v = [] then e
              else if eq_nocase sXmlPath ''//error/code'' then e\<lparr> S3Error := fst (S3TranslateError v maps), sS3Code := v \<rparr>
              else if eq_nocase sXmlPath ''//error/description'' \<or> eq_nocase sXmlPath ''//error/details''
              then e\<lparr> sDetails := (if sDetails e \<noteq> [] then sDetails e @ '': '' @ v else v) \<rparr>
              else e)
      | _ \<Rightarrow> (0, e))"

section \<open>Initiate\<close>

record S3_UPLOAD_PART_INFO =
  sResource :: string
  sBucket :: string
  sKey :: string
  sUploadId :: string

definition XmlMultiPartCB :: "S3_UPLOAD_PART_INFO xml_cb" where
  "XmlMultiPartCB ev i =
     (case ev of
        XmlText sXmlPath v \<Rightarrow>
          (0, if eq_nocase sXmlPath ''//InitiateMultipartUploadResult/Bucket'' then i\<lparr> sBucket := v \<rparr>
              else if eq_nocase sXmlPath ''//InitiateMultipartUploadResult/Key'' then i\<lparr> sKey := v \<rparr>
              else if eq_nocase sXmlPath ''//InitiateMultipartUploadResult/UploadId'' then i\<lparr> sUploadId := v \<rparr>
              else i)
      | _ \<Rightarrow> (0, i))"

definition S3MultiPartInitiate ::
  "'w mp_env \<Rightarrow> string \<Rightarrow> S3_UPLOAD_PART_INFO \<Rightarrow> (string \<times> string) list \<Rightarrow> 'w \<Rightarrow> (S3_ERROR \<times> S3_UPLOAD_PART_INFO) \<times> 'w" where
  "S3MultiPartInitiate env pszPath info0 MDList w =
     (let info = info0\<lparr> sResource := pszPath \<rparr> in
      if pszPath = [] then ((S3_ERROR_new 123, info), w)
      else
        let ((e, data, hdrs), w1) = mp_send env \<lparr> rq_Method = ''POST'', rq_Resource = UriEncode pszPath StdSAFE @ ''?uploads'',
              rq_Headers = MDList @ [(''content-type'', ''application/octet-stream'')], rq_Body = NoBody \<rparr> w;
            Error = SetError e in
        if IfError Error then ((Error, info), w1)
        else let (hr, info1) = mp_scan env XmlMultiPartCB data info in
             ((S3_ERROR_new (if FAILED hr then hr else 0), info1), w1))"

section \<open>Complete and abort\<close>

record S3_MPU_COMPLETE_INFO =
  mc_sLocation :: string
  mc_sBucket :: string
  mc_sKey :: string
  mc_sETag :: string

definition XmlMPUCompleteCB :: "S3_MPU_COMPLETE_INFO xml_cb" where
  "XmlMPUCompleteCB ev i =
     (case ev of
        XmlText sXmlPath v \<Rightarrow>
          (0, if v = [] then i
              else if eq_nocase sXmlPath ''//CompleteMultipartUploadResult/Location'' then i\<lparr> mc_sLocation := v \<rparr>
              else if eq_nocase sXmlPath ''//CompleteMultipartUploadResult/Bucket'' then i\<lparr> mc_sBucket := v \<rparr>
              else if eq_nocase sXmlPath ''//CompleteMultipartUploadResult/Key'' then i\<lparr> mc_sKey := v \<rparr>
              else if eq_nocase sXmlPath ''//CompleteMultipartUploadResult/ETag'' then i\<lparr> mc_sETag := v \<rparr>
              else i)
      | _ \<Rightarrow> (0, i))"

text \<open>The document that lists the parts, by number and ETag.\<close>

definition complete_tree :: "(DWORD \<times> string) list \<Rightarrow> xml_tree" where
  "complete_tree PartList = XElem [] ''CompleteMultipartUpload'' [] False
     (map (\<lambda>(n, etag). XElem [] ''Part'' [] False [leaf ''PartNumber'' (decimal (unat n)), leaf ''ETag'' etag]) PartList)"

text \<open>The call may fail although the status is fine: then the answer is an error document.\<close>

definition complete_result ::
  "'w mp_env \<Rightarrow> S3_ERROR \<Rightarrow> string \<Rightarrow> S3_MPU_COMPLETE_INFO \<Rightarrow> S3_ERROR \<times> S3_MPU_COMPLETE_INFO" where
  "complete_result env Error RetData info =
     (if \<not> IfError Error \<and> RetData \<noteq> [] then
        let Error1 = snd (mp_scan env (XmlS3ErrorCB (mp_maps env)) RetData Error) in
        if sS3Code Error1 \<noteq> [] then (Error1\<lparr> dwHttpError := 400 \<rparr>, info)
        else (Error1, snd (mp_scan env XmlMPUCompleteCB RetData info))
      else (Error, info))"

definition S3MultiPartComplete ::
  "'w mp_env \<Rightarrow> S3_UPLOAD_PART_INFO \<Rightarrow> (DWORD \<times> string) list \<Rightarrow> S3_MPU_COMPLETE_INFO \<Rightarrow> 'w
   \<Rightarrow> (S3_ERROR \<times> S3_MPU_COMPLETE_INFO) \<times> 'w" where
  "S3MultiPartComplete env MultiPartInfo PartList info w =
     (let ((e, data, hdrs), w1) = mp_send env \<lparr> rq_Method = ''POST'',
            rq_Resource = UriEncode (sResource MultiPartInfo) StdSAFE @ ''?uploadId='' @ sUploadId MultiPartInfo,
            rq_Headers = [], rq_Body = XmlBody (complete_tree PartList) \<rparr> w in
      (complete_result env (SetError e) data info, w1))"

definition S3MultiPartAbort :: "'w mp_env \<Rightarrow> S3_UPLOAD_PART_INFO \<Rightarrow> 'w \<Rightarrow> S3_ERROR \<times> 'w" where
  "S3MultiPartAbort env MultiPartInfo w =
     (let ((e, data, hdrs), w1) = mp_send env \<lparr> rq_Method = ''DELETE'',
            rq_Resource = UriEncode (sResource MultiPartInfo) StdSAFE @ ''?uploadId='' @ sUploadId MultiPartInfo,
            rq_Headers = [], rq_Body = NoBody \<rparr> w in
      (SetError e, w1))"

section \<open>Uploading a part\<close>

definition XmlMultipartCopyCB :: "string xml_cb" where
  "XmlMultipartCopyCB ev etag =
     (case ev of
        XmlText sXmlPath v \<Rightarrow> (0, if eq_nocase sXmlPath ''//CopyPartResult/ETag'' \<and> v \<noteq> [] then v else etag)
      | _ \<Rightarrow> (0, etag))"

definition part_resource :: "S3_UPLOAD_PART_INFO \<Rightarrow> DWORD \<Rightarrow> string" where
  "part_resource info uPartNum =
     (let (bucket, tail) = (case str_find_from ''/'' 1 (sResource info) of
            None \<Rightarrow> ([], sResource info)
          | Some iSlash \<Rightarrow> (take (iSlash - 1) (drop 1 (sResource info)), drop iSlash (sResource info))) in
      ''/'' @ bucket @ UriEncode tail StdSAFE @ ''?partNumber='' @ decimal (unat uPartNum) @ ''&uploadId='' @ sUploadId info)"

text \<open>The source of a copied part: object, version, start of the range.\<close>

type_synonym copy_source = "string \<times> string \<times> ULONGLONG"

definition copy_headers :: "copy_source \<Rightarrow> ULONGLONG \<Rightarrow> (string \<times> string) list" where
  "copy_headers src ullTotalLen = (case src of (pszCopySource, pszVersionId, ullStartRange) \<Rightarrow>
     [(''x-amz-copy-source'', UriEncode pszCopySource StdSAFE @ (if pszVersionId \<noteq> [] then ''?versionId='' @ pszVersionId else [])),
      (''x-amz-copy-source-range'', ''bytes='' @ decimal (unat ullStartRange) @ ''-'' @ decimal (unat (ullStartRange + ullTotalLen - 1)))])"

definition part_request ::
  "'w mp_env \<Rightarrow> S3_UPLOAD_PART_INFO \<Rightarrow> DWORD \<Rightarrow> BYTE list \<Rightarrow> ULONGLONG \<Rightarrow> copy_source option \<Rightarrow> mp_request" where
  "part_request env info uPartNum Checksum ullTotalLen src = \<lparr> rq_Method = ''PUT'', rq_Resource = part_resource info uPartNum,
     rq_Headers = (if Checksum \<noteq> [] then [(''Content-MD5'', mp_base64 env Checksum)] else [])
       @ (case src of None \<Rightarrow> [] | Some s \<Rightarrow> copy_headers s ullTotalLen),
     rq_Body = (case src of None \<Rightarrow> StreamBody ullTotalLen | Some _ \<Rightarrow> NoBody) \<rparr>"

text \<open>The first header named ETag decides.\<close>

definition header_etag :: "(string \<times> string list) list \<Rightarrow> DWORD + string" where
  "header_etag hdrs = (case find (\<lambda>(h, _). eq_nocase h ''ETag'') hdrs of
     None \<Rightarrow> Inl ERROR_INVALID_DATA
   | Some (_, cs) \<Rightarrow> if length cs \<noteq> 1 \<or> hd cs = [] then Inl ERROR_INVALID_DATA else Inr (hd cs))"

text \<open>The error and the ETag of the part (empty until the upload succeeds).\<close>

definition upload_result :: "'w mp_env \<Rightarrow> copy_source option \<Rightarrow> mp_reply \<Rightarrow> S3_ERROR \<times> string" where
  "upload_result env src reply =
     (let (e, data, hdrs) = reply; Error = SetError e in
      if IfError Error then (Error, [])
      else case src of
        Some _ \<Rightarrow>
          let (hr, etag) = mp_scan env XmlMultipartCopyCB data [] in
          if FAILED hr then (S3_ERROR_new hr, [])
          else if etag = [] then (S3_ERROR_new ERROR_INVALID_DATA, []) else (Error, etag)
      | None \<Rightarrow>
          (case header_etag hdrs of Inl d \<Rightarrow> (S3_ERROR_new d, []) | Inr etag \<Rightarrow> (Error, etag)))"

definition S3MultiPartUpload ::
  "'w mp_env \<Rightarrow> S3_UPLOAD_PART_INFO \<Rightarrow> DWORD \<Rightarrow> BYTE list \<Rightarrow> ULONGLONG \<Rightarrow> copy_source option \<Rightarrow> 'w
   \<Rightarrow> (S3_ERROR \<times> string) \<times> 'w" where
  "S3MultiPartUpload env info uPartNum Checksum ullTotalLen src w =
     (let (reply, w1) = mp_send env (part_request env info uPartNum Checksum ullTotalLen src) w in
      (upload_result env src reply, w1))"

section \<open>Listing uploads\<close>

record S3_LIST_MULTIPART_UPLOADS_ENTRY =
  le_sKey :: string
  le_sUploadId :: string
  le_sInitiatorId :: string
  le_sInitiatorDisplayName :: string
  le_sOwnerId :: string
  le_sOwnerDisplayName :: string
  le_sStorageClass :: string
  le_ftInitiated :: FILETIME

definition entry_Empty :: S3_LIST_MULTIPART_UPLOADS_ENTRY where
  "entry_Empty = \<lparr> le_sKey = [], le_sUploadId = [], le_sInitiatorId = [], le_sInitiatorDisplayName = [], le_sOwnerId = [],
     le_sOwnerDisplayName = [], le_sStorageClass = [], le_ftInitiated = 0 \<rparr>"

text \<open>The context: the list that is returned and the state of the scan.\<close>

record S3_MULTIPART_LIST_CONTEXT =
  ml_sBucket :: string
  ml_uMaxUploads :: DWORD
  ml_ObjectList :: "S3_LIST_MULTIPART_UPLOADS_ENTRY list"
  ml_Rec :: S3_LIST_MULTIPART_UPLOADS_ENTRY
  ml_sNextKeyMarker :: string
  ml_sNextUploadIdMarker :: string
  ml_bIsTruncated :: bool

definition ml_map :: "(S3_LIST_MULTIPART_UPLOADS_ENTRY \<Rightarrow> S3_LIST_MULTIPART_UPLOADS_ENTRY) \<Rightarrow> S3_MULTIPART_LIST_CONTEXT
   \<Rightarrow> S3_MULTIPART_LIST_CONTEXT" where
  "ml_map f c = c\<lparr> ml_Rec := f (ml_Rec c) \<rparr>"

text \<open>\<open>_ttoi\<close>: a number up to the first character that is no digit, 0 if there is none, the
  nearest limit when it does not fit.\<close>

definition ttoi :: "string \<Rightarrow> int" where
  "ttoi s =
     (let t = dropWhile is_space_c s;
          neg = (t \<noteq> [] \<and> hd t = CHR ''-'');
          u = (if t \<noteq> [] \<and> (hd t = CHR ''-'' \<or> hd t = CHR ''+'') then tl t else t);
          n = int (undecimal (takeWhile is_digit_ascii u)) in
      if neg then max (- n) (- (2 ^ 31)) else min n (2 ^ 31 - 1))"

definition XmlS3MultiPartListCB :: "date_env \<Rightarrow> S3_MULTIPART_LIST_CONTEXT xml_cb" where
  "XmlS3MultiPartListCB denv ev c =
     (case ev of
        XmlText p v \<Rightarrow>
          if v = [] then (0, c)
          else if eq_nocase p ''//ListMultipartUploadsResult/Bucket'' then (0, c\<lparr> ml_sBucket := v \<rparr>)
          else if eq_nocase p ''//ListMultipartUploadsResult/NextKeyMarker'' then (0, c\<lparr> ml_sNextKeyMarker := v \<rparr>)
          else if eq_nocase p ''//ListMultipartUploadsResult/NextUploadIdMarker'' then (0, c\<lparr> ml_sNextUploadIdMarker := v \<rparr>)
          else if eq_nocase p ''//ListMultipartUploadsResult/MaxUploads'' then (0, c\<lparr> ml_uMaxUploads := of_int (ttoi v) \<rparr>)
          else if eq_nocase p ''//ListMultipartUploadsResult/IsTruncated'' then (0, c\<lparr> ml_bIsTruncated := (v = ''true'') \<rparr>)
          else if eq_nocase p ''//ListMultipartUploadsResult/Upload/Key'' then (0, ml_map (\<lambda>r. r\<lparr> le_sKey := v \<rparr>) c)
          else if eq_nocase p ''//ListMultipartUploadsResult/Upload/UploadId'' then (0, ml_map (\<lambda>r. r\<lparr> le_sUploadId := v \<rparr>) c)
          else if eq_nocase p ''//ListMultipartUploadsResult/Upload/Initiator/ID'' then (0, ml_map (\<lambda>r. r\<lparr> le_sInitiatorId := v \<rparr>) c)
          else if eq_nocase p ''//ListMultipartUploadsResult/Upload/Initiator/DisplayName''
          then (0, ml_map (\<lambda>r. r\<lparr> le_sInitiatorDisplayName := v \<rparr>) c)
          else if eq_nocase p ''//ListMultipartUploadsResult/Upload/Owner/ID'' then (0, ml_map (\<lambda>r. r\<lparr> le_sOwnerId := v \<rparr>) c)
          else if eq_nocase p ''//ListMultipartUploadsResult/Upload/Owner/DisplayName''
          then (0, ml_map (\<lambda>r. r\<lparr> le_sOwnerDisplayName := v \<rparr>) c)
          else if eq_nocase p ''//ListMultipartUploadsResult/Upload/StorageClass'' then (0, ml_map (\<lambda>r. r\<lparr> le_sStorageClass := v \<rparr>) c)
          else if eq_nocase p ''//ListMultipartUploadsResult/Upload/Initiated''
          then (let (dwError, ft) = ParseISO8601Date denv v False; c' = ml_map (\<lambda>r. r\<lparr> le_ftInitiated := ft \<rparr>) c in (dwError, c'))
          else (0, c)
      | XmlEndElement p \<Rightarrow>
          if eq_nocase p ''//ListMultipartUploadsResult/Upload'' \<and> le_sKey (ml_Rec c) \<noteq> []
          then (0, c\<lparr> ml_ObjectList := ml_ObjectList c @ [ml_Rec c], ml_Rec := entry_Empty \<rparr>)
          else (0, c)
      | _ \<Rightarrow> (0, c))"

text \<open>The loop over the pages; the context is kept from page to page. \<open>None\<close>: no fuel left.\<close>

fun S3MultiPartList_loop ::
  "'w mp_env \<Rightarrow> string \<Rightarrow> nat \<Rightarrow> S3_MULTIPART_LIST_CONTEXT \<Rightarrow> 'w \<Rightarrow> ((S3_ERROR \<times> S3_MULTIPART_LIST_CONTEXT) \<times> 'w) option" where
  "S3MultiPartList_loop env res 0 c w = None"
| "S3MultiPartList_loop env res (Suc fuel) c w =
     (let ((e, data, hdrs), w1) = mp_send env \<lparr> rq_Method = ''GET'',
            rq_Resource = res
              @ (if ml_sNextKeyMarker c \<noteq> [] then ''&key-marker='' @ UriEncode (ml_sNextKeyMarker c) AllSAFE else [])
              @ (if ml_sNextUploadIdMarker c \<noteq> [] then ''&upload-id-marker='' @ ml_sNextUploadIdMarker c else []),
            rq_Headers = [], rq_Body = NoBody \<rparr> w;
          Error = SetError e in
      if IfError Error then Some ((Error, c), w1)
      else let (hr, c1) = mp_scan env (XmlS3MultiPartListCB (mp_dates env)) data c in
        if FAILED hr then Some ((S3_ERROR_new hr, c1), w1)
        else if \<not> ml_bIsTruncated c1 then Some ((Error, c1), w1)
        else S3MultiPartList_loop env res fuel c1 w1)"

definition S3MultiPartList ::
  "'w mp_env \<Rightarrow> nat \<Rightarrow> string \<Rightarrow> string \<Rightarrow> DWORD \<Rightarrow> S3_LIST_MULTIPART_UPLOADS_ENTRY list \<Rightarrow> 'w
   \<Rightarrow> ((S3_ERROR \<times> S3_MULTIPART_LIST_CONTEXT) \<times> 'w) option" where
  "S3MultiPartList env fuel pszBucketName bucket mx objs w =
     S3MultiPartList_loop env (''/'' @ pszBucketName @ ''/?uploads'') fuel
       \<lparr> ml_sBucket = bucket, ml_uMaxUploads = mx, ml_ObjectList = objs, ml_Rec = entry_Empty, ml_sNextKeyMarker = [],
         ml_sNextUploadIdMarker = [], ml_bIsTruncated = False \<rparr> w"

end
