(* ===== verification/MpuUpload.thy ===== *)
theory MpuUpload
  imports Multipart
begin

text \<open>
  The upload manager (FileSupport.cpp, \<open>DoS3MultiPartUpload\<close> and \<open>CMPUPool\<close>): a file is cut into
  parts, each part is read into the queue of a message for the thread pool, the pool threads send
  the queues, and the manager feeds the queues, retries failed parts and completes or aborts the
  upload. The manager and the pool threads are a state machine: one step is one turn of a loop of
  the manager, the removal of one buffer by a pool thread, or the end of an upload in a pool thread.

  The stream is a parameter: what \<open>Seek\<close> and \<open>Read\<close> give at an offset. The length of the message
  queue, the abort test and the answers of the server are part of the labels of the steps.
\<close>

section \<open>The parts of the file\<close>

definition MEGABYTES :: "ULONGLONG \<Rightarrow> ULONGLONG" where "MEGABYTES x = x * 0x100000"

definition ALIGN_ANY :: "ULONGLONG \<Rightarrow> ULONGLONG \<Rightarrow> ULONGLONG" where
  "ALIGN_ANY sz alignvalue = ((sz + alignvalue - 1) div alignvalue) * alignvalue"

definition dwMaxParts :: ULONGLONG where "dwMaxParts = 1000"

type_synonym STREAM_DATA_ENTRY = "BYTE list \<times> bool"

record S3_UPLOAD_PART_ENTRY =
  pe_uPartNum :: DWORD
  pe_sETag :: string
  pe_Checksum :: "BYTE list"
  pe_ullPartSize :: ULONGLONG
  pe_ullBaseOffset :: ULONGLONG
  pe_StreamData :: "STREAM_DATA_ENTRY list"
  pe_bInProcess :: bool
  pe_bComplete :: bool
  pe_dwRetryNum :: DWORD
  pe_ullCursor :: ULONGLONG

text \<open>The length of a part; \<open>None\<close> when no multipart upload is to be done. The division by zero of
  part size 0 is the error \<open>Inl\<close>.\<close>

definition part_length :: "ULONGLONG \<Rightarrow> DWORD \<Rightarrow> unit + ULONGLONG option" where
  "part_length cbSize dwPartSize =
     (if cbSize < MEGABYTES (ucast dwPartSize) then Inr None
      else
        let len0 = ALIGN_ANY (MEGABYTES (ucast dwPartSize)) 0x10000 in
        if len0 = 0 then Inl ()
        else
          let len = (if cbSize div len0 > dwMaxParts then cbSize div (dwMaxParts - 1) else len0) in
          if len < MEGABYTES 5 then Inr None else Inr (Some len))"

definition new_part :: "ULONGLONG \<Rightarrow> ULONGLONG \<Rightarrow> ULONGLONG \<Rightarrow> DWORD \<Rightarrow> S3_UPLOAD_PART_ENTRY" where
  "new_part cbSize ullPartLength ullOffset uPartNum =
     \<lparr> pe_uPartNum = uPartNum, pe_sETag = [], pe_Checksum = [],
       pe_ullPartSize = (if cbSize - ullOffset < ullPartLength then cbSize - ullOffset else ullPartLength),
       pe_ullBaseOffset = ullOffset, pe_StreamData = [], pe_bInProcess = False, pe_bComplete = False,
       pe_dwRetryNum = 0, pe_ullCursor = 0 \<rparr>"

partial_function (option) create_parts ::
  "ULONGLONG \<Rightarrow> ULONGLONG \<Rightarrow> ULONGLONG \<Rightarrow> DWORD \<Rightarrow> S3_UPLOAD_PART_ENTRY list \<Rightarrow> S3_UPLOAD_PART_ENTRY list option" where
  "create_parts cbSize len ullOffset uPartNum acc =
     (if cbSize \<le> ullOffset then Some acc
      else let Rec = new_part cbSize len ullOffset (uPartNum + 1) in
        create_parts cbSize len (ullOffset + pe_ullPartSize Rec) (uPartNum + 1) (acc @ [Rec]))"

section \<open>Parameters and state\<close>

record mpu_env =
  mu_dwBufSize :: DWORD
  mu_dwMaxThreads :: DWORD
  mu_bChecksum :: bool
  mu_dwMaxQueueSize :: DWORD
  mu_dwMaxRetries :: DWORD
  mu_seek :: "ULONGLONG \<Rightarrow> DWORD"
  mu_read :: "ULONGLONG \<Rightarrow> DWORD \<Rightarrow> DWORD + BYTE list"
  mu_md5 :: "BYTE list \<Rightarrow> BYTE list"

text \<open>The queue size 0 stands for 10.\<close>

definition queue_size :: "mpu_env \<Rightarrow> nat" where
  "queue_size env = (if mu_dwMaxQueueSize env = 0 then 10 else unat (mu_dwMaxQueueSize env))"

text \<open>How much a read asks for: the buffer or what is left of the part.\<close>

definition read_size :: "mpu_env \<Rightarrow> ULONGLONG \<Rightarrow> DWORD" where
  "read_size env rest = (if ucast (mu_dwBufSize env) > rest then ucast rest else mu_dwBufSize env)"

text \<open>A message of the pool and, as ghost state, what the thread took from its queue: the bytes
  and whether the entry with \<open>bLast\<close> was among them.\<close>

record CMPUPoolMsg =
  ms_part :: nat
  ms_bComplete :: bool
  ms_Error :: S3_ERROR
  ms_sent :: "BYTE list"
  ms_last :: bool

text \<open>The requests, in the order in which they end.\<close>

datatype mpu_call =
    CUpload DWORD "BYTE list" "BYTE list" string
  | CComplete "(DWORD \<times> string) list"
  | CAbort

text \<open>Where the manager is: at an entry of the part list (with \<open>bS3PartListEmpty\<close>), before the
  wait, at a message of the pending list (with \<open>bDeletedAtLeastOneEntry\<close>), in the loop that feeds
  its queue, before the completion, or at the end.\<close>

datatype mpu_phase =
    PDispatch nat bool
  | PWait
  | PPass nat bool
  | PFeed nat bool
  | PComplete
  | PDone
  | PFailed S3_ERROR

record mpu_mgr =
  mg_parts :: "S3_UPLOAD_PART_ENTRY list"
  mg_pending :: "CMPUPoolMsg list"
  mg_phase :: mpu_phase
  mg_log :: "mpu_call list"

section \<open>The manager\<close>

definition push_data :: "BYTE list \<Rightarrow> bool \<Rightarrow> S3_UPLOAD_PART_ENTRY \<Rightarrow> S3_UPLOAD_PART_ENTRY" where
  "push_data bs l e = e\<lparr> pe_StreamData := pe_StreamData e @ [(bs, l)], pe_ullCursor := pe_ullCursor e + of_nat (length bs) \<rparr>"

text \<open>The first reading of a part: it fills the queue and, for the checksum, goes on to the end of
  the part. \<open>None\<close> when the stream keeps giving nothing.\<close>

partial_function (option) prefill ::
  "mpu_env \<Rightarrow> ULONGLONG \<Rightarrow> ULONGLONG \<Rightarrow> nat \<Rightarrow> BYTE list \<Rightarrow> S3_UPLOAD_PART_ENTRY
   \<Rightarrow> (DWORD + BYTE list \<times> S3_UPLOAD_PART_ENTRY) option" where
  "prefill env off rest rec h e =
     (if rest = 0 then Some (Inr (h, e))
      else case mu_read env off (read_size env rest) of
        Inl d \<Rightarrow> Some (Inl d)
      | Inr bs \<Rightarrow>
          let h' = (if mu_bChecksum env then h @ bs else h);
              e' = (if rec < queue_size env then push_data bs (rest = of_nat (length bs)) e else e);
              rec' = (if rec < queue_size env then Suc rec else rec) in
          if \<not> mu_bChecksum env \<and> queue_size env \<le> rec' then Some (Inr (h', e'))
          else prefill env (off + of_nat (length bs)) (rest - of_nat (length bs)) rec' h' e')"

text \<open>An entry is marked and filled for its message.\<close>

definition fill_part :: "mpu_env \<Rightarrow> S3_UPLOAD_PART_ENTRY \<Rightarrow> (DWORD + S3_UPLOAD_PART_ENTRY) option" where
  "fill_part env e0 =
     (let e = e0\<lparr> pe_bInProcess := True, pe_StreamData := [] \<rparr>; d = mu_seek env (pe_ullBaseOffset e) in
      if d \<noteq> 0 then Some (Inl d)
      else map_option (map_sum id (\<lambda>(h, e1). if mu_bChecksum env then e1\<lparr> pe_Checksum := mu_md5 env h \<rparr> else e1))
             (prefill env (pe_ullBaseOffset e) (pe_ullPartSize e) 0 [] e))"

definition new_msg :: "nat \<Rightarrow> CMPUPoolMsg" where
  "new_msg k = \<lparr> ms_part = k, ms_bComplete = False, ms_Error = S3_ERROR_new 0, ms_sent = [], ms_last = False \<rparr>"

text \<open>Every exception ends in the abort of the upload.\<close>

definition mpu_fail :: "S3_ERROR \<Rightarrow> mpu_mgr \<Rightarrow> mpu_mgr" where
  "mpu_fail E mg = mg\<lparr> mg_phase := PFailed E, mg_log := mg_log mg @ [CAbort] \<rparr>"

text \<open>One turn of the loop over the part list.\<close>

definition dispatch_step :: "mpu_env \<Rightarrow> DWORD \<Rightarrow> bool \<Rightarrow> nat \<Rightarrow> bool \<Rightarrow> mpu_mgr \<Rightarrow> mpu_mgr option" where
  "dispatch_step env cnt bAbort k bEmpty mg =
     (if length (mg_parts mg) \<le> k then Some (mg\<lparr> mg_phase := (if bEmpty then PComplete else PWait) \<rparr>)
      else
        let e = mg_parts mg ! k in
        if pe_bComplete e then Some (mg\<lparr> mg_phase := PDispatch (Suc k) bEmpty \<rparr>)
        else if pe_bInProcess e then Some (mg\<lparr> mg_phase := PDispatch (Suc k) False \<rparr>)
        else if mu_dwMaxThreads env + 4 \<le> cnt then Some (mg\<lparr> mg_phase := PWait \<rparr>)
        else if bAbort then Some (mpu_fail (S3_ERROR_new 995) mg)
        else case fill_part env e of
          None \<Rightarrow> None
        | Some (Inl d) \<Rightarrow> Some (mpu_fail (S3_ERROR_new d) mg)
        | Some (Inr e') \<Rightarrow> Some (mg\<lparr> mg_parts := (mg_parts mg)[k := e'], mg_pending := mg_pending mg @ [new_msg k],
                                     mg_phase := PDispatch (Suc k) False \<rparr>))"

definition wait_step :: "bool \<Rightarrow> mpu_mgr \<Rightarrow> mpu_mgr" where
  "wait_step bAbort mg = (if bAbort then mpu_fail (S3_ERROR_new 995) mg else mg\<lparr> mg_phase := PPass 0 False \<rparr>)"

definition reset_part :: "S3_UPLOAD_PART_ENTRY \<Rightarrow> S3_UPLOAD_PART_ENTRY" where
  "reset_part e = e\<lparr> pe_bInProcess := False, pe_bComplete := False, pe_dwRetryNum := pe_dwRetryNum e + 1,
     pe_Checksum := [], pe_StreamData := [], pe_ullCursor := 0 \<rparr>"

definition del_nth :: "nat \<Rightarrow> 'a list \<Rightarrow> 'a list" where
  "del_nth k xs = take k xs @ drop (Suc k) xs"

text \<open>One message of the pending list: a complete one is evaluated and removed, otherwise its
  queue is fed.\<close>

definition pass_step :: "mpu_env \<Rightarrow> nat \<Rightarrow> bool \<Rightarrow> mpu_mgr \<Rightarrow> mpu_mgr" where
  "pass_step env k bDeleted mg =
     (if length (mg_pending mg) \<le> k then mg\<lparr> mg_phase := (if bDeleted then PDispatch 0 True else PWait) \<rparr>
      else
        let m = mg_pending mg ! k; e = mg_parts mg ! ms_part m in
        if ms_bComplete m then
          if IfError (ms_Error m) then
            if mu_dwMaxRetries env \<le> pe_dwRetryNum e then mpu_fail (ms_Error m) mg
            else mg\<lparr> mg_parts := (mg_parts mg)[ms_part m := reset_part e], mg_pending := del_nth k (mg_pending mg),
                     mg_phase := PPass k True \<rparr>
          else mg\<lparr> mg_parts := (mg_parts mg)[ms_part m := e\<lparr> pe_bComplete := True \<rparr>], mg_pending := del_nth k (mg_pending mg),
                   mg_phase := PPass k True \<rparr>
        else
          let d = mu_seek env (pe_ullBaseOffset e + pe_ullCursor e) in
          if d \<noteq> 0 then mpu_fail (S3_ERROR_new d) mg else mg\<lparr> mg_phase := PFeed k bDeleted \<rparr>)"

text \<open>One turn of the loop that feeds a queue; the stream stands at the cursor of the part.\<close>

definition feed_step :: "mpu_env \<Rightarrow> nat \<Rightarrow> bool \<Rightarrow> mpu_mgr \<Rightarrow> mpu_mgr" where
  "feed_step env k bDeleted mg =
     (let i = ms_part (mg_pending mg ! k); e = mg_parts mg ! i in
      if length (pe_StreamData e) < queue_size env \<and> pe_ullPartSize e > pe_ullCursor e then
        case mu_read env (pe_ullBaseOffset e + pe_ullCursor e) (read_size env (pe_ullPartSize e - pe_ullCursor e)) of
          Inl d \<Rightarrow> mpu_fail (S3_ERROR_new d) mg
        | Inr bs \<Rightarrow> mg\<lparr> mg_parts := (mg_parts mg)[i :=
              push_data bs (pe_ullPartSize e \<le> pe_ullCursor e + of_nat (length bs)) e] \<rparr>
      else mg\<lparr> mg_phase := PPass (Suc k) bDeleted \<rparr>)"

definition part_list :: "S3_UPLOAD_PART_ENTRY list \<Rightarrow> (DWORD \<times> string) list" where
  "part_list parts = map (\<lambda>e. (pe_uPartNum e, pe_sETag e)) parts"

text \<open>The completion, with the error that \<open>S3MultiPartComplete\<close> returns.\<close>

definition complete_step :: "S3_ERROR \<Rightarrow> mpu_mgr \<Rightarrow> mpu_mgr" where
  "complete_step Error mg =
     (let mg1 = mg\<lparr> mg_log := mg_log mg @ [CComplete (part_list (mg_parts mg))] \<rparr> in
      if IfError Error then mpu_fail Error mg1 else mg1\<lparr> mg_phase := PDone \<rparr>)"

section \<open>The pool threads\<close>

text \<open>The sending thread removes the first buffer of its queue once it is written
  (\<open>SendRequestInternal\<close>).\<close>

definition pop_step :: "nat \<Rightarrow> mpu_mgr \<Rightarrow> mpu_mgr option" where
  "pop_step j mg =
     (if length (mg_pending mg) \<le> j then None
      else
        let m = mg_pending mg ! j; e = mg_parts mg ! ms_part m in
        if ms_bComplete m \<or> ms_last m then None
        else case pe_StreamData e of
          [] \<Rightarrow> None
        | (bs, l) # q \<Rightarrow> Some (mg\<lparr> mg_parts := (mg_parts mg)[ms_part m := e\<lparr> pe_StreamData := q \<rparr>],
            mg_pending := (mg_pending mg)[j := m\<lparr> ms_sent := ms_sent m @ bs, ms_last := l \<rparr>] \<rparr>))"

text \<open>\<open>DoProcess\<close> ends with the error and the ETag of \<open>S3MultiPartUpload\<close>. A request is answered
  without error only after the entry with \<open>bLast\<close> was sent: the loop over the queue ends there.\<close>

definition reply_step :: "nat \<Rightarrow> S3_ERROR \<times> string \<Rightarrow> mpu_mgr \<Rightarrow> mpu_mgr option" where
  "reply_step j r mg =
     (if length (mg_pending mg) \<le> j then None
      else
        let m = mg_pending mg ! j; e = mg_parts mg ! ms_part m in
        if ms_bComplete m \<or> (\<not> IfError (fst r) \<and> \<not> ms_last m) then None
        else Some (mg\<lparr> mg_parts := (mg_parts mg)[ms_part m := e\<lparr> pe_sETag := snd r \<rparr>],
          mg_pending := (mg_pending mg)[j := m\<lparr> ms_Error := fst r, ms_bComplete := True \<rparr>],
          mg_log := mg_log mg @ [CUpload (pe_uPartNum e) (pe_Checksum e) (ms_sent m) (snd r)] \<rparr>))"

section \<open>The whole upload\<close>

text \<open>The steps: a turn of the manager with the queue length and the abort flag it sees (and the
  answer to the completion), a pop, the answer to an upload.\<close>

datatype mpu_label = LManager DWORD bool mp_reply S3_MPU_COMPLETE_INFO | LPop nat | LReply nat mp_reply

fun mpu_step :: "'w mp_env \<Rightarrow> mpu_env \<Rightarrow> mpu_label \<Rightarrow> mpu_mgr \<Rightarrow> mpu_mgr option" where
  "mpu_step menv env (LManager cnt bAbort (e, data, hdrs) info) mg =
     (case mg_phase mg of
        PDispatch k bEmpty \<Rightarrow> dispatch_step env cnt bAbort k bEmpty mg
      | PWait \<Rightarrow> Some (wait_step bAbort mg)
      | PPass k bDeleted \<Rightarrow> Some (pass_step env k bDeleted mg)
      | PFeed k bDeleted \<Rightarrow> Some (feed_step env k bDeleted mg)
      | PComplete \<Rightarrow> Some (complete_step (fst (complete_result menv (SetError e) data info)) mg)
      | PDone \<Rightarrow> None
      | PFailed _ \<Rightarrow> None)"
| "mpu_step menv env (LPop j) mg = pop_step j mg"
| "mpu_step menv env (LReply j reply) mg = reply_step j (upload_result menv None reply) mg"

text \<open>The beginning: the upload is not done (with the error that is returned), or started. A
  division by zero has no result (\<open>None\<close>).\<close>

datatype mpu_start = NotDone S3_ERROR | Started S3_UPLOAD_PART_INFO mpu_mgr

definition mpu_begin ::
  "'w mp_env \<Rightarrow> mpu_env \<Rightarrow> DWORD + ULONGLONG \<Rightarrow> DWORD \<Rightarrow> string \<Rightarrow> (string \<times> string) list \<Rightarrow> S3_UPLOAD_PART_INFO \<Rightarrow> 'w
   \<Rightarrow> (mpu_start \<times> 'w) option" where
  "mpu_begin menv env stat dwPartSize pszECSPath MDList info0 w =
     (case stat of
        Inl d \<Rightarrow> Some (NotDone (S3_ERROR_new d), w)
      | Inr cbSize \<Rightarrow>
          (case part_length cbSize dwPartSize of
             Inl _ \<Rightarrow> None
           | Inr None \<Rightarrow> Some (NotDone (S3_ERROR_new 0), w)
           | Inr (Some len) \<Rightarrow>
               (case create_parts cbSize len 0 0 [] of
                  None \<Rightarrow> None
                | Some parts \<Rightarrow>
                    if length parts \<le> 1 then Some (NotDone (S3_ERROR_new 0), w)
                    else if mu_dwMaxThreads env = 0 then Some (NotDone (S3_ERROR_new 87), w)
                    else
                      let ((Error, info), w1) = S3MultiPartInitiate menv pszECSPath info0 MDList w in
                      if IfError Error then Some (NotDone Error, w1)
                      else Some (Started info \<lparr> mg_parts = parts, mg_pending = [], mg_phase = PDispatch 0 True,
                                                mg_log = [] \<rparr>, w1))))"

inductive mpu_run :: "'w mp_env \<Rightarrow> mpu_env \<Rightarrow> mpu_mgr \<Rightarrow> mpu_mgr \<Rightarrow> bool" for menv env mg where
  mpu_refl: "mpu_run menv env mg mg"
| mpu_next: "mpu_run menv env mg mg1 \<Longrightarrow> mpu_step menv env l mg1 = Some mg2 \<Longrightarrow> mpu_run menv env mg mg2"

section \<open>The part list\<close>

text \<open>The bytes of the file that a part stands for.\<close>

definition part_bytes :: "BYTE list \<Rightarrow> S3_UPLOAD_PART_ENTRY \<Rightarrow> BYTE list" where
  "part_bytes F e = take (unat (pe_ullPartSize e)) (drop (unat (pe_ullBaseOffset e)) F)"

lemma unat_diff_le: "unat y \<le> unat x \<Longrightarrow> unat (x - y :: 'a::len word) = unat x - unat y"
  by (simp add: word_le_nat_alt unat_sub)

lemma unat_plus_le: "unat (x :: 'a::len word) + unat y \<le> unat (z :: 'a::len word) \<Longrightarrow> unat (x + y) = unat x + unat y"
  by (rule unat_add_no_wrap, erule order.strict_trans1, rule unat_bound)

lemma new_part_simps:
  assumes "unat off \<le> unat cb"
  shows "unat (pe_ullPartSize (new_part cb len off n)) = min (unat cb - unat off) (unat len)"
    and "pe_ullBaseOffset (new_part cb len off n) = off" "pe_uPartNum (new_part cb len off n) = n"
  using assms by (auto simp: new_part_def word_less_nat_alt unat_diff_le)

text \<open>An entry as it is created: not yet in process.\<close>

definition fresh_part :: "S3_UPLOAD_PART_ENTRY \<Rightarrow> bool" where
  "fresh_part e \<longleftrightarrow> \<not> pe_bInProcess e \<and> \<not> pe_bComplete e \<and> pe_dwRetryNum e = 0 \<and> pe_ullCursor e = 0"

definition parts_from :: "ULONGLONG \<Rightarrow> ULONGLONG \<Rightarrow> ULONGLONG \<Rightarrow> nat \<Rightarrow> S3_UPLOAD_PART_ENTRY list \<Rightarrow> bool" where
  "parts_from cb len off n ps \<longleftrightarrow>
     (\<forall>F. length F = unat cb \<longrightarrow> concat (map (part_bytes F) ps) = drop (unat off) F)
   \<and> map (\<lambda>e. unat (pe_uPartNum e)) ps = [n + 1..<n + 1 + length ps]
   \<and> length ps = (unat cb - unat off + unat len - 1) div unat len
   \<and> list_all (\<lambda>e. unat (pe_ullPartSize e) = unat len) (butlast ps)
   \<and> list_all (\<lambda>e. unat (pe_ullBaseOffset e) + unat (pe_ullPartSize e) \<le> unat cb \<and> 0 < unat (pe_ullPartSize e)
        \<and> unat (pe_ullPartSize e) \<le> unat len \<and> fresh_part e) ps"

lemma count_step: "0 < l \<Longrightarrow> l \<le> d \<Longrightarrow> (d + l - 1) div l = Suc ((d - l + l - 1) div (l::nat))"
  using le_div_geq [of l "d + l - 1"] by (simp add: algebra_simps)

lemma parts_from_Cons:
  assumes off: "unat off < unat cb" and len: "0 < unat len" and n: "n + 1 < 4294967296"
    and p: "p = new_part cb len off (of_nat (n + 1))"
    and ps: "parts_from cb len (off + pe_ullPartSize p) (n + 1) ps"
  shows "parts_from cb len off n (p # ps)"
proof -
  let ?s = "unat (pe_ullPartSize p)"
  have s: "?s = min (unat cb - unat off) (unat len)" and b: "pe_ullBaseOffset p = off" "unat (pe_uPartNum p) = n + 1"
    using off n unfolding p by (simp_all add: new_part_simps unat_of_nat32 del: of_nat_add of_nat_Suc)
  have o: "unat (off + pe_ullPartSize p) = unat off + ?s"
    using off by (intro unat_plus_le [where z = cb]) (simp add: s)
  have f: "fresh_part p" by (simp add: p new_part_def fresh_part_def)
  have cnt: "length (p # ps) = (unat cb - unat off + unat len - 1) div unat len"
    and bl: "list_all (\<lambda>e. unat (pe_ullPartSize e) = unat len) (butlast (p # ps))"
  proof -
    have l: "length ps = (unat cb - (unat off + ?s) + unat len - 1) div unat len"
      using ps o by (simp add: parts_from_def)
    have "length (p # ps) = (unat cb - unat off + unat len - 1) div unat len
      \<and> (ps \<noteq> [] \<longrightarrow> ?s = unat len)"
    proof (cases "unat len \<le> unat cb - unat off")
      case True
      then show ?thesis using l s len off count_step [of "unat len" "unat cb - unat off"] by simp
    next
      case False
      then have "length ps = 0" using l s len off by simp
      moreover have "(unat cb - unat off + unat len - 1) div unat len = 1"
        using False len off by (simp add: le_div_geq)
      ultimately show ?thesis by simp
    qed
    then show "length (p # ps) = (unat cb - unat off + unat len - 1) div unat len"
      and "list_all (\<lambda>e. unat (pe_ullPartSize e) = unat len) (butlast (p # ps))"
      using ps by (auto simp: parts_from_def)
  qed
  have c: "concat (map (part_bytes F) (p # ps)) = drop (unat off) F" if F: "length F = unat cb" for F
  proof -
    have "concat (map (part_bytes F) ps) = drop (unat off + ?s) F" using ps F o by (simp add: parts_from_def)
    moreover have "part_bytes F p = take ?s (drop (unat off) F)" by (simp add: part_bytes_def b)
    ultimately show ?thesis using append_take_drop_id [of ?s "drop (unat off) F"] by (simp add: add.commute)
  qed
  have nums: "map (\<lambda>e. unat (pe_uPartNum e)) (p # ps) = [n + 1..<n + 1 + length (p # ps)]"
    using ps b by (simp add: parts_from_def upt_conv_Cons)
  have each: "list_all (\<lambda>e. unat (pe_ullBaseOffset e) + unat (pe_ullPartSize e) \<le> unat cb \<and> 0 < unat (pe_ullPartSize e)
        \<and> unat (pe_ullPartSize e) \<le> unat len \<and> fresh_part e) (p # ps)"
    using ps off len by (simp add: parts_from_def b f s)
  show ?thesis
    unfolding parts_from_def using c nums cnt bl each by blast
qed

lemma create_parts_from:
  assumes "unat off \<le> unat cb" "0 < unat len" "n + (unat cb - unat off + unat len - 1) div unat len + 1 < 4294967296"
  shows "\<exists>ps. create_parts cb len off (of_nat n) acc = Some (acc @ ps) \<and> parts_from cb len off n ps"
  using assms
proof (induction "unat cb - unat off" arbitrary: off n acc rule: less_induct)
  case less
  show ?case
  proof (cases "unat cb \<le> unat off")
    case True
    then have "create_parts cb len off (of_nat n) acc = Some (acc @ [])"
      by (subst create_parts.simps) (simp add: word_le_nat_alt)
    moreover have "parts_from cb len off n []" using True less.prems by (simp add: parts_from_def)
    ultimately show ?thesis by blast
  next
    case False
    define p where "p = new_part cb len off (of_nat (n + 1))"
    have s: "unat (pe_ullPartSize p) = min (unat cb - unat off) (unat len)"
      unfolding p_def using less.prems by (simp add: new_part_simps)
    have o: "unat (off + pe_ullPartSize p) = unat off + unat (pe_ullPartSize p)"
      using less.prems by (intro unat_plus_le [where z = cb]) (simp add: s)
    have "Suc ((unat cb - unat (off + pe_ullPartSize p) + unat len - 1) div unat len)
        = (unat cb - unat off + unat len - 1) div unat len"
    proof (cases "unat len \<le> unat cb - unat off")
      case True
      then show ?thesis using less.prems count_step [of "unat len" "unat cb - unat off"] by (simp add: o s)
    next
      case F: False
      then have "(unat cb - unat off + unat len - 1) div unat len = 1"
        using less.prems False by (simp add: le_div_geq)
      then show ?thesis using F less.prems by (simp add: o s)
    qed
    then have n': "n + 1 + (unat cb - unat (off + pe_ullPartSize p) + unat len - 1) div unat len + 1 < 4294967296"
      using less.prems by linarith
    have small: "unat cb - unat (off + pe_ullPartSize p) < unat cb - unat off"
      and inside: "unat (off + pe_ullPartSize p) \<le> unat cb"
      using less.prems False by (simp_all add: o s)
    obtain ps where ps: "create_parts cb len (off + pe_ullPartSize p) (of_nat (n + 1)) (acc @ [p]) = Some ((acc @ [p]) @ ps)"
        "parts_from cb len (off + pe_ullPartSize p) (n + 1) ps"
      using less.hyps [OF small inside less.prems(2) n', of "acc @ [p]"] by blast
    have "create_parts cb len off (of_nat n) acc = Some (acc @ p # ps)"
      using False ps(1) by (subst create_parts.simps) (simp add: word_le_nat_alt p_def Let_def add.commute)
    moreover have "parts_from cb len off n (p # ps)"
      using False less.prems n' by (intro parts_from_Cons [OF _ _ _ p_def ps(2)]) auto
    ultimately show ?thesis by blast
  qed
qed

lemma part_length_bounds:
  assumes "part_length cb d = Inr (Some len)"
  shows "5 * 0x100000 \<le> unat len" and "unat cb div unat len \<le> 1000"
proof -
  define len0 where "len0 = ALIGN_ANY (MEGABYTES (ucast d)) 0x10000"
  have l: "len0 \<noteq> 0" "len = (if cb div len0 > 1000 then cb div 999 else len0)" "\<not> len < 0x500000"
    using assms by (auto simp: part_length_def Let_def len0_def dwMaxParts_def MEGABYTES_def split: if_splits)
  show ge: "5 * 0x100000 \<le> unat len" using l(3) by (simp add: word_less_nat_alt)
  show "unat cb div unat len \<le> 1000"
  proof (cases "cb div len0 > 1000")
    case False
    then show ?thesis using l(2) by (simp add: word_less_nat_alt unat_div)
  next
    case True
    then have q: "unat len = unat cb div 999" using l(2) by (simp add: unat_div)
    have "unat cb = 999 * unat len + unat cb mod 999" unfolding q by (simp add: mult.commute)
    moreover have "unat cb mod 999 < 999" by simp
    ultimately have "unat cb < 1001 * unat len" using ge by linarith
    then have "unat cb div unat len < 1001" by (simp add: less_mult_imp_div_less)
    then show ?thesis by simp
  qed
qed

section \<open>One part\<close>

text \<open>What a stream promises: a read gives bytes of the file from the offset, at most as many as
  were asked for; before the end of the file it gives at least one.\<close>

definition stream_reads :: "mpu_env \<Rightarrow> BYTE list \<Rightarrow> bool" where
  "stream_reads env F \<longleftrightarrow> (\<forall>off n bs. mu_read env off n = Inr bs \<longrightarrow>
     bs = take (length bs) (drop (unat off) F) \<and> length bs \<le> unat n)"

definition stream_moves :: "mpu_env \<Rightarrow> BYTE list \<Rightarrow> bool" where
  "stream_moves env F \<longleftrightarrow> (\<forall>off n bs. mu_read env off n = Inr bs \<longrightarrow> unat off < length F \<longrightarrow> 0 < n \<longrightarrow> bs \<noteq> [])"

lemma stream_readsD:
  assumes "stream_reads env F" "mu_read env off n = Inr bs"
  shows "bs = take (length bs) (drop (unat off) F)" "length bs \<le> unat n"
  using assms unfolding stream_reads_def by blast+

lemma unat_up [simp]: "unat (ucast (x :: DWORD) :: ULONGLONG) = unat x"
  using unat_bound32 [of x] by (simp add: unsigned_ucast_eq take_bit_nat_eq_self)

lemma unat_down: "unat (x :: ULONGLONG) < 4294967296 \<Longrightarrow> unat (ucast x :: DWORD) = unat x"
  by (simp add: unsigned_ucast_eq take_bit_nat_eq_self)

lemma read_size_le: "unat (read_size env rest) \<le> unat rest"
proof (cases "ucast (mu_dwBufSize env) > rest")
  case True
  then have "unat rest < 4294967296"
    using unat_bound32 [of "mu_dwBufSize env"] by (simp add: word_less_nat_alt)
  then show ?thesis using True by (simp add: read_size_def unat_down)
next
  case False
  then have "unat (ucast (mu_dwBufSize env) :: ULONGLONG) \<le> unat rest"
    unfolding word_le_nat_alt [symmetric] by simp
  then show ?thesis using False by (simp add: read_size_def)
qed

lemma read_size_pos: "0 < rest \<Longrightarrow> 0 < mu_dwBufSize env \<Longrightarrow> 0 < read_size env rest"
proof -
  assume r: "0 < rest" "0 < mu_dwBufSize env"
  show "0 < read_size env rest"
  proof (cases "ucast (mu_dwBufSize env) > rest")
    case True
    then have "unat rest < 4294967296"
      using unat_bound32 [of "mu_dwBufSize env"] by (simp add: word_less_nat_alt)
    then show ?thesis using True r by (simp add: read_size_def word_less_nat_alt unat_down)
  qed (simp add: read_size_def r)
qed

lemma unat_of_nat64: "n \<le> unat (x :: ULONGLONG) \<Longrightarrow> unat (of_nat n :: ULONGLONG) = n"
  using unat_bound64 [of x] by (simp add: unat_of_nat take_bit_nat_eq_self)

lemma take_extend:
  assumes "bs = take (length bs) (drop (b + c) F)" "c + length bs \<le> s"
  shows "take c (take s (drop b F)) @ bs = take (c + length bs) (take s (drop b F))"
proof -
  have "take (c + length bs) (drop b F) = take c (drop b F) @ take (length bs) (drop c (drop b F))"
    by (rule take_add)
  also have "\<dots> = take c (drop b F) @ bs" using assms(1) by (simp add: add.commute)
  finally show ?thesis using assms(2) by (simp add: min_absorb1)
qed

text \<open>What was taken from the queue and what is in it is the part up to the cursor; the entry with
  \<open>bLast\<close> ends the part.\<close>

definition part_fed :: "BYTE list \<Rightarrow> S3_UPLOAD_PART_ENTRY \<Rightarrow> BYTE list \<Rightarrow> bool \<Rightarrow> bool" where
  "part_fed F e sent fin \<longleftrightarrow>
     unat (pe_ullCursor e) \<le> unat (pe_ullPartSize e)
   \<and> sent @ concat (map fst (pe_StreamData e)) = take (unat (pe_ullCursor e)) (part_bytes F e)
   \<and> (fin \<longrightarrow> pe_StreamData e = [] \<and> pe_ullCursor e = pe_ullPartSize e)
   \<and> (\<forall>xs bs ys. pe_StreamData e = xs @ (bs, True) # ys \<longrightarrow> ys = [] \<and> pe_ullCursor e = pe_ullPartSize e)"

definition in_file :: "BYTE list \<Rightarrow> S3_UPLOAD_PART_ENTRY \<Rightarrow> bool" where
  "in_file F e \<longleftrightarrow> length F < 18446744073709551616 \<and> unat (pe_ullBaseOffset e) + unat (pe_ullPartSize e) \<le> length F"

lemma unat_position:
  assumes "in_file F e" "unat c \<le> unat (pe_ullPartSize e)"
  shows "unat (pe_ullBaseOffset e + c) = unat (pe_ullBaseOffset e) + unat c"
  using assms by (intro unat_add_no_wrap) (simp add: in_file_def)

lemma length_part_bytes: "in_file F e \<Longrightarrow> length (part_bytes F e) = unat (pe_ullPartSize e)"
  unfolding in_file_def part_bytes_def length_take length_drop by linarith

lemma part_fed_push:
  assumes fed: "part_fed F e sent fin" and inf: "in_file F e" and open_part: "pe_ullCursor e \<noteq> pe_ullPartSize e"
    and bs: "bs = take (length bs) (drop (unat (pe_ullBaseOffset e + pe_ullCursor e)) F)"
    and le: "length bs \<le> unat (pe_ullPartSize e) - unat (pe_ullCursor e)"
    and l: "l \<Longrightarrow> unat (pe_ullCursor e) + length bs = unat (pe_ullPartSize e)"
  shows "part_fed F (push_data bs l e) sent fin"
    and "unat (pe_ullCursor (push_data bs l e)) = unat (pe_ullCursor e) + length bs"
proof -
  have c: "unat (pe_ullCursor e) \<le> unat (pe_ullPartSize e)" using fed by (simp add: part_fed_def)
  have n: "unat (of_nat (length bs) :: ULONGLONG) = length bs" using le by (intro unat_of_nat64 [of _ "pe_ullPartSize e"]) simp
  have c': "unat (pe_ullCursor e + of_nat (length bs)) = unat (pe_ullCursor e) + length bs"
    using le c by (subst unat_plus_le [where z = "pe_ullPartSize e"]) (simp_all add: n)
  then show "unat (pe_ullCursor (push_data bs l e)) = unat (pe_ullCursor e) + length bs" by (simp add: push_data_def)
  have nl: "\<not> fin" using fed open_part by (auto simp: part_fed_def)
  have s: "part_bytes F (push_data bs l e) = part_bytes F e" by (simp add: part_bytes_def push_data_def)
  have bs': "bs = take (length bs) (drop (unat (pe_ullBaseOffset e) + unat (pe_ullCursor e)) F)"
    using bs unat_position [OF inf c] by simp
  have t: "sent @ concat (map fst (pe_StreamData e)) @ bs = take (unat (pe_ullCursor e) + length bs) (part_bytes F e)"
    using fed take_extend [OF bs', of "unat (pe_ullPartSize e)"] le c
    unfolding part_fed_def part_bytes_def append_assoc [symmetric] by simp
  have q: "ys = [] \<and> pe_ullCursor e + of_nat (length bs) = pe_ullPartSize e"
    if h: "pe_StreamData e @ [(bs, l)] = xs @ (b, True) # ys" for xs b ys
  proof (cases ys rule: rev_cases)
    case Nil
    then have "l" using h by simp
    then show ?thesis using Nil l c' by (simp add: word_unat_eq_iff)
  next
    case (snoc zs z)
    then have "pe_StreamData e = xs @ (b, True) # zs" using h by simp
    then show ?thesis using fed open_part unfolding part_fed_def by blast
  qed
  show "part_fed F (push_data bs l e) sent fin"
    using nl t q le c c' s unfolding part_fed_def by (simp add: push_data_def)
qed

text \<open>Reading changes only the queue and the cursor.\<close>

definition same_part :: "S3_UPLOAD_PART_ENTRY \<Rightarrow> S3_UPLOAD_PART_ENTRY \<Rightarrow> bool" where
  "same_part e e' \<longleftrightarrow> (\<exists>q c. e' = e\<lparr> pe_StreamData := q, pe_ullCursor := c \<rparr>)"

lemma same_part_refl [simp]: "same_part e e"
  unfolding same_part_def by (cases e) auto

lemma same_part_trans: "same_part e1 e2 \<Longrightarrow> same_part e2 e3 \<Longrightarrow> same_part e1 e3"
  unfolding same_part_def by (cases e1) auto

lemma same_part_push_self: "same_part e (push_data bs l e)"
  by (auto simp: same_part_def push_data_def)

lemma same_partD:
  assumes "same_part e e'"
  shows "pe_ullPartSize e' = pe_ullPartSize e" "pe_ullBaseOffset e' = pe_ullBaseOffset e" "part_bytes F e' = part_bytes F e"
    "pe_uPartNum e' = pe_uPartNum e" "pe_sETag e' = pe_sETag e" "pe_Checksum e' = pe_Checksum e"
    "pe_bInProcess e' = pe_bInProcess e" "pe_bComplete e' = pe_bComplete e" "pe_dwRetryNum e' = pe_dwRetryNum e"
  using assms by (auto simp: same_part_def part_bytes_def)

text \<open>The first reading, from a state in which it has read \<open>pos\<close> bytes of the part: the queue ends
  up holding what the cursor says, and the hashed bytes are the part.\<close>

definition prefill_at :: "mpu_env \<Rightarrow> BYTE list \<Rightarrow> ULONGLONG \<Rightarrow> ULONGLONG \<Rightarrow> nat \<Rightarrow> BYTE list \<Rightarrow> S3_UPLOAD_PART_ENTRY \<Rightarrow> bool" where
  "prefill_at env F off rest rec h e \<longleftrightarrow>
     in_file F e \<and> part_fed F e [] False \<and> unat rest \<le> unat (pe_ullPartSize e)
   \<and> unat off = unat (pe_ullBaseOffset e) + (unat (pe_ullPartSize e) - unat rest)
   \<and> (rec < queue_size env \<longrightarrow> unat (pe_ullCursor e) = unat (pe_ullPartSize e) - unat rest)
   \<and> (mu_bChecksum env \<longrightarrow> h = take (unat (pe_ullPartSize e) - unat rest) (part_bytes F e))"

lemma prefill_at_step:
  assumes env: "stream_reads env F" and at: "prefill_at env F off rest rec h e" and rest: "rest \<noteq> 0"
    and r: "mu_read env off (read_size env rest) = Inr bs"
    and h': "h' = (if mu_bChecksum env then h @ bs else h)"
    and e': "e' = (if rec < queue_size env then push_data bs (rest = of_nat (length bs)) e else e)"
    and rec': "rec' = (if rec < queue_size env then Suc rec else rec)"
  shows "prefill_at env F (off + of_nat (length bs)) (rest - of_nat (length bs)) rec' h' e'"
    and "same_part e e'"
proof -
  have le: "length bs \<le> unat rest" using stream_readsD(2) [OF env r] read_size_le [of env rest] by simp
  have n: "unat (of_nat (length bs) :: ULONGLONG) = length bs" using le by (rule unat_of_nat64)
  have a: "in_file F e" "unat rest \<le> unat (pe_ullPartSize e)"
      "unat off = unat (pe_ullBaseOffset e) + (unat (pe_ullPartSize e) - unat rest)"
    using at by (simp_all add: prefill_at_def)
  have off': "unat (off + of_nat (length bs)) = unat off + length bs"
  proof -
    have "unat off + length bs < 18446744073709551616" using a le unfolding in_file_def by linarith
    then show ?thesis by (subst unat_add_no_wrap) (simp_all add: n)
  qed
  have rest': "unat (rest - of_nat (length bs)) = unat rest - length bs" using le n by (simp add: unat_diff_le)
  have data: "bs = take (length bs) (drop (unat off) F)" using stream_readsD(1) [OF env r] .
  have bs: "bs = take (length bs) (drop (unat (pe_ullBaseOffset e) + (unat (pe_ullPartSize e) - unat rest)) F)"
    using data a(3) by simp
  have hash: "mu_bChecksum env \<Longrightarrow> h @ bs = take (unat (pe_ullPartSize e) - (unat rest - length bs)) (part_bytes F e)"
    using take_extend [OF bs, of "unat (pe_ullPartSize e)"] a(2) le at by (simp add: prefill_at_def part_bytes_def)
  show "same_part e e'" by (simp add: e' same_part_push_self)
  show "prefill_at env F (off + of_nat (length bs)) (rest - of_nat (length bs)) rec' h' e'"
  proof (cases "rec < queue_size env")
    case False
    then show ?thesis using at off' rest' le hash a by (auto simp: prefill_at_def e' rec' h')
  next
    case True
    then have cur: "unat (pe_ullCursor e) = unat (pe_ullPartSize e) - unat rest" using at by (simp add: prefill_at_def)
    have nz: "0 < unat rest" using rest by (simp add: unat_gt_0)
    have op: "pe_ullCursor e \<noteq> pe_ullPartSize e" using cur nz a(2) by auto
    have pos: "unat (pe_ullBaseOffset e + pe_ullCursor e) = unat off" using unat_position [OF a(1), of "pe_ullCursor e"] cur a by simp
    have l: "unat (pe_ullCursor e) + length bs = unat (pe_ullPartSize e)" if "rest = of_nat (length bs)"
      using arg_cong [OF that, of unat] n cur a(2) by simp
    have fed: "part_fed F e [] False" using at by (simp add: prefill_at_def)
    have d: "bs = take (length bs) (drop (unat (pe_ullBaseOffset e + pe_ullCursor e)) F)" using data by (simp add: pos)
    have room: "length bs \<le> unat (pe_ullPartSize e) - unat (pe_ullCursor e)" using le cur a(2) by linarith
    have p: "part_fed F e' [] False" "unat (pe_ullCursor e') = unat (pe_ullCursor e) + length bs"
      using part_fed_push [OF fed a(1) op d room l] True unfolding e' by simp_all
    note same = same_partD [OF same_part_push_self [of e bs "rest = of_nat (length bs)"]]
    show ?thesis using p True same off' rest' le hash a cur by (auto simp: prefill_at_def e' rec' h' in_file_def)
  qed
qed

lemma prefill_correct:
  assumes "prefill env off rest rec h e = Some (Inr (h', e'))" "stream_reads env F" "prefill_at env F off rest rec h e"
  shows "part_fed F e' [] False \<and> same_part e e' \<and> (mu_bChecksum env \<longrightarrow> h' = part_bytes F e)"
proof -
  have "y = Inr (h', e') \<longrightarrow> stream_reads env F \<longrightarrow> prefill_at env F off rest rec h e \<longrightarrow>
      part_fed F e' [] False \<and> same_part e e' \<and> (mu_bChecksum env \<longrightarrow> h' = part_bytes F e)"
    if "prefill env off rest rec h e = Some y" for env off rest rec h e y
  proof (rule prefill.raw_induct [where P = "\<lambda>env off rest rec h e y. y = Inr (h', e') \<longrightarrow> stream_reads env F
      \<longrightarrow> prefill_at env F off rest rec h e
      \<longrightarrow> part_fed F e' [] False \<and> same_part e e' \<and> (mu_bChecksum env \<longrightarrow> h' = part_bytes F e)", OF _ that])
    fix pf env off rest rec h e y
    assume 1: "\<And>env off rest rec h e y. pf env off rest rec h e = Some y \<Longrightarrow> y = Inr (h', e') \<longrightarrow> stream_reads env F
      \<longrightarrow> prefill_at env F off rest rec h e
      \<longrightarrow> part_fed F e' [] False \<and> same_part e e' \<and> (mu_bChecksum env \<longrightarrow> h' = part_bytes F e)"
      and 2: "(if rest = 0 then Some (Inr (h, e))
        else case mu_read env off (read_size env rest) of
          Inl d \<Rightarrow> Some (Inl d)
        | Inr bs \<Rightarrow>
            let h' = (if mu_bChecksum env then h @ bs else h);
                e' = (if rec < queue_size env then push_data bs (rest = of_nat (length bs)) e else e);
                rec' = (if rec < queue_size env then Suc rec else rec) in
            if \<not> mu_bChecksum env \<and> queue_size env \<le> rec' then Some (Inr (h', e'))
            else pf env (off + of_nat (length bs)) (rest - of_nat (length bs)) rec' h' e') = Some y"
    show "y = Inr (h', e') \<longrightarrow> stream_reads env F \<longrightarrow> prefill_at env F off rest rec h e \<longrightarrow>
      part_fed F e' [] False \<and> same_part e e' \<and> (mu_bChecksum env \<longrightarrow> h' = part_bytes F e)"
    proof (intro impI)
      assume y: "y = Inr (h', e')" and env: "stream_reads env F" and at: "prefill_at env F off rest rec h e"
      show "part_fed F e' [] False \<and> same_part e e' \<and> (mu_bChecksum env \<longrightarrow> h' = part_bytes F e)"
      proof (cases "rest = 0")
        case True
        then have "h' = h" "e' = e" using 2 y by simp_all
        then show ?thesis using at True by (auto simp: prefill_at_def length_part_bytes)
      next
        case rest: False
        obtain bs where r: "mu_read env off (read_size env rest) = Inr bs"
          using 2 y rest by (cases "mu_read env off (read_size env rest)") auto
        define h1 where "h1 = (if mu_bChecksum env then h @ bs else h)"
        define e1 where "e1 = (if rec < queue_size env then push_data bs (rest = of_nat (length bs)) e else e)"
        define rec1 where "rec1 = (if rec < queue_size env then Suc rec else rec)"
        have at1: "prefill_at env F (off + of_nat (length bs)) (rest - of_nat (length bs)) rec1 h1 e1" and s1: "same_part e e1"
          using prefill_at_step [OF env at rest r h1_def e1_def rec1_def] by simp_all
        show ?thesis
        proof (cases "\<not> mu_bChecksum env \<and> queue_size env \<le> rec1")
          case True
          then have "e' = e1" using 2 y rest r by (simp add: e1_def rec1_def split: if_splits)
          then show ?thesis using True at1 s1 by (simp add: prefill_at_def)
        next
          case False
          then have "pf env (off + of_nat (length bs)) (rest - of_nat (length bs)) rec1 h1 e1 = Some y"
            using 2 rest r unfolding rec1_def h1_def e1_def by (simp only: Let_def sum.case if_False not_False_eq_True)
          then have "part_fed F e' [] False \<and> same_part e1 e' \<and> (mu_bChecksum env \<longrightarrow> h' = part_bytes F e1)"
            using 1 y env at1 by blast
          then show ?thesis using same_part_trans [OF s1] same_partD(3) [OF s1] by simp
        qed
      qed
    qed
  qed
  then show ?thesis using assms by blast
qed

text \<open>With a stream that moves, the first reading ends.\<close>

lemma prefill_returns:
  assumes env: "stream_reads env F" "stream_moves env F" "0 < mu_dwBufSize env" and "length F < 18446744073709551616"
    and "unat off + unat rest \<le> length F"
  shows "prefill env off rest rec h e \<noteq> None"
  using assms(5)
proof (induction "unat rest" arbitrary: off rest rec h e rule: less_induct)
  case less
  show ?case
  proof (cases "rest = 0")
    case True
    then show ?thesis by (simp add: prefill.simps)
  next
    case False
    show ?thesis
    proof (cases "mu_read env off (read_size env rest)")
      case (Inl d)
      then show ?thesis by (subst prefill.simps) (simp add: False)
    next
      case (Inr bs)
      have pos: "0 < unat rest" using False by (simp add: unat_gt_0)
      have "0 < read_size env rest" using False env(3) by (intro read_size_pos) (simp_all add: word_gt_0)
      then have "bs \<noteq> []" using env(2) Inr pos less.prems unfolding stream_moves_def by (metis add_gr_0 le_add1 less_le_trans less_add_same_cancel1)
      have le: "length bs \<le> unat rest" using stream_readsD(2) [OF env(1) Inr] read_size_le [of env rest] by simp
      have n: "unat (of_nat (length bs) :: ULONGLONG) = length bs" using le by (rule unat_of_nat64)
      have rest': "unat (rest - of_nat (length bs)) = unat rest - length bs" using le n by (simp add: unat_diff_le)
      have "unat off + length bs < 18446744073709551616" using less.prems le assms(4) by linarith
      then have off': "unat (off + of_nat (length bs)) = unat off + length bs" by (subst unat_add_no_wrap) (simp_all add: n)
      have "prefill env (off + of_nat (length bs)) (rest - of_nat (length bs)) r h1 e1 \<noteq> None" for r h1 e1
        using less.hyps [of "rest - of_nat (length bs)" "off + of_nat (length bs)"] less.prems le pos \<open>bs \<noteq> []\<close>
        by (simp add: rest' off')
      then show ?thesis by (subst prefill.simps) (simp add: False Inr Let_def)
    qed
  qed
qed

text \<open>The plan of the parts never changes.\<close>

definition plan :: "S3_UPLOAD_PART_ENTRY \<Rightarrow> DWORD \<times> ULONGLONG \<times> ULONGLONG" where
  "plan e = (pe_uPartNum e, pe_ullBaseOffset e, pe_ullPartSize e)"

lemma fill_part_correct:
  assumes "fill_part env e0 = Some (Inr e')" "stream_reads env F" "in_file F e0" "pe_ullCursor e0 = 0"
  shows "part_fed F e' [] False" "part_bytes F e' = part_bytes F e0" "in_file F e'" "pe_bInProcess e'"
    "pe_uPartNum e' = pe_uPartNum e0" "pe_bComplete e' = pe_bComplete e0" "pe_dwRetryNum e' = pe_dwRetryNum e0"
    "mu_bChecksum env \<Longrightarrow> pe_Checksum e' = mu_md5 env (part_bytes F e0)" "plan e' = plan e0"
proof -
  define e where "e = e0\<lparr> pe_bInProcess := True, pe_StreamData := [] \<rparr>"
  have f: "map_option (map_sum id (\<lambda>(h, e1). if mu_bChecksum env then e1\<lparr> pe_Checksum := mu_md5 env h \<rparr> else e1))
      (prefill env (pe_ullBaseOffset e) (pe_ullPartSize e) 0 [] e) = Some (Inr e')"
    using assms(1) unfolding fill_part_def e_def [symmetric] Let_def by (simp split: if_splits)
  then obtain z where p: "prefill env (pe_ullBaseOffset e) (pe_ullPartSize e) 0 [] e = Some z" by auto
  obtain h e1 where z: "z = Inr (h, e1)" using f p by (cases z) auto
  note p = p [unfolded z]
  have e': "e' = (if mu_bChecksum env then e1\<lparr> pe_Checksum := mu_md5 env h \<rparr> else e1)" using f p by simp
  have "prefill_at env F (pe_ullBaseOffset e) (pe_ullPartSize e) 0 [] e"
    using assms(3,4) by (simp add: prefill_at_def e_def in_file_def part_fed_def)
  note c = prefill_correct [OF p assms(2) this]
  have s: "part_bytes F e = part_bytes F e0" "in_file F e" using assms(3) by (simp_all add: e_def part_bytes_def in_file_def)
  note sp = same_partD [OF conjunct1 [OF conjunct2 [OF c]]]
  show "part_fed F e' [] False" using c by (simp add: e' part_fed_def part_bytes_def)
  show "part_bytes F e' = part_bytes F e0" using sp(3) s(1) by (simp add: e' part_bytes_def)
  show "in_file F e'" using s(2) sp by (simp add: e' in_file_def)
  show "pe_bInProcess e'" "pe_uPartNum e' = pe_uPartNum e0" "pe_bComplete e' = pe_bComplete e0"
    "pe_dwRetryNum e' = pe_dwRetryNum e0"
    using sp by (simp_all add: e' e_def)
  show "plan e' = plan e0" using sp by (simp add: e' e_def plan_def)
  show "mu_bChecksum env \<Longrightarrow> pe_Checksum e' = mu_md5 env (part_bytes F e0)" using c s(1) by (simp add: e')
qed

section \<open>The invariant\<close>

text \<open>The part was uploaded: the log has a request with the part's number, its checksum, the bytes
  of the file, and the ETag that the entry holds.\<close>

definition uploaded :: "BYTE list \<Rightarrow> mpu_call list \<Rightarrow> S3_UPLOAD_PART_ENTRY \<Rightarrow> bool" where
  "uploaded F lg e \<longleftrightarrow> pe_sETag e \<noteq> [] \<and> CUpload (pe_uPartNum e) (pe_Checksum e) (part_bytes F e) (pe_sETag e) \<in> set lg"

fun is_upload :: "DWORD \<Rightarrow> mpu_call \<Rightarrow> bool" where
  "is_upload n (CUpload m chk bs etag) = (m = n)"
| "is_upload n _ = False"

definition attempts :: "mpu_call list \<Rightarrow> DWORD \<Rightarrow> nat" where
  "attempts lg n = length (filter (is_upload n) lg)"

definition msg_ok :: "mpu_env \<Rightarrow> BYTE list \<Rightarrow> mpu_call list \<Rightarrow> S3_UPLOAD_PART_ENTRY \<Rightarrow> CMPUPoolMsg \<Rightarrow> bool" where
  "msg_ok env F lg e m \<longleftrightarrow> pe_bInProcess e \<and> \<not> pe_bComplete e
     \<and> (mu_bChecksum env \<longrightarrow> pe_Checksum e = mu_md5 env (part_bytes F e))
     \<and> (if ms_bComplete m then \<not> IfError (ms_Error m) \<longrightarrow> uploaded F lg e else part_fed F e (ms_sent m) (ms_last m))
     \<and> attempts lg (pe_uPartNum e) = unat (pe_dwRetryNum e) + (if ms_bComplete m then 1 else 0)"

definition resting_ok :: "mpu_env \<Rightarrow> BYTE list \<Rightarrow> mpu_call list \<Rightarrow> S3_UPLOAD_PART_ENTRY \<Rightarrow> bool" where
  "resting_ok env F lg e \<longleftrightarrow>
     (if pe_bComplete e then uploaded F lg e \<and> (mu_bChecksum env \<longrightarrow> pe_Checksum e = mu_md5 env (part_bytes F e))
        \<and> attempts lg (pe_uPartNum e) = unat (pe_dwRetryNum e) + 1
      else \<not> pe_bInProcess e \<and> pe_ullCursor e = 0 \<and> attempts lg (pe_uPartNum e) = unat (pe_dwRetryNum e))"

definition part_ok :: "mpu_env \<Rightarrow> BYTE list \<Rightarrow> mpu_call list \<Rightarrow> S3_UPLOAD_PART_ENTRY \<Rightarrow> CMPUPoolMsg option \<Rightarrow> bool" where
  "part_ok env F lg e mo \<longleftrightarrow> in_file F e \<and> pe_dwRetryNum e \<le> mu_dwMaxRetries env
     \<and> (case mo of None \<Rightarrow> resting_ok env F lg e | Some m \<Rightarrow> msg_ok env F lg e m)"

text \<open>The message of a part.\<close>

definition msg_of :: "CMPUPoolMsg list \<Rightarrow> nat \<Rightarrow> CMPUPoolMsg option" where
  "msg_of ms i = map_of (map (\<lambda>m. (ms_part m, m)) ms) i"

definition all_complete :: "S3_UPLOAD_PART_ENTRY list \<Rightarrow> bool" where
  "all_complete parts \<longleftrightarrow> list_all pe_bComplete parts"

fun final :: "mpu_phase \<Rightarrow> bool" where
  "final PDone = True"
| "final (PFailed E) = True"
| "final _ = False"

text \<open>What holds at the place where the manager is.\<close>

fun at_phase :: "mpu_phase \<Rightarrow> S3_UPLOAD_PART_ENTRY list \<Rightarrow> nat \<Rightarrow> mpu_call list \<Rightarrow> bool" where
  "at_phase (PDispatch k bEmpty) parts n lg = (bEmpty \<longrightarrow> list_all pe_bComplete (take k parts))"
| "at_phase (PFeed k bDeleted) parts n lg = (k < n)"
| "at_phase PComplete parts n lg = all_complete parts"
| "at_phase PDone parts n lg = (CComplete (part_list parts) \<in> set lg \<and> CAbort \<notin> set lg)"
| "at_phase (PFailed E) parts n lg = (CAbort \<in> set lg)"
| "at_phase _ parts n lg = True"

definition sent_final :: "mpu_call list \<Rightarrow> bool" where
  "sent_final lg \<longleftrightarrow> CAbort \<in> set lg \<or> (\<exists>L. CComplete L \<in> set lg)"

definition phase_ok :: "mpu_mgr \<Rightarrow> bool" where
  "phase_ok mg \<longleftrightarrow> at_phase (mg_phase mg) (mg_parts mg) (length (mg_pending mg)) (mg_log mg)
   \<and> (\<forall>L. CComplete L \<in> set (mg_log mg) \<longrightarrow> L = part_list (mg_parts mg) \<and> all_complete (mg_parts mg))
   \<and> (sent_final (mg_log mg) \<longrightarrow> final (mg_phase mg))"

definition mgr_ok :: "mpu_env \<Rightarrow> BYTE list \<Rightarrow> (DWORD \<times> ULONGLONG \<times> ULONGLONG) list \<Rightarrow> mpu_mgr \<Rightarrow> bool" where
  "mgr_ok env F K mg \<longleftrightarrow> map plan (mg_parts mg) = K \<and> distinct (map fst K)
     \<and> distinct (map ms_part (mg_pending mg)) \<and> (\<forall>m\<in>set (mg_pending mg). ms_part m < length (mg_parts mg))
     \<and> (\<forall>i<length (mg_parts mg). part_ok env F (mg_log mg) (mg_parts mg ! i) (msg_of (mg_pending mg) i))
     \<and> phase_ok mg"

lemma msg_of_nth:
  assumes "distinct (map ms_part ms)" "j < length ms"
  shows "msg_of ms (ms_part (ms ! j)) = Some (ms ! j)"
  using assms unfolding msg_of_def by (intro map_of_is_SomeI) (auto simp: comp_def)

lemma msg_of_snoc: "ms_part m \<notin> ms_part ` set ms \<Longrightarrow> msg_of (ms @ [m]) i = (if i = ms_part m then Some m else msg_of ms i)"
  unfolding msg_of_def by (induction ms) auto

lemma msg_of_None: "msg_of ms i = None \<longleftrightarrow> i \<notin> ms_part ` set ms"
  unfolding msg_of_def by (simp add: map_of_eq_None_iff image_image)

lemma msg_of_update:
  assumes "distinct (map ms_part ms)" "j < length ms" "ms_part m = ms_part (ms ! j)"
  shows "msg_of (ms[j := m]) i = (if i = ms_part m then Some m else msg_of ms i)"
  using assms unfolding msg_of_def
proof (induction ms arbitrary: j)
  case (Cons a ms)
  then show ?case by (cases j) auto
qed simp

lemma msg_of_del:
  assumes "distinct (map ms_part ms)" "j < length ms"
  shows "msg_of (del_nth j ms) i = (if i = ms_part (ms ! j) then None else msg_of ms i)"
  using assms unfolding msg_of_def del_nth_def
proof (induction ms arbitrary: j)
  case (Cons a ms)
  show ?case
  proof (cases j)
    case 0
    then show ?thesis using Cons.prems by (auto simp: map_of_eq_None_iff image_image)
  next
    case (Suc j')
    then have "ms_part a \<noteq> ms_part (ms ! j')" using Cons.prems by auto
    then show ?thesis using Cons.IH [of j'] Cons.prems Suc by (auto simp del: map_append map_of_append)
  qed
qed simp

lemma map_part_update: "ms_part m = ms_part (ms ! j) \<Longrightarrow> map ms_part (ms[j := m]) = map ms_part ms"
  by (cases "j < length ms") (simp_all add: map_update list_update_same_conv list_update_beyond)

lemma del_nth_distinct: "distinct (map f ms) \<Longrightarrow> distinct (map f (del_nth j ms))"
  unfolding del_nth_def by (auto simp: take_map [symmetric] drop_map [symmetric] dest: set_take_disj_set_drop_if_distinct [where i = j and j = "Suc j"])

lemma del_nth_subset: "set (del_nth j ms) \<subseteq> set ms"
  unfolding del_nth_def using set_take_subset set_drop_subset by fastforce

section \<open>The invariant holds in every state\<close>

lemma uploaded_mono: "uploaded F lg e \<Longrightarrow> uploaded F (lg @ l2) e"
  by (simp add: uploaded_def)

lemma part_ok_log:
  assumes "part_ok env F lg e mo" "attempts l2 (pe_uPartNum e) = 0"
  shows "part_ok env F (lg @ l2) e mo"
  using assms by (auto simp: part_ok_def resting_ok_def msg_ok_def attempts_def uploaded_def split: option.splits if_splits)

lemma attempts_simps [simp]:
  "attempts [] n = 0" "attempts [CAbort] n = 0" "attempts [CComplete L] n = 0"
  "attempts [CUpload k chk bs etag] n = (if k = n then 1 else 0)"
  "attempts (a @ b) n = attempts a n + attempts b n"
  by (simp_all add: attempts_def)

lemma mgr_okD:
  assumes "mgr_ok env F K mg"
  shows "map plan (mg_parts mg) = K" "distinct (map fst K)" "distinct (map ms_part (mg_pending mg))"
    "\<And>j. j < length (mg_pending mg) \<Longrightarrow> ms_part (mg_pending mg ! j) < length (mg_parts mg)"
    "\<And>i. i < length (mg_parts mg) \<Longrightarrow> part_ok env F (mg_log mg) (mg_parts mg ! i) (msg_of (mg_pending mg) i)"
    "phase_ok mg"
  using assms by (auto simp: mgr_ok_def)

lemma mgr_ok_msg:
  assumes "mgr_ok env F K mg" "j < length (mg_pending mg)" "m = mg_pending mg ! j" "e = mg_parts mg ! ms_part m"
  shows "in_file F e" "pe_dwRetryNum e \<le> mu_dwMaxRetries env" "msg_ok env F (mg_log mg) e m" "ms_part m < length (mg_parts mg)"
  using mgr_okD(5) [OF assms(1) mgr_okD(4) [OF assms(1,2)]] msg_of_nth [OF mgr_okD(3) [OF assms(1)] assms(2)]
    mgr_okD(4) [OF assms(1,2)] assms(3,4)
  by (simp_all add: part_ok_def)

text \<open>The numbers of different parts differ.\<close>

lemma part_numbers_differ:
  assumes "mgr_ok env F K mg" "i < length (mg_parts mg)" "i' < length (mg_parts mg)" "i \<noteq> i'"
  shows "pe_uPartNum (mg_parts mg ! i) \<noteq> pe_uPartNum (mg_parts mg ! i')"
proof -
  have "map fst K = map pe_uPartNum (mg_parts mg)"
    using mgr_okD(1) [OF assms(1)] by (auto simp: plan_def comp_def)
  then have "distinct (map pe_uPartNum (mg_parts mg))" using mgr_okD(2) [OF assms(1)] by simp
  then show ?thesis using assms(2-4) by (auto simp: distinct_conv_nth)
qed

text \<open>A step that changes one part, its message and the end of the log.\<close>

lemma mgr_ok_change:
  assumes ok: "mgr_ok env F K mg" and i: "i < length (mg_parts mg)"
    and e: "plan e = plan (mg_parts mg ! i)" "part_ok env F (mg_log mg @ l2) e mo"
    and l2: "\<And>n. n \<noteq> pe_uPartNum (mg_parts mg ! i) \<Longrightarrow> attempts l2 n = 0"
    and ms: "distinct (map ms_part ms)" "\<And>m. m \<in> set ms \<Longrightarrow> ms_part m < length (mg_parts mg)"
      "\<And>k. msg_of ms k = (if k = i then mo else msg_of (mg_pending mg) k)"
    and ph: "phase_ok \<lparr> mg_parts = (mg_parts mg)[i := e], mg_pending = ms, mg_phase = p, mg_log = mg_log mg @ l2 \<rparr>"
  shows "mgr_ok env F K \<lparr> mg_parts = (mg_parts mg)[i := e], mg_pending = ms, mg_phase = p, mg_log = mg_log mg @ l2 \<rparr>"
proof -
  have "map plan ((mg_parts mg)[i := e]) = K"
    using mgr_okD(1) [OF ok] i e(1) by (metis list_update_id map_update nth_map)
  moreover have "part_ok env F (mg_log mg @ l2) ((mg_parts mg)[i := e] ! k) (msg_of ms k)" if "k < length (mg_parts mg)" for k
  proof (cases "k = i")
    case True
    then show ?thesis using e(2) i ms(3) [of k] by simp
  next
    case False
    then show ?thesis
      using mgr_okD(5) [OF ok that] ms(3) [of k] l2 [OF part_numbers_differ [OF ok that i False]]
      by (simp add: part_ok_log)
  qed
  ultimately show ?thesis using mgr_okD(2) [OF ok] ms(1,2) ph by (simp add: mgr_ok_def)
qed

lemma mgr_ok_phase:
  assumes "mgr_ok env F K mg" "phase_ok (mg\<lparr> mg_phase := p, mg_log := mg_log mg @ l2 \<rparr>)" "\<And>n. attempts l2 n = 0"
  shows "mgr_ok env F K (mg\<lparr> mg_phase := p, mg_log := mg_log mg @ l2 \<rparr>)"
  using assms part_ok_log by (auto simp: mgr_ok_def)

lemma mgr_ok_phase0:
  assumes "mgr_ok env F K mg" "phase_ok (mg\<lparr> mg_phase := p \<rparr>)"
  shows "mgr_ok env F K (mg\<lparr> mg_phase := p \<rparr>)"
  using assms by (simp add: mgr_ok_def)

text \<open>While the manager is not at the end, neither the completion nor the abort was sent.\<close>

lemma running:
  assumes "mgr_ok env F K mg" "\<not> final (mg_phase mg)"
  shows "\<not> sent_final (mg_log mg)"
  using mgr_okD(6) [OF assms(1)] assms(2) by (auto simp: phase_ok_def)

lemma phase_ok_running:
  assumes "\<not> sent_final (mg_log mg)" "at_phase (mg_phase mg) (mg_parts mg) (length (mg_pending mg)) (mg_log mg)"
  shows "phase_ok mg"
  using assms by (auto simp: phase_ok_def sent_final_def)

lemma mpu_fail_ok:
  assumes "mgr_ok env F K mg" "\<not> sent_final (mg_log mg)"
  shows "mgr_ok env F K (mpu_fail E mg)"
  unfolding mpu_fail_def using assms(2)
  by (intro mgr_ok_phase [OF assms(1)]) (auto simp: phase_ok_def sent_final_def)

lemma mgr_ok_goto:
  assumes "mgr_ok env F K mg" "\<not> sent_final (mg_log mg)" "at_phase p (mg_parts mg) (length (mg_pending mg)) (mg_log mg)"
  shows "mgr_ok env F K (mg\<lparr> mg_phase := p \<rparr>)"
  using assms by (intro mgr_ok_phase0 phase_ok_running) simp_all

text \<open>A step of the manager that changes one part and its message, without a request.\<close>

lemma mgr_ok_manager:
  assumes ok: "mgr_ok env F K mg" and i: "i < length (mg_parts mg)" and r: "\<not> sent_final (mg_log mg)"
    and e: "plan e = plan (mg_parts mg ! i)" "part_ok env F (mg_log mg) e mo"
    and ms: "distinct (map ms_part ms)" "\<And>m. m \<in> set ms \<Longrightarrow> ms_part m < length (mg_parts mg)"
      "\<And>k. msg_of ms k = (if k = i then mo else msg_of (mg_pending mg) k)"
    and p: "at_phase p ((mg_parts mg)[i := e]) (length ms) (mg_log mg)"
  shows "mgr_ok env F K (mg\<lparr> mg_parts := (mg_parts mg)[i := e], mg_pending := ms, mg_phase := p \<rparr>)"
proof -
  have mg: "mg\<lparr> mg_parts := (mg_parts mg)[i := e], mg_pending := ms, mg_phase := p \<rparr>
      = \<lparr> mg_parts = (mg_parts mg)[i := e], mg_pending = ms, mg_phase = p, mg_log = mg_log mg @ [] \<rparr>"
    by (cases mg) simp
  show ?thesis
    unfolding mg using e(2) r p
    by (intro mgr_ok_change [OF ok i e(1) _ _ ms]) (auto intro: phase_ok_running)
qed

lemma take_update_same:
  assumes "i < length xs" "f y = f (xs ! i)"
  shows "list_all f (take k (xs[i := y])) = list_all f (take k xs)"
proof -
  have "map f (xs[i := y]) = map f xs" using list_update_id [of "map f xs" i] assms by (simp add: map_update)
  then have "map f (take k (xs[i := y])) = map f (take k xs)" by (simp add: take_map [symmetric])
  then have "list_all id (map f (take k (xs[i := y]))) = list_all id (map f (take k xs))" by (rule arg_cong)
  then show ?thesis by (simp add: list.pred_map)
qed

lemma dispatch_ok:
  assumes ok: "mgr_ok env F K mg" and ph: "mg_phase mg = PDispatch k bEmpty" and env: "stream_reads env F"
    and st: "dispatch_step env cnt bAbort k bEmpty mg = Some mg'"
  shows "mgr_ok env F K mg'"
proof -
  have r: "\<not> sent_final (mg_log mg)" using running [OF ok] ph by simp
  have at: "bEmpty \<Longrightarrow> list_all pe_bComplete (take k (mg_parts mg))"
    using mgr_okD(6) [OF ok] ph by (simp add: phase_ok_def)
  show ?thesis
  proof (cases "length (mg_parts mg) \<le> k")
    case True
    then show ?thesis using st at by (auto simp: dispatch_step_def all_complete_def intro!: mgr_ok_goto [OF ok r])
  next
    case False
    then have k: "k < length (mg_parts mg)" by simp
    define e where "e = mg_parts mg ! k"
    show ?thesis
    proof (cases "pe_bComplete e \<or> pe_bInProcess e \<or> mu_dwMaxThreads env + 4 \<le> cnt \<or> bAbort")
      case True
      then show ?thesis using st at k
        by (auto simp: dispatch_step_def Let_def e_def [symmetric] take_Suc_conv_app_nth split: if_splits
            intro!: mgr_ok_goto [OF ok r] mpu_fail_ok [OF ok r])
    next
      case idle: False
      show ?thesis
      proof (cases "fill_part env e")
        case None
        then show ?thesis using st k idle by (simp add: dispatch_step_def e_def)
      next
        case (Some z)
        show ?thesis
        proof (cases z)
          case (Inl d)
          then show ?thesis using st k idle Some by (auto simp: dispatch_step_def e_def intro: mpu_fail_ok [OF ok r])
        next
          case (Inr e')
          have mg': "mg' = mg\<lparr> mg_parts := (mg_parts mg)[k := e'], mg_pending := mg_pending mg @ [new_msg k],
              mg_phase := PDispatch (Suc k) False \<rparr>"
            using st k idle Some Inr by (simp add: dispatch_step_def e_def)
          have p: "part_ok env F (mg_log mg) e (msg_of (mg_pending mg) k)" using mgr_okD(5) [OF ok k] by (simp add: e_def)
          have no: "msg_of (mg_pending mg) k = None"
            using p idle by (auto simp: part_ok_def msg_ok_def split: option.splits)
          have i: "in_file F e" "pe_ullCursor e = 0" "attempts (mg_log mg) (pe_uPartNum e) = unat (pe_dwRetryNum e)"
              "pe_dwRetryNum e \<le> mu_dwMaxRetries env"
            using p idle no by (auto simp: part_ok_def resting_ok_def split: if_splits)
          note f = fill_part_correct [OF Some [unfolded Inr] env i(1,2)]
          have new: "part_ok env F (mg_log mg) e' (Some (new_msg k))"
            using f i idle by (simp add: part_ok_def msg_ok_def new_msg_def)
          have kn: "k \<notin> ms_part ` set (mg_pending mg)" using no by (simp add: msg_of_None)
          have m: "ms_part (new_msg k) = k" by (simp add: new_msg_def)
          show ?thesis unfolding mg'
          proof (rule mgr_ok_manager [OF ok k r _ new])
            show "plan e' = plan (mg_parts mg ! k)" using f(9) by (simp add: e_def)
            show "distinct (map ms_part (mg_pending mg @ [new_msg k]))" using mgr_okD(3) [OF ok] kn m by simp
            show "ms_part m < length (mg_parts mg)" if "m \<in> set (mg_pending mg @ [new_msg k])" for m
              using that k m ok by (auto simp: mgr_ok_def)
            show "msg_of (mg_pending mg @ [new_msg k]) j = (if j = k then Some (new_msg k) else msg_of (mg_pending mg) j)" for j
              using msg_of_snoc [of "new_msg k" "mg_pending mg" j] kn m by simp
          qed simp
        qed
      qed
    qed
  qed
qed

lemma wait_ok:
  assumes "mgr_ok env F K mg" "mg_phase mg = PWait"
  shows "mgr_ok env F K (wait_step bAbort mg)"
proof -
  have r: "\<not> sent_final (mg_log mg)" using running [OF assms(1)] assms(2) by simp
  show ?thesis unfolding wait_step_def using mpu_fail_ok [OF assms(1) r] mgr_ok_goto [OF assms(1) r] by simp
qed

lemma part_fed_cursor: "part_fed F e s fin \<Longrightarrow> unat (pe_ullCursor e) \<le> unat (pe_ullPartSize e)"
  by (simp add: part_fed_def)

text \<open>A message leaves the pending list.\<close>

lemma mgr_ok_remove:
  assumes ok: "mgr_ok env F K mg" and r: "\<not> sent_final (mg_log mg)" and k: "k < length (mg_pending mg)"
    and i: "i = ms_part (mg_pending mg ! k)" and e: "plan e = plan (mg_parts mg ! i)" "in_file F e"
      "pe_dwRetryNum e \<le> mu_dwMaxRetries env" "resting_ok env F (mg_log mg) e"
    and p: "at_phase p ((mg_parts mg)[i := e]) (length (del_nth k (mg_pending mg))) (mg_log mg)"
  shows "mgr_ok env F K (mg\<lparr> mg_parts := (mg_parts mg)[i := e], mg_pending := del_nth k (mg_pending mg), mg_phase := p \<rparr>)"
proof (rule mgr_ok_manager [OF ok _ r e(1) _ _ _ _ p])
  show "i < length (mg_parts mg)" using mgr_okD(4) [OF ok k] i by simp
  show "part_ok env F (mg_log mg) e None" using e by (simp add: part_ok_def)
  show "distinct (map ms_part (del_nth k (mg_pending mg)))" by (rule del_nth_distinct [OF mgr_okD(3) [OF ok]])
  show "ms_part m < length (mg_parts mg)" if "m \<in> set (del_nth k (mg_pending mg))" for m
    using that del_nth_subset [of k "mg_pending mg"] ok by (auto simp: mgr_ok_def)
  show "msg_of (del_nth k (mg_pending mg)) j = (if j = i then None else msg_of (mg_pending mg) j)" for j
    using msg_of_del [OF mgr_okD(3) [OF ok] k] i by simp
qed

lemma pass_ok:
  assumes ok: "mgr_ok env F K mg" and ph: "mg_phase mg = PPass k bDeleted"
  shows "mgr_ok env F K (pass_step env k bDeleted mg)"
proof -
  have r: "\<not> sent_final (mg_log mg)" using running [OF ok] ph by simp
  show ?thesis
  proof (cases "length (mg_pending mg) \<le> k")
    case True
    then show ?thesis by (simp add: pass_step_def mgr_ok_goto [OF ok r])
  next
    case False
    then have k: "k < length (mg_pending mg)" by simp
    define m where "m = mg_pending mg ! k"
    define e where "e = mg_parts mg ! ms_part m"
    note me = mgr_ok_msg [OF ok k m_def e_def]
    show ?thesis
    proof (cases "ms_bComplete m")
      case False
      then show ?thesis
        using k mpu_fail_ok [OF ok r] mgr_ok_goto [OF ok r, of "PFeed k bDeleted"]
        by (simp add: pass_step_def Let_def m_def [symmetric] e_def [symmetric])
    next
      case c: True
      show ?thesis
      proof (cases "IfError (ms_Error m)")
        case False
        have eo: "resting_ok env F (mg_log mg) (e\<lparr> pe_bComplete := True \<rparr>)"
          using me(3) c False by (simp add: resting_ok_def msg_ok_def uploaded_def part_bytes_def)
        have "mgr_ok env F K (mg\<lparr> mg_parts := (mg_parts mg)[ms_part m := e\<lparr> pe_bComplete := True \<rparr>],
            mg_pending := del_nth k (mg_pending mg), mg_phase := PPass k True \<rparr>)"
          using me(1,2) by (intro mgr_ok_remove [OF ok r k _ _ _ _ eo]) (simp_all add: m_def e_def plan_def in_file_def)
        then show ?thesis using k c False by (simp add: pass_step_def Let_def m_def [symmetric] e_def [symmetric])
      next
        case err: True
        show ?thesis
        proof (cases "mu_dwMaxRetries env \<le> pe_dwRetryNum e")
          case True
          then show ?thesis using k c err mpu_fail_ok [OF ok r]
            by (simp add: pass_step_def Let_def m_def [symmetric] e_def [symmetric])
        next
          case False
          then have lt: "unat (pe_dwRetryNum e) < unat (mu_dwMaxRetries env)" by (simp add: word_le_nat_alt)
          then have n: "unat (pe_dwRetryNum e + 1) = unat (pe_dwRetryNum e) + 1"
            by (subst unat_plus_le [where z = "mu_dwMaxRetries env"]) simp_all
          have eo: "resting_ok env F (mg_log mg) (reset_part e)"
            using me(3) c by (simp add: resting_ok_def msg_ok_def reset_part_def n)
          have le: "pe_dwRetryNum (reset_part e) \<le> mu_dwMaxRetries env"
            using lt by (simp add: reset_part_def word_le_nat_alt n)
          have "mgr_ok env F K (mg\<lparr> mg_parts := (mg_parts mg)[ms_part m := reset_part e],
              mg_pending := del_nth k (mg_pending mg), mg_phase := PPass k True \<rparr>)"
            using me(1) by (intro mgr_ok_remove [OF ok r k _ _ _ le eo]) (simp_all add: m_def e_def plan_def in_file_def reset_part_def)
          then show ?thesis using k c err False by (simp add: pass_step_def Let_def m_def [symmetric] e_def [symmetric])
        qed
      qed
    qed
  qed
qed

lemma feed_push_ok:
  assumes env: "stream_reads env F" and inf: "in_file F e" and m: "msg_ok env F lg e m"
    and c: "pe_ullPartSize e > pe_ullCursor e"
    and r: "mu_read env (pe_ullBaseOffset e + pe_ullCursor e) (read_size env (pe_ullPartSize e - pe_ullCursor e)) = Inr bs"
  shows "msg_ok env F lg (push_data bs (pe_ullPartSize e \<le> pe_ullCursor e + of_nat (length bs)) e) m"
proof -
  let ?l = "pe_ullPartSize e \<le> pe_ullCursor e + of_nat (length bs)"
  have lt: "unat (pe_ullCursor e) < unat (pe_ullPartSize e)" using c by (simp add: word_less_nat_alt)
  have room: "length bs \<le> unat (pe_ullPartSize e) - unat (pe_ullCursor e)"
    using stream_readsD(2) [OF env r] read_size_le [of env "pe_ullPartSize e - pe_ullCursor e"] lt by (simp add: unat_diff_le)
  have n: "unat (of_nat (length bs) :: ULONGLONG) = length bs" using room by (intro unat_of_nat64 [of _ "pe_ullPartSize e"]) simp
  have sum: "unat (pe_ullCursor e + of_nat (length bs)) = unat (pe_ullCursor e) + length bs"
    using room lt by (subst unat_plus_le [where z = "pe_ullPartSize e"]) (simp_all add: n)
  have l: "unat (pe_ullCursor e) + length bs = unat (pe_ullPartSize e)" if ?l
    using that room lt by (simp add: word_le_nat_alt sum)
  have ne: "pe_ullCursor e \<noteq> pe_ullPartSize e" using c by auto
  have fed: "\<not> ms_bComplete m \<Longrightarrow> part_fed F (push_data bs ?l e) (ms_sent m) (ms_last m)"
    using part_fed_push(1) [OF _ inf ne stream_readsD(1) [OF env r] room l] m by (simp add: msg_ok_def)
  note same = same_partD [OF same_part_push_self [of e bs ?l]]
  have up: "uploaded F lg (push_data bs ?l e) = uploaded F lg e" by (simp add: uploaded_def same)
  show ?thesis using m fed by (simp add: msg_ok_def same up)
qed

lemma feed_ok:
  assumes ok: "mgr_ok env F K mg" and ph: "mg_phase mg = PFeed k bDeleted" and env: "stream_reads env F"
  shows "mgr_ok env F K (feed_step env k bDeleted mg)"
proof -
  have r: "\<not> sent_final (mg_log mg)" using running [OF ok] ph by simp
  have k: "k < length (mg_pending mg)" using mgr_okD(6) [OF ok] ph by (simp add: phase_ok_def)
  define m where "m = mg_pending mg ! k"
  define e where "e = mg_parts mg ! ms_part m"
  note me = mgr_ok_msg [OF ok k m_def e_def]
  let ?b = "length (pe_StreamData e) < queue_size env \<and> pe_ullPartSize e > pe_ullCursor e"
  let ?r = "mu_read env (pe_ullBaseOffset e + pe_ullCursor e) (read_size env (pe_ullPartSize e - pe_ullCursor e))"
  show ?thesis
  proof (cases ?b)
    case False
    then show ?thesis
      using mgr_ok_goto [OF ok r, of "PPass (Suc k) bDeleted"] by (auto simp: feed_step_def Let_def m_def [symmetric] e_def [symmetric])
  next
    case b: True
    show ?thesis
    proof (cases ?r)
      case (Inl d)
      then show ?thesis using b mpu_fail_ok [OF ok r] by (simp add: feed_step_def Let_def m_def [symmetric] e_def [symmetric])
    next
      case (Inr bs)
      define e' where "e' = push_data bs (pe_ullPartSize e \<le> pe_ullCursor e + of_nat (length bs)) e"
      have p: "part_ok env F (mg_log mg) e' (Some m)"
        using feed_push_ok [OF env me(1,3) conjunct2 [OF b] Inr] me(1,2)
        by (simp add: part_ok_def e'_def in_file_def push_data_def)
      have "mgr_ok env F K (mg\<lparr> mg_parts := (mg_parts mg)[ms_part m := e'], mg_pending := mg_pending mg, mg_phase := PFeed k bDeleted \<rparr>)"
      proof (rule mgr_ok_manager [OF ok me(4) r _ p mgr_okD(3) [OF ok]])
        show "plan e' = plan (mg_parts mg ! ms_part m)" by (simp add: e'_def plan_def push_data_def e_def)
        show "ms_part m' < length (mg_parts mg)" if "m' \<in> set (mg_pending mg)" for m' using that ok by (auto simp: mgr_ok_def)
        show "msg_of (mg_pending mg) j = (if j = ms_part m then Some m else msg_of (mg_pending mg) j)" for j
          using msg_of_nth [OF mgr_okD(3) [OF ok] k] by (simp add: m_def)
      qed (simp add: k)
      moreover have "mg\<lparr> mg_parts := (mg_parts mg)[ms_part m := e'], mg_pending := mg_pending mg, mg_phase := PFeed k bDeleted \<rparr>
          = mg\<lparr> mg_parts := (mg_parts mg)[ms_part m := e'] \<rparr>"
        using ph by (cases mg) simp
      ultimately show ?thesis using b Inr by (simp add: feed_step_def Let_def m_def [symmetric] e_def [symmetric] e'_def)
    qed
  qed
qed

lemma complete_ok:
  assumes ok: "mgr_ok env F K mg" and ph: "mg_phase mg = PComplete"
  shows "mgr_ok env F K (complete_step E mg)"
proof -
  have r: "\<not> sent_final (mg_log mg)" using running [OF ok] ph by simp
  have all: "all_complete (mg_parts mg)" using mgr_okD(6) [OF ok] ph by (simp add: phase_ok_def)
  have "mgr_ok env F K (mg\<lparr> mg_phase := PDone, mg_log := mg_log mg @ [CComplete (part_list (mg_parts mg))] \<rparr>)"
    using r all by (intro mgr_ok_phase [OF ok]) (auto simp: phase_ok_def sent_final_def)
  moreover have "mgr_ok env F K (mg\<lparr> mg_phase := PFailed E, mg_log := mg_log mg @ [CComplete (part_list (mg_parts mg)), CAbort] \<rparr>)"
    using r all by (intro mgr_ok_phase [OF ok]) (auto simp: phase_ok_def sent_final_def attempts_def)
  ultimately show ?thesis by (cases mg) (simp add: complete_step_def mpu_fail_def Let_def)
qed

text \<open>A step of a pool thread: it keeps the phase, and as its part is not complete, the completion
  was not sent.\<close>

lemma phase_ok_thread:
  assumes ok: "mgr_ok env F K mg" and i: "i < length (mg_parts mg)" "\<not> pe_bComplete (mg_parts mg ! i)"
    and e: "\<not> pe_bComplete e" and n: "length ms = length (mg_pending mg)"
    and l2: "\<not> sent_final l2"
  shows "phase_ok \<lparr> mg_parts = (mg_parts mg)[i := e], mg_pending = ms, mg_phase = mg_phase mg, mg_log = mg_log mg @ l2 \<rparr>"
proof -
  have p: "phase_ok mg" by (rule mgr_okD(6) [OF ok])
  have na: "\<not> all_complete (mg_parts mg)" using i by (auto simp: all_complete_def list_all_length)
  have nc: "CComplete L \<notin> set (mg_log mg @ l2)" for L using p na l2 by (auto simp: phase_ok_def sent_final_def)
  have t: "list_all pe_bComplete (take k ((mg_parts mg)[i := e])) = list_all pe_bComplete (take k (mg_parts mg))" for k
    using i e by (intro take_update_same) simp_all
  have "at_phase (mg_phase mg) ((mg_parts mg)[i := e]) (length ms) (mg_log mg @ l2)"
    using p na nc t n by (cases "mg_phase mg") (auto simp: phase_ok_def)
  moreover have "sent_final (mg_log mg @ l2) \<longrightarrow> final (mg_phase mg)" using p l2 by (auto simp: phase_ok_def sent_final_def)
  ultimately show ?thesis using nc unfolding phase_ok_def by simp
qed

lemma mgr_ok_thread:
  assumes ok: "mgr_ok env F K mg" and j: "j < length (mg_pending mg)"
    and m: "m = mg_pending mg ! j" and e: "e = mg_parts mg ! ms_part m"
    and m': "ms_part m' = ms_part m" and e': "plan e' = plan e" "pe_dwRetryNum e' = pe_dwRetryNum e"
      "msg_ok env F (mg_log mg @ l2) e' m'"
    and l2: "\<not> sent_final l2" "\<And>n. n \<noteq> pe_uPartNum e \<Longrightarrow> attempts l2 n = 0"
  shows "mgr_ok env F K \<lparr> mg_parts = (mg_parts mg)[ms_part m := e'], mg_pending = (mg_pending mg)[j := m'],
    mg_phase = mg_phase mg, mg_log = mg_log mg @ l2 \<rparr>"
proof -
  note me = mgr_ok_msg [OF ok j m e]
  have p: "part_ok env F (mg_log mg @ l2) e' (Some m')"
    using me(1,2) e' by (simp add: part_ok_def in_file_def plan_def)
  show ?thesis
  proof (rule mgr_ok_change [OF ok me(4) _ p])
    show "plan e' = plan (mg_parts mg ! ms_part m)" using e'(1) e by simp
    show "attempts l2 n = 0" if "n \<noteq> pe_uPartNum (mg_parts mg ! ms_part m)" for n using l2(2) that e by simp
    show "distinct (map ms_part ((mg_pending mg)[j := m']))"
      using mgr_okD(3) [OF ok] map_part_update [of m' "mg_pending mg" j] m' m by simp
    show "ms_part x < length (mg_parts mg)" if "x \<in> set ((mg_pending mg)[j := m'])" for x
      using that me(4) m' ok set_update_subset_insert [of "mg_pending mg" j m'] by (auto simp: mgr_ok_def)
    show "msg_of ((mg_pending mg)[j := m']) k = (if k = ms_part m then Some m' else msg_of (mg_pending mg) k)" for k
      using msg_of_update [OF mgr_okD(3) [OF ok] j, of m' k] m' m by simp
    show "phase_ok \<lparr> mg_parts = (mg_parts mg)[ms_part m := e'], mg_pending = (mg_pending mg)[j := m'],
        mg_phase = mg_phase mg, mg_log = mg_log mg @ l2 \<rparr>"
      using me(3) e'(3) l2(1) e by (intro phase_ok_thread [OF ok me(4)]) (simp_all add: msg_ok_def)
  qed
qed

lemma part_fed_pop:
  assumes "part_fed F e sent False" "pe_StreamData e = (bs, l) # q"
  shows "part_fed F (e\<lparr> pe_StreamData := q \<rparr>) (sent @ bs) l"
proof -
  have "q = [] \<and> pe_ullCursor e = pe_ullPartSize e" if l
    using assms that unfolding part_fed_def by (metis append_Nil)
  moreover have "ys = [] \<and> pe_ullCursor e = pe_ullPartSize e" if "q = xs @ (b, True) # ys" for xs b ys
    using assms that unfolding part_fed_def by (metis append_Cons)
  ultimately show ?thesis using assms by (auto simp: part_fed_def part_bytes_def)
qed

lemma pop_ok:
  assumes ok: "mgr_ok env F K mg" and st: "pop_step j mg = Some mg'"
  shows "mgr_ok env F K mg'"
proof -
  have j: "j < length (mg_pending mg)" using st by (simp add: pop_step_def split: if_splits)
  define m where "m = mg_pending mg ! j"
  define e where "e = mg_parts mg ! ms_part m"
  note me = mgr_ok_msg [OF ok j m_def e_def]
  have act: "\<not> ms_bComplete m" "\<not> ms_last m"
    using st j unfolding pop_step_def m_def by (simp_all add: Let_def split: if_splits)
  obtain bs l q where q: "pe_StreamData e = (bs, l) # q"
    and mg': "mg' = mg\<lparr> mg_parts := (mg_parts mg)[ms_part m := e\<lparr> pe_StreamData := q \<rparr>],
      mg_pending := (mg_pending mg)[j := m\<lparr> ms_sent := ms_sent m @ bs, ms_last := l \<rparr>] \<rparr>"
    using st j act unfolding pop_step_def Let_def m_def [symmetric] e_def [symmetric]
    by (auto split: list.splits prod.splits)
  have fed: "part_fed F e (ms_sent m) False" using me(3) act by (simp add: msg_ok_def)
  have ok': "msg_ok env F (mg_log mg @ []) (e\<lparr> pe_StreamData := q \<rparr>) (m\<lparr> ms_sent := ms_sent m @ bs, ms_last := l \<rparr>)"
    using me(3) act part_fed_pop [OF fed q] by (simp add: msg_ok_def part_bytes_def)
  show ?thesis
    using mgr_ok_thread [OF ok j m_def e_def _ _ _ ok'] unfolding mg'
    by (cases mg) (simp add: plan_def sent_final_def)
qed

lemma reply_ok:
  assumes ok: "mgr_ok env F K mg" and st: "reply_step j r mg = Some mg'"
    and r: "\<not> IfError (fst r) \<Longrightarrow> snd r \<noteq> []"
  shows "mgr_ok env F K mg'"
proof -
  have j: "j < length (mg_pending mg)" using st by (simp add: reply_step_def split: if_splits)
  define m where "m = mg_pending mg ! j"
  define e where "e = mg_parts mg ! ms_part m"
  define c where "c = CUpload (pe_uPartNum e) (pe_Checksum e) (ms_sent m) (snd r)"
  note me = mgr_ok_msg [OF ok j m_def e_def]
  have act: "\<not> ms_bComplete m" "IfError (fst r) \<or> ms_last m"
    and mg': "mg' = mg\<lparr> mg_parts := (mg_parts mg)[ms_part m := e\<lparr> pe_sETag := snd r \<rparr>],
      mg_pending := (mg_pending mg)[j := m\<lparr> ms_Error := fst r, ms_bComplete := True \<rparr>], mg_log := mg_log mg @ [c] \<rparr>"
    using st j unfolding reply_step_def Let_def m_def [symmetric] e_def [symmetric] c_def by (auto split: if_splits)
  have fed: "part_fed F e (ms_sent m) (ms_last m)" using me(3) act by (simp add: msg_ok_def)
  have up: "uploaded F (mg_log mg @ [c]) (e\<lparr> pe_sETag := snd r \<rparr>)" if "\<not> IfError (fst r)"
  proof -
    have "ms_sent m = part_bytes F e" using fed that act(2) length_part_bytes [OF me(1)] by (auto simp: part_fed_def)
    then show ?thesis using r [OF that] by (simp add: uploaded_def c_def part_bytes_def)
  qed
  have ok': "msg_ok env F (mg_log mg @ [c]) (e\<lparr> pe_sETag := snd r \<rparr>) (m\<lparr> ms_Error := fst r, ms_bComplete := True \<rparr>)"
    using me(3) act up by (simp add: msg_ok_def part_bytes_def c_def)
  show ?thesis
    using mgr_ok_thread [OF ok j m_def e_def _ _ _ ok'] unfolding mg'
    by (cases mg) (simp add: plan_def sent_final_def c_def)
qed

text \<open>An upload without error has an ETag.\<close>

lemma upload_result_etag:
  assumes "\<not> IfError (fst (upload_result menv None reply))"
  shows "snd (upload_result menv None reply) \<noteq> []"
proof -
  obtain e data hdrs where r: "reply = (e, data, hdrs)" by (cases reply)
  have inv: "IfError (S3_ERROR_new ERROR_INVALID_DATA)"
    by (simp add: IfError_def S3_ERROR_new_def ERROR_INVALID_DATA_def)
  show ?thesis
    using assms inv unfolding upload_result_def r
    by (auto simp: Let_def header_etag_def split: if_splits option.splits sum.splits prod.splits)
qed

lemma mpu_step_ok:
  assumes ok: "mgr_ok env F K mg" and env: "stream_reads env F" and st: "mpu_step menv env l mg = Some mg'"
  shows "mgr_ok env F K mg'"
proof (cases l)
  case (LPop j)
  then show ?thesis using pop_ok [OF ok] st by simp
next
  case (LReply j reply)
  then have "reply_step j (upload_result menv None reply) mg = Some mg'" using st by simp
  then show ?thesis by (rule reply_ok [OF ok _ upload_result_etag])
next
  case (LManager cnt ab rep info)
  obtain e data hdrs where rep: "rep = (e, data, hdrs)" by (cases rep)
  note st = st [unfolded LManager rep]
  show ?thesis
  proof (cases "mg_phase mg")
    case (PDispatch k b)
    then show ?thesis using dispatch_ok [OF ok PDispatch env] st by simp
  next
    case PWait
    then show ?thesis using wait_ok [OF ok PWait] st by auto
  next
    case (PPass k b)
    then show ?thesis using pass_ok [OF ok PPass] st by auto
  next
    case (PFeed k b)
    then show ?thesis using feed_ok [OF ok PFeed env] st by auto
  next
    case PComplete
    then show ?thesis using complete_ok [OF ok PComplete] st by auto
  next
    case PDone
    then show ?thesis using st by simp
  next
    case (PFailed E)
    then show ?thesis using st by simp
  qed
qed

lemma mpu_run_ok:
  assumes "mpu_run menv env mg mg'" "stream_reads env F" "mgr_ok env F K mg"
  shows "mgr_ok env F K mg'"
  using assms by (induction rule: mpu_run.induct) (auto intro: mpu_step_ok)

section \<open>The upload from its beginning\<close>

lemma mpu_begin_started:
  assumes "mpu_begin menv env (Inr cb) mb path md info0 w = Some (Started info mg, w1)"
  obtains len ps where "part_length cb mb = Inr (Some len)" "create_parts cb len 0 0 [] = Some ps" "1 < length ps"
    "mg = \<lparr> mg_parts = ps, mg_pending = [], mg_phase = PDispatch 0 True, mg_log = [] \<rparr>"
  using assms unfolding mpu_begin_def
  by (auto split: sum.splits option.splits if_splits prod.splits simp: Let_def)

lemma part_length_parts:
  assumes "part_length cb mb = Inr (Some len)"
  shows "\<exists>ps. create_parts cb len 0 0 [] = Some ps \<and> parts_from cb len 0 0 ps \<and> length ps \<le> 1001"
proof -
  note b = part_length_bounds [OF assms]
  have c: "(unat cb + unat len - 1) div unat len \<le> Suc (unat cb div unat len)"
  proof -
    have "(unat cb + unat len - 1) div unat len \<le> (unat cb + unat len) div unat len" by (intro div_le_mono) simp
    also have "\<dots> = Suc (unat cb div unat len)"
    proof -
      have nz: "unat len \<noteq> 0" using b(1) by linarith
      show ?thesis using div_add_self2 [OF nz, of "unat cb"] by simp
    qed
    finally show ?thesis .
  qed
  then have "0 + (unat cb - unat (0 :: ULONGLONG) + unat len - 1) div unat len + 1 < 4294967296" using b(2) by simp
  then obtain ps where "create_parts cb len 0 (of_nat 0) [] = Some ([] @ ps)" "parts_from cb len 0 0 ps"
    using create_parts_from [of 0 cb len 0 "[]"] b(1) by auto
  moreover from this(2) have "length ps \<le> 1001" using c b(2) by (simp add: parts_from_def)
  ultimately show ?thesis by auto
qed

lemma mgr_ok_start:
  assumes b: "mpu_begin menv env (Inr cb) mb path md info0 w = Some (Started info mg, w1)"
    and F: "length F = unat cb"
  obtains K where "mgr_ok env F K mg" "map plan (mg_parts mg) = K" "concat (map (part_bytes F) (mg_parts mg)) = F"
    "map (\<lambda>e. unat (pe_uPartNum e)) (mg_parts mg) = [1..<Suc (length (mg_parts mg))]"
proof -
  obtain len ps where l: "part_length cb mb = Inr (Some len)" and ps: "create_parts cb len 0 0 [] = Some ps"
    and mg: "mg = \<lparr> mg_parts = ps, mg_pending = [], mg_phase = PDispatch 0 True, mg_log = [] \<rparr>"
    using mpu_begin_started [OF b] by metis
  have p: "parts_from cb len 0 0 ps" using part_length_parts [OF l] ps by auto
  have nums: "map (\<lambda>e. unat (pe_uPartNum e)) ps = [1..<Suc (length ps)]" using p by (simp add: parts_from_def)
  have "distinct (map (\<lambda>e. unat (pe_uPartNum e)) ps)" unfolding nums by simp
  then have d: "distinct (map pe_uPartNum ps)" unfolding distinct_map inj_on_def by auto
  have F64: "length F < 18446744073709551616" using F unat_bound64 [of cb] by simp
  have e: "in_file F e \<and> fresh_part e" if "e \<in> set ps" for e
    using p that F F64 by (auto simp: parts_from_def in_file_def list_all_iff)
  have idle: "part_ok env F [] (ps ! i) (msg_of [] i)" if "i < length ps" for i
    using e [OF nth_mem [OF that]] by (simp add: part_ok_def msg_of_def resting_ok_def fresh_part_def)
  have "mgr_ok env F (map plan ps) mg"
    using idle d by (simp add: mgr_ok_def mg phase_ok_def sent_final_def comp_def plan_def)
  moreover have "concat (map (part_bytes F) ps) = F" using p F by (simp add: parts_from_def)
  ultimately show thesis using nums by (intro that) (simp_all add: mg)
qed

lemma part_bytes_plan: "map plan xs = map plan ys \<Longrightarrow> map (part_bytes F) xs = map (part_bytes F) ys"
proof -
  assume "map plan xs = map plan ys"
  then have "map (\<lambda>(n, b, s). take (unat s) (drop (unat b) F)) (map plan xs)
      = map (\<lambda>(n, b, s). take (unat s) (drop (unat b) F)) (map plan ys)" by simp
  then show ?thesis by (simp add: comp_def plan_def part_bytes_def [abs_def])
qed

lemma num_plan: "map plan xs = map plan ys \<Longrightarrow> map pe_uPartNum xs = map pe_uPartNum ys"
proof -
  assume "map plan xs = map plan ys"
  then have "map fst (map plan xs) = map fst (map plan ys)" by simp
  then show ?thesis by (simp add: comp_def plan_def)
qed

lemma complete_parts_uploaded:
  assumes ok: "mgr_ok env F K mg" and L: "CComplete L \<in> set (mg_log mg)"
  shows "L = part_list (mg_parts mg)"
    and "\<forall>e\<in>set (mg_parts mg). uploaded F (mg_log mg) e \<and> (mu_bChecksum env \<longrightarrow> pe_Checksum e = mu_md5 env (part_bytes F e))"
proof -
  have p: "L = part_list (mg_parts mg)" "all_complete (mg_parts mg)" using mgr_okD(6) [OF ok] L by (auto simp: phase_ok_def)
  then show "L = part_list (mg_parts mg)" by simp
  show "\<forall>e\<in>set (mg_parts mg). uploaded F (mg_log mg) e \<and> (mu_bChecksum env \<longrightarrow> pe_Checksum e = mu_md5 env (part_bytes F e))"
  proof
    fix e assume "e \<in> set (mg_parts mg)"
    then obtain i where i: "i < length (mg_parts mg)" "e = mg_parts mg ! i" by (metis in_set_conv_nth)
    have "pe_bComplete e" using p(2) i by (simp add: all_complete_def list_all_length)
    then show "uploaded F (mg_log mg) e \<and> (mu_bChecksum env \<longrightarrow> pe_Checksum e = mu_md5 env (part_bytes F e))"
      using mgr_okD(5) [OF ok i(1)] i(2) by (auto simp: part_ok_def msg_ok_def resting_ok_def split: option.splits)
  qed
qed

text \<open>A part of a completed upload: the pair of the completion and the bytes that were uploaded.\<close>

definition part_stored :: "mpu_env \<Rightarrow> mpu_call list \<Rightarrow> DWORD \<times> string \<Rightarrow> BYTE list \<Rightarrow> bool" where
  "part_stored env lg p bs \<longleftrightarrow> snd p \<noteq> [] \<and>
     (\<exists>chk. CUpload (fst p) chk bs (snd p) \<in> set lg \<and> (mu_bChecksum env \<longrightarrow> chk = mu_md5 env bs))"

lemma mpu_completed:
  assumes b: "mpu_begin menv env (Inr cb) mb path md info0 w = Some (Started info mg, w1)" and F: "length F = unat cb"
    and env: "stream_reads env F" and run: "mpu_run menv env mg mg'" and L: "CComplete L \<in> set (mg_log mg')"
  shows "\<exists>ds. concat ds = F \<and> list_all2 (part_stored env (mg_log mg')) L ds \<and> map (\<lambda>p. unat (fst p)) L = [1..<Suc (length L)]"
proof -
  obtain K where K: "mgr_ok env F K mg" "map plan (mg_parts mg) = K" "concat (map (part_bytes F) (mg_parts mg)) = F"
    "map (\<lambda>e. unat (pe_uPartNum e)) (mg_parts mg) = [1..<Suc (length (mg_parts mg))]"
    using mgr_ok_start [OF b F] by metis
  have ok: "mgr_ok env F K mg'" by (rule mpu_run_ok [OF run env K(1)])
  note c = complete_parts_uploaded [OF ok L]
  have pl: "map plan (mg_parts mg') = map plan (mg_parts mg)" using mgr_okD(1) [OF ok] K(2) by simp
  have "concat (map (part_bytes F) (mg_parts mg')) = F" using part_bytes_plan [OF pl, of F] K(3) by simp
  moreover have "list_all2 (part_stored env (mg_log mg')) L (map (part_bytes F) (mg_parts mg'))"
    using c by (auto simp: part_list_def list_all2_conv_all_nth part_stored_def uploaded_def)
  moreover have "map (\<lambda>p. unat (fst p)) L = [1..<Suc (length L)]"
  proof -
    have "map (\<lambda>p. unat (fst p)) L = map unat (map pe_uPartNum (mg_parts mg'))" by (simp add: c(1) part_list_def comp_def)
    also have "\<dots> = map unat (map pe_uPartNum (mg_parts mg))" using num_plan [OF pl] by simp
    also have "\<dots> = [1..<Suc (length (mg_parts mg))]" using K(4) by (simp add: comp_def)
    also have "length (mg_parts mg) = length L" using map_eq_imp_length_eq [OF pl] by (simp add: c(1) part_list_def)
    finally show ?thesis .
  qed
  ultimately show ?thesis by blast
qed

lemma part_ok_attempts:
  assumes "part_ok env F lg e mo"
  shows "attempts lg (pe_uPartNum e) \<le> unat (mu_dwMaxRetries env) + 1"
  using assms by (auto simp: part_ok_def resting_ok_def msg_ok_def word_le_nat_alt split: option.splits if_splits)

lemma mpu_attempts:
  assumes b: "mpu_begin menv env (Inr cb) mb path md info0 w = Some (Started info mg, w1)" and F: "length F = unat cb"
    and env: "stream_reads env F" and run: "mpu_run menv env mg mg'" and e: "e \<in> set (mg_parts mg')"
  shows "attempts (mg_log mg') (pe_uPartNum e) \<le> unat (mu_dwMaxRetries env) + 1"
proof -
  obtain K where K: "mgr_ok env F K mg" using mgr_ok_start [OF b F] by metis
  have ok: "mgr_ok env F K mg'" by (rule mpu_run_ok [OF run env K])
  obtain i where i: "i < length (mg_parts mg')" "e = mg_parts mg' ! i" using e by (metis in_set_conv_nth)
  show ?thesis using part_ok_attempts [OF mgr_okD(5) [OF ok i(1)]] i(2) by simp
qed

text \<open>The manager can always go on, whatever it sees.\<close>

lemma mpu_manager_moves:
  assumes b: "mpu_begin menv env (Inr cb) mb path md info0 w = Some (Started info mg, w1)" and F: "length F = unat cb"
    and env: "stream_reads env F" "stream_moves env F" "0 < mu_dwBufSize env"
    and run: "mpu_run menv env mg mg'" and nf: "\<not> final (mg_phase mg')"
  shows "mpu_step menv env (LManager cnt bAbort reply info1) mg' \<noteq> None"
proof -
  obtain K where K: "mgr_ok env F K mg" using mgr_ok_start [OF b F] by metis
  have ok: "mgr_ok env F K mg'" by (rule mpu_run_ok [OF run env(1) K])
  obtain e data hdrs where rep: "reply = (e, data, hdrs)" by (cases reply)
  show ?thesis
  proof (cases "mg_phase mg'")
    case (PDispatch k bEmpty)
    have "fill_part env (mg_parts mg' ! k) \<noteq> None" if k: "k < length (mg_parts mg')"
    proof -
      have i: "in_file F (mg_parts mg' ! k)" using mgr_okD(5) [OF ok k] by (simp add: part_ok_def)
      have "prefill env (pe_ullBaseOffset (mg_parts mg' ! k)) (pe_ullPartSize (mg_parts mg' ! k)) r h x \<noteq> None" for r h x
        using i by (intro prefill_returns [OF env]) (simp_all add: in_file_def)
      then show ?thesis by (simp add: fill_part_def Let_def)
    qed
    then have "length (mg_parts mg') \<le> k \<or> fill_part env (mg_parts mg' ! k) \<noteq> None" using not_le by blast
    then show ?thesis using PDispatch rep
      by (auto simp: dispatch_step_def Let_def split: option.splits sum.splits)
  qed (use nf rep in simp_all)
qed

section \<open>An upload of two parts\<close>

definition zeros :: "nat \<Rightarrow> BYTE list" where "zeros n = replicate n 0"

lemma zeros_simps [simp]:
  "length (zeros n) = n" "take k (zeros n) = zeros (min k n)" "drop k (zeros n) = zeros (n - k)"
  "zeros a @ zeros b = zeros (a + b)"
  by (simp_all add: zeros_def replicate_add)

definition two_file :: "BYTE list" where "two_file = zeros 6291456"

definition two_env :: mpu_env where
  "two_env = \<lparr> mu_dwBufSize = 0x600000, mu_dwMaxThreads = 4, mu_bChecksum = False, mu_dwMaxQueueSize = 0, mu_dwMaxRetries = 2,
     mu_seek = (\<lambda>_. 0), mu_read = (\<lambda>off n. Inr (take (unat n) (drop (unat off) two_file))), mu_md5 = (\<lambda>_. []) \<rparr>"

definition two_reply :: mp_reply where
  "two_reply = (S3_ERROR_new 0, [], [(''ETag'', [''x''])])"

definition two_menv :: "unit mp_env" where
  "two_menv = \<lparr> mp_send = (\<lambda>rq w. (two_reply, w)), mp_reader = (\<lambda>_. ([], 0)), mp_base64 = (\<lambda>_. []),
     mp_maps = s3_maps_init, mp_dates = \<lparr> SystemTimeToFileTime = (\<lambda>_. Inr 0), FileTimeToSystemTime = (\<lambda>_. None),
       TzSpecificLocalTimeToSystemTime = Inr, SystemTimeToTzSpecificLocalTime = Some \<rparr> \<rparr>"

definition two_part :: "DWORD \<Rightarrow> string \<Rightarrow> ULONGLONG \<Rightarrow> ULONGLONG \<Rightarrow> STREAM_DATA_ENTRY list \<Rightarrow> bool \<Rightarrow> bool \<Rightarrow> ULONGLONG \<Rightarrow> S3_UPLOAD_PART_ENTRY" where
  "two_part n etag off sz q ip c cur = \<lparr> pe_uPartNum = n, pe_sETag = etag, pe_Checksum = [], pe_ullPartSize = sz,
     pe_ullBaseOffset = off, pe_StreamData = q, pe_bInProcess = ip, pe_bComplete = c, pe_dwRetryNum = 0, pe_ullCursor = cur \<rparr>"

definition two_start :: mpu_mgr where
  "two_start = \<lparr> mg_parts = [two_part 1 [] 0 0x500000 [] False False 0, two_part 2 [] 0x500000 0x100000 [] False False 0],
     mg_pending = [], mg_phase = PDispatch 0 True, mg_log = [] \<rparr>"

lemma two_begin:
  "mpu_begin two_menv two_env (Inr 6291456) 5 ''/b/k'' [] \<lparr> sResource = [], sBucket = [], sKey = [], sUploadId = [] \<rparr> ()
   = Some (Started \<lparr> sResource = ''/b/k'', sBucket = [], sKey = [], sUploadId = [] \<rparr> two_start, ())"
proof -
  have l: "part_length 6291456 5 = Inr (Some 0x500000)"
    by (simp add: part_length_def MEGABYTES_def ALIGN_ANY_def dwMaxParts_def Let_def)
  have p: "create_parts 6291456 0x500000 0 0 [] = Some (mg_parts two_start)"
    by (simp add: create_parts.simps new_part_def two_start_def two_part_def)
  have i: "S3MultiPartInitiate two_menv ''/b/k'' \<lparr> sResource = [], sBucket = [], sKey = [], sUploadId = [] \<rparr> [] ()
      = ((S3_ERROR_new 0, \<lparr> sResource = ''/b/k'', sBucket = [], sKey = [], sUploadId = [] \<rparr>), ())"
    by (simp add: S3MultiPartInitiate_def two_menv_def two_reply_def mp_scan_def ScanXml_def SetError_def IfError_def
        S3_ERROR_new_def FAILED_def)
  have n: "\<not> IfError (S3_ERROR_new 0)" by (simp add: IfError_def S3_ERROR_new_def)
  show ?thesis
    by (simp add: mpu_begin_def l p i n two_env_def) (simp add: two_start_def)
qed

fun mpu_steps :: "'w mp_env \<Rightarrow> mpu_env \<Rightarrow> mpu_label list \<Rightarrow> mpu_mgr \<Rightarrow> mpu_mgr option" where
  "mpu_steps menv env [] mg = Some mg"
| "mpu_steps menv env (l # ls) mg = (case mpu_step menv env l mg of None \<Rightarrow> None | Some mg1 \<Rightarrow> mpu_steps menv env ls mg1)"

lemma mpu_steps_run: "mpu_run menv env mg0 mg \<Longrightarrow> mpu_steps menv env ls mg = Some mg' \<Longrightarrow> mpu_run menv env mg0 mg'"
  by (induction ls arbitrary: mg) (auto split: option.splits intro: mpu_next)

abbreviation turn :: mpu_label where
  "turn \<equiv> LManager 0 False two_reply \<lparr> mc_sLocation = [], mc_sBucket = [], mc_sKey = [], mc_sETag = [] \<rparr>"

lemma two_mu [simp]:
  "mu_read two_env off n = Inr (take (unat n) (drop (unat off) two_file))" "mu_seek two_env off = 0"
  "mu_bChecksum two_env = False" "mu_dwMaxThreads two_env = 4" "queue_size two_env = 10" "mu_dwBufSize two_env = 0x600000"
  "mu_dwMaxRetries two_env = 2"
  by (simp_all add: two_env_def queue_size_def)

lemma two_fill1:
  "fill_part two_env (two_part 1 [] 0 0x500000 [] False False 0)
   = Some (Inr (two_part 1 [] 0 0x500000 [(zeros 5242880, True)] True False 0x500000))"
  by (simp add: fill_part_def two_part_def prefill.simps read_size_def two_file_def push_data_def Let_def)

lemma two_fill2:
  "fill_part two_env (two_part 2 [] 0x500000 0x100000 [] False False 0)
   = Some (Inr (two_part 2 [] 0x500000 0x100000 [(zeros 1048576, True)] True False 0x100000))"
  by (simp add: fill_part_def two_part_def prefill.simps read_size_def two_file_def push_data_def Let_def)

text \<open>After both parts were filled and taken by threads.\<close>

definition two_filled :: mpu_mgr where
  "two_filled = \<lparr> mg_parts = [two_part 1 [] 0 0x500000 [(zeros 5242880, True)] True False 0x500000,
       two_part 2 [] 0x500000 0x100000 [(zeros 1048576, True)] True False 0x100000],
     mg_pending = [new_msg 0, new_msg 1], mg_phase = PWait, mg_log = [] \<rparr>"

lemma two_part_flags [simp]:
  "pe_bComplete (two_part n et off sz q ip c cur) = c" "pe_bInProcess (two_part n et off sz q ip c cur) = ip"
  "pe_StreamData (two_part n et off sz q ip c cur) = q" "pe_ullCursor (two_part n et off sz q ip c cur) = cur"
  "pe_ullPartSize (two_part n et off sz q ip c cur) = sz" "pe_uPartNum (two_part n et off sz q ip c cur) = n"
  "pe_sETag (two_part n et off sz q ip c cur) = et" "pe_Checksum (two_part n et off sz q ip c cur) = []"
  "two_part n et off sz q ip c cur\<lparr> pe_StreamData := q' \<rparr> = two_part n et off sz q' ip c cur"
  "two_part n et off sz q ip c cur\<lparr> pe_sETag := et' \<rparr> = two_part n et' off sz q ip c cur"
  "two_part n et off sz q ip c cur\<lparr> pe_bComplete := c' \<rparr> = two_part n et off sz q ip c' cur"
  by (simp_all add: two_part_def)

lemma two_run1: "mpu_steps two_menv two_env [turn, turn, turn] two_start = Some two_filled"
  by (simp add: two_start_def two_filled_def two_reply_def dispatch_step_def two_fill1 two_fill2 Let_def)

definition two_sent :: mpu_mgr where
  "two_sent = \<lparr> mg_parts = [two_part 1 ''x'' 0 0x500000 [] True False 0x500000, two_part 2 ''x'' 0x500000 0x100000 [] True False 0x100000],
     mg_pending = [\<lparr> ms_part = 0, ms_bComplete = True, ms_Error = S3_ERROR_new 0, ms_sent = zeros 5242880, ms_last = True \<rparr>,
       \<lparr> ms_part = 1, ms_bComplete = True, ms_Error = S3_ERROR_new 0, ms_sent = zeros 1048576, ms_last = True \<rparr>],
     mg_phase = PWait,
     mg_log = [CUpload 2 [] (zeros 1048576) ''x'', CUpload 1 [] (zeros 5242880) ''x''] \<rparr>"

lemma two_upload: "upload_result two_menv None two_reply = (S3_ERROR_new 0, ''x'')"
  by (simp add: upload_result_def two_reply_def header_etag_def SetError_def IfError_def S3_ERROR_new_def Let_def)

lemma two_no_error: "\<not> IfError (S3_ERROR_new 0)" by (simp add: IfError_def S3_ERROR_new_def)

lemma two_run2: "mpu_steps two_menv two_env [LPop 0, LPop 1, LReply 1 two_reply, LReply 0 two_reply] two_filled = Some two_sent"
  by (simp add: two_filled_def two_sent_def pop_step_def reply_step_def two_upload new_msg_def Let_def two_no_error)

definition two_done :: mpu_mgr where
  "two_done = \<lparr> mg_parts = [two_part 1 ''x'' 0 0x500000 [] True True 0x500000, two_part 2 ''x'' 0x500000 0x100000 [] True True 0x100000],
     mg_pending = [], mg_phase = PDone,
     mg_log = [CUpload 2 [] (zeros 1048576) ''x'', CUpload 1 [] (zeros 5242880) ''x'', CComplete [(1, ''x''), (2, ''x'')]] \<rparr>"

lemma two_complete: "fst (complete_result two_menv (SetError (S3_ERROR_new 0)) [] info) = S3_ERROR_new 0"
  by (simp add: complete_result_def SetError_def IfError_def S3_ERROR_new_def)

lemma two_run3: "mpu_steps two_menv two_env [turn, turn, turn, turn, turn, turn, turn, turn] two_sent = Some two_done"
  by (simp add: two_sent_def two_done_def two_reply_def wait_step_def pass_step_def dispatch_step_def complete_step_def
      part_list_def del_nth_def two_no_error two_complete Let_def)

lemma two_run: "mpu_run two_menv two_env two_start two_done"
  by (rule mpu_steps_run [OF mpu_steps_run [OF mpu_steps_run [OF mpu_refl two_run1] two_run2] two_run3])

lemma two_stream: "stream_reads two_env two_file" "stream_moves two_env two_file" "0 < mu_dwBufSize two_env"
  by (auto simp: stream_reads_def stream_moves_def two_file_def zeros_def unat_gt_0)

section \<open>Properties\<close>

text \<open>C8: When the completion is sent, it lists the parts 1, 2, ... in order, each with the ETag
  of an upload that was sent without error, and the bytes of these uploads in this order are the
  file; with checksums every upload had the hash of its bytes.\<close>

theorem upload_completes_with_file:
  assumes "mpu_begin menv env (Inr cb) mb path md info0 w = Some (Started info mg, w1)" and "length F = unat cb"
    and "stream_reads env F" and "mpu_run menv env mg mg'" and "CComplete L \<in> set (mg_log mg')"
  shows "\<exists>ds. concat ds = F \<and> list_all2 (part_stored env (mg_log mg')) L ds \<and> map (\<lambda>p. unat (fst p)) L = [1..<Suc (length L)]"
  by (rule mpu_completed [OF assms])

theorem upload_completes_with_file_witness:
  "\<exists>ds. concat ds = two_file \<and> list_all2 (part_stored two_env (mg_log two_done)) [(1, ''x''), (2, ''x'')] ds
     \<and> map (\<lambda>p. unat (fst p)) [(1 :: DWORD, ''x''), (2, ''x'')] = [1..<Suc (length [(1 :: DWORD, ''x''), (2, ''x'')])]"
  by (rule upload_completes_with_file [OF two_begin _ two_stream(1) two_run]) (simp_all add: two_file_def two_done_def)

text \<open>C10: A running upload has sent neither the completion nor the abort; one that has failed has
  sent the abort; one that is done has sent the completion and no abort.\<close>

theorem upload_ends_once:
  assumes "mpu_begin menv env (Inr cb) mb path md info0 w = Some (Started info mg, w1)" and "length F = unat cb"
    and "stream_reads env F" and "mpu_run menv env mg mg'"
  shows "(case mg_phase mg' of
      PFailed E \<Rightarrow> CAbort \<in> set (mg_log mg')
    | PDone \<Rightarrow> CComplete (part_list (mg_parts mg')) \<in> set (mg_log mg') \<and> CAbort \<notin> set (mg_log mg')
    | _ \<Rightarrow> \<not> sent_final (mg_log mg'))"
proof -
  obtain K where K: "mgr_ok env F K mg" using mgr_ok_start [OF assms(1,2)] by metis
  have ok: "mgr_ok env F K mg'" by (rule mpu_run_ok [OF assms(4,3) K])
  show ?thesis using mgr_okD(6) [OF ok] running [OF ok] by (cases "mg_phase mg'") (simp_all add: phase_ok_def)
qed

theorem upload_ends_once_witness:
  "(case mg_phase two_done of
      PFailed E \<Rightarrow> CAbort \<in> set (mg_log two_done)
    | PDone \<Rightarrow> CComplete (part_list (mg_parts two_done)) \<in> set (mg_log two_done) \<and> CAbort \<notin> set (mg_log two_done)
    | _ \<Rightarrow> \<not> sent_final (mg_log two_done))"
  by (rule upload_ends_once [OF two_begin _ two_stream(1) two_run]) (simp add: two_file_def)

text \<open>C33: A part is sent at most once more than there are retries.\<close>

theorem upload_attempts_bounded:
  assumes "mpu_begin menv env (Inr cb) mb path md info0 w = Some (Started info mg, w1)" and "length F = unat cb"
    and "stream_reads env F" and "mpu_run menv env mg mg'" and "e \<in> set (mg_parts mg')"
  shows "attempts (mg_log mg') (pe_uPartNum e) \<le> unat (mu_dwMaxRetries env) + 1"
  by (rule mpu_attempts [OF assms])

theorem upload_attempts_bounded_witness:
  "attempts (mg_log two_done) (pe_uPartNum (two_part 1 ''x'' 0 0x500000 [] True True 0x500000)) \<le> unat (mu_dwMaxRetries two_env) + 1"
  by (rule upload_attempts_bounded [OF two_begin _ two_stream(1) two_run]) (simp_all add: two_file_def two_done_def)

text \<open>A stream that gives nothing before the end of a part (a file that became shorter) keeps the
  first reading of that part going for ever when the checksum is wanted.\<close>

lemma prefill_stuck:
  assumes "mu_bChecksum env" "mu_read env off (read_size env rest) = Inr []" "rest \<noteq> 0"
  shows "prefill env off rest rec h e = None"
proof -
  have no: "en = env \<longrightarrow> o' = off \<longrightarrow> r' = rest \<longrightarrow> False" if "prefill en o' r' rec h e = Some y" for en o' r' rec h e y
    by (rule prefill.raw_induct [where P = "\<lambda>en o' r' rec h e y. en = env \<longrightarrow> o' = off \<longrightarrow> r' = rest \<longrightarrow> False", OF _ that])
      (use assms in \<open>auto simp: Let_def\<close>, blast)
  show ?thesis using no [of env off rest rec h e] by (cases "prefill env off rest rec h e") blast+
qed

text \<open>C34: Whatever the manager sees, it has a next turn until it is done or has failed; no turn is
  one that never returns. This needs a buffer that is not empty and a stream that gives the bytes of
  the file, at least one with every read before its end (\<open>stream_reads\<close>, \<open>stream_moves\<close>): without
  that the first reading of a part does not return (\<open>prefill_stuck\<close>).\<close>

theorem upload_manager_goes_on:
  assumes "mpu_begin menv env (Inr cb) mb path md info0 w = Some (Started info mg, w1)" and "length F = unat cb"
    and "stream_reads env F" and "stream_moves env F" and "0 < mu_dwBufSize env"
    and "mpu_run menv env mg mg'" and "\<not> final (mg_phase mg')"
  shows "mpu_step menv env (LManager cnt bAbort reply info1) mg' \<noteq> None"
  by (rule mpu_manager_moves [OF assms])

theorem upload_manager_goes_on_witness:
  "mpu_step two_menv two_env (LManager 0 True two_reply \<lparr> mc_sLocation = [], mc_sBucket = [], mc_sKey = [], mc_sETag = [] \<rparr>) two_start \<noteq> None"
  by (rule upload_manager_goes_on [OF two_begin _ two_stream mpu_refl]) (simp_all add: two_file_def two_start_def)

text \<open>C11: The parts cover the file one after the other, are numbered from 1, are at least 5 MB long
  except the last, and there are at most 1001 of them.\<close>

theorem parts_tile_file:
  assumes "part_length cb mb = Inr (Some len)"
  shows "5 * 0x100000 \<le> unat len \<and> (\<exists>ps. create_parts cb len 0 0 [] = Some ps \<and> length ps \<le> 1001
    \<and> (\<forall>F. length F = unat cb \<longrightarrow> concat (map (part_bytes F) ps) = F)
    \<and> map (\<lambda>e. unat (pe_uPartNum e)) ps = [1..<Suc (length ps)]
    \<and> list_all (\<lambda>e. pe_ullPartSize e = len) (butlast ps)
    \<and> list_all (\<lambda>e. 0 < pe_ullPartSize e \<and> pe_ullPartSize e \<le> len) ps)"
proof -
  obtain ps where "create_parts cb len 0 0 [] = Some ps" "parts_from cb len 0 0 ps" "length ps \<le> 1001"
    using part_length_parts [OF assms] by blast
  then show ?thesis
    using part_length_bounds(1) [OF assms]
    by (auto simp: parts_from_def word_unat_eq_iff word_less_nat_alt word_le_nat_alt list_all_iff)
qed

theorem parts_tile_file_witness:
  "5 * 0x100000 \<le> unat (0x500000 :: ULONGLONG) \<and> (\<exists>ps. create_parts 6291456 0x500000 0 0 [] = Some ps \<and> length ps \<le> 1001)"
  using parts_tile_file [of 6291456 5 "0x500000"]
  by (auto simp: part_length_def MEGABYTES_def ALIGN_ANY_def dwMaxParts_def Let_def)

text \<open>Part size 0 divides by zero.\<close>

lemma part_length_zero: "part_length cb 0 = Inl ()"
  by (simp add: part_length_def MEGABYTES_def ALIGN_ANY_def Let_def)

text \<open>With one part more than 1000 times the length there are 1001 parts.\<close>

lemma parts_1001: "\<exists>ps. create_parts (1000 * 0x500000 + 1) 0x500000 0 0 [] = Some ps \<and> length ps = 1001"
proof -
  have "part_length (1000 * 0x500000 + 1) 5 = Inr (Some 0x500000)"
    by (simp add: part_length_def MEGABYTES_def ALIGN_ANY_def dwMaxParts_def Let_def)
  then obtain ps where "create_parts (1000 * 0x500000 + 1) 0x500000 0 0 [] = Some ps"
      "parts_from (1000 * 0x500000 + 1) 0x500000 0 0 ps"
    using part_length_parts by blast
  then show ?thesis by (auto simp: parts_from_def)
qed

end
