(* ===== verification/BucketConfig.thy ===== *)
theory BucketConfig
  imports Multipart
begin

text \<open>
  Buckets and their settings (ECSConnection.cpp, S3ServiceInformation, ValidateS3BucketName to
  DeleteS3Bucket, the versioning, object lock and lifecycle requests). Requests, XML reader and
  dates as in the theory Multipart; the XML writer gives the document it is asked for and does not
  fail; the hash of a document is a parameter.
\<close>

section \<open>Answers that are no XML\<close>

definition malformed_error :: "S3_ERROR \<Rightarrow> S3_ERROR" where
  "malformed_error Error = SetError (Error\<lparr> dwHttpError := 500, S3Error := S3_ERROR_MalformedXML, sS3Code := ''MalformedXML'',
     sS3RequestID := ''GET'', sS3Resource := ''/'' \<rparr>)"

definition looks_like_xml :: "string \<Rightarrow> bool" where
  "looks_like_xml data \<longleftrightarrow> length data > 5 \<and> take 5 data = ''<?xml''"

definition http_get :: "string \<Rightarrow> mp_request" where
  "http_get res = \<lparr> rq_Method = ''GET'', rq_Resource = res, rq_Headers = [], rq_Body = NoBody \<rparr>"

definition http_delete :: "string \<Rightarrow> mp_request" where
  "http_delete res = \<lparr> rq_Method = ''DELETE'', rq_Resource = res, rq_Headers = [], rq_Body = NoBody \<rparr>"

section \<open>The list of buckets\<close>

record S3_BUCKET_INFO =
  sName :: string
  ftCreationDate :: FILETIME

definition bucket_Empty :: S3_BUCKET_INFO where
  "bucket_Empty = \<lparr> sName = [], ftCreationDate = 0 \<rparr>"

record S3_SERVICE_INFO =
  sv_sOwnerID :: string
  sv_sOwnerDisplayName :: string
  sv_BucketList :: "S3_BUCKET_INFO list"

type_synonym service_ctx = "S3_SERVICE_INFO \<times> S3_BUCKET_INFO"

definition XmlS3ServiceInfoCB :: "date_env \<Rightarrow> service_ctx xml_cb" where
  "XmlS3ServiceInfoCB denv ev c =
     (let (info, Entry) = c in
      case ev of
        XmlText p v \<Rightarrow>
          (0, if v = [] then c
              else if eq_nocase p ''//ListAllMyBucketsResult/Owner/ID'' then (info\<lparr> sv_sOwnerID := v \<rparr>, Entry)
              else if eq_nocase p ''//ListAllMyBucketsResult/Owner/DisplayName'' then (info\<lparr> sv_sOwnerDisplayName := v \<rparr>, Entry)
              else if eq_nocase p ''//ListAllMyBucketsResult/Buckets/Bucket/Name'' then (info, Entry\<lparr> sName := v \<rparr>)
              else if eq_nocase p ''//ListAllMyBucketsResult/Buckets/Bucket/CreationDate''
              then (info, Entry\<lparr> ftCreationDate := (let (e, ft) = ParseISO8601Date denv v False in if e \<noteq> 0 then 0 else ft) \<rparr>)
              else c)
      | XmlEndElement p \<Rightarrow>
          (0, if eq_nocase p ''//ListAllMyBucketsResult/Buckets/Bucket'' \<and> sName Entry \<noteq> []
              then (info\<lparr> sv_BucketList := sv_BucketList info @ [Entry] \<rparr>, bucket_Empty) else c)
      | _ \<Rightarrow> (0, c))"

definition S3ServiceInformation ::
  "'w mp_env \<Rightarrow> S3_SERVICE_INFO \<Rightarrow> 'w \<Rightarrow> (S3_ERROR \<times> S3_SERVICE_INFO) \<times> 'w" where
  "S3ServiceInformation env info w =
     (let ((e, data, hdrs), w1) = mp_send env (http_get ''/'') w; Error = SetError e in
      if IfError Error then ((Error, info), w1)
      else
        let info0 = \<lparr> sv_sOwnerID = [], sv_sOwnerDisplayName = [], sv_BucketList = [] \<rparr> in
        if looks_like_xml data then
          let (hr, (info1, _)) = mp_scan env (XmlS3ServiceInfoCB (mp_dates env)) data (info0, bucket_Empty) in
          ((if FAILED hr then S3_ERROR_new hr else Error, info1), w1)
        else ((malformed_error Error, info0), w1))"

section \<open>Bucket names\<close>

text \<open>ASCII letters and digits; \<open>iswlower\<close> and its kin may accept more in other locales.\<close>

definition bucket_char :: "char \<Rightarrow> bool" where
  "bucket_char ch \<longleftrightarrow> ch = CHR ''.'' \<or> ch = CHR ''-'' \<or> is_digit_ascii ch \<or> is_lower_ascii ch \<or> is_upper_ascii ch \<or> ch = CHR ''_''"

text \<open>The loop that looks for an address: the number of dots, and a flag that is only set to true.\<close>

fun ip_loop :: "string \<Rightarrow> nat \<times> bool \<Rightarrow> nat \<times> bool" where
  "ip_loop [] s = s"
| "ip_loop (ch # cs) (iDots, bAllNum) =
     ip_loop cs (if ch = CHR ''.'' then Suc iDots else iDots, if \<not> is_digit_ascii ch then True else bAllNum)"

definition ValidateS3BucketName :: "string \<Rightarrow> bool" where
  "ValidateS3BucketName nm =
     (if length nm < 3 \<or> length nm > 63 \<or> hd nm = CHR ''.'' \<or> last nm = CHR ''.''
         \<or> str_find ''..'' nm \<noteq> None then False
      else if list_ex (\<lambda>ch. \<not> bucket_char ch) nm then False
      else let (iDots, bAllNum) = ip_loop nm (0, True) in
        if bAllNum \<and> iDots = 3 then False else True)"

section \<open>Creating a bucket\<close>

datatype E_MD_SEARCH_TYPE = MDS_Unknown | MDS_Integer | MDS_Datetime | MDS_Decimal | MDS_String

definition TranslateSearchFieldType_of :: "string \<Rightarrow> E_MD_SEARCH_TYPE" where
  "TranslateSearchFieldType_of pszType =
     (if eq_nocase pszType ''String'' then MDS_String
      else if eq_nocase pszType ''Integer'' then MDS_Integer
      else if eq_nocase pszType ''Decimal'' then MDS_Decimal
      else if eq_nocase pszType ''Datetime'' then MDS_Datetime
      else MDS_Unknown)"

definition TranslateSearchFieldType :: "E_MD_SEARCH_TYPE \<Rightarrow> string" where
  "TranslateSearchFieldType t =
     (case t of MDS_String \<Rightarrow> ''String'' | MDS_Integer \<Rightarrow> ''Integer'' | MDS_Decimal \<Rightarrow> ''Decimal''
      | MDS_Datetime \<Rightarrow> ''Datetime'' | MDS_Unknown \<Rightarrow> ''Unknown'')"

definition SystemMDInit :: "string list" where
  "SystemMDInit = [''ObjectName'', ''Owner'', ''Size'', ''CreateTime'', ''LastModified'', ''ContentType'', ''Expiration'',
     ''ContentEncoding'', ''Expires'', ''Retention'']"

definition sAmzMetaPrefix :: string where "sAmzMetaPrefix = ''x-amz-meta-''"

type_synonym S3_BUCKET_INDEX_ENTRY = "string \<times> E_MD_SEARCH_TYPE"

record S3_BUCKET_OPTIONS =
  bo_bEnableFS :: bool
  bo_bTempSiteOutage :: bool
  bo_dwRetention :: DWORD
  bo_IndexFieldList :: "S3_BUCKET_INDEX_ENTRY list"

text \<open>The list of the fields to index, or the first field that is not valid.\<close>

fun index_fields :: "S3_BUCKET_INDEX_ENTRY list \<Rightarrow> string \<Rightarrow> S3_BUCKET_INDEX_ENTRY + string" where
  "index_fields [] sIndexFields = Inr sIndexFields"
| "index_fields ((sFieldName, t) # rest) sIndexFields =
     (let comma = (if sIndexFields \<noteq> [] then sIndexFields @ '','' else sIndexFields) in
      if sFieldName \<in> set SystemMDInit then index_fields rest (comma @ sFieldName)
      else if take (length sAmzMetaPrefix) sFieldName = sAmzMetaPrefix \<and> length sFieldName > length sAmzMetaPrefix \<and> t \<noteq> MDS_Unknown
      then index_fields rest (comma @ sFieldName @ '';'' @ TranslateSearchFieldType t)
      else Inl (sFieldName, t))"

definition bool_text :: "bool \<Rightarrow> string" where "bool_text b = (if b then ''true'' else ''false'')"

definition option_headers :: "S3_BUCKET_OPTIONS \<Rightarrow> string \<Rightarrow> (string \<times> string) list" where
  "option_headers o' sIndexFields =
     (if bo_dwRetention o' \<noteq> 0 then [(''x-emc-retention-period'', decimal (unat (bo_dwRetention o')))] else [])
     @ [(''x-emc-file-system-access-enabled'', bool_text (bo_bEnableFS o')), (''x-emc-is-stale-allowed'', bool_text (bo_bTempSiteOutage o'))]
     @ (if sIndexFields \<noteq> [] then [(''x-emc-metadata-search'', sIndexFields)] else [])"

definition s3_xmlns :: xml_attr where
  "s3_xmlns = \<lparr> xa_IsDefault = False, xa_Prefix = [], xa_LocalName = ''xmlns'', xa_Value = ''http://s3.amazonaws.com/doc/2006-03-01/'' \<rparr>"

definition region_body :: "string \<Rightarrow> mp_body" where
  "region_body sS3Region =
     (if sS3Region \<noteq> [] \<and> sS3Region \<noteq> ''us-east-1''
      then XmlBody (XElem [] ''CreateBucketConfiguration'' [s3_xmlns] False [text_elem ''LocationConstraint'' sS3Region])
      else NoBody)"

definition create_error :: "nat \<Rightarrow> DWORD \<Rightarrow> string \<Rightarrow> S3_ERROR" where
  "create_error code http details = SetError ((S3_ERROR_new 0)\<lparr> S3Error := code, dwHttpError := http, sDetails := details \<rparr>)"

definition CreateS3Bucket ::
  "'w mp_env \<Rightarrow> string \<Rightarrow> string \<Rightarrow> S3_BUCKET_OPTIONS option \<Rightarrow> (string \<times> string) list \<Rightarrow> 'w \<Rightarrow> S3_ERROR \<times> 'w" where
  "CreateS3Bucket env sS3Region pszBucketName pOptions MDList w =
     (if \<not> ValidateS3BucketName pszBucketName then (create_error S3_ERROR_InvalidBucketName 404 [], w)
      else
        let ((Error, info), w1) = S3ServiceInformation env \<lparr> sv_sOwnerID = [], sv_sOwnerDisplayName = [], sv_BucketList = [] \<rparr> w in
        if IfError Error then (Error, w1)
        else if list_ex (\<lambda>b. sName b = pszBucketName) (sv_BucketList info)
        then (SetError (Error\<lparr> S3Error := S3_ERROR_BucketAlreadyExists, dwHttpError := 404 \<rparr>), w1)
        else
          case (case pOptions of None \<Rightarrow> Inr [] | Some o' \<Rightarrow> map_sum id (option_headers o') (index_fields (bo_IndexFieldList o') [])) of
            Inl (f, t) \<Rightarrow> (SetError (Error\<lparr> S3Error := S3_ERROR_MetadataSearchNotEnabled, dwHttpError := 400,
                sDetails := ''Invalid search field: '' @ f @ '' Type: '' @ TranslateSearchFieldType t \<rparr>), w1)
          | Inr hdrs \<Rightarrow>
              let ((e, data, _), w2) = mp_send env \<lparr> rq_Method = ''PUT'', rq_Resource = ''/'' @ pszBucketName @ ''/'',
                    rq_Headers = (''Content-Length'', ''0'') # hdrs @ MDList, rq_Body = region_body sS3Region \<rparr> w1 in
              (SetError e, w2))"

definition DeleteS3Bucket :: "'w mp_env \<Rightarrow> string \<Rightarrow> 'w \<Rightarrow> S3_ERROR \<times> 'w" where
  "DeleteS3Bucket env pszBucketName w =
     (let ((e, data, hdrs), w1) = mp_send env (http_delete (''/'' @ pszBucketName @ ''/'')) w in (SetError e, w1))"

section \<open>Versioning\<close>

datatype E_S3_VERSIONING = Ver_Off | Ver_On | Ver_Suspended

definition XmlS3VersioningCB :: "E_S3_VERSIONING xml_cb" where
  "XmlS3VersioningCB ev c =
     (case ev of
        XmlText p v \<Rightarrow>
          if v \<noteq> [] \<and> eq_nocase p ''//VersioningConfiguration/Status'' then
            if eq_nocase v ''Suspended'' then (0, Ver_Suspended)
            else if eq_nocase v ''Enabled'' then (0, Ver_On)
            else (ERROR_INVALID_DATA, c)
          else (0, c)
      | _ \<Rightarrow> (0, c))"

definition S3GetBucketVersioning :: "'w mp_env \<Rightarrow> string \<Rightarrow> E_S3_VERSIONING \<Rightarrow> 'w \<Rightarrow> (S3_ERROR \<times> E_S3_VERSIONING) \<times> 'w" where
  "S3GetBucketVersioning env pszBucket Versioning w =
     (let ((e, data, hdrs), w1) = mp_send env (http_get (''/'' @ pszBucket @ ''?versioning'')) w; Error = SetError e in
      if IfError Error then ((Error, Versioning), w1)
      else if looks_like_xml data then
        let (hr, v) = mp_scan env XmlS3VersioningCB data Ver_Off in
        if hr \<noteq> 0 then ((S3_ERROR_new hr, Versioning), w1) else ((Error, v), w1)
      else ((malformed_error Error, Versioning), w1))"

definition versioning_tree :: "E_S3_VERSIONING \<Rightarrow> xml_tree" where
  "versioning_tree Versioning = XElem [] ''VersioningConfiguration'' [s3_xmlns] False
     [text_elem ''Status'' (if Versioning = Ver_On then ''Enabled'' else ''Suspended'')]"

definition S3PutBucketVersioning :: "'w mp_env \<Rightarrow> string \<Rightarrow> E_S3_VERSIONING \<Rightarrow> 'w \<Rightarrow> S3_ERROR \<times> 'w" where
  "S3PutBucketVersioning env pszBucket Versioning w =
     (let ((e, data, hdrs), w1) = mp_send env \<lparr> rq_Method = ''PUT'', rq_Resource = ''/'' @ pszBucket @ ''?versioning'',
            rq_Headers = [(''Content-Type'', ''application/xml'')], rq_Body = XmlBody (versioning_tree Versioning) \<rparr> w in
      (SetError e, w1))"

section \<open>Object lock\<close>

datatype E_OBJECT_LOCK_MODE = LockMode_Unknown | LockMode_Governance | LockMode_Compliance

record S3_OBJ_LOCK_CONFIG =
  bObjLockEnabled :: bool
  lk_Mode :: E_OBJECT_LOCK_MODE
  dwObjLockDays :: DWORD
  dwObjLockYears :: DWORD

definition XmlS3ObjLockConfigCB :: "S3_OBJ_LOCK_CONFIG xml_cb" where
  "XmlS3ObjLockConfigCB ev i =
     (case ev of
        XmlText p v \<Rightarrow>
          (0, if v = [] then i
              else if eq_nocase p ''//ObjectLockConfiguration/ObjectLockEnabled'' then i\<lparr> bObjLockEnabled := eq_nocase v ''Enabled'' \<rparr>
              else if eq_nocase p ''//ObjectLockConfiguration/Rule/DefaultRetention/Mode''
              then i\<lparr> lk_Mode := (if eq_nocase v ''GOVERNANCE'' then LockMode_Governance
                     else if eq_nocase v ''COMPLIANCE'' then LockMode_Compliance else LockMode_Unknown) \<rparr>
              else if eq_nocase p ''//ObjectLockConfiguration/Rule/DefaultRetention/Days'' then i\<lparr> dwObjLockDays := of_int (ttoi v) \<rparr>
              else if eq_nocase p ''//ObjectLockConfiguration/Rule/DefaultRetention/Years'' then i\<lparr> dwObjLockYears := of_int (ttoi v) \<rparr>
              else i)
      | _ \<Rightarrow> (0, i))"

definition GetObjectLockConfiguration :: "'w mp_env \<Rightarrow> string \<Rightarrow> S3_OBJ_LOCK_CONFIG \<Rightarrow> 'w \<Rightarrow> (S3_ERROR \<times> S3_OBJ_LOCK_CONFIG) \<times> 'w" where
  "GetObjectLockConfiguration env pszBucket LockInfo w =
     (let ((e, data, hdrs), w1) = mp_send env (http_get (''/'' @ pszBucket @ ''?object-lock'')) w; Error = SetError e in
      if IfError Error then ((Error, LockInfo), w1)
      else if data \<noteq> [] then
        let (hr, i) = mp_scan env XmlS3ObjLockConfigCB data LockInfo in ((if FAILED hr then S3_ERROR_new hr else Error, i), w1)
      else ((malformed_error Error, LockInfo), w1))"

section \<open>Lifecycle rules\<close>

record S3_LIFECYCLE_RULE =
  sRuleID :: string
  lr_sPath :: string
  bEnabled :: bool
  bExpiredDeleteMarkers :: bool
  dwDays :: DWORD
  dwNoncurrentDays :: DWORD
  dwAbortIncompleteMultipartUploadDays :: DWORD
  ftDate :: FILETIME

definition rule_Empty :: S3_LIFECYCLE_RULE where
  "rule_Empty = \<lparr> sRuleID = [], lr_sPath = [], bEnabled = False, bExpiredDeleteMarkers = False, dwDays = 0, dwNoncurrentDays = 0,
     dwAbortIncompleteMultipartUploadDays = 0, ftDate = 0 \<rparr>"

definition rule_IsEmpty :: "S3_LIFECYCLE_RULE \<Rightarrow> bool" where
  "rule_IsEmpty r \<longleftrightarrow> sRuleID r = [] \<or> (dwDays r = 0 \<and> dwNoncurrentDays r = 0 \<and> ftDate r = 0 \<and> \<not> bExpiredDeleteMarkers r)"

type_synonym lifecycle_ctx = "S3_LIFECYCLE_RULE list \<times> S3_LIFECYCLE_RULE"

definition lifecycle_text :: "date_env \<Rightarrow> string \<Rightarrow> string \<Rightarrow> S3_LIFECYCLE_RULE \<Rightarrow> S3_LIFECYCLE_RULE" where
  "lifecycle_text denv p v r =
     (if v = [] then r
      else if eq_nocase p ''//LifecycleConfiguration/Rule/ID'' then r\<lparr> sRuleID := v \<rparr>
      else if eq_nocase p ''//LifecycleConfiguration/Rule/Prefix'' then r\<lparr> lr_sPath := v \<rparr>
      else if eq_nocase p ''//LifecycleConfiguration/Rule/Status'' then r\<lparr> bEnabled := eq_nocase v ''enabled'' \<rparr>
      else if eq_nocase p ''//LifecycleConfiguration/Rule/Expiration/Days'' then r\<lparr> dwDays := of_int (ttoi v), ftDate := 0 \<rparr>
      else if eq_nocase p ''//LifecycleConfiguration/Rule/Expiration/Date''
      then r\<lparr> dwDays := 0, ftDate := snd (ParseISO8601Date denv v False) \<rparr>
      else if eq_nocase p ''//LifecycleConfiguration/Rule/NoncurrentVersionExpiration/NoncurrentDays''
      then r\<lparr> dwNoncurrentDays := of_int (ttoi v) \<rparr>
      else if eq_nocase p ''//LifecycleConfiguration/Rule/AbortIncompleteMultipartUpload/DaysAfterInitiation''
      then r\<lparr> dwAbortIncompleteMultipartUploadDays := of_int (ttoi v) \<rparr>
      else if eq_nocase p ''//LifecycleConfiguration/Rule/Expiration/ExpiredObjectDeleteMarker''
      then r\<lparr> bExpiredDeleteMarkers := eq_nocase v ''true'' \<rparr>
      else r)"

definition XmlS3LifecycleInfoCB :: "date_env \<Rightarrow> lifecycle_ctx xml_cb" where
  "XmlS3LifecycleInfoCB denv ev c =
     (let (rules, LastRule) = c in
      case ev of
        XmlText p v \<Rightarrow> (0, (rules, lifecycle_text denv p v LastRule))
      | XmlElement p as \<Rightarrow> (0, (rules, if eq_nocase p ''//LifecycleConfiguration/Rule'' then rule_Empty else LastRule))
      | XmlEndElement p \<Rightarrow>
          (0, if eq_nocase p ''//LifecycleConfiguration/Rule'' \<and> \<not> rule_IsEmpty LastRule
              then (rules @ [LastRule], rule_Empty) else c))"

definition S3GetLifecycle :: "'w mp_env \<Rightarrow> string \<Rightarrow> S3_LIFECYCLE_RULE list \<Rightarrow> 'w \<Rightarrow> (S3_ERROR \<times> S3_LIFECYCLE_RULE list) \<times> 'w" where
  "S3GetLifecycle env pszBucket Lifecycle w =
     (let ((e, data, hdrs), w1) = mp_send env (http_get (''/'' @ pszBucket @ ''?lifecycle'')) w; Error = SetError e in
      if IfError Error then ((Error, Lifecycle), w1)
      else if data \<noteq> [] then
        let (hr, (rules, _)) = mp_scan env (XmlS3LifecycleInfoCB (mp_dates env)) data (Lifecycle, rule_Empty) in
        ((if FAILED hr then S3_ERROR_new hr else Error, rules), w1)
      else ((malformed_error Error, Lifecycle), w1))"

definition S3DeleteLifecycle :: "'w mp_env \<Rightarrow> string \<Rightarrow> 'w \<Rightarrow> S3_ERROR \<times> 'w" where
  "S3DeleteLifecycle env pszBucket w =
     (let ((e, data, hdrs), w1) = mp_send env (http_delete (''/'' @ pszBucket @ ''?lifecycle'')) w in (SetError e, w1))"

definition slash_path :: "string \<Rightarrow> string" where
  "slash_path sPath = (if sPath \<noteq> [] \<and> last sPath \<noteq> CHR ''/'' then sPath @ ''/'' else sPath)"

definition elem :: "string \<Rightarrow> xml_tree list \<Rightarrow> xml_tree" where
  "elem name cs = XElem [] name [] False cs"

definition rule_tree :: "date_env \<Rightarrow> S3_LIFECYCLE_RULE \<Rightarrow> xml_tree" where
  "rule_tree denv r = elem ''Rule''
     ([text_elem ''ID'' (sRuleID r), text_elem ''Prefix'' (slash_path (lr_sPath r)),
       text_elem ''Status'' (if bEnabled r then ''Enabled'' else ''Disabled'')]
      @ (if ftDate r \<noteq> 0 \<or> dwDays r \<noteq> 0 \<or> bExpiredDeleteMarkers r then
           [elem ''Expiration''
              ((if ftDate r \<noteq> 0 then [text_elem ''Date'' (FormatISO8601Date denv (ftDate r) False True False)]
                else if dwDays r \<noteq> 0 then [text_elem ''Days'' (decimal (unat (dwDays r)))] else [])
               @ (if bExpiredDeleteMarkers r then [text_elem ''ExpiredObjectDeleteMarker'' ''true''] else []))]
         else [])
      @ (if dwNoncurrentDays r \<noteq> 0
         then [elem ''NoncurrentVersionExpiration'' [text_elem ''NoncurrentDays'' (decimal (unat (dwNoncurrentDays r)))]] else [])
      @ (if dwAbortIncompleteMultipartUploadDays r \<noteq> 0
         then [elem ''AbortIncompleteMultipartUpload''
                 [text_elem ''DaysAfterInitiation'' (decimal (unat (dwAbortIncompleteMultipartUploadDays r)))]] else []))"

definition lifecycle_tree :: "date_env \<Rightarrow> S3_LIFECYCLE_RULE list \<Rightarrow> xml_tree" where
  "lifecycle_tree denv rules = elem ''LifecycleConfiguration'' (map (rule_tree denv) rules)"

definition S3PutLifecycle :: "'w mp_env \<Rightarrow> (xml_tree \<Rightarrow> BYTE list) \<Rightarrow> string \<Rightarrow> S3_LIFECYCLE_RULE list \<Rightarrow> 'w \<Rightarrow> S3_ERROR \<times> 'w" where
  "S3PutLifecycle env md5 pszBucket Lifecycle w =
     (let doc = lifecycle_tree (mp_dates env) Lifecycle;
          ((e, data, hdrs), w1) = mp_send env \<lparr> rq_Method = ''PUT'', rq_Resource = ''/'' @ pszBucket @ ''/?lifecycle'',
            rq_Headers = [(''Content-MD5'', mp_base64 env (md5 doc))], rq_Body = XmlBody doc \<rparr> w in
      (SetError e, w1))"

section \<open>Bucket names as labels\<close>

text \<open>The labels of a name: what stands between its dots.\<close>

fun labels :: "string \<Rightarrow> string list" where
  "labels [] = [[]]"
| "labels (c # cs) = (if c = CHR ''.'' then [] # labels cs else (c # hd (labels cs)) # tl (labels cs))"

lemma labels_ne [simp]: "labels s \<noteq> []"
  by (cases s) simp_all

lemma length_labels: "length (labels s) = Suc (count_list s (CHR ''.''))"
  by (induction s) (auto simp: Suc_diff_Suc)

lemma ip_loop_dots: "ip_loop s (d, True) = (d + count_list s (CHR ''.''), True)"
  by (induction s arbitrary: d) auto

lemma str_find_dots: "str_find ''..'' s = None \<longleftrightarrow> [] \<notin> set (butlast (tl (labels s)))"
proof (induction s)
  case (Cons c cs)
  show ?case
  proof (cases "c = CHR ''.''")
    case False
    then show ?thesis using Cons by simp
  next
    case True
    show ?thesis
    proof (cases cs)
      case (Cons d ds)
      then show ?thesis using True Cons.IH by (cases "labels ds") auto
    qed (use True in simp)
  qed
qed simp

lemma hd_labels: "s \<noteq> [] \<Longrightarrow> hd (labels s) = [] \<longleftrightarrow> hd s = CHR ''.''"
  by (cases s) auto

lemma last_labels: "last (labels s) = [] \<longleftrightarrow> s = [] \<or> last s = CHR ''.''"
proof (induction s)
  case (Cons c cs)
  show ?case
  proof (cases "c = CHR ''.''")
    case True
    then show ?thesis using Cons by auto
  next
    case False
    have "tl (labels cs) \<noteq> []" if "cs \<noteq> []" "last cs = CHR ''.''"
    proof -
      have "CHR ''.'' \<in> set cs" using that last_in_set by metis
      then have "0 < count_list cs (CHR ''.'')" by (simp add: count_list_0_iff flip: neq0_conv)
      then show ?thesis using length_labels [of cs] by (cases "labels cs") auto
    qed
    then show ?thesis using Cons False by (cases "labels cs"; cases "tl (labels cs)") auto
  qed
qed simp

lemma no_empty_label:
  assumes "s \<noteq> []"
  shows "[] \<notin> set (labels s) \<longleftrightarrow> hd s \<noteq> CHR ''.'' \<and> last s \<noteq> CHR ''.'' \<and> str_find ''..'' s = None"
proof -
  have "set ls = {hd ls} \<union> set (butlast (tl ls)) \<union> {last ls}" if "ls \<noteq> []" for ls :: "string list"
    using that by (cases ls; cases "tl ls" rule: rev_cases) auto
  note split = this [OF labels_ne [of s]]
  have "[] \<in> set (labels s) \<longleftrightarrow> hd (labels s) = [] \<or> [] \<in> set (butlast (tl (labels s))) \<or> last (labels s) = []"
    by (subst split) auto
  then show ?thesis unfolding hd_labels [OF assms] last_labels str_find_dots using assms by blast
qed

lemma ValidateS3BucketName_labels:
  "ValidateS3BucketName s \<longleftrightarrow> 3 \<le> length s \<and> length s \<le> 63 \<and> list_all bucket_char s
     \<and> [] \<notin> set (labels s) \<and> length (labels s) \<noteq> 4"
proof -
  have c: "list_ex (\<lambda>ch. \<not> bucket_char ch) s \<longleftrightarrow> \<not> list_all bucket_char s" by (simp add: list_ex_iff list_all_iff)
  show ?thesis
  proof (cases "s = []")
    case False
    show ?thesis
      unfolding ValidateS3BucketName_def no_empty_label [OF False] c ip_loop_dots length_labels by auto
  qed (simp add: ValidateS3BucketName_def)
qed

section \<open>Lifecycle documents\<close>

lemma ttoi_decimal: "ttoi (decimal n) = min (int n) 2147483647"
proof -
  have d: "list_all is_digit_ascii (decimal n)" using decimal_digits by (simp add: list_all_iff)
  have h: "is_digit_ascii (hd (decimal n))" using d decimal_not_Nil [of n] by (cases "decimal n") simp_all
  have dw: "dropWhile is_space_c (decimal n) = decimal n"
    using digit_not_space [OF h] decimal_not_Nil [of n] by (cases "decimal n") simp_all
  have tw: "takeWhile is_digit_ascii (decimal n) = decimal n" using d by (simp add: takeWhile_eq_all_conv list_all_iff)
  show ?thesis using digit_not_space [OF h] unfolding ttoi_def Let_def dw by (simp add: tw)
qed

text \<open>What the children of an element of a rule do to the rule that is being read.\<close>

definition effect :: "date_env \<Rightarrow> string list \<Rightarrow> xml_tree list \<Rightarrow> (S3_LIFECYCLE_RULE \<Rightarrow> S3_LIFECYCLE_RULE) \<Rightarrow> bool" where
  "effect denv st ts f \<longleftrightarrow>
     (\<forall>rs r. run_events (XmlS3LifecycleInfoCB denv) (concat (map (tree_events st) ts)) (rs, r) = (0, (rs, f r)))"

lemma effect_Nil: "effect denv st [] id"
  by (simp add: effect_def)

lemma effect_append: "effect denv st as f \<Longrightarrow> effect denv st bs g \<Longrightarrow> effect denv st (as @ bs) (g \<circ> f)"
  by (simp add: effect_def run_events_append)

lemma effect_if: "(b \<Longrightarrow> effect denv st ts f) \<Longrightarrow> effect denv st (if b then ts else []) (if b then f else id)"
  by (simp add: effect_Nil)

lemma below_rule:
  assumes "29 < length p"
  shows "XmlS3LifecycleInfoCB denv (XmlElement p as) c = (0, c)" "XmlS3LifecycleInfoCB denv (XmlEndElement p) c = (0, c)"
  using assms by (auto simp: XmlS3LifecycleInfoCB_def eq_nocase_length split: prod.splits)

lemma effect_elem:
  assumes "29 < length (stack_path (st @ [name]))" "effect denv (st @ [name]) cs f"
  shows "effect denv st [elem name cs] f"
  using assms by (simp add: effect_def elem_def xml_name_def run_events_append below_rule Let_def)

lemma effect_leaf:
  assumes "29 < length (stack_path (st @ [name]))"
  shows "effect denv st [text_elem name v] (lifecycle_text denv (stack_path (st @ [name])) v)"
  using assms by (simp add: effect_def text_elem_def xml_name_def below_rule Let_def)
    (auto simp: XmlS3LifecycleInfoCB_def eq_nocase_length lifecycle_text_def)

abbreviation rule_path :: "string list" where
  "rule_path \<equiv> [''LifecycleConfiguration'', ''Rule'']"

lemma path_clashes:
  "\<not> eq_nocase ''//LifecycleConfiguration/Rule/Status'' ''//LifecycleConfiguration/Rule/Prefix''"
  "\<not> eq_nocase ''//LifecycleConfiguration/Rule/Expiration/Date'' ''//LifecycleConfiguration/Rule/Expiration/Days''"
  by (simp_all add: eq_nocase_def lower_str_def to_lower_def is_upper_ascii_def char_code_def)

lemma leaf_texts:
  "lifecycle_text denv (stack_path [''LifecycleConfiguration'', ''Rule'', ''ID'']) v r = (if v = [] then r else r\<lparr> sRuleID := v \<rparr>)"
  "lifecycle_text denv (stack_path [''LifecycleConfiguration'', ''Rule'', ''Prefix'']) v r = (if v = [] then r else r\<lparr> lr_sPath := v \<rparr>)"
  "lifecycle_text denv (stack_path [''LifecycleConfiguration'', ''Rule'', ''Status'']) v r = (if v = [] then r else r\<lparr> bEnabled := eq_nocase v ''enabled'' \<rparr>)"
  "lifecycle_text denv (stack_path [''LifecycleConfiguration'', ''Rule'', ''Expiration'', ''Days'']) v r
     = (if v = [] then r else r\<lparr> dwDays := of_int (ttoi v), ftDate := 0 \<rparr>)"
  "lifecycle_text denv (stack_path [''LifecycleConfiguration'', ''Rule'', ''Expiration'', ''Date'']) v r
     = (if v = [] then r else r\<lparr> dwDays := 0, ftDate := snd (ParseISO8601Date denv v False) \<rparr>)"
  "lifecycle_text denv (stack_path [''LifecycleConfiguration'', ''Rule'', ''NoncurrentVersionExpiration'', ''NoncurrentDays'']) v r
     = (if v = [] then r else r\<lparr> dwNoncurrentDays := of_int (ttoi v) \<rparr>)"
  "lifecycle_text denv (stack_path [''LifecycleConfiguration'', ''Rule'', ''AbortIncompleteMultipartUpload'', ''DaysAfterInitiation'']) v r
     = (if v = [] then r else r\<lparr> dwAbortIncompleteMultipartUploadDays := of_int (ttoi v) \<rparr>)"
  "lifecycle_text denv (stack_path [''LifecycleConfiguration'', ''Rule'', ''Expiration'', ''ExpiredObjectDeleteMarker'']) v r
     = (if v = [] then r else r\<lparr> bExpiredDeleteMarkers := eq_nocase v ''true'' \<rparr>)"
  by (simp_all add: stack_path_def lifecycle_text_def eq_nocase_length path_clashes)

text \<open>What becomes of a rule: its path ends with a slash, a number of days gives way to a date, and
  no number is larger than an \<open>int\<close>.\<close>

definition days_kept :: "DWORD \<Rightarrow> DWORD" where
  "days_kept n = (if unat n > 2147483647 then 2147483647 else n)"

definition stored_rule :: "S3_LIFECYCLE_RULE \<Rightarrow> S3_LIFECYCLE_RULE" where
  "stored_rule r = r\<lparr> lr_sPath := slash_path (lr_sPath r), dwDays := (if ftDate r \<noteq> 0 then 0 else days_kept (dwDays r)),
     dwNoncurrentDays := days_kept (dwNoncurrentDays r),
     dwAbortIncompleteMultipartUploadDays := days_kept (dwAbortIncompleteMultipartUploadDays r) \<rparr>"

lemma days_kept_ttoi: "of_int (ttoi (decimal (unat n))) = days_kept n"
proof -
  have "(of_int (min (int m) 2147483647) :: DWORD) = (if m > 2147483647 then 2147483647 else of_nat m)" for m
    by (simp add: min_def)
  from this [of "unat n"] show ?thesis by (simp add: ttoi_decimal days_kept_def)
qed

lemma days_kept_0: "days_kept 0 = 0"
  by (simp add: days_kept_def)

text \<open>A rule whose path is empty or ends with a slash, with a date or a number of days, and numbers
  that fit, comes back as it is.\<close>

lemma stored_rule_same:
  assumes "lr_sPath r = [] \<or> last (lr_sPath r) = CHR ''/''" "ftDate r = 0 \<or> dwDays r = 0" "unat (dwDays r) < 2147483648"
    "unat (dwNoncurrentDays r) < 2147483648" "unat (dwAbortIncompleteMultipartUploadDays r) < 2147483648"
  shows "stored_rule r = r"
  using assms by (cases r) (auto simp: stored_rule_def slash_path_def days_kept_def)

text \<open>The date of a rule is one that the Windows conversions give back.\<close>

definition rule_ok :: "date_env \<Rightarrow> S3_LIFECYCLE_RULE \<Rightarrow> bool" where
  "rule_ok denv r \<longleftrightarrow> ftDate r = 0 \<or> (case FileTimeToSystemTime denv (ftDate r) of None \<Rightarrow> False
     | Some st \<Rightarrow> SystemTimeToFileTime denv (st\<lparr> wDayOfWeek := 0 \<rparr>) = Inr (ftDate r))"

lemma date_kept:
  assumes "rule_ok denv r" "ftDate r \<noteq> 0"
  shows "ParseISO8601Date denv (FormatISO8601Date denv (ftDate r) False True False) False = (0, ftDate r)"
    "FormatISO8601Date denv (ftDate r) False True False \<noteq> []"
proof -
  obtain st where st: "FileTimeToSystemTime denv (ftDate r) = Some st" "SystemTimeToFileTime denv (st\<lparr> wDayOfWeek := 0 \<rparr>) = Inr (ftDate r)"
    using assms by (auto simp: rule_ok_def split: option.splits)
  have f: "FormatISO8601Date denv (ftDate r) False True False = FormatISO8601Date_st denv st False True False"
    using st(1) by (simp add: FormatISO8601Date_def)
  show "ParseISO8601Date denv (FormatISO8601Date denv (ftDate r) False True False) False = (0, ftDate r)"
    unfolding f using format_parse [of False st denv True] st(2) by simp
  show "FormatISO8601Date denv (ftDate r) False True False \<noteq> []"
    unfolding f by (simp add: FormatISO8601Date_st_def format_fields_def Let_def)
qed

lemma rule_effect:
  assumes ok: "rule_ok denv r"
  obtains cs f where "rule_tree denv r = elem ''Rule'' cs" "effect denv rule_path cs f" "f rule_Empty = stored_rule r"
proof -
  define P where "P = [text_elem ''ID'' (sRuleID r)] @ [text_elem ''Prefix'' (slash_path (lr_sPath r))]
      @ [text_elem ''Status'' (if bEnabled r then ''Enabled'' else ''Disabled'')]"
  define D where "D = (if ftDate r \<noteq> 0 then [text_elem ''Date'' (FormatISO8601Date denv (ftDate r) False True False)]
      else if dwDays r \<noteq> 0 then [text_elem ''Days'' (decimal (unat (dwDays r)))] else [])"
  define M where "M = (if bExpiredDeleteMarkers r then [text_elem ''ExpiredObjectDeleteMarker'' ''true''] else [])"
  define E where "E = (if ftDate r \<noteq> 0 \<or> dwDays r \<noteq> 0 \<or> bExpiredDeleteMarkers r then [elem ''Expiration'' (D @ M)] else [])"
  define N where "N = (if dwNoncurrentDays r \<noteq> 0
      then [elem ''NoncurrentVersionExpiration'' [text_elem ''NoncurrentDays'' (decimal (unat (dwNoncurrentDays r)))]] else [])"
  define A where "A = (if dwAbortIncompleteMultipartUploadDays r \<noteq> 0
      then [elem ''AbortIncompleteMultipartUpload''
              [text_elem ''DaysAfterInitiation'' (decimal (unat (dwAbortIncompleteMultipartUploadDays r)))]] else [])"
  have tree: "rule_tree denv r = elem ''Rule'' (P @ E @ N @ A)"
    by (simp add: rule_tree_def P_def E_def N_def A_def D_def M_def)
  let ?path = "slash_path (lr_sPath r)"
  let ?p = "\<lambda>r'. r'\<lparr> sRuleID := (if sRuleID r = [] then sRuleID r' else sRuleID r),
      lr_sPath := (if ?path = [] then lr_sPath r' else ?path), bEnabled := bEnabled r \<rparr>"
  let ?d = "\<lambda>r'. if ftDate r \<noteq> 0 then r'\<lparr> dwDays := 0, ftDate := ftDate r \<rparr>
      else if dwDays r \<noteq> 0 then r'\<lparr> dwDays := days_kept (dwDays r), ftDate := 0 \<rparr> else r'"
  let ?m = "\<lambda>r'. if bExpiredDeleteMarkers r then r'\<lparr> bExpiredDeleteMarkers := True \<rparr> else r'"
  let ?n = "\<lambda>r'. if dwNoncurrentDays r \<noteq> 0 then r'\<lparr> dwNoncurrentDays := days_kept (dwNoncurrentDays r) \<rparr> else r'"
  let ?a = "\<lambda>r'. if dwAbortIncompleteMultipartUploadDays r \<noteq> 0
      then r'\<lparr> dwAbortIncompleteMultipartUploadDays := days_kept (dwAbortIncompleteMultipartUploadDays r) \<rparr> else r'"
  note days = days_kept_ttoi
  have long: "29 < length (stack_path (rule_path @ [x]))" if "x \<noteq> []" for x
    using that by (simp add: stack_path_def)
  have long': "29 < length (stack_path [''LifecycleConfiguration'', ''Rule'', x])" if "x \<noteq> []" for x
    using long [OF that] by simp
  have longer': "29 < length (stack_path [''LifecycleConfiguration'', ''Rule'', x, y])" for x y
    by (simp add: stack_path_def)
  have enabled: "eq_nocase ''Enabled'' ''enabled''" "\<not> eq_nocase ''Disabled'' ''enabled''"
    by (code_simp, simp add: eq_nocase_length)
  have single: "effect denv st [text_elem name v] g"
    if "29 < length (stack_path (st @ [name]))" "\<And>r'. lifecycle_text denv (stack_path (st @ [name])) v r' = g r'" for st name v g
    using effect_leaf [OF that(1), of denv v] that(2) by (simp add: effect_def)
  have p: "effect denv rule_path P ?p"
  proof -
    have 1: "effect denv rule_path [text_elem ''ID'' (sRuleID r)] (\<lambda>r'. r'\<lparr> sRuleID := (if sRuleID r = [] then sRuleID r' else sRuleID r) \<rparr>)"
      by (rule single) (simp_all add: long' leaf_texts)
    have 2: "effect denv rule_path [text_elem ''Prefix'' (slash_path (lr_sPath r))]
        (\<lambda>r'. r'\<lparr> lr_sPath := (if ?path = [] then lr_sPath r' else ?path) \<rparr>)"
      by (rule single) (simp_all add: long' leaf_texts)
    have 3: "effect denv rule_path [text_elem ''Status'' (if bEnabled r then ''Enabled'' else ''Disabled'')] (\<lambda>r'. r'\<lparr> bEnabled := bEnabled r \<rparr>)"
      by (rule single) (simp_all add: long' leaf_texts enabled)
    have eq: "(\<lambda>r'. r'\<lparr> bEnabled := bEnabled r \<rparr>) \<circ> (\<lambda>r'. r'\<lparr> lr_sPath := (if ?path = [] then lr_sPath r' else ?path) \<rparr>)
        \<circ> (\<lambda>r'. r'\<lparr> sRuleID := (if sRuleID r = [] then sRuleID r' else sRuleID r) \<rparr>) = ?p"
      by (rule ext) simp
    show ?thesis unfolding P_def eq [symmetric] by (rule effect_append [OF 1 effect_append [OF 2 3]])
  qed
  have d: "effect denv (rule_path @ [''Expiration'']) D ?d"
  proof (cases "ftDate r \<noteq> 0")
    case True
    then have "effect denv (rule_path @ [''Expiration'']) [text_elem ''Date'' (FormatISO8601Date denv (ftDate r) False True False)]
        (\<lambda>r'. r'\<lparr> dwDays := 0, ftDate := ftDate r \<rparr>)"
      using date_kept [OF ok True] longer' by (intro single) (simp_all add: leaf_texts)
    then show ?thesis using True by (simp add: D_def)
  next
    case False
    have "effect denv (rule_path @ [''Expiration'']) [text_elem ''Days'' (decimal (unat (dwDays r)))]
        (\<lambda>r'. r'\<lparr> dwDays := days_kept (dwDays r), ftDate := 0 \<rparr>)"
      using days longer' by (intro single) (simp_all add: leaf_texts)
    then show ?thesis using False effect_Nil by (simp add: D_def id_def)
  qed
  have m: "effect denv (rule_path @ [''Expiration'']) M ?m"
  proof -
    have "effect denv (rule_path @ [''Expiration'']) [text_elem ''ExpiredObjectDeleteMarker'' ''true''] (\<lambda>r'. r'\<lparr> bExpiredDeleteMarkers := True \<rparr>)"
      using longer' by (intro single) (simp_all add: leaf_texts)
    then show ?thesis using effect_Nil by (simp add: M_def id_def)
  qed
  have e: "effect denv rule_path E (\<lambda>r'. ?m (?d r'))"
  proof -
    have "effect denv rule_path [elem ''Expiration'' (D @ M)] (?m \<circ> ?d)"
      by (rule effect_elem [OF long effect_append [OF d m]]) simp
    then show ?thesis using effect_Nil by (simp add: E_def comp_def id_def)
  qed
  have n: "effect denv rule_path N ?n"
  proof -
    have "effect denv (rule_path @ [''NoncurrentVersionExpiration'']) [text_elem ''NoncurrentDays'' (decimal (unat (dwNoncurrentDays r)))]
        (\<lambda>r'. r'\<lparr> dwNoncurrentDays := days_kept (dwNoncurrentDays r) \<rparr>)"
      using days longer' by (intro single) (simp_all add: leaf_texts)
    then show ?thesis using effect_Nil effect_elem [OF long] by (simp add: N_def id_def)
  qed
  have a: "effect denv rule_path A ?a"
  proof -
    have "effect denv (rule_path @ [''AbortIncompleteMultipartUpload''])
        [text_elem ''DaysAfterInitiation'' (decimal (unat (dwAbortIncompleteMultipartUploadDays r)))]
        (\<lambda>r'. r'\<lparr> dwAbortIncompleteMultipartUploadDays := days_kept (dwAbortIncompleteMultipartUploadDays r) \<rparr>)"
      using days longer' by (intro single) (simp_all add: leaf_texts)
    then show ?thesis using effect_Nil effect_elem [OF long] by (simp add: A_def id_def)
  qed
  have all: "effect denv rule_path (P @ E @ N @ A) (\<lambda>r'. ?a (?n (?m (?d (?p r')))))"
    using effect_append [OF p effect_append [OF e effect_append [OF n a]]] by (simp add: comp_def)
  have "?a (?n (?m (?d (?p rule_Empty)))) = stored_rule r"
    by (cases r) (auto simp: rule_Empty_def stored_rule_def days_kept_0)
  then show thesis using that [OF tree all] by simp
qed

text \<open>The rules of a document are appended, except those that count as empty.\<close>

abbreviation kept :: "S3_LIFECYCLE_RULE list \<Rightarrow> S3_LIFECYCLE_RULE list" where
  "kept rules \<equiv> filter (\<lambda>r. \<not> rule_IsEmpty r) rules"

lemma rule_events:
  assumes "rule_ok denv r"
  shows "\<exists>r1. run_events (XmlS3LifecycleInfoCB denv) (tree_events [''LifecycleConfiguration''] (rule_tree denv r)) (rs, r0)
    = (0, (rs @ kept [stored_rule r], r1))"
proof -
  obtain cs f where t: "rule_tree denv r = elem ''Rule'' cs" and e: "effect denv rule_path cs f" and f: "f rule_Empty = stored_rule r"
    using rule_effect [OF assms] .
  have p: "stack_path rule_path = ''//LifecycleConfiguration/Rule''" by (simp add: stack_path_def)
  have ev: "tree_events [''LifecycleConfiguration''] (rule_tree denv r)
      = [XmlElement (stack_path rule_path) []] @ concat (map (tree_events rule_path) cs) @ [XmlEndElement (stack_path rule_path)]"
    by (simp add: t elem_def xml_name_def AttrList_def Let_def)
  have "run_events (XmlS3LifecycleInfoCB denv) (concat (map (tree_events rule_path) cs)) (rs, rule_Empty) = (0, (rs, stored_rule r))"
    using e f by (simp add: effect_def)
  then show ?thesis
    unfolding ev run_events_append by (auto simp: p XmlS3LifecycleInfoCB_def)
qed

lemma rules_events:
  assumes "list_all (rule_ok denv) rules"
  shows "\<exists>r1. run_events (XmlS3LifecycleInfoCB denv)
      (concat (map (tree_events [''LifecycleConfiguration'']) (map (rule_tree denv) rules))) (rs, r0) = (0, (rs @ kept (map stored_rule rules), r1))"
  using assms
proof (induction rules arbitrary: rs r0)
  case (Cons r rules)
  then obtain r1 where 1: "run_events (XmlS3LifecycleInfoCB denv) (tree_events [''LifecycleConfiguration''] (rule_tree denv r)) (rs, r0)
      = (0, (rs @ kept [stored_rule r], r1))"
    using rule_events [of denv r rs r0] by auto
  obtain r2 where 2: "run_events (XmlS3LifecycleInfoCB denv)
      (concat (map (tree_events [''LifecycleConfiguration'']) (map (rule_tree denv) rules))) (rs @ kept [stored_rule r], r1)
      = (0, ((rs @ kept [stored_rule r]) @ kept (map stored_rule rules), r2))"
    using Cons.IH [of "rs @ kept [stored_rule r]" r1] Cons.prems by auto
  have k: "kept (stored_rule r # map stored_rule rules) = kept [stored_rule r] @ kept (map stored_rule rules)" by simp
  show ?case
    unfolding k list.map concat.simps run_events_append 1 by (simp add: 2 [simplified append_assoc] del: map_map filter.simps)
qed simp

lemma lifecycle_scan:
  assumes "list_all (rule_ok denv) rules"
  shows "\<exists>r1. ScanXml (XmlS3LifecycleInfoCB denv) (tree_nodes (lifecycle_tree denv rules), hr) (rs, r0) = (0, (rs @ kept (map stored_rule rules), r1))"
proof -
  obtain r1 where 1: "run_events (XmlS3LifecycleInfoCB denv)
      (concat (map (tree_events [''LifecycleConfiguration'']) (map (rule_tree denv) rules))) (rs, r0) = (0, (rs @ kept (map stored_rule rules), r1))"
    using rules_events [OF assms] by blast
  have root: "\<not> eq_nocase ''//LifecycleConfiguration'' ''//LifecycleConfiguration/Rule''" by (simp add: eq_nocase_length)
  have ev: "tree_events [] (lifecycle_tree denv rules) = [XmlElement ''//LifecycleConfiguration'' []]
      @ concat (map (tree_events [''LifecycleConfiguration'']) (map (rule_tree denv) rules)) @ [XmlEndElement ''//LifecycleConfiguration'']"
    by (simp add: lifecycle_tree_def elem_def xml_name_def AttrList_def stack_path_def)
  have s: "XmlS3LifecycleInfoCB denv (XmlElement ''//LifecycleConfiguration'' []) c = (0, c)"
    "XmlS3LifecycleInfoCB denv (XmlEndElement ''//LifecycleConfiguration'') c = (0, c)" for c
    using root by (auto simp: XmlS3LifecycleInfoCB_def split: prod.splits)
  show ?thesis
    unfolding ScanXml_tree ev run_events_append by (rule exI [of _ r1]) (simp add: s 1 del: map_map)
qed

text \<open>A server that keeps the document it is sent, and a reader that delivers its nodes.\<close>

definition keeps_document :: "'w mp_env \<Rightarrow> string \<Rightarrow> string \<Rightarrow> xml_tree \<Rightarrow> 'w \<Rightarrow> bool" where
  "keeps_document env put get doc w \<longleftrightarrow>
     (\<forall>rq. rq_Method rq = ''PUT'' \<and> rq_Resource rq = put \<and> rq_Body rq = XmlBody doc \<longrightarrow>
       (case mp_send env (http_get get) (snd (mp_send env rq w)) of ((e, data, hdrs), w2) \<Rightarrow>
          \<not> IfError (SetError e) \<and> looks_like_xml data \<and> fst (mp_reader env data) = tree_nodes doc))"

lemma lifecycle_put_get:
  assumes ok: "list_all (rule_ok (mp_dates env)) rules"
    and srv: "keeps_document env (''/'' @ b @ ''/?lifecycle'') (''/'' @ b @ ''?lifecycle'') (lifecycle_tree (mp_dates env) rules) w"
  shows "case S3GetLifecycle env b [] (snd (S3PutLifecycle env md5 b rules w)) of ((E, got), _) \<Rightarrow> \<not> IfError E \<and> got = kept (map stored_rule rules)"
proof -
  define rq where "rq = \<lparr> rq_Method = ''PUT'', rq_Resource = ''/'' @ b @ ''/?lifecycle'',
      rq_Headers = [(''Content-MD5'', mp_base64 env (md5 (lifecycle_tree (mp_dates env) rules)))],
      rq_Body = XmlBody (lifecycle_tree (mp_dates env) rules) \<rparr>"
  have w1: "snd (S3PutLifecycle env md5 b rules w) = snd (mp_send env rq w)"
    by (simp add: S3PutLifecycle_def rq_def Let_def split: prod.splits)
  obtain e data hdrs w2 where g: "mp_send env (http_get (''/'' @ b @ ''?lifecycle'')) (snd (mp_send env rq w)) = ((e, data, hdrs), w2)"
    by (metis prod.exhaust)
  have k: "\<not> IfError (SetError e)" "data \<noteq> []" "fst (mp_reader env data) = tree_nodes (lifecycle_tree (mp_dates env) rules)"
    using srv [unfolded keeps_document_def, rule_format, of rq] g by (auto simp: rq_def looks_like_xml_def)
  obtain r1 where "ScanXml (XmlS3LifecycleInfoCB (mp_dates env)) (mp_reader env data) ([], rule_Empty) = (0, (kept (map stored_rule rules), r1))"
    using lifecycle_scan [OF ok, of "snd (mp_reader env data)" "[]" rule_Empty] k(3) by (metis append_Nil prod.collapse)
  then show ?thesis
    using g k by (simp add: w1 S3GetLifecycle_def mp_scan_def)
qed

lemma versioning_put_get:
  assumes srv: "keeps_document env (''/'' @ b @ ''?versioning'') (''/'' @ b @ ''?versioning'') (versioning_tree v) w"
  shows "case S3GetBucketVersioning env b v0 (snd (S3PutBucketVersioning env b v w)) of
    ((E, got), _) \<Rightarrow> \<not> IfError E \<and> got = (if v = Ver_On then Ver_On else Ver_Suspended)"
proof -
  define rq where "rq = \<lparr> rq_Method = ''PUT'', rq_Resource = ''/'' @ b @ ''?versioning'',
      rq_Headers = [(''Content-Type'', ''application/xml'')], rq_Body = XmlBody (versioning_tree v) \<rparr>"
  have w1: "snd (S3PutBucketVersioning env b v w) = snd (mp_send env rq w)"
    by (simp add: S3PutBucketVersioning_def rq_def Let_def split: prod.splits)
  obtain e data hdrs w2 where g: "mp_send env (http_get (''/'' @ b @ ''?versioning'')) (snd (mp_send env rq w)) = ((e, data, hdrs), w2)"
    by (metis prod.exhaust)
  have k: "\<not> IfError (SetError e)" "looks_like_xml data" "fst (mp_reader env data) = tree_nodes (versioning_tree v)"
    using srv [unfolded keeps_document_def, rule_format, of rq] g by (auto simp: rq_def)
  have "mp_reader env data = (tree_nodes (versioning_tree v), snd (mp_reader env data))" using k(3) by (metis prod.collapse)
  then have "ScanXml XmlS3VersioningCB (mp_reader env data) Ver_Off
      = run_events XmlS3VersioningCB (tree_events [] (versioning_tree v)) Ver_Off"
    by (metis ScanXml_tree)
  also have "\<dots> = (0, if v = Ver_On then Ver_On else Ver_Suspended)"
    by (simp add: versioning_tree_def text_elem_def xml_name_def stack_path_def XmlS3VersioningCB_def eq_nocase_length Let_def)
  finally show ?thesis
    using g k by (simp add: w1 S3GetBucketVersioning_def mp_scan_def)
qed

section \<open>Properties\<close>

text \<open>C37: Lifecycle rules that were put and kept by the server are read back in order, each as
  \<open>stored_rule\<close> says: with a slash at the end of its path, without the days of a rule that also has a
  date, with numbers of days up to 2147483647 (and so unchanged when all this is already the case,
  \<open>stored_rule_same\<close>). The rules that count as empty are lost: those without an id and those with no
  expiration, among them a rule that only aborts incomplete uploads. Dates are ones that the Windows
  conversions give back.\<close>

theorem lifecycle_survives:
  assumes "list_all (rule_ok (mp_dates env)) rules"
    and "keeps_document env (''/'' @ b @ ''/?lifecycle'') (''/'' @ b @ ''?lifecycle'') (lifecycle_tree (mp_dates env) rules) w"
  shows "case S3GetLifecycle env b [] (snd (S3PutLifecycle env md5 b rules w)) of
    ((E, got), _) \<Rightarrow> \<not> IfError E \<and> got = filter (\<lambda>r. \<not> rule_IsEmpty r) (map stored_rule rules)"
  by (rule lifecycle_put_get [OF assms])

definition demo_rules :: "S3_LIFECYCLE_RULE list" where
  "demo_rules = [rule_Empty\<lparr> sRuleID := ''a'', lr_sPath := ''d'', bEnabled := True, dwDays := 30 \<rparr>,
     rule_Empty\<lparr> sRuleID := ''b'', dwAbortIncompleteMultipartUploadDays := 7 \<rparr>]"

definition demo_dates :: date_env where
  "demo_dates = \<lparr> SystemTimeToFileTime = (\<lambda>_. Inr 0), FileTimeToSystemTime = (\<lambda>_. None),
     TzSpecificLocalTimeToSystemTime = Inr, SystemTimeToTzSpecificLocalTime = Some \<rparr>"

definition demo_store :: "unit mp_env" where
  "demo_store = \<lparr> mp_send = (\<lambda>rq w. ((S3_ERROR_new 0, ''<?xml '', []), w)),
     mp_reader = (\<lambda>_. (tree_nodes (lifecycle_tree demo_dates demo_rules), 0)), mp_base64 = (\<lambda>_. []),
     mp_maps = s3_maps_init, mp_dates = demo_dates \<rparr>"

theorem lifecycle_survives_witness:
  "case S3GetLifecycle demo_store ''b'' [] (snd (S3PutLifecycle demo_store (\<lambda>_. []) ''b'' demo_rules ())) of
    ((E, got), _) \<Rightarrow> \<not> IfError E \<and> got = filter (\<lambda>r. \<not> rule_IsEmpty r) (map stored_rule demo_rules)"
proof (rule lifecycle_survives)
  show "list_all (rule_ok (mp_dates demo_store)) demo_rules"
    by (simp add: demo_rules_def rule_ok_def rule_Empty_def)
  show "keeps_document demo_store (''/'' @ ''b'' @ ''/?lifecycle'') (''/'' @ ''b'' @ ''?lifecycle'')
      (lifecycle_tree (mp_dates demo_store) demo_rules) ()"
    by (simp add: keeps_document_def demo_store_def looks_like_xml_def SetError_def IfError_def S3_ERROR_new_def)
qed

text \<open>A bucket name is accepted exactly when it has 3 to 63 characters, all of them allowed, no
  label between its dots is empty, and it does not have four labels.\<close>

theorem bucket_name_labels:
  "ValidateS3BucketName s \<longleftrightarrow> 3 \<le> length s \<and> length s \<le> 63 \<and> list_all bucket_char s
     \<and> [] \<notin> set (labels s) \<and> length (labels s) \<noteq> 4"
  by (rule ValidateS3BucketName_labels)

end
