(* ===== verification/Acl.thy ===== *)
theory Acl
  imports BucketConfig
begin

text \<open>
  Access control lists (ECSConnection.cpp, TranslateACLText, ReadACL, WriteACL, RemoveACLDups;
  ECSConnection.h, ACL_ENTRY). Requests, XML reader and writer as in the theory BucketConfig.
\<close>

section \<open>Entries\<close>

datatype E_S3_ACL_VALUES = AAV_INVALID | AAV_NONE | AAV_READ | AAV_WRITE | AAV_FULL_CONTROL | AAV_READ_ACP | AAV_WRITE_ACP

text \<open>The order of the cast to int.\<close>

fun acl_int :: "E_S3_ACL_VALUES \<Rightarrow> nat" where
  "acl_int AAV_INVALID = 0"
| "acl_int AAV_NONE = 1"
| "acl_int AAV_READ = 2"
| "acl_int AAV_WRITE = 3"
| "acl_int AAV_FULL_CONTROL = 4"
| "acl_int AAV_READ_ACP = 5"
| "acl_int AAV_WRITE_ACP = 6"

lemma acl_int_inject [simp]: "acl_int a = acl_int b \<longleftrightarrow> a = b"
  by (cases a; cases b) simp_all

instantiation E_S3_ACL_VALUES :: linorder
begin

definition less_eq_E_S3_ACL_VALUES :: "E_S3_ACL_VALUES \<Rightarrow> E_S3_ACL_VALUES \<Rightarrow> bool" where
  "a \<le> b \<longleftrightarrow> acl_int a \<le> acl_int b"

definition less_E_S3_ACL_VALUES :: "E_S3_ACL_VALUES \<Rightarrow> E_S3_ACL_VALUES \<Rightarrow> bool" where
  "a < b \<longleftrightarrow> acl_int a < acl_int b"

instance
  by standard (auto simp: less_eq_E_S3_ACL_VALUES_def less_E_S3_ACL_VALUES_def)

end

record ACL_ENTRY =
  sID :: string
  ac_sDisplayName :: string
  Acl :: E_S3_ACL_VALUES
  bGroup :: bool

definition acl_Clear :: ACL_ENTRY where
  "acl_Clear = \<lparr> sID = [], ac_sDisplayName = [], Acl = AAV_INVALID, bGroup = False \<rparr>"

fun GetAclString :: "E_S3_ACL_VALUES \<Rightarrow> string" where
  "GetAclString AAV_NONE = ''NONE''"
| "GetAclString AAV_READ = ''READ''"
| "GetAclString AAV_WRITE = ''WRITE''"
| "GetAclString AAV_FULL_CONTROL = ''FULL_CONTROL''"
| "GetAclString AAV_READ_ACP = ''READ_ACP''"
| "GetAclString AAV_WRITE_ACP = ''WRITE_ACP''"
| "GetAclString AAV_INVALID = ''INVALID''"

fun GetAclHeaderString :: "E_S3_ACL_VALUES \<Rightarrow> string" where
  "GetAclHeaderString AAV_READ = ''x-amz-grant-read''"
| "GetAclHeaderString AAV_WRITE = ''x-amz-grant-write''"
| "GetAclHeaderString AAV_FULL_CONTROL = ''x-amz-grant-full-control''"
| "GetAclHeaderString AAV_READ_ACP = ''x-amz-grant-read-acp''"
| "GetAclHeaderString AAV_WRITE_ACP = ''x-amz-grant-write-acp''"
| "GetAclHeaderString _ = []"

definition trim :: "string \<Rightarrow> string" where
  "trim s = rev (dropWhile is_space_c (rev (dropWhile is_space_c s)))"

definition TranslateACLText :: "string \<Rightarrow> E_S3_ACL_VALUES" where
  "TranslateACLText pszEntry =
     (let sValue = trim pszEntry in
      if eq_nocase sValue ''NONE'' then AAV_NONE
      else if eq_nocase sValue ''READ'' then AAV_READ
      else if eq_nocase sValue ''WRITE'' then AAV_WRITE
      else if eq_nocase sValue ''FULL_CONTROL'' then AAV_FULL_CONTROL
      else if eq_nocase sValue ''READ_ACP'' then AAV_READ_ACP
      else if eq_nocase sValue ''WRITE_ACP'' then AAV_WRITE_ACP
      else AAV_INVALID)"

section \<open>Reading\<close>

record XML_S3_ACL_CONTEXT =
  pAcls :: "ACL_ENTRY list"
  ax_Rec :: ACL_ENTRY
  ax_sOwner :: string
  ax_sDisplayName :: string
  ax_bCanonicalUser :: bool
  ax_bGroup :: bool

definition acl_text :: "string \<Rightarrow> string \<Rightarrow> XML_S3_ACL_CONTEXT \<Rightarrow> XML_S3_ACL_CONTEXT" where
  "acl_text p v c =
     (if v = [] then c
      else if eq_nocase p ''//AccessControlPolicy/Owner/ID'' then c\<lparr> ax_sOwner := v \<rparr>
      else if eq_nocase p ''//AccessControlPolicy/Owner/DisplayName'' then c\<lparr> ax_sDisplayName := v \<rparr>
      else if eq_nocase p ''//AccessControlPolicy/AccessControlList/Grant/Grantee/ID'' then c\<lparr> ax_Rec := (ax_Rec c)\<lparr> sID := v \<rparr> \<rparr>
      else if eq_nocase p ''//AccessControlPolicy/AccessControlList/Grant/Grantee/URI'' then c\<lparr> ax_Rec := (ax_Rec c)\<lparr> sID := v \<rparr> \<rparr>
      else if eq_nocase p ''//AccessControlPolicy/AccessControlList/Grant/Grantee/DisplayName''
      then c\<lparr> ax_Rec := (ax_Rec c)\<lparr> ac_sDisplayName := v \<rparr> \<rparr>
      else if eq_nocase p ''//AccessControlPolicy/AccessControlList/Grant/Permission''
      then c\<lparr> ax_Rec := (ax_Rec c)\<lparr> Acl := TranslateACLText v \<rparr> \<rparr>
      else c)"

text \<open>The attributes of a grantee; a later one adds to what an earlier one set.\<close>

definition grantee_type :: "(string \<times> string) list \<Rightarrow> bool \<times> bool" where
  "grantee_type attrs = foldl (\<lambda>(canon, grp) (n, v).
     if str_find ''type'' n = None then (canon, grp)
     else if eq_nocase v ''CanonicalUser'' then (True, grp)
     else if eq_nocase v ''Group'' then (canon, True)
     else (canon, grp)) (False, False) attrs"

definition grant_end :: "XML_S3_ACL_CONTEXT \<Rightarrow> XML_S3_ACL_CONTEXT" where
  "grant_end c = (if sID (ax_Rec c) \<noteq> [] then c\<lparr> pAcls := pAcls c @ [(ax_Rec c)\<lparr> bGroup := ax_bGroup c \<rparr>] \<rparr> else c)\<lparr> ax_Rec := acl_Clear \<rparr>"

definition XmlS3AclContext_CB :: "XML_S3_ACL_CONTEXT xml_cb" where
  "XmlS3AclContext_CB ev c =
     (case ev of
        XmlText p v \<Rightarrow> (0, acl_text p v c)
      | XmlEndElement p \<Rightarrow> (0, if eq_nocase p ''//AccessControlPolicy/AccessControlList/Grant'' then grant_end c else c)
      | XmlElement p attrs \<Rightarrow>
          (0, if eq_nocase p ''//AccessControlPolicy/AccessControlList/Grant/Grantee''
              then (let (canon, grp) = grantee_type attrs in c\<lparr> ax_bCanonicalUser := canon, ax_bGroup := grp \<rparr>) else c))"

definition acl_resource :: "string \<Rightarrow> string \<Rightarrow> string" where
  "acl_resource pszPath sVersion = UriEncode pszPath StdSAFE @ ''?acl'' @ (if sVersion \<noteq> [] then ''&versionId='' @ sVersion else [])"

definition acl_context :: XML_S3_ACL_CONTEXT where
  "acl_context = \<lparr> pAcls = [], ax_Rec = acl_Clear, ax_sOwner = [], ax_sDisplayName = [], ax_bCanonicalUser = False, ax_bGroup = False \<rparr>"

definition ReadACL :: "'w mp_env \<Rightarrow> string \<Rightarrow> string \<Rightarrow> ACL_ENTRY list \<Rightarrow> 'w \<Rightarrow> (S3_ERROR \<times> ACL_ENTRY list) \<times> 'w" where
  "ReadACL env pszPath pszVersion Acls w =
     (let ((e, data, hdrs), w1) = mp_send env (http_get (acl_resource pszPath pszVersion)) w; Error = SetError e in
      if IfError Error then ((Error, Acls), w1)
      else let (hr, c) = mp_scan env XmlS3AclContext_CB data acl_context in
        ((if FAILED hr then S3_ERROR_new hr else Error, pAcls c), w1))"

section \<open>Writing\<close>

definition xsi_attrs :: "xml_attr list" where
  "xsi_attrs =
     [\<lparr> xa_IsDefault = False, xa_Prefix = ''xmlns'', xa_LocalName = ''xsi'', xa_Value = ''http://www.w3.org/2001/XMLSchema-instance'' \<rparr>,
      \<lparr> xa_IsDefault = False, xa_Prefix = ''xsi'', xa_LocalName = ''type'', xa_Value = ''CanonicalUser'' \<rparr>]"

text \<open>\<open>WriteEndElement\<close> closes an element without contents in its own tag.\<close>

definition short_elem :: "string \<Rightarrow> string \<Rightarrow> xml_tree" where
  "short_elem name v = XElem [] name [] (v = []) (if v = [] then [] else [XTxt v])"

definition grant_tree :: "ACL_ENTRY \<Rightarrow> xml_tree" where
  "grant_tree a = elem ''Grant'' [XElem [] ''Grantee'' xsi_attrs False [short_elem ''ID'' (sID a)],
     short_elem ''Permission'' (GetAclString (Acl a))]"

text \<open>The owner id is that of an S3_SERVICE_INFO that was not filled.\<close>

definition acl_tree :: "ACL_ENTRY list \<Rightarrow> xml_tree" where
  "acl_tree UserAcls = XElem [] ''AccessControlPolicy'' [s3_xmlns] False
     [elem ''Owner'' [short_elem ''ID'' []],
      XElem [] ''AccessControlList'' [] (UserAcls = []) (map grant_tree UserAcls)]"

definition WriteACL :: "'w mp_env \<Rightarrow> string \<Rightarrow> string \<Rightarrow> ACL_ENTRY list \<Rightarrow> 'w \<Rightarrow> S3_ERROR \<times> 'w" where
  "WriteACL env pszPath pszVersion UserAcls w =
     (let ((e, data, hdrs), w1) = mp_send env \<lparr> rq_Method = ''PUT'', rq_Resource = acl_resource pszPath pszVersion,
            rq_Headers = [], rq_Body = XmlBody (acl_tree UserAcls) \<rparr> w in
      (SetError e, w1))"

section \<open>Removing duplicates\<close>

definition read_write :: "E_S3_ACL_VALUES \<Rightarrow> E_S3_ACL_VALUES \<Rightarrow> bool" where
  "read_write a b \<longleftrightarrow> a = AAV_READ \<and> b = AAV_WRITE \<or> a = AAV_WRITE \<and> b = AAV_READ"

text \<open>The inner loop: the first later entry that can be merged into the outer one.\<close>

fun dup_inner :: "ACL_ENTRY \<Rightarrow> ACL_ENTRY list \<Rightarrow> (ACL_ENTRY \<times> ACL_ENTRY list) option" where
  "dup_inner itOuter [] = None"
| "dup_inner itOuter (itInner # es) =
     (if sID itOuter = sID itInner \<and> \<not> read_write (Acl itOuter) (Acl itInner) then
        Some (if Acl itOuter < Acl itInner then itOuter\<lparr> Acl := Acl itInner \<rparr> else itOuter, es)
      else map_option (\<lambda>(o', es'). (o', itInner # es')) (dup_inner itOuter es))"

fun dup_outer :: "ACL_ENTRY list \<Rightarrow> ACL_ENTRY list option" where
  "dup_outer [] = None"
| "dup_outer (itOuter # es) =
     (case dup_inner itOuter es of
        Some (o', es') \<Rightarrow> Some (o' # es')
      | None \<Rightarrow> map_option (\<lambda>es'. itOuter # es') (dup_outer es))"

lemma dup_inner_length: "dup_inner o' es = Some (o2, es') \<Longrightarrow> length es = Suc (length es')"
  by (induction es arbitrary: es') (auto split: if_splits)

lemma dup_outer_length: "dup_outer es = Some es' \<Longrightarrow> length es = Suc (length es')"
  by (induction es arbitrary: es') (auto split: option.splits dest: dup_inner_length)

function RemoveACLDups :: "ACL_ENTRY list \<Rightarrow> ACL_ENTRY list" where
  "RemoveACLDups AclList = (case dup_outer AclList of None \<Rightarrow> AclList | Some AclList' \<Rightarrow> RemoveACLDups AclList')"
  by pat_completeness auto
termination RemoveACLDups
  by (relation "measure length") (auto dest: dup_outer_length)

declare RemoveACLDups.simps [simp del]

section \<open>What is left of the duplicates\<close>

definition acls :: "ACL_ENTRY list \<Rightarrow> string \<Rightarrow> E_S3_ACL_VALUES set" where
  "acls es i = {Acl e | e. e \<in> set es \<and> sID e = i}"

text \<open>The permissions an id should keep: READ and WRITE when there is nothing above them, else the
  highest.\<close>

definition acl_normal :: "E_S3_ACL_VALUES set \<Rightarrow> E_S3_ACL_VALUES set" where
  "acl_normal S =
     (if S = {} then {}
      else if AAV_READ \<in> S \<and> AAV_WRITE \<in> S \<and> Max S = AAV_WRITE then {AAV_READ, AAV_WRITE} else {Max S})"

definition acl_unique :: "ACL_ENTRY list \<Rightarrow> bool" where
  "acl_unique es \<longleftrightarrow> sorted_wrt (\<lambda>a b. sID a = sID b \<longrightarrow> read_write (Acl a) (Acl b)) es"

lemma acls_simps [simp]:
  "acls [] i = {}" "acls (e # es) i = (if sID e = i then insert (Acl e) (acls es i) else acls es i)"
  "acls (as @ bs) i = acls as i \<union> acls bs i"
  by (auto simp: acls_def)

lemma finite_acls [simp]: "finite (acls es i)"
  by (induction es) simp_all

lemma dup_inner_Some:
  assumes "dup_inner o1 es = Some (o2, es')"
  shows "\<exists>e us vs. es = us @ e # vs \<and> es' = us @ vs \<and> sID e = sID o1 \<and> \<not> read_write (Acl o1) (Acl e)
    \<and> sID o2 = sID o1 \<and> Acl o2 = max (Acl o1) (Acl e)"
  using assms
proof (induction es arbitrary: es')
  case (Cons e es)
  show ?case
  proof (cases "sID o1 = sID e \<and> \<not> read_write (Acl o1) (Acl e)")
    case True
    then show ?thesis using Cons.prems by (intro exI [of _ e] exI [of _ "[]"] exI [of _ es]) (auto simp: max_def split: if_splits)
  next
    case False
    then obtain es2 where "dup_inner o1 es = Some (o2, es2)" "es' = e # es2" using Cons.prems by auto
    moreover from Cons.IH [OF this(1)] obtain x us vs where "es = us @ x # vs" "es2 = us @ vs" "sID x = sID o1"
        "\<not> read_write (Acl o1) (Acl x)" "sID o2 = sID o1" "Acl o2 = max (Acl o1) (Acl x)" by blast
    ultimately show ?thesis by (intro exI [of _ x] exI [of _ "e # us"] exI [of _ vs]) simp
  qed
qed simp

lemma dup_inner_None:
  assumes "dup_inner o1 es = None" "e \<in> set es" "sID o1 = sID e"
  shows "read_write (Acl o1) (Acl e)"
  using assms by (induction es) (auto split: if_splits)

lemma dup_outer_Some:
  assumes "dup_outer xs = Some ys"
  shows "\<exists>as o1 o2 us e vs. xs = as @ o1 # us @ e # vs \<and> ys = as @ o2 # us @ vs \<and> sID e = sID o1
    \<and> \<not> read_write (Acl o1) (Acl e) \<and> sID o2 = sID o1 \<and> Acl o2 = max (Acl o1) (Acl e)"
  using assms
proof (induction xs arbitrary: ys)
  case (Cons x xs)
  show ?case
  proof (cases "dup_inner x xs")
    case (Some p)
    then obtain o2 es' where p: "dup_inner x xs = Some (o2, es')" "ys = o2 # es'" using Cons.prems by (cases p) auto
    show ?thesis using dup_inner_Some [OF p(1)] p(2) by (intro exI [of _ "[]"]) auto
  next
    case None
    then obtain zs where z: "dup_outer xs = Some zs" "ys = x # zs" using Cons.prems by auto
    from Cons.IH [OF z(1)] obtain as o1 o2 us e vs where "xs = as @ o1 # us @ e # vs" "zs = as @ o2 # us @ vs" "sID e = sID o1"
        "\<not> read_write (Acl o1) (Acl e)" "sID o2 = sID o1" "Acl o2 = max (Acl o1) (Acl e)" by blast
    then show ?thesis using z(2)
      by (intro exI [of _ "x # as"] exI [of _ o1] exI [of _ o2] exI [of _ us] exI [of _ e] exI [of _ vs]) simp
  qed
qed simp

lemma dup_outer_None: "dup_outer xs = None \<Longrightarrow> acl_unique xs"
  by (induction xs) (auto simp: acl_unique_def dest: dup_inner_None split: option.splits)

lemma acl_normal_merge:
  assumes "finite S" "\<not> read_write a b"
  shows "acl_normal (insert (max a b) S) = acl_normal (insert a (insert b S))"
proof -
  have m: "Max (insert (max a b) S) = Max (insert a (insert b S))"
    using assms(1) by (cases "S = {}") (simp_all add: max.assoc)
  have "AAV_READ \<in> insert (max a b) S \<and> AAV_WRITE \<in> insert (max a b) S"
    if "AAV_READ \<in> insert a (insert b S)" "AAV_WRITE \<in> insert a (insert b S)" "Max (insert a (insert b S)) = AAV_WRITE"
  proof -
    have "a \<le> AAV_WRITE" "b \<le> AAV_WRITE" using Max_ge [of "insert a (insert b S)"] assms(1) that(3) by auto
    then show ?thesis using that(1,2) assms(2)
      by (cases a; cases b) (auto simp: read_write_def max_def less_eq_E_S3_ACL_VALUES_def)
  qed
  moreover have "max a b = a \<or> max a b = b" by (simp add: max_def)
  ultimately show ?thesis unfolding acl_normal_def m by auto
qed

lemma dup_outer_normal:
  assumes "dup_outer xs = Some ys"
  shows "acl_normal (acls ys i) = acl_normal (acls xs i)"
proof -
  obtain as o1 o2 us e vs where d: "xs = as @ o1 # us @ e # vs" "ys = as @ o2 # us @ vs" "sID e = sID o1"
      "\<not> read_write (Acl o1) (Acl e)" "sID o2 = sID o1" "Acl o2 = max (Acl o1) (Acl e)"
    using dup_outer_Some [OF assms] by blast
  show ?thesis
  proof (cases "sID o1 = i")
    case True
    have "acls ys i = insert (max (Acl o1) (Acl e)) (acls as i \<union> acls us i \<union> acls vs i)"
      "acls xs i = insert (Acl o1) (insert (Acl e) (acls as i \<union> acls us i \<union> acls vs i))"
      using True d by auto
    then show ?thesis using acl_normal_merge [OF _ d(4), of "acls as i \<union> acls us i \<union> acls vs i"] by simp
  next
    case False
    then show ?thesis using d by simp
  qed
qed

lemma acls_pair:
  assumes "acl_unique es" "a \<in> acls es i" "b \<in> acls es i" "a \<noteq> b"
  shows "read_write a b"
proof -
  obtain x y where x: "x \<in> set es" "sID x = i" "Acl x = a" and y: "y \<in> set es" "sID y = i" "Acl y = b"
    using assms by (auto simp: acls_def)
  obtain k l where k: "k < length es" "es ! k = x" and l: "l < length es" "es ! l = y"
    using x(1) y(1) by (metis in_set_conv_nth)
  have "k \<noteq> l" using k l x y assms(4) by auto
  then consider "k < l" | "l < k" by linarith
  then show ?thesis
  proof cases
    case 1
    then show ?thesis using assms(1) k l x y unfolding acl_unique_def sorted_wrt_iff_nth_less by metis
  next
    case 2
    then have "read_write b a" using assms(1) k l x y unfolding acl_unique_def sorted_wrt_iff_nth_less by metis
    then show ?thesis by (auto simp: read_write_def)
  qed
qed

lemma acl_unique_normal:
  assumes "acl_unique es"
  shows "acls es i = acl_normal (acls es i)"
proof (cases "acls es i = {}")
  case False
  let ?S = "acls es i"
  have m: "Max ?S \<in> ?S" using False by simp
  show ?thesis
  proof (cases "\<exists>a \<in> ?S. a \<noteq> Max ?S")
    case True
    then obtain a where a: "a \<in> ?S" "a \<noteq> Max ?S" by blast
    have rw: "read_write a (Max ?S)" by (rule acls_pair [OF assms a(1) m a(2)])
    have lt: "a < Max ?S" using Max_ge [OF finite_acls a(1)] a(2) by simp
    have am: "a = AAV_READ" "Max ?S = AAV_WRITE"
      using rw lt by (auto simp: read_write_def less_E_S3_ACL_VALUES_def)
    have "b = AAV_READ \<or> b = AAV_WRITE" if "b \<in> ?S" for b
      using acls_pair [OF assms that m] am by (auto simp: read_write_def)
    then have S: "?S = {AAV_READ, AAV_WRITE}" using a(1) m am(1) unfolding am(2) by blast
    have "AAV_READ \<in> ?S" "AAV_WRITE \<in> ?S" using S by blast+
    then have "acl_normal ?S = {AAV_READ, AAV_WRITE}" unfolding acl_normal_def using False am(2) by auto
    then show ?thesis using S by simp
  next
    case F: False
    then have S: "?S = {Max ?S}" using m by blast
    have "\<not> (AAV_READ \<in> ?S \<and> AAV_WRITE \<in> ?S)" using F by (metis E_S3_ACL_VALUES.distinct(23))
    then have n: "acl_normal ?S = {Max ?S}" unfolding acl_normal_def using False by auto
    show ?thesis by (rule trans [OF S n [symmetric]])
  qed
qed (simp add: acl_normal_def)

lemma RemoveACLDups_unique: "acl_unique (RemoveACLDups xs)"
proof (induction xs rule: RemoveACLDups.induct)
  case (1 xs)
  then show ?case by (subst RemoveACLDups.simps) (auto split: option.splits dest: dup_outer_None)
qed

lemma RemoveACLDups_normal: "acl_normal (acls (RemoveACLDups xs) i) = acl_normal (acls xs i)"
proof (induction xs rule: RemoveACLDups.induct)
  case (1 xs)
  then show ?case by (subst RemoveACLDups.simps) (auto split: option.splits simp: dup_outer_normal)
qed

lemma acl_unique_distinct: "acl_unique es \<Longrightarrow> distinct (map (\<lambda>e. (sID e, Acl e)) es)"
  by (induction es) (auto simp: acl_unique_def read_write_def)

section \<open>Writing and reading\<close>

definition acl_written :: "ACL_ENTRY \<Rightarrow> ACL_ENTRY" where
  "acl_written a = a\<lparr> ac_sDisplayName := [], bGroup := False \<rparr>"

lemma trim_GetAclString: "trim (GetAclString a) = GetAclString a"
  by (cases a) (simp_all add: trim_def is_space_c_def char_code_def)

lemma TranslateACLText_string: "TranslateACLText (GetAclString a) = a"
proof -
  have refl: "eq_nocase s s" for s by (simp add: eq_nocase_def)
  have clash: "\<not> eq_nocase ''READ'' ''NONE''" by (simp add: eq_nocase_def lower_str_def to_lower_def is_upper_ascii_def char_code_def)
  show ?thesis
    unfolding TranslateACLText_def trim_GetAclString by (cases a) (simp_all add: Let_def eq_nocase_length refl clash)
qed

lemma GetAclString_not_Nil [simp]: "GetAclString a \<noteq> []"
  by (cases a) simp_all

lemma grantee_type_xsi: "grantee_type (AttrList xsi_attrs) = (True, False)"
proof -
  have f: "str_find ''type'' ''xmlns:xsi'' = None" "str_find ''type'' ''xsi:type'' = Some 4"
    by simp_all
  have e: "eq_nocase ''CanonicalUser'' ''CanonicalUser''" by (simp add: eq_nocase_def)
  show ?thesis by (simp add: grantee_type_def AttrList_def xsi_attrs_def xml_name_def f e)
qed

abbreviation grant_path :: "string list" where
  "grant_path \<equiv> [''AccessControlPolicy'', ''AccessControlList'', ''Grant'']"

lemma acl_path_clash: "\<not> eq_nocase ''//AccessControlPolicy/AccessControlList/Grant/Permission''
    ''//AccessControlPolicy/AccessControlList/Grant/Grantee/ID''"
  by (simp add: eq_nocase_def lower_str_def to_lower_def is_upper_ascii_def char_code_def)

lemma acl_paths:
  "acl_text (stack_path [''AccessControlPolicy'', ''AccessControlList'', ''Grant'', ''Grantee'', ''ID'']) v c
     = (if v = [] then c else c\<lparr> ax_Rec := (ax_Rec c)\<lparr> sID := v \<rparr> \<rparr>)"
  "acl_text (stack_path [''AccessControlPolicy'', ''AccessControlList'', ''Grant'', ''Permission'']) v c
     = (if v = [] then c else c\<lparr> ax_Rec := (ax_Rec c)\<lparr> Acl := TranslateACLText v \<rparr> \<rparr>)"
  by (simp_all add: stack_path_def acl_text_def eq_nocase_length acl_path_clash)

lemma acl_elements:
  "XmlS3AclContext_CB (XmlElement (stack_path [''AccessControlPolicy'', ''AccessControlList'', ''Grant'', ''Grantee'']) attrs) c
     = (0, let (canon, grp) = grantee_type attrs in c\<lparr> ax_bCanonicalUser := canon, ax_bGroup := grp \<rparr>)"
  "length p \<noteq> 53 \<Longrightarrow> XmlS3AclContext_CB (XmlElement p attrs) c = (0, c)"
  "XmlS3AclContext_CB (XmlEndElement (stack_path grant_path)) c = (0, grant_end c)"
  "length p \<noteq> 45 \<Longrightarrow> XmlS3AclContext_CB (XmlEndElement p) c = (0, c)"
  "XmlS3AclContext_CB (XmlText p v) c = (0, acl_text p v c)"
  by (simp_all add: XmlS3AclContext_CB_def stack_path_def eq_nocase_length)

lemma short_elem_events:
  assumes "length (stack_path (st @ [name])) \<noteq> 53" "length (stack_path (st @ [name])) \<noteq> 45"
  shows "run_events XmlS3AclContext_CB (tree_events st (short_elem name v)) c = (0, acl_text (stack_path (st @ [name])) v c)"
  using assms by (auto simp: short_elem_def xml_name_def acl_elements Let_def acl_text_def)

lemma grantee_events:
  "run_events XmlS3AclContext_CB (tree_events grant_path (XElem [] ''Grantee'' xsi_attrs False [short_elem ''ID'' i])) c
   = (0, acl_text (stack_path (grant_path @ [''Grantee'', ''ID''])) i (c\<lparr> ax_bCanonicalUser := True, ax_bGroup := False \<rparr>))"
proof -
  have ev: "tree_events grant_path (XElem [] ''Grantee'' xsi_attrs False [short_elem ''ID'' i])
      = [XmlElement (stack_path (grant_path @ [''Grantee''])) (AttrList xsi_attrs)] @ tree_events (grant_path @ [''Grantee'']) (short_elem ''ID'' i)
        @ [XmlEndElement (stack_path (grant_path @ [''Grantee'']))]"
    by (simp add: xml_name_def Let_def)
  have l: "length (stack_path ((grant_path @ [''Grantee'']) @ [''ID''])) \<noteq> 53" "length (stack_path ((grant_path @ [''Grantee'']) @ [''ID''])) \<noteq> 45"
    by (simp_all add: stack_path_def)
  have e: "XmlS3AclContext_CB (XmlEndElement (stack_path (grant_path @ [''Grantee'']))) c' = (0, c')" for c'
    by (rule acl_elements(4)) (simp add: stack_path_def)
  show ?thesis
    unfolding ev run_events_append short_elem_events [OF l] using e by (simp add: acl_elements(1) grantee_type_xsi)
qed

lemma grant_events:
  assumes "ax_Rec c = acl_Clear"
  shows "\<exists>c'. run_events XmlS3AclContext_CB (tree_events [''AccessControlPolicy'', ''AccessControlList''] (grant_tree a)) c = (0, c')
    \<and> pAcls c' = pAcls c @ map acl_written (filter (\<lambda>e. sID e \<noteq> []) [a]) \<and> ax_Rec c' = acl_Clear"
proof -
  have ev: "tree_events [''AccessControlPolicy'', ''AccessControlList''] (grant_tree a)
      = [XmlElement (stack_path grant_path) []]
        @ tree_events grant_path (XElem [] ''Grantee'' xsi_attrs False [short_elem ''ID'' (sID a)])
        @ tree_events grant_path (short_elem ''Permission'' (GetAclString (Acl a))) @ [XmlEndElement (stack_path grant_path)]"
    by (simp add: grant_tree_def elem_def xml_name_def AttrList_def Let_def del: tree_events.simps) (simp add: xml_name_def Let_def AttrList_def)
  have s: "XmlS3AclContext_CB (XmlElement (stack_path grant_path) []) c = (0, c)"
    by (rule acl_elements(2)) (simp add: stack_path_def)
  have l: "length (stack_path (grant_path @ [''Permission''])) \<noteq> 53" "length (stack_path (grant_path @ [''Permission''])) \<noteq> 45"
    by (simp_all add: stack_path_def)
  show ?thesis
    unfolding ev run_events_append grantee_events short_elem_events [OF l]
    using assms by (simp add: s acl_elements(3) acl_paths TranslateACLText_string grant_end_def acl_written_def acl_Clear_def)
qed

lemma grants_events:
  assumes "ax_Rec c = acl_Clear"
  shows "\<exists>c'. run_events XmlS3AclContext_CB
      (concat (map (tree_events [''AccessControlPolicy'', ''AccessControlList'']) (map grant_tree as))) c = (0, c')
    \<and> pAcls c' = pAcls c @ map acl_written (filter (\<lambda>e. sID e \<noteq> []) as) \<and> ax_Rec c' = acl_Clear"
  using assms
proof (induction as arbitrary: c)
  case (Cons a as)
  obtain c1 where 1: "run_events XmlS3AclContext_CB (tree_events [''AccessControlPolicy'', ''AccessControlList''] (grant_tree a)) c = (0, c1)"
      "pAcls c1 = pAcls c @ map acl_written (filter (\<lambda>e. sID e \<noteq> []) [a])" "ax_Rec c1 = acl_Clear"
    using grant_events [OF Cons.prems] by blast
  obtain c2 where 2: "run_events XmlS3AclContext_CB
      (concat (map (tree_events [''AccessControlPolicy'', ''AccessControlList'']) (map grant_tree as))) c1 = (0, c2)"
      "pAcls c2 = pAcls c1 @ map acl_written (filter (\<lambda>e. sID e \<noteq> []) as)" "ax_Rec c2 = acl_Clear"
    using Cons.IH [OF 1(3)] by blast
  show ?case
    unfolding list.map concat.simps run_events_append 1(1) using 1(2) 2 by (simp del: map_map)
qed simp

lemma acl_scan:
  "\<exists>c. ScanXml XmlS3AclContext_CB (tree_nodes (acl_tree as), hr) acl_context = (0, c)
    \<and> pAcls c = map acl_written (filter (\<lambda>e. sID e \<noteq> []) as)"
proof -
  obtain c where c: "run_events XmlS3AclContext_CB
      (concat (map (tree_events [''AccessControlPolicy'', ''AccessControlList'']) (map grant_tree as))) acl_context = (0, c)"
      "pAcls c = map acl_written (filter (\<lambda>e. sID e \<noteq> []) as)"
    using grants_events [of acl_context as] by (auto simp: acl_context_def)
  define A where "A = [''AccessControlPolicy'']"
  have ev: "tree_events [] (acl_tree as) =
      [XmlElement (stack_path A) (AttrList [s3_xmlns]), XmlElement (stack_path (A @ [''Owner''])) [],
       XmlElement (stack_path (A @ [''Owner'', ''ID''])) [], XmlEndElement (stack_path (A @ [''Owner'', ''ID''])),
       XmlEndElement (stack_path (A @ [''Owner''])), XmlElement (stack_path (A @ [''AccessControlList''])) []]
      @ concat (map (tree_events [''AccessControlPolicy'', ''AccessControlList'']) (map grant_tree as))
      @ [XmlEndElement (stack_path (A @ [''AccessControlList''])), XmlEndElement (stack_path A)]"
    by (cases as) (simp_all add: acl_tree_def short_elem_def elem_def xml_name_def A_def Let_def AttrList_def [of "[]"] del: map_map)
  have skip: "XmlS3AclContext_CB (XmlElement (stack_path (A @ p)) attrs) c' = (0, c')"
    "XmlS3AclContext_CB (XmlEndElement (stack_path (A @ p))) c' = (0, c')" if "length (concat p) + length p \<le> 20" for p attrs c'
  proof -
    have "length (stack_path (A @ p)) = 21 + length (concat p) + length p"
      by (induction p) (simp_all add: stack_path_def A_def)
    then show "XmlS3AclContext_CB (XmlElement (stack_path (A @ p)) attrs) c' = (0, c')"
      "XmlS3AclContext_CB (XmlEndElement (stack_path (A @ p))) c' = (0, c')"
      using that by (simp_all add: acl_elements)
  qed
  note sk = skip [of "[]", simplified] skip [of "[''Owner'']", simplified] skip [of "[''Owner'', ''ID'']", simplified]
    skip [of "[''AccessControlList'']", simplified]
  show ?thesis
    unfolding ScanXml_tree ev run_events_append using c by (simp add: sk del: map_map)
qed

lemma acl_put_get:
  assumes srv: "keeps_document env (acl_resource p v) (acl_resource p v) (acl_tree as) w"
  shows "case ReadACL env p v [] (snd (WriteACL env p v as w)) of
    ((E, got), _) \<Rightarrow> \<not> IfError E \<and> got = map acl_written (filter (\<lambda>e. sID e \<noteq> []) as)"
proof -
  define rq where "rq = \<lparr> rq_Method = ''PUT'', rq_Resource = acl_resource p v, rq_Headers = [], rq_Body = XmlBody (acl_tree as) \<rparr>"
  have w1: "snd (WriteACL env p v as w) = snd (mp_send env rq w)"
    by (simp add: WriteACL_def rq_def Let_def split: prod.splits)
  obtain e data hdrs w2 where g: "mp_send env (http_get (acl_resource p v)) (snd (mp_send env rq w)) = ((e, data, hdrs), w2)"
    by (metis prod.exhaust)
  have k: "\<not> IfError (SetError e)" "fst (mp_reader env data) = tree_nodes (acl_tree as)"
    using srv [unfolded keeps_document_def, rule_format, of rq] g by (auto simp: rq_def)
  obtain c where "ScanXml XmlS3AclContext_CB (mp_reader env data) acl_context = (0, c)"
      "pAcls c = map acl_written (filter (\<lambda>e. sID e \<noteq> []) as)"
    using acl_scan [of as "snd (mp_reader env data)"] k(2) by (metis prod.collapse)
  then show ?thesis using g k by (simp add: w1 ReadACL_def mp_scan_def)
qed

section \<open>Properties\<close>

text \<open>C40: An access control list that was written and kept by the server is read back in order, its ids
  and permissions unchanged, except the entries without id; every entry comes back as one of a user
  without display name, because the document does not say which entries are of groups.\<close>

theorem acl_survives:
  assumes "keeps_document env (acl_resource p v) (acl_resource p v) (acl_tree as) w"
  shows "case ReadACL env p v [] (snd (WriteACL env p v as w)) of
    ((E, got), _) \<Rightarrow> \<not> IfError E
      \<and> got = map (\<lambda>a. a\<lparr> ac_sDisplayName := [], bGroup := False \<rparr>) (filter (\<lambda>e. sID e \<noteq> []) as)"
  using acl_put_get [OF assms] unfolding acl_written_def .

definition demo_acl :: "ACL_ENTRY list" where
  "demo_acl = [\<lparr> sID = ''ann'', ac_sDisplayName = ''Ann'', Acl = AAV_READ, bGroup = False \<rparr>,
     \<lparr> sID = ''all'', ac_sDisplayName = [], Acl = AAV_WRITE_ACP, bGroup = True \<rparr>]"

definition demo_acl_store :: "unit mp_env" where
  "demo_acl_store = \<lparr> mp_send = (\<lambda>rq w. ((S3_ERROR_new 0, ''<?xml '', []), w)),
     mp_reader = (\<lambda>_. (tree_nodes (acl_tree demo_acl), 0)), mp_base64 = (\<lambda>_. []),
     mp_maps = s3_maps_init, mp_dates = demo_dates \<rparr>"

theorem acl_survives_witness:
  "case ReadACL demo_acl_store ''/b/o'' [] [] (snd (WriteACL demo_acl_store ''/b/o'' [] demo_acl ())) of
    ((E, got), _) \<Rightarrow> \<not> IfError E
      \<and> got = map (\<lambda>a. a\<lparr> ac_sDisplayName := [], bGroup := False \<rparr>) (filter (\<lambda>e. sID e \<noteq> []) demo_acl)"
proof (rule acl_survives)
  show "keeps_document demo_acl_store (acl_resource ''/b/o'' []) (acl_resource ''/b/o'' []) (acl_tree demo_acl) ()"
    by (simp add: keeps_document_def demo_acl_store_def looks_like_xml_def SetError_def IfError_def S3_ERROR_new_def)
qed

text \<open>After the removal of duplicates every id keeps READ and WRITE when it had both and nothing
  above them, else its highest permission only, and no entry is left twice.\<close>

theorem RemoveACLDups_correct:
  "acls (RemoveACLDups es) i = acl_normal (acls es i) \<and> distinct (map (\<lambda>e. (sID e, Acl e)) (RemoveACLDups es))"
  using acl_unique_normal [OF RemoveACLDups_unique] RemoveACLDups_normal acl_unique_distinct [OF RemoveACLDups_unique]
  by (metis (no_types))

end
