(* ===== verification/Signing.thy ===== *)
theory Signing
  imports Failover Uri Dates "HOL-Library.Char_ord" "HOL-Library.List_Lexorder" "HOL-Library.Multiset"
begin

text \<open>
  Signatures of requests (ECSConnection.cpp, CheckQuery, signRequestS3v2, CreateS3SigningKey,
  signRequestS3v4, signS3ShareableURL, GenerateShareableURL, SetSecret, SetHostAuth, IfS3v4,
  SetRegion). The hash functions, base64 and WSDUriDecode are parameters; a hash function may fail.
  The key id, the secret and the region are ASCII, so the two code pages agree on what is signed.
\<close>

section \<open>Environment and state\<close>

record sign_env =
  sg_sha256 :: "string \<Rightarrow> DWORD + BYTE list"
  sg_hmac256 :: "BYTE list \<Rightarrow> string \<Rightarrow> DWORD + BYTE list"
  sg_hmac1 :: "BYTE list \<Rightarrow> string \<Rightarrow> DWORD + BYTE list"
  sg_base64 :: "BYTE list \<Rightarrow> string"
  sg_decode :: "string \<Rightarrow> string"
  sg_dates :: date_env
  sg_uninit :: "SYSTEMTIME \<times> FILETIME"

text \<open>\<open>sg_uninit\<close> is what a local variable holds that a failed date conversion did not set.\<close>

record sign_conn =
  sSecret :: string
  sS3KeyID :: string
  sS3Region :: string
  bS3AuthV4 :: bool
  uS3AuthV4ChunkSize :: DWORD
  GlobalS3V4SigningKey :: "BYTE list"
  ftS3V4SigningKey :: FILETIME
  sg_Headers :: headers

definition SetSecret :: "string \<Rightarrow> sign_conn \<Rightarrow> sign_conn" where
  "SetSecret pszSecret c =
     (if sSecret c \<noteq> pszSecret then c\<lparr> GlobalS3V4SigningKey := [], ftS3V4SigningKey := 0, sSecret := pszSecret \<rparr> else c)"

text \<open>The parameter hides the member: the size is assigned to the parameter itself.\<close>

definition SetHostAuth :: "bool \<Rightarrow> DWORD \<Rightarrow> sign_conn \<Rightarrow> sign_conn" where
  "SetHostAuth bAuthV4 uS3AuthV4ChunkSizeParam c = c\<lparr> bS3AuthV4 := bAuthV4 \<rparr>"

definition IfS3v4 :: "sign_conn \<Rightarrow> bool \<times> DWORD" where
  "IfS3v4 c = (bS3AuthV4 c, uS3AuthV4ChunkSize c)"

definition SetRegion :: "string \<Rightarrow> sign_conn \<Rightarrow> sign_conn" where
  "SetRegion pszS3Region c = c\<lparr> sS3Region := pszS3Region \<rparr>"

section \<open>Strings and maps\<close>

definition bytes_of :: "string \<Rightarrow> BYTE list" where
  "bytes_of s = map (\<lambda>ch. of_nat (char_code ch)) s"

definition upper_str :: "string \<Rightarrow> string" where
  "upper_str s = map (\<lambda>ch. if is_lower_ascii ch then char_of (char_code ch - 32) else ch) s"

fun split_on :: "(char \<Rightarrow> bool) \<Rightarrow> string \<Rightarrow> string list" where
  "split_on d [] = [[]]"
| "split_on d (ch # s) = (if d ch then [] # split_on d s
     else (case split_on d s of [] \<Rightarrow> [[ch]] | t # ts \<Rightarrow> (ch # t) # ts))"

text \<open>\<open>CString::Tokenize\<close> until it returns the empty string.\<close>

definition tokens :: "(char \<Rightarrow> bool) \<Rightarrow> string \<Rightarrow> string list" where
  "tokens d s = filter (\<lambda>t. t \<noteq> []) (split_on d s)"

text \<open>\<open>std::map\<close>: insert keeps what is there, the iteration is in the order of the keys.\<close>

definition insert_new :: "string \<Rightarrow> 'v \<Rightarrow> (string \<Rightarrow> 'v option) \<Rightarrow> (string \<Rightarrow> 'v option)" where
  "insert_new k v m = (if m k = None then m(k \<mapsto> v) else m)"

definition map_items :: "(string \<Rightarrow> 'v option) \<Rightarrow> (string \<times> 'v) list" where
  "map_items m = map (\<lambda>k. (k, the (m k))) (sorted_list_of_set (dom m))"

definition trim_str :: "string \<Rightarrow> string" where
  "trim_str s = TrimRight (TrimLeft s)"

definition hdr :: "headers \<Rightarrow> string \<Rightarrow> string option" where
  "hdr hs k = map_option snd (hs k)"

fun join :: "string \<Rightarrow> string list \<Rightarrow> string" where
  "join sep [] = []"
| "join sep [x] = x"
| "join sep (x # y # xs) = x @ sep @ join sep (y # xs)"

section \<open>Version 2\<close>

definition InitArray :: "string list" where
  "InitArray = [''acl'', ''lifecycle'', ''searchmetadata'', ''location'', ''logging'', ''notification'', ''partnumber'',
     ''policy'', ''requestpayment'', ''torrent'', ''uploadid'', ''uploads'', ''versionid'', ''versioning'', ''versions'',
     ''website'', ''response-content-type'', ''response-content-language'', ''response-expires'', ''response-cache-control'',
     ''response-content-disposition'', ''response-content-encoding'', ''delete'', ''endpoint'', ''query'']"

definition IfQuery :: "string \<Rightarrow> bool" where
  "IfQuery sQuery \<longleftrightarrow> sQuery \<in> set InitArray"

definition CheckQuery :: "sign_env \<Rightarrow> string \<Rightarrow> (string \<Rightarrow> string option) \<Rightarrow> (string \<Rightarrow> string option)" where
  "CheckQuery env sQuery QueryMap =
     (let sToken = trim_str (lower_str (case find_char CHR ''='' sQuery of None \<Rightarrow> sQuery | Some i \<Rightarrow> take i sQuery)) in
      if IfQuery sToken then insert_new sToken (sg_decode env sQuery) QueryMap else QueryMap)"

definition v2_resource :: "sign_env \<Rightarrow> string \<Rightarrow> string" where
  "v2_resource env resource =
     (case find_char CHR ''?'' resource of
        None \<Rightarrow> resource
      | Some iQuestion \<Rightarrow>
          let QueryMap = fold (CheckQuery env) (tokens (\<lambda>ch. ch = CHR ''?'' \<or> ch = CHR ''&'') (drop iQuestion resource)) (\<lambda>_. None);
              qs = map snd (map_items QueryMap) in
          take iQuestion resource @ (if qs = [] then [] else ''?'' @ join ''&'' qs))"

definition v2_canonical :: "sign_env \<Rightarrow> string \<Rightarrow> string \<Rightarrow> headers \<Rightarrow> string option \<Rightarrow> string" where
  "v2_canonical env verb resource hs pszExpires =
     (let nl = [CHR 0x0A];
          line = (\<lambda>v. (case v of None \<Rightarrow> [] | Some s \<Rightarrow> s) @ nl) in
      upper_str verb @ nl
      @ line (hdr hs ''content-md5'')
      @ line (if pszExpires = None then hdr hs ''content-type'' else None)
      @ line (if pszExpires \<noteq> None then pszExpires
              else if hs ''x-amz-date'' \<noteq> None then hdr hs ''x-amz-date'' else hdr hs ''date'')
      @ concat (map (\<lambda>(k, v). if take 5 k = ''x-amz'' \<or> take 5 k = ''x-emc'' then k @ '':'' @ trim_str (snd v) @ nl else [])
          (filter (\<lambda>(k, v). ''x-'' \<le> k) (map_items hs)))
      @ v2_resource env resource)"

text \<open>The key that goes into the hash is the buffer of the string with the zeros after it:
  the one WideCharToMultiByte converts and the one CAnsiString::Set adds.\<close>

definition v2_key :: "string \<Rightarrow> BYTE list" where
  "v2_key secretStr = (if secretStr = [] then [0] else bytes_of secretStr @ [0, 0])"

definition signRequestS3v2 :: "sign_env \<Rightarrow> sign_conn \<Rightarrow> string \<Rightarrow> string \<Rightarrow> string \<Rightarrow> headers \<Rightarrow> string option \<Rightarrow> string" where
  "signRequestS3v2 env c secretStr verb resource hs pszExpires =
     (case sg_hmac1 env (v2_key secretStr) (v2_canonical env verb resource hs pszExpires) of
        Inl e \<Rightarrow> []
      | Inr Outbuf \<Rightarrow>
          if pszExpires = None then ''AWS '' @ sS3KeyID c @ '':'' @ sg_base64 env Outbuf else sg_base64 env Outbuf)"

section \<open>The signing key\<close>

definition ymd :: "SYSTEMTIME \<Rightarrow> string" where
  "ymd st = FmtNum (unat (wYear st)) 4 True @ FmtNum (unat (wMonth st)) 2 True @ FmtNum (unat (wDay st)) 2 True"

text \<open>The four nested hashes.\<close>

definition signing_key :: "sign_env \<Rightarrow> string \<Rightarrow> string \<Rightarrow> SYSTEMTIME \<Rightarrow> DWORD + BYTE list" where
  "signing_key env secretStr region stRequestTime =
     res_bind (sg_hmac256 env (bytes_of (''AWS4'' @ secretStr)) (ymd stRequestTime)) (\<lambda>DateKey.
     res_bind (sg_hmac256 env DateKey region) (\<lambda>DateRegionKey.
     res_bind (sg_hmac256 env DateRegionKey ''s3'') (\<lambda>DateRegionServiceKey.
     sg_hmac256 env DateRegionServiceKey ''aws4_request'')))"

definition CreateS3SigningKey :: "sign_env \<Rightarrow> string \<Rightarrow> SYSTEMTIME \<Rightarrow> sign_conn \<Rightarrow> (DWORD + BYTE list) \<times> sign_conn" where
  "CreateS3SigningKey env secretStr stRequestTime c =
     (case signing_key env secretStr (sS3Region c) stRequestTime of
        Inl e \<Rightarrow> (Inl e, c)
      | Inr SigningKey \<Rightarrow>
          let ftRequestTime = (case SystemTimeToFileTime (sg_dates env) stRequestTime of Inl e \<Rightarrow> snd (sg_uninit env) | Inr ft \<Rightarrow> ft) in
          (Inr SigningKey, c\<lparr> ftS3V4SigningKey := ftRequestTime, GlobalS3V4SigningKey := SigningKey \<rparr>))"

definition same_day :: "SYSTEMTIME \<Rightarrow> SYSTEMTIME \<Rightarrow> bool" where
  "same_day a b \<longleftrightarrow> wYear a = wYear b \<and> wMonth a = wMonth b \<and> wDay a = wDay b"

definition stored_key :: "sign_env \<Rightarrow> SYSTEMTIME \<Rightarrow> BYTE list \<Rightarrow> sign_conn \<Rightarrow> BYTE list" where
  "stored_key env stRequestTime S3SigningKey c =
     (let st = (case FileTimeToSystemTime (sg_dates env) (ftS3V4SigningKey c) of None \<Rightarrow> fst (sg_uninit env) | Some st \<Rightarrow> st) in
      if same_day stRequestTime st then GlobalS3V4SigningKey c else S3SigningKey)"

section \<open>Version 4\<close>

datatype E_S3_V4_PAYLOAD = Signed | Chunked | Unsigned

text \<open>The hash that stands for the payload, and the headers with what it adds to them.\<close>

definition payload_hash :: "sign_env \<Rightarrow> string \<Rightarrow> E_S3_V4_PAYLOAD \<Rightarrow> ULONGLONG \<Rightarrow> headers \<Rightarrow> DWORD + string \<times> headers" where
  "payload_hash env pData PayloadType ullTotalPayloadLen hs =
     (case PayloadType of
        Signed \<Rightarrow> (case sg_sha256 env pData of Inl e \<Rightarrow> Inl e
          | Inr h \<Rightarrow> Inr (BinaryToHexString h, AddHeader ''x-amz-content-sha256'' (BinaryToHexString h) True hs))
      | Chunked \<Rightarrow> Inr (''STREAMING-AWS4-HMAC-SHA256-PAYLOAD'',
          AddHeader ''x-amz-content-sha256'' ''STREAMING-AWS4-HMAC-SHA256-PAYLOAD'' True
            (AddHeader ''content-encoding'' ''aws-chunked'' True
              (AddHeader ''x-amz-decoded-content-length'' (decimal (unat ullTotalPayloadLen)) True hs)))
      | Unsigned \<Rightarrow> Inr (''UNSIGNED-PAYLOAD'', hs))"

definition reencode :: "sign_env \<Rightarrow> E_URI_ENCODE \<Rightarrow> string \<Rightarrow> string" where
  "reencode env t s = UriEncode (sg_decode env s) t"

definition query_entry :: "sign_env \<Rightarrow> string \<Rightarrow> string \<times> string" where
  "query_entry env sQuery =
     (case find_char CHR ''='' sQuery of
        Some i \<Rightarrow> (reencode env V4AuthSlash (take i sQuery), reencode env V4AuthSlash (drop (i + 1) sQuery))
      | None \<Rightarrow> (reencode env V4AuthSlash sQuery, []))"

definition canonical_query :: "sign_env \<Rightarrow> string \<Rightarrow> string" where
  "canonical_query env sFullQuery =
     (let QueryMap = fold (\<lambda>sQuery. insert_new (fst (query_entry env sQuery)) (snd (query_entry env sQuery)))
            (tokens (\<lambda>ch. ch = CHR ''&'') sFullQuery) (\<lambda>_. None) in
      join ''&'' (map (\<lambda>(k, v). k @ ''='' @ v) (map_items QueryMap)))"

text \<open>Of two blanks in a row the first is deleted, until there are none.\<close>

function one_blank :: "string \<Rightarrow> string" where
  "one_blank s = (case str_find ''  '' s of None \<Rightarrow> s | Some i \<Rightarrow> one_blank (take i s @ drop (Suc i) s))"
  by pat_completeness auto
termination one_blank
  by (relation "measure length") (auto dest!: str_find_Some)

declare one_blank.simps [simp del]

definition signed_headers :: "headers \<Rightarrow> (string \<times> string) list" where
  "signed_headers hs = filter (\<lambda>(k, v). k \<noteq> ''range'')
     (map (\<lambda>(k, v). (trim_str k, one_blank (trim_str (snd v)))) (map_items hs))"

definition canonical_request :: "sign_env \<Rightarrow> string \<Rightarrow> string \<Rightarrow> headers \<Rightarrow> string \<Rightarrow> string" where
  "canonical_request env verb resource hs sPayloadHash =
     (let nl = [CHR 0x0A];
          (path, q) = (case find_char CHR ''?'' resource of None \<Rightarrow> (resource, []) | Some i \<Rightarrow> (take i resource, drop (i + 1) resource));
          uri = reencode env V4Auth path in
      upper_str verb @ nl @ (if uri = [] then ''/'' else uri) @ nl
      @ (if q \<noteq> [] then canonical_query env q else []) @ nl
      @ concat (map (\<lambda>(k, v). k @ '':'' @ v @ nl) (signed_headers hs)) @ nl
      @ join '';'' (map fst (signed_headers hs)) @ nl @ sPayloadHash)"

definition credential_scope :: "SYSTEMTIME \<Rightarrow> string \<Rightarrow> string" where
  "credential_scope st region = ymd st @ ''/'' @ region @ ''/s3/aws4_request''"

definition string_to_sign :: "sign_env \<Rightarrow> SYSTEMTIME \<Rightarrow> string \<Rightarrow> BYTE list \<Rightarrow> string" where
  "string_to_sign env st region h =
     ''AWS4-HMAC-SHA256'' @ [CHR 0x0A] @ FormatISO8601Date_st (sg_dates env) st False False True @ [CHR 0x0A]
     @ credential_scope st region @ [CHR 0x0A] @ BinaryToHexString h"

definition authorization_v4 :: "string \<Rightarrow> SYSTEMTIME \<Rightarrow> string \<Rightarrow> headers \<Rightarrow> string \<Rightarrow> string" where
  "authorization_v4 keyid st region hs sSignature =
     ''AWS4-HMAC-SHA256 Credential='' @ keyid @ ''/'' @ credential_scope st region
     @ '',SignedHeaders='' @ join '';'' (map fst (signed_headers hs)) @ '',Signature='' @ sSignature"

text \<open>What the call changes beside the connection: the key of the caller and the previous signature.\<close>

record sign_result =
  sAuthorization :: string
  sr_Key :: "BYTE list"
  sPreviousSignature :: string

definition signRequestS3v4 ::
  "sign_env \<Rightarrow> string \<Rightarrow> string \<Rightarrow> string \<Rightarrow> string \<Rightarrow> E_S3_V4_PAYLOAD \<Rightarrow> ULONGLONG \<Rightarrow> BYTE list \<Rightarrow> string \<Rightarrow> SYSTEMTIME
   \<Rightarrow> sign_conn \<Rightarrow> sign_result \<times> sign_conn" where
  "signRequestS3v4 env secretStr verb resource pData PayloadType ullTotalPayloadLen S3SigningKey sPrevious stRequestTime c =
     (let fail = (\<lambda>k. \<lparr> sAuthorization = [], sr_Key = k, sPreviousSignature = sPrevious \<rparr>) in
      case payload_hash env pData PayloadType ullTotalPayloadLen (sg_Headers c) of
        Inl e \<Rightarrow> (fail S3SigningKey, c)
      | Inr (sPayloadHash, hs) \<Rightarrow>
          let c1 = c\<lparr> sg_Headers := hs \<rparr> in
          (case sg_sha256 env (canonical_request env verb resource hs sPayloadHash) of
             Inl e \<Rightarrow> (fail S3SigningKey, c1)
           | Inr h \<Rightarrow>
               let k0 = stored_key env stRequestTime S3SigningKey c1;
                   (k, c2) = (if k0 = [] then CreateS3SigningKey env secretStr stRequestTime c1 else (Inr k0, c1)) in
               (case k of
                  Inl e \<Rightarrow> (fail k0, c2)
                | Inr key \<Rightarrow>
                    (case sg_hmac256 env key (string_to_sign env stRequestTime (sS3Region c2) h) of
                       Inl e \<Rightarrow> (fail key, c2)
                     | Inr sig \<Rightarrow>
                         (\<lparr> sAuthorization = authorization_v4 (sS3KeyID c2) stRequestTime (sS3Region c2) hs (BinaryToHexString sig),
                            sr_Key = key, sPreviousSignature = BinaryToHexString sig \<rparr>, c2)))))"

section \<open>Shareable URLs\<close>

definition int_str :: "int \<Rightarrow> string" where
  "int_str n = (if n < 0 then ''-'' @ decimal (nat (- n)) else decimal (nat n))"

text \<open>The headers of a version 4 URL: those of InitHeader, of which the host is overwritten and the
  dates are erased. \<open>init_hs\<close> is what InitHeader leaves, \<open>ftNow\<close> the clock.\<close>

definition share_time :: "sign_env \<Rightarrow> FILETIME \<Rightarrow> SYSTEMTIME" where
  "share_time env ftNow = (case FileTimeToSystemTime (sg_dates env) ftNow of None \<Rightarrow> fst (sg_uninit env) | Some st \<Rightarrow> st)"

definition share_headers :: "headers \<Rightarrow> string \<Rightarrow> headers" where
  "share_headers init_hs sHostPort = (AddHeader ''host'' sHostPort True init_hs)(''date'' := None, ''x-amz-date'' := None)"

definition share_resource :: "sign_env \<Rightarrow> sign_conn \<Rightarrow> FILETIME \<Rightarrow> string \<Rightarrow> string \<Rightarrow> string" where
  "share_resource env c ftNow sResource sExpire =
     sResource @ ''?X-Amz-Algorithm=AWS4-HMAC-SHA256''
     @ ''&X-Amz-Credential='' @ UriEncode (sS3KeyID c @ ''/'' @ credential_scope (share_time env ftNow) (sS3Region c)) V4AuthSlash
     @ ''&X-Amz-Date='' @ FormatISO8601Date (sg_dates env) ftNow False False True
     @ ''&X-Amz-Expires='' @ sExpire @ ''&X-Amz-SignedHeaders=host''"

definition signS3ShareableURL ::
  "sign_env \<Rightarrow> headers \<Rightarrow> FILETIME \<Rightarrow> string \<Rightarrow> string \<Rightarrow> string \<Rightarrow> sign_conn \<Rightarrow> (string \<times> string) \<times> sign_conn" where
  "signS3ShareableURL env init_hs ftNow sResource sExpire sHostPort c =
     (if \<not> fst (IfS3v4 c) then
        ((signRequestS3v2 env c (sSecret c) ''GET'' sResource (sg_Headers c) (Some sExpire), sResource), c)
      else
        let c1 = c\<lparr> GlobalS3V4SigningKey := [], ftS3V4SigningKey := 0, sg_Headers := share_headers init_hs sHostPort \<rparr>;
            res = share_resource env c ftNow sResource sExpire;
            (r, c2) = signRequestS3v4 env (sSecret c) ''GET'' res [] Unsigned 0 [] [] (share_time env ftNow) c1 in
        ((sPreviousSignature r, res), c2))"

definition GenerateShareableURL ::
  "sign_env \<Rightarrow> headers \<Rightarrow> FILETIME \<Rightarrow> int \<Rightarrow> int \<Rightarrow> bool \<Rightarrow> WORD \<Rightarrow> string list \<Rightarrow> string \<Rightarrow> sign_conn \<Rightarrow> string \<times> sign_conn" where
  "GenerateShareableURL env init_hs ftNow tNow tExpire bSSL Port ips pszPath c =
     (case ips of
        [] \<Rightarrow> ([], c)
      | sIP # _ \<Rightarrow>
          let v4 = fst (IfS3v4 c);
              Duration = (if tExpire - tNow > 604800 then 604800 else tExpire - tNow);
              sExpire = (if v4 then int_str Duration else int_str tExpire);
              sScheme = (if bSSL then ''https:'' else ''http:'');
              sPort = (if bSSL \<and> Port \<noteq> 443 \<or> \<not> bSSL \<and> Port \<noteq> 80 then '':'' @ decimal (unat Port) else []);
              sResource = UriEncode pszPath StdSAFE;
              ((sig, res), c1) = signS3ShareableURL env init_hs ftNow sResource sExpire (sIP @ sPort) c;
              sSignature = UriEncode sig V4AuthSlash in
          if \<not> v4 then
            (sScheme @ ''//'' @ EncodeSpecialChars (sIP @ sPort @ res @ ''?AWSAccessKeyId='' @ UriEncode (sS3KeyID c) StdSAFE
               @ ''&Expires='' @ sExpire @ ''&Signature'') @ ''='' @ sSignature, c1)
          else (EncodeSpecialChars (sScheme @ ''//'' @ sIP @ sPort @ res @ ''&X-Amz-Signature'') @ ''='' @ sSignature, c1))"

section \<open>The stored key is the key of the day\<close>

lemma same_day_ymd: "same_day a b \<Longrightarrow> ymd a = ymd b"
  by (simp add: same_day_def ymd_def)

lemma signing_key_day: "same_day a b \<Longrightarrow> signing_key env s r a = signing_key env s r b"
  by (simp add: signing_key_def same_day_ymd)

lemma same_day_sym: "same_day a b \<longleftrightarrow> same_day b a"
  by (auto simp: same_day_def)

definition key_valid :: "sign_env \<Rightarrow> sign_conn \<Rightarrow> bool" where
  "key_valid env c \<longleftrightarrow> GlobalS3V4SigningKey c = []
     \<or> (\<exists>st. FileTimeToSystemTime (sg_dates env) (ftS3V4SigningKey c) = Some st
         \<and> signing_key env (sSecret c) (sS3Region c) st = Inr (GlobalS3V4SigningKey c))"

text \<open>A time the conversions of Windows take to a file time and back, on the same day.\<close>

definition time_ok :: "sign_env \<Rightarrow> SYSTEMTIME \<Rightarrow> bool" where
  "time_ok env st \<longleftrightarrow> (case SystemTimeToFileTime (sg_dates env) st of Inl e \<Rightarrow> False
     | Inr ft \<Rightarrow> (case FileTimeToSystemTime (sg_dates env) ft of None \<Rightarrow> False | Some st' \<Rightarrow> same_day st' st))"

lemma time_okD:
  assumes "time_ok env st"
  obtains ft st' where "SystemTimeToFileTime (sg_dates env) st = Inr ft"
    "FileTimeToSystemTime (sg_dates env) ft = Some st'" "same_day st' st"
  using assms by (auto simp: time_ok_def split: sum.splits option.splits)

lemma key_valid_cleared: "GlobalS3V4SigningKey c = [] \<Longrightarrow> key_valid env c"
  by (simp add: key_valid_def)

lemma key_valid_headers [simp]: "key_valid env (c\<lparr> sg_Headers := hs \<rparr>) = key_valid env c"
  by (simp add: key_valid_def)

lemma key_valid_SetSecret: "key_valid env c \<Longrightarrow> key_valid env (SetSecret s c)"
  by (auto simp: SetSecret_def intro: key_valid_cleared)

lemma key_valid_SetHostAuth: "key_valid env (SetHostAuth b n c) = key_valid env c"
  by (simp add: SetHostAuth_def key_valid_def)

lemma stored_key_valid:
  assumes "key_valid env c" "stored_key env st [] c = k" "k \<noteq> []"
  shows "signing_key env (sSecret c) (sS3Region c) st = Inr k"
proof -
  obtain st1 where st1: "FileTimeToSystemTime (sg_dates env) (ftS3V4SigningKey c) = Some st1"
      "signing_key env (sSecret c) (sS3Region c) st1 = Inr (GlobalS3V4SigningKey c)"
    using assms by (auto simp: key_valid_def stored_key_def split: if_splits)
  have "same_day st st1" "k = GlobalS3V4SigningKey c"
    using assms(2,3) st1(1) by (auto simp: stored_key_def split: if_splits)
  then show ?thesis using st1(2) signing_key_day by metis
qed

lemma key_valid_create:
  assumes "time_ok env st" "CreateS3SigningKey env (sSecret c) st c = (k, c')"
  shows "k = signing_key env (sSecret c) (sS3Region c) st"
    "k = Inr key \<Longrightarrow> key_valid env c'" "k = Inl e \<Longrightarrow> c' = c"
proof -
  obtain ft st' where t: "SystemTimeToFileTime (sg_dates env) st = Inr ft"
      "FileTimeToSystemTime (sg_dates env) ft = Some st'" "same_day st' st" by (rule time_okD [OF assms(1)])
  show "k = signing_key env (sSecret c) (sS3Region c) st" "k = Inl e \<Longrightarrow> c' = c"
    using assms(2) by (auto simp: CreateS3SigningKey_def split: sum.splits)
  show "key_valid env c'" if "k = Inr key"
  proof -
    have "signing_key env (sSecret c) (sS3Region c) st = Inr key"
      "c' = c\<lparr> ftS3V4SigningKey := ft, GlobalS3V4SigningKey := key \<rparr>"
      using assms(2) that t(1) by (auto simp: CreateS3SigningKey_def split: sum.splits)
    then show ?thesis using t(2) signing_key_day [OF t(3)] by (simp add: key_valid_def)
  qed
qed

lemma create_keeps:
  "CreateS3SigningKey env s st c = (k, c') \<Longrightarrow> sSecret c' = sSecret c \<and> sS3KeyID c' = sS3KeyID c \<and> sS3Region c' = sS3Region c
     \<and> bS3AuthV4 c' = bS3AuthV4 c \<and> sg_Headers c' = sg_Headers c"
  by (auto simp: CreateS3SigningKey_def split: sum.splits)

section \<open>What a version 4 signature should be\<close>

definition fresh_v4 :: "sign_env \<Rightarrow> sign_conn \<Rightarrow> string \<Rightarrow> string \<Rightarrow> string \<Rightarrow> E_S3_V4_PAYLOAD \<Rightarrow> ULONGLONG \<Rightarrow> SYSTEMTIME \<Rightarrow> DWORD + string \<times> string" where
  "fresh_v4 env c verb resource pData pt ullTotal st =
     res_bind (payload_hash env pData pt ullTotal (sg_Headers c)) (\<lambda>(ph, hs).
     res_bind (sg_sha256 env (canonical_request env verb resource hs ph)) (\<lambda>h.
     res_bind (signing_key env (sSecret c) (sS3Region c) st) (\<lambda>key.
     res_bind (sg_hmac256 env key (string_to_sign env st (sS3Region c) h)) (\<lambda>sig.
     Inr (authorization_v4 (sS3KeyID c) st (sS3Region c) hs (BinaryToHexString sig), BinaryToHexString sig)))))"

definition next_headers :: "sign_env \<Rightarrow> string \<Rightarrow> E_S3_V4_PAYLOAD \<Rightarrow> ULONGLONG \<Rightarrow> headers \<Rightarrow> headers" where
  "next_headers env pData pt ullTotal hs = (case payload_hash env pData pt ullTotal hs of Inl e \<Rightarrow> hs | Inr (ph, hs') \<Rightarrow> hs')"

definition same_but_key :: "sign_conn \<Rightarrow> sign_conn \<Rightarrow> bool" where
  "same_but_key c d \<longleftrightarrow> sSecret c = sSecret d \<and> sS3KeyID c = sS3KeyID d \<and> sS3Region c = sS3Region d
     \<and> bS3AuthV4 c = bS3AuthV4 d \<and> sg_Headers c = sg_Headers d"

lemma signRequestS3v4_fresh:
  assumes "key_valid env c" "time_ok env st"
    and r: "signRequestS3v4 env (sSecret c) verb resource pData pt ullTotal [] prev st c = (r, c')"
  shows "(case fresh_v4 env c verb resource pData pt ullTotal st of
        Inl e \<Rightarrow> sAuthorization r = [] \<and> sPreviousSignature r = prev
      | Inr (auth, sig) \<Rightarrow> sAuthorization r = auth \<and> sPreviousSignature r = sig)
    \<and> key_valid env c' \<and> same_but_key c' (c\<lparr> sg_Headers := next_headers env pData pt ullTotal (sg_Headers c) \<rparr>)"
proof (cases "payload_hash env pData pt ullTotal (sg_Headers c)")
  case (Inl e)
  then show ?thesis using r assms(1) by (auto simp: signRequestS3v4_def fresh_v4_def next_headers_def same_but_key_def)
next
  case (Inr p)
  obtain ph hs where p: "payload_hash env pData pt ullTotal (sg_Headers c) = Inr (ph, hs)" using Inr by (cases p) auto
  let ?c1 = "c\<lparr> sg_Headers := hs \<rparr>"
  have v1: "key_valid env ?c1" using assms(1) by simp
  show ?thesis
  proof (cases "sg_sha256 env (canonical_request env verb resource hs ph)")
    case (Inl e)
    then show ?thesis using r p v1 by (auto simp: signRequestS3v4_def fresh_v4_def next_headers_def same_but_key_def)
  next
    case h: (Inr h)
    define k0 where "k0 = stored_key env st [] ?c1"
    obtain k c2 where kc: "(if k0 = [] then CreateS3SigningKey env (sSecret c) st ?c1 else (Inr k0, ?c1)) = (k, c2)"
      by fastforce
    have key: "k = signing_key env (sSecret c) (sS3Region c) st \<and> key_valid env c2 \<and> same_but_key c2 ?c1"
    proof (cases "k0 = []")
      case True
      then have cr: "CreateS3SigningKey env (sSecret ?c1) st ?c1 = (k, c2)" using kc by simp
      have "key_valid env c2"
      proof (cases k)
        case (Inl e)
        then show ?thesis using key_valid_create(3) [OF assms(2) cr] v1 by simp
      next
        case (Inr key)
        then show ?thesis by (rule key_valid_create(2) [OF assms(2) cr])
      qed
      then show ?thesis using key_valid_create(1) [OF assms(2) cr] create_keeps [OF cr] by (simp add: same_but_key_def)
    next
      case False
      then show ?thesis using kc stored_key_valid [OF v1 k0_def [symmetric] False] v1 by (auto simp: same_but_key_def)
    qed
    then have f: "sS3Region c2 = sS3Region c" "sS3KeyID c2 = sS3KeyID c" by (simp_all add: same_but_key_def)
    have fr: "fresh_v4 env c verb resource pData pt ullTotal st =
        res_bind k (\<lambda>key. res_bind (sg_hmac256 env key (string_to_sign env st (sS3Region c) h)) (\<lambda>sig.
          Inr (authorization_v4 (sS3KeyID c) st (sS3Region c) hs (BinaryToHexString sig), BinaryToHexString sig)))"
      using key by (simp add: fresh_v4_def p h)
    have nh: "next_headers env pData pt ullTotal (sg_Headers c) = hs" by (simp add: next_headers_def p)
    show ?thesis
      unfolding fr nh using r key by (auto simp: signRequestS3v4_def p h f kc k0_def [symmetric] Let_def split: sum.splits)
  qed
qed

section \<open>Runs of a connection\<close>

datatype sign_op = NewSecret string | HostAuth bool DWORD | NewHeaders headers
  | SignRequest string string string E_S3_V4_PAYLOAD ULONGLONG SYSTEMTIME
  | ShareUrl headers FILETIME string string string

definition sign_step :: "sign_env \<Rightarrow> sign_op \<Rightarrow> sign_conn \<Rightarrow> (string \<times> string) \<times> sign_conn" where
  "sign_step env op c =
     (case op of
        NewSecret s \<Rightarrow> (([], []), SetSecret s c)
      | HostAuth b n \<Rightarrow> (([], []), SetHostAuth b n c)
      | NewHeaders hs \<Rightarrow> (([], []), c\<lparr> sg_Headers := hs \<rparr>)
      | SignRequest verb res pData pt ull st \<Rightarrow>
          (let (r, c') = signRequestS3v4 env (sSecret c) verb res pData pt ull [] [] st c in
           ((sAuthorization r, sPreviousSignature r), c'))
      | ShareUrl hs ft res ex hp \<Rightarrow> signS3ShareableURL env hs ft res ex hp c)"

text \<open>The same without a stored key: every signature is computed from the secret, the region and the day.\<close>

definition or_none :: "DWORD + string \<times> string \<Rightarrow> string \<times> string" where
  "or_none r = (case r of Inl e \<Rightarrow> ([], []) | Inr p \<Rightarrow> p)"

definition fresh_step :: "sign_env \<Rightarrow> sign_op \<Rightarrow> sign_conn \<Rightarrow> (string \<times> string) \<times> sign_conn" where
  "fresh_step env op c =
     (case op of
        NewSecret s \<Rightarrow> (([], []), c\<lparr> sSecret := s \<rparr>)
      | HostAuth b n \<Rightarrow> (([], []), c\<lparr> bS3AuthV4 := b \<rparr>)
      | NewHeaders hs \<Rightarrow> (([], []), c\<lparr> sg_Headers := hs \<rparr>)
      | SignRequest verb res pData pt ull st \<Rightarrow>
          (or_none (fresh_v4 env c verb res pData pt ull st), c\<lparr> sg_Headers := next_headers env pData pt ull (sg_Headers c) \<rparr>)
      | ShareUrl hs ft res ex hp \<Rightarrow>
          (if bS3AuthV4 c then
             (let c1 = c\<lparr> sg_Headers := share_headers hs hp \<rparr>; url = share_resource env c ft res ex in
              ((snd (or_none (fresh_v4 env c1 ''GET'' url [] Unsigned 0 (share_time env ft))), url), c1))
           else ((signRequestS3v2 env c (sSecret c) ''GET'' res (sg_Headers c) (Some ex), res), c)))"

fun run_ops :: "('o \<Rightarrow> 's \<Rightarrow> 'a \<times> 's) \<Rightarrow> 'o list \<Rightarrow> 's \<Rightarrow> 'a list" where
  "run_ops f [] c = []"
| "run_ops f (op # ops) c = (let (a, c') = f op c in a # run_ops f ops c')"

definition op_time_ok :: "sign_env \<Rightarrow> sign_op \<Rightarrow> bool" where
  "op_time_ok env op = (case op of
     SignRequest verb res pData pt ull st \<Rightarrow> time_ok env st
   | ShareUrl hs ft res ex hp \<Rightarrow> time_ok env (share_time env ft)
   | _ \<Rightarrow> True)"

lemma fresh_v4_cong:
  "same_but_key c d \<Longrightarrow> fresh_v4 env c verb res pData pt ull st = fresh_v4 env d verb res pData pt ull st"
  by (simp add: fresh_v4_def same_but_key_def)

lemma v4_outputs:
  assumes "key_valid env c" "time_ok env st"
    and "signRequestS3v4 env (sSecret c) verb res pData pt ull [] [] st c = (r, c')"
  shows "(sAuthorization r, sPreviousSignature r) = or_none (fresh_v4 env c verb res pData pt ull st)"
    "key_valid env c'" "same_but_key c' (c\<lparr> sg_Headers := next_headers env pData pt ull (sg_Headers c) \<rparr>)"
  using signRequestS3v4_fresh [OF assms] by (auto simp: or_none_def split: sum.splits)

lemma sign_step_fresh:
  assumes v: "key_valid env c" and s: "same_but_key c d" and t: "op_time_ok env op"
    and f: "sign_step env op c = (a, c')"
  shows "\<exists>d'. fresh_step env op d = (a, d') \<and> key_valid env c' \<and> same_but_key c' d'"
proof (cases op)
  case (SignRequest verb res pData pt ull st)
  obtain r c2 where r: "signRequestS3v4 env (sSecret c) verb res pData pt ull [] [] st c = (r, c2)" by fastforce
  have tk: "time_ok env st" using t SignRequest by (simp add: op_time_ok_def)
  note o = v4_outputs [OF v tk r]
  show ?thesis using f s o r SignRequest fresh_v4_cong [OF s]
    by (simp add: sign_step_def fresh_step_def same_but_key_def)
next
  case (ShareUrl hs ft res ex hp)
  have sec: "sSecret c = sSecret d" "sg_Headers c = sg_Headers d" "sS3KeyID c = sS3KeyID d" "bS3AuthV4 c = bS3AuthV4 d" "sS3Region c = sS3Region d"
    using s by (simp_all add: same_but_key_def)
  show ?thesis
  proof (cases "bS3AuthV4 c")
    case True
    define c1 where "c1 = c\<lparr> GlobalS3V4SigningKey := [], ftS3V4SigningKey := 0, sg_Headers := share_headers hs hp \<rparr>"
    define d1 where "d1 = d\<lparr> sg_Headers := share_headers hs hp \<rparr>"
    define url where "url = share_resource env c ft res ex"
    have url: "url = share_resource env d ft res ex" using sec by (simp add: url_def share_resource_def)
    obtain r c2 where r: "signRequestS3v4 env (sSecret c1) ''GET'' url [] Unsigned 0 [] [] (share_time env ft) c1 = (r, c2)" by fastforce
    have v1: "key_valid env c1" by (rule key_valid_cleared) (simp add: c1_def)
    have tk: "time_ok env (share_time env ft)" using t ShareUrl by (simp add: op_time_ok_def)
    have s1: "same_but_key c1 d1" using s by (simp add: c1_def d1_def same_but_key_def)
    note o = v4_outputs [OF v1 tk r]
    have "sSecret c1 = sSecret c" by (simp add: c1_def)
    then have "signS3ShareableURL env hs ft res ex hp c = ((sPreviousSignature r, url), c2)"
      using True r unfolding signS3ShareableURL_def IfS3v4_def Let_def c1_def [symmetric] url_def [symmetric] by simp
    then have "a = (sPreviousSignature r, url)" "c' = c2" using f by (simp_all add: ShareUrl sign_step_def)
    moreover have "fresh_step env op d = ((snd (or_none (fresh_v4 env d1 ''GET'' url [] Unsigned 0 (share_time env ft))), url), d1)"
      using ShareUrl True sec by (simp add: fresh_step_def Let_def url d1_def)
    moreover have "sPreviousSignature r = snd (or_none (fresh_v4 env d1 ''GET'' url [] Unsigned 0 (share_time env ft)))"
      using o(1) fresh_v4_cong [OF s1] by (metis snd_conv)
    moreover have "same_but_key c2 d1"
      using o(3) s1 by (simp add: same_but_key_def next_headers_def payload_hash_def)
    ultimately show ?thesis using o(2) by (intro exI [of _ d1]) simp
  next
    case False
    have "signRequestS3v2 env c (sSecret c) ''GET'' res (sg_Headers c) (Some ex) = signRequestS3v2 env d (sSecret d) ''GET'' res (sg_Headers d) (Some ex)"
      unfolding signRequestS3v2_def sec by simp
    then have "sign_step env op c = (fst (fresh_step env op d), c)" "snd (fresh_step env op d) = d"
      using False sec(4) by (simp_all add: ShareUrl sign_step_def fresh_step_def signS3ShareableURL_def IfS3v4_def)
    then show ?thesis using f v s by (metis prod.collapse prod.inject)
  qed
next
  case (NewSecret x)
  have "same_but_key (SetSecret x c) (d\<lparr> sSecret := x \<rparr>)" using s by (simp add: SetSecret_def same_but_key_def)
  then show ?thesis using f key_valid_SetSecret [OF v] by (auto simp: NewSecret sign_step_def fresh_step_def)
next
  case (HostAuth b n)
  have "same_but_key (SetHostAuth b n c) (d\<lparr> bS3AuthV4 := b \<rparr>)" using s by (simp add: SetHostAuth_def same_but_key_def)
  then show ?thesis using f v by (auto simp: HostAuth sign_step_def fresh_step_def key_valid_SetHostAuth)
next
  case (NewHeaders hs)
  have "same_but_key (c\<lparr> sg_Headers := hs \<rparr>) (d\<lparr> sg_Headers := hs \<rparr>)" using s by (simp add: same_but_key_def)
  then show ?thesis using f v by (auto simp: NewHeaders sign_step_def fresh_step_def)
qed

lemma run_sign_fresh:
  assumes "key_valid env c" "same_but_key c d" "list_all (op_time_ok env) ops"
  shows "run_ops (sign_step env) ops c = run_ops (fresh_step env) ops d"
  using assms
proof (induction ops arbitrary: c d)
  case (Cons op ops)
  obtain a c' where f: "sign_step env op c = (a, c')" by fastforce
  obtain d' where d: "fresh_step env op d = (a, d')" "key_valid env c'" "same_but_key c' d'"
    using sign_step_fresh [OF Cons.prems(1,2) _ f] Cons.prems(3) by auto
  show ?case using Cons.IH [OF d(2,3)] Cons.prems(3) by (simp add: f d(1))
qed simp

text \<open>\<open>SetRegion\<close> is not among the operations: it keeps the stored key, and on the same day the next
  request is signed with a key that was made for the old region.\<close>

lemma SetRegion_keeps_key:
  assumes "FileTimeToSystemTime (sg_dates env) (ftS3V4SigningKey c) = Some st" "GlobalS3V4SigningKey c \<noteq> []"
  shows "stored_key env st [] (SetRegion r c) = GlobalS3V4SigningKey c"
  using assms by (simp add: stored_key_def SetRegion_def same_day_def)

section \<open>The order of the query\<close>

lemma fold_insert_new:
  "fold (\<lambda>q. insert_new (fst (f q)) (snd (f q))) qs m k = (case m k of None \<Rightarrow> map_of (map f qs) k | Some v \<Rightarrow> Some v)"
proof (induction qs arbitrary: m)
  case (Cons q qs)
  have "insert_new (fst (f q)) (snd (f q)) m k = (if m k = None \<and> fst (f q) = k then Some (snd (f q)) else m k)"
    by (auto simp: insert_new_def)
  then show ?case by (cases "f q") (auto simp: Cons.IH split: option.splits)
qed (simp split: option.splits)

abbreviation amp :: "char \<Rightarrow> bool" where
  "amp \<equiv> \<lambda>ch. ch = CHR ''&''"

lemma canonical_query_perm:
  assumes "mset (tokens amp q1) = mset (tokens amp q2)" "distinct (map (fst \<circ> query_entry env) (tokens amp q1))"
  shows "canonical_query env q1 = canonical_query env q2"
proof -
  let ?f = "query_entry env"
  have "mset (map (fst \<circ> ?f) (tokens amp q1)) = mset (map (fst \<circ> ?f) (tokens amp q2))" using assms(1) by (simp only: mset_map)
  then have d: "distinct (map fst (map ?f (tokens amp q1)))" "distinct (map fst (map ?f (tokens amp q2)))"
    using assms(2) mset_eq_imp_distinct_iff by (simp_all, blast)
  have "set (map ?f (tokens amp q1)) = set (map ?f (tokens amp q2))" using assms(1) by (metis mset_map set_mset_mset)
  then have "map_of (map ?f (tokens amp q1)) = map_of (map ?f (tokens amp q2))"
    using map_of_inject_set [OF d] by simp
  then have "fold (\<lambda>q. insert_new (fst (?f q)) (snd (?f q))) (tokens amp q1) (\<lambda>_. None)
      = fold (\<lambda>q. insert_new (fst (?f q)) (snd (?f q))) (tokens amp q2) (\<lambda>_. None)"
    by (intro ext) (simp add: fold_insert_new)
  then show ?thesis by (simp add: canonical_query_def)
qed

lemma canonical_query_Nil: "canonical_query env [] = []"
  by (simp add: canonical_query_def tokens_def map_items_def)

lemma canonical_request_perm:
  assumes "CHR ''?'' \<notin> set p" "mset (tokens amp q1) = mset (tokens amp q2)"
    "distinct (map (fst \<circ> query_entry env) (tokens amp q1))"
  shows "canonical_request env verb (p @ ''?'' @ q1) hs ph = canonical_request env verb (p @ ''?'' @ q2) hs ph"
proof -
  have "(if q \<noteq> [] then canonical_query env q else []) = canonical_query env q" for q
    by (simp add: canonical_query_Nil)
  then show ?thesis
    using canonical_query_perm [OF assms(2,3)] by (simp add: canonical_request_def find_char_append [OF assms(1)])
qed

section \<open>Properties\<close>

text \<open>C27: Storing the signing key changes no signature: over any run of a connection with changes of the
  secret, of the authentication and of the headers, signed requests and shareable URLs, every
  signature is the one computed afresh from the secret of that moment, the region and the day of
  the request, hash failures included. The region does not change in such a run.\<close>

theorem stored_key_is_fresh:
  assumes "GlobalS3V4SigningKey c = []" "list_all (op_time_ok env) ops"
  shows "run_ops (sign_step env) ops c = run_ops (fresh_step env) ops c"
  by (rule run_sign_fresh [OF key_valid_cleared [OF assms(1)] _ assms(2)]) (simp add: same_but_key_def)

definition demo_sign :: sign_env where
  "demo_sign = \<lparr> sg_sha256 = (\<lambda>s. Inr (take 4 (bytes_of s))), sg_hmac256 = (\<lambda>k s. Inr (take 4 (k @ bytes_of s))),
     sg_hmac1 = (\<lambda>k s. Inr k), sg_base64 = (\<lambda>_. []), sg_decode = pct_decode,
     sg_dates = \<lparr> SystemTimeToFileTime = (\<lambda>_. Inr 0), FileTimeToSystemTime = (\<lambda>_. Some zero_time),
       TzSpecificLocalTimeToSystemTime = Inr, SystemTimeToTzSpecificLocalTime = Some \<rparr>, sg_uninit = (zero_time, 0) \<rparr>"

definition demo_sign_conn :: sign_conn where
  "demo_sign_conn = \<lparr> sSecret = ''s1'', sS3KeyID = ''me'', sS3Region = ''us-east-1'', bS3AuthV4 = True, uS3AuthV4ChunkSize = 0x200000,
     GlobalS3V4SigningKey = [], ftS3V4SigningKey = 0, sg_Headers = (\<lambda>_. None) \<rparr>"

definition demo_sign_ops :: "sign_op list" where
  "demo_sign_ops = [SignRequest ''GET'' ''/b'' [] Signed 0 zero_time, NewSecret ''s2'',
     SignRequest ''GET'' ''/b'' [] Signed 0 zero_time, ShareUrl (\<lambda>_. None) 0 ''/b/o'' ''60'' ''h'']"

theorem stored_key_is_fresh_witness:
  "run_ops (sign_step demo_sign) demo_sign_ops demo_sign_conn = run_ops (fresh_step demo_sign) demo_sign_ops demo_sign_conn"
  by (rule stored_key_is_fresh)
    (simp_all add: demo_sign_conn_def demo_sign_ops_def op_time_ok_def time_ok_def demo_sign_def same_day_def share_time_def)

text \<open>The version 4 signature does not depend on the order in which the query has its parameters,
  as long as no parameter is there twice.\<close>

theorem signature_query_order:
  assumes "CHR ''?'' \<notin> set p" "mset (tokens (\<lambda>ch. ch = CHR ''&'') q1) = mset (tokens (\<lambda>ch. ch = CHR ''&'') q2)"
    "distinct (map (fst \<circ> query_entry env) (tokens (\<lambda>ch. ch = CHR ''&'') q1))"
  shows "signRequestS3v4 env secret verb (p @ ''?'' @ q1) pData pt ull key prev st c
    = signRequestS3v4 env secret verb (p @ ''?'' @ q2) pData pt ull key prev st c"
  unfolding signRequestS3v4_def canonical_request_perm [OF assms] by (rule refl)

theorem signature_query_order_witness:
  "signRequestS3v4 demo_sign ''s'' ''GET'' (''/b/o'' @ ''?'' @ ''versionId=7&acl'') [] Signed 0 [] [] zero_time demo_sign_conn
   = signRequestS3v4 demo_sign ''s'' ''GET'' (''/b/o'' @ ''?'' @ ''acl&versionId=7'') [] Signed 0 [] [] zero_time demo_sign_conn"
proof (rule signature_query_order)
  have t: "tokens (\<lambda>ch. ch = CHR ''&'') ''versionId=7&acl'' = [''versionId=7'', ''acl'']"
    "tokens (\<lambda>ch. ch = CHR ''&'') ''acl&versionId=7'' = [''acl'', ''versionId=7'']"
    by (simp_all add: tokens_def)
  have q: "fst (query_entry demo_sign ''versionId=7'') \<noteq> fst (query_entry demo_sign ''acl'')" by code_simp
  show "mset (tokens (\<lambda>ch. ch = CHR ''&'') ''versionId=7&acl'') = mset (tokens (\<lambda>ch. ch = CHR ''&'') ''acl&versionId=7'')"
    by (simp add: t)
  show "distinct (map (fst \<circ> query_entry demo_sign) (tokens (\<lambda>ch. ch = CHR ''&'') ''versionId=7&acl''))"
    using q by (simp add: t)
qed simp

end
