(* ===== verification/ChunkSend.thy ===== *)
theory ChunkSend
  imports Signing
begin

text \<open>
  The body of a request (ECSConnection.cpp, BuildV4ChunkMetadata, CreateS3V4ChunkMetadata and the
  send loops of SendRequestInternal): data in memory, and data streamed through a queue, which a
  version 4 request sends in signed chunks. Writing a block, waiting for more data and the upload
  throttle are parameters; the queue holds what is in it and what will still be pushed.
\<close>

section \<open>Chunks\<close>

fun hex_num :: "nat \<Rightarrow> string" where
  "hex_num n = (if n < 16 then [hex_lower ! n] else hex_num (n div 16) @ [hex_lower ! (n mod 16)])"

declare hex_num.simps [simp del]

text \<open>\<open>%0Nx\<close>.\<close>

definition hex_pad :: "nat \<Rightarrow> nat \<Rightarrow> string" where
  "hex_pad uDigits n = replicate (uDigits - length (hex_num n)) CHR ''0'' @ hex_num n"

fun count_digits :: "nat \<Rightarrow> nat" where
  "count_digits uChunkSize = (if uChunkSize = 0 then 0 else Suc (count_digits (uChunkSize div 16)))"

declare count_digits.simps [simp del]

definition crlf :: string where "crlf = [CHR 0x0D, CHR 0x0A]"

definition BuildV4ChunkMetadata :: "nat \<Rightarrow> nat \<Rightarrow> string \<Rightarrow> string" where
  "BuildV4ChunkMetadata uDigits uChunkLength sSignature = hex_pad uDigits uChunkLength @ '';chunk-signature='' @ sSignature @ crlf"

record chunk_info =
  ci_ChunkSize :: nat
  ci_Digits :: nat
  ci_MetadataOffset :: nat
  ci_MetadataSize :: nat
  ci_EmptySignature :: string

definition init_chunks :: "sign_env \<Rightarrow> DWORD \<Rightarrow> DWORD + chunk_info" where
  "init_chunks env uS3AuthV4ChunkSizeParam =
     res_bind (sg_sha256 env []) (\<lambda>EmptySignature.
       let sEmptySignature = BinaryToHexString EmptySignature;
           n = unat (if uS3AuthV4ChunkSizeParam < 0x2000 then 0x2000 else uS3AuthV4ChunkSizeParam);
           uDigits = count_digits n;
           off = length (BuildV4ChunkMetadata uDigits n sEmptySignature) in
       Inr \<lparr> ci_ChunkSize = n, ci_Digits = uDigits, ci_MetadataOffset = off, ci_MetadataSize = off + 2,
             ci_EmptySignature = sEmptySignature \<rparr>)"

definition content_length :: "chunk_info \<Rightarrow> ULONGLONG \<Rightarrow> ULONGLONG" where
  "content_length ci ullTotalLen =
     (let c0 = ullTotalLen div of_nat (ci_ChunkSize ci);
          c1 = (if ullTotalLen mod of_nat (ci_ChunkSize ci) \<noteq> 0 then c0 + 1 else c0);
          ullChunks = c1 + 1 in
      ullTotalLen + ullChunks * of_nat (ci_MetadataSize ci))"

section \<open>State and environment\<close>

text \<open>\<open>s_Out\<close> records the blocks that were written.\<close>

record 'w send_state =
  s_Queue :: "stream_entry list"
  s_Buf :: string
  s_Index :: nat
  s_Prev :: string
  s_Sent :: nat
  s_Avail :: bool
  s_Progress :: DWORD
  s_Out :: "string list"
  s_World :: 'w

record 'w send_env =
  sd_write :: "string \<Rightarrow> 'w \<Rightarrow> (DWORD + DWORD) \<times> 'w"
  sd_more :: "'w \<Rightarrow> bool \<times> 'w"
  sd_pause :: "DWORD \<Rightarrow> 'w \<Rightarrow> DWORD option \<times> 'w"
  sd_progress :: bool
  sd_MaxWrite :: DWORD

text \<open>What a version 4 request signs with.\<close>

record sign_ctx =
  sx_env :: sign_env
  sx_Key :: "BYTE list"
  sx_Time :: SYSTEMTIME
  sx_Region :: string

definition ERROR_NO_DATA_DETECTED :: DWORD where "ERROR_NO_DATA_DETECTED = 1104"

definition put_block :: "'w send_env \<Rightarrow> string \<Rightarrow> 'w send_state \<Rightarrow> (DWORD + DWORD) \<times> 'w send_state" where
  "put_block env b s =
     (case sd_write env b (s_World s) of
        (Inl e, w) \<Rightarrow> (Inl e, s\<lparr> s_World := w \<rparr>)
      | (Inr n, w) \<Rightarrow> (Inr n, s\<lparr> s_World := w, s_Out := s_Out s @ [b] \<rparr>))"

section \<open>Signing a chunk\<close>

definition chunk_string :: "sign_ctx \<Rightarrow> string \<Rightarrow> string \<Rightarrow> string \<Rightarrow> string" where
  "chunk_string sx sPreviousSig sEmptySignature sHash =
     (let nl = [CHR 0x0A] in
      ''AWS4-HMAC-SHA256-PAYLOAD'' @ nl @ FormatISO8601Date_st (sg_dates (sx_env sx)) (sx_Time sx) False False True @ nl
      @ credential_scope (sx_Time sx) (sx_Region sx) @ nl @ sPreviousSig @ nl @ sEmptySignature @ nl @ sHash)"

definition chunk_signature :: "sign_ctx \<Rightarrow> string \<Rightarrow> string \<Rightarrow> string \<Rightarrow> DWORD + string" where
  "chunk_signature sx sPreviousSig sEmptySignature data =
     res_bind (if data \<noteq> [] then res_bind (sg_sha256 (sx_env sx) data) (\<lambda>h. Inr (BinaryToHexString h)) else Inr sEmptySignature) (\<lambda>sHash.
     res_bind (sg_hmac256 (sx_env sx) (sx_Key sx) (chunk_string sx sPreviousSig sEmptySignature sHash)) (\<lambda>sig.
     Inr (BinaryToHexString sig)))"

text \<open>The prefix and the line end are written into the send buffer around the data.\<close>

definition CreateS3V4ChunkMetadata :: "sign_ctx \<Rightarrow> chunk_info \<Rightarrow> 'w send_state \<Rightarrow> (DWORD + unit) \<times> 'w send_state" where
  "CreateS3V4ChunkMetadata sx ci s =
     (case chunk_signature sx (s_Prev s) (ci_EmptySignature ci) (take (s_Index s) (drop (ci_MetadataOffset ci) (s_Buf s))) of
        Inl e \<Rightarrow> (Inl e, s)
      | Inr sSignature \<Rightarrow>
          let buf1 = write_at 0 (BuildV4ChunkMetadata (ci_Digits ci) (s_Index s) sSignature) (s_Buf s);
              buf2 = write_at (ci_MetadataOffset ci + s_Index s) [CHR 0x0D] buf1;
              buf3 = write_at (ci_MetadataOffset ci + s_Index s + 1) [CHR 0x0A] buf2 in
          (Inr (), s\<lparr> s_Prev := sSignature, s_Buf := buf3 \<rparr>))"

definition send_chunk :: "'w send_env \<Rightarrow> sign_ctx \<Rightarrow> chunk_info \<Rightarrow> 'w send_state \<Rightarrow> (DWORD + DWORD) \<times> 'w send_state" where
  "send_chunk env sx ci s =
     (case CreateS3V4ChunkMetadata sx ci s of
        (Inl e, s1) \<Rightarrow> (Inl e, s1)
      | (Inr _, s1) \<Rightarrow> put_block env (take (s_Index s1 + ci_MetadataSize ci) (s_Buf s1)) s1)"

section \<open>The loop over the stream\<close>

text \<open>The next data of a version 4 request: into the buffer, which is sent when it is full.\<close>

definition v4_part :: "'w send_env \<Rightarrow> sign_ctx \<Rightarrow> chunk_info \<Rightarrow> 'w send_state \<Rightarrow> (DWORD + DWORD) \<times> 'w send_state" where
  "v4_part env sx ci s =
     (let data = se_Data (hd (s_Queue s));
          part = min (length data - s_Sent s) (ci_ChunkSize ci - s_Index s);
          s1 = (if part > 0 then s\<lparr> s_Buf := write_at (ci_MetadataOffset ci + s_Index s) (take part (drop (s_Sent s) data)) (s_Buf s),
                  s_Index := s_Index s + part, s_Sent := s_Sent s + part \<rparr> else s) in
      if s_Index s1 = ci_ChunkSize ci then
        (case send_chunk env sx ci s1 of (Inl e, s2) \<Rightarrow> (Inl e, s2) | (Inr n, s2) \<Rightarrow> (Inr n, s2\<lparr> s_Index := 0 \<rparr>))
      else (Inr 0, s1))"

definition plain_part :: "'w send_env \<Rightarrow> 'w send_state \<Rightarrow> (DWORD + DWORD) \<times> 'w send_state" where
  "plain_part env s =
     (let data = se_Data (hd (s_Queue s)); rest = length data - s_Sent s;
          part = (if sd_MaxWrite env > 0 \<and> rest > unat (sd_MaxWrite env) then unat (sd_MaxWrite env) else rest) in
      case put_block env (take part (drop (s_Sent s) data)) s of
        (Inl e, s1) \<Rightarrow> (Inl e, s1)
      | (Inr n, s1) \<Rightarrow> (Inr n, s1\<lparr> s_Sent := s_Sent s1 + unat n \<rparr>))"

text \<open>What follows the last entry.\<close>

definition v4_end :: "'w send_env \<Rightarrow> sign_ctx \<Rightarrow> chunk_info \<Rightarrow> 'w send_state \<Rightarrow> (DWORD + unit) \<times> 'w send_state" where
  "v4_end env sx ci s =
     (let r = (if s_Index s > 0 then
                 (case send_chunk env sx ci s of
                    (Inl e, s1) \<Rightarrow> (Inl e, s1)
                  | (Inr n, s1) \<Rightarrow> (Inr (), if sd_progress env then s1\<lparr> s_Progress := s_Progress s1 + of_nat (s_Index s1 + ci_MetadataSize ci) \<rparr> else s1))
               else (Inr (), s)) in
      case r of
        (Inl e, s1) \<Rightarrow> (Inl e, s1)
      | (Inr _, s1) \<Rightarrow> (case send_chunk env sx ci (s1\<lparr> s_Index := 0 \<rparr>) of
            (Inl e, s2) \<Rightarrow> (Inl e, s2) | (Inr n, s2) \<Rightarrow> (Inr (), s2)))"

definition turn_part :: "'w send_env \<Rightarrow> (sign_ctx \<times> chunk_info) option \<Rightarrow> 'w send_state \<Rightarrow> (DWORD + DWORD) \<times> 'w send_state" where
  "turn_part env v4 s =
     (if s_Sent s \<ge> length (se_Data (hd (s_Queue s))) then (Inr 0, s)
      else (case v4 of Some (sx, ci) \<Rightarrow> v4_part env sx ci s | None \<Rightarrow> plain_part env s))"

text \<open>After the data: progress, the entry that is used up, the end, and the throttle.\<close>

definition turn_end :: "'w send_env \<Rightarrow> (sign_ctx \<times> chunk_info) option \<Rightarrow> DWORD \<Rightarrow> 'w send_state \<Rightarrow> (DWORD + bool) \<times> 'w send_state" where
  "turn_end env v4 n s1 =
     (let s2 = (if sd_progress env then s1\<lparr> s_Progress := s_Progress s1 + n \<rparr> else s1);
          front = hd (s_Queue s2);
          popped = s_Sent s2 \<ge> length (se_Data front);
          s3 = (if popped then s2\<lparr> s_Queue := tl (s_Queue s2), s_Avail := False \<rparr> else s2) in
      if popped \<and> se_bLast front then
        (case v4 of
           None \<Rightarrow> (Inr True, s3)
         | Some (sx, ci) \<Rightarrow> (case v4_end env sx ci s3 of (Inl e, s4) \<Rightarrow> (Inl e, s4) | (Inr _, s4) \<Rightarrow> (Inr True, s4)))
      else
        (case sd_pause env n (s_World s3) of
           (Some e, w) \<Rightarrow> (Inl e, s3\<lparr> s_World := w \<rparr>)
         | (None, w) \<Rightarrow> (Inr False, s3\<lparr> s_World := w \<rparr>)))"

text \<open>One turn of the loop: \<open>Inr True\<close> is the exit after the last entry.\<close>

definition stream_turn :: "'w send_env \<Rightarrow> (sign_ctx \<times> chunk_info) option \<Rightarrow> 'w send_state \<Rightarrow> (DWORD + bool) \<times> 'w send_state" where
  "stream_turn env v4 s0 =
     (if \<not> s_Avail s0 \<and> s_Queue s0 = [] then
        (let (b, w) = sd_more env (s_World s0) in
         (Inl (if b then ERROR_NO_DATA_DETECTED else WAIT_TIMEOUT), s0\<lparr> s_World := w \<rparr>))
      else
        (case turn_part env v4 (if s_Avail s0 then s0 else s0\<lparr> s_Sent := 0, s_Avail := True \<rparr>) of
           (Inl e, s1) \<Rightarrow> (Inl e, s1)
         | (Inr n, s1) \<Rightarrow> turn_end env v4 n s1))"

partial_function (option) stream_loop ::
  "'w send_env \<Rightarrow> (sign_ctx \<times> chunk_info) option \<Rightarrow> 'w send_state \<Rightarrow> ((DWORD + unit) \<times> 'w send_state) option" where
  "stream_loop env v4 s =
     (case stream_turn env v4 s of
        (Inl e, s1) \<Rightarrow> Some (Inl e, s1)
      | (Inr b, s1) \<Rightarrow> if b then Some (Inr (), s1) else stream_loop env v4 s1)"

definition stream_start :: "nat \<Rightarrow> stream_entry list \<Rightarrow> string \<Rightarrow> 'w \<Rightarrow> 'w send_state" where
  "stream_start nBuf queue sPrev w =
     \<lparr> s_Queue = queue, s_Buf = replicate nBuf CHR 0x00, s_Index = 0, s_Prev = sPrev, s_Sent = 0, s_Avail = False,
       s_Progress = 0, s_Out = [], s_World = w \<rparr>"

section \<open>The loop over data in memory\<close>

text \<open>\<open>ullCurDataSent\<close> starts as what went out with the request. A version 4 request does not
  advance it.\<close>

partial_function (option) memory_loop ::
  "'w send_env \<Rightarrow> bool \<Rightarrow> string \<Rightarrow> nat \<Rightarrow> 'w send_state \<Rightarrow> ((DWORD + unit) \<times> 'w send_state) option" where
  "memory_loop env bS3AuthV4Param pData ullCurDataSent s =
     (if ullCurDataSent \<ge> length pData then Some (Inr (), s)
      else
        let rest = length pData - ullCurDataSent;
            part = (if sd_MaxWrite env > 0 \<and> rest > unat (sd_MaxWrite env) then unat (sd_MaxWrite env) else rest) in
        case put_block env (take part (drop ullCurDataSent pData)) s of
          (Inl e, s1) \<Rightarrow> Some (Inl e, s1)
        | (Inr n, s1) \<Rightarrow>
            (case sd_pause env n (s_World s1) of
               (Some e, w) \<Rightarrow> Some (Inl e, s1\<lparr> s_World := w \<rparr>)
             | (None, w) \<Rightarrow> memory_loop env bS3AuthV4Param pData
                 (if bS3AuthV4Param then ullCurDataSent else ullCurDataSent + unat n) (s1\<lparr> s_World := w \<rparr>)))"

text \<open>What goes out with the request itself.\<close>

definition first_part :: "'w send_env \<Rightarrow> bool \<Rightarrow> string \<Rightarrow> nat" where
  "first_part env bUploadThrottle pData =
     (if bUploadThrottle then 0
      else if sd_MaxWrite env > 0 \<and> length pData > unat (sd_MaxWrite env) then unat (sd_MaxWrite env) else length pData)"

definition memory_send :: "'w send_env \<Rightarrow> bool \<Rightarrow> bool \<Rightarrow> string \<Rightarrow> 'w send_state \<Rightarrow> ((DWORD + unit) \<times> 'w send_state) option" where
  "memory_send env bV4 bUploadThrottle pData s =
     memory_loop env bV4 pData (first_part env bUploadThrottle pData)
       (s\<lparr> s_Out := s_Out s @ [take (first_part env bUploadThrottle pData) pData] \<rparr>)"

section \<open>What the system is asked to do\<close>

text \<open>Digests have 32 bytes; every block is written; nothing stops the upload.\<close>

definition hashes_ok :: "sign_env \<Rightarrow> bool" where
  "hashes_ok env \<longleftrightarrow> (\<forall>s. \<exists>h. sg_sha256 env s = Inr h \<and> length h = 32)
     \<and> (\<forall>k s. \<exists>h. sg_hmac256 env k s = Inr h \<and> length h = 32)"

definition writes_ok :: "'w send_env \<Rightarrow> bool" where
  "writes_ok env \<longleftrightarrow> (\<forall>b w. \<exists>w'. sd_write env b w = (Inr (of_nat (length b)), w')) \<and> (\<forall>n w. fst (sd_pause env n w) = None)"

lemma writes_okD:
  assumes "writes_ok env"
  obtains w' where "put_block env b s = (Inr (of_nat (length b)), s\<lparr> s_World := w', s_Out := s_Out s @ [b] \<rparr>)"
  using assms by (auto simp: writes_ok_def put_block_def) (metis (no_types, lifting) case_prod_conv old.sum.simps(6))

lemma pauses_ok:
  assumes "writes_ok env"
  obtains w' where "sd_pause env n w = (None, w')"
  using assms unfolding writes_ok_def by (metis prod.collapse)

section \<open>Data in memory\<close>

lemma memory_v4_none:
  assumes "memory_loop env v4 pData k s = Some r" "v4" "k < length pData" "writes_ok env"
  shows False
proof -
  have "v4 \<longrightarrow> k < length pData \<longrightarrow> writes_ok env \<longrightarrow> False"
  proof (rule memory_loop.raw_induct [where P = "\<lambda>env v4 pData k s r. v4 \<longrightarrow> k < length pData \<longrightarrow> writes_ok env \<longrightarrow> False", OF _ assms(1)])
    fix loop :: "'a send_env \<Rightarrow> bool \<Rightarrow> string \<Rightarrow> nat \<Rightarrow> 'a send_state \<Rightarrow> ((DWORD + unit) \<times> 'a send_state) option"
      and env v4 pData k s r
    assume IH: "\<And>env v4 pData k s r. loop env v4 pData k s = Some r \<Longrightarrow> v4 \<longrightarrow> k < length pData \<longrightarrow> writes_ok env \<longrightarrow> False"
      and d: "(if length pData \<le> k then Some (Inr (), s)
         else let rest = length pData - k;
                part = if 0 < sd_MaxWrite env \<and> unat (sd_MaxWrite env) < rest then unat (sd_MaxWrite env) else rest
              in case put_block env (take part (drop k pData)) s of (Inl e, s1) \<Rightarrow> Some (Inl e, s1)
                 | (Inr n, s1) \<Rightarrow> (case sd_pause env n (s_World s1) of (None, w) \<Rightarrow> loop env v4 pData (if v4 then k else k + unat n) (s1\<lparr>s_World := w\<rparr>)
                     | (Some e, w) \<Rightarrow> Some (Inl e, s1\<lparr>s_World := w\<rparr>))) = Some r"
    show "v4 \<longrightarrow> k < length pData \<longrightarrow> writes_ok env \<longrightarrow> False"
    proof (intro impI)
      assume a: "v4" "k < length pData" "writes_ok env"
      define part where "part = (if 0 < sd_MaxWrite env \<and> unat (sd_MaxWrite env) < length pData - k then unat (sd_MaxWrite env) else length pData - k)"
      obtain w1 where w1: "put_block env (take part (drop k pData)) s = (Inr (of_nat (length (take part (drop k pData)))),
          s\<lparr> s_World := w1, s_Out := s_Out s @ [take part (drop k pData)] \<rparr>)" using writes_okD [OF a(3)] by blast
      obtain w2 where w2: "sd_pause env (of_nat (length (take part (drop k pData)))) w1 = (None, w2)" using pauses_ok [OF a(3)] by blast
      have "\<exists>s'. loop env v4 pData k s' = Some r"
        using d a w2 unfolding Let_def part_def [symmetric] w1 by auto
      then show False using IH a by blast
    qed
  qed
  then show False using assms by blast
qed

lemma memory_plain:
  assumes "writes_ok env" "k \<le> length pData" "length pData < 2 ^ 32"
  shows "\<exists>s'. memory_loop env False pData k s = Some (Inr (), s') \<and> concat (s_Out s') = concat (s_Out s) @ drop k pData"
  using assms(2)
proof (induction "length pData - k" arbitrary: k s rule: less_induct)
  case less
  show ?case
  proof (cases "k = length pData")
    case True
    then show ?thesis by (subst memory_loop.simps) simp
  next
    case False
    define part where "part = (if 0 < sd_MaxWrite env \<and> unat (sd_MaxWrite env) < length pData - k then unat (sd_MaxWrite env) else length pData - k)"
    have p: "0 < part" "part \<le> length pData - k"
      using False less.prems by (auto simp: part_def unat_gt_0 word_gt_0)
    obtain w1 where w1: "put_block env (take part (drop k pData)) s = (Inr (of_nat (length (take part (drop k pData)))),
        s\<lparr> s_World := w1, s_Out := s_Out s @ [take part (drop k pData)] \<rparr>)" using writes_okD [OF assms(1)] by blast
    obtain w2 where w2: "sd_pause env (of_nat part) w1 = (None, w2)" using pauses_ok [OF assms(1)] by blast
    have n: "unat (of_nat part :: DWORD) = part" using p assms(3) by (simp add: unat_of_nat take_bit_nat_eq_self)
    let ?s = "s\<lparr> s_Out := s_Out s @ [take part (drop k pData)], s_World := w2 \<rparr>"
    have step: "memory_loop env False pData k s = memory_loop env False pData (k + part) ?s"
      using False less.prems w1 w2 p n by (subst memory_loop.simps) (simp add: part_def [symmetric] Let_def min_absorb2)
    have lt: "length pData - (k + part) < length pData - k" "k + part \<le> length pData" using p less.prems False by auto
    obtain s' where "memory_loop env False pData (k + part) ?s = Some (Inr (), s')"
        "concat (s_Out s') = concat (s_Out ?s) @ drop (k + part) pData"
      using less.hyps [OF lt, of ?s] by blast
    moreover have "take part (drop k pData) @ drop (k + part) pData = drop k pData"
      by (metis add.commute append_take_drop_id drop_drop)
    ultimately show ?thesis unfolding step by simp
  qed
qed

section \<open>The layout of a chunk\<close>

lemma length_hex_num: "length (hex_num n) = (if n = 0 then 1 else count_digits n)"
proof (induction n rule: hex_num.induct)
  case (1 n)
  show ?case
  proof (cases "n < 16")
    case True
    then show ?thesis by (subst hex_num.simps, subst count_digits.simps) (simp add: count_digits.simps [of 0])
  next
    case False
    then show ?thesis using 1 by (subst hex_num.simps, subst count_digits.simps) auto
  qed
qed

lemma count_digits_mono: "m \<le> n \<Longrightarrow> count_digits m \<le> count_digits n"
proof (induction n arbitrary: m rule: count_digits.induct)
  case (1 n)
  show ?case
  proof (cases "m = 0 \<or> n = 0")
    case True
    then show ?thesis using 1 by (auto simp: count_digits.simps [of 0])
  next
    case False
    then have "count_digits (m div 16) \<le> count_digits (n div 16)" using 1 by (simp add: div_le_mono)
    then show ?thesis using False by (subst count_digits.simps, subst (2) count_digits.simps) simp
  qed
qed

lemma length_hex_pad: "n \<le> m \<Longrightarrow> 0 < m \<Longrightarrow> length (hex_pad (count_digits m) n) = count_digits m"
  using count_digits_mono [of n m] count_digits_mono [of 1 m]
  by (simp add: hex_pad_def length_hex_num count_digits.simps [of "Suc 0"] count_digits.simps [of 0] split: if_splits)

lemma length_BinaryToHexString: "length (BinaryToHexString h) = 2 * length h"
  by (induction h) (simp_all add: BinaryToHexString_def)

text \<open>What \<open>init_chunks\<close> sets up, with signatures of 64 characters.\<close>

definition chunks_ok :: "chunk_info \<Rightarrow> bool" where
  "chunks_ok ci \<longleftrightarrow> 0 < ci_ChunkSize ci \<and> ci_Digits ci = count_digits (ci_ChunkSize ci)
     \<and> ci_MetadataOffset ci = ci_Digits ci + 83 \<and> ci_MetadataSize ci = ci_MetadataOffset ci + 2"

lemma init_chunks_ok:
  assumes "init_chunks env n = Inr ci" "hashes_ok env"
  shows "chunks_ok ci \<and> ci_ChunkSize ci = max (unat n) 0x2000"
proof -
  obtain h where h: "sg_sha256 env [] = Inr h" "length h = 32" using assms(2) unfolding hashes_ok_def by blast
  have u: "unat (if n < 0x2000 then 0x2000 else n) = max (unat n) 0x2000"
    by (auto simp: max_def word_less_nat_alt word_le_nat_alt)
  show ?thesis using assms(1) u
    by (auto simp: init_chunks_def h Let_def chunks_ok_def BuildV4ChunkMetadata_def length_hex_pad length_BinaryToHexString crlf_def)
qed

definition frame :: "chunk_info \<Rightarrow> string \<Rightarrow> string \<Rightarrow> string" where
  "frame ci sig data = BuildV4ChunkMetadata (ci_Digits ci) (length data) sig @ data @ crlf"

definition the_sig :: "sign_ctx \<Rightarrow> chunk_info \<Rightarrow> string \<Rightarrow> string \<Rightarrow> string" where
  "the_sig sx ci prev data = (case chunk_signature sx prev (ci_EmptySignature ci) data of Inl e \<Rightarrow> [] | Inr s \<Rightarrow> s)"

lemma hex_lower_mem: "i < 16 \<Longrightarrow> hex_lower ! i \<in> set hex_lower"
  by (rule nth_mem) (simp add: hex_lower_def)

lemma chunk_signature_ok:
  assumes "hashes_ok (sx_env sx)"
  shows "chunk_signature sx prev (ci_EmptySignature ci) data = Inr (the_sig sx ci prev data) \<and> length (the_sig sx ci prev data) = 64
    \<and> set (the_sig sx ci prev data) \<subseteq> set hex_lower"
proof -
  obtain h where h: "sg_sha256 (sx_env sx) data = Inr h" using assms unfolding hashes_ok_def by blast
  define sh where "sh = (if data \<noteq> [] then BinaryToHexString h else ci_EmptySignature ci)"
  obtain g where g: "sg_hmac256 (sx_env sx) (sx_Key sx) (chunk_string sx prev (ci_EmptySignature ci) sh) = Inr g" "length g = 32"
    using assms unfolding hashes_ok_def by blast
  have c: "chunk_signature sx prev (ci_EmptySignature ci) data = Inr (BinaryToHexString g)"
    using h g(1) by (cases "data = []") (simp_all add: chunk_signature_def sh_def)
  have "set (BinaryToHexString g) \<subseteq> set hex_lower" by (rule set_BinaryToHexString)
  then show ?thesis using c g(2) by (simp add: the_sig_def length_BinaryToHexString)
qed

fun frames :: "sign_ctx \<Rightarrow> chunk_info \<Rightarrow> string \<Rightarrow> string list \<Rightarrow> string list" where
  "frames sx ci prev [] = []"
| "frames sx ci prev (d # ds) = frame ci (the_sig sx ci prev d) d # frames sx ci (the_sig sx ci prev d) ds"

lemma frames_snoc: "frames sx ci prev (ds @ [d]) = frames sx ci prev ds @ [frame ci (the_sig sx ci (foldl (the_sig sx ci) prev ds) d) d]"
  by (induction ds arbitrary: prev) simp_all

lemma length_Build:
  assumes "chunks_ok ci" "n \<le> ci_ChunkSize ci" "length sig = 64"
  shows "length (BuildV4ChunkMetadata (ci_Digits ci) n sig) = ci_MetadataOffset ci"
  using assms by (simp add: chunks_ok_def BuildV4ChunkMetadata_def length_hex_pad crlf_def)

section \<open>The send buffer\<close>

text \<open>\<open>ds\<close> were sent, \<open>p\<close> is in the buffer.\<close>

definition sending :: "sign_ctx \<Rightarrow> chunk_info \<Rightarrow> string \<Rightarrow> string list \<Rightarrow> string \<Rightarrow> 'w send_state \<Rightarrow> bool" where
  "sending sx ci prev ds p s \<longleftrightarrow> length (s_Buf s) = ci_ChunkSize ci + ci_MetadataSize ci \<and> s_Index s = length p
     \<and> take (length p) (drop (ci_MetadataOffset ci) (s_Buf s)) = p
     \<and> s_Prev s = foldl (the_sig sx ci) prev ds \<and> s_Out s = frames sx ci prev ds"

lemma send_chunk_ok:
  assumes ok: "chunks_ok ci" "hashes_ok (sx_env sx)" "writes_ok env"
    and s: "sending sx ci prev ds p s" "length p \<le> ci_ChunkSize ci"
  shows "\<exists>n s'. send_chunk env sx ci s = (Inr n, s') \<and> s_Out s' = frames sx ci prev (ds @ [p]) \<and> s_Index s' = length p
    \<and> s_Prev s' = foldl (the_sig sx ci) prev (ds @ [p]) \<and> length (s_Buf s') = ci_ChunkSize ci + ci_MetadataSize ci
    \<and> s_Queue s' = s_Queue s \<and> s_Sent s' = s_Sent s \<and> s_Avail s' = s_Avail s"
proof -
  let ?off = "ci_MetadataOffset ci"
  define sig where "sig = the_sig sx ci (s_Prev s) p"
  have sg: "chunk_signature sx (s_Prev s) (ci_EmptySignature ci) p = Inr sig" "length sig = 64"
    using chunk_signature_ok [OF ok(2)] by (simp_all add: sig_def)
  define pre where "pre = BuildV4ChunkMetadata (ci_Digits ci) (length p) sig"
  have lp: "length pre = ?off" unfolding pre_def by (rule length_Build [OF ok(1) s(2) sg(2)])
  define rest where "rest = drop (?off + length p + 2) (s_Buf s)"
  define A where "A = take ?off (s_Buf s)"
  have len: "length (s_Buf s) = ci_ChunkSize ci + ?off + 2" using s(1) ok(1) by (simp add: sending_def chunks_ok_def)
  obtain x y where xy: "s_Buf s = A @ p @ x # y # rest"
  proof -
    have a: "s_Buf s = A @ p @ drop (?off + length p) (s_Buf s)"
      using s(1) by (metis A_def add.commute append_take_drop_id drop_drop sending_def)
    have "length (drop (?off + length p) (s_Buf s)) \<ge> 2" using len s(2) by simp
    then obtain x y r where r: "drop (?off + length p) (s_Buf s) = x # y # r"
      by (metis One_nat_def Suc_1 Suc_le_length_iff)
    then have "r = rest" by (metis add_2_eq_Suc' drop_Suc_Cons drop_drop add.commute rest_def drop0 One_nat_def Suc_1)
    then show ?thesis using a r that by metis
  qed
  have la: "length A = ?off" using len by (simp add: A_def)
  have buf: "write_at (?off + length p + 1) [CHR 0x0A] (write_at (?off + length p) [CHR 0x0D] (write_at 0 pre (s_Buf s)))
      = pre @ p @ crlf @ rest"
    using lp la by (simp add: xy write_at_def crlf_def)
  have meta: "CreateS3V4ChunkMetadata sx ci s = (Inr (), s\<lparr> s_Prev := sig, s_Buf := pre @ p @ crlf @ rest \<rparr>)"
    using s(1) sg(1) buf by (simp add: CreateS3V4ChunkMetadata_def sending_def pre_def Let_def)
  let ?s1 = "s\<lparr> s_Prev := sig, s_Buf := pre @ p @ crlf @ rest \<rparr>"
  have tk: "take (s_Index ?s1 + ci_MetadataSize ci) (s_Buf ?s1) = frame ci sig p"
    using s(1) ok(1) lp by (simp add: sending_def chunks_ok_def frame_def pre_def crlf_def)
  obtain w' where w: "put_block env (frame ci sig p) ?s1 = (Inr (of_nat (length (frame ci sig p))),
      ?s1\<lparr> s_World := w', s_Out := s_Out ?s1 @ [frame ci sig p] \<rparr>)" using writes_okD [OF ok(3)] by blast
  have "length (pre @ p @ crlf @ rest) = length (s_Buf s)" using lp la by (simp add: xy crlf_def)
  then have "length (pre @ p @ crlf @ rest) = ci_ChunkSize ci + ci_MetadataSize ci" using s(1) by (simp add: sending_def)
  moreover have "send_chunk env sx ci s = (Inr (of_nat (length (frame ci sig p))), ?s1\<lparr> s_World := w', s_Out := s_Out ?s1 @ [frame ci sig p] \<rparr>)"
    unfolding send_chunk_def meta w [symmetric] by (simp only: prod.case sum.case tk)
  moreover have "sig = the_sig sx ci (foldl (the_sig sx ci) prev ds) p" using s(1) by (simp add: sig_def sending_def)
  ultimately show ?thesis using s(1) unfolding sending_def frames_snoc by simp
qed

section \<open>Turns of the loop\<close>

lemma v4_part_ok:
  assumes ok: "chunks_ok ci" "hashes_ok (sx_env sx)" "writes_ok env"
    and s: "sending sx ci prev ds p s" "length p < ci_ChunkSize ci" "\<forall>d \<in> set ds. length d = ci_ChunkSize ci"
    and q: "D = se_Data (hd (s_Queue s))" "s_Sent s < length D"
  shows "\<exists>n s' ds' p'. v4_part env sx ci s = (Inr n, s') \<and> sending sx ci prev ds' p' s' \<and> length p' < ci_ChunkSize ci
    \<and> (\<forall>d \<in> set ds'. length d = ci_ChunkSize ci) \<and> s_Queue s' = s_Queue s \<and> s_Avail s' = s_Avail s
    \<and> s_Sent s < s_Sent s' \<and> s_Sent s' \<le> length D
    \<and> concat ds' @ p' @ drop (s_Sent s') D = concat ds @ p @ drop (s_Sent s) D"
proof -
  let ?off = "ci_MetadataOffset ci" and ?n = "ci_ChunkSize ci"
  define part where "part = min (length D - s_Sent s) (?n - s_Index s)"
  have ix: "s_Index s = length p" using s(1) by (simp add: sending_def)
  have part: "0 < part" "part \<le> length D - s_Sent s" "length p + part \<le> ?n" using s(2) q(2) ix by (auto simp: part_def)
  define x where "x = take part (drop (s_Sent s) D)"
  have lx: "length x = part" using part(2) by (simp add: x_def)
  define s1 where "s1 = s\<lparr> s_Buf := write_at (?off + length p) x (s_Buf s), s_Index := length p + part, s_Sent := s_Sent s + part \<rparr>"
  have buf: "take (length (p @ x)) (drop ?off (write_at (?off + length p) x (s_Buf s))) = p @ x"
    "length (write_at (?off + length p) x (s_Buf s)) = ?n + ci_MetadataSize ci"
  proof -
    have len: "length (s_Buf s) = ?n + ?off + 2" using s(1) ok(1) by (simp add: sending_def chunks_ok_def)
    have "take (length p) (drop ?off (s_Buf s)) = p" using s(1) by (simp add: sending_def)
    then have "s_Buf s = take ?off (s_Buf s) @ p @ drop (?off + length p) (s_Buf s)"
      by (metis add.commute append_take_drop_id drop_drop)
    moreover have "length (take ?off (s_Buf s)) = ?off" using len by simp
    ultimately obtain A B where AB: "s_Buf s = A @ p @ B" "length A = ?off" by blast
    then show "take (length (p @ x)) (drop ?off (write_at (?off + length p) x (s_Buf s))) = p @ x"
      by (simp add: write_at_def)
    show "length (write_at (?off + length p) x (s_Buf s)) = ?n + ci_MetadataSize ci"
      using len part(3) lx ok(1) by (simp add: chunks_ok_def)
  qed
  have s1: "sending sx ci prev ds (p @ x) s1" using s(1) buf lx by (simp add: sending_def s1_def)
  have st: "(if part > 0 then s\<lparr> s_Buf := write_at (?off + s_Index s) (take part (drop (s_Sent s) D)) (s_Buf s),
      s_Index := s_Index s + part, s_Sent := s_Sent s + part \<rparr> else s) = s1"
    using part(1) by (simp add: s1_def ix x_def)
  have tl: "x @ drop (s_Sent s + part) D = drop (s_Sent s) D"
    by (metis add.commute append_take_drop_id drop_drop x_def)
  show ?thesis
  proof (cases "length p + part = ?n")
    case True
    obtain n s2 where s2: "send_chunk env sx ci s1 = (Inr n, s2)" "s_Out s2 = frames sx ci prev (ds @ [p @ x])"
        "s_Prev s2 = foldl (the_sig sx ci) prev (ds @ [p @ x])" "length (s_Buf s2) = ?n + ci_MetadataSize ci"
        "s_Queue s2 = s_Queue s1" "s_Sent s2 = s_Sent s1" "s_Avail s2 = s_Avail s1"
      using send_chunk_ok [OF ok s1] True lx by auto
    have "v4_part env sx ci s = (Inr n, s2\<lparr> s_Index := 0 \<rparr>)"
      unfolding v4_part_def q(1) [symmetric] Let_def part_def [symmetric] st using s2(1) True by (simp add: s1_def)
    moreover have "sending sx ci prev (ds @ [p @ x]) [] (s2\<lparr> s_Index := 0 \<rparr>)" using s2 by (simp add: sending_def)
    ultimately show ?thesis using s2 s(3) True lx part ok(1) tl
      by (intro exI [of _ n] exI [of _ "s2\<lparr> s_Index := 0 \<rparr>"] exI [of _ "ds @ [p @ x]"] exI [of _ "[]"]) (auto simp: s1_def chunks_ok_def)
  next
    case False
    have "v4_part env sx ci s = (Inr 0, s1)"
      unfolding v4_part_def q(1) [symmetric] Let_def part_def [symmetric] st using False by (simp add: s1_def)
    then show ?thesis using s1 s(3) False lx part tl
      by (intro exI [of _ 0] exI [of _ s1] exI [of _ ds] exI [of _ "p @ x"]) (auto simp: s1_def)
  qed
qed

definition tail_chunks :: "string \<Rightarrow> string list" where
  "tail_chunks p = (if p = [] then [] else [p]) @ [[]]"

lemma v4_end_ok:
  assumes ok: "chunks_ok ci" "hashes_ok (sx_env sx)" "writes_ok env"
    and s: "sending sx ci prev ds p s" "length p < ci_ChunkSize ci"
  shows "\<exists>s'. v4_end env sx ci s = (Inr (), s') \<and> s_Out s' = frames sx ci prev (ds @ tail_chunks p)"
proof -
  have fin: "\<exists>n s'. send_chunk env sx ci (s1\<lparr> s_Index := 0 \<rparr>) = (Inr n, s') \<and> s_Out s' = frames sx ci prev (ds1 @ [[]])"
    if "s_Out s1 = frames sx ci prev ds1" "s_Prev s1 = foldl (the_sig sx ci) prev ds1" "length (s_Buf s1) = ci_ChunkSize ci + ci_MetadataSize ci"
    for s1 :: "'a send_state" and ds1
  proof -
    have "sending sx ci prev ds1 [] (s1\<lparr> s_Index := 0 \<rparr>)" using that by (simp add: sending_def)
    then show ?thesis using send_chunk_ok [OF ok] by fastforce
  qed
  have ix: "s_Index s = length p" using s(1) by (simp add: sending_def)
  show ?thesis
  proof (cases "p = []")
    case True
    obtain n s2 where "send_chunk env sx ci (s\<lparr> s_Index := 0 \<rparr>) = (Inr n, s2)" "s_Out s2 = frames sx ci prev (ds @ [[]])"
      using fin [of s ds] s(1) by (auto simp: sending_def)
    then show ?thesis using True ix by (simp add: v4_end_def tail_chunks_def)
  next
    case False
    obtain n s1 where s1: "send_chunk env sx ci s = (Inr n, s1)" "s_Out s1 = frames sx ci prev (ds @ [p])"
        "s_Prev s1 = foldl (the_sig sx ci) prev (ds @ [p])" "length (s_Buf s1) = ci_ChunkSize ci + ci_MetadataSize ci"
      using send_chunk_ok [OF ok s(1)] s(2) by fastforce
    let ?s1 = "if sd_progress env then s1\<lparr> s_Progress := s_Progress s1 + of_nat (s_Index s1 + ci_MetadataSize ci) \<rparr> else s1"
    have f: "s_Out ?s1 = frames sx ci prev (ds @ [p])" "s_Prev ?s1 = foldl (the_sig sx ci) prev (ds @ [p])"
        "length (s_Buf ?s1) = ci_ChunkSize ci + ci_MetadataSize ci" using s1 by simp_all
    obtain m s2 where "send_chunk env sx ci (?s1\<lparr> s_Index := 0 \<rparr>) = (Inr m, s2)" "s_Out s2 = frames sx ci prev ((ds @ [p]) @ [[]])"
      using fin [OF f] by blast
    then show ?thesis using False ix s1(1) by (simp add: v4_end_def tail_chunks_def)
  qed
qed

section \<open>Runs of the loop\<close>

text \<open>The queue of one upload: only its last entry is marked as the last.\<close>

fun queue_ok :: "stream_entry list \<Rightarrow> bool" where
  "queue_ok [] = False"
| "queue_ok [e] = se_bLast e"
| "queue_ok (e # f # q) = (\<not> se_bLast e \<and> queue_ok (f # q))"

definition queue_rest :: "'w send_state \<Rightarrow> string" where
  "queue_rest s = (if s_Avail s then drop (s_Sent s) (se_Data (hd (s_Queue s))) @ concat (map se_Data (tl (s_Queue s)))
     else concat (map se_Data (s_Queue s)))"

definition stream_inv :: "sign_ctx \<Rightarrow> chunk_info \<Rightarrow> string \<Rightarrow> string \<Rightarrow> 'w send_state \<Rightarrow> bool" where
  "stream_inv sx ci prev payload s \<longleftrightarrow> queue_ok (s_Queue s)
     \<and> (\<exists>ds p. sending sx ci prev ds p s \<and> length p < ci_ChunkSize ci \<and> (\<forall>d \<in> set ds. length d = ci_ChunkSize ci)
          \<and> concat ds @ p @ queue_rest s = payload)"

text \<open>How a finished upload looks: full chunks, what is left over, and the empty chunk.\<close>

definition stream_done :: "sign_ctx \<Rightarrow> chunk_info \<Rightarrow> string \<Rightarrow> string \<Rightarrow> 'w send_state \<Rightarrow> bool" where
  "stream_done sx ci prev payload s \<longleftrightarrow>
     (\<exists>ds p. s_Out s = frames sx ci prev (ds @ tail_chunks p) \<and> length p < ci_ChunkSize ci
        \<and> (\<forall>d \<in> set ds. length d = ci_ChunkSize ci) \<and> concat ds @ p = payload)"

lemma queue_ok_tl: "queue_ok (e # q) \<Longrightarrow> if se_bLast e then q = [] else queue_ok q"
  by (cases q) simp_all

lemma sending_cong:
  "s_Buf s = s_Buf s' \<Longrightarrow> s_Index s = s_Index s' \<Longrightarrow> s_Prev s = s_Prev s' \<Longrightarrow> s_Out s = s_Out s'
   \<Longrightarrow> sending sx ci prev ds p s = sending sx ci prev ds p s'"
  by (simp add: sending_def)

lemma stream_turn_ok:
  assumes ok: "chunks_ok ci" "hashes_ok (sx_env sx)" "writes_ok env"
    and inv: "stream_inv sx ci prev payload s"
  shows "\<exists>b s'. stream_turn env (Some (sx, ci)) s = (Inr b, s')
    \<and> (if b then stream_done sx ci prev payload s'
       else stream_inv sx ci prev payload s' \<and> length (queue_rest s') + length (s_Queue s') < length (queue_rest s) + length (s_Queue s))"
proof -
  obtain ds p where dp: "sending sx ci prev ds p s" "length p < ci_ChunkSize ci" "\<forall>d \<in> set ds. length d = ci_ChunkSize ci"
      "concat ds @ p @ queue_rest s = payload" and qo: "queue_ok (s_Queue s)"
    using inv unfolding stream_inv_def by blast
  obtain e q where q: "s_Queue s = e # q" using qo by (cases "s_Queue s") auto
  define t where "t = (if s_Avail s then s else s\<lparr> s_Sent := 0, s_Avail := True \<rparr>)"
  have t: "s_Queue t = e # q" "s_Avail t" "sending sx ci prev ds p t" "queue_rest t = queue_rest s"
    using dp(1) q by (simp_all add: t_def sending_def queue_rest_def)
  have rest: "queue_rest t = drop (s_Sent t) (se_Data e) @ concat (map se_Data q)" using t(1,2) by (simp add: queue_rest_def)
  define r where "r = turn_part env (Some (sx, ci)) t"
  have r: "r = (if s_Sent t \<ge> length (se_Data e) then (Inr 0, t) else v4_part env sx ci t)"
    by (simp add: r_def turn_part_def t(1))
  obtain n u ds1 p1 where u: "r = (Inr n, u)" "sending sx ci prev ds1 p1 u" "length p1 < ci_ChunkSize ci"
      "\<forall>d \<in> set ds1. length d = ci_ChunkSize ci" "s_Queue u = e # q" "s_Avail u"
      "concat ds1 @ p1 @ drop (s_Sent u) (se_Data e) @ concat (map se_Data q) = payload"
      "s_Sent u \<ge> length (se_Data e) \<or> s_Sent t < s_Sent u \<and> s_Sent t < length (se_Data e)"
  proof (cases "s_Sent t \<ge> length (se_Data e)")
    case True
    then show ?thesis using t dp rest by (intro that [of 0 t ds p]) (auto simp: r)
  next
    case False
    then have lt: "s_Sent t < length (se_Data e)" by simp
    have hd: "se_Data e = se_Data (hd (s_Queue t))" by (simp add: t(1))
    obtain n u ds1 p1 where v: "v4_part env sx ci t = (Inr n, u)" "sending sx ci prev ds1 p1 u" "length p1 < ci_ChunkSize ci"
        "\<forall>d \<in> set ds1. length d = ci_ChunkSize ci" "s_Queue u = s_Queue t" "s_Avail u = s_Avail t" "s_Sent t < s_Sent u"
        "concat ds1 @ p1 @ drop (s_Sent u) (se_Data e) = concat ds @ p @ drop (s_Sent t) (se_Data e)"
      using v4_part_ok [OF ok t(3) dp(2,3) hd lt] by blast
    have "concat ds1 @ p1 @ drop (s_Sent u) (se_Data e) @ concat (map se_Data q)
        = (concat ds1 @ p1 @ drop (s_Sent u) (se_Data e)) @ concat (map se_Data q)" by simp
    also have "\<dots> = payload" unfolding v(8) using dp(4) t(4) rest by simp
    finally show ?thesis using v t lt by (intro that [of n u ds1 p1]) (auto simp: r)
  qed
  define u2 where "u2 = (if sd_progress env then u\<lparr> s_Progress := s_Progress u + n \<rparr> else u)"
  have u2: "sending sx ci prev ds1 p1 u2" "s_Queue u2 = e # q" "s_Sent u2 = s_Sent u" "s_Avail u2"
    using u(2,5,6) by (auto simp: u2_def cong: sending_cong)
  have turn: "stream_turn env (Some (sx, ci)) s =
      (let popped = s_Sent u2 \<ge> length (se_Data e);
           s3 = (if popped then u2\<lparr> s_Queue := q, s_Avail := False \<rparr> else u2) in
       if popped \<and> se_bLast e then
         (case v4_end env sx ci s3 of (Inl e, s4) \<Rightarrow> (Inl e, s4) | (Inr _, s4) \<Rightarrow> (Inr True, s4))
       else (case sd_pause env n (s_World s3) of
           (Some e, w) \<Rightarrow> (Inl e, s3\<lparr> s_World := w \<rparr>)
         | (None, w) \<Rightarrow> (Inr False, s3\<lparr> s_World := w \<rparr>)))"
  proof -
    have "stream_turn env (Some (sx, ci)) s = turn_end env (Some (sx, ci)) n u"
      unfolding stream_turn_def t_def [symmetric] r_def [symmetric] u(1) by (simp add: q)
    then show ?thesis unfolding turn_end_def u2_def [symmetric] Let_def u2(2) list.sel option.case prod.case .
  qed
  show ?thesis
  proof (cases "s_Sent u2 \<ge> length (se_Data e)")
    case True
    define s3 where "s3 = u2\<lparr> s_Queue := q, s_Avail := False \<rparr>"
    have s3: "sending sx ci prev ds1 p1 s3" using u2(1) by (simp add: s3_def sending_def)
    have pay: "concat ds1 @ p1 @ concat (map se_Data q) = payload" using u(7) True u2(3) by simp
    have tr: "stream_turn env (Some (sx, ci)) s =
        (if se_bLast e then (case v4_end env sx ci s3 of (Inl e, s4) \<Rightarrow> (Inl e, s4) | (Inr _, s4) \<Rightarrow> (Inr True, s4))
         else (case sd_pause env n (s_World s3) of
             (Some e, w) \<Rightarrow> (Inl e, s3\<lparr> s_World := w \<rparr>)
           | (None, w) \<Rightarrow> (Inr False, s3\<lparr> s_World := w \<rparr>)))"
      using True unfolding turn s3_def Let_def by simp
    show ?thesis
    proof (cases "se_bLast e")
      case last: True
      then have "q = []" using queue_ok_tl [of e q] qo q by simp
      moreover obtain s4 where "v4_end env sx ci s3 = (Inr (), s4)" "s_Out s4 = frames sx ci prev (ds1 @ tail_chunks p1)"
        using v4_end_ok [OF ok s3 u(3)] by blast
      ultimately show ?thesis using last u(3,4) pay unfolding tr
        by (intro exI [of _ True] exI [of _ s4]) (auto simp: stream_done_def)
    next
      case False
      obtain w where w: "sd_pause env n (s_World s3) = (None, w)" using pauses_ok [OF ok(3)] by blast
      have "queue_ok q" using queue_ok_tl [of e q] qo q False by simp
      moreover have "queue_rest (s3\<lparr> s_World := w \<rparr>) = concat (map se_Data q)" by (simp add: queue_rest_def s3_def)
      moreover have "length (concat (map se_Data q)) \<le> length (queue_rest s)" using rest t(4) by simp
      moreover have "sending sx ci prev ds1 p1 (s3\<lparr> s_World := w \<rparr>)" using s3 by (simp add: sending_def)
      moreover have "s_Queue (s3\<lparr> s_World := w \<rparr>) = q" by (simp add: s3_def)
      moreover have "stream_turn env (Some (sx, ci)) s = (Inr False, s3\<lparr> s_World := w \<rparr>)" unfolding tr using False w by simp
      ultimately show ?thesis using pay u(3,4) q unfolding stream_inv_def
        by (intro exI [of _ False] exI [of _ "s3\<lparr> s_World := w \<rparr>"]) auto
    qed
  next
    case False
    obtain w where w: "sd_pause env n (s_World u2) = (None, w)" using pauses_ok [OF ok(3)] by blast
    have "queue_rest (u2\<lparr> s_World := w \<rparr>) = drop (s_Sent u) (se_Data e) @ concat (map se_Data q)"
      using u2(2-4) by (simp add: queue_rest_def)
    moreover have "length (drop (s_Sent u) (se_Data e)) < length (drop (s_Sent t) (se_Data e))"
      using u(8) False u2(3) by auto
    moreover have "sending sx ci prev ds1 p1 (u2\<lparr> s_World := w \<rparr>)" using u2(1) by (simp add: sending_def)
    moreover have "stream_turn env (Some (sx, ci)) s = (Inr False, u2\<lparr> s_World := w \<rparr>)" unfolding turn Let_def using False w by simp
    ultimately show ?thesis using u(3,4,7) q qo u2(2) rest t(4) unfolding stream_inv_def
      by (intro exI [of _ False] exI [of _ "u2\<lparr> s_World := w \<rparr>"]) auto
  qed
qed

lemma stream_loop_ok:
  assumes ok: "chunks_ok ci" "hashes_ok (sx_env sx)" "writes_ok env"
    and "stream_inv sx ci prev payload s"
  shows "\<exists>s'. stream_loop env (Some (sx, ci)) s = Some (Inr (), s') \<and> stream_done sx ci prev payload s'"
  using assms(4)
proof (induction "length (queue_rest s) + length (s_Queue s)" arbitrary: s rule: less_induct)
  case less
  obtain b s' where t: "stream_turn env (Some (sx, ci)) s = (Inr b, s')"
      "if b then stream_done sx ci prev payload s'
       else stream_inv sx ci prev payload s' \<and> length (queue_rest s') + length (s_Queue s') < length (queue_rest s) + length (s_Queue s)"
    using stream_turn_ok [OF ok less.prems] by blast
  show ?case
  proof (cases b)
    case True
    then show ?thesis using t by (subst stream_loop.simps) simp
  next
    case False
    then show ?thesis using t less.hyps [of s'] by (subst stream_loop.simps) simp
  qed
qed

section \<open>The announced length\<close>

lemma length_frame:
  assumes "chunks_ok ci" "length d \<le> ci_ChunkSize ci" "length sig = 64"
  shows "length (frame ci sig d) = length d + ci_MetadataSize ci"
  using assms length_Build [OF assms] by (simp add: frame_def crlf_def chunks_ok_def)

lemma length_frames:
  assumes "chunks_ok ci" "hashes_ok (sx_env sx)" "\<forall>d \<in> set ds. length d \<le> ci_ChunkSize ci"
  shows "length (concat (frames sx ci prev ds)) = length (concat ds) + length ds * ci_MetadataSize ci"
  using assms(3)
proof (induction ds arbitrary: prev)
  case (Cons d ds)
  have "length (the_sig sx ci prev d) = 64" using chunk_signature_ok [OF assms(2)] by blast
  then show ?case using Cons length_frame [OF assms(1)] by simp
qed simp

lemma content_length_nat:
  assumes "L < 2 ^ 64" "ci_ChunkSize ci < 2 ^ 64"
  shows "content_length ci (of_nat L)
    = of_nat (L + (L div ci_ChunkSize ci + (if L mod ci_ChunkSize ci \<noteq> 0 then 1 else 0) + 1) * ci_MetadataSize ci)"
proof -
  have u: "unat (of_nat L :: ULONGLONG) = L" "unat (of_nat (ci_ChunkSize ci) :: ULONGLONG) = ci_ChunkSize ci"
    using assms by (simp_all add: unat_of_nat take_bit_nat_eq_self)
  have d: "(of_nat L :: ULONGLONG) div of_nat (ci_ChunkSize ci) = of_nat (L div ci_ChunkSize ci)"
    "(of_nat L :: ULONGLONG) mod of_nat (ci_ChunkSize ci) = of_nat (L mod ci_ChunkSize ci)"
    by (simp_all add: word_arith_nat_div word_arith_nat_mod u)
  have "(of_nat (L mod ci_ChunkSize ci) :: ULONGLONG) = 0 \<longleftrightarrow> L mod ci_ChunkSize ci = 0"
  proof -
    have "L mod ci_ChunkSize ci < 2 ^ 64" using assms(1) by (metis le_less_trans mod_less_eq_dividend)
    then have "unat (of_nat (L mod ci_ChunkSize ci) :: ULONGLONG) = L mod ci_ChunkSize ci" by (simp add: unat_of_nat take_bit_nat_eq_self)
    then show ?thesis by (metis unat_0 unat_eq_0)
  qed
  then show ?thesis by (simp add: content_length_def d Let_def algebra_simps)
qed

lemma content_length_ok:
  assumes "chunks_ok ci" "hashes_ok (sx_env sx)" "ci_ChunkSize ci < 2 ^ 64" "length payload < 2 ^ 64"
    and "stream_done sx ci prev payload s"
  shows "content_length ci (of_nat (length payload)) = of_nat (length (concat (s_Out s)))"
proof -
  let ?n = "ci_ChunkSize ci"
  obtain ds p where d: "s_Out s = frames sx ci prev (ds @ tail_chunks p)" "length p < ?n" "\<forall>d \<in> set ds. length d = ?n" "concat ds @ p = payload"
    using assms(5) unfolding stream_done_def by blast
  have cl: "length (concat ds) = length ds * ?n" using d(3) by (induction ds) auto
  have L: "length payload div ?n = length ds" "length payload mod ?n = length p"
    using d(2,4) cl by auto
  have "\<forall>x \<in> set (ds @ tail_chunks p). length x \<le> ?n" using d(2,3) by (auto simp: tail_chunks_def)
  then have "length (concat (s_Out s)) = length payload + length (ds @ tail_chunks p) * ci_MetadataSize ci"
    using length_frames [OF assms(1,2)] arg_cong [OF d(4), of length] unfolding d(1) by (auto simp: tail_chunks_def)
  moreover have "length (ds @ tail_chunks p) = length ds + (if length p \<noteq> 0 then 1 else 0) + 1" by (simp add: tail_chunks_def)
  ultimately show ?thesis unfolding content_length_nat [OF assms(4,3)] L by (simp only:)
qed

section \<open>The server's side\<close>

definition hexval :: "char \<Rightarrow> nat" where
  "hexval ch = length (takeWhile (\<lambda>x. x \<noteq> ch) hex_lower)"

definition unhex :: "string \<Rightarrow> nat" where
  "unhex s = foldl (\<lambda>a ch. 16 * a + hexval ch) 0 s"

text \<open>A receiver of the chunks: it takes the length, checks the signature of every chunk against the
  one before, and ends with the empty chunk.\<close>

definition parse_chunk :: "string \<Rightarrow> (string \<times> string \<times> string) option" where
  "parse_chunk s =
     (case find_char CHR '';'' s of
        None \<Rightarrow> None
      | Some i \<Rightarrow>
          let n = unhex (take i s); r = drop (i + 17) s in
          (case str_find crlf r of
             None \<Rightarrow> None
           | Some j \<Rightarrow>
               let data = take n (drop (j + 2) r); r2 = drop (j + 2 + n) r in
               if take 17 (drop i s) = '';chunk-signature='' \<and> length data = n \<and> take 2 r2 = crlf
               then Some (take j r, data, drop 2 r2) else None))"

lemma parse_chunk_length: "parse_chunk s = Some (sig, data, r) \<Longrightarrow> length r < length s"
  by (auto simp: parse_chunk_def find_char_def Let_def split: option.splits if_splits dest!: str_find_Some)

function aws_decode :: "sign_ctx \<Rightarrow> chunk_info \<Rightarrow> string \<Rightarrow> string \<Rightarrow> string option" where
  "aws_decode sx ci prev s =
     (case parse_chunk s of
        None \<Rightarrow> None
      | Some (sig, data, r) \<Rightarrow>
          if chunk_signature sx prev (ci_EmptySignature ci) data = Inr sig then
            (if data = [] then (if r = [] then Some [] else None) else map_option ((@) data) (aws_decode sx ci sig r))
          else None)"
  by pat_completeness auto
termination aws_decode
  by (relation "measure (\<lambda>(sx, ci, prev, s). length s)") (auto dest: parse_chunk_length)

declare aws_decode.simps [simp del]

lemma hexval_hex_lower: "i < 16 \<Longrightarrow> hexval (hex_lower ! i) = i"
proof -
  have "\<forall>i \<in> set [0..<16]. hexval (hex_lower ! i) = i" by code_simp
  then show "i < 16 \<Longrightarrow> ?thesis" by simp
qed

lemma unhex_hex_num: "unhex (hex_num n) = n"
proof (induction n rule: hex_num.induct)
  case (1 n)
  have "hexval (hex_lower ! (n mod 16)) = n mod 16" by (rule hexval_hex_lower) simp
  then show ?case using 1 hexval_hex_lower [of n] by (subst hex_num.simps) (auto simp: unhex_def)
qed

lemma unhex_hex_pad: "unhex (hex_pad k n) = n"
proof -
  have z: "hexval CHR ''0'' = 0" using hexval_hex_lower [of 0] by (simp add: hex_lower_def)
  have "unhex (replicate m CHR ''0'' @ s) = unhex s" for m s
    by (induction m) (simp_all add: unhex_def z)
  then show ?thesis by (simp add: hex_pad_def unhex_hex_num)
qed

lemma hex_num_chars: "set (hex_num n) \<subseteq> set hex_lower"
proof (induction n rule: hex_num.induct)
  case (1 n)
  then show ?case by (subst hex_num.simps) (auto intro: hex_lower_mem)
qed

lemma hex_pad_chars: "set (hex_pad k n) \<subseteq> set hex_lower"
  using hex_num_chars [of n] by (auto simp: hex_pad_def hex_lower_def)

lemma str_find_after: "c \<notin> set a \<Longrightarrow> str_find (c # p) (a @ (c # p) @ q) = Some (length a)"
  by (induction a) (cases "c # p @ q"; auto)+

lemma decode_frame:
  assumes h: "hashes_ok (sx_env sx)"
  shows "aws_decode sx ci prev (frame ci (the_sig sx ci prev d) d @ r) =
    (if d = [] then (if r = [] then Some [] else None) else map_option ((@) d) (aws_decode sx ci (the_sig sx ci prev d) r))"
proof -
  define sig where "sig = the_sig sx ci prev d"
  have sg: "chunk_signature sx prev (ci_EmptySignature ci) d = Inr sig" "set sig \<subseteq> set hex_lower"
    using chunk_signature_ok [OF h] by (simp_all add: sig_def)
  define num where "num = hex_pad (ci_Digits ci) (length d)"
  define body where "body = sig @ crlf @ d @ crlf @ r"
  define S where "S = frame ci sig d @ r"
  have s: "S = num @ CHR '';'' # ''chunk-signature='' @ body"
    by (simp add: S_def frame_def BuildV4ChunkMetadata_def num_def body_def)
  have f: "find_char CHR '';'' S = Some (length num)"
    unfolding s by (rule find_char_append) (use hex_pad_chars in \<open>auto simp: num_def hex_lower_def\<close>)
  have dr: "take (length num) S = num" "take 17 (drop (length num) S) = '';chunk-signature=''"
    "drop (length num + 17) S = body"
    unfolding s by simp_all
  have j: "str_find crlf body = Some (length sig)"
    unfolding body_def crlf_def by (rule str_find_after) (use sg(2) in \<open>auto simp: hex_lower_def\<close>)
  have b: "take (length sig) body = sig" "drop (length sig + 2) body = d @ crlf @ r" "drop (length sig + 2 + length d) body = crlf @ r"
    unfolding body_def by (simp_all add: crlf_def)
  have c: "take 2 (crlf @ r) = crlf" "drop 2 (crlf @ r) = r" by (simp_all add: crlf_def)
  have n: "unhex num = length d" by (simp add: num_def unhex_hex_pad)
  have t: "take (length d) (d @ crlf @ r) = d" by simp
  have "parse_chunk S = Some (sig, d, r)"
    unfolding parse_chunk_def f option.case dr n Let_def j b c t by simp
  then have "aws_decode sx ci prev S =
      (if d = [] then (if r = [] then Some [] else None) else map_option ((@) d) (aws_decode sx ci sig r))"
    by (subst aws_decode.simps) (simp add: sg(1))
  then show ?thesis unfolding sig_def [symmetric] S_def [symmetric] by simp
qed

lemma decode_frames:
  assumes h: "hashes_ok (sx_env sx)"
  shows "[] \<notin> set ds \<Longrightarrow> aws_decode sx ci prev (concat (frames sx ci prev (ds @ [[]]))) = Some (concat ds)"
proof (induction ds arbitrary: prev)
  case Nil
  show ?case using decode_frame [OF h, of ci prev "[]" "[]"] by simp
next
  case (Cons d ds)
  then have ne: "d \<noteq> []" "[] \<notin> set ds" by auto
  show ?case using decode_frame [OF h, of ci prev d] ne(1) Cons.IH [OF ne(2)] by (simp del: concat_append)
qed

lemma decode_done:
  assumes h: "hashes_ok (sx_env sx)" and "chunks_ok ci" "stream_done sx ci prev payload s"
  shows "aws_decode sx ci prev (concat (s_Out s)) = Some payload"
proof -
  obtain ds p where d: "s_Out s = frames sx ci prev (ds @ tail_chunks p)" "\<forall>d \<in> set ds. length d = ci_ChunkSize ci" "concat ds @ p = payload"
    using assms(3) unfolding stream_done_def by blast
  let ?ds = "ds @ (if p = [] then [] else [p])"
  have "[] \<notin> set ?ds" using d(2) assms(2) by (auto simp: chunks_ok_def)
  moreover have "ds @ tail_chunks p = ?ds @ [[]]" "concat ?ds = payload" using d(3) by (auto simp: tail_chunks_def)
  ultimately show ?thesis using decode_frames [OF h, of ?ds ci prev] d(1) by simp
qed

section \<open>Whole uploads\<close>

definition buf_size :: "chunk_info \<Rightarrow> nat" where
  "buf_size ci = unat (of_nat (ci_ChunkSize ci) + of_nat (ci_MetadataSize ci) :: DWORD)"

lemma stream_start_inv:
  assumes "chunks_ok ci" "queue_ok q" "ci_ChunkSize ci + ci_MetadataSize ci < 2 ^ 32"
  shows "stream_inv sx ci prev (concat (map se_Data q)) (stream_start (buf_size ci) q prev w)"
proof -
  have "buf_size ci = unat (of_nat (ci_ChunkSize ci + ci_MetadataSize ci) :: DWORD)" by (simp add: buf_size_def)
  also have "\<dots> = ci_ChunkSize ci + ci_MetadataSize ci" unfolding unat_of_nat using assms(3) by (simp add: take_bit_nat_eq_self)
  finally show ?thesis
    using assms(1,2) unfolding stream_inv_def
    by (intro conjI exI [of _ "[]"]) (auto simp: stream_start_def sending_def queue_rest_def chunks_ok_def)
qed

section \<open>Properties\<close>

text \<open>C7: When the hashes and the writes succeed, a streamed version 4 upload returns, and what it has
  written is exactly what its content-length announced and is accepted by a receiver that checks
  every chunk signature against the one before it: the receiver gets the concatenation of what was
  pushed on the stream, whatever the sizes of the pieces, empty ones included.\<close>

theorem chunked_upload_accepted:
  assumes "init_chunks (sx_env sx) n = Inr ci" "hashes_ok (sx_env sx)" "writes_ok env" "queue_ok q"
    and "ci_ChunkSize ci + ci_MetadataSize ci < 2 ^ 32" "length (concat (map se_Data q)) < 2 ^ 64"
  shows "\<exists>s'. stream_loop env (Some (sx, ci)) (stream_start (buf_size ci) q prev w) = Some (Inr (), s')
    \<and> aws_decode sx ci prev (concat (s_Out s')) = Some (concat (map se_Data q))
    \<and> content_length ci (of_nat (length (concat (map se_Data q)))) = of_nat (length (concat (s_Out s')))"
proof -
  have ok: "chunks_ok ci" using init_chunks_ok [OF assms(1,2)] by blast
  obtain s' where s': "stream_loop env (Some (sx, ci)) (stream_start (buf_size ci) q prev w) = Some (Inr (), s')"
      "stream_done sx ci prev (concat (map se_Data q)) s'"
    using stream_loop_ok [OF ok assms(2,3) stream_start_inv [OF ok assms(4,5)]] by blast
  show ?thesis
    using s'(1) decode_done [OF assms(2) ok s'(2)] content_length_ok [OF ok assms(2) _ assms(6) s'(2)] assms(5) by auto
qed

definition demo_hashes :: sign_env where
  "demo_hashes = demo_sign\<lparr> sg_sha256 := (\<lambda>s. Inr (replicate 32 (of_nat (length s)))), sg_hmac256 := (\<lambda>k s. Inr (replicate 32 7)) \<rparr>"

definition demo_ctx :: sign_ctx where
  "demo_ctx = \<lparr> sx_env = demo_hashes, sx_Key = [1], sx_Time = zero_time, sx_Region = ''us-east-1'' \<rparr>"

definition demo_sender :: "unit send_env" where
  "demo_sender = \<lparr> sd_write = (\<lambda>b w. (Inr (of_nat (length b)), w)), sd_more = (\<lambda>w. (False, w)), sd_pause = (\<lambda>n w. (None, w)),
     sd_progress = True, sd_MaxWrite = 0 \<rparr>"

definition demo_queue :: "stream_entry list" where
  "demo_queue = [\<lparr> se_Data = ''ab'', se_bLast = False, se_ullOffset = 0 \<rparr>, \<lparr> se_Data = [], se_bLast = True, se_ullOffset = 2 \<rparr>]"

definition demo_info :: chunk_info where
  "demo_info = \<lparr> ci_ChunkSize = 0x2000, ci_Digits = 4, ci_MetadataOffset = 87, ci_MetadataSize = 89,
     ci_EmptySignature = replicate 64 CHR ''0'' \<rparr>"

theorem chunked_upload_accepted_witness:
  "\<exists>s'. stream_loop demo_sender (Some (demo_ctx, demo_info)) (stream_start (buf_size demo_info) demo_queue [] ()) = Some (Inr (), s')
    \<and> aws_decode demo_ctx demo_info [] (concat (s_Out s')) = Some (concat (map se_Data demo_queue))
    \<and> content_length demo_info (of_nat (length (concat (map se_Data demo_queue)))) = of_nat (length (concat (s_Out s')))"
proof (rule chunked_upload_accepted)
  have d: "count_digits 8192 = 4" by (simp add: count_digits.simps)
  have h: "BinaryToHexString (replicate 32 0) = replicate 64 CHR ''0''"
    by (simp add: BinaryToHexString_def hex_lower_def numeral_eq_Suc)
  have l: "length (hex_pad 4 8192) = 4" using length_hex_pad [of 8192 8192] by (simp add: d)
  show "init_chunks (sx_env demo_ctx) 0 = Inr demo_info"
    by (simp add: init_chunks_def demo_ctx_def demo_hashes_def h d l demo_info_def BuildV4ChunkMetadata_def crlf_def)
  show "hashes_ok (sx_env demo_ctx)" by (simp add: hashes_ok_def demo_ctx_def demo_hashes_def)
  show "writes_ok demo_sender" by (simp add: writes_ok_def demo_sender_def)
  show "queue_ok demo_queue" by (simp add: demo_queue_def)
  show "ci_ChunkSize demo_info + ci_MetadataSize demo_info < 2 ^ 32" by (simp add: demo_info_def)
  show "length (concat (map se_Data demo_queue)) < 2 ^ 64" by (simp add: demo_queue_def)
qed

text \<open>C29: A request with its data in memory sends all of it when it is not a version 4 request. A
  version 4 request never returns when some of the data is left after the first part, because of a
  throttle or of a limit for writes: it does not count what it sends, and sends the same part again.\<close>

theorem memory_send_v4_repeats:
  assumes "writes_ok env" "length pData < 2 ^ 32"
  shows "(\<exists>s'. memory_send env False thr pData s = Some (Inr (), s') \<and> concat (s_Out s') = concat (s_Out s) @ pData)
    \<and> (first_part env thr pData < length pData \<longrightarrow> memory_send env True thr pData s = None)"
proof
  have f: "first_part env thr pData \<le> length pData" by (simp add: first_part_def)
  show "\<exists>s'. memory_send env False thr pData s = Some (Inr (), s') \<and> concat (s_Out s') = concat (s_Out s) @ pData"
    using memory_plain [OF assms(1) f assms(2)] unfolding memory_send_def by fastforce
  show "first_part env thr pData < length pData \<longrightarrow> memory_send env True thr pData s = None"
    using memory_v4_none [OF _ _ _ assms(1)] unfolding memory_send_def by (metis not_None_eq)
qed

theorem memory_send_v4_repeats_witness:
  "(\<exists>s'. memory_send demo_sender False True ''abc'' (stream_start 0 [] [] ()) = Some (Inr (), s') \<and> concat (s_Out s') = ''abc'')
    \<and> memory_send demo_sender True True ''abc'' (stream_start 0 [] [] ()) = None"
  using memory_send_v4_repeats [of demo_sender "''abc''" True "stream_start 0 [] [] ()"]
  by (simp add: writes_ok_def demo_sender_def first_part_def stream_start_def)

end
