(* ===== verification/Sessions.thy ===== *)
theory Sessions
  imports Prelude "HOL-Library.Char_ord" "HOL-Library.List_Lexorder"
begin

text \<open>
  The pool of sessions and the states of threads (ECSConnection.h, SESSION_MAP_KEY,
  SESSION_MAP_VALUE, CECSConnectionState; ECSConnection.cpp, GetStateBuf, CStateRef, InitSession,
  CECSConnectionSession, KillHostSessions, GarbageCollect, and the setters that kill sessions). The
  operations on the map are atomic by its lock; the setters have none, and every write of a member is
  a step of its own, as are the parts of InitSession. A handle is what it was opened with.
\<close>

section \<open>Sessions\<close>

record session_key =
  sHostEntry :: string
  sk_sIP :: string
  lKey :: DWORD

definition session_less :: "session_key \<Rightarrow> session_key \<Rightarrow> bool" where
  "session_less a b \<longleftrightarrow> sHostEntry a < sHostEntry b
     \<or> sHostEntry a = sHostEntry b \<and> (sk_sIP a < sk_sIP b \<or> sk_sIP a = sk_sIP b \<and> sint (lKey a) < sint (lKey b))"

datatype proxy_access = NamedProxy string | DefaultProxy | NoProxy

record session_open =
  so_Agent :: string
  so_Access :: proxy_access
  so_Protocol :: DWORD

record session_value =
  bInUse :: bool
  bKillWhenDone :: bool
  hSession :: "session_open option"
  hConnect :: "(string \<times> 16 word) option"
  ftIdleTime :: FILETIME

definition new_session :: "FILETIME \<Rightarrow> session_value" where
  "new_session ftNow = \<lparr> bInUse = False, bKillWhenDone = False, hSession = None, hConnect = None, ftIdleTime = ftNow \<rparr>"

definition sv_CloseAll :: "session_value \<Rightarrow> session_value" where
  "sv_CloseAll v = v\<lparr> hConnect := None, hSession := None \<rparr>"

text \<open>The maps are lists in the order of their keys.\<close>

type_synonym session_map = "(session_key \<times> session_value) list"

fun map_insert :: "(session_key \<times> session_value) \<Rightarrow> session_map \<Rightarrow> session_map" where
  "map_insert kv [] = [kv]"
| "map_insert kv (e # es) =
     (if session_less (fst kv) (fst e) then kv # e # es
      else if fst kv = fst e then e # es else e # map_insert kv es)"

definition map_change :: "session_key \<Rightarrow> (session_value \<Rightarrow> session_value) \<Rightarrow> session_map \<Rightarrow> session_map" where
  "map_change k f m = map (\<lambda>(k', v). (k', if k' = k then f v else v)) m"

definition map_erase :: "session_key \<Rightarrow> session_map \<Rightarrow> session_map" where
  "map_erase k m = filter (\<lambda>(k', v). k' \<noteq> k) m"

section \<open>States of threads\<close>

record conn_state =
  ulReferenceCount :: nat
  ftLastUsed :: FILETIME
  st_Session :: "session_key option"

text \<open>Threads are numbered over all connections. \<open>InSetter\<close> is history: the threads that have written a
  setting and not yet called \<open>KillHostSessions\<close>.\<close>

record pool =
  SessionMap :: session_map
  lSessionKeyValue :: DWORD
  StateMap :: "(nat \<times> conn_state) list"
  InSetter :: "nat list"

definition state_of :: "pool \<Rightarrow> nat \<Rightarrow> conn_state option" where
  "state_of s h = map_of (StateMap s) h"

definition change_state :: "nat \<Rightarrow> (conn_state \<Rightarrow> conn_state) \<Rightarrow> pool \<Rightarrow> pool" where
  "change_state h f s = s\<lparr> StateMap := map (\<lambda>(h', t). (h', if h' = h then f t else t)) (StateMap s) \<rparr>"

definition set_session :: "nat \<Rightarrow> session_key option \<Rightarrow> pool \<Rightarrow> pool" where
  "set_session h k = change_state h (\<lambda>t. t\<lparr> st_Session := k \<rparr>)"

section \<open>Taking and giving back a session\<close>

text \<open>The map without a session that is given back: erased or free again.\<close>

definition release_key :: "FILETIME \<Rightarrow> session_key option \<Rightarrow> session_map \<Rightarrow> session_map" where
  "release_key ftNow key m =
     (case key of
        None \<Rightarrow> m
      | Some k \<Rightarrow>
          (case map_of m k of
             None \<Rightarrow> m
           | Some v \<Rightarrow> if bKillWhenDone v then map_erase k m
               else map_change k (\<lambda>v. v\<lparr> ftIdleTime := ftNow, bInUse := False \<rparr>) m))"

definition session_key_of :: "pool \<Rightarrow> nat \<Rightarrow> session_key option" where
  "session_key_of s h = (case state_of s h of None \<Rightarrow> None | Some t \<Rightarrow> st_Session t)"

definition ReleaseSession :: "FILETIME \<Rightarrow> nat \<Rightarrow> pool \<Rightarrow> pool" where
  "ReleaseSession ftNow h s =
     set_session h None (s\<lparr> SessionMap := release_key ftNow (session_key_of s h) (SessionMap s) \<rparr>)"

definition first_free :: "string \<Rightarrow> string \<Rightarrow> session_map \<Rightarrow> session_key option" where
  "first_free host ip m =
     (let key = \<lparr> sHostEntry = host, sk_sIP = ip, lKey = 0 \<rparr>;
          candidates = takeWhile (\<lambda>(k, v). sHostEntry k = host \<and> sk_sIP k = ip) (dropWhile (\<lambda>(k, v). session_less k key) m) in
      map_option fst (List.find (\<lambda>(k, v). \<not> bInUse v) candidates))"

definition AllocSession :: "FILETIME \<Rightarrow> nat \<Rightarrow> string \<Rightarrow> string \<Rightarrow> pool \<Rightarrow> pool" where
  "AllocSession ftNow h host ip s0 =
     (let s = ReleaseSession ftNow h s0 in
      case first_free host ip (SessionMap s) of
        Some k \<Rightarrow> set_session h (Some k) (s\<lparr> SessionMap := map_change k (\<lambda>v. v\<lparr> bInUse := True \<rparr>) (SessionMap s) \<rparr>)
      | None \<Rightarrow>
          let n1 = lSessionKeyValue s + 1; n = (if n1 = 0 then n1 + 1 else n1);
              k = \<lparr> sHostEntry = host, sk_sIP = ip, lKey = n \<rparr> in
          set_session h (Some k) (s\<lparr> lSessionKeyValue := n,
            SessionMap := map_change k (\<lambda>v. v\<lparr> bInUse := True \<rparr>) (map_insert (k, new_session ftNow) (SessionMap s)) \<rparr>))"

text \<open>Every session, of whatever host.\<close>

definition KillHostSessions :: "pool \<Rightarrow> pool" where
  "KillHostSessions s = s\<lparr> SessionMap := map (\<lambda>(k, v). (k, v\<lparr> bKillWhenDone := True \<rparr>)) (filter (\<lambda>(k, v). bInUse v) (SessionMap s)) \<rparr>"

section \<open>Opening a session\<close>

record conn_conf =
  cf_sSecret :: string
  cf_sUser :: string
  cf_sHost :: string
  cf_sUserAgent :: string
  bSSL :: bool
  cf_Port :: "16 word"
  sProxy :: string
  dwProxyPort :: DWORD
  sProxyUser :: string
  sProxyPassword :: string
  bUseDefaultProxy :: bool
  dwHttpsProtocol :: DWORD
  dwGlobalHttpsProtocol :: DWORD

definition conf_access :: "conn_conf \<Rightarrow> proxy_access" where
  "conf_access cf =
     (if sProxy cf \<noteq> [] then NamedProxy (if dwProxyPort cf \<noteq> 0 then sProxy cf @ '':'' @ decimal (unat (dwProxyPort cf)) else sProxy cf)
      else if bUseDefaultProxy cf then DefaultProxy else NoProxy)"

text \<open>What WinHttpOpen, WinHttpSetOption and WinHttpConnect answer: an error or none.\<close>

record open_answers =
  oa_Open :: "DWORD option"
  oa_Option :: "DWORD option"
  oa_Connect :: "DWORD option"

definition open_handle :: "open_answers \<Rightarrow> conn_conf \<Rightarrow> session_value \<Rightarrow> DWORD \<times> session_value" where
  "open_handle oa cf v0 =
     (if hSession v0 \<noteq> None \<and> hConnect v0 \<noteq> None then (0, v0)
      else
        let v = sv_CloseAll v0;
            sVer = (if cf_sUserAgent cf = [] then ''Test/1.0'' else cf_sUserAgent cf) in
        case oa_Open oa of
          Some e \<Rightarrow> (e, v)
        | None \<Rightarrow>
            let p = (if dwHttpsProtocol cf = 0 then dwGlobalHttpsProtocol cf else dwHttpsProtocol cf);
                v1 = v\<lparr> hSession := Some \<lparr> so_Agent = sVer, so_Access = conf_access cf, so_Protocol = p \<rparr> \<rparr> in
            (case (if p \<noteq> 0 then oa_Option oa else None) of
               Some e \<Rightarrow> (e, sv_CloseAll v1)
             | None \<Rightarrow> (0, v1)))"

definition connect_handle :: "open_answers \<Rightarrow> conn_conf \<Rightarrow> string \<Rightarrow> session_value \<Rightarrow> DWORD \<times> session_value" where
  "connect_handle oa cf ip v =
     (if hSession v \<noteq> None \<and> hConnect v = None
      then (case oa_Connect oa of
              Some e \<Rightarrow> (e, sv_CloseAll v)
            | None \<Rightarrow> (0, v\<lparr> hConnect := Some (ip, cf_Port cf) \<rparr>))
      else (0, v))"

definition open_session :: "open_answers \<Rightarrow> conn_conf \<Rightarrow> string \<Rightarrow> session_value \<Rightarrow> DWORD \<times> session_value" where
  "open_session oa cf ip v0 =
     (case open_handle oa cf v0 of (e, v) \<Rightarrow> if e \<noteq> 0 then (e, v) else connect_handle oa cf ip v)"

text \<open>What a thread does with its session.\<close>

definition on_session :: "(session_key \<Rightarrow> session_value \<Rightarrow> DWORD \<times> session_value) \<Rightarrow> nat \<Rightarrow> pool \<Rightarrow> DWORD \<times> pool" where
  "on_session f h s =
     (case session_key_of s h of
        None \<Rightarrow> (0, s)
      | Some k \<Rightarrow>
          (case map_of (SessionMap s) k of
             None \<Rightarrow> (0, s)
           | Some v \<Rightarrow> (fst (f k v), s\<lparr> SessionMap := map_change k (\<lambda>_. snd (f k v)) (SessionMap s) \<rparr>)))"

definition OpenSession :: "open_answers \<Rightarrow> conn_conf \<Rightarrow> nat \<Rightarrow> pool \<Rightarrow> DWORD \<times> pool" where
  "OpenSession oa cf = on_session (\<lambda>k. open_session oa cf (sk_sIP k))"

text \<open>The whole call, when no other thread comes between; in the runs its three parts (taking the
  session, opening it, connecting it) are steps of their own. The address is the one the session was
  taken for.\<close>

definition InitSession :: "open_answers \<Rightarrow> FILETIME \<Rightarrow> conn_conf \<Rightarrow> nat \<Rightarrow> string \<Rightarrow> pool \<Rightarrow> DWORD \<times> pool" where
  "InitSession oa ftNow cf h ip s = OpenSession oa cf h (AllocSession ftNow h (cf_sHost cf) ip s)"

section \<open>References and garbage\<close>

definition FT_HOURS1 :: FILETIME where "FT_HOURS1 = 36000000000"
definition FT_MINUTES2 :: FILETIME where "FT_MINUTES2 = 1200000000"

definition idle_state :: "FILETIME \<Rightarrow> conn_state \<Rightarrow> bool" where
  "idle_state ftExpire t \<longleftrightarrow> ulReferenceCount t = 0 \<and> ftLastUsed t \<noteq> 0 \<and> ftLastUsed t < ftExpire"

text \<open>The destructor of a state gives its session back.\<close>

definition GarbageCollect :: "FILETIME \<Rightarrow> pool \<Rightarrow> pool" where
  "GarbageCollect ftNow s =
     (let m1 = filter (\<lambda>(k, v). \<not> (\<not> bInUse v \<and> ftNow - FT_HOURS1 > ftIdleTime v)) (SessionMap s);
          old = filter (\<lambda>(h, t). idle_state (ftNow - FT_MINUTES2) t) (StateMap s) in
      s\<lparr> SessionMap := fold (\<lambda>(h, t). release_key ftNow (st_Session t)) old m1,
         StateMap := filter (\<lambda>(h, t). \<not> idle_state (ftNow - FT_MINUTES2) t) (StateMap s) \<rparr>)"

text \<open>A large map is collected at once.\<close>

definition GetStateBuf :: "FILETIME \<Rightarrow> nat \<Rightarrow> pool \<Rightarrow> pool" where
  "GetStateBuf ftNow h s =
     (case state_of s h of
        Some t \<Rightarrow> change_state h (\<lambda>t. t\<lparr> ulReferenceCount := ulReferenceCount t + 1 \<rparr>) s
      | None \<Rightarrow>
          let MapSize = length (StateMap s);
              s1 = s\<lparr> StateMap := (h, \<lparr> ulReferenceCount = 1, ftLastUsed = 0, st_Session = None \<rparr>) # StateMap s \<rparr> in
          if MapSize > 500 then GarbageCollect ftNow s1 else s1)"

definition DropStateRef :: "FILETIME \<Rightarrow> nat \<Rightarrow> pool \<Rightarrow> pool" where
  "DropStateRef ftNow h s = change_state h (\<lambda>t. t\<lparr> ftLastUsed := ftNow, ulReferenceCount := ulReferenceCount t - 1 \<rparr>) s"

text \<open>A request that failed marks its session, without a lock, before it gives it back. None: it has no
  session, and writes through a null pointer.\<close>

definition FailSession :: "nat \<Rightarrow> pool \<Rightarrow> pool option" where
  "FailSession h s =
     (case session_key_of s h of
        None \<Rightarrow> None
      | Some k \<Rightarrow> Some (s\<lparr> SessionMap := map_change k (\<lambda>v. v\<lparr> bKillWhenDone := True \<rparr>) (SessionMap s) \<rparr>))"

section \<open>Settings\<close>

text \<open>A setter compares, writes the members one by one and then calls \<open>KillHostSessions\<close>; it holds no lock.
  So a setter is the list of its steps.\<close>

datatype conf_write = WSecret string | WUser string | WHost string | WSSL bool | WPort "16 word"
  | WUseDefaultProxy bool | WProxy string | WProxyPort DWORD | WProxyUser string | WProxyPassword string
  | WUserAgent string | WHttpsProtocol DWORD | WGlobalHttpsProtocol DWORD

fun write_conf :: "conf_write \<Rightarrow> conn_conf \<Rightarrow> conn_conf" where
  "write_conf (WSecret x) c = c\<lparr> cf_sSecret := x \<rparr>"
| "write_conf (WUser x) c = c\<lparr> cf_sUser := x \<rparr>"
| "write_conf (WHost x) c = c\<lparr> cf_sHost := x \<rparr>"
| "write_conf (WSSL x) c = c\<lparr> bSSL := x \<rparr>"
| "write_conf (WPort x) c = c\<lparr> cf_Port := x \<rparr>"
| "write_conf (WUseDefaultProxy x) c = c\<lparr> bUseDefaultProxy := x \<rparr>"
| "write_conf (WProxy x) c = c\<lparr> sProxy := x \<rparr>"
| "write_conf (WProxyPort x) c = c\<lparr> dwProxyPort := x \<rparr>"
| "write_conf (WProxyUser x) c = c\<lparr> sProxyUser := x \<rparr>"
| "write_conf (WProxyPassword x) c = c\<lparr> sProxyPassword := x \<rparr>"
| "write_conf (WUserAgent x) c = c\<lparr> cf_sUserAgent := x \<rparr>"
| "write_conf (WHttpsProtocol x) c = c\<lparr> dwHttpsProtocol := x \<rparr>"
| "write_conf (WGlobalHttpsProtocol x) c = c\<lparr> dwGlobalHttpsProtocol := x \<rparr>"

datatype setter_step = Write conf_write | CallKill

definition cf_SetSecret :: "string \<Rightarrow> conn_conf \<Rightarrow> setter_step list" where
  "cf_SetSecret x c = (if cf_sSecret c \<noteq> x then [Write (WSecret x), CallKill] else [])"

definition SetUser :: "string \<Rightarrow> conn_conf \<Rightarrow> setter_step list" where
  "SetUser x c = (if cf_sUser c \<noteq> x then [Write (WUser x), CallKill] else [])"

definition SetHost :: "string \<Rightarrow> conn_conf \<Rightarrow> setter_step list" where
  "SetHost x c = (if cf_sHost c \<noteq> x then [CallKill, Write (WHost x), CallKill] else [])"

definition SetSSL :: "bool \<Rightarrow> conn_conf \<Rightarrow> setter_step list" where
  "SetSSL x c =
     (let PortParam = (if x then 443 else 80) in
      if x \<noteq> bSSL c \<or> cf_Port c \<noteq> PortParam then [Write (WSSL x), Write (WPort PortParam), CallKill] else [])"

definition SetPort :: "16 word \<Rightarrow> conn_conf \<Rightarrow> setter_step list" where
  "SetPort x c = (if cf_Port c \<noteq> x then [Write (WPort x), CallKill] else [])"

definition SetProxy :: "bool \<Rightarrow> string \<Rightarrow> DWORD \<Rightarrow> string \<Rightarrow> string \<Rightarrow> conn_conf \<Rightarrow> setter_step list" where
  "SetProxy bDefault proxy port user passwd c =
     (if sProxy c \<noteq> proxy \<or> dwProxyPort c \<noteq> port \<or> sProxyUser c \<noteq> user \<or> sProxyPassword c \<noteq> passwd \<or> bDefault \<noteq> bUseDefaultProxy c
      then [Write (WUseDefaultProxy bDefault), Write (WProxy proxy), Write (WProxyPort port), Write (WProxyUser user),
            Write (WProxyPassword passwd), CallKill]
      else [])"

text \<open>These leave the sessions alone.\<close>

definition SetUserAgent :: "string \<Rightarrow> setter_step list" where
  "SetUserAgent x = [Write (WUserAgent x)]"

definition SetHttpsProtocol :: "DWORD \<Rightarrow> setter_step list" where
  "SetHttpsProtocol x = [Write (WHttpsProtocol x)]"

definition SetGlobalHttpsProtocol :: "DWORD \<Rightarrow> setter_step list" where
  "SetGlobalHttpsProtocol x = [Write (WGlobalHttpsProtocol x)]"

definition kills :: "conf_write \<Rightarrow> bool" where
  "kills w \<longleftrightarrow> (case w of WUserAgent _ \<Rightarrow> False | WHttpsProtocol _ \<Rightarrow> False | WGlobalHttpsProtocol _ \<Rightarrow> False | _ \<Rightarrow> True)"

definition do_setter :: "nat \<Rightarrow> setter_step \<Rightarrow> conn_conf \<times> pool \<Rightarrow> conn_conf \<times> pool" where
  "do_setter t st cs = (case cs of (c, s) \<Rightarrow>
     (case st of
        Write w \<Rightarrow> (write_conf w c, if kills w then s\<lparr> InSetter := t # InSetter s \<rparr> else s)
      | CallKill \<Rightarrow> (c, KillHostSessions (s\<lparr> InSetter := removeAll t (InSetter s) \<rparr>))))"

text \<open>A setter with no other thread between.\<close>

definition call_setter :: "nat \<Rightarrow> setter_step list \<Rightarrow> conn_conf \<times> pool \<Rightarrow> conn_conf \<times> pool" where
  "call_setter t sts cs = fold (do_setter t) sts cs"

section \<open>Runs\<close>

text \<open>What threads do with one connection. A thread works with a session only while it holds a
  reference on its state. The host and the address of a session were read before it is taken.\<close>

datatype pool_op = OpRef FILETIME nat | OpUnref FILETIME nat | OpAlloc FILETIME nat string string
  | OpOpen open_answers nat | OpConnect open_answers nat | OpRelease FILETIME nat | OpFail nat | OpCollect FILETIME
  | OpSetter nat setter_step

definition referenced :: "nat \<Rightarrow> pool \<Rightarrow> bool" where
  "referenced h s = (case state_of s h of None \<Rightarrow> False | Some t \<Rightarrow> 0 < ulReferenceCount t)"

definition pool_step :: "pool_op \<Rightarrow> conn_conf \<times> pool \<Rightarrow> conn_conf \<times> pool" where
  "pool_step op cs = (case cs of (c, s) \<Rightarrow>
     let guarded = (\<lambda>h s'. (c, if referenced h s then s' else s)) in
     case op of
       OpRef ft h \<Rightarrow> (c, GetStateBuf ft h s)
     | OpUnref ft h \<Rightarrow> guarded h (DropStateRef ft h s)
     | OpAlloc ft h host ip \<Rightarrow> guarded h (AllocSession ft h host ip s)
     | OpOpen oa h \<Rightarrow> guarded h (snd (on_session (\<lambda>k. open_handle oa c) h s))
     | OpConnect oa h \<Rightarrow> guarded h (snd (on_session (\<lambda>k. connect_handle oa c (sk_sIP k)) h s))
     | OpRelease ft h \<Rightarrow> guarded h (ReleaseSession ft h s)
     | OpFail h \<Rightarrow> guarded h (case FailSession h s of None \<Rightarrow> s | Some s' \<Rightarrow> s')
     | OpCollect ft \<Rightarrow> (c, GarbageCollect ft s)
     | OpSetter t st \<Rightarrow> do_setter t st cs)"

definition empty_pool :: pool where
  "empty_pool = \<lparr> SessionMap = [], lSessionKeyValue = 0, StateMap = [], InSetter = [] \<rparr>"

definition run_pool :: "pool_op list \<Rightarrow> conn_conf \<Rightarrow> conn_conf \<times> pool" where
  "run_pool ops c = fold pool_step ops (c, empty_pool)"

section \<open>The invariant\<close>

definition current :: "conn_conf \<Rightarrow> session_key \<Rightarrow> session_value \<Rightarrow> bool" where
  "current c k v \<longleftrightarrow> (hConnect v = None \<or> hConnect v = Some (sk_sIP k, cf_Port c))
     \<and> (\<forall>so. hSession v = Some so \<longrightarrow> so_Access so = conf_access c)"

text \<open>\<open>calm\<close>: no setter is between its writes and its call of \<open>KillHostSessions\<close>.\<close>

definition sess_ok :: "nat \<Rightarrow> bool \<Rightarrow> conn_conf \<Rightarrow> (session_key \<Rightarrow> session_value option) \<Rightarrow> (nat \<Rightarrow> session_key option) \<Rightarrow> DWORD \<Rightarrow> bool" where
  "sess_ok n calm c M H cnt \<longleftrightarrow>
     (\<forall>h k. H h = Some k \<longrightarrow> (\<exists>v. M k = Some v \<and> bInUse v))
     \<and> (\<forall>h h' k. H h = Some k \<longrightarrow> H h' = Some k \<longrightarrow> h = h')
     \<and> (\<forall>k v. M k = Some v \<longrightarrow> bInUse v \<longrightarrow> (\<exists>h. H h = Some k))
     \<and> (\<forall>k v. M k = Some v \<longrightarrow> \<not> bInUse v \<longrightarrow> \<not> bKillWhenDone v)
     \<and> (\<forall>k v. M k = Some v \<longrightarrow> \<not> bKillWhenDone v \<longrightarrow> calm \<longrightarrow> current c k v)
     \<and> (\<forall>k v. M k = Some v \<longrightarrow> unat (lKey k) \<le> unat cnt) \<and> unat cnt \<le> n"

definition released :: "FILETIME \<Rightarrow> session_value \<Rightarrow> session_value option" where
  "released ft v = (if bKillWhenDone v then None else Some (v\<lparr> ftIdleTime := ft, bInUse := False \<rparr>))"

definition release_all :: "FILETIME \<Rightarrow> nat set \<Rightarrow> (nat \<Rightarrow> session_key option) \<Rightarrow> (session_key \<Rightarrow> session_value option) \<Rightarrow> session_key \<Rightarrow> session_value option" where
  "release_all ft R H M k = (if \<exists>h \<in> R. H h = Some k then Option.bind (M k) (released ft) else M k)"

lemma current_idle [simp]: "current c k (v\<lparr> ftIdleTime := ft \<rparr>) = current c k v" "current c k (v\<lparr> bInUse := b \<rparr>) = current c k v"
  by (simp_all add: current_def)

lemma released_Some: "Option.bind (M k) (released ft) = Some v \<longleftrightarrow>
    (\<exists>u. M k = Some u \<and> \<not> bKillWhenDone u \<and> v = u\<lparr> ftIdleTime := ft, bInUse := False \<rparr>)"
  by (cases "M k") (auto simp: released_def)

lemma ok_release:
  assumes "sess_ok n calm c M H cnt"
  shows "sess_ok n calm c (release_all ft R H M) (\<lambda>h. if h \<in> R then None else H h) cnt"
proof -
  have eq: "release_all ft R H M k = M k" if "H h = Some k" "h \<notin> R" for h k
  proof -
    have "\<not> (\<exists>h' \<in> R. H h' = Some k)" using assms that unfolding sess_ok_def by blast
    then show ?thesis by (simp add: release_all_def)
  qed
  have src: "\<exists>u. M k = Some u \<and> (v = u \<and> \<not> (\<exists>h \<in> R. H h = Some k) \<or> \<not> bKillWhenDone u \<and> v = u\<lparr> ftIdleTime := ft, bInUse := False \<rparr>)"
    if "release_all ft R H M k = Some v" for k v
    using that by (auto simp: release_all_def released_Some split: if_splits)
  show ?thesis
    unfolding sess_ok_def
  proof (intro conjI allI impI)
    fix h k assume "(if h \<in> R then None else H h) = Some k"
    then have "H h = Some k" "h \<notin> R" by (auto split: if_splits)
    then show "\<exists>v. release_all ft R H M k = Some v \<and> bInUse v" using eq assms unfolding sess_ok_def by metis
  next
    fix h h' k assume "(if h \<in> R then None else H h) = Some k" "(if h' \<in> R then None else H h') = Some k"
    then show "h = h'" using assms unfolding sess_ok_def by (auto split: if_splits)
  next
    fix k v assume "release_all ft R H M k = Some v" "bInUse v"
    then have "M k = Some v" "\<not> (\<exists>h \<in> R. H h = Some k)" using src [of k v] by auto
    then show "\<exists>h. (if h \<in> R then None else H h) = Some k" using assms \<open>bInUse v\<close> unfolding sess_ok_def by metis
  next
    fix k v assume "release_all ft R H M k = Some v" "\<not> bInUse v"
    then show "\<not> bKillWhenDone v" using src [of k v] assms unfolding sess_ok_def by auto
  next
    fix k v assume "release_all ft R H M k = Some v" "\<not> bKillWhenDone v" calm
    then show "current c k v" using src [of k v] assms unfolding sess_ok_def by auto
  next
    fix k v assume "release_all ft R H M k = Some v"
    then show "unat (lKey k) \<le> unat cnt" using src [of k v] assms unfolding sess_ok_def by blast
  qed (use assms in \<open>simp add: sess_ok_def\<close>)
qed

lemma ok_take:
  assumes "sess_ok n calm c M H cnt" "M k = Some v" "\<not> bInUse v" "H h = None"
  shows "sess_ok n calm c (M(k \<mapsto> v\<lparr> bInUse := True \<rparr>)) (H(h \<mapsto> k)) cnt"
proof -
  have "H h' \<noteq> Some k" for h' using assms unfolding sess_ok_def by fastforce
  then show ?thesis using assms unfolding sess_ok_def by auto (metis option.distinct(1))
qed

lemma ok_new:
  assumes "sess_ok n calm c M H cnt" "H h = None" "unat (lKey k) = Suc (unat cnt)"
  shows "sess_ok (Suc n) calm c (M(k \<mapsto> (new_session ft)\<lparr> bInUse := True \<rparr>)) (H(h \<mapsto> k)) (lKey k) \<and> M k = None"
proof -
  have fresh: "M k = None" using assms(1,3) unfolding sess_ok_def by (metis Suc_n_not_le_n not_None_eq)
  then have "H h' \<noteq> Some k" for h' using assms(1) unfolding sess_ok_def by fastforce
  moreover have "current c k ((new_session ft)\<lparr> bInUse := True \<rparr>)" by (simp add: current_def new_session_def)
  ultimately show ?thesis using assms fresh unfolding sess_ok_def by (auto simp: le_Suc_eq) (metis option.distinct(1))
qed

lemma ok_kill:
  assumes "sess_ok n calm c M H cnt"
  shows "sess_ok n calm' c' (\<lambda>k. case M k of None \<Rightarrow> None | Some v \<Rightarrow> if bInUse v then Some (v\<lparr> bKillWhenDone := True \<rparr>) else None) H cnt"
  using assms unfolding sess_ok_def by (fastforce split: option.splits if_splits)

lemma ok_change:
  assumes "sess_ok n calm c M H cnt" "M k = Some v" "bInUse v" "bInUse v'" "\<not> bKillWhenDone v' \<Longrightarrow> calm \<Longrightarrow> current c k v'"
  shows "sess_ok n calm c (M(k \<mapsto> v')) H cnt"
  using assms unfolding sess_ok_def by auto

lemma ok_collect:
  assumes "sess_ok n calm c M H cnt"
  shows "sess_ok n calm c (\<lambda>k. case M k of None \<Rightarrow> None | Some v \<Rightarrow> if P k v \<or> bInUse v then Some v else None) H cnt"
  using assms unfolding sess_ok_def by (fastforce split: option.splits if_splits)

lemma ok_conf: "sess_ok n calm c M H cnt \<Longrightarrow> current c = current c' \<Longrightarrow> sess_ok n calm c' M H cnt"
  by (simp add: sess_ok_def)

lemma ok_busy: "sess_ok n calm c M H cnt \<Longrightarrow> sess_ok n False c' M H cnt"
  by (simp add: sess_ok_def)

lemma ok_mono: "sess_ok n calm c M H cnt \<Longrightarrow> n \<le> m \<Longrightarrow> sess_ok m calm c M H cnt"
  unfolding sess_ok_def by (meson le_trans)

section \<open>The operations keep the invariant\<close>

lemma map_of_change [simp]: "map_of (map_change k f m) = (\<lambda>k'. if k' = k then map_option f (map_of m k) else map_of m k')"
  by (induction m) (auto simp: map_change_def fun_eq_iff)

lemma keys_change [simp]: "map fst (map_change k f m) = map fst m"
  by (simp add: map_change_def case_prod_beta comp_def)

lemma map_of_erase [simp]: "map_of (map_erase k m) = (map_of m)(k := None)"
  by (induction m) (auto simp: map_erase_def fun_eq_iff)

lemma map_of_filter:
  "distinct (map fst m) \<Longrightarrow> map_of (filter (\<lambda>(k, v). P k v) m) = (\<lambda>k. case map_of m k of None \<Rightarrow> None | Some v \<Rightarrow> if P k v then Some v else None)"
proof (induction m)
  case (Cons e m)
  have "map_of m (fst e) = None" using Cons.prems by (simp add: map_of_eq_None_iff)
  then show ?case using Cons by (cases e) (auto simp: fun_eq_iff split: option.splits)
qed auto

lemma distinct_filter_keys: "distinct (map fst m) \<Longrightarrow> distinct (map fst (filter P m))"
  by (simp add: distinct_map_filter)

lemma map_insert_fresh:
  "fst kv \<notin> fst ` set m \<Longrightarrow> map_of (map_insert kv m) = (map_of m)(fst kv \<mapsto> snd kv) \<and> set (map_insert kv m) = insert kv (set m)
     \<and> (distinct (map fst m) \<longrightarrow> distinct (map fst (map_insert kv m)))"
  by (induction m) (auto simp: fun_eq_iff)

lemma map_of_at: "map_of (map (\<lambda>(h', t). (h', if h' = h then f t else t)) l) h2 = (if h2 = h then map_option f (map_of l h) else map_of l h2)"
  by (induction l) auto

lemma state_of_change: "state_of (change_state h f s) h2 = (if h2 = h then map_option f (state_of s h) else state_of s h2)"
  by (simp add: state_of_def change_state_def map_of_at)

lemma change_state_simps [simp]:
  "SessionMap (change_state h f s) = SessionMap s" "lSessionKeyValue (change_state h f s) = lSessionKeyValue s"
  "map fst (StateMap (change_state h f s)) = map fst (StateMap s)" "InSetter (change_state h f s) = InSetter s"
  by (simp_all add: change_state_def case_prod_beta comp_def)

lemma set_session_simps [simp]:
  "SessionMap (set_session h k s) = SessionMap s" "lSessionKeyValue (set_session h k s) = lSessionKeyValue s"
  "map fst (StateMap (set_session h k s)) = map fst (StateMap s)" "InSetter (set_session h k s) = InSetter s"
  by (simp_all add: set_session_def)

lemma session_key_of_set:
  "session_key_of (set_session h k s) h2 = (if h2 = h \<and> state_of s h \<noteq> None then k else session_key_of s h2)"
  by (auto simp: session_key_of_def set_session_def state_of_change split: option.splits)

lemma session_key_of_change:
  "(\<And>t. st_Session (f t) = st_Session t) \<Longrightarrow> session_key_of (change_state h f s) = session_key_of s"
  by (auto simp: session_key_of_def state_of_change fun_eq_iff split: option.splits)

lemma state_of_update [simp]: "state_of (s\<lparr> SessionMap := m \<rparr>) = state_of s" "state_of (s\<lparr> lSessionKeyValue := n \<rparr>) = state_of s"
  by (simp_all add: state_of_def fun_eq_iff)

lemma session_key_of_update [simp]:
  "session_key_of (s\<lparr> SessionMap := m \<rparr>) = session_key_of s" "session_key_of (s\<lparr> lSessionKeyValue := n \<rparr>) = session_key_of s"
  by (simp_all add: session_key_of_def fun_eq_iff)

definition pool_ok :: "nat \<Rightarrow> conn_conf \<Rightarrow> pool \<Rightarrow> bool" where
  "pool_ok n c s \<longleftrightarrow> distinct (map fst (SessionMap s)) \<and> distinct (map fst (StateMap s))
     \<and> sess_ok n (InSetter s = []) c (map_of (SessionMap s)) (session_key_of s) (lSessionKeyValue s)"

lemma map_of_release_key:
  "map_of (release_key ft key m) = (\<lambda>k. if key = Some k then Option.bind (map_of m k) (released ft) else map_of m k)"
  by (auto simp: release_key_def released_def fun_eq_iff split: option.splits)

lemma distinct_release_key: "distinct (map fst m) \<Longrightarrow> distinct (map fst (release_key ft key m))"
  by (auto simp: release_key_def map_erase_def distinct_filter_keys split: option.splits)

lemma release_ok:
  assumes "pool_ok n c s"
  shows "pool_ok n c (ReleaseSession ft h s) \<and> session_key_of (ReleaseSession ft h s) h = None \<and> state_of (ReleaseSession ft h s) h \<noteq> None = (state_of s h \<noteq> None)
    \<and> lSessionKeyValue (ReleaseSession ft h s) = lSessionKeyValue s \<and> InSetter (ReleaseSession ft h s) = InSetter s"
proof -
  have I: "InSetter (ReleaseSession ft h s) = InSetter s" by (simp add: ReleaseSession_def)
  have H: "session_key_of (ReleaseSession ft h s) = (\<lambda>h2. if h2 \<in> {h} then None else session_key_of s h2)"
    by (auto simp: ReleaseSession_def session_key_of_set fun_eq_iff) (simp add: session_key_of_def)
  have M: "map_of (SessionMap (ReleaseSession ft h s)) = release_all ft {h} (session_key_of s) (map_of (SessionMap s))"
    by (auto simp: ReleaseSession_def map_of_release_key release_all_def fun_eq_iff)
  have "sess_ok n (InSetter s = []) c (map_of (SessionMap (ReleaseSession ft h s))) (session_key_of (ReleaseSession ft h s)) (lSessionKeyValue s)"
    unfolding H M by (rule ok_release) (use assms in \<open>simp add: pool_ok_def\<close>)
  then show ?thesis using assms H I
    by (simp add: pool_ok_def distinct_release_key) (simp add: ReleaseSession_def distinct_release_key set_session_def state_of_change)
qed

lemma first_free_Some:
  assumes "first_free host ip m = Some k" "distinct (map fst m)"
  shows "sHostEntry k = host \<and> sk_sIP k = ip \<and> (\<exists>v. map_of m k = Some v \<and> \<not> bInUse v)"
proof -
  define l where "l = takeWhile (\<lambda>(k, v). sHostEntry k = host \<and> sk_sIP k = ip)
      (dropWhile (\<lambda>(k, v). session_less k \<lparr> sHostEntry = host, sk_sIP = ip, lKey = 0 \<rparr>) m)"
  obtain v where v: "List.find (\<lambda>(k, v). \<not> bInUse v) l = Some (k, v)"
    using assms(1) by (auto simp: first_free_def l_def Let_def)
  then have "(k, v) \<in> set l" "\<not> bInUse v" by (auto simp: find_Some_iff in_set_conv_nth)
  then have "sHostEntry k = host \<and> sk_sIP k = ip" "(k, v) \<in> set m"
    by (auto simp: l_def dest: set_takeWhileD set_dropWhileD)
  then show ?thesis using assms(2) \<open>\<not> bInUse v\<close> by auto
qed

lemma alloc_ok:
  assumes "pool_ok n c s0" "state_of s0 h \<noteq> None" "n < 2 ^ 31"
  shows "pool_ok (Suc n) c (AllocSession ft h host ip s0)"
proof -
  define s where "s = ReleaseSession ft h s0"
  have s: "pool_ok n c s" "session_key_of s h = None" "state_of s h \<noteq> None" using release_ok [OF assms(1)] assms(2) by (simp_all add: s_def)
  have d: "distinct (map fst (SessionMap s))" and ok: "sess_ok n (InSetter s = []) c (map_of (SessionMap s)) (session_key_of s) (lSessionKeyValue s)"
    using s(1) by (simp_all add: pool_ok_def)
  show ?thesis
  proof (cases "first_free host ip (SessionMap s)")
    case (Some k)
    obtain v where v: "map_of (SessionMap s) k = Some v" "\<not> bInUse v" using first_free_Some [OF Some d] by blast
    let ?s = "set_session h (Some k) (s\<lparr> SessionMap := map_change k (\<lambda>v. v\<lparr> bInUse := True \<rparr>) (SessionMap s) \<rparr>)"
    have "map_of (SessionMap ?s) = (map_of (SessionMap s))(k \<mapsto> v\<lparr> bInUse := True \<rparr>)" using v(1) by (auto simp: fun_eq_iff)
    moreover have "session_key_of ?s = (session_key_of s)(h \<mapsto> k)" using s(3) by (auto simp: fun_eq_iff session_key_of_set)
    ultimately have "pool_ok n c ?s" using ok_take [OF ok v s(2)] s(1) by (simp add: pool_ok_def)
    moreover have "AllocSession ft h host ip s0 = ?s" by (simp add: AllocSession_def s_def [symmetric] Some)
    ultimately show ?thesis using ok_mono [of n _ c] by (auto simp: pool_ok_def)
  next
    case None
    let ?n = "lSessionKeyValue s + 1"
    have u: "unat (lSessionKeyValue s) \<le> n" using ok by (simp add: sess_ok_def)
    then have "unat ?n = Suc (unat (lSessionKeyValue s))"
      using assms(3) by (simp add: unat_plus_simple unat_word_ariths take_bit_nat_eq_self)
    then have n: "unat ?n = Suc (unat (lSessionKeyValue s))" "?n \<noteq> 0" by auto
    define k where "k = \<lparr> sHostEntry = host, sk_sIP = ip, lKey = ?n \<rparr>"
    have kk: "unat (lKey k) = Suc (unat (lSessionKeyValue s))" "lKey k = ?n" using n(1) by (simp_all add: k_def)
    note new = ok_new [OF ok s(2) kk(1), of ft]
    have fresh: "k \<notin> fst ` set (SessionMap s)" using new by (simp add: map_of_eq_None_iff)
    let ?m = "map_change k (\<lambda>v. v\<lparr> bInUse := True \<rparr>) (map_insert (k, new_session ft) (SessionMap s))"
    let ?s = "set_session h (Some k) (s\<lparr> lSessionKeyValue := ?n, SessionMap := ?m \<rparr>)"
    have "map_of ?m = (map_of (SessionMap s))(k \<mapsto> (new_session ft)\<lparr> bInUse := True \<rparr>)"
      using map_insert_fresh [of "(k, new_session ft)" "SessionMap s"] fresh by (auto simp: fun_eq_iff)
    moreover have "session_key_of ?s = (session_key_of s)(h \<mapsto> k)" using s(3) by (auto simp: fun_eq_iff session_key_of_set)
    moreover have "distinct (map fst ?m)" using map_insert_fresh [of "(k, new_session ft)" "SessionMap s"] fresh d by simp
    ultimately have "pool_ok (Suc n) c ?s" using new s(1) kk(2) by (simp add: pool_ok_def)
    moreover have "AllocSession ft h host ip s0 = ?s"
      using n(2) by (simp add: AllocSession_def s_def [symmetric] None k_def Let_def)
    ultimately show ?thesis by simp
  qed
qed

lemma mark_ok:
  assumes "pool_ok n c s" "session_key_of s h = Some k"
  shows "pool_ok n c (s\<lparr> SessionMap := map_change k (\<lambda>v. v\<lparr> bKillWhenDone := True \<rparr>) (SessionMap s) \<rparr>)"
proof -
  have ok: "sess_ok n (InSetter s = []) c (map_of (SessionMap s)) (session_key_of s) (lSessionKeyValue s)" using assms(1) by (simp add: pool_ok_def)
  then obtain v where v: "map_of (SessionMap s) k = Some v" "bInUse v" using assms(2) unfolding sess_ok_def by blast
  have "map_of (map_change k (\<lambda>v. v\<lparr> bKillWhenDone := True \<rparr>) (SessionMap s)) = (map_of (SessionMap s))(k \<mapsto> v\<lparr> bKillWhenDone := True \<rparr>)"
    using v(1) by (auto simp: fun_eq_iff)
  then show ?thesis using ok_change [OF ok v, of "v\<lparr> bKillWhenDone := True \<rparr>"] v(2) assms(1) by (simp add: pool_ok_def)
qed

lemma fail_ok: "pool_ok n c s \<Longrightarrow> FailSession h s = Some s' \<Longrightarrow> pool_ok n c s'"
  using mark_ok by (fastforce simp: FailSession_def split: option.splits)

text \<open>The parts of opening a session keep what a session is: in use, marked or not, of current settings.\<close>

definition keeps_session :: "conn_conf \<Rightarrow> (session_key \<Rightarrow> session_value \<Rightarrow> DWORD \<times> session_value) \<Rightarrow> bool" where
  "keeps_session c f \<longleftrightarrow> (\<forall>k v. bInUse (snd (f k v)) = bInUse v \<and> bKillWhenDone (snd (f k v)) = bKillWhenDone v
     \<and> (current c k v \<longrightarrow> current c k (snd (f k v))))"

lemma keeps_open: "keeps_session c (\<lambda>k. open_handle oa c)"
  by (auto simp: keeps_session_def open_handle_def sv_CloseAll_def current_def Let_def split: option.splits)

lemma keeps_connect: "keeps_session c (\<lambda>k. connect_handle oa c (sk_sIP k))"
  by (auto simp: keeps_session_def connect_handle_def sv_CloseAll_def current_def split: option.splits)

lemma keeps_open_session: "keeps_session c (\<lambda>k. open_session oa c (sk_sIP k))"
  using keeps_open [of c oa] keeps_connect [of c oa]
  unfolding keeps_session_def open_session_def by (simp add: case_prod_beta)

lemma on_session_ok:
  assumes "pool_ok n c s" and f: "keeps_session c f"
  shows "pool_ok n c (snd (on_session f h s))"
proof (cases "session_key_of s h")
  case (Some k)
  have ok: "sess_ok n (InSetter s = []) c (map_of (SessionMap s)) (session_key_of s) (lSessionKeyValue s)" using assms(1) by (simp add: pool_ok_def)
  then obtain v where v: "map_of (SessionMap s) k = Some v" "bInUse v" using Some unfolding sess_ok_def by blast
  let ?v = "snd (f k v)"
  have "map_of (map_change k (\<lambda>_. ?v) (SessionMap s)) = (map_of (SessionMap s))(k \<mapsto> ?v)" using v(1) by (auto simp: fun_eq_iff)
  moreover have "sess_ok n (InSetter s = []) c ((map_of (SessionMap s))(k \<mapsto> ?v)) (session_key_of s) (lSessionKeyValue s)"
  proof (rule ok_change [OF ok v])
    show "bInUse ?v" using f v(2) by (simp add: keeps_session_def)
    show "current c k ?v" if "\<not> bKillWhenDone ?v" "InSetter s = []"
    proof -
      have "\<not> bKillWhenDone v" using that f by (simp add: keeps_session_def)
      then have "current c k v" using ok v(1) that(2) unfolding sess_ok_def by blast
      then show ?thesis using f by (simp add: keeps_session_def)
    qed
  qed
  ultimately show ?thesis using assms by (simp add: on_session_def Some v(1) pool_ok_def)
qed (use assms in \<open>simp add: on_session_def\<close>)

lemma kill_sessions_ok:
  assumes "pool_ok n c s"
  shows "pool_ok n c' (KillHostSessions (s\<lparr> InSetter := l \<rparr>))"
proof -
  let ?s = "KillHostSessions (s\<lparr> InSetter := l \<rparr>)"
  have d: "distinct (map fst (SessionMap s))" and ok: "sess_ok n (InSetter s = []) c (map_of (SessionMap s)) (session_key_of s) (lSessionKeyValue s)"
    using assms by (simp_all add: pool_ok_def)
  have M: "map_of (SessionMap ?s) =
      (\<lambda>k. case map_of (SessionMap s) k of None \<Rightarrow> None | Some v \<Rightarrow> if bInUse v then Some (v\<lparr> bKillWhenDone := True \<rparr>) else None)"
    unfolding KillHostSessions_def using map_of_filter [OF d, of "\<lambda>k v. bInUse v"]
    by (auto simp: map_of_map fun_eq_iff split: option.splits)
  have "sess_ok n (InSetter ?s = []) c' (map_of (SessionMap ?s)) (session_key_of s) (lSessionKeyValue s)"
    unfolding M by (rule ok_kill [OF ok])
  moreover have "map fst (SessionMap ?s) = map fst (filter (\<lambda>(k, v). bInUse v) (SessionMap s))"
    by (simp add: KillHostSessions_def case_prod_beta comp_def)
  moreover have "session_key_of ?s = session_key_of s" "lSessionKeyValue ?s = lSessionKeyValue s" "StateMap ?s = StateMap s"
    by (simp_all add: KillHostSessions_def session_key_of_def state_of_def fun_eq_iff)
  ultimately show ?thesis using assms distinct_filter_keys [OF d] by (simp add: pool_ok_def)
qed

lemma fold_release:
  "map_of (fold (\<lambda>(h, t). release_key ft (st_Session t)) ts m) k =
     (if \<exists>(h, t) \<in> set ts. st_Session t = Some k then Option.bind (map_of m k) (released ft) else map_of m k)"
proof (induction ts arbitrary: m)
  case (Cons e ts)
  have idem: "(\<lambda>y. Option.bind (released ft y) (released ft)) = released ft"
    by (auto simp: released_def fun_eq_iff)
  show ?case by (cases e) (auto simp: Cons.IH map_of_release_key idem)
qed simp

lemma distinct_fold_release:
  "distinct (map fst m) \<Longrightarrow> distinct (map fst (fold (\<lambda>(h, t). release_key ft (st_Session t)) ts m))"
  by (induction ts arbitrary: m) (auto simp: distinct_release_key)

lemma collect_ok:
  assumes "pool_ok n c s"
  shows "pool_ok n c (GarbageCollect ft s)"
proof -
  define m1 where "m1 = filter (\<lambda>(k, v). \<not> (\<not> bInUse v \<and> ft - FT_HOURS1 > ftIdleTime v)) (SessionMap s)"
  define old where "old = filter (\<lambda>(h, t). idle_state (ft - FT_MINUTES2) t) (StateMap s)"
  define R where "R = fst ` set old"
  have d: "distinct (map fst (SessionMap s))" "distinct (map fst (StateMap s))"
    and ok: "sess_ok n (InSetter s = []) c (map_of (SessionMap s)) (session_key_of s) (lSessionKeyValue s)" using assms by (simp_all add: pool_ok_def)
  have m1: "map_of m1 = (\<lambda>k. case map_of (SessionMap s) k of None \<Rightarrow> None
      | Some v \<Rightarrow> if \<not> ft - FT_HOURS1 > ftIdleTime v \<or> bInUse v then Some v else None)"
    unfolding m1_def map_of_filter [OF d(1), of "\<lambda>k v. \<not> (\<not> bInUse v \<and> ft - FT_HOURS1 > ftIdleTime v)"]
    by (auto simp: fun_eq_iff split: option.splits)
  have ok1: "sess_ok n (InSetter s = []) c (map_of m1) (session_key_of s) (lSessionKeyValue s)" unfolding m1 by (rule ok_collect [OF ok])
  have st: "(h, t) \<in> set (StateMap s) \<longleftrightarrow> state_of s h = Some t" for h t
    using d(2) by (auto simp: state_of_def)
  have ex: "(\<exists>(h, t) \<in> set old. st_Session t = Some k) \<longleftrightarrow> (\<exists>h \<in> R. session_key_of s h = Some k)" for k
    using st by (force simp: R_def old_def session_key_of_def split: option.splits)
  have M: "map_of (SessionMap (GarbageCollect ft s)) = release_all ft R (session_key_of s) (map_of m1)"
    unfolding GarbageCollect_def Let_def m1_def [symmetric] old_def [symmetric] by (rule ext) (simp add: fold_release ex release_all_def)
  have H: "session_key_of (GarbageCollect ft s) = (\<lambda>h. if h \<in> R then None else session_key_of s h)"
  proof
    fix h
    have s1: "state_of (GarbageCollect ft s) h = (case state_of s h of None \<Rightarrow> None
        | Some t \<Rightarrow> if \<not> idle_state (ft - FT_MINUTES2) t then Some t else None)"
      unfolding state_of_def GarbageCollect_def Let_def
      using map_of_filter [OF d(2), of "\<lambda>h t. \<not> idle_state (ft - FT_MINUTES2) t"] by (simp add: case_prod_beta)
    have "h \<in> R \<longleftrightarrow> (\<exists>t. state_of s h = Some t \<and> idle_state (ft - FT_MINUTES2) t)" using st by (force simp: R_def old_def)
    then show "session_key_of (GarbageCollect ft s) h = (if h \<in> R then None else session_key_of s h)"
      using s1 by (auto simp: session_key_of_def split: option.splits if_splits)
  qed
  have "distinct (map fst (SessionMap (GarbageCollect ft s)))" "distinct (map fst (StateMap (GarbageCollect ft s)))"
    using d by (simp_all add: GarbageCollect_def Let_def distinct_fold_release distinct_filter_keys)
  moreover have "sess_ok n (InSetter s = []) c (map_of (SessionMap (GarbageCollect ft s))) (session_key_of (GarbageCollect ft s)) (lSessionKeyValue s)"
    unfolding M H by (rule ok_release [OF ok1])
  moreover have "lSessionKeyValue (GarbageCollect ft s) = lSessionKeyValue s" by (simp add: GarbageCollect_def Let_def)
  moreover have "InSetter (GarbageCollect ft s) = InSetter s" by (simp add: GarbageCollect_def Let_def)
  ultimately show ?thesis by (simp add: pool_ok_def)
qed

lemma ref_ok:
  assumes "pool_ok n c s"
  shows "pool_ok n c (GetStateBuf ft h s)" "pool_ok n c (DropStateRef ft h s)"
proof -
  have key: "session_key_of (change_state h f s) = session_key_of s" if "\<And>t. st_Session (f t) = st_Session t" for f
    by (rule session_key_of_change) (rule that)
  show "pool_ok n c (DropStateRef ft h s)" using assms by (simp add: pool_ok_def DropStateRef_def key)
  show "pool_ok n c (GetStateBuf ft h s)"
  proof (cases "state_of s h")
    case None
    let ?s = "s\<lparr> StateMap := (h, \<lparr> ulReferenceCount = 1, ftLastUsed = 0, st_Session = None \<rparr>) # StateMap s \<rparr>"
    have "session_key_of ?s = session_key_of s" using None by (auto simp: fun_eq_iff session_key_of_def state_of_def)
    moreover have "h \<notin> fst ` set (StateMap s)" using None by (simp add: state_of_def map_of_eq_None_iff)
    ultimately have "pool_ok n c ?s" using assms by (simp add: pool_ok_def)
    then show ?thesis using collect_ok None by (simp add: GetStateBuf_def Let_def)
  next
    case (Some t)
    then show ?thesis using assms by (simp add: GetStateBuf_def pool_ok_def key)
  qed
qed

lemma pool_ok_mono: "pool_ok n c s \<Longrightarrow> n \<le> m \<Longrightarrow> pool_ok m c s"
  by (auto simp: pool_ok_def intro: ok_mono)

lemma pool_ok_conf: "pool_ok n c s \<Longrightarrow> current c = current c' \<Longrightarrow> pool_ok n c' s"
  by (auto simp: pool_ok_def intro: ok_conf)

lemma current_other:
  "\<not> kills w \<Longrightarrow> current (write_conf w c) = current c"
  by (cases w) (simp_all add: kills_def current_def conf_access_def fun_eq_iff)

lemma setter_ok:
  assumes ok: "pool_ok n c s"
  shows "case do_setter t st (c, s) of (c', s') \<Rightarrow> pool_ok n c' s'"
proof (cases st)
  case CallKill
  then show ?thesis using kill_sessions_ok [OF ok] by (simp add: do_setter_def)
next
  case (Write w)
  have "session_key_of (s\<lparr> InSetter := t # InSetter s \<rparr>) = session_key_of s"
    by (simp add: session_key_of_def state_of_def fun_eq_iff)
  then have s: "pool_ok n c' (s\<lparr> InSetter := t # InSetter s \<rparr>)" for c'
    using ok ok_busy [of n _ c _ _ _ c'] by (auto simp: pool_ok_def)
  show ?thesis using s pool_ok_conf [OF ok, of "write_conf w c"] current_other [of w c]
    by (simp add: do_setter_def Write)
qed

lemma pool_step_ok:
  assumes ok: "pool_ok n c s" and n: "n < 2 ^ 31"
  shows "case pool_step op (c, s) of (c', s') \<Rightarrow> pool_ok (Suc n) c' s'"
proof -
  note m = pool_ok_mono [OF _ le_SucI [OF le_refl]]
  have S: "case do_setter t st (c, s) of (c', s') \<Rightarrow> pool_ok (Suc n) c' s'" for t st
    using setter_ok [OF ok, of t st] by (auto intro: m)
  have al: "referenced h s \<Longrightarrow> pool_ok (Suc n) c (AllocSession ft h host ip s)" for ft h host ip
    using alloc_ok [OF ok _ n] by (auto simp: referenced_def split: option.splits)
  have fl: "pool_ok (Suc n) c (case FailSession h s of None \<Rightarrow> s | Some s' \<Rightarrow> s')" for h
    using m [OF fail_ok [OF ok]] m [OF ok] by (auto split: option.splits)
  note o = m [OF ref_ok(1) [OF ok]] m [OF ref_ok(2) [OF ok]] m [OF conjunct1 [OF release_ok [OF ok]]] fl
    m [OF collect_ok [OF ok]] m [OF on_session_ok [OF ok keeps_open]] m [OF on_session_ok [OF ok keeps_connect]] m [OF ok] al S
  show ?thesis using o by (cases op) (simp_all add: pool_step_def)
qed

lemma run_ok:
  "pool_ok n c s \<Longrightarrow> n + length ops \<le> 2 ^ 31 \<Longrightarrow> case fold pool_step ops (c, s) of (c', s') \<Rightarrow> pool_ok (n + length ops) c' s'"
proof (induction ops arbitrary: n c s)
  case (Cons op ops)
  obtain c1 s1 where 1: "pool_step op (c, s) = (c1, s1)" by fastforce
  have "pool_ok (Suc n) c1 s1" using pool_step_ok [OF Cons.prems(1), of op] Cons.prems(2) 1 by simp
  then show ?case using Cons.IH [of "Suc n" c1 s1] Cons.prems(2) 1 by simp
qed simp

lemma run_pool_ok:
  assumes "length ops \<le> 2 ^ 31" "run_pool ops c0 = (c, s)"
  shows "pool_ok (length ops) c s"
proof -
  have "pool_ok 0 c0 empty_pool"
    by (simp add: pool_ok_def sess_ok_def empty_pool_def session_key_of_def state_of_def)
  then show ?thesis using run_ok [of 0 c0 empty_pool ops] assms by (simp add: run_pool_def)
qed

lemma alloc_gives:
  assumes "pool_ok n c s0" "state_of s0 h \<noteq> None" "n < 2 ^ 31"
  shows "\<exists>k v. session_key_of (AllocSession ft h host ip s0) h = Some k \<and> sk_sIP k = ip \<and> sHostEntry k = host
    \<and> map_of (SessionMap (AllocSession ft h host ip s0)) k = Some v \<and> \<not> bKillWhenDone v"
proof -
  define s where "s = ReleaseSession ft h s0"
  have s: "pool_ok n c s" "session_key_of s h = None" "state_of s h \<noteq> None" using release_ok [OF assms(1)] assms(2) by (simp_all add: s_def)
  have d: "distinct (map fst (SessionMap s))" and ok: "sess_ok n (InSetter s = []) c (map_of (SessionMap s)) (session_key_of s) (lSessionKeyValue s)"
    using s(1) by (simp_all add: pool_ok_def)
  show ?thesis
  proof (cases "first_free host ip (SessionMap s)")
    case (Some k)
    obtain v where v: "map_of (SessionMap s) k = Some v" "\<not> bInUse v" "sk_sIP k = ip" "sHostEntry k = host"
      using first_free_Some [OF Some d] by blast
    then have "\<not> bKillWhenDone v" using ok unfolding sess_ok_def by blast
    then show ?thesis using v s(3) by (auto simp: AllocSession_def s_def [symmetric] Some session_key_of_set)
  next
    case None
    let ?n = "if lSessionKeyValue s + 1 = 0 then lSessionKeyValue s + 1 + 1 else lSessionKeyValue s + 1"
    have u: "unat (lSessionKeyValue s) \<le> n" using ok by (simp add: sess_ok_def)
    then have "unat (lSessionKeyValue s + 1) = Suc (unat (lSessionKeyValue s))"
      using assms(3) by (simp add: unat_plus_simple unat_word_ariths take_bit_nat_eq_self)
    then have n: "?n = lSessionKeyValue s + 1" "unat (lSessionKeyValue s + 1) = Suc (unat (lSessionKeyValue s))" by auto
    define k where "k = \<lparr> sHostEntry = host, sk_sIP = ip, lKey = lSessionKeyValue s + 1 \<rparr>"
    have "map_of (SessionMap s) k = None"
      using ok n(2) unfolding sess_ok_def by (metis Suc_n_not_le_n k_def not_None_eq session_key.select_convs(3))
    then have "k \<notin> fst ` set (SessionMap s)" by (simp add: map_of_eq_None_iff)
    then have "map_of (map_insert (k, new_session ft) (SessionMap s)) k = Some (new_session ft)"
      using map_insert_fresh [of "(k, new_session ft)" "SessionMap s"] by simp
    moreover have "AllocSession ft h host ip s0 = set_session h (Some k) (s\<lparr> lSessionKeyValue := lSessionKeyValue s + 1,
        SessionMap := map_change k (\<lambda>v. v\<lparr> bInUse := True \<rparr>) (map_insert (k, new_session ft) (SessionMap s)) \<rparr>)"
      unfolding AllocSession_def s_def [symmetric] None option.case Let_def n(1) k_def by (rule refl)
    ultimately show ?thesis using s(3)
      by (intro exI [of _ k] exI [of _ "(new_session ft)\<lparr> bInUse := True \<rparr>"]) (simp add: session_key_of_set, simp add: k_def new_session_def)
  qed
qed

lemma open_session_opens:
  assumes "fst (open_session oa c ip v) = 0" "oa_Open oa \<noteq> Some 0" "oa_Option oa \<noteq> Some 0" "oa_Connect oa \<noteq> Some 0"
  shows "hSession (snd (open_session oa c ip v)) \<noteq> None \<and> hConnect (snd (open_session oa c ip v)) \<noteq> None"
  using assms by (auto simp: open_session_def open_handle_def connect_handle_def sv_CloseAll_def Let_def split: option.splits if_splits)

lemma init_session_current:
  assumes "pool_ok n c s" "referenced h s" "n < 2 ^ 31" "InitSession oa ft c h ip s = (0, s')"
    and calm: "InSetter s = []"
    and oa: "oa_Open oa \<noteq> Some 0" "oa_Option oa \<noteq> Some 0" "oa_Connect oa \<noteq> Some 0"
  shows "\<exists>k v so. session_key_of s' h = Some k \<and> map_of (SessionMap s') k = Some v \<and> hConnect v = Some (ip, cf_Port c)
    \<and> hSession v = Some so \<and> so_Access so = conf_access c"
proof -
  define s1 where "s1 = AllocSession ft h (cf_sHost c) ip s"
  have st: "state_of s h \<noteq> None" using assms(2) by (auto simp: referenced_def split: option.splits)
  have p: "pool_ok (Suc n) c s1" unfolding s1_def by (rule alloc_ok [OF assms(1) st assms(3)])
  have calm1: "InSetter s1 = []" using calm release_ok [OF assms(1), of ft h]
    by (simp add: s1_def AllocSession_def Let_def split: option.split)
  obtain k v where k: "session_key_of s1 h = Some k" "sk_sIP k = ip" "map_of (SessionMap s1) k = Some v" "\<not> bKillWhenDone v"
    using alloc_gives [OF assms(1) st assms(3)] unfolding s1_def by blast
  have cur: "current c k v" using p k(3,4) calm1 unfolding pool_ok_def sess_ok_def by blast
  let ?v = "snd (open_session oa c ip v)"
  have r: "fst (open_session oa c ip v) = 0" "s' = s1\<lparr> SessionMap := map_change k (\<lambda>_. ?v) (SessionMap s1) \<rparr>"
    using assms(4) k by (simp_all add: InitSession_def s1_def [symmetric] OpenSession_def on_session_def)
  have "current c k ?v" using keeps_open_session [of c oa] cur k(2) by (auto simp: keeps_session_def)
  then show ?thesis using open_session_opens [OF r(1) oa] k(1-3) r(2) by (auto simp: current_def)
qed

section \<open>Properties\<close>

text \<open>C14: Over any run of at most 2^31 operations of any threads, two threads never hold the same
  session; a session that is held is in the map and marked as in use; a session marked as in use is
  held by a thread, so none is lost, also when idle states are collected; and no free session is
  marked to be killed.\<close>

theorem sessions_exclusive:
  assumes "length ops \<le> 2 ^ 31" "run_pool ops c0 = (c, s)"
  shows "(\<forall>h k. session_key_of s h = Some k \<longrightarrow> (\<exists>v. map_of (SessionMap s) k = Some v \<and> bInUse v))
    \<and> (\<forall>h h' k. session_key_of s h = Some k \<longrightarrow> session_key_of s h' = Some k \<longrightarrow> h = h')
    \<and> (\<forall>k v. map_of (SessionMap s) k = Some v \<longrightarrow> bInUse v \<longrightarrow> (\<exists>h. session_key_of s h = Some k))
    \<and> (\<forall>k v. map_of (SessionMap s) k = Some v \<longrightarrow> \<not> bInUse v \<longrightarrow> \<not> bKillWhenDone v)"
  using run_pool_ok [OF assms] unfolding pool_ok_def sess_ok_def by blast

definition demo_conf :: conn_conf where
  "demo_conf = \<lparr> cf_sSecret = [], cf_sUser = [], cf_sHost = ''h'', cf_sUserAgent = [], bSSL = False, cf_Port = 80, sProxy = [], dwProxyPort = 0,
     sProxyUser = [], sProxyPassword = [], bUseDefaultProxy = True, dwHttpsProtocol = 0, dwGlobalHttpsProtocol = 0 \<rparr>"

definition demo_answers :: open_answers where
  "demo_answers = \<lparr> oa_Open = None, oa_Option = None, oa_Connect = None \<rparr>"

definition demo_pool_ops :: "pool_op list" where
  "demo_pool_ops = [OpRef 1 1, OpRef 1 2, OpAlloc 1 1 ''h'' ''ip'', OpOpen demo_answers 1, OpConnect demo_answers 1,
     OpAlloc 1 2 ''h'' ''ip'', OpSetter 3 (Write (WPort 9020)), OpSetter 3 CallKill, OpRelease 2 1, OpAlloc 3 1 ''h'' ''ip'']"

theorem sessions_exclusive_witness:
  "\<not> (\<exists>k. session_key_of (snd (run_pool demo_pool_ops demo_conf)) 1 = Some k \<and> session_key_of (snd (run_pool demo_pool_ops demo_conf)) 2 = Some k)"
proof -
  have l: "length demo_pool_ops \<le> 2 ^ 31" by (simp add: demo_pool_ops_def)
  obtain c s where cs: "run_pool demo_pool_ops demo_conf = (c, s)" by fastforce
  show ?thesis using sessions_exclusive [OF l cs] unfolding cs snd_conv by (metis one_eq_numeral_iff semiring_norm(85))
qed

text \<open>C15: Sessions of old settings are not used again. In every state that any steps of threads
  and of setters of one connection lead to, the parts of their calls in any order, and in which no setter
  is between its writes and its call of KillHostSessions: every session in the map, free or held, that is not
  marked to be erased when it is given back is connected, if at all, to its address at the port of now and was opened with the
  proxy of now; and when InitSession succeeds from there, so is the session of the thread, to the address asked
  for. (The setters have no lock: between the write of a setting and
  KillHostSessions a thread still gets a free session of the old one, \<open>setter_race_old_session\<close>.)\<close>

theorem session_has_current_settings:
  assumes "length ops < 2 ^ 31" "run_pool ops c0 = (c, s)" "InSetter s = []"
    and "referenced h s" "InitSession oa ft c h ip s = (0, s')"
    and "oa_Open oa \<noteq> Some 0" "oa_Option oa \<noteq> Some 0" "oa_Connect oa \<noteq> Some 0"
  shows "(\<forall>k v. map_of (SessionMap s) k = Some v \<longrightarrow> \<not> bKillWhenDone v \<longrightarrow>
        (hConnect v = None \<or> hConnect v = Some (sk_sIP k, cf_Port c)) \<and> (\<forall>so. hSession v = Some so \<longrightarrow> so_Access so = conf_access c))
    \<and> (\<exists>k v so. session_key_of s' h = Some k \<and> map_of (SessionMap s') k = Some v \<and> hConnect v = Some (ip, cf_Port c)
        \<and> hSession v = Some so \<and> so_Access so = conf_access c)"
proof
  have ok: "pool_ok (length ops) c s" using run_pool_ok [OF _ assms(2)] assms(1) by simp
  then show "\<forall>k v. map_of (SessionMap s) k = Some v \<longrightarrow> \<not> bKillWhenDone v \<longrightarrow>
      (hConnect v = None \<or> hConnect v = Some (sk_sIP k, cf_Port c)) \<and> (\<forall>so. hSession v = Some so \<longrightarrow> so_Access so = conf_access c)"
    using assms(3) unfolding pool_ok_def sess_ok_def current_def by blast
  show "\<exists>k v so. session_key_of s' h = Some k \<and> map_of (SessionMap s') k = Some v \<and> hConnect v = Some (ip, cf_Port c)
      \<and> hSession v = Some so \<and> so_Access so = conf_access c"
    by (rule init_session_current [OF ok assms(4,1,5,3,6-8)])
qed

definition demo_pool :: pool where
  "demo_pool = \<lparr> SessionMap = [], lSessionKeyValue = 0, StateMap = [(1, \<lparr> ulReferenceCount = 1, ftLastUsed = 0, st_Session = None \<rparr>)], InSetter = [] \<rparr>"

theorem session_has_current_settings_witness:
  "\<exists>k v so. session_key_of (snd (InitSession demo_answers 5 demo_conf 1 ''ip'' demo_pool)) 1 = Some k
    \<and> map_of (SessionMap (snd (InitSession demo_answers 5 demo_conf 1 ''ip'' demo_pool))) k = Some v
    \<and> hConnect v = Some (''ip'', 80) \<and> hSession v = Some so \<and> so_Access so = DefaultProxy"
proof -
  have r: "run_pool [OpRef 1 1] demo_conf = (demo_conf, demo_pool)"
    by (simp add: run_pool_def pool_step_def GetStateBuf_def state_of_def empty_pool_def demo_pool_def Let_def)
  have f: "referenced 1 demo_pool" by (simp add: referenced_def state_of_def demo_pool_def)
  have a: "oa_Open demo_answers \<noteq> Some 0" "oa_Option demo_answers \<noteq> Some 0" "oa_Connect demo_answers \<noteq> Some 0"
    by (simp_all add: demo_answers_def)
  obtain e s' where i: "InitSession demo_answers 5 demo_conf 1 ''ip'' demo_pool = (e, s')" by fastforce
  have "fst (open_session demo_answers c x v) = 0" for c x v
    by (auto simp: open_session_def open_handle_def connect_handle_def demo_answers_def Let_def split: option.splits)
  then have "fst (OpenSession demo_answers c x p) = 0" for c x p
    by (auto simp: OpenSession_def on_session_def split: option.splits)
  then have "e = 0" using i unfolding InitSession_def by (metis fst_conv)
  then have "\<exists>k v so. session_key_of s' 1 = Some k \<and> map_of (SessionMap s') k = Some v \<and> hConnect v = Some (''ip'', cf_Port demo_conf)
      \<and> hSession v = Some so \<and> so_Access so = conf_access demo_conf"
    using i by (intro conjunct2 [OF session_has_current_settings [OF _ r _ f _ a]]) (simp_all add: demo_pool_def)
  then show ?thesis unfolding i snd_conv by (simp add: demo_conf_def conf_access_def)
qed

text \<open>Between the write of the port and KillHostSessions another thread gets the free session, which is
  connected to the old port.\<close>

lemma setter_race_old_session:
  "\<exists>ops c s k v. run_pool ops demo_conf = (c, s) \<and> cf_Port c = 9020 \<and> InSetter s = [2] \<and> fst (InitSession demo_answers 5 c 1 ''ip'' s) = 0
    \<and> session_key_of (snd (InitSession demo_answers 5 c 1 ''ip'' s)) 1 = Some k
    \<and> map_of (SessionMap (snd (InitSession demo_answers 5 c 1 ''ip'' s))) k = Some v \<and> hConnect v = Some (''ip'', 80)"
proof -
  define k where "k = \<lparr> sHostEntry = ''h'', sk_sIP = ''ip'', lKey = 1 \<rparr>"
  define v where "v = \<lparr> bInUse = True, bKillWhenDone = False,
    hSession = Some \<lparr> so_Agent = ''Test/1.0'', so_Access = DefaultProxy, so_Protocol = 0 \<rparr>, hConnect = Some (''ip'', 80), ftIdleTime = 4 \<rparr>"
  define ops where "ops = [OpRef 1 1, OpAlloc 1 1 ''h'' ''ip'', OpOpen demo_answers 1, OpConnect demo_answers 1, OpRelease 4 1,
    OpSetter 2 (Write (WPort 9020))]"
  define s where "s = \<lparr> SessionMap = [(k, v\<lparr> bInUse := False \<rparr>)], lSessionKeyValue = 1,
    StateMap = [(1, \<lparr> ulReferenceCount = 1, ftLastUsed = 0, st_Session = None \<rparr>)], InSetter = [2] \<rparr>"
  note defs = run_pool_def pool_step_def Let_def GetStateBuf_def state_of_def empty_pool_def referenced_def AllocSession_def
    ReleaseSession_def session_key_of_def release_key_def set_session_def change_state_def first_free_def map_change_def
    new_session_def on_session_def open_handle_def connect_handle_def sv_CloseAll_def demo_answers_def demo_conf_def conf_access_def
    do_setter_def kills_def OpenSession_def open_session_def InitSession_def
  have r: "run_pool ops demo_conf = (demo_conf\<lparr> cf_Port := 9020 \<rparr>, s)"
    by (simp add: ops_def s_def k_def v_def defs)
  have i: "InitSession demo_answers 5 (demo_conf\<lparr> cf_Port := 9020 \<rparr>) 1 ''ip'' s
      = (0, s\<lparr> SessionMap := [(k, v)], StateMap := [(1, \<lparr> ulReferenceCount = 1, ftLastUsed = 0, st_Session = Some k \<rparr>)] \<rparr>)"
    by (simp add: s_def k_def v_def defs session_less_def)
  show ?thesis
  proof (intro exI conjI)
    show "run_pool ops demo_conf = (demo_conf\<lparr> cf_Port := 9020 \<rparr>, s)" by (rule r)
    show "hConnect v = Some (''ip'', 80)" by (simp add: v_def)
    show "session_key_of (snd (InitSession demo_answers 5 (demo_conf\<lparr> cf_Port := 9020 \<rparr>) 1 ''ip'' s)) 1 = Some k"
      unfolding i by (simp add: session_key_of_def state_of_def)
    show "map_of (SessionMap (snd (InitSession demo_answers 5 (demo_conf\<lparr> cf_Port := 9020 \<rparr>) 1 ''ip'' s))) k = Some v"
      unfolding i by simp
    show "fst (InitSession demo_answers 5 (demo_conf\<lparr> cf_Port := 9020 \<rparr>) 1 ''ip'' s) = 0" unfolding i by simp
  qed (simp_all add: s_def)
qed

end
