(* ===== verification/Throttle.thy ===== *)
theory Throttle
  imports Prelude "HOL-Library.AList" "HOL-Library.Signed_Division"
begin

text \<open>
  The throttle of hosts (ECSConnection.h, THROTTLE_INFO, THROTTLE_REC, CThrottleTimerThread;
  ECSConnection.cpp, CThrottleTimerThread::DoWork, SetThrottle, TerminateThrottle, IfThrottle and
  the waits in the send and receive loops of SendRequestInternal). The map is an association list,
  whose order has no effect; an \<open>int\<close> is a 32 bit word read by \<open>sint\<close>. The critical section of the
  map makes each operation atomic. The start of the timer thread may fail.
\<close>

section \<open>State\<close>

record THROTTLE_INFO =
  iBytesSec :: "32 word"
  iBytesCurInterval :: "32 word"

record THROTTLE_REC =
  Upload :: THROTTLE_INFO
  Download :: THROTTLE_INFO

text \<open>A connection with the throttle events of its threads: signalled or not.\<close>

record throttle_conn =
  tc_Host :: string
  tc_evThrottle :: "(DWORD \<times> bool) list"

record throttle_state =
  ThrottleMap :: "(string \<times> THROTTLE_REC) list"
  ECSConnectionList :: "throttle_conn list"
  bTimerThread :: bool
  ftLast :: FILETIME

datatype direction = ToServer | FromServer

definition info_of :: "direction \<Rightarrow> THROTTLE_REC \<Rightarrow> THROTTLE_INFO" where
  "info_of d r = (case d of ToServer \<Rightarrow> Upload r | FromServer \<Rightarrow> Download r)"

definition info_upd :: "direction \<Rightarrow> (THROTTLE_INFO \<Rightarrow> THROTTLE_INFO) \<Rightarrow> THROTTLE_REC \<Rightarrow> THROTTLE_REC" where
  "info_upd d f r = (case d of ToServer \<Rightarrow> r\<lparr> Upload := f (Upload r) \<rparr> | FromServer \<Rightarrow> r\<lparr> Download := f (Download r) \<rparr>)"

section \<open>The timer thread\<close>

definition FT_SECOND :: ULONGLONG where "FT_SECOND = 10000000"

text \<open>The rate is converted to 64 bits, the quotient to \<open>int\<close>.\<close>

definition interval_bytes :: "32 word \<Rightarrow> ULONGLONG \<Rightarrow> 32 word" where
  "interval_bytes iRate LastTime = ucast ((scast iRate * LastTime) div FT_SECOND)"

definition refill :: "ULONGLONG \<Rightarrow> THROTTLE_INFO \<Rightarrow> THROTTLE_INFO" where
  "refill LastTime i =
     (if iBytesSec i \<noteq> 0 then
        let b = interval_bytes (iBytesSec i) LastTime; c = iBytesCurInterval i + b in
        i\<lparr> iBytesCurInterval := if sint c > sint b then b else c \<rparr>
      else i\<lparr> iBytesCurInterval := 0 \<rparr>)"

definition last_time :: "FILETIME \<Rightarrow> throttle_state \<Rightarrow> ULONGLONG" where
  "last_time ftNow s = (if ftLast s = 0 then FT_SECOND else ftNow - ftLast s)"

definition signal_conn :: "(string \<times> THROTTLE_REC) list \<Rightarrow> throttle_conn \<Rightarrow> throttle_conn" where
  "signal_conn m c = (if tc_Host c \<in> fst ` set m then c\<lparr> tc_evThrottle := map (\<lambda>(k, _). (k, True)) (tc_evThrottle c) \<rparr> else c)"

definition CThrottleTimerThread_DoWork :: "DWORD \<Rightarrow> FILETIME \<Rightarrow> throttle_state \<Rightarrow> throttle_state" where
  "CThrottleTimerThread_DoWork dwEventRet ftNow s =
     (if dwEventRet \<noteq> WAIT_TIMEOUT then s
      else s\<lparr> ftLast := ftNow,
        ThrottleMap := map (\<lambda>(k, r). (k, \<lparr> Upload = refill (last_time ftNow s) (Upload r),
                                           Download = refill (last_time ftNow s) (Download r) \<rparr>)) (ThrottleMap s),
        ECSConnectionList := map (signal_conn (ThrottleMap s)) (ECSConnectionList s) \<rparr>)"

section \<open>Settings\<close>

definition full_rate :: "32 word \<Rightarrow> THROTTLE_INFO" where
  "full_rate iRate = \<lparr> iBytesSec = iRate, iBytesCurInterval = iRate \<rparr>"

text \<open>\<open>bCreated\<close>: whether a thread can be started; \<open>InitInstance\<close> clears its time. The second result:
  the timer thread is to be stopped, after the lock has been given back.\<close>

definition SetThrottle_locked :: "bool \<Rightarrow> string \<Rightarrow> 32 word \<Rightarrow> 32 word \<Rightarrow> throttle_state \<Rightarrow> throttle_state \<times> bool" where
  "SetThrottle_locked bCreated pszHost iUploadThrottleRate iDownloadThrottleRate s =
     (if iUploadThrottleRate = 0 \<and> iDownloadThrottleRate = 0 then
        let m = AList.delete pszHost (ThrottleMap s) in (s\<lparr> ThrottleMap := m \<rparr>, m = [])
      else
        let s1 = s\<lparr> ThrottleMap := AList.update pszHost
                     \<lparr> Upload = full_rate iUploadThrottleRate, Download = full_rate iDownloadThrottleRate \<rparr> (ThrottleMap s) \<rparr> in
        (if bTimerThread s1 \<or> \<not> bCreated then s1 else s1\<lparr> bTimerThread := True, ftLast := 0 \<rparr>, False))"

definition KillTimer :: "throttle_state \<Rightarrow> throttle_state" where
  "KillTimer s = s\<lparr> bTimerThread := False \<rparr>"

definition SetThrottle :: "bool \<Rightarrow> string \<Rightarrow> 32 word \<Rightarrow> 32 word \<Rightarrow> throttle_state \<Rightarrow> throttle_state" where
  "SetThrottle bCreated pszHost iUploadThrottleRate iDownloadThrottleRate s =
     (case SetThrottle_locked bCreated pszHost iUploadThrottleRate iDownloadThrottleRate s of
        (s1, bKill) \<Rightarrow> if bKill then KillTimer s1 else s1)"

definition TerminateThrottle :: "throttle_state \<Rightarrow> throttle_state" where
  "TerminateThrottle s = (KillTimer s)\<lparr> ThrottleMap := [] \<rparr>"

text \<open>The results: download, upload.\<close>

definition IfThrottle :: "string \<Rightarrow> throttle_state \<Rightarrow> bool \<times> bool" where
  "IfThrottle sHost s =
     (case map_of (ThrottleMap s) sHost of
        None \<Rightarrow> (False, False)
      | Some r \<Rightarrow> (iBytesSec (Download r) \<noteq> 0, iBytesSec (Upload r) \<noteq> 0))"

section \<open>The waits of the transfer loops\<close>

definition charge :: "direction \<Rightarrow> string \<Rightarrow> DWORD \<Rightarrow> throttle_state \<Rightarrow> throttle_state" where
  "charge d sHost dwBytes s =
     (case map_of (ThrottleMap s) sHost of
        None \<Rightarrow> s
      | Some r \<Rightarrow>
          if iBytesSec (info_of d r) \<noteq> 0
          then s\<lparr> ThrottleMap := AList.update sHost
                    (info_upd d (\<lambda>i. i\<lparr> iBytesCurInterval := iBytesCurInterval i - dwBytes \<rparr>) r) (ThrottleMap s) \<rparr>
          else s)"






section \<open>Threads that transfer\<close>








section \<open>Settings are kept\<close>

definition throttle_rates :: "throttle_state \<Rightarrow> string \<Rightarrow> (32 word \<times> 32 word) option" where
  "throttle_rates s h = map_option (\<lambda>r. (iBytesSec (Upload r), iBytesSec (Download r))) (map_of (ThrottleMap s) h)"

lemma map_of_update [simp]: "map_of (AList.update k v m) = (map_of m)(k \<mapsto> v)"
  by (rule update_conv')

lemma map_of_delete [simp]: "map_of (AList.delete k m) = (map_of m)(k := None)"
  by (rule delete_conv')

lemma refill_rate [simp]: "iBytesSec (refill T i) = iBytesSec i"
  by (simp add: refill_def Let_def)

lemma map_of_tick:
  "map_of (ThrottleMap (CThrottleTimerThread_DoWork WAIT_TIMEOUT now s)) h =
     map_option (\<lambda>r. \<lparr> Upload = refill (last_time now s) (Upload r), Download = refill (last_time now s) (Download r) \<rparr>)
       (map_of (ThrottleMap s) h)"
  by (simp add: CThrottleTimerThread_DoWork_def map_of_map)

lemma info_upd_same [simp]: "info_of d (info_upd d f r) = f (info_of d r)"
  by (cases d) (simp_all add: info_of_def info_upd_def)

lemma info_of_refill [simp]:
  "info_of d \<lparr> Upload = refill T (Upload r), Download = refill T (Download r) \<rparr> = refill T (info_of d r)"
  by (cases d) (simp_all add: info_of_def)

lemma SetThrottle_rates:
  "throttle_rates (SetThrottle ok h up down s) = (throttle_rates s)(h := if up = 0 \<and> down = 0 then None else Some (up, down))"
proof -
  have "map_of (ThrottleMap s) x = None" if "AList.delete h (ThrottleMap s) = []" "x \<noteq> h" for x
    using that map_of_delete [of h "ThrottleMap s"] by (metis fun_upd_other map_of.simps(1))
  then show ?thesis
    by (auto simp: throttle_rates_def SetThrottle_def SetThrottle_locked_def KillTimer_def full_rate_def Let_def fun_eq_iff)
qed

lemma charge_rates [simp]: "throttle_rates (charge d h n s) = throttle_rates s"
  by (cases d) (auto simp: throttle_rates_def charge_def info_upd_def info_of_def fun_eq_iff split: option.splits)

lemma tick_rates [simp]: "throttle_rates (CThrottleTimerThread_DoWork r now s) = throttle_rates s"
proof (cases "r = WAIT_TIMEOUT")
  case True
  then show ?thesis unfolding throttle_rates_def True map_of_tick by (simp add: option.map_comp comp_def fun_eq_iff)
qed (simp add: CThrottleTimerThread_DoWork_def)

lemma IfThrottle_rates:
  "IfThrottle h s = (case throttle_rates s h of None \<Rightarrow> (False, False) | Some (up, down) \<Rightarrow> (down \<noteq> 0, up \<noteq> 0))"
  by (simp add: IfThrottle_def throttle_rates_def split: option.splits)

text \<open>While settings do not overlap, a host with a rate has a timer.\<close>

definition timer_runs :: "throttle_state \<Rightarrow> bool" where
  "timer_runs s \<longleftrightarrow> ThrottleMap s = [] \<or> bTimerThread s"

lemma SetThrottle_timer: "timer_runs s \<Longrightarrow> timer_runs (SetThrottle True h up down s)"
  by (auto simp: timer_runs_def SetThrottle_def SetThrottle_locked_def KillTimer_def Let_def)

lemma TerminateThrottle_timer: "timer_runs (TerminateThrottle s)"
  by (simp add: timer_runs_def TerminateThrottle_def)

text \<open>When another setting comes between the removal of the last host and the end of the timer, it
  is left without one.\<close>

lemma SetThrottle_overlap:
  assumes "ThrottleMap s = [(a, r)]" "bTimerThread s" "up \<noteq> 0"
  shows "\<exists>s1 s2. SetThrottle_locked True a 0 0 s = (s1, True) \<and> SetThrottle_locked True b up down s1 = (s2, False)
      \<and> \<not> timer_runs (KillTimer s2)"
  using assms by (auto simp: SetThrottle_locked_def timer_runs_def KillTimer_def Let_def)

section \<open>The arithmetic of the refill\<close>







section \<open>Transfers stay within the rate\<close>



lemma ftLast_tick [simp]: "ftLast (CThrottleTimerThread_DoWork WAIT_TIMEOUT now s) = now"
  by (simp add: CThrottleTimerThread_DoWork_def)

lemma ftLast_charge [simp]: "ftLast (charge d h n s) = ftLast s"
  by (simp add: charge_def split: option.splits)











section \<open>Waits end\<close>





text \<open>A rate of a gibibyte a second and a timer that is a second late: what it gives does not fit an
  \<open>int\<close>, and the full interval becomes the largest debt.\<close>

lemma refill_late: "sint (iBytesCurInterval (refill 20000000 (full_rate 0x40000000))) = - (2 ^ 31)"
  by (simp add: refill_def full_rate_def interval_bytes_def FT_SECOND_def Let_def)



section \<open>Properties\<close>






end
