(* ===== verification/Callbacks.thy ===== *)
theory Callbacks
  imports Prelude
begin

text \<open>
  Asynchronous WinHTTP commands (ECSConnection.h, HTTP_CALLBACK_CONTEXT; ECSConnection.cpp,
  HttpStatusCallback, PrepareCmd, CleanupCmd, WaitComplete, WaitStreamSend, WaitForCallbackDone). The
  callbacks run on threads of WinHTTP: an environment says which of them arrive during each wait
  and whether the wait itself fails. The event of a command stays set until the next one.
\<close>

section \<open>The context of a command\<close>

text \<open>The statuses of winhttp.h, with what comes with them; the information of a secure failure may
  be unusable.\<close>

datatype http_callback =
    SecureFailure "DWORD option" | DataAvailable DWORD | HeadersAvailable | ReadComplete DWORD
  | SendRequestComplete | WriteComplete DWORD | RequestError DWORD DWORD
  | HandleCreated | HandleClosing | OtherCallback DWORD

definition CB_HANDLE_CLOSING :: DWORD where "CB_HANDLE_CLOSING = 0x800"

definition callback_status :: "http_callback \<Rightarrow> DWORD" where
  "callback_status cb =
     (case cb of
        HandleCreated \<Rightarrow> 0x400 | HandleClosing \<Rightarrow> CB_HANDLE_CLOSING | SecureFailure _ \<Rightarrow> 0x10000
      | HeadersAvailable \<Rightarrow> 0x20000 | DataAvailable _ \<Rightarrow> 0x40000 | ReadComplete _ \<Rightarrow> 0x80000
      | WriteComplete _ \<Rightarrow> 0x100000 | RequestError _ _ \<Rightarrow> 0x200000 | SendRequestComplete \<Rightarrow> 0x400000
      | OtherCallback n \<Rightarrow> n)"

record callback_context =
  evCmd :: bool
  lExitFlag :: int
  Result_dwResult :: DWORD
  Result_dwError :: DWORD
  CallbacksReceived :: "(DWORD \<times> FILETIME) list"
  dwReadLength :: DWORD
  dwBytesWritten :: DWORD
  cc_dwSecureError :: DWORD
  bHeadersAvail :: bool
  bSendRequestComplete :: bool
  bFailed :: bool
  bComplete :: bool
  bHandleCreated :: bool
  bHandleClosing :: bool
  cc_bDisableSecureLog :: bool

definition Context_Reset :: "callback_context \<Rightarrow> callback_context" where
  "Context_Reset c = c\<lparr> Result_dwResult := 0, Result_dwError := 0, dwReadLength := 0, dwBytesWritten := 0,
     bHeadersAvail := False, bSendRequestComplete := False, bFailed := False, bComplete := False,
     bHandleCreated := False, bHandleClosing := False, CallbacksReceived := [], cc_bDisableSecureLog := False,
     cc_dwSecureError := 0, evCmd := False \<rparr>"

definition new_context :: callback_context where
  "new_context = \<lparr> evCmd = False, lExitFlag = 0, Result_dwResult = 0, Result_dwError = 0, CallbacksReceived = [],
     dwReadLength = 0, dwBytesWritten = 0, cc_dwSecureError = 0, bHeadersAvail = False, bSendRequestComplete = False,
     bFailed = False, bComplete = False, bHandleCreated = False, bHandleClosing = False, cc_bDisableSecureLog = False \<rparr>"

text \<open>The callback, under the lock of the context; the exit flag is set at its end.\<close>

definition callback_effect :: "http_callback \<Rightarrow> callback_context \<Rightarrow> callback_context" where
  "callback_effect cb c =
     (case cb of
        SecureFailure None \<Rightarrow> c
      | SecureFailure (Some dwStatus) \<Rightarrow> c\<lparr> cc_dwSecureError := or (cc_dwSecureError c) dwStatus \<rparr>
      | DataAvailable n \<Rightarrow> c\<lparr> dwReadLength := n, bComplete := True, evCmd := True \<rparr>
      | HeadersAvailable \<Rightarrow> c\<lparr> bHeadersAvail := True, bComplete := True, evCmd := True \<rparr>
      | ReadComplete n \<Rightarrow> c\<lparr> dwReadLength := n, bComplete := True, evCmd := True \<rparr>
      | SendRequestComplete \<Rightarrow> c\<lparr> bSendRequestComplete := True, bComplete := True, evCmd := True \<rparr>
      | WriteComplete n \<Rightarrow> c\<lparr> dwBytesWritten := n, bComplete := True, evCmd := True \<rparr>
      | RequestError r e \<Rightarrow> c\<lparr> bFailed := True, bComplete := True, Result_dwResult := r, Result_dwError := e, evCmd := True \<rparr>
      | HandleCreated \<Rightarrow> c\<lparr> bHandleCreated := True \<rparr>
      | HandleClosing \<Rightarrow> c\<lparr> bHandleClosing := True, bComplete := True, evCmd := True \<rparr>
      | OtherCallback _ \<Rightarrow> c)"

definition HttpStatusCallback :: "FILETIME \<times> http_callback \<Rightarrow> callback_context \<Rightarrow> callback_context" where
  "HttpStatusCallback r c =
     (case r of (ftCmdTime, cb) \<Rightarrow>
        (callback_effect cb (c\<lparr> CallbacksReceived := CallbacksReceived c @ [(callback_status cb, ftCmdTime)] \<rparr>))\<lparr> lExitFlag := 1 \<rparr>)"

section \<open>A command\<close>

record cmd_state =
  CallbackContext :: callback_context
  dwCurrentThread :: DWORD
  dwSecureErr :: DWORD
  bDisableSecureLog :: bool

definition PrepareCmd :: "DWORD \<Rightarrow> cmd_state \<Rightarrow> cmd_state" where
  "PrepareCmd dwThread s = s\<lparr> dwCurrentThread := dwThread,
     CallbackContext := (Context_Reset (CallbackContext s))\<lparr> cc_bDisableSecureLog := bDisableSecureLog s,
       cc_dwSecureError := dwSecureErr s \<rparr> \<rparr>"

definition CleanupCmd :: "cmd_state \<Rightarrow> cmd_state" where
  "CleanupCmd s = s\<lparr> dwCurrentThread := 0, dwSecureErr := cc_dwSecureError (CallbackContext s) \<rparr>"

definition set_result :: "DWORD \<Rightarrow> cmd_state \<Rightarrow> cmd_state" where
  "set_result e s = s\<lparr> CallbackContext := (CallbackContext s)\<lparr> Result_dwError := e, Result_dwResult := 0 \<rparr> \<rparr>"

text \<open>How a wait ends when it does not end with the event or its time.\<close>

datatype wait_end = WaitDone | WaitFailed DWORD | WaitOther

record 'x cmd_env =
  ce_wait :: "'x \<Rightarrow> (wait_end \<times> (FILETIME \<times> http_callback) list) \<times> 'x"
  ce_abort :: "'x \<Rightarrow> bool"

definition deliver :: "(FILETIME \<times> http_callback) list \<Rightarrow> cmd_state \<Rightarrow> cmd_state" where
  "deliver cbs s = s\<lparr> CallbackContext := fold HttpStatusCallback cbs (CallbackContext s) \<rparr>"


definition timeout_max :: "DWORD \<Rightarrow> DWORD \<Rightarrow> DWORD" where
  "timeout_max dwLongestTimeout MaxWaitInterval = max dwLongestTimeout 90000 div MaxWaitInterval + 2"

text \<open>The turn after a wait: the answer, or the number of timeouts to go on with.\<close>

definition WaitComplete_turn ::
  "DWORD \<Rightarrow> DWORD \<Rightarrow> bool \<Rightarrow> wait_end \<Rightarrow> DWORD \<Rightarrow> cmd_state \<Rightarrow> (bool + DWORD) \<times> cmd_state" where
  "WaitComplete_turn dwExpected iTimeoutMax bAbort e iTimeout s =
     (if dwExpected \<noteq> CB_HANDLE_CLOSING \<and> bAbort then
        (Inl False, CleanupCmd (set_result ERROR_OPERATION_ABORTED s))
      else
        case e of
          WaitFailed err \<Rightarrow> (Inl False, CleanupCmd (set_result err s))
        | WaitOther \<Rightarrow> (Inl False, CleanupCmd s)
        | WaitDone \<Rightarrow>
            if evCmd (CallbackContext s) then
              let bGotIt = dwExpected \<in> fst ` set (CallbacksReceived (CallbackContext s));
                  s1 = s\<lparr> CallbackContext := (CallbackContext s)\<lparr> CallbacksReceived := [] \<rparr> \<rparr> in
              if (dwExpected \<noteq> CB_HANDLE_CLOSING \<or> bGotIt) \<and> (bGotIt \<or> bFailed (CallbackContext s1))
              then (Inl (\<not> bFailed (CallbackContext s1)), CleanupCmd s1)
              else (Inr iTimeout, s1)
            else if iTimeout + 1 > iTimeoutMax then (Inl False, CleanupCmd (set_result WAIT_TIMEOUT s))
            else (Inr (iTimeout + 1), s))"

partial_function (option) WaitComplete_loop ::
  "'x cmd_env \<Rightarrow> DWORD \<Rightarrow> DWORD \<Rightarrow> DWORD \<Rightarrow> cmd_state \<times> 'x \<Rightarrow> (bool \<times> cmd_state \<times> 'x) option" where
  "WaitComplete_loop env dwExpected iTimeoutMax iTimeout w =
     (let r = ce_wait env (snd w) in
      case WaitComplete_turn dwExpected iTimeoutMax (ce_abort env (snd r)) (fst (fst r)) iTimeout (deliver (snd (fst r)) (fst w)) of
        (Inl b, s1) \<Rightarrow> Some (b, s1, snd r)
      | (Inr n, s1) \<Rightarrow> WaitComplete_loop env dwExpected iTimeoutMax n (s1, snd r))"

definition WaitComplete :: "'x cmd_env \<Rightarrow> DWORD \<Rightarrow> DWORD \<Rightarrow> cmd_state \<Rightarrow> 'x \<Rightarrow> (bool \<times> cmd_state \<times> 'x) option" where
  "WaitComplete env dwLongestTimeout dwExpected s x =
     WaitComplete_loop env dwExpected (timeout_max dwLongestTimeout 5000) 0 (s, x)"

text \<open>\<open>WaitForCallbackDone\<close>: the same waits, for the flag.\<close>

partial_function (option) WaitForCallbackDone :: "'x cmd_env \<Rightarrow> cmd_state \<times> 'x \<Rightarrow> (cmd_state \<times> 'x) option" where
  "WaitForCallbackDone env w =
     (if lExitFlag (CallbackContext (fst w)) \<noteq> 0 then Some w
      else let r = ce_wait env (snd w) in WaitForCallbackDone env (deliver (snd (fst r)) (fst w), snd r))"

section \<open>Waiting for the stream to send\<close>

record 'x stream_wait_env =
  sw_wait :: "'x \<Rightarrow> DWORD \<times> 'x"
  sw_empty :: "'x \<Rightarrow> bool"
  sw_abort :: "'x \<Rightarrow> bool"

partial_function (option) WaitStreamSend_loop ::
  "'x stream_wait_env \<Rightarrow> DWORD \<Rightarrow> DWORD \<Rightarrow> 'x \<Rightarrow> (bool \<times> 'x) option" where
  "WaitStreamSend_loop env iTimeoutMax iTimeout x =
     (let r = sw_wait env x in
      if \<not> sw_empty env (snd r) then Some (True, snd r)
      else if sw_abort env (snd r) then Some (False, snd r)
      else if fst r = 0 then WaitStreamSend_loop env iTimeoutMax iTimeout (snd r)
      else if fst r = WAIT_TIMEOUT then
        if iTimeout + 1 > iTimeoutMax then Some (False, snd r)
        else WaitStreamSend_loop env iTimeoutMax (iTimeout + 1) (snd r)
      else Some (False, snd r))"

definition WaitStreamSend :: "'x stream_wait_env \<Rightarrow> DWORD \<Rightarrow> 'x \<Rightarrow> (bool \<times> 'x) option" where
  "WaitStreamSend env dwLongestTimeout x = WaitStreamSend_loop env (timeout_max dwLongestTimeout 1000) 0 x"

section \<open>What arrives during the waits\<close>

primrec waits :: "'x cmd_env \<Rightarrow> nat \<Rightarrow> 'x \<Rightarrow> 'x" where
  "waits env 0 x = x"
| "waits env (Suc n) x = waits env n (snd (ce_wait env x))"

primrec delivered :: "'x cmd_env \<Rightarrow> nat \<Rightarrow> 'x \<Rightarrow> http_callback list" where
  "delivered env 0 x = []"
| "delivered env (Suc n) x = map snd (snd (fst (ce_wait env x))) @ delivered env n (snd (ce_wait env x))"

fun is_failure :: "http_callback \<Rightarrow> bool" where
  "is_failure (RequestError _ _) = True"
| "is_failure _ = False"

fun is_signal :: "http_callback \<Rightarrow> bool" where
  "is_signal (SecureFailure _) = False"
| "is_signal HandleCreated = False"
| "is_signal (OtherCallback _) = False"
| "is_signal _ = True"

lemma callback_effect_fields:
  "CallbacksReceived (callback_effect cb c) = CallbacksReceived c"
  "bFailed (callback_effect cb c) \<longleftrightarrow> bFailed c \<or> is_failure cb"
  "evCmd (callback_effect cb c) \<longleftrightarrow> evCmd c \<or> is_signal cb"
  by (cases cb; auto simp: callback_effect_def split: option.splits)+

lemma HttpStatusCallback_fields [simp]:
  "CallbacksReceived (HttpStatusCallback r c) = CallbacksReceived c @ [(callback_status (snd r), fst r)]"
  "bFailed (HttpStatusCallback r c) \<longleftrightarrow> bFailed c \<or> is_failure (snd r)"
  "evCmd (HttpStatusCallback r c) \<longleftrightarrow> evCmd c \<or> is_signal (snd r)"
  "lExitFlag (HttpStatusCallback r c) = 1"
  by (cases r; simp add: HttpStatusCallback_def callback_effect_fields)+

lemma fold_callbacks:
  "CallbacksReceived (fold HttpStatusCallback cbs c) = CallbacksReceived c @ map (\<lambda>r. (callback_status (snd r), fst r)) cbs"
  "bFailed (fold HttpStatusCallback cbs c) \<longleftrightarrow> bFailed c \<or> (\<exists>r \<in> set cbs. is_failure (snd r))"
  "evCmd (fold HttpStatusCallback cbs c) \<longleftrightarrow> evCmd c \<or> (\<exists>r \<in> set cbs. is_signal (snd r))"
  "lExitFlag (fold HttpStatusCallback cbs c) = (if cbs = [] then lExitFlag c else 1)"
proof (induction cbs arbitrary: c)
  case (Cons r cbs)
  { case 1 show ?case using Cons(1) by simp }
  { case 2 show ?case using Cons(2) by auto }
  { case 3 show ?case using Cons(3) by auto }
  { case 4 show ?case using Cons(4) by simp }
qed simp_all

lemma deliver_fields [simp]:
  "fst ` set (CallbacksReceived (CallbackContext (deliver cbs s))) =
     fst ` set (CallbacksReceived (CallbackContext s)) \<union> callback_status ` snd ` set cbs"
  "bFailed (CallbackContext (deliver cbs s)) \<longleftrightarrow> bFailed (CallbackContext s) \<or> (\<exists>r \<in> set cbs. is_failure (snd r))"
  "evCmd (CallbackContext (deliver cbs s)) \<longleftrightarrow> evCmd (CallbackContext s) \<or> (\<exists>r \<in> set cbs. is_signal (snd r))"
  "lExitFlag (CallbackContext (deliver cbs s)) = (if cbs = [] then lExitFlag (CallbackContext s) else 1)"
  by (simp_all add: deliver_def fold_callbacks image_Un image_image)

lemma CleanupCmd_context [simp]: "CallbackContext (CleanupCmd s) = CallbackContext s"
  by (simp add: CleanupCmd_def)

section \<open>What an answer means\<close>

lemma turn_true:
  assumes "WaitComplete_turn ex mx ab e n s = (Inl True, s1)"
  shows "ex \<in> fst ` set (CallbacksReceived (CallbackContext s)) \<and> \<not> bFailed (CallbackContext s) \<and> \<not> bFailed (CallbackContext s1)"
  using assms by (auto simp: WaitComplete_turn_def Let_def split: if_splits wait_end.splits)

lemma turn_on:
  assumes "WaitComplete_turn ex mx ab e n s = (Inr m, s1)"
  shows "fst ` set (CallbacksReceived (CallbackContext s1)) \<subseteq> fst ` set (CallbacksReceived (CallbackContext s))"
    "bFailed (CallbackContext s1) = bFailed (CallbackContext s)"
  using assms by (auto simp: WaitComplete_turn_def Let_def split: if_splits wait_end.splits)

definition answered :: "'x cmd_env \<Rightarrow> DWORD \<Rightarrow> cmd_state \<Rightarrow> 'x \<Rightarrow> cmd_state \<Rightarrow> 'x \<Rightarrow> bool" where
  "answered env ex s x s' x' \<longleftrightarrow>
     (\<exists>n. x' = waits env n x
        \<and> (ex \<in> fst ` set (CallbacksReceived (CallbackContext s)) \<or> ex \<in> callback_status ` set (delivered env n x))
        \<and> \<not> bFailed (CallbackContext s) \<and> (\<forall>cb \<in> set (delivered env n x). \<not> is_failure cb)
        \<and> \<not> bFailed (CallbackContext s'))"

lemma answered_step:
  assumes "answered env ex s1 (snd (ce_wait env x)) s' x'"
    and "fst ` set (CallbacksReceived (CallbackContext s1)) \<subseteq> fst ` set (CallbacksReceived (CallbackContext (deliver (snd (fst (ce_wait env x))) s)))"
    and "bFailed (CallbackContext s1) = bFailed (CallbackContext (deliver (snd (fst (ce_wait env x))) s))"
  shows "answered env ex s x s' x'"
proof -
  obtain n where n: "x' = waits env n (snd (ce_wait env x))"
      "ex \<in> fst ` set (CallbacksReceived (CallbackContext s1)) \<or> ex \<in> callback_status ` set (delivered env n (snd (ce_wait env x)))"
      "\<not> bFailed (CallbackContext s1)" "\<forall>cb \<in> set (delivered env n (snd (ce_wait env x))). \<not> is_failure cb"
      "\<not> bFailed (CallbackContext s')"
    using assms(1) unfolding answered_def by blast
  have "x' = waits env (Suc n) x" using n(1) by simp
  moreover have "ex \<in> fst ` set (CallbacksReceived (CallbackContext s)) \<or> ex \<in> callback_status ` set (delivered env (Suc n) x)"
    using n(2) assms(2) by auto
  moreover have "\<not> bFailed (CallbackContext s) \<and> (\<forall>cb \<in> set (delivered env (Suc n) x). \<not> is_failure cb)"
    using n(3,4) assms(3) by auto
  ultimately show ?thesis unfolding answered_def using n(5) by blast
qed

lemma WaitComplete_loop_sound:
  assumes "WaitComplete_loop env ex mx n w = Some r" "fst r"
  shows "answered env ex (fst w) (snd w) (fst (snd r)) (snd (snd r))"
proof -
  let ?P = "\<lambda>env ex (mx::DWORD) (n::DWORD) w r. fst r \<longrightarrow> answered env ex (fst w) (snd w) (fst (snd r)) (snd (snd r))"
  have "?P env ex mx n w r"
  proof (rule WaitComplete_loop.raw_induct [where P = ?P, OF _ assms(1)])
    fix loop :: "'a cmd_env \<Rightarrow> DWORD \<Rightarrow> DWORD \<Rightarrow> DWORD \<Rightarrow> cmd_state \<times> 'a \<Rightarrow> (bool \<times> cmd_state \<times> 'a) option"
      and env ex mx n w r
    assume IH: "\<And>env ex mx n w r. loop env ex mx n w = Some r \<Longrightarrow> ?P env ex mx n w r"
      and d: "(let r = ce_wait env (snd w) in
        case WaitComplete_turn ex mx (ce_abort env (snd r)) (fst (fst r)) n (deliver (snd (fst r)) (fst w)) of
          (Inl b, s1) \<Rightarrow> Some (b, s1, snd r) | (Inr n, s1) \<Rightarrow> loop env ex mx n (s1, snd r)) = Some r"
    let ?y = "snd (ce_wait env (snd w))" and ?s = "deliver (snd (fst (ce_wait env (snd w)))) (fst w)"
    show "?P env ex mx n w r"
    proof
      assume t: "fst r"
      obtain a s1 where a: "WaitComplete_turn ex mx (ce_abort env ?y) (fst (fst (ce_wait env (snd w)))) n ?s = (a, s1)" by fastforce
      show "answered env ex (fst w) (snd w) (fst (snd r)) (snd (snd r))"
      proof (cases a)
        case (Inl b)
        then have r: "r = (b, s1, ?y)" "b" using d a t by (auto simp: Let_def)
        have "ex \<in> fst ` set (CallbacksReceived (CallbackContext ?s)) \<and> \<not> bFailed (CallbackContext ?s) \<and> \<not> bFailed (CallbackContext s1)"
          by (rule turn_true) (use a Inl r in simp)
        then show ?thesis unfolding r(1) answered_def by (intro exI [of _ "Suc 0"]) simp
      next
        case (Inr m)
        then have "loop env ex mx m (s1, ?y) = Some r" using d a by (simp add: Let_def)
        then have "answered env ex s1 ?y (fst (snd r)) (snd (snd r))" using IH [of env ex mx m "(s1, ?y)" r] t by simp
        then show ?thesis by (rule answered_step) (rule turn_on [OF a [unfolded Inr]])+
      qed
    qed
  qed
  then show ?thesis using assms(2) by blast
qed

section \<open>Waits end\<close>

text \<open>One command at a time: a callback that signals comes with the one that is waited for, or, when
  that is not the end of the handle, with an error; the waits themselves do not fail.\<close>

definition prompt :: "'x cmd_env \<Rightarrow> DWORD \<Rightarrow> bool" where
  "prompt env ex \<longleftrightarrow>
     (\<forall>x. fst (fst (ce_wait env x)) = WaitDone \<and>
        ((\<exists>r \<in> set (snd (fst (ce_wait env x))). is_signal (snd r)) \<longrightarrow>
         (\<exists>r \<in> set (snd (fst (ce_wait env x))). callback_status (snd r) = ex \<or> ex \<noteq> CB_HANDLE_CLOSING \<and> is_failure (snd r))))"

lemma turn_signal:
  assumes "evCmd (CallbackContext s)"
    and "ex \<in> fst ` set (CallbacksReceived (CallbackContext s)) \<or> ex \<noteq> CB_HANDLE_CLOSING \<and> bFailed (CallbackContext s)"
  shows "\<exists>b s1. WaitComplete_turn ex mx ab WaitDone n s = (Inl b, s1)"
proof (cases "ex \<noteq> CB_HANDLE_CLOSING \<and> ab")
  case False
  then show ?thesis using assms by (cases "ex = CB_HANDLE_CLOSING") (auto simp: WaitComplete_turn_def Let_def)
qed (auto simp: WaitComplete_turn_def)

lemma turn_silent:
  assumes "\<not> evCmd (CallbackContext s)" "WaitComplete_turn ex mx ab WaitDone n s = (Inr m, s1)"
  shows "m = n + 1 \<and> n + 1 \<le> mx \<and> s1 = s"
  using assms by (auto simp: WaitComplete_turn_def not_less split: if_splits)

lemma turn_prompt:
  assumes "prompt env ex" "\<not> evCmd (CallbackContext s)"
    and "WaitComplete_turn ex mx ab (fst (fst (ce_wait env x))) n (deliver (snd (fst (ce_wait env x))) s) = (Inr m, s1)"
  shows "m = n + 1 \<and> n + 1 \<le> mx \<and> \<not> evCmd (CallbackContext s1)"
proof -
  let ?cbs = "snd (fst (ce_wait env x))"
  let ?s = "deliver ?cbs s"
  have d: "fst (fst (ce_wait env x)) = WaitDone" using assms(1) by (simp add: prompt_def)
  have "\<not> evCmd (CallbackContext ?s)"
  proof
    assume e: "evCmd (CallbackContext ?s)"
    then have "\<exists>r \<in> set ?cbs. callback_status (snd r) = ex \<or> ex \<noteq> CB_HANDLE_CLOSING \<and> is_failure (snd r)"
      using assms(1,2) unfolding prompt_def deliver_fields by blast
    then have "ex \<in> fst ` set (CallbacksReceived (CallbackContext ?s)) \<or> ex \<noteq> CB_HANDLE_CLOSING \<and> bFailed (CallbackContext ?s)"
      unfolding deliver_fields by (force simp: image_iff)
    then show False using turn_signal [OF e, of ex mx ab n] assms(3) d by auto
  qed
  then show ?thesis using turn_silent assms(3) d by metis
qed

lemma WaitComplete_loop_ends:
  assumes "prompt env ex" "mx < 2 ^ 32 - 1"
  shows "\<not> evCmd (CallbackContext s) \<Longrightarrow> n \<le> mx \<Longrightarrow>
    \<exists>b s' k. WaitComplete_loop env ex mx n (s, x) = Some (b, s', waits env k x) \<and> k \<le> unat mx - unat n + 1"
proof (induction "unat mx - unat n" arbitrary: n s x rule: less_induct)
  case less
  let ?turn = "WaitComplete_turn ex mx (ce_abort env (snd (ce_wait env x))) (fst (fst (ce_wait env x))) n (deliver (snd (fst (ce_wait env x))) s)"
  obtain a s1 where t: "?turn = (a, s1)" by fastforce
  show ?case
  proof (cases a)
    case (Inl b)
    then have "WaitComplete_loop env ex mx n (s, x) = Some (b, s1, waits env 1 x)"
      using t by (subst WaitComplete_loop.simps) (simp add: Let_def)
    then show ?thesis by (metis le_add2)
  next
    case (Inr m)
    have m: "m = n + 1" "n + 1 \<le> mx" "\<not> evCmd (CallbackContext s1)"
      using turn_prompt [OF assms(1) less.prems(1) t [unfolded Inr]] by auto
    have "unat (- 1 :: DWORD) = 4294967295" by (simp add: unsigned_minus_1_eq_mask mask_eq_exp_minus_1)
    then have "n \<noteq> - 1" using less.prems(2) assms(2) by (auto simp: word_le_nat_alt word_less_nat_alt)
    then have u: "unat (n + 1) = unat n + 1" by (simp add: unat_plus_one)
    have le: "unat n + 1 \<le> unat mx" using m(2) u by (simp add: word_le_nat_alt)
    obtain b s' k where k: "WaitComplete_loop env ex mx m (s1, snd (ce_wait env x)) = Some (b, s', waits env k (snd (ce_wait env x)))"
        "k \<le> unat mx - unat m + 1"
    proof -
      have "unat mx - unat m < unat mx - unat n" using u le m(1) by simp
      then show ?thesis using that less.hyps [of m s1 "snd (ce_wait env x)"] m by blast
    qed
    have "WaitComplete_loop env ex mx n (s, x) = Some (b, s', waits env (Suc k) x)"
      using t k(1) Inr by (subst WaitComplete_loop.simps) (simp add: Let_def)
    moreover have "Suc k \<le> unat mx - unat n + 1" using k(2) le u m(1) by simp
    ultimately show ?thesis by blast
  qed
qed

lemma timeout_max_small:
  assumes "4 \<le> i"
  shows "timeout_max l i < 2 ^ 32 - 1" "unat (timeout_max l i) = max (unat l) 90000 div unat i + 2"
proof -
  have q: "unat (max l 90000 div i) = max (unat l) 90000 div unat i"
    by (simp add: unat_div_distrib max_def word_le_nat_alt)
  have i: "4 \<le> unat i" using assms by (simp add: word_le_nat_alt)
  have "max (unat l) 90000 div unat i \<le> max (unat l) 90000 div 4" using i by (intro div_le_mono2) auto
  also have "\<dots> < 2 ^ 30" using unat_bound32 [of l] by (auto simp: max_def)
  finally have b: "unat (max l 90000 div i) < 2 ^ 30" unfolding q .
  have "unat (max l 90000 div i + 2) = unat (max l 90000 div i) + 2"
    using b by (subst unat_add_no_wrap) simp_all
  then show "unat (timeout_max l i) = max (unat l) 90000 div unat i + 2" using q by (simp add: timeout_max_def)
  then show "timeout_max l i < 2 ^ 32 - 1" using b q by (simp add: word_less_nat_alt)
qed

text \<open>Without callbacks, the wait for the end of the callback does not return.\<close>

lemma WaitForCallbackDone_hangs:
  assumes "\<forall>x. snd (fst (ce_wait env x)) = []" "lExitFlag (CallbackContext s) = 0"
  shows "WaitForCallbackDone env (s, x) = None"
proof -
  let ?P = "\<lambda>env w (r::cmd_state \<times> 'a). (\<forall>x. snd (fst (ce_wait env x)) = []) \<longrightarrow> lExitFlag (CallbackContext (fst w)) \<noteq> 0"
  have "?P env (s, x) r" if "WaitForCallbackDone env (s, x) = Some r" for r
    by (rule WaitForCallbackDone.raw_induct [where P = ?P, OF _ that]) (fastforce simp: Let_def split: if_splits)
  then show ?thesis using assms by (cases "WaitForCallbackDone env (s, x)") auto
qed

lemma WaitForCallbackDone_after:
  assumes "lExitFlag (CallbackContext s) \<noteq> 0"
  shows "WaitForCallbackDone env (deliver cbs s, x) = Some (deliver cbs s, x)"
  using assms by (subst WaitForCallbackDone.simps) simp

section \<open>Failures come with a code\<close>

definition cmd_codes :: "'x cmd_env \<Rightarrow> bool" where
  "cmd_codes env \<longleftrightarrow> (\<forall>x. fst (fst (ce_wait env x)) \<noteq> WaitOther \<and> fst (fst (ce_wait env x)) \<noteq> WaitFailed 0
     \<and> (\<forall>r \<in> set (snd (fst (ce_wait env x))). \<forall>n. snd r \<noteq> RequestError n 0))"

definition failure_coded :: "cmd_state \<Rightarrow> bool" where
  "failure_coded s \<longleftrightarrow> (bFailed (CallbackContext s) \<longrightarrow> Result_dwError (CallbackContext s) \<noteq> 0)"

lemma fold_coded:
  "\<lbrakk> bFailed c \<longrightarrow> Result_dwError c \<noteq> 0; \<forall>r \<in> set cbs. \<forall>n. snd r \<noteq> RequestError n 0 \<rbrakk> \<Longrightarrow>
   bFailed (fold HttpStatusCallback cbs c) \<longrightarrow> Result_dwError (fold HttpStatusCallback cbs c) \<noteq> 0"
proof (induction cbs arbitrary: c)
  case (Cons r cbs)
  obtain t cb where r: "r = (t, cb)" by fastforce
  have "bFailed (HttpStatusCallback r c) \<longrightarrow> Result_dwError (HttpStatusCallback r c) \<noteq> 0"
    using Cons.prems unfolding r by (cases cb) (auto simp: HttpStatusCallback_def callback_effect_def split: option.splits)
  then show ?case using Cons by simp
qed simp

lemma deliver_coded:
  "\<lbrakk> cmd_codes env; failure_coded s \<rbrakk> \<Longrightarrow> failure_coded (deliver (snd (fst (ce_wait env x))) s)"
  using fold_coded [of "CallbackContext s" "snd (fst (ce_wait env x))"] by (auto simp: failure_coded_def deliver_def cmd_codes_def)

lemma turn_coded:
  assumes "failure_coded s" "e \<noteq> WaitOther" "e \<noteq> WaitFailed 0" "WaitComplete_turn ex mx ab e n s = (a, s1)"
  shows "case a of Inl b \<Rightarrow> b \<or> Result_dwError (CallbackContext s1) \<noteq> 0 | Inr _ \<Rightarrow> failure_coded s1"
  using assms by (auto simp: WaitComplete_turn_def set_result_def failure_coded_def Let_def ERROR_OPERATION_ABORTED_def WAIT_TIMEOUT_def
      split: if_splits wait_end.splits)

lemma WaitComplete_loop_coded:
  assumes "WaitComplete_loop env ex mx n w = Some r"
  shows "cmd_codes env \<Longrightarrow> failure_coded (fst w) \<Longrightarrow> fst r \<or> Result_dwError (CallbackContext (fst (snd r))) \<noteq> 0"
proof -
  let ?P = "\<lambda>env (ex::DWORD) (mx::DWORD) (n::DWORD) w (r :: bool \<times> cmd_state \<times> 'a). cmd_codes env \<longrightarrow> failure_coded (fst w) \<longrightarrow>
    fst r \<or> Result_dwError (CallbackContext (fst (snd r))) \<noteq> 0"
  have "?P env ex mx n w r"
  proof (rule WaitComplete_loop.raw_induct [where P = ?P, OF _ assms])
    fix loop :: "'a cmd_env \<Rightarrow> DWORD \<Rightarrow> DWORD \<Rightarrow> DWORD \<Rightarrow> cmd_state \<times> 'a \<Rightarrow> (bool \<times> cmd_state \<times> 'a) option"
      and env ex mx n w r
    assume IH: "\<And>env ex mx n w r. loop env ex mx n w = Some r \<Longrightarrow> ?P env ex mx n w r"
      and d: "(let r = ce_wait env (snd w) in
        case WaitComplete_turn ex mx (ce_abort env (snd r)) (fst (fst r)) n (deliver (snd (fst r)) (fst w)) of
          (Inl b, s1) \<Rightarrow> Some (b, s1, snd r) | (Inr n, s1) \<Rightarrow> loop env ex mx n (s1, snd r)) = Some r"
    let ?y = "snd (ce_wait env (snd w))" and ?s = "deliver (snd (fst (ce_wait env (snd w)))) (fst w)"
    show "?P env ex mx n w r"
    proof (intro impI)
      assume c: "cmd_codes env" "failure_coded (fst w)"
      obtain a s1 where a: "WaitComplete_turn ex mx (ce_abort env ?y) (fst (fst (ce_wait env (snd w)))) n ?s = (a, s1)" by fastforce
      have "case a of Inl b \<Rightarrow> b \<or> Result_dwError (CallbackContext s1) \<noteq> 0 | Inr _ \<Rightarrow> failure_coded s1"
        using c(1) by (intro turn_coded [OF deliver_coded [OF c] _ _ a]) (simp_all add: cmd_codes_def)
      then show "fst r \<or> Result_dwError (CallbackContext (fst (snd r))) \<noteq> 0"
        using d a c(1) IH [of env ex mx _ "(s1, ?y)" r] by (cases a) (auto simp: Let_def)
    qed
  qed
  then show "cmd_codes env \<Longrightarrow> failure_coded (fst w) \<Longrightarrow> fst r \<or> Result_dwError (CallbackContext (fst (snd r))) \<noteq> 0" by blast
qed

lemma WaitComplete_coded:
  assumes "WaitComplete env l ex (PrepareCmd t s) x = Some (False, s', x')" "cmd_codes env"
  shows "Result_dwError (CallbackContext s') \<noteq> 0"
  using WaitComplete_loop_coded [OF assms(1) [unfolded WaitComplete_def] assms(2)]
  by (simp add: failure_coded_def PrepareCmd_def Context_Reset_def)

section \<open>Properties\<close>

text \<open>C19: A command is taken as done only when its callback has come since it was prepared and no
  callback has reported an error.\<close>

theorem WaitComplete_sound:
  assumes "WaitComplete env dwLongestTimeout dwExpected (PrepareCmd dwThread s) x = Some (True, s', x')"
  shows "\<exists>n. x' = waits env n x \<and> dwExpected \<in> callback_status ` set (delivered env n x)
    \<and> (\<forall>cb \<in> set (delivered env n x). \<not> is_failure cb) \<and> \<not> bFailed (CallbackContext s')"
proof -
  have "answered env dwExpected (PrepareCmd dwThread s) x s' x'"
    using WaitComplete_loop_sound [OF assms [unfolded WaitComplete_def]] by simp
  then show ?thesis by (simp add: answered_def PrepareCmd_def Context_Reset_def)
qed

definition one_write :: "nat cmd_env" where
  "one_write = \<lparr> ce_wait = (\<lambda>n. ((WaitDone, if n = 1 then [(0, WriteComplete 5)] else []), n + 1)), ce_abort = (\<lambda>_. False) \<rparr>"

lemma one_write_answer:
  "WaitComplete one_write 0 0x100000 (PrepareCmd 7 \<lparr> CallbackContext = new_context, dwCurrentThread = 0, dwSecureErr = 0, bDisableSecureLog = False \<rparr>) 0
   = Some (True, CleanupCmd ((deliver [(0, WriteComplete 5)] (PrepareCmd 7 \<lparr> CallbackContext = new_context, dwCurrentThread = 0, dwSecureErr = 0, bDisableSecureLog = False \<rparr>))
        \<lparr> CallbackContext := (CallbackContext (deliver [(0, WriteComplete 5)] (PrepareCmd 7 \<lparr> CallbackContext = new_context, dwCurrentThread = 0, dwSecureErr = 0, bDisableSecureLog = False \<rparr>)))\<lparr> CallbacksReceived := [] \<rparr> \<rparr>), 2)"
  unfolding WaitComplete_def
  by (subst WaitComplete_loop.simps, subst WaitComplete_loop.simps)
    (simp add: one_write_def WaitComplete_turn_def deliver_def PrepareCmd_def Context_Reset_def new_context_def timeout_max_def
      CB_HANDLE_CLOSING_def HttpStatusCallback_def callback_effect_def callback_status_def Let_def)

theorem WaitComplete_sound_witness:
  "\<exists>s' x' n. WaitComplete one_write 0 0x100000 (PrepareCmd 7 \<lparr> CallbackContext = new_context, dwCurrentThread = 0, dwSecureErr = 0, bDisableSecureLog = False \<rparr>) 0
     = Some (True, s', x')
   \<and> x' = waits one_write n 0 \<and> 0x100000 \<in> callback_status ` set (delivered one_write n 0)"
  using WaitComplete_sound [OF one_write_answer] one_write_answer by blast

text \<open>C36: A wait for a command returns: when callbacks that signal come only with the one that is
  waited for (or an error), after at most as many waits as the longest timeout has intervals of five
  seconds, and three.\<close>

theorem WaitComplete_returns:
  assumes "prompt env dwExpected"
  shows "\<exists>b s' k. WaitComplete env dwLongestTimeout dwExpected (PrepareCmd dwThread s) x = Some (b, s', waits env k x)
    \<and> k \<le> max (unat dwLongestTimeout) 90000 div 5000 + 3"
proof -
  have e: "\<not> evCmd (CallbackContext (PrepareCmd dwThread s))" by (simp add: PrepareCmd_def Context_Reset_def)
  have five: "(4 :: DWORD) \<le> 5000" "unat (5000 :: DWORD) = 5000" by simp_all
  obtain b s' k where "WaitComplete_loop env dwExpected (timeout_max dwLongestTimeout 5000) 0 (PrepareCmd dwThread s, x) = Some (b, s', waits env k x)"
      "k \<le> unat (timeout_max dwLongestTimeout 5000) - unat (0 :: DWORD) + 1"
    using WaitComplete_loop_ends [OF assms timeout_max_small(1) [OF five(1), of dwLongestTimeout] e, of 0 x] word_zero_le by blast
  then show ?thesis unfolding WaitComplete_def timeout_max_small(2) [OF five(1)] five(2) by auto
qed

theorem WaitComplete_returns_witness:
  "\<exists>b s' k. WaitComplete one_write 60000 0x100000 (PrepareCmd 7 \<lparr> CallbackContext = new_context, dwCurrentThread = 0, dwSecureErr = 0, bDisableSecureLog = False \<rparr>) 5
     = Some (b, s', waits one_write k 5) \<and> k \<le> 21"
proof -
  have "prompt one_write 0x100000" by (auto simp: prompt_def one_write_def callback_status_def)
  from WaitComplete_returns [OF this, of 60000] show ?thesis by simp
qed

end
