(* ===== verification/Exchange.thy ===== *)
theory Exchange
  imports Callbacks Failover Multipart
begin

text \<open>
  One exchange with a server (ECSConnection.cpp, SendRequestInternal from the opening of the request
  to its end, CloseRequest, ChooseAuthScheme; generic_defs.h, LoadNullTermStringArray). Every call of
  WinHTTP that completes later is a command of the theory Callbacks. What the calls return, the body
  that is sent (theory ChunkSend), the bounded push on the queue of a stream (theory SharedQueue) and the
  throttle (theory Throttle) are parameters. No request is open when an exchange starts: the one before has
  closed its own (\<open>exchange_end\<close>).
\<close>

declare IfError_SetError [simp]

section \<open>Environment and state\<close>

datatype http_op = OpSend | OpReceive | OpQuery | OpRead DWORD

record 'x http_env =
  ht_cmd :: "'x cmd_env"
  ht_Timeout :: DWORD
  ht_Thread :: DWORD
  ht_open :: "'x \<Rightarrow> (DWORD option \<times> bool \<times> bool) \<times> 'x"
  ht_credentials :: "bool \<Rightarrow> DWORD \<Rightarrow> 'x \<Rightarrow> DWORD option \<times> 'x"
  ht_begin :: "http_op \<Rightarrow> 'x \<Rightarrow> DWORD option \<times> 'x"
  ht_body :: "cmd_state \<times> 'x \<Rightarrow> (DWORD + unit) \<times> cmd_state \<times> 'x"
  ht_status :: "'x \<Rightarrow> DWORD + string"
  ht_schemes :: "'x \<Rightarrow> DWORD + DWORD"
  ht_raw_headers :: "'x \<Rightarrow> DWORD + string"
  ht_header :: "string \<Rightarrow> 'x \<Rightarrow> string list"
  ht_buffer :: "'x \<Rightarrow> string"
  ht_push :: "stream_entry \<Rightarrow> 'x \<Rightarrow> 'x"
  ht_pause :: "DWORD \<Rightarrow> 'x \<Rightarrow> DWORD option \<times> 'x"
  ht_reader :: "string \<Rightarrow> xml_node list \<times> DWORD"
  ht_maps :: s3_maps

record 'x exchange =
  xc_Cmd :: cmd_state
  xc_World :: 'x
  xc_Open :: bool
  xc_Registered :: bool
  xc_ProxyScheme :: DWORD
  xc_Scheme :: DWORD
  xc_Got :: bool

text \<open>What an exchange can end with before its result: an exception, or a write behind the end of a
  buffer.\<close>

datatype x_fail = Thrown S3_ERROR | BufferOverrun

definition throw_code :: "DWORD \<Rightarrow> x_fail" where "throw_code e = Thrown (SetError (S3_ERROR_new e))"

section \<open>Commands\<close>

datatype cmd_result = CmdDone | CmdNotStarted DWORD | CmdFailed DWORD

definition run_command :: "'x http_env \<Rightarrow> http_op \<Rightarrow> DWORD \<Rightarrow> 'x exchange \<Rightarrow> (cmd_result \<times> 'x exchange) option" where
  "run_command env op dwExpected st =
     (let s = PrepareCmd (ht_Thread env) (xc_Cmd st) in
      case ht_begin env op (xc_World st) of
        (Some e, x) \<Rightarrow> Some (CmdNotStarted e, st\<lparr> xc_Cmd := CleanupCmd s, xc_World := x \<rparr>)
      | (None, x) \<Rightarrow>
          (case WaitComplete (ht_cmd env) (ht_Timeout env) dwExpected s x of
             None \<Rightarrow> None
           | Some (b, s', x') \<Rightarrow>
               Some (if b then CmdDone else CmdFailed (Result_dwError (CallbackContext s')), st\<lparr> xc_Cmd := s', xc_World := x' \<rparr>)))"

definition CloseRequest :: "'x http_env \<Rightarrow> 'x exchange \<Rightarrow> 'x exchange option" where
  "CloseRequest env st =
     (if xc_Open st then
        if xc_Registered st then
          (case WaitComplete (ht_cmd env) (ht_Timeout env) CB_HANDLE_CLOSING (PrepareCmd (ht_Thread env) (xc_Cmd st)) (xc_World st) of
             None \<Rightarrow> None
           | Some (b, s', x') \<Rightarrow> Some (st\<lparr> xc_Cmd := s', xc_World := x', xc_Open := False, xc_Registered := False \<rparr>))
        else Some (st\<lparr> xc_Open := False \<rparr>)
      else Some st)"

section \<open>Sending and authentication\<close>

definition ERROR_WINHTTP_RESEND_REQUEST :: DWORD where "ERROR_WINHTTP_RESEND_REQUEST = 12032"

definition IfServerReached :: "DWORD \<Rightarrow> bool" where
  "IfServerReached e \<longleftrightarrow> e \<in> {12150, 12153, 12154, 12155, 12156, 12178, 12166, 12167, 12176, 12177}"

definition ChooseAuthScheme :: "DWORD \<Rightarrow> DWORD" where
  "ChooseAuthScheme m =
     (if and m 0x10 \<noteq> 0 then 0x10 else if and m 0x2 \<noteq> 0 then 0x2 else if and m 0x4 \<noteq> 0 then 0x4
      else if and m 0x8 \<noteq> 0 then 0x8 else if and m 0x1 \<noteq> 0 then 0x1 else 0)"

partial_function (option) send_start :: "'x http_env \<Rightarrow> 'x exchange \<Rightarrow> ((x_fail + unit) \<times> 'x exchange) option" where
  "send_start env st =
     (case run_command env OpSend 0x400000 st of
        None \<Rightarrow> None
      | Some (r, st1) \<Rightarrow>
          (case r of
             CmdDone \<Rightarrow> Some (Inr (), st1)
           | CmdNotStarted e \<Rightarrow> if e = ERROR_WINHTTP_RESEND_REQUEST then send_start env st1 else Some (Inl (throw_code e), st1)
           | CmdFailed e \<Rightarrow> if e = ERROR_WINHTTP_RESEND_REQUEST then send_start env st1 else Some (Inl (throw_code e), st1)))"

definition receive_response :: "'x http_env \<Rightarrow> 'x exchange \<Rightarrow> ((x_fail + unit) \<times> 'x exchange) option" where
  "receive_response env st =
     (case run_command env OpReceive 0x20000 st of
        None \<Rightarrow> None
      | Some (r, st1) \<Rightarrow>
          (case r of
             CmdDone \<Rightarrow> Some (Inr (), st1\<lparr> xc_Got := True \<rparr>)
           | CmdNotStarted e \<Rightarrow> Some (Inl (throw_code e), if IfServerReached e then st1\<lparr> xc_Got := True \<rparr> else st1)
           | CmdFailed e \<Rightarrow> Some (Inl (throw_code e), if IfServerReached e then st1\<lparr> xc_Got := True \<rparr> else st1)))"

definition set_credentials ::
  "'x http_env \<Rightarrow> bool \<Rightarrow> bool \<Rightarrow> DWORD \<Rightarrow> 'x exchange \<Rightarrow> (x_fail + unit) \<times> 'x exchange" where
  "set_credentials env bProxy bUser dwScheme st =
     (if dwScheme \<noteq> 0 \<and> bUser then
        (case ht_credentials env bProxy dwScheme (xc_World st) of
           (Some e, x) \<Rightarrow> (Inl (throw_code e), st\<lparr> xc_World := x \<rparr>)
         | (None, x) \<Rightarrow> (Inr (), st\<lparr> xc_World := x \<rparr>))
      else (Inr (), st))"

text \<open>\<open>_wtoi\<close> of the status: white space, a sign, digits.\<close>

definition http_number :: "string \<Rightarrow> DWORD" where
  "http_number s =
     (let t = dropWhile is_space_c s;
          neg = (t \<noteq> [] \<and> hd t = CHR ''-'');
          u = (if t \<noteq> [] \<and> (hd t = CHR ''-'' \<or> hd t = CHR ''+'') then tl t else t);
          n = int (undecimal (takeWhile is_digit_ascii u)) in
      of_int (if neg then max (- n) (- (2 ^ 31)) else min n (2 ^ 31 - 1)))"

text \<open>Which user names are there: of the proxy, of HTTP.\<close>

definition auth_turn :: "'x http_env \<Rightarrow> bool \<Rightarrow> bool \<Rightarrow> 'x exchange \<Rightarrow> ((x_fail + DWORD) \<times> 'x exchange) option" where
  "auth_turn env bProxyUser bHTTPUser st =
     (case set_credentials env True bProxyUser (xc_ProxyScheme st) st of
        (Inl f, st1) \<Rightarrow> Some (Inl f, st1)
      | (Inr _, st1) \<Rightarrow>
        case set_credentials env False bHTTPUser (xc_Scheme st1) st1 of
          (Inl f, st2) \<Rightarrow> Some (Inl f, st2)
        | (Inr _, st2) \<Rightarrow>
          case send_start env st2 of
            None \<Rightarrow> None
          | Some (Inl f, st3) \<Rightarrow> Some (Inl f, st3)
          | Some (Inr _, st3) \<Rightarrow>
            case ht_body env (xc_Cmd st3, xc_World st3) of
              (Inl e, s, x) \<Rightarrow> Some (Inl (throw_code e), st3\<lparr> xc_Cmd := s, xc_World := x \<rparr>)
            | (Inr _, s, x) \<Rightarrow>
              case receive_response env (st3\<lparr> xc_Cmd := s, xc_World := x \<rparr>) of
                None \<Rightarrow> None
              | Some (Inl f, st4) \<Rightarrow> Some (Inl f, st4)
              | Some (Inr _, st4) \<Rightarrow>
                case ht_status env (xc_World st4) of
                  Inl e \<Rightarrow> Some (Inl (throw_code e), st4)
                | Inr t \<Rightarrow> Some (Inr (if t = [] then 0 else http_number t), st4))"

definition HTTP_STATUS_DENIED :: DWORD where "HTTP_STATUS_DENIED = 401"
definition HTTP_STATUS_PROXY_AUTH_REQ :: DWORD where "HTTP_STATUS_PROXY_AUTH_REQ = 407"

text \<open>At most three times; the last answer stands whatever it is.\<close>

primrec auth_loop :: "nat \<Rightarrow> 'x http_env \<Rightarrow> bool \<Rightarrow> bool \<Rightarrow> DWORD \<Rightarrow> 'x exchange \<Rightarrow> ((x_fail + DWORD) \<times> 'x exchange) option" where
  "auth_loop 0 env bProxyUser bHTTPUser dwHttp st = Some (Inr dwHttp, st)"
| "auth_loop (Suc n) env bProxyUser bHTTPUser dwHttp0 st =
     (case auth_turn env bProxyUser bHTTPUser st of
        None \<Rightarrow> None
      | Some (Inl f, st1) \<Rightarrow> Some (Inl f, st1)
      | Some (Inr dwHttp, st1) \<Rightarrow>
          if dwHttp \<noteq> HTTP_STATUS_DENIED \<and> dwHttp \<noteq> HTTP_STATUS_PROXY_AUTH_REQ then Some (Inr dwHttp, st1)
          else
            (case ht_schemes env (xc_World st1) of
               Inl e \<Rightarrow> Some (Inl (throw_code e), st1)
             | Inr dwSupportedSchemes \<Rightarrow>
                 auth_loop n env bProxyUser bHTTPUser dwHttp
                   (if dwHttp = HTTP_STATUS_PROXY_AUTH_REQ then st1\<lparr> xc_ProxyScheme := ChooseAuthScheme dwSupportedSchemes \<rparr>
                    else st1\<lparr> xc_Scheme := ChooseAuthScheme dwSupportedSchemes \<rparr>)))"

section \<open>Headers of the answer\<close>

text \<open>Strings that end with NUL, up to an empty one.\<close>

function LoadNullTermStringArray :: "string \<Rightarrow> string list" where
  "LoadNullTermStringArray s =
     (let h = takeWhile (\<lambda>c. c \<noteq> CHR 0x00) s in
      if h = [] then [] else h # LoadNullTermStringArray (drop (length h + 1) s))"
  by auto
termination
  by (relation "measure length") (auto simp: Let_def takeWhile_eq_Nil_iff length_greater_0_conv)

declare LoadNullTermStringArray.simps [simp del]

type_synonym header_list = "(string \<times> string list) list"

text \<open>The contents go to the first entry of the name, or a new one.\<close>

fun add_content :: "string \<Rightarrow> string \<Rightarrow> header_list \<Rightarrow> header_list" where
  "add_content h v [] = [(h, [v])]"
| "add_content h v ((k, vs) # r) = (if eq_nocase k h then (k, vs @ [v]) # r else (k, vs) # add_content h v r)"

definition trimmed :: "string \<Rightarrow> string" where "trimmed s = TrimLeft (TrimRight s)"

definition header_line :: "string \<Rightarrow> (string \<times> string) option" where
  "header_line line =
     (case find_char CHR '':'' line of None \<Rightarrow> None
      | Some i \<Rightarrow> Some (trimmed (str_left i line), trimmed (str_mid (i + 1) line)))"

definition add_line_header :: "header_list \<Rightarrow> string \<Rightarrow> header_list" where
  "add_line_header l line = (case header_line line of None \<Rightarrow> l | Some (h, v) \<Rightarrow> add_content h v l)"

text \<open>No names are given: all headers; else the contents of the ones given.\<close>

definition get_headers :: "'x http_env \<Rightarrow> header_list \<Rightarrow> 'x \<Rightarrow> header_list" where
  "get_headers env req x =
     (if req = [] then
        (case ht_raw_headers env x of Inl _ \<Rightarrow> [] | Inr raw \<Rightarrow> foldl add_line_header [] (LoadNullTermStringArray raw))
      else map (\<lambda>(h, vs). (h, vs @ ht_header env h x)) req)"

section \<open>Data of the answer\<close>

text \<open>\<open>rv_Data\<close> is RetData, \<open>rv_Alloc\<close> what is in its allocation, \<open>rv_Buf\<close> the data of the stream entry;
  \<open>rv_Pushed\<close> and \<open>rv_Blocks\<close> are history: the entries of the stream, what was downloaded.\<close>

record recv_state =
  rv_Len :: DWORD
  rv_Data :: string
  rv_Alloc :: string
  rv_TotalSize :: ULONGLONG
  rv_ReadBytes :: ULONGLONG
  rv_Pushed :: "stream_entry list"
  rv_Blocks :: "string list"

text \<open>\<open>SetBufSize\<close>: what was not written is what the allocation holds.\<close>

definition resized :: "nat \<Rightarrow> string \<Rightarrow> string \<Rightarrow> string" where
  "resized n alloc xs = take n (xs @ drop (length xs) alloc)"

definition push_stream :: "'x http_env \<Rightarrow> stream_entry \<Rightarrow> recv_state \<Rightarrow> 'x exchange \<Rightarrow> recv_state \<times> 'x exchange" where
  "push_stream env e rv st = (rv\<lparr> rv_Pushed := rv_Pushed rv @ [e] \<rparr>, st\<lparr> xc_World := ht_push env e (xc_World st) \<rparr>)"

text \<open>What is done with \<open>dwDownloaded\<close> bytes of a buffer of \<open>dwSize\<close>.\<close>

definition store_block ::
  "'x http_env \<Rightarrow> bool \<Rightarrow> DWORD \<Rightarrow> DWORD \<Rightarrow> DWORD \<Rightarrow> recv_state \<Rightarrow> 'x exchange \<Rightarrow> recv_state \<times> 'x exchange" where
  "store_block env bStream dwHttp dwSize dwDownloaded rv st =
     (let buf = take (unat dwSize) (ht_buffer env (xc_World st));
          data = take (unat dwDownloaded) buf;
          rv0 = rv\<lparr> rv_Blocks := rv_Blocks rv @ [data] \<rparr>;
          (rv1, st1) =
            (if bStream then
               if dwHttp < 400 then
                 push_stream env \<lparr> se_Data = data, se_bLast = False, se_ullOffset = ucast (rv_Len rv) \<rparr>
                   (rv0\<lparr> rv_TotalSize := rv_TotalSize rv + ucast dwDownloaded,
                         rv_ReadBytes := rv_ReadBytes rv + ucast dwDownloaded \<rparr>) st
               else (rv0\<lparr> rv_Data := buf \<rparr>, st)
             else (rv0\<lparr> rv_Data := resized (unat (rv_Len rv)) (rv_Alloc rv) (rv_Data rv) @ data \<rparr>, st)) in
      (rv1\<lparr> rv_Len := rv_Len rv1 + dwDownloaded \<rparr>, st1))"

text \<open>Without a stream the data goes to \<open>RetData\<close> behind \<open>dwLen\<close>, whose new size is a DWORD.\<close>

definition recv_turn ::
  "'x http_env \<Rightarrow> bool \<Rightarrow> DWORD \<Rightarrow> bool \<Rightarrow> recv_state \<times> 'x exchange \<Rightarrow> ((x_fail + bool) \<times> recv_state \<times> 'x exchange) option" where
  "recv_turn env bStream dwHttp bThrottle w =
     (case run_command env OpQuery 0x40000 (snd w) of
        None \<Rightarrow> None
      | Some (CmdNotStarted e, st1) \<Rightarrow> Some (Inl (Thrown (SetError ((S3_ERROR_new e)\<lparr> dwHttpError := dwHttp \<rparr>))), fst w, st1)
      | Some (CmdFailed e, st1) \<Rightarrow> Some (Inl (throw_code e), fst w, st1)
      | Some (CmdDone, st1) \<Rightarrow>
          let dwSize = dwReadLength (CallbackContext (xc_Cmd st1)) in
          if dwSize = 0 then
            Some (Inr True,
              if bStream \<and> dwHttp < 400
              then push_stream env \<lparr> se_Data = [], se_bLast = True, se_ullOffset = ucast (rv_Len (fst w)) \<rparr> (fst w) st1
              else (fst w, st1))
          else if \<not> bStream \<and> unat (rv_Len (fst w)) + unat dwSize \<ge> 2 ^ 32 then Some (Inl BufferOverrun, fst w, st1)
          else
            (case run_command env (OpRead dwSize) 0x80000 st1 of
               None \<Rightarrow> None
             | Some (CmdNotStarted e, st2) \<Rightarrow> Some (Inl (Thrown (SetError ((S3_ERROR_new e)\<lparr> dwHttpError := dwHttp \<rparr>))), fst w, st2)
             | Some (CmdFailed e, st2) \<Rightarrow> Some (Inl (throw_code e), fst w, st2)
             | Some (CmdDone, st2) \<Rightarrow>
                 let dwDownloaded = dwReadLength (CallbackContext (xc_Cmd st2));
                     (rv1, st3) = store_block env bStream dwHttp dwSize dwDownloaded (fst w) st2 in
                 if bThrottle then
                   (case ht_pause env dwDownloaded (xc_World st3) of
                      (Some e, x) \<Rightarrow> Some (Inl (throw_code e), rv1, st3\<lparr> xc_World := x \<rparr>)
                    | (None, x) \<Rightarrow> Some (Inr False, rv1, st3\<lparr> xc_World := x \<rparr>))
                 else Some (Inr False, rv1, st3)))"

partial_function (option) recv_loop ::
  "'x http_env \<Rightarrow> bool \<Rightarrow> DWORD \<Rightarrow> bool \<Rightarrow> recv_state \<times> 'x exchange \<Rightarrow> ((x_fail + unit) \<times> recv_state \<times> 'x exchange) option" where
  "recv_loop env bStream dwHttp bThrottle w =
     (case recv_turn env bStream dwHttp bThrottle w of
        None \<Rightarrow> None
      | Some (Inl f, w1) \<Rightarrow> Some (Inl f, w1)
      | Some (Inr b, w1) \<Rightarrow> if b then Some (Inr (), w1) else recv_loop env bStream dwHttp bThrottle w1)"

section \<open>The exchange\<close>

record x_request =
  xr_bStream :: bool
  xr_bThrottle :: bool
  xr_bS3Admin :: bool
  xr_BufOffset :: DWORD
  xr_Alloc :: string
  xr_TotalSize :: ULONGLONG
  xr_ReadBytes :: ULONGLONG
  xr_Headers :: "header_list option"
  xr_ProxyUser :: bool
  xr_HTTPUser :: bool
  xr_HostHeader :: string

definition recv_start :: "x_request \<Rightarrow> recv_state" where
  "recv_start rq = \<lparr> rv_Len = xr_BufOffset rq, rv_Data = [], rv_Alloc = xr_Alloc rq, rv_TotalSize = xr_TotalSize rq,
     rv_ReadBytes = xr_ReadBytes rq, rv_Pushed = [], rv_Blocks = [] \<rparr>"

text \<open>The answer to an error is scanned for its details and thrown.\<close>

definition answer_error :: "'x http_env \<Rightarrow> bool \<Rightarrow> DWORD \<Rightarrow> string \<Rightarrow> x_fail + S3_ERROR" where
  "answer_error env bS3Admin dwHttp RetData =
     (let Error = (S3_ERROR_new 0)\<lparr> dwHttpError := dwHttp \<rparr> in
      if dwHttp \<ge> 400 \<and> RetData \<noteq> [] then
        Inl (Thrown (SetError (snd (ScanXml (if bS3Admin then XmlECSAdminErrorCB (ht_maps env) else XmlS3ErrorCB (ht_maps env))
          (ht_reader env RetData) Error))))
      else Inr Error)"

record x_answer =
  xa_Error :: S3_ERROR
  xa_Headers :: "header_list option"
  xa_Recv :: recv_state

definition exchange_try ::
  "'x http_env \<Rightarrow> x_request \<Rightarrow> 'x exchange \<Rightarrow> ((x_fail + S3_ERROR) \<times> header_list option \<times> recv_state \<times> 'x exchange) option" where
  "exchange_try env rq st0 =
     (let hs = xr_Headers rq; rv = recv_start rq in
      case ht_open env (xc_World st0) of
        ((Some e, bOpen, bReg), x) \<Rightarrow> Some (Inl (throw_code e), hs, rv, st0\<lparr> xc_World := x, xc_Open := bOpen, xc_Registered := bReg \<rparr>)
      | ((None, bOpen, bReg), x) \<Rightarrow>
          (case auth_loop 3 env (xr_ProxyUser rq) (xr_HTTPUser rq) 0 (st0\<lparr> xc_World := x, xc_Open := bOpen, xc_Registered := bReg \<rparr>) of
             None \<Rightarrow> None
           | Some (Inl f, st1) \<Rightarrow> Some (Inl f, hs, rv, st1)
           | Some (Inr dwHttp, st1) \<Rightarrow>
               let hs1 = map_option (\<lambda>req. get_headers env req (xc_World st1)) hs in
               (case recv_loop env (xr_bStream rq) dwHttp (xr_bThrottle rq) (rv, st1) of
                  None \<Rightarrow> None
                | Some (Inl f, rv1, st2) \<Rightarrow> Some (Inl f, hs1, rv1, st2)
                | Some (Inr _, rv1, st2) \<Rightarrow> Some (answer_error env (xr_bS3Admin rq) dwHttp (rv_Data rv1), hs1, rv1, st2))))"

text \<open>The handler and the end: the request is closed, and the last callback waited for. The error of a
  secure failure comes with what the callback collected.\<close>

definition ERROR_WINHTTP_SECURE_FAILURE :: DWORD where "ERROR_WINHTTP_SECURE_FAILURE = 12175"

definition exchange_end ::
  "'x http_env \<Rightarrow> x_request \<Rightarrow> x_fail + S3_ERROR \<Rightarrow> 'x exchange \<Rightarrow> (S3_ERROR option \<times> 'x exchange) option" where
  "exchange_end env rq r st =
     (case r of
        Inl BufferOverrun \<Rightarrow> Some (None, st)
      | _ \<Rightarrow>
          (case CloseRequest env st of
             None \<Rightarrow> None
           | Some st1 \<Rightarrow>
               let E = (case r of Inl (Thrown e) \<Rightarrow> e | Inr e \<Rightarrow> e);
                   E1 = (SetError E)\<lparr> sHostAddr := xr_HostHeader rq \<rparr>;
                   E2 = (if \<not> isl r \<or> dwError E1 \<noteq> ERROR_WINHTTP_SECURE_FAILURE then E1
                         else E1\<lparr> dwSecureError := dwSecureErr (xc_Cmd st1) \<rparr>) in
               (case WaitForCallbackDone (ht_cmd env) (xc_Cmd st1, xc_World st1) of
                  None \<Rightarrow> None
                | Some (s, x) \<Rightarrow> Some (Some (SetError E2), st1\<lparr> xc_Cmd := s, xc_World := x \<rparr>))))"

definition SendRequestInternal :: "'x http_env \<Rightarrow> x_request \<Rightarrow> 'x exchange \<Rightarrow> (x_answer option \<times> 'x exchange) option" where
  "SendRequestInternal env rq st0 =
     (case exchange_try env rq (st0\<lparr> xc_Got := False, xc_Cmd := (xc_Cmd st0)\<lparr> dwSecureErr := 0 \<rparr> \<rparr>) of
        None \<Rightarrow> None
      | Some (r, hs, rv, st1) \<Rightarrow>
          (case exchange_end env rq r st1 of
             None \<Rightarrow> None
           | Some (None, st2) \<Rightarrow> Some (None, st2)
           | Some (Some e, st2) \<Rightarrow> Some (Some \<lparr> xa_Error = e, xa_Headers = hs, xa_Recv = rv \<rparr>, st2)))"

section \<open>The data is what came\<close>

text \<open>A read that is done has filled at most the buffer it was given.\<close>

definition reads_ok :: "'x http_env \<Rightarrow> bool" where
  "reads_ok env \<longleftrightarrow> (\<forall>n st st'. run_command env (OpRead n) 0x80000 st = Some (CmdDone, st') \<longrightarrow>
     dwReadLength (CallbackContext (xc_Cmd st')) \<le> n \<and> length (ht_buffer env (xc_World st')) = unat n)"

text \<open>The entries of a stream: a block with its offset, which is cut to 32 bits.\<close>

primrec stream_entries :: "DWORD \<Rightarrow> string list \<Rightarrow> stream_entry list" where
  "stream_entries off [] = []"
| "stream_entries off (b # bs) =
     \<lparr> se_Data = b, se_bLast = False, se_ullOffset = ucast off \<rparr> # stream_entries (off + of_nat (length b)) bs"

definition end_offset :: "DWORD \<Rightarrow> string list \<Rightarrow> DWORD" where
  "end_offset off bs = off + of_nat (length (concat bs))"

lemma stream_entries_append:
  "stream_entries off (bs @ [b]) = stream_entries off bs @ [\<lparr> se_Data = b, se_bLast = False, se_ullOffset = ucast (end_offset off bs) \<rparr>]"
  by (induction bs arbitrary: off) (simp_all add: end_offset_def add.assoc)

definition recv_inv :: "bool \<Rightarrow> DWORD \<Rightarrow> x_request \<Rightarrow> recv_state \<Rightarrow> bool" where
  "recv_inv bStream dwHttp rq rv \<longleftrightarrow>
     rv_Len rv = end_offset (xr_BufOffset rq) (rv_Blocks rv) \<and> rv_Alloc rv = xr_Alloc rq \<and>
     (if bStream then
        if dwHttp < 400 then
          rv_Data rv = [] \<and> rv_Pushed rv = stream_entries (xr_BufOffset rq) (rv_Blocks rv)
          \<and> rv_TotalSize rv = xr_TotalSize rq + of_nat (length (concat (rv_Blocks rv)))
          \<and> rv_ReadBytes rv = xr_ReadBytes rq + of_nat (length (concat (rv_Blocks rv)))
        else rv_Pushed rv = []
      else rv_Pushed rv = [] \<and> unat (xr_BufOffset rq) + length (concat (rv_Blocks rv)) < 2 ^ 32
        \<and> rv_Data rv = (if rv_Blocks rv = [] then [] else take (unat (xr_BufOffset rq)) (xr_Alloc rq) @ concat (rv_Blocks rv)))"

lemma recv_inv_start: "recv_inv bStream dwHttp rq (recv_start rq)"
  using unat_bound32 [of "xr_BufOffset rq"] by (simp add: recv_inv_def recv_start_def end_offset_def)

lemma store_block_inv:
  assumes inv: "recv_inv bStream dwHttp rq rv" and st: "store_block env bStream dwHttp n k rv st = (rv1, st1)"
    and k: "k \<le> n" "length (ht_buffer env (xc_World st)) = unat n" "unat (xr_BufOffset rq) \<le> length (xr_Alloc rq)"
    and room: "bStream \<or> unat (rv_Len rv) + unat n < 2 ^ 32"
  shows "recv_inv bStream dwHttp rq rv1"
proof -
  define data where "data = take (min (unat k) (unat n)) (ht_buffer env (xc_World st))"
  have kn: "unat k \<le> unat n" using k(1) by (simp add: word_le_nat_alt)
  then have len: "length data = unat k" using k(2) by (simp add: data_def)
  have L: "end_offset (xr_BufOffset rq) (rv_Blocks rv @ [data]) = end_offset (xr_BufOffset rq) (rv_Blocks rv) + k"
    by (simp add: end_offset_def add.assoc len)
  have C: "(of_nat (length (concat (rv_Blocks rv @ [data]))) :: ULONGLONG) = of_nat (length (concat (rv_Blocks rv))) + ucast k"
    by (simp add: len)
  show ?thesis
  proof (cases bStream)
    case True
    then show ?thesis using inv st L C
      by (cases "dwHttp < 400")
        (simp_all add: recv_inv_def store_block_def push_stream_def data_def [symmetric] Let_def add.assoc,
          (elim conjE, hypsubst, simp add: stream_entries_append)+)
  next
    case False
    define off where "off = unat (xr_BufOffset rq)"
    have i: "rv_Len rv = end_offset (xr_BufOffset rq) (rv_Blocks rv)" "rv_Alloc rv = xr_Alloc rq" "off + length (concat (rv_Blocks rv)) < 2 ^ 32"
        "rv_Data rv = (if rv_Blocks rv = [] then [] else take off (xr_Alloc rq) @ concat (rv_Blocks rv))"
      using inv False by (auto simp: recv_inv_def off_def)
    have u: "unat (rv_Len rv) = off + length (concat (rv_Blocks rv))"
      using i(3) unfolding i(1) end_offset_def off_def by (subst unat_add_no_wrap) (simp_all add: unat_of_nat32)
    have r: "resized (unat (rv_Len rv)) (xr_Alloc rq) (rv_Data rv) = take off (xr_Alloc rq) @ concat (rv_Blocks rv)"
      using k(3) unfolding u resized_def i(4) by (auto simp: off_def [symmetric])
    have "off + length (concat (rv_Blocks rv @ [data])) < 2 ^ 32" using room False u kn len by simp
    moreover have "rv1 = rv\<lparr> rv_Blocks := rv_Blocks rv @ [data], rv_Data := take off (xr_Alloc rq) @ concat (rv_Blocks rv) @ data,
        rv_Len := end_offset (xr_BufOffset rq) (rv_Blocks rv) + k \<rparr>"
      using st False r i(1,2) by (auto simp: store_block_def data_def Let_def)
    ultimately show ?thesis using inv False i(2) L by (simp add: recv_inv_def off_def [symmetric])
  qed
qed

text \<open>A finished stream ends with the last entry, a stream that is not finished does not.\<close>

definition recv_done :: "bool \<Rightarrow> DWORD \<Rightarrow> x_request \<Rightarrow> recv_state \<Rightarrow> bool" where
  "recv_done bStream dwHttp rq rv \<longleftrightarrow>
     (if bStream \<and> dwHttp < 400 then
        \<exists>rv0. recv_inv bStream dwHttp rq rv0 \<and> rv_Blocks rv = rv_Blocks rv0 \<and> rv_Data rv = rv_Data rv0
          \<and> rv_TotalSize rv = rv_TotalSize rv0 \<and> rv_ReadBytes rv = rv_ReadBytes rv0
          \<and> rv_Pushed rv = rv_Pushed rv0 @ [\<lparr> se_Data = [], se_bLast = True, se_ullOffset = ucast (end_offset (xr_BufOffset rq) (rv_Blocks rv0)) \<rparr>]
      else recv_inv bStream dwHttp rq rv)"

lemma recv_turn_inv:
  assumes ok: "reads_ok env" "unat (xr_BufOffset rq) \<le> length (xr_Alloc rq)" and inv: "recv_inv bStream dwHttp rq (fst w)"
    and t: "recv_turn env bStream dwHttp bThrottle w = Some (Inr b, w1)"
  shows "if b then recv_done bStream dwHttp rq (fst w1) else recv_inv bStream dwHttp rq (fst w1)"
proof -
  obtain st1 where q: "run_command env OpQuery 0x40000 (snd w) = Some (CmdDone, st1)"
    using t by (auto simp: recv_turn_def split: option.splits cmd_result.splits prod.splits)
  let ?n = "dwReadLength (CallbackContext (xc_Cmd st1))"
  show ?thesis
  proof (cases "?n = 0")
    case True
    then show ?thesis using t inv
      by (auto simp: recv_turn_def q Let_def recv_done_def push_stream_def recv_inv_def [of _ _ _ "fst w"] split: if_splits
          intro!: exI [of _ "fst w"])
  next
    case False
    then have room: "bStream \<or> unat (rv_Len (fst w)) + unat ?n < 2 ^ 32" and
      t1: "(case run_command env (OpRead ?n) 0x80000 st1 of
             None \<Rightarrow> None
           | Some (CmdNotStarted e, st2) \<Rightarrow> Some (Inl (Thrown (SetError ((S3_ERROR_new e)\<lparr> dwHttpError := dwHttp \<rparr>))), fst w, st2)
           | Some (CmdFailed e, st2) \<Rightarrow> Some (Inl (throw_code e), fst w, st2)
           | Some (CmdDone, st2) \<Rightarrow>
               let dwDownloaded = dwReadLength (CallbackContext (xc_Cmd st2));
                   (rv1, st3) = store_block env bStream dwHttp ?n dwDownloaded (fst w) st2 in
               if bThrottle then
                 (case ht_pause env dwDownloaded (xc_World st3) of
                    (Some e, x) \<Rightarrow> Some (Inl (throw_code e), rv1, st3\<lparr> xc_World := x \<rparr>)
                  | (None, x) \<Rightarrow> Some (Inr False, rv1, st3\<lparr> xc_World := x \<rparr>))
               else Some (Inr False, rv1, st3)) = Some (Inr b, w1)"
      using t by (auto simp: recv_turn_def q Let_def split: if_splits)
    obtain st2 where rd: "run_command env (OpRead ?n) 0x80000 st1 = Some (CmdDone, st2)"
      using t1 by (auto split: option.splits cmd_result.splits prod.splits)
    obtain rv1 st3 where sb: "store_block env bStream dwHttp ?n (dwReadLength (CallbackContext (xc_Cmd st2))) (fst w) st2 = (rv1, st3)" by fastforce
    have "recv_inv bStream dwHttp rq rv1"
      using ok rd by (intro store_block_inv [OF inv sb _ _ _ room]) (auto simp: reads_ok_def)
    moreover have "\<not> b \<and> fst w1 = rv1" using t1 unfolding rd by (auto simp: sb Let_def split: if_splits prod.splits option.splits)
    ultimately show ?thesis by simp
  qed
qed

lemma recv_loop_done:
  assumes "recv_loop env bStream dwHttp bThrottle w = Some r"
  shows "reads_ok env \<Longrightarrow> unat (xr_BufOffset rq) \<le> length (xr_Alloc rq) \<Longrightarrow> recv_inv bStream dwHttp rq (fst w) \<Longrightarrow>
    fst r = Inr () \<Longrightarrow> recv_done bStream dwHttp rq (fst (snd r))"
proof -
  let ?P = "\<lambda>env bStream dwHttp bThrottle w (r :: (x_fail + unit) \<times> recv_state \<times> 'a exchange).
    reads_ok env \<longrightarrow> unat (xr_BufOffset rq) \<le> length (xr_Alloc rq) \<longrightarrow> recv_inv bStream dwHttp rq (fst w) \<longrightarrow>
    fst r = Inr () \<longrightarrow> recv_done bStream dwHttp rq (fst (snd r))"
  have "?P env bStream dwHttp bThrottle w r"
  proof (rule recv_loop.raw_induct [where P = ?P, OF _ assms])
    fix loop :: "'a http_env \<Rightarrow> bool \<Rightarrow> DWORD \<Rightarrow> bool \<Rightarrow> recv_state \<times> 'a exchange \<Rightarrow> ((x_fail + unit) \<times> recv_state \<times> 'a exchange) option"
      and env bStream dwHttp bThrottle w r
    assume IH: "\<And>env bStream dwHttp bThrottle w r. loop env bStream dwHttp bThrottle w = Some r \<Longrightarrow> ?P env bStream dwHttp bThrottle w r"
      and d: "(case recv_turn env bStream dwHttp bThrottle w of
        None \<Rightarrow> None
      | Some (Inl f, w1) \<Rightarrow> Some (Inl f, w1)
      | Some (Inr b, w1) \<Rightarrow> if b then Some (Inr (), w1) else loop env bStream dwHttp bThrottle w1) = Some r"
    show "?P env bStream dwHttp bThrottle w r"
    proof (intro impI)
      assume ok: "reads_ok env" "unat (xr_BufOffset rq) \<le> length (xr_Alloc rq)" and inv: "recv_inv bStream dwHttp rq (fst w)"
        and r: "fst r = Inr ()"
      obtain b w1 where t: "recv_turn env bStream dwHttp bThrottle w = Some (Inr b, w1)"
        using d r by (auto split: option.splits prod.splits sum.splits)
      note i = recv_turn_inv [OF ok inv t]
      show "recv_done bStream dwHttp rq (fst (snd r))"
      proof (cases b)
        case True
        then show ?thesis using i d t by auto
      next
        case False
        then have "loop env bStream dwHttp bThrottle w1 = Some r" using d t by simp
        then show ?thesis using IH ok i False r by auto
      qed
    qed
  qed
  then show "reads_ok env \<Longrightarrow> unat (xr_BufOffset rq) \<le> length (xr_Alloc rq) \<Longrightarrow> recv_inv bStream dwHttp rq (fst w) \<Longrightarrow>
    fst r = Inr () \<Longrightarrow> recv_done bStream dwHttp rq (fst (snd r))" by blast
qed

text \<open>What the result of a finished exchange is.\<close>

definition data_complete :: "x_request \<Rightarrow> recv_state \<Rightarrow> bool" where
  "data_complete rq rv \<longleftrightarrow>
     (if xr_bStream rq then
        rv_Data rv = []
        \<and> rv_Pushed rv = stream_entries (xr_BufOffset rq) (rv_Blocks rv)
            @ [\<lparr> se_Data = [], se_bLast = True, se_ullOffset = ucast (end_offset (xr_BufOffset rq) (rv_Blocks rv)) \<rparr>]
        \<and> rv_TotalSize rv = xr_TotalSize rq + of_nat (length (concat (rv_Blocks rv)))
        \<and> rv_ReadBytes rv = xr_ReadBytes rq + of_nat (length (concat (rv_Blocks rv)))
      else rv_Data rv = (if rv_Blocks rv = [] then [] else take (unat (xr_BufOffset rq)) (xr_Alloc rq) @ concat (rv_Blocks rv)))"

lemma recv_done_complete:
  "recv_done (xr_bStream rq) dwHttp rq rv \<Longrightarrow> dwHttp < 400 \<Longrightarrow> data_complete rq rv"
  by (auto simp: recv_done_def data_complete_def recv_inv_def)

section \<open>What is thrown is an error\<close>

text \<open>Calls that fail give a code other than 0.\<close>

definition codes_ok :: "'x http_env \<Rightarrow> bool" where
  "codes_ok env \<longleftrightarrow> cmd_codes (ht_cmd env)
     \<and> (\<forall>op x. fst (ht_begin env op x) \<noteq> Some 0) \<and> (\<forall>x. fst (fst (ht_open env x)) \<noteq> Some 0)
     \<and> (\<forall>b n x. fst (ht_credentials env b n x) \<noteq> Some 0) \<and> (\<forall>w. fst (ht_body env w) \<noteq> Inl 0)
     \<and> (\<forall>x. ht_status env x \<noteq> Inl 0) \<and> (\<forall>x. ht_schemes env x \<noteq> Inl 0) \<and> (\<forall>n x. fst (ht_pause env n x) \<noteq> Some 0)"

definition real_fail :: "x_fail \<Rightarrow> bool" where
  "real_fail f \<longleftrightarrow> (case f of Thrown e \<Rightarrow> IfError e | BufferOverrun \<Rightarrow> True)"

definition real_error :: "x_fail + 'a \<Rightarrow> bool" where
  "real_error r \<longleftrightarrow> (case r of Inl f \<Rightarrow> real_fail f | Inr _ \<Rightarrow> True)"

lemma real_error_simps [simp]:
  "real_error (Inr v)" "real_error (Inl f) \<longleftrightarrow> real_fail f" "real_fail BufferOverrun" "real_fail (Thrown e) \<longleftrightarrow> IfError e"
  by (simp_all add: real_error_def real_fail_def)

lemma real_throw [simp]: "n \<noteq> 0 \<Longrightarrow> real_fail (throw_code n)"
  by (simp add: throw_code_def) (simp add: IfError_def S3_ERROR_new_def)

lemma IfError_coded: "e \<noteq> 0 \<Longrightarrow> IfError ((S3_ERROR_new e)\<lparr> dwHttpError := h \<rparr>)"
  by (simp add: IfError_def S3_ERROR_new_def)

lemma run_command_coded:
  assumes "run_command env op ex st = Some (r, st')" "codes_ok env"
  shows "r \<noteq> CmdNotStarted 0 \<and> r \<noteq> CmdFailed 0"
  using assms WaitComplete_coded [of "ht_cmd env" "ht_Timeout env" ex "ht_Thread env" "xc_Cmd st"]
  by (auto simp: run_command_def codes_ok_def Let_def split: prod.splits option.splits if_splits) (metis fst_conv)+

lemma run_command_got: "run_command env op ex st = Some (r, st') \<Longrightarrow> xc_Got st' = xc_Got st"
  by (auto simp: run_command_def Let_def split: prod.splits option.splits)

lemma send_start_real:
  assumes "send_start env st = Some r"
  shows "codes_ok env \<Longrightarrow> real_error (fst r)"
proof -
  let ?P = "\<lambda>env (st :: 'a exchange) (r :: (x_fail + unit) \<times> 'a exchange). codes_ok env \<longrightarrow> real_error (fst r)"
  have "?P env st r"
  proof (rule send_start.raw_induct [where P = ?P, OF _ assms])
    fix loop :: "'a http_env \<Rightarrow> 'a exchange \<Rightarrow> ((x_fail + unit) \<times> 'a exchange) option" and env st r
    assume IH: "\<And>env st r. loop env st = Some r \<Longrightarrow> ?P env st r"
      and d: "(case run_command env OpSend 0x400000 st of
        None \<Rightarrow> None
      | Some (r, st1) \<Rightarrow>
          (case r of
             CmdDone \<Rightarrow> Some (Inr (), st1)
           | CmdNotStarted e \<Rightarrow> if e = ERROR_WINHTTP_RESEND_REQUEST then loop env st1 else Some (Inl (throw_code e), st1)
           | CmdFailed e \<Rightarrow> if e = ERROR_WINHTTP_RESEND_REQUEST then loop env st1 else Some (Inl (throw_code e), st1))) = Some r"
    show "?P env st r"
    proof
      assume c: "codes_ok env"
      obtain q st1 where q: "run_command env OpSend 0x400000 st = Some (q, st1)" using d by (auto split: option.splits)
      show "real_error (fst r)"
        using d q c run_command_coded [OF q c] IH [of env st1 r] by (cases q) (auto split: if_splits)
    qed
  qed
  then show "codes_ok env \<Longrightarrow> real_error (fst r)" by blast
qed

lemma receive_response_real:
  assumes "receive_response env st = Some (r, st')" "codes_ok env"
  shows "real_error r \<and> (\<forall>n. r = Inr n \<longrightarrow> xc_Got st')"
proof -
  obtain q st1 where q: "run_command env OpReceive 0x20000 st = Some (q, st1)"
    using assms(1) by (auto simp: receive_response_def split: option.splits)
  have "q \<noteq> CmdNotStarted 0 \<and> q \<noteq> CmdFailed 0" by (rule run_command_coded [OF q assms(2)])
  then show ?thesis using assms(1) by (cases q) (auto simp: receive_response_def q)
qed

lemma set_credentials_real:
  assumes "set_credentials env b w n st = (r, st')" "codes_ok env"
  shows "real_error r"
proof (cases "ht_credentials env b n (xc_World st)")
  case (Pair o1 x)
  have "o1 \<noteq> Some 0" using assms(2) Pair unfolding codes_ok_def by (metis fst_conv)
  then show ?thesis using assms(1) by (cases o1) (auto simp: set_credentials_def Pair split: if_splits)
qed

lemma auth_turn_real:
  assumes "auth_turn env u v st = Some (r, st')" "codes_ok env"
  shows "real_error r \<and> (\<forall>n. r = Inr n \<longrightarrow> xc_Got st')"
proof -
  obtain r1 st1 where c1: "set_credentials env True u (xc_ProxyScheme st) st = (r1, st1)" by fastforce
  obtain r2 st2 where c2: "set_credentials env False v (xc_Scheme st1) st1 = (r2, st2)" by fastforce
  note real = set_credentials_real [OF c1 assms(2)] set_credentials_real [OF c2 assms(2)]
  show ?thesis
  proof (cases "isl r1 \<or> isl r2")
    case True
    then show ?thesis using assms(1) real by (cases r1; cases r2) (auto simp: auth_turn_def c1 c2)
  next
    case False
    then obtain r3 st3 where s: "send_start env st2 = Some (r3, st3)"
      using assms(1) by (cases r1; cases r2) (auto simp: auth_turn_def c1 c2 split: option.splits)
    obtain r4 s4 x4 where b: "ht_body env (xc_Cmd st3, xc_World st3) = (r4, s4, x4)" by (metis prod_cases3)
    have "r4 \<noteq> Inl 0" using assms(2) b unfolding codes_ok_def by (metis fst_conv)
    then have real4: "isl r4 \<Longrightarrow> real_error (Inl (throw_code (projl r4)))" by (cases r4) auto
    have t: "(case r3 of Inl f \<Rightarrow> Some (Inl f, st3) | Inr _ \<Rightarrow>
          case r4 of Inl e \<Rightarrow> Some (Inl (throw_code e), st3\<lparr> xc_Cmd := s4, xc_World := x4 \<rparr>)
          | Inr _ \<Rightarrow> case receive_response env (st3\<lparr> xc_Cmd := s4, xc_World := x4 \<rparr>) of
              None \<Rightarrow> None
            | Some (Inl f, st4) \<Rightarrow> Some (Inl f, st4)
            | Some (Inr _, st4) \<Rightarrow> case ht_status env (xc_World st4) of
                  Inl e \<Rightarrow> Some (Inl (throw_code e), st4)
                | Inr t \<Rightarrow> Some (Inr (if t = [] then 0 else http_number t), st4)) = Some (r, st')"
      using assms(1) False s b by (cases r1; cases r2; cases r3) (auto simp: auth_turn_def c1 c2)
    show ?thesis
    proof (cases "isl r3 \<or> isl r4")
      case True
      then show ?thesis using t real4 send_start_real [OF s assms(2)] by (cases r3; cases r4) auto
    next
      case False
      then obtain r5 st5 where rr: "receive_response env (st3\<lparr> xc_Cmd := s4, xc_World := x4 \<rparr>) = Some (r5, st5)"
        using t by (cases r3; cases r4) (auto split: option.splits)
      have "ht_status env (xc_World st5) \<noteq> Inl 0" using assms(2) by (simp add: codes_ok_def)
      then show ?thesis using t False receive_response_real [OF rr assms(2)]
        by (cases r3; cases r4; cases r5; cases "ht_status env (xc_World st5)") (auto simp: rr)
    qed
  qed
qed

lemma auth_loop_real:
  "\<lbrakk> auth_loop n env u v h st = Some (r, st'); codes_ok env \<rbrakk> \<Longrightarrow> real_error r \<and> (\<forall>m. r = Inr m \<longrightarrow> n > 0 \<longrightarrow> xc_Got st')"
proof (induction n arbitrary: h st)
  case (Suc n)
  obtain r1 st1 where t: "auth_turn env u v st = Some (r1, st1)" using Suc.prems(1) by (auto split: option.splits)
  note real = auth_turn_real [OF t Suc.prems(2)]
  show ?case
  proof (cases "isl r1 \<or> (projr r1 \<noteq> HTTP_STATUS_DENIED \<and> projr r1 \<noteq> HTTP_STATUS_PROXY_AUTH_REQ)")
    case True
    then show ?thesis using Suc.prems(1) t real by (cases r1) (auto split: if_splits)
  next
    case False
    then obtain dwHttp where h: "r1 = Inr dwHttp" "dwHttp = HTTP_STATUS_DENIED \<or> dwHttp = HTTP_STATUS_PROXY_AUTH_REQ"
      by (cases r1) auto
    show ?thesis
    proof (cases "ht_schemes env (xc_World st1)")
      case (Inl e)
      then have "e \<noteq> 0" using Suc.prems(2) unfolding codes_ok_def by metis
      then show ?thesis using Suc.prems(1) t h Inl by auto
    next
      case (Inr m)
      let ?st = "if dwHttp = HTTP_STATUS_PROXY_AUTH_REQ then st1\<lparr> xc_ProxyScheme := ChooseAuthScheme m \<rparr>
                    else st1\<lparr> xc_Scheme := ChooseAuthScheme m \<rparr>"
      have l: "auth_loop n env u v dwHttp ?st = Some (r, st')"
      proof -
        have "\<not> (dwHttp \<noteq> HTTP_STATUS_DENIED \<and> dwHttp \<noteq> HTTP_STATUS_PROXY_AUTH_REQ)" using h(2) by blast
        then show ?thesis using Suc.prems(1) by (simp only: auth_loop.simps(2) t h(1) Inr option.case prod.case sum.case if_False)
      qed
      show ?thesis
      proof (cases n)
        case 0
        then show ?thesis using l real h by (auto split: if_splits)
      next
        case (Suc k)
        then show ?thesis using Suc.IH [OF l Suc.prems(2)] by simp
      qed
    qed
  qed
qed auto

lemma recv_turn_real:
  assumes "recv_turn env bStream dwHttp bThrottle w = Some (r, w1)" "codes_ok env"
  shows "real_error r \<and> xc_Got (snd w1) = xc_Got (snd w)"
proof -
  obtain q st1 where q: "run_command env OpQuery 0x40000 (snd w) = Some (q, st1)"
    using assms(1) by (auto simp: recv_turn_def split: option.splits)
  note cq = run_command_coded [OF q assms(2)] and gq = run_command_got [OF q]
  let ?n = "dwReadLength (CallbackContext (xc_Cmd st1))"
  show ?thesis
  proof (cases "q \<noteq> CmdDone \<or> ?n = 0 \<or> \<not> bStream \<and> unat (rv_Len (fst w)) + unat ?n \<ge> 2 ^ 32")
    case True
    then show ?thesis using assms(1) cq gq
      by (cases q) (auto simp: recv_turn_def q Let_def push_stream_def IfError_coded split: if_splits)
  next
    case False
    have s: "xc_Got (snd (store_block env bStream dwHttp n k rv st)) = xc_Got st" for n k rv st
      by (simp add: store_block_def push_stream_def Let_def)
    obtain d st2 where d: "run_command env (OpRead ?n) 0x80000 st1 = Some (d, st2)"
      using assms(1) False by (auto simp: recv_turn_def q Let_def split: option.splits)
    note cd = run_command_coded [OF d assms(2)] and gd = run_command_got [OF d]
    obtain rv1 st3 where sb: "store_block env bStream dwHttp ?n (dwReadLength (CallbackContext (xc_Cmd st2))) (fst w) st2 = (rv1, st3)"
      by fastforce
    have g3: "xc_Got st3 = xc_Got st2" using s [of ?n "dwReadLength (CallbackContext (xc_Cmd st2))" "fst w" st2] by (simp add: sb)
    obtain p x where p: "ht_pause env (dwReadLength (CallbackContext (xc_Cmd st2))) (xc_World st3) = (p, x)" by fastforce
    have "p \<noteq> Some 0" using assms(2) p unfolding codes_ok_def by (metis fst_conv)
    then show ?thesis using assms(1) False cd gd gq g3
      by (cases d; cases p) (auto simp: recv_turn_def q d sb p Let_def IfError_coded split: if_splits)
  qed
qed

lemma recv_loop_real:
  assumes "recv_loop env bStream dwHttp bThrottle w = Some r"
  shows "codes_ok env \<Longrightarrow> real_error (fst r) \<and> xc_Got (snd (snd r)) = xc_Got (snd w)"
proof -
  let ?P = "\<lambda>env (bStream::bool) (dwHttp::DWORD) (bThrottle::bool) w (r :: (x_fail + unit) \<times> recv_state \<times> 'a exchange).
    codes_ok env \<longrightarrow> real_error (fst r) \<and> xc_Got (snd (snd r)) = xc_Got (snd (w :: recv_state \<times> 'a exchange))"
  have "?P env bStream dwHttp bThrottle w r"
  proof (rule recv_loop.raw_induct [where P = ?P, OF _ assms])
    fix loop :: "'a http_env \<Rightarrow> bool \<Rightarrow> DWORD \<Rightarrow> bool \<Rightarrow> recv_state \<times> 'a exchange \<Rightarrow> ((x_fail + unit) \<times> recv_state \<times> 'a exchange) option"
      and env bStream dwHttp bThrottle w r
    assume IH: "\<And>env bStream dwHttp bThrottle w r. loop env bStream dwHttp bThrottle w = Some r \<Longrightarrow> ?P env bStream dwHttp bThrottle w r"
      and d: "(case recv_turn env bStream dwHttp bThrottle w of
        None \<Rightarrow> None
      | Some (Inl f, w1) \<Rightarrow> Some (Inl f, w1)
      | Some (Inr b, w1) \<Rightarrow> if b then Some (Inr (), w1) else loop env bStream dwHttp bThrottle w1) = Some r"
    show "?P env bStream dwHttp bThrottle w r"
    proof
      assume c: "codes_ok env"
      obtain q w1 where t: "recv_turn env bStream dwHttp bThrottle w = Some (q, w1)"
        using d by (auto split: option.splits)
      show "real_error (fst r) \<and> xc_Got (snd (snd r)) = xc_Got (snd w)"
        using d recv_turn_real [OF t c] c IH [of env bStream dwHttp bThrottle w1 r] by (cases q) (auto simp: t split: if_splits)
    qed
  qed
  then show "codes_ok env \<Longrightarrow> real_error (fst r) \<and> xc_Got (snd (snd r)) = xc_Got (snd w)" by blast
qed

lemma error_callbacks_keep_status:
  "dwHttpError (snd (XmlS3ErrorCB maps ev e)) = dwHttpError e" "dwHttpError (snd (XmlECSAdminErrorCB maps ev e)) = dwHttpError e"
  by (auto simp: XmlS3ErrorCB_def XmlECSAdminErrorCB_def split: xml_event.splits)

lemma answer_error_real: "real_error (answer_error env adm dwHttp data)"
proof (cases "dwHttp \<ge> 400 \<and> data \<noteq> []")
  case True
  let ?cb = "if adm then XmlECSAdminErrorCB (ht_maps env) else XmlS3ErrorCB (ht_maps env)"
  have "dwHttpError (snd (ScanXml ?cb (ht_reader env data) ((S3_ERROR_new 0)\<lparr> dwHttpError := dwHttp \<rparr>))) = dwHttp"
    by (rule ScanXml_keeps [where P = "\<lambda>e. dwHttpError e = dwHttp"]) (simp_all add: error_callbacks_keep_status)
  then show ?thesis using True by (cases adm) (simp_all add: answer_error_def Let_def IfError_http)
qed (auto simp: answer_error_def Let_def)

lemma exchange_try_real:
  assumes t: "exchange_try env rq st = Some (r, hs, rv, st')" and ok: "reads_ok env" "codes_ok env"
    "unat (xr_BufOffset rq) \<le> length (xr_Alloc rq)"
  shows "real_error r \<and> (\<forall>e. r = Inr e \<longrightarrow> xc_Got st' \<and> recv_done (xr_bStream rq) (dwHttpError e) rq rv)"
proof -
  obtain o1 b g x where o: "ht_open env (xc_World st) = ((o1, b, g), x)" by (metis prod_cases3 surj_pair)
  let ?st = "st\<lparr> xc_World := x, xc_Open := b, xc_Registered := g \<rparr>"
  show ?thesis
  proof (cases o1)
    case (Some e)
    then have "e \<noteq> 0" using ok(2) o unfolding codes_ok_def by (metis fst_conv)
    then show ?thesis using t o Some by (auto simp: exchange_try_def Let_def)
  next
    case None
    then obtain r1 st1 where a: "auth_loop 3 env (xr_ProxyUser rq) (xr_HTTPUser rq) 0 ?st = Some (r1, st1)"
      using t o by (auto simp: exchange_try_def Let_def split: option.splits)
    note ar = auth_loop_real [OF a ok(2)]
    show ?thesis
    proof (cases r1)
      case (Inl f)
      then show ?thesis using t o None a ar by (auto simp: exchange_try_def Let_def)
    next
      case (Inr h)
      then obtain r2 rv2 st2 where l: "recv_loop env (xr_bStream rq) h (xr_bThrottle rq) (recv_start rq, st1) = Some (r2, rv2, st2)"
        using t o None a by (auto simp: exchange_try_def Let_def split: option.splits)
      note lr = recv_loop_real [OF l ok(2)] and ld = recv_loop_done [OF l ok(1,3)]
      show ?thesis
      proof (cases r2)
        case (Inl f)
        then show ?thesis using t o None a Inr l lr by (auto simp: exchange_try_def Let_def)
      next
        case ur: (Inr u)
        have eq: "answer_error env (xr_bS3Admin rq) h (rv_Data rv2) = r" "rv2 = rv" "st2 = st'"
          using t o None a Inr l ur by (auto simp: exchange_try_def Let_def)
        have "recv_done (xr_bStream rq) h rq rv" using ld recv_inv_start ur eq(2) by simp
        moreover have "dwHttpError e = h" if "r = Inr e" for e
          using that eq(1) by (auto simp: answer_error_def Let_def split: if_splits)
        ultimately show ?thesis using eq ar lr Inr answer_error_real [of env "xr_bS3Admin rq" h "rv_Data rv2"] by auto
      qed
    qed
  qed
qed

lemma CloseRequest_got: "CloseRequest env st = Some st' \<Longrightarrow> xc_Got st' = xc_Got st"
  by (auto simp: CloseRequest_def split: if_splits option.splits prod.splits)

lemma exchange_end_result:
  assumes "exchange_end env rq r st = Some (Some e, st')" "real_error r" "\<not> IfError e"
  shows "\<exists>e0. r = Inr e0 \<and> dwHttpError e = dwHttpError e0 \<and> dwHttpError e < 400 \<and> xc_Got st' = xc_Got st"
proof -
  obtain st1 where c: "CloseRequest env st = Some st1"
    using assms(1) by (auto simp: exchange_end_def split: sum.splits x_fail.splits option.splits)
  obtain s x where w: "WaitForCallbackDone (ht_cmd env) (xc_Cmd st1, xc_World st1) = Some (s, x)"
    using assms(1) c by (auto simp: exchange_end_def Let_def split: sum.splits x_fail.splits option.splits)
  have http: "dwHttpError (SetError q) = dwHttpError q" for q by (simp add: SetError_def split: option.splits)
  have err: "IfError (q\<lparr> sHostAddr := a \<rparr>) = IfError q" "IfError (q\<lparr> dwSecureError := b \<rparr>) = IfError q" for q a b
    by (simp_all add: IfError_def)
  show ?thesis
  proof (cases r)
    case (Inl f)
    then show ?thesis using assms c w by (cases f) (auto simp: exchange_end_def Let_def err split: if_splits)
  next
    case (Inr e0)
    then have "e = SetError ((SetError e0)\<lparr> sHostAddr := xr_HostHeader rq \<rparr>)" "xc_Got st' = xc_Got st"
      using assms(1) c w CloseRequest_got [OF c] by (auto simp: exchange_end_def Let_def)
    moreover have "\<not> dwHttpError e \<ge> 400" using assms(3) by (auto simp: IfError_def)
    ultimately show ?thesis using Inr by (auto simp: http)
  qed
qed

section \<open>Headers are grouped by name\<close>

definition header_values :: "string \<Rightarrow> header_list \<Rightarrow> string list" where
  "header_values h l = concat (map snd (filter (\<lambda>e. eq_nocase (fst e) h) l))"

definition names_differ :: "header_list \<Rightarrow> bool" where
  "names_differ l \<longleftrightarrow> distinct (map (\<lambda>e. lower_str (fst e)) l)"

lemma eq_nocase_lower: "eq_nocase a b \<longleftrightarrow> lower_str a = lower_str b"
  by (simp add: eq_nocase_def)

lemma header_values_Cons [simp]:
  "header_values k [] = []" "header_values k (e # r) = (if eq_nocase (fst e) k then snd e else []) @ header_values k r"
  by (simp_all add: header_values_def)

lemma add_content_names:
  "map (\<lambda>e. lower_str (fst e)) (add_content h v l) =
     map (\<lambda>e. lower_str (fst e)) l @ (if lower_str h \<in> set (map (\<lambda>e. lower_str (fst e)) l) then [] else [lower_str h])"
  by (induction h v l rule: add_content.induct) (auto simp: eq_nocase_lower)

lemma header_values_other: "lower_str k \<notin> set (map (\<lambda>e. lower_str (fst e)) l) \<Longrightarrow> header_values k l = []"
  by (induction l) (auto simp: eq_nocase_lower)

lemma add_content_values:
  "names_differ l \<Longrightarrow> header_values k (add_content h v l) = header_values k l @ (if eq_nocase h k then [v] else [])"
proof (induction h v l rule: add_content.induct)
  case (2 h v k' vs r)
  have "eq_nocase k' k \<Longrightarrow> header_values k r = []"
    using 2(2) by (intro header_values_other) (auto simp: names_differ_def eq_nocase_lower)
  then show ?case using 2 by (auto simp: names_differ_def eq_nocase_lower)
qed simp

lemma raw_headers_fold:
  assumes "names_differ l"
  shows "names_differ (foldl add_line_header l lines) \<and>
    header_values k (foldl add_line_header l lines) =
      header_values k l @ map snd (filter (\<lambda>e. eq_nocase (fst e) k) (List.map_filter header_line lines))"
  using assms
proof (induction lines arbitrary: l)
  case (Cons line lines)
  show ?case
  proof (cases "header_line line")
    case None
    then show ?thesis using Cons by (simp add: add_line_header_def map_filter_simps)
  next
    case (Some e)
    obtain h v where e: "e = (h, v)" by fastforce
    have n: "names_differ (add_content h v l)"
      using Cons.prems unfolding names_differ_def add_content_names by auto
    show ?thesis
      using Cons.IH [OF n] add_content_values [OF Cons.prems, of k h v] Some e
      by (simp add: add_line_header_def map_filter_simps)
  qed
qed (simp add: map_filter_simps)

text \<open>The block that WinHTTP gives: lines, each ended by NUL, and a last NUL.\<close>

definition nul_block :: "string list \<Rightarrow> string" where
  "nul_block lines = concat (map (\<lambda>l. l @ [CHR 0x00]) lines) @ [CHR 0x00]"

lemma LoadNullTermStringArray_block:
  "\<forall>l \<in> set lines. l \<noteq> [] \<and> CHR 0x00 \<notin> set l \<Longrightarrow> LoadNullTermStringArray (nul_block lines) = lines"
proof (induction lines)
  case Nil
  show ?case by (subst LoadNullTermStringArray.simps) (simp add: nul_block_def)
next
  case (Cons l lines)
  have b: "nul_block (l # lines) = l @ CHR 0x00 # nul_block lines" by (simp add: nul_block_def)
  have "takeWhile (\<lambda>c. c \<noteq> CHR 0x00) (l @ CHR 0x00 # nul_block lines) = l"
    using Cons.prems by (subst takeWhile_append2) auto
  then show ?case using Cons by (subst LoadNullTermStringArray.simps) (simp add: b Let_def)
qed

section \<open>A server\<close>

text \<open>A server that answers 200 with the given blocks, for witnesses: the callback of the command under way,
  the blocks to come, the buffer of the last read.\<close>

type_synonym script = "http_callback option \<times> string list \<times> string"

definition demo_callback :: "http_callback option \<Rightarrow> http_callback" where
  "demo_callback p = (case p of None \<Rightarrow> HandleClosing | Some cb \<Rightarrow> if is_failure cb then HandleClosing else cb)"

definition demo_cmd :: "script cmd_env" where
  "demo_cmd = \<lparr> ce_wait = (\<lambda>(p, bs, buf). ((WaitDone, [(0, demo_callback p)]), (None, bs, buf))),
     ce_abort = (\<lambda>_. False) \<rparr>"

fun demo_begin :: "http_op \<Rightarrow> script \<Rightarrow> DWORD option \<times> script" where
  "demo_begin OpSend (p, bs, buf) = (None, Some SendRequestComplete, bs, buf)"
| "demo_begin OpReceive (p, bs, buf) = (None, Some HeadersAvailable, bs, buf)"
| "demo_begin OpQuery (p, bs, buf) = (None, Some (DataAvailable (case bs of [] \<Rightarrow> 0 | b # _ \<Rightarrow> of_nat (length b))), bs, buf)"
| "demo_begin (OpRead n) (p, bs, buf) = (None, Some (ReadComplete n), tl bs, take (unat n) (concat (take 1 bs) @ replicate (unat n) CHR 0x00))"

definition demo_http :: "string \<Rightarrow> (string \<Rightarrow> xml_node list \<times> DWORD) \<Rightarrow> script http_env" where
  "demo_http status reader = \<lparr> ht_cmd = demo_cmd, ht_Timeout = 0, ht_Thread = 1, ht_open = (\<lambda>x. ((None, True, True), x)),
     ht_credentials = (\<lambda>b n x. (None, x)), ht_begin = demo_begin, ht_body = (\<lambda>(s, x). (Inr (), s, x)),
     ht_status = (\<lambda>x. Inr status), ht_schemes = (\<lambda>x. Inr 0), ht_raw_headers = (\<lambda>x. Inr (nul_block [])),
     ht_header = (\<lambda>h x. []), ht_buffer = (\<lambda>(p, bs, buf). buf), ht_push = (\<lambda>e x. x), ht_pause = (\<lambda>n x. (None, x)),
     ht_reader = reader, ht_maps = \<lparr> bMapsInitialized = False, IDMap = (\<lambda>_. None), CodeMap = (\<lambda>_. None) \<rparr> \<rparr>"

definition after_callback :: "http_callback \<Rightarrow> cmd_state \<Rightarrow> cmd_state" where
  "after_callback cb s = CleanupCmd ((deliver [(0, cb)] s)
     \<lparr> CallbackContext := (CallbackContext (deliver [(0, cb)] s))\<lparr> CallbacksReceived := [] \<rparr> \<rparr>)"

lemma demo_wait:
  assumes "\<not> bFailed (CallbackContext s)" "is_signal (demo_callback p)"
  shows "WaitComplete demo_cmd l (callback_status (demo_callback p)) s (p, bs, buf) = Some (True, after_callback (demo_callback p) s, None, bs, buf)"
proof -
  have "\<not> is_failure (demo_callback p)" by (simp add: demo_callback_def split: option.splits)
  then have "WaitComplete_turn (callback_status (demo_callback p)) mx False WaitDone n (deliver [(0, demo_callback p)] s)
      = (Inl True, after_callback (demo_callback p) s)" for mx n
    using assms by (simp add: WaitComplete_turn_def after_callback_def Let_def)
  then show ?thesis unfolding WaitComplete_def by (subst WaitComplete_loop.simps) (simp add: Let_def demo_cmd_def)
qed

lemma prepared_ok [simp]: "\<not> bFailed (CallbackContext (PrepareCmd t s))"
  by (simp add: PrepareCmd_def Context_Reset_def)

lemma demo_wait_for:
  assumes "is_signal cb" "\<not> is_failure cb"
  shows "WaitComplete demo_cmd l (callback_status cb) (PrepareCmd t s) (Some cb, bs, buf) = Some (True, after_callback cb (PrepareCmd t s), None, bs, buf)"
  using demo_wait [OF prepared_ok, of "Some cb" l t s bs buf] assms by (simp add: demo_callback_def)

lemma demo_command:
  assumes "demo_begin op (xc_World st) = (None, Some cb, bs, buf)" "is_signal cb" "\<not> is_failure cb" "callback_status cb = ex"
  shows "run_command (demo_http status reader) op ex st =
    Some (CmdDone, st\<lparr> xc_Cmd := after_callback cb (PrepareCmd 1 (xc_Cmd st)), xc_World := (None, bs, buf) \<rparr>)"
  using assms by (auto simp: run_command_def demo_http_def demo_wait_for Let_def)

lemma after_callback_fields [simp]:
  "dwReadLength (CallbackContext (after_callback (DataAvailable n) s)) = n"
  "dwReadLength (CallbackContext (after_callback (ReadComplete n) s)) = n"
  "lExitFlag (CallbackContext (after_callback cb s)) = 1"
  by (simp_all add: after_callback_def deliver_def HttpStatusCallback_def callback_effect_def)

lemma demo_reads_ok: "reads_ok (demo_http status reader)"
proof -
  have "dwReadLength (CallbackContext (xc_Cmd st')) \<le> n \<and> length (ht_buffer (demo_http status reader) (xc_World st')) = unat n"
    if "run_command (demo_http status reader) (OpRead n) 0x80000 st = Some (CmdDone, st')" for n st st'
  proof -
    obtain p bs buf where w: "xc_World st = (p, bs, buf)" by (metis prod_cases3)
    have "st' = st\<lparr> xc_Cmd := after_callback (ReadComplete n) (PrepareCmd 1 (xc_Cmd st)),
        xc_World := (None, tl bs, take (unat n) (concat (take 1 bs) @ replicate (unat n) CHR 0x00)) \<rparr>"
      using that demo_command [of "OpRead n" st "ReadComplete n"] by (simp add: w callback_status_def)
    then show ?thesis by (simp add: demo_http_def)
  qed
  then show ?thesis unfolding reads_ok_def by blast
qed

lemma demo_codes_ok: "codes_ok (demo_http status reader)"
proof -
  have "fst (demo_begin op x) = None" for op x by (cases "(op, x)" rule: demo_begin.cases) auto
  moreover have "demo_callback p \<noteq> RequestError n 0" for p n by (auto simp: demo_callback_def split: option.splits)
  then have "cmd_codes demo_cmd" by (auto simp: cmd_codes_def demo_cmd_def)
  ultimately show ?thesis by (auto simp: codes_ok_def demo_http_def)
qed

section \<open>Properties\<close>

text \<open>C5: An exchange that ends without error has reached the server, was answered with a status below
  400, and gives all the data that came: in \<open>RetData\<close> behind the reserved bytes, or as entries of the
  stream, each with its offset modulo \<open>2 ^ 32\<close>, and the last entry.\<close>

theorem exchange_delivers:
  assumes "SendRequestInternal env rq st = Some (Some a, st')" "\<not> IfError (xa_Error a)"
    and "reads_ok env" "codes_ok env" "unat (xr_BufOffset rq) \<le> length (xr_Alloc rq)"
  shows "xc_Got st' \<and> dwHttpError (xa_Error a) < 400 \<and> data_complete rq (xa_Recv a)"
proof -
  let ?st = "st\<lparr> xc_Got := False, xc_Cmd := (xc_Cmd st)\<lparr> dwSecureErr := 0 \<rparr> \<rparr>"
  obtain r hs rv st1 where t: "exchange_try env rq ?st = Some (r, hs, rv, st1)"
    using assms(1) by (auto simp: SendRequestInternal_def split: option.splits)
  then have e: "exchange_end env rq r st1 = Some (Some (xa_Error a), st')" and rv: "xa_Recv a = rv"
    using assms(1) by (auto simp: SendRequestInternal_def split: option.splits)
  note tr = exchange_try_real [OF t assms(3-5)]
  obtain e0 where e0: "r = Inr e0" "dwHttpError (xa_Error a) = dwHttpError e0" "dwHttpError (xa_Error a) < 400" "xc_Got st' = xc_Got st1"
    using exchange_end_result [OF e conjunct1 [OF tr] assms(2)] by blast
  then show ?thesis using tr recv_done_complete [of rq "dwHttpError e0" rv] rv by simp
qed

definition demo_request :: x_request where
  "demo_request = \<lparr> xr_bStream = False, xr_bThrottle = False, xr_bS3Admin = False, xr_BufOffset = 2, xr_Alloc = ''--'',
     xr_TotalSize = 0, xr_ReadBytes = 0, xr_Headers = Some [], xr_ProxyUser = False, xr_HTTPUser = False, xr_HostHeader = ''h'' \<rparr>"

definition demo_exchange :: "string list \<Rightarrow> script exchange" where
  "demo_exchange bs = \<lparr> xc_Cmd = \<lparr> CallbackContext = new_context, dwCurrentThread = 0, dwSecureErr = 0, bDisableSecureLog = False \<rparr>,
     xc_World = (None, bs, []), xc_Open = False, xc_Registered = False, xc_ProxyScheme = 0, xc_Scheme = 0, xc_Got = False \<rparr>"

lemma demo_commands:
  "run_command (demo_http s r) OpSend 0x400000 st =
     Some (CmdDone, st\<lparr> xc_Cmd := after_callback SendRequestComplete (PrepareCmd 1 (xc_Cmd st)), xc_World := (None, snd (xc_World st)) \<rparr>)"
  "run_command (demo_http s r) OpReceive 0x20000 st =
     Some (CmdDone, st\<lparr> xc_Cmd := after_callback HeadersAvailable (PrepareCmd 1 (xc_Cmd st)), xc_World := (None, snd (xc_World st)) \<rparr>)"
  "run_command (demo_http s r) OpQuery 0x40000 st =
     Some (CmdDone, st\<lparr> xc_Cmd := after_callback (DataAvailable (case fst (snd (xc_World st)) of [] \<Rightarrow> 0 | b # _ \<Rightarrow> of_nat (length b)))
         (PrepareCmd 1 (xc_Cmd st)), xc_World := (None, snd (xc_World st)) \<rparr>)"
  "run_command (demo_http s r) (OpRead n) 0x80000 st =
     Some (CmdDone, st\<lparr> xc_Cmd := after_callback (ReadComplete n) (PrepareCmd 1 (xc_Cmd st)),
       xc_World := (None, tl (fst (snd (xc_World st))), take (unat n) (concat (take 1 (fst (snd (xc_World st)))) @ replicate (unat n) CHR 0x00)) \<rparr>)"
  by (cases "xc_World st"; simp add: demo_command callback_status_def)+

lemma demo_fields [simp]:
  "ht_cmd (demo_http s r) = demo_cmd" "ht_open (demo_http s r) = (\<lambda>x. ((None, True, True), x))" "ht_Timeout (demo_http s r) = 0"
  "ht_body (demo_http s r) = (\<lambda>(s, x). (Inr (), s, x))" "ht_status (demo_http s r) = (\<lambda>x. Inr s)" "ht_Thread (demo_http s r) = 1"
  "ht_raw_headers (demo_http s r) = (\<lambda>x. Inr (nul_block []))" "ht_buffer (demo_http s r) = (\<lambda>(p, bs, buf). buf)"
  "ht_schemes (demo_http s r) = (\<lambda>x. Inr 0)" "ht_reader (demo_http s r) = r"
  by (simp_all add: demo_http_def)

lemma demo_closing:
  "WaitComplete demo_cmd l CB_HANDLE_CLOSING (PrepareCmd t s) (None, bs, buf) = Some (True, after_callback HandleClosing (PrepareCmd t s), None, bs, buf)"
  using demo_wait [OF prepared_ok, of None l t s bs buf] by (simp add: demo_callback_def callback_status_def)

lemma demo_send_start: "send_start (demo_http s r) st =
    Some (Inr (), st\<lparr> xc_Cmd := after_callback SendRequestComplete (PrepareCmd 1 (xc_Cmd st)), xc_World := (None, snd (xc_World st)) \<rparr>)"
  by (subst send_start.simps) (simp add: demo_commands)

lemma demo_recv:
  "\<exists>c. recv_loop (demo_http s r) False h False (recv_start demo_request, st\<lparr> xc_World := (None, [''hello '', ''world''], buf) \<rparr>) =
    Some (Inr (), (recv_start demo_request)\<lparr> rv_Len := 13, rv_Data := ''--hello world'', rv_Blocks := [''hello '', ''world''] \<rparr>,
      st\<lparr> xc_Cmd := c, xc_World := (None, [], ''world'') \<rparr>) \<and> lExitFlag (CallbackContext c) = 1"
proof -
  let ?rv = "\<lambda>n d bs. (recv_start demo_request)\<lparr> rv_Len := n, rv_Data := d, rv_Blocks := bs \<rparr>"
  have t1: "\<exists>c. recv_turn (demo_http s r) False h False (recv_start demo_request, st\<lparr> xc_World := (None, [''hello '', ''world''], buf) \<rparr>) =
      Some (Inr False, ?rv 8 ''--hello '' [''hello ''], st\<lparr> xc_Cmd := c, xc_World := (None, [''world''], ''hello '') \<rparr>)"
    by (simp add: recv_turn_def demo_commands store_block_def resized_def recv_start_def demo_request_def Let_def) (rule exI, rule refl)
  have t2: "\<exists>c. recv_turn (demo_http s r) False h False (?rv 8 ''--hello '' [''hello ''], st\<lparr> xc_Cmd := c0, xc_World := (None, [''world''], ''hello '') \<rparr>) =
      Some (Inr False, ?rv 13 ''--hello world'' [''hello '', ''world''], st\<lparr> xc_Cmd := c, xc_World := (None, [], ''world'') \<rparr>)" for c0
    by (simp add: recv_turn_def demo_commands store_block_def resized_def recv_start_def demo_request_def Let_def) (rule exI, rule refl)
  have t3: "\<exists>c. recv_turn (demo_http s r) False h False (?rv 13 ''--hello world'' [''hello '', ''world''], st\<lparr> xc_Cmd := c0, xc_World := (None, [], ''world'') \<rparr>) =
      Some (Inr True, ?rv 13 ''--hello world'' [''hello '', ''world''], st\<lparr> xc_Cmd := c, xc_World := (None, [], ''world'') \<rparr>)
      \<and> lExitFlag (CallbackContext c) = 1" for c0
    by (rule exI [of _ "after_callback (DataAvailable 0) (PrepareCmd 1 c0)"]) (simp add: recv_turn_def demo_commands Let_def)
  obtain c1 where t1': "recv_turn (demo_http s r) False h False (recv_start demo_request, st\<lparr> xc_World := (None, [''hello '', ''world''], buf) \<rparr>) =
      Some (Inr False, ?rv 8 ''--hello '' [''hello ''], st\<lparr> xc_Cmd := c1, xc_World := (None, [''world''], ''hello '') \<rparr>)" using t1 by blast
  obtain c2 where t2': "recv_turn (demo_http s r) False h False (?rv 8 ''--hello '' [''hello ''], st\<lparr> xc_Cmd := c1, xc_World := (None, [''world''], ''hello '') \<rparr>) =
      Some (Inr False, ?rv 13 ''--hello world'' [''hello '', ''world''], st\<lparr> xc_Cmd := c2, xc_World := (None, [], ''world'') \<rparr>)" using t2 by blast
  obtain c3 where t3': "recv_turn (demo_http s r) False h False (?rv 13 ''--hello world'' [''hello '', ''world''], st\<lparr> xc_Cmd := c2, xc_World := (None, [], ''world'') \<rparr>) =
      Some (Inr True, ?rv 13 ''--hello world'' [''hello '', ''world''], st\<lparr> xc_Cmd := c3, xc_World := (None, [], ''world'') \<rparr>)
      \<and> lExitFlag (CallbackContext c3) = 1" using t3 by blast
  have "recv_loop (demo_http s r) False h False (recv_start demo_request, st\<lparr> xc_World := (None, [''hello '', ''world''], buf) \<rparr>) =
    Some (Inr (), ?rv 13 ''--hello world'' [''hello '', ''world''], st\<lparr> xc_Cmd := c3, xc_World := (None, [], ''world'') \<rparr>)"
    by (subst recv_loop.simps, simp only: t1' option.case sum.case prod.case if_False,
        subst recv_loop.simps, simp only: t2' option.case sum.case prod.case if_False,
        subst recv_loop.simps, simp only: t3' option.case sum.case prod.case if_True)
  then show ?thesis using t3' by blast
qed

lemma demo_exchange_run:
  "\<exists>a st'. SendRequestInternal (demo_http ''200'' r) demo_request (demo_exchange [''hello '', ''world'']) = Some (Some a, st')
    \<and> \<not> IfError (xa_Error a) \<and> rv_Data (xa_Recv a) = ''--hello world''"
proof -
  define D where "D = demo_http ''200'' r"
  let ?st = "(demo_exchange [''hello '', ''world''])\<lparr> xc_Got := False, xc_Cmd := (xc_Cmd (demo_exchange []))\<lparr> dwSecureErr := 0 \<rparr>,
     xc_World := (None, [''hello '', ''world''], []), xc_Open := True, xc_Registered := True \<rparr>"
  have n: "http_number ''200'' = 200" by (simp add: http_number_def undecimal_def undecimal_step_def is_space_c_def is_digit_ascii_def char_code_def Let_def)
  have "\<exists>c. auth_turn D False False ?st = Some (Inr 200, ?st\<lparr> xc_Cmd := c, xc_Got := True \<rparr>)"
    by (simp add: D_def auth_turn_def set_credentials_def demo_send_start receive_response_def demo_commands n demo_exchange_def)
  then obtain c where c: "auth_turn D False False ?st = Some (Inr 200, ?st\<lparr> xc_Cmd := c, xc_Got := True \<rparr>)" by blast
  have a: "auth_loop 3 D False False 0 ?st = Some (Inr 200, ?st\<lparr> xc_Cmd := c, xc_Got := True \<rparr>)"
    by (simp add: numeral_3_eq_3 c HTTP_STATUS_DENIED_def HTTP_STATUS_PROXY_AUTH_REQ_def)
  let ?s1 = "?st\<lparr> xc_Cmd := c, xc_Got := True \<rparr>"
  have same: "?s1\<lparr> xc_World := (None, [''hello '', ''world''], []) \<rparr> = ?s1" by (simp add: demo_exchange_def)
  obtain c2 where l: "recv_loop D False 200 False (recv_start demo_request, ?s1) =
      Some (Inr (), (recv_start demo_request)\<lparr> rv_Len := 13, rv_Data := ''--hello world'', rv_Blocks := [''hello '', ''world''] \<rparr>,
        ?s1\<lparr> xc_Cmd := c2, xc_World := (None, [], ''world'') \<rparr>)" "lExitFlag (CallbackContext c2) = 1"
    using demo_recv [where s = "''200''" and r = r and h = 200 and st = ?s1 and buf = "[]"] unfolding same D_def [symmetric] by blast
  let ?s2 = "?s1\<lparr> xc_Cmd := c2, xc_World := (None, [], ''world'') \<rparr>"
  have cl: "CloseRequest D ?s2 = Some (?s2\<lparr> xc_Cmd := after_callback HandleClosing (PrepareCmd 1 c2), xc_Open := False, xc_Registered := False \<rparr>)"
    by (simp add: CloseRequest_def D_def demo_closing)
  have w: "WaitForCallbackDone demo_cmd (after_callback HandleClosing (PrepareCmd 1 c2), x) = Some (after_callback HandleClosing (PrepareCmd 1 c2), x)" for x
    by (subst WaitForCallbackDone.simps) simp
  let ?s0 = "(demo_exchange [''hello '', ''world''])\<lparr> xc_Got := False, xc_Cmd := (xc_Cmd (demo_exchange [''hello '', ''world'']))\<lparr> dwSecureErr := 0 \<rparr> \<rparr>"
  have open0: "?s0\<lparr> xc_World := xc_World ?s0, xc_Open := True, xc_Registered := True \<rparr> = ?st" by (simp add: demo_exchange_def)
  have flds: "xr_ProxyUser demo_request = False" "xr_HTTPUser demo_request = False" "xr_bStream demo_request = False"
    "xr_bThrottle demo_request = False" "ht_open D (xc_World ?s0) = ((None, True, True), xc_World ?s0)" "ht_cmd D = demo_cmd"
    by (simp_all add: demo_request_def D_def)
  have tr: "\<exists>hs. exchange_try D demo_request ?s0 = Some (Inr ((S3_ERROR_new 0)\<lparr> dwHttpError := 200 \<rparr>), hs,
      (recv_start demo_request)\<lparr> rv_Len := 13, rv_Data := ''--hello world'', rv_Blocks := [''hello '', ''world''] \<rparr>, ?s2)"
    unfolding exchange_try_def Let_def flds prod.case option.case open0 a sum.case l(1) by (simp add: answer_error_def)
  have "\<exists>e s. exchange_end D demo_request (Inr ((S3_ERROR_new 0)\<lparr> dwHttpError := 200 \<rparr>)) ?s2 = Some (Some e, s) \<and> \<not> IfError e"
    unfolding exchange_end_def sum.case cl option.case Let_def by (simp add: flds w) (simp add: IfError_def S3_ERROR_new_def SetError_def)
  then show ?thesis using tr unfolding D_def [symmetric] by (auto simp: SendRequestInternal_def)
qed

lemma exchange_delivers_witness:
  "\<exists>a st'. SendRequestInternal (demo_http ''200'' (\<lambda>_. ([], 0))) demo_request (demo_exchange [''hello '', ''world'']) = Some (Some a, st')
    \<and> xc_Got st' \<and> dwHttpError (xa_Error a) < 400 \<and> data_complete demo_request (xa_Recv a) \<and> rv_Data (xa_Recv a) = ''--hello world''"
proof -
  obtain a st' where run: "SendRequestInternal (demo_http ''200'' (\<lambda>_. ([], 0))) demo_request (demo_exchange [''hello '', ''world'']) = Some (Some a, st')"
    "\<not> IfError (xa_Error a)" "rv_Data (xa_Recv a) = ''--hello world''"
    using demo_exchange_run [of "\<lambda>_. ([], 0)"] by blast
  have "unat (xr_BufOffset demo_request) \<le> length (xr_Alloc demo_request)" by (simp add: demo_request_def)
  from exchange_delivers [OF run(1,2) demo_reads_ok demo_codes_ok this] show ?thesis using run by blast
qed

text \<open>Without names, the headers of an answer are grouped by name: each name is there once, whatever its
  case, with its contents in the order of the lines. What is no header is left out.\<close>

theorem raw_headers_grouped:
  assumes "ht_raw_headers env x = Inr (nul_block lines)" "\<And>l. l \<in> set lines \<Longrightarrow> l \<noteq> [] \<and> CHR 0x00 \<notin> set l"
  shows "names_differ (get_headers env [] x)
    \<and> header_values k (get_headers env [] x) = map snd (filter (\<lambda>e. eq_nocase (fst e) k) (List.map_filter header_line lines))"
proof -
  have "get_headers env [] x = foldl add_line_header [] lines"
    using assms by (simp add: get_headers_def LoadNullTermStringArray_block)
  then show ?thesis using raw_headers_fold [of "[]" lines k] by (simp add: names_differ_def)
qed

lemma raw_headers_grouped_witness:
  "header_values ''ETAG'' (get_headers ((demo_http ''200'' (\<lambda>_. ([], 0)))\<lparr> ht_raw_headers :=
       (\<lambda>x. Inr (nul_block [''HTTP/1.1 200 OK'', ''ETag: a'', ''Date:b'', ''etag : c''])) \<rparr>) [] (None, [], [])) = [''a'', ''c'']"
proof -
  let ?env = "(demo_http ''200'' (\<lambda>_. ([], 0)))\<lparr> ht_raw_headers := (\<lambda>x. Inr (nul_block [''HTTP/1.1 200 OK'', ''ETag: a'', ''Date:b'', ''etag : c''])) \<rparr>"
  have v: "map snd (filter (\<lambda>e. eq_nocase (fst e) ''ETAG'') (List.map_filter header_line
      [''HTTP/1.1 200 OK'', ''ETag: a'', ''Date:b'', ''etag : c''])) = [''a'', ''c'']"
    by code_simp
  show ?thesis
    by (rule trans [OF conjunct2 [OF raw_headers_grouped [of ?env "(None, [], [])" "[''HTTP/1.1 200 OK'', ''ETag: a'', ''Date:b'', ''etag : c'']" "''ETAG''"]] v]) auto
qed

end
