(* ===== verification/Objects.thy ===== *)
theory Objects
  imports Acl Failover
begin

text \<open>
  Objects (ECSConnection.cpp, Create, RenameS3, Read, WriteMetadataEntry, CopyS3, UpdateMetadata).
  Requests and answers as in the theory Multipart: the headers of a request are the calls of
  \<open>AddHeader\<close> after \<open>InitHeader\<close>, in their order (a later one of a name replaces an earlier one), and an
  answer comes with all its headers. What is erased from the map of headers is removed from the list.
\<close>

section \<open>Headers\<close>

type_synonym header_struct = "string \<times> string"
type_synonym header_req = "(string \<times> string list) list"

definition is_prefix :: "string \<Rightarrow> string \<Rightarrow> bool" where
  "is_prefix p s \<longleftrightarrow> take (length p) s = p"

definition is_meta :: "string \<Rightarrow> bool" where "is_meta h \<longleftrightarrow> is_prefix sAmzMetaPrefix h"

definition WriteMetadataEntry :: "header_struct list \<Rightarrow> string \<Rightarrow> string \<Rightarrow> header_struct list" where
  "WriteMetadataEntry MDList pszTag sStr = filter (\<lambda>e. \<not> eq_nocase pszTag (fst e)) MDList @ [(pszTag, sStr)]"

text \<open>The label of a header in the map.\<close>

definition header_key :: "string \<Rightarrow> string" where "header_key h = lower_str (TrimRight (TrimLeft h))"

section \<open>Creating\<close>

definition Create ::
  "'w mp_env \<Rightarrow> string \<Rightarrow> mp_body \<Rightarrow> header_struct list \<Rightarrow> BYTE list \<Rightarrow> string option \<Rightarrow> 'w \<Rightarrow> (S3_ERROR \<times> header_req) \<times> 'w" where
  "Create env pszPath body MDList Checksum pIfNoneMatch w =
     (let ((e, data, hdrs), w1) = mp_send env \<lparr> rq_Method = ''PUT'', rq_Resource = UriEncode pszPath StdSAFE,
            rq_Headers = (if Checksum \<noteq> [] then [(''Content-MD5'', mp_base64 env Checksum)] else []) @ MDList
              @ (case pIfNoneMatch of None \<Rightarrow> [] | Some s \<Rightarrow> [(''if-none-match'', s)]),
            rq_Body = body \<rparr> w in
      ((SetError e, hdrs), w1))"

section \<open>Copying\<close>

definition GIGABYTES :: "nat \<Rightarrow> ULONGLONG" where "GIGABYTES n = of_nat n * 0x40000000"

definition version_query :: "string option \<Rightarrow> string" where
  "version_query v = (case v of None \<Rightarrow> [] | Some s \<Rightarrow> ''?versionId='' @ s)"



definition next_part :: "ULONGLONG \<Rightarrow> ULONGLONG \<Rightarrow> ULONGLONG" where
  "next_part ullObjSize ullOffset = (if ullObjSize - ullOffset < GIGABYTES 1 then ullObjSize - ullOffset else GIGABYTES 1)"

lemma next_part_decreases:
  assumes "ofs < sz"
  shows "next_part sz ofs \<noteq> 0" "unat (ofs + next_part sz ofs) = unat ofs + unat (next_part sz ofs)"
    "unat ofs + unat (next_part sz ofs) \<le> unat sz" "unat (next_part sz ofs) = min (unat sz - unat ofs) (2 ^ 30)"
proof -
  have u: "unat (sz - ofs) = unat sz - unat ofs" using assms by (simp add: unat_sub)
  have g: "unat (GIGABYTES 1) = 2 ^ 30" by (simp add: GIGABYTES_def)
  have l: "unat ofs < unat sz" using assms by (simp add: word_less_nat_alt)
  show m: "unat (next_part sz ofs) = min (unat sz - unat ofs) (2 ^ 30)"
    by (simp add: next_part_def word_less_nat_alt u g [unfolded One_nat_def] min_def)
  then have "unat (next_part sz ofs) \<noteq> 0" using l by simp
  then show "next_part sz ofs \<noteq> 0" by auto
  show le: "unat ofs + unat (next_part sz ofs) \<le> unat sz" using m l by simp
  show "unat (ofs + next_part sz ofs) = unat ofs + unat (next_part sz ofs)"
    using le unat_bound64 [of sz] by (intro unat_add_no_wrap) simp
qed

text \<open>The loop over the parts: the error that ends it, and the parts done.\<close>

function copy_parts ::
  "'w mp_env \<Rightarrow> S3_UPLOAD_PART_INFO \<Rightarrow> string \<Rightarrow> string option \<Rightarrow> ULONGLONG \<Rightarrow> DWORD \<Rightarrow> ULONGLONG \<Rightarrow> (DWORD \<times> string) list \<Rightarrow> 'w
   \<Rightarrow> (S3_ERROR option \<times> (DWORD \<times> string) list) \<times> 'w" where
  "copy_parts env info pszSrcPath pszVersionId ullObjSize uPartNum ullOffset PartList w =
     (let ullPartSize = next_part ullObjSize ullOffset in
      if ullPartSize = 0 \<or> ullObjSize \<le> ullOffset then ((None, PartList), w)
      else
        (case S3MultiPartUpload env info uPartNum [] ullPartSize
            (Some (pszSrcPath, (case pszVersionId of None \<Rightarrow> [] | Some v \<Rightarrow> v), ullOffset)) w of
           ((e, etag), w1) \<Rightarrow>
             if IfError e then ((Some (SetError e), PartList), w1)
             else copy_parts env info pszSrcPath pszVersionId ullObjSize (uPartNum + 1) (ullOffset + ullPartSize)
                    (PartList @ [(uPartNum, etag)]) w1))"
  by pat_completeness auto
termination
proof (relation "measure (\<lambda>(env, info, src, v, sz, n, ofs, l, w). unat sz - unat ofs)", goal_cases)
  case (2 env info src v sz n ofs l w part r w1 e etag)
  then have l: "ofs < sz" by (simp add: not_le)
  have "unat (next_part sz ofs) \<noteq> 0" using next_part_decreases(1) [OF l] by (simp add: unat_eq_zero)
  then show ?case using next_part_decreases(2,3) [OF l] 2(1) by simp
qed simp

declare copy_parts.simps [simp del]




section \<open>Renaming\<close>

text \<open>\<open>_tcstoui64\<close>: white space, a sign, digits; the largest number when it does not fit.\<close>

definition tcstoui64 :: "string \<Rightarrow> ULONGLONG" where
  "tcstoui64 s =
     (let t = dropWhile is_space_c s;
          neg = (t \<noteq> [] \<and> hd t = CHR ''-'');
          u = (if t \<noteq> [] \<and> (hd t = CHR ''-'' \<or> hd t = CHR ''+'') then tl t else t);
          n = undecimal (takeWhile is_digit_ascii u) in
      if n \<ge> 2 ^ 64 then - 1 else if neg then - of_nat n else of_nat n)"

text \<open>The headers of the source are added to those that are given; its size is taken from them.\<close>

fun source_headers :: "header_req \<Rightarrow> ULONGLONG \<times> header_struct list \<Rightarrow> ULONGLONG \<times> header_struct list" where
  "source_headers [] s = s"
| "source_headers ((h, cs) # Req) (ullObjectSize, MDList) =
     source_headers Req
       (case cs of [] \<Rightarrow> (ullObjectSize, MDList)
        | c # _ \<Rightarrow>
            (if eq_nocase h ''Content-Length'' then tcstoui64 c else ullObjectSize,
             if \<exists>e \<in> set MDList. eq_nocase h (fst e) then MDList else WriteMetadataEntry MDList h c))"


definition head_request :: "string \<Rightarrow> string option \<Rightarrow> mp_request" where
  "head_request pszPath pszVersionId = \<lparr> rq_Method = ''HEAD'', rq_Resource = UriEncode pszPath StdSAFE @ version_query pszVersionId,
     rq_Headers = [], rq_Body = NoBody \<rparr>"


section \<open>Changing metadata\<close>

text \<open>The value of each entry of the object that has a new one is replaced (by the last), and the new one is
  taken from the list; what is left of it is new.\<close>

fun replace_values :: "header_req \<Rightarrow> header_struct list \<Rightarrow> header_struct list \<times> header_struct list" where
  "replace_values [] MDList = ([], MDList)"
| "replace_values ((h, cs) # Req) MDList =
     (if cs \<noteq> [] \<and> is_meta h then
        (let same = filter (\<lambda>e. eq_nocase (fst e) h) MDList;
             v = (if same = [] then hd cs else snd (last same));
             (l, rest) = replace_values Req (filter (\<lambda>e. \<not> eq_nocase (fst e) h) MDList) in
         ((h, v) # l, rest))
      else replace_values Req MDList)"

definition erase_tags :: "string list \<Rightarrow> header_struct list \<Rightarrow> header_struct list" where
  "erase_tags Tags hs = filter (\<lambda>e. header_key (fst e) \<notin> lower_str ` set Tags) hs"

definition update_headers :: "header_req \<Rightarrow> header_struct list \<Rightarrow> string list \<Rightarrow> header_struct list" where
  "update_headers Req MDParam Tags = (case replace_values Req MDParam of (l, rest) \<Rightarrow> erase_tags Tags (l @ rest))"

definition UpdateMetadata :: "'w mp_env \<Rightarrow> string \<Rightarrow> header_struct list \<Rightarrow> string list \<Rightarrow> 'w \<Rightarrow> S3_ERROR \<times> 'w" where
  "UpdateMetadata env pszPath MDParam Tags w =
     (case mp_send env (head_request pszPath None) w of
        ((e, data, Req), w1) \<Rightarrow>
          if IfError (SetError e) then (SetError e, w1)
          else
            (case mp_send env \<lparr> rq_Method = ''PUT'', rq_Resource = UriEncode pszPath StdSAFE,
                rq_Headers = update_headers Req MDParam Tags
                  @ [(''x-amz-copy-source'', UriEncode pszPath AllSAFE), (''x-amz-metadata-directive'', ''REPLACE'')],
                rq_Body = NoBody \<rparr> w1 of
               ((e2, data2, hdrs2), w2) \<Rightarrow> (if IfError (SetError e2) then SetError e2 else S3_ERROR_new 0, w2)))"

section \<open>Reading\<close>

definition READ_RETRY_MAX_TRIES :: nat where "READ_RETRY_MAX_TRIES = 5"

definition range_header :: "ULONGLONG \<Rightarrow> ULONGLONG \<Rightarrow> header_struct list" where
  "range_header lwLen lwOffset =
     (if lwOffset \<noteq> 0 \<or> lwLen \<noteq> 0
      then [(''range'', ''bytes='' @ decimal (unat lwOffset) @ ''-'' @ (if lwLen \<noteq> 0 then decimal (unat (lwOffset + lwLen - 1)) else []))]
      else [])"

definition read_request :: "string \<Rightarrow> ULONGLONG \<Rightarrow> ULONGLONG \<Rightarrow> mp_request" where
  "read_request pszPath lwLen lwOffset = \<lparr> rq_Method = ''GET'', rq_Resource = UriEncode pszPath StdSAFE,
     rq_Headers = range_header lwLen lwOffset, rq_Body = NoBody \<rparr>"

text \<open>A number of 64 bits with its sign: \<open>_ttoi64\<close>, and \<open>%I64d\<close> with what follows it.\<close>

definition clamp64 :: "int \<Rightarrow> int" where
  "clamp64 n = (if n \<ge> 2 ^ 63 then 2 ^ 63 - 1 else if n < - (2 ^ 63) then - (2 ^ 63) else n)"

definition scan_i64 :: "string \<Rightarrow> (int \<times> string) option" where
  "scan_i64 s =
     (let t = dropWhile is_space_c s;
          neg = (t \<noteq> [] \<and> hd t = CHR ''-'');
          u = (if t \<noteq> [] \<and> (hd t = CHR ''-'' \<or> hd t = CHR ''+'') then tl t else t);
          ds = takeWhile is_digit_ascii u in
      if ds = [] then None
      else Some (clamp64 (if neg then - int (undecimal ds) else int (undecimal ds)), dropWhile is_digit_ascii u))"

definition ttoi64 :: "string \<Rightarrow> int" where
  "ttoi64 s = (case scan_i64 s of None \<Rightarrow> 0 | Some (n, r) \<Rightarrow> n)"

definition scan_char :: "char \<Rightarrow> string \<Rightarrow> string option" where
  "scan_char c s = (case s of [] \<Rightarrow> None | x # r \<Rightarrow> if x = c then Some r else None)"

text \<open>\<open>bytes %I64d-%I64d/%I64d\<close>: first and last byte, if all three numbers are there.\<close>

definition scan_range :: "string \<Rightarrow> (int \<times> int) option" where
  "scan_range s =
     (if \<not> is_prefix ''bytes'' s then None
      else
        (case scan_i64 (drop 5 s) of None \<Rightarrow> None
         | Some (a, r1) \<Rightarrow>
             (case scan_char CHR ''-'' r1 of None \<Rightarrow> None
              | Some r2 \<Rightarrow>
                  (case scan_i64 r2 of None \<Rightarrow> None
                   | Some (b, r3) \<Rightarrow>
                       (case scan_char CHR ''/'' r3 of None \<Rightarrow> None
                        | Some r4 \<Rightarrow> map_option (\<lambda>_. (a, b)) (scan_i64 r4))))))"

text \<open>What one header says on the length: nothing, that it is right, that it is wrong.\<close>

definition header_wrong :: "ULONGLONG \<Rightarrow> string \<times> string list \<Rightarrow> bool" where
  "header_wrong ullTotalLength e =
     (case snd e of
        [c] \<Rightarrow>
          if fst e = ''Content-Length'' then ullTotalLength \<noteq> of_int (ttoi64 c)
          else if fst e = ''Content-Range''
          then (case scan_range c of None \<Rightarrow> False | Some (a, b) \<Rightarrow> ullTotalLength \<noteq> of_int b + 1 - of_int a)
          else False
      | _ \<Rightarrow> False)"

definition wrong_size :: "ULONGLONG \<Rightarrow> header_req \<Rightarrow> bool" where
  "wrong_size ullTotalLength HeaderReq = (find (header_wrong ullTotalLength) HeaderReq \<noteq> None)"

text \<open>The size that is compared: what a stream has got, or the size of the buffer, whose reserved bytes count
  once there is data.\<close>

definition returned_length :: "bool \<Rightarrow> DWORD \<Rightarrow> string \<Rightarrow> ULONGLONG" where
  "returned_length bStream dwBufOffset data =
     (if bStream then of_nat (length data)
      else if data = [] then 0 else of_nat (unat dwBufOffset + length data))"

definition ERROR_BAD_LENGTH :: DWORD where "ERROR_BAD_LENGTH = 24"

text \<open>The error, the data of the last answer, its headers and the length; the tries left are counted.\<close>

fun read_loop ::
  "nat \<Rightarrow> 'w mp_env \<Rightarrow> mp_request \<Rightarrow> bool \<Rightarrow> DWORD \<Rightarrow> ULONGLONG option \<Rightarrow> 'w \<Rightarrow> (S3_ERROR \<times> string \<times> header_req \<times> ULONGLONG option) \<times> 'w" where
  "read_loop tries env rq bStream dwBufOffset len0 w =
     (let ((e, data, HeaderReq), w1) = mp_send env rq w; Error = SetError e in
      if IfError Error then ((Error, data, HeaderReq, len0), w1)
      else
        let ullTotalLength = returned_length bStream dwBufOffset data in
        if wrong_size ullTotalLength HeaderReq then
          (case tries of
             Suc n \<Rightarrow>
               if \<not> bStream \<and> n > 0 then read_loop n env rq bStream dwBufOffset (Some ullTotalLength) w1
               else ((S3_ERROR_new ERROR_BAD_LENGTH, data, HeaderReq, Some ullTotalLength), w1)
           | 0 \<Rightarrow> ((S3_ERROR_new ERROR_BAD_LENGTH, data, HeaderReq, Some ullTotalLength), w1))
        else ((Error, data, HeaderReq, Some ullTotalLength), w1))"

definition Read ::
  "'w mp_env \<Rightarrow> string \<Rightarrow> ULONGLONG \<Rightarrow> ULONGLONG \<Rightarrow> bool \<Rightarrow> DWORD \<Rightarrow> 'w \<Rightarrow> (S3_ERROR \<times> string \<times> header_req \<times> ULONGLONG option) \<times> 'w" where
  "Read env pszPath lwLen lwOffset bStream dwBufOffset w =
     read_loop READ_RETRY_MAX_TRIES env (read_request pszPath lwLen lwOffset) bStream dwBufOffset None w"

section \<open>The metadata that is sent\<close>


text \<open>The value of a header of the map: the last that was added.\<close>

definition sent_value :: "header_struct list \<Rightarrow> string \<Rightarrow> string option" where
  "sent_value l k = map_of (rev (map (\<lambda>e. (header_key (fst e), snd e)) l)) k"



lemma sent_value_Nil [simp]: "sent_value [] k = None"
  by (simp add: sent_value_def)









section \<open>Parts of a copy\<close>

text \<open>The parts an object of \<open>n\<close> bytes is copied in, as offset and length.\<close>

definition copy_ranges :: "nat \<Rightarrow> nat \<Rightarrow> (nat \<times> nat) list" where
  "copy_ranges k n = map (\<lambda>i. (i * 2 ^ 30, min (2 ^ 30) (n - i * 2 ^ 30))) [k..<(n + 2 ^ 30 - 1) div 2 ^ 30]"

primrec copy_all ::
  "'w mp_env \<Rightarrow> S3_UPLOAD_PART_INFO \<Rightarrow> string \<Rightarrow> string \<Rightarrow> (nat \<times> nat) list \<Rightarrow> nat \<Rightarrow> (DWORD \<times> string) list \<Rightarrow> 'w
   \<Rightarrow> (S3_ERROR option \<times> (DWORD \<times> string) list) \<times> 'w" where
  "copy_all env info src v [] n l w = ((None, l), w)"
| "copy_all env info src v (r # rs) n l w =
     (case S3MultiPartUpload env info (of_nat n) [] (of_nat (snd r)) (Some (src, v, of_nat (fst r))) w of
        ((e, etag), w1) \<Rightarrow>
          if IfError e then ((Some (SetError e), l), w1) else copy_all env info src v rs (n + 1) (l @ [(of_nat n, etag)]) w1)"

lemma copy_ranges_empty: "n \<le> k * 2 ^ 30 \<Longrightarrow> copy_ranges k n = []"
proof -
  assume "n \<le> k * 2 ^ 30"
  then have "(n + 2 ^ 30 - 1) div 2 ^ 30 \<le> (k * 2 ^ 30 + (2 ^ 30 - 1)) div 2 ^ 30" by (intro div_le_mono) simp
  also have "\<dots> = k" by simp
  finally show ?thesis by (simp add: copy_ranges_def)
qed

lemma copy_ranges_next:
  assumes "k * 2 ^ 30 < n"
  shows "copy_ranges k n = (k * 2 ^ 30, min (2 ^ 30) (n - k * 2 ^ 30)) # copy_ranges (Suc k) n"
proof -
  have "k * 2 ^ 30 + 2 ^ 30 \<le> n + 2 ^ 30 - 1" using assms by simp
  then have "(k * 2 ^ 30 + 2 ^ 30) div 2 ^ 30 \<le> (n + 2 ^ 30 - 1) div 2 ^ 30" by (rule div_le_mono)
  then have "k < (n + 2 ^ 30 - 1) div 2 ^ 30" by simp
  then show ?thesis by (simp add: copy_ranges_def upt_conv_Cons)
qed

text \<open>The loop is the copy of these parts, in order.\<close>

lemma copy_parts_all:
  assumes "unat ofs = min (k * 2 ^ 30) (unat sz)"
  shows "copy_parts env info src v sz (of_nat (k + 1)) ofs l w =
    copy_all env info src (case v of None \<Rightarrow> [] | Some s \<Rightarrow> s) (copy_ranges k (unat sz)) (k + 1) l w"
  using assms
proof (induction "unat sz - unat ofs" arbitrary: k ofs l w rule: less_induct)
  case less
  show ?case
  proof (cases "ofs < sz")
    case False
    then have "unat sz \<le> k * 2 ^ 30" using less.prems by (simp add: word_less_nat_alt min_def split: if_splits)
    then show ?thesis using False by (subst copy_parts.simps) (simp add: copy_ranges_empty not_less Let_def)
  next
    case True
    note n = next_part_decreases [OF True]
    have k: "unat ofs = k * 2 ^ 30" "k * 2 ^ 30 < unat sz"
      using less.prems True by (simp_all add: word_less_nat_alt min_def split: if_splits)
    have o: "ofs = of_nat (k * 2 ^ 30)" unfolding k(1) [symmetric] by simp
    have p: "next_part sz ofs = of_nat (min (2 ^ 30) (unat sz - k * 2 ^ 30))"
      unfolding min.commute [of "2 ^ 30"] k(1) [symmetric] n(4) [symmetric] by simp
    have nx: "unat (ofs + next_part sz ofs) = min (Suc k * 2 ^ 30) (unat sz)"
      unfolding n(2,4) k(1) using k(2) by (simp add: min_def, linarith)
    have less': "unat sz - unat (ofs + next_part sz ofs) < unat sz - unat ofs"
    proof -
      have "unat (next_part sz ofs) \<noteq> 0" using n(1) by (simp add: unat_eq_zero)
      then show ?thesis using n(2,3) by linarith
    qed
    define N where "N = (of_nat (k + 1) :: DWORD)"
    have N1: "(of_nat (Suc k + 1) :: DWORD) = N + 1" by (simp add: N_def)
    note IH = less.hyps [OF less' nx, unfolded N1]
    obtain e etag w1 where u: "S3MultiPartUpload env info N [] (next_part sz ofs) (Some (src, (case v of None \<Rightarrow> [] | Some s \<Rightarrow> s), ofs)) w = ((e, etag), w1)"
      by (metis prod.exhaust)
    have lhs: "copy_parts env info src v sz N ofs l w =
        (if IfError e then ((Some (SetError e), l), w1) else copy_parts env info src v sz (N + 1) (ofs + next_part sz ofs) (l @ [(N, etag)]) w1)"
      using n(1) True [unfolded not_le [symmetric]] by (subst copy_parts.simps) (simp add: Let_def u)
    have rhs: "copy_all env info src (case v of None \<Rightarrow> [] | Some s \<Rightarrow> s) (copy_ranges k (unat sz)) (k + 1) l w =
        (if IfError e then ((Some (SetError e), l), w1)
         else copy_all env info src (case v of None \<Rightarrow> [] | Some s \<Rightarrow> s) (copy_ranges (Suc k) (unat sz)) (k + 1 + 1) (l @ [(N, etag)]) w1)"
      unfolding copy_ranges_next [OF k(2)] copy_all.simps fst_conv snd_conv p [symmetric] o [symmetric] N_def [symmetric] u by simp
    show ?thesis unfolding N_def [symmetric] lhs rhs using IH by simp
  qed
qed

text \<open>They are consecutive, and together the object.\<close>

lemma copy_ranges_cover: "k * 2 ^ 30 \<le> n \<Longrightarrow> concat (map (\<lambda>(a, len). [a..<a + len]) (copy_ranges k n)) = [k * 2 ^ 30..<n]"
proof (induction "n - k * 2 ^ 30" arbitrary: k rule: less_induct)
  case less
  show ?case
  proof (cases "k * 2 ^ 30 = n")
    case True
    then show ?thesis by (simp add: copy_ranges_empty)
  next
    case False
    then have l: "k * 2 ^ 30 < n" using less.prems by simp
    show ?thesis
    proof (cases "Suc k * 2 ^ 30 \<le> n")
      case True
      have "n - Suc k * 2 ^ 30 < n - k * 2 ^ 30" using l by simp
      note IH = less.hyps [OF this True]
      define X where "X = k * 2 ^ 30"
      have S: "Suc k * 2 ^ 30 = X + 2 ^ 30" by (simp add: X_def)
      have "X + 2 ^ 30 + (n - (X + 2 ^ 30)) = n" using True unfolding S by simp
      then have "[X..<n] = [X..<X + 2 ^ 30] @ [X + 2 ^ 30..<n]" using upt_add_eq_append [of X "X + 2 ^ 30" "n - (X + 2 ^ 30)"] by simp
      then have "[k * 2 ^ 30..<n] = [k * 2 ^ 30..<k * 2 ^ 30 + 2 ^ 30] @ [Suc k * 2 ^ 30..<n]" unfolding S X_def .
      moreover have "min (2 ^ 30) (n - k * 2 ^ 30) = 2 ^ 30" using True by simp
      ultimately show ?thesis by (simp only: copy_ranges_next [OF l] list.map concat.simps prod.case IH)
    next
      case False
      then show ?thesis using l by (simp add: copy_ranges_next [OF l] copy_ranges_empty [of n "Suc k"] min_def)
    qed
  qed
qed

lemma copy_ranges_sizes: "r \<in> set (copy_ranges k n) \<Longrightarrow> 0 < snd r \<and> snd r \<le> 2 ^ 30"
proof -
  assume "r \<in> set (copy_ranges k n)"
  then obtain i where i: "i < (n + 2 ^ 30 - 1) div 2 ^ 30" "r = (i * 2 ^ 30, min (2 ^ 30) (n - i * 2 ^ 30))" by (auto simp: copy_ranges_def)
  have "i * 2 ^ 30 < n"
  proof (rule ccontr)
    assume "\<not> i * 2 ^ 30 < n"
    then have "(n + 2 ^ 30 - 1) div 2 ^ 30 \<le> (i * 2 ^ 30 + (2 ^ 30 - 1)) div 2 ^ 30" by (intro div_le_mono) simp
    then show False using i(1) by simp
  qed
  then show ?thesis by (simp add: i(2))
qed

section \<open>A server of objects\<close>



definition first_values :: "header_req \<Rightarrow> header_struct list" where
  "first_values Req = map (\<lambda>e. (fst e, hd (snd e))) (filter (\<lambda>e. snd e \<noteq> []) Req)"

text \<open>What S3 documents: reading changes nothing, nor do requests on access control lists; a request on
  an object leaves the others alone; deletion removes it; a copy that replaces the metadata gives the
  target the contents of the source and the metadata of the request; HEAD gives the metadata.\<close>

definition no_nul :: "string \<Rightarrow> bool" where "no_nul s \<longleftrightarrow> CHR 0x00 \<notin> set s"





lemma source_headers_size: "fst (source_headers Req (n, MD)) = fst (source_headers Req (n, MD'))"
proof (induction Req arbitrary: n MD MD')
  case (Cons e Req)
  obtain h cs where "e = (h, cs)" by fastforce
  then show ?case using Cons by (cases cs) auto
qed simp







section \<open>A server for the witnesses\<close>



definition reply_code :: "DWORD \<Rightarrow> header_req \<Rightarrow> mp_reply" where
  "reply_code n hdrs = ((S3_ERROR_new 0)\<lparr> dwHttpError := n \<rparr>, [], hdrs)"



lemma reply_code_error [simp]: "IfError (SetError (fst (reply_code n hdrs))) \<longleftrightarrow> n \<ge> 400"
  by (simp add: reply_code_def IfError_SetError) (simp add: IfError_def S3_ERROR_new_def)


lemma decoded [simp]: "no_nul p \<Longrightarrow> pct_decode (UriEncode p t) = p"
  by (simp add: decode_UriEncode no_nul_def)


lemma first_values_single [simp]: "first_values (map (\<lambda>e. (fst e, [snd e])) l) = l"
  by (induction l) (auto simp: first_values_def)



section \<open>Properties\<close>








text \<open>The state after some reads; an answer whose length is not what it says.\<close>

primrec after_reads :: "'w mp_env \<Rightarrow> mp_request \<Rightarrow> nat \<Rightarrow> 'w \<Rightarrow> 'w" where
  "after_reads env rq 0 w = w"
| "after_reads env rq (Suc n) w = after_reads env rq n (snd (mp_send env rq w))"

definition short_answer :: "bool \<Rightarrow> DWORD \<Rightarrow> mp_reply \<Rightarrow> bool" where
  "short_answer bStream off r \<longleftrightarrow>
     \<not> IfError (SetError (fst r)) \<and> wrong_size (returned_length bStream off (fst (snd r))) (snd (snd r))"

lemma read_loop_last:
  assumes "read_loop (Suc k) env rq bStream off len0 w = ((E, data, hdrs, L), w')"
  shows "\<exists>n e. n \<le> (if bStream then 0 else k) \<and> mp_send env rq (after_reads env rq n w) = ((e, data, hdrs), w')
    \<and> (\<forall>m < n. short_answer bStream off (fst (mp_send env rq (after_reads env rq m w))))
    \<and> (if short_answer bStream off (e, data, hdrs) then E = S3_ERROR_new ERROR_BAD_LENGTH \<and> (bStream \<or> n = k) else E = SetError e)
    \<and> (\<not> IfError (SetError e) \<longrightarrow> L = Some (returned_length bStream off data))"
  using assms
proof (induction k arbitrary: w len0)
  case 0
  obtain e d h w1 where m: "mp_send env rq w = ((e, d, h), w1)" by (metis prod_cases3 surj_pair)
  show ?case using 0 m by (intro exI [of _ 0] exI [of _ e]) (auto simp: short_answer_def Let_def split: if_splits)
next
  case (Suc k)
  obtain e d h w1 where m: "mp_send env rq w = ((e, d, h), w1)" by (metis prod_cases3 surj_pair)
  show ?case
  proof (cases "short_answer bStream off (e, d, h) \<and> \<not> bStream")
    case True
    then have "read_loop (Suc k) env rq bStream off (Some (returned_length bStream off d)) w1 = ((E, data, hdrs, L), w')"
      using Suc.prems True unfolding read_loop.simps [of "Suc (Suc k)"] m by (simp add: short_answer_def Let_def del: read_loop.simps)
    from Suc.IH [OF this] obtain n e' where n: "n \<le> (if bStream then 0 else k)"
      "mp_send env rq (after_reads env rq n w1) = ((e', data, hdrs), w')"
      "\<forall>m < n. short_answer bStream off (fst (mp_send env rq (after_reads env rq m w1)))"
      "if short_answer bStream off (e', data, hdrs) then E = S3_ERROR_new ERROR_BAD_LENGTH \<and> (bStream \<or> n = k) else E = SetError e'"
      "\<not> IfError (SetError e') \<longrightarrow> L = Some (returned_length bStream off data)" by blast
    have "\<forall>j < Suc n. short_answer bStream off (fst (mp_send env rq (after_reads env rq j w)))"
    proof (intro allI impI)
      fix j assume "j < Suc n"
      then show "short_answer bStream off (fst (mp_send env rq (after_reads env rq j w)))"
        using n(3) True m by (cases j) auto
    qed
    then show ?thesis using n True m by (intro exI [of _ "Suc n"] exI [of _ e']) (auto simp del: read_loop.simps)
  next
    case False
    then show ?thesis using Suc.prems m
      by (intro exI [of _ 0] exI [of _ e]) (auto simp: short_answer_def Let_def split: if_splits)
  qed
qed

text \<open>\<open>Read\<close> sends the request at most five times (once for a stream), again only while what came is not
  as long as the answer says. Its result is the last answer: its error, a bad length if that one is
  still too short or too long, and no error only if the length is right.\<close>

theorem Read_retries:
  assumes "Read env pszPath lwLen lwOffset bStream dwBufOffset w = ((E, data, hdrs, L), w')"
  shows "\<exists>n e. n \<le> (if bStream then 0 else 4)
    \<and> mp_send env (read_request pszPath lwLen lwOffset) (after_reads env (read_request pszPath lwLen lwOffset) n w) = ((e, data, hdrs), w')
    \<and> (\<forall>m < n. short_answer bStream dwBufOffset
          (fst (mp_send env (read_request pszPath lwLen lwOffset) (after_reads env (read_request pszPath lwLen lwOffset) m w))))
    \<and> (if short_answer bStream dwBufOffset (e, data, hdrs) then E = S3_ERROR_new ERROR_BAD_LENGTH \<and> (bStream \<or> n = 4) else E = SetError e)
    \<and> (\<not> IfError (SetError e) \<longrightarrow> L = Some (returned_length bStream dwBufOffset data))"
  using read_loop_last [of 4 env _ bStream dwBufOffset None w] assms
  by (simp add: Read_def READ_RETRY_MAX_TRIES_def eval_nat_numeral del: read_loop.simps)

text \<open>For the witness: a server that answers with the given data, and the length of what should come.\<close>

definition script_env :: "string list mp_env" where
  "script_env = \<lparr> mp_send = (\<lambda>rq w. (((S3_ERROR_new 0)\<lparr> dwHttpError := 200 \<rparr>, concat (take 1 w), [(''Content-Length'', [''5''])]), tl w)),
     mp_reader = (\<lambda>_. ([], 0)), mp_base64 = (\<lambda>_. []),
     mp_maps = \<lparr> bMapsInitialized = False, IDMap = (\<lambda>_. None), CodeMap = (\<lambda>_. None) \<rparr>, mp_dates = demo_dates \<rparr>"

lemma Read_retries_witness:
  "\<exists>n e. n \<le> 4 \<and> mp_send script_env (read_request ''/b/x'' 0 0) (after_reads script_env (read_request ''/b/x'' 0 0) n [''dat'', ''data!''])
     = ((e, ''data!'', [(''Content-Length'', [''5''])]), [])"
proof -
  obtain E L where run: "Read script_env ''/b/x'' 0 0 False 0 [''dat'', ''data!''] = ((E, ''data!'', [(''Content-Length'', [''5''])], L), [])"
  proof -
    have "snd (Read script_env ''/b/x'' 0 0 False 0 [''dat'', ''data!'']) = []"
      "fst (snd (fst (Read script_env ''/b/x'' 0 0 False 0 [''dat'', ''data!'']))) = ''data!''"
      "fst (snd (snd (fst (Read script_env ''/b/x'' 0 0 False 0 [''dat'', ''data!''])))) = [(''Content-Length'', [''5''])]"
      by code_simp+
    then show thesis using that by (metis prod.collapse)
  qed
  from Read_retries [OF run] show ?thesis by auto
qed

text \<open>With reserved bytes at the start of the buffer, data that is complete is taken for wrong.\<close>

lemma Read_reserved_is_wrong:
  "wrong_size (returned_length False 2 ''data!'') [(''Content-Length'', [''5''])]" "\<not> wrong_size (returned_length False 0 ''data!'') [(''Content-Length'', [''5''])]"
  by code_simp+

end
