(* ===== verification/Workers.thy ===== *)
theory Workers
  imports Prelude
begin

text \<open>
  The life of a worker thread (SimpleWorkerThread.h, SimpleWorkerThread.cpp): its creation, the loop of
  its procedure, the calls other threads make on it, and the events that are signalled at its end. Each
  critical section is a step. The events other than the built-in one, the results of the virtual
  methods, and the end of a thread from outside are choices of the environment.
\<close>

section \<open>State\<close>

text \<open>Where the procedure of the thread is. \<open>Gone\<close>: it has returned, or there is none. \<open>Killed\<close>: the
  system has ended it before it returned.\<close>

datatype thread_pc = Gone | Killed | Started | Initializing | AtLoop | Waiting | Working | Leaving | Deactivating | Ending

text \<open>\<open>m_pWorkEvent\<close>: whether the event is there, and signalled. \<open>ThreadPc\<close> is where the thread is,
  \<open>bInActiveSet\<close> its membership in \<open>pGlobalThreadSetActive\<close>. The last fields are history: the
  termination events that were accepted, removed, and signalled, whether a thread was ended from outside, and
  whether \<open>KillThreadWait\<close> gave up on a thread that runs, and took its event.\<close>

record worker =
  pThread :: bool
  dwThreadID :: DWORD
  hThread :: bool
  dwWaitTime :: DWORD
  bRunning :: bool
  bTerminate :: bool
  bAlertable :: bool
  bThreadInitialized :: bool
  dwEventRet :: DWORD
  ftEndThreadTime :: FILETIME
  m_pWorkEvent :: "bool option"
  EventList :: "nat list"
  TermEventList :: "nat list"
  bInActiveSet :: bool
  ThreadPc :: thread_pc
  evAccepted :: "nat set"
  evRemoved :: "nat set"
  evSignalled :: "nat set"
  bEndedOutside :: bool
  bEventLost :: bool

definition INFINITE_WAIT :: DWORD where "INFINITE_WAIT = 0xFFFFFFFF"
definition MAXIMUM_WAIT_OBJECTS :: nat where "MAXIMUM_WAIT_OBJECTS = 64"

definition new_worker_thread :: worker where
  "new_worker_thread = \<lparr> pThread = False, dwThreadID = 0, hThread = False, dwWaitTime = INFINITE_WAIT, bRunning = False,
     bTerminate = False, bAlertable = False, bThreadInitialized = False, dwEventRet = 0, ftEndThreadTime = 0,
     m_pWorkEvent = None, EventList = [], TermEventList = [], bInActiveSet = False, ThreadPc = Gone,
     evAccepted = {}, evRemoved = {}, evSignalled = {}, bEndedOutside = False,
     bEventLost = False \<rparr>"

section \<open>Calls\<close>

definition set_work_event :: "worker \<Rightarrow> worker" where
  "set_work_event w = w\<lparr> m_pWorkEvent := map_option (\<lambda>_. True) (m_pWorkEvent w) \<rparr>"

definition StartWork :: "worker \<Rightarrow> worker" where "StartWork w = set_work_event w"

definition KillThread :: "FILETIME \<Rightarrow> worker \<Rightarrow> worker" where
  "KillThread now w = set_work_event (w\<lparr> ftEndThreadTime := now, bTerminate := True \<rparr>)"

definition SignalTermination :: "worker \<Rightarrow> worker" where
  "SignalTermination w = w\<lparr> evSignalled := evSignalled w \<union> set (TermEventList w), TermEventList := [] \<rparr>"

text \<open>Whether the procedure of the thread still runs, and the state: the handle of a thread that was ended
  from outside is closed. \<open>bGot\<close> is whether \<open>GetExitCodeThread\<close> succeeds.\<close>

definition thread_alive :: "worker \<Rightarrow> bool" where
  "thread_alive w \<longleftrightarrow> ThreadPc w \<notin> {Gone, Killed}"

definition IfActive :: "bool \<Rightarrow> worker \<Rightarrow> bool \<times> worker" where
  "IfActive bGot w =
     (if \<not> bRunning w then (False, w)
      else if \<not> hThread w then (False, w)
      else if \<not> bGot then (False, w)
      else if thread_alive w then (True, w)
      else (False, w\<lparr> hThread := False \<rparr>))"

definition AddTermEvent :: "bool \<Rightarrow> nat \<Rightarrow> worker \<Rightarrow> bool \<times> worker" where
  "AddTermEvent bGot e w =
     (case IfActive bGot w of
        (False, w1) \<Rightarrow> (False, w1)
      | (True, w1) \<Rightarrow> (True, w1\<lparr> TermEventList := TermEventList w1 @ [e], evAccepted := insert e (evAccepted w1) \<rparr>))"

definition RemoveTermEvent :: "nat \<Rightarrow> worker \<Rightarrow> worker" where
  "RemoveTermEvent e w = w\<lparr> TermEventList := filter (\<lambda>x. x \<noteq> e) (TermEventList w), evRemoved := insert e (evRemoved w) \<rparr>"

definition RemoveAllTermEvent :: "worker \<Rightarrow> worker" where
  "RemoveAllTermEvent w = w\<lparr> TermEventList := [], evRemoved := evRemoved w \<union> set (TermEventList w) \<rparr>"

definition SetCycleTime :: "DWORD \<Rightarrow> worker \<Rightarrow> worker" where
  "SetCycleTime n w = w\<lparr> dwWaitTime := n \<rparr>"

definition SetAlertable :: "bool \<Rightarrow> worker \<Rightarrow> worker" where
  "SetAlertable b w = w\<lparr> bAlertable := b \<rparr>"

definition GetCurrentThreadID :: "worker \<Rightarrow> DWORD" where
  "GetCurrentThreadID w = (if pThread w then dwThreadID w else 0)"

text \<open>The thread is created (with its identifier) or not, its handle is opened or not.\<close>

definition CreateThread :: "DWORD option \<Rightarrow> bool \<Rightarrow> worker \<Rightarrow> bool \<times> worker" where
  "CreateThread created opened w =
     (let w1 = w\<lparr> m_pWorkEvent := Some False, hThread := False, pThread := pThread w \<and> \<not> hThread w, bTerminate := False \<rparr> in
      case created of
        None \<Rightarrow> (False, w1\<lparr> pThread := False \<rparr>)
      | Some tid \<Rightarrow>
          (let w2 = w1\<lparr> pThread := True, bRunning := True, dwThreadID := tid, hThread := opened, ThreadPc := Started,
                       bEventLost := False \<rparr> in
           (opened, w2)))"

text \<open>\<open>KillThreadWait\<close>: the calls before its loop, and a turn of it. It ends when the thread is not active
  (or \<open>IfActive\<close> cannot tell), and when the wait for the thread fails; the event is deleted then.\<close>

definition KillThreadWait_begin :: "bool \<Rightarrow> FILETIME \<Rightarrow> worker \<Rightarrow> bool \<times> worker" where
  "KillThreadWait_begin bDontKillWaitOnly now w =
     (if \<not> pThread w \<or> dwThreadID w = 0 then (False, w)
      else
        (let w1 = (if bDontKillWaitOnly then w else KillThread now w) in
         (m_pWorkEvent w1 \<noteq> None, w1)))"

definition take_work_event :: "worker \<Rightarrow> worker" where
  "take_work_event w = w\<lparr> m_pWorkEvent := None, bEventLost := bEventLost w \<or> thread_alive w \<and> hThread w \<rparr>"

definition KillThreadWait_turn :: "bool \<Rightarrow> bool \<Rightarrow> worker \<Rightarrow> bool \<times> worker" where
  "KillThreadWait_turn bGot bWaitFailed w =
     (case IfActive bGot w of
        (True, w1) \<Rightarrow> if bWaitFailed then (False, take_work_event w1) else (True, w1)
      | (False, w1) \<Rightarrow> (False, take_work_event w1))"

section \<open>The procedure of the thread\<close>

datatype wait_ret = WaitEvent nat | WaitTimeout | WaitCompletion | WaitFailure

text \<open>The events the thread waits for: the first of its list, then the built-in one.\<close>

definition wait_count :: "worker \<Rightarrow> nat" where
  "wait_count w = min (length (EventList w)) (MAXIMUM_WAIT_OBJECTS - 1)"

definition event_wait :: "wait_ret \<Rightarrow> worker \<Rightarrow> worker option" where
  "event_wait r w =
     (case m_pWorkEvent w of None \<Rightarrow> None
      | Some b \<Rightarrow>
         (case r of
            WaitEvent i \<Rightarrow>
              if i < wait_count w then Some (w\<lparr> dwEventRet := of_nat i, ThreadPc := Working \<rparr>)
              else if i = wait_count w \<and> b
              then Some (w\<lparr> m_pWorkEvent := Some False, dwEventRet := of_nat i, ThreadPc := Working \<rparr>)
              else None
          | WaitTimeout \<Rightarrow> if dwWaitTime w = INFINITE_WAIT then None else Some (w\<lparr> dwEventRet := 0x102, ThreadPc := Working \<rparr>)
          | WaitCompletion \<Rightarrow> if bAlertable w then Some (w\<lparr> dwEventRet := 0xC0, ThreadPc := Working \<rparr>) else None
          | WaitFailure \<Rightarrow> Some (w\<lparr> dwEventRet := 0xFFFFFFFF, ThreadPc := AtLoop \<rparr>)))"

text \<open>A step of the thread, with the result of \<open>InitInstance\<close> and of the wait; None: it is blocked, there
  is no thread, or it reads the handle of its event through a null pointer.\<close>

definition thread_step :: "bool \<Rightarrow> wait_ret \<Rightarrow> worker \<Rightarrow> worker option" where
  "thread_step bInit r w =
     (case ThreadPc w of
        Gone \<Rightarrow> None
      | Killed \<Rightarrow> None
      | Started \<Rightarrow> Some (if hThread w then w\<lparr> bInActiveSet := True, ThreadPc := Initializing \<rparr> else w\<lparr> ThreadPc := Gone \<rparr>)
      | Initializing \<Rightarrow> Some (w\<lparr> bTerminate := bTerminate w \<or> \<not> bInit, bThreadInitialized := True, ThreadPc := AtLoop \<rparr>)
      | AtLoop \<Rightarrow>
          (if bTerminate w then Some (w\<lparr> bThreadInitialized := False, ThreadPc := Leaving \<rparr>)
           else if m_pWorkEvent w = None then None
           else Some (w\<lparr> ThreadPc := Waiting \<rparr>))
      | Waiting \<Rightarrow> event_wait r w
      | Working \<Rightarrow> Some (w\<lparr> ThreadPc := AtLoop \<rparr>)
      | Leaving \<Rightarrow> Some (w\<lparr> ThreadPc := Deactivating \<rparr>)
      | Deactivating \<Rightarrow> Some (w\<lparr> bInActiveSet := False, ThreadPc := Ending \<rparr>)
      | Ending \<Rightarrow>
          Some (SignalTermination (w\<lparr> m_pWorkEvent := None, pThread := False, hThread := False,
            dwThreadID := (if hThread w then 0 else dwThreadID w), bRunning := False, ThreadPc := Gone \<rparr>)))"

section \<open>Runs\<close>

text \<open>What the other threads do. A thread is created only when there is none (\<open>CreateThread\<close> does not
  look).\<close>

datatype call = CallStartWork | CallKill FILETIME | CallAdd bool nat | CallRemove nat | CallRemoveAll | CallCycle DWORD
  | CallAlertable bool | CallPushEvent nat | CallIfActive bool | CallCreate "DWORD option" bool | CallWaitBegin bool FILETIME
  | CallWaitTurn bool bool

definition do_call :: "call \<Rightarrow> worker \<Rightarrow> worker option" where
  "do_call c w =
     (case c of
        CallStartWork \<Rightarrow> Some (StartWork w)
      | CallKill now \<Rightarrow> Some (KillThread now w)
      | CallAdd q e \<Rightarrow> Some (snd (AddTermEvent q e w))
      | CallRemove e \<Rightarrow> Some (RemoveTermEvent e w)
      | CallRemoveAll \<Rightarrow> Some (RemoveAllTermEvent w)
      | CallCycle n \<Rightarrow> Some (SetCycleTime n w)
      | CallAlertable b \<Rightarrow> Some (SetAlertable b w)
      | CallPushEvent e \<Rightarrow> Some (w\<lparr> EventList := EventList w @ [e] \<rparr>)
      | CallIfActive q \<Rightarrow> Some (snd (IfActive q w))
      | CallCreate created opened \<Rightarrow> if thread_alive w then None else Some (snd (CreateThread created opened w))
      | CallWaitBegin b now \<Rightarrow> Some (snd (KillThreadWait_begin b now w))
      | CallWaitTurn q f \<Rightarrow> Some (snd (KillThreadWait_turn q f w)))"

text \<open>A move: a call of another thread, a step of the thread, or its end from outside.\<close>

datatype move = Call call | Own bool wait_ret | EndOutside

definition do_move :: "move \<Rightarrow> worker \<Rightarrow> worker option" where
  "do_move m w =
     (case m of
        Call c \<Rightarrow> do_call c w
      | Own bInit r \<Rightarrow> thread_step bInit r w
      | EndOutside \<Rightarrow> if thread_alive w then Some (w\<lparr> ThreadPc := Killed, bEndedOutside := True \<rparr>) else None)"

inductive worker_reach :: "worker \<Rightarrow> bool" where
  reach_new: "worker_reach new_worker_thread"
| reach_move: "worker_reach w \<Longrightarrow> do_move m w = Some w' \<Longrightarrow> worker_reach w'"

fun run_moves :: "move list \<Rightarrow> worker \<Rightarrow> worker option" where
  "run_moves [] w = Some w"
| "run_moves (m # ms) w = (case do_move m w of None \<Rightarrow> None | Some w1 \<Rightarrow> run_moves ms w1)"

lemma run_moves_reach: "worker_reach w \<Longrightarrow> run_moves ms w = Some w' \<Longrightarrow> worker_reach w'"
  by (induction ms arbitrary: w) (auto split: option.splits intro: reach_move)

section \<open>Invariant\<close>

definition thread_ok :: "worker \<Rightarrow> bool" where
  "thread_ok w \<longleftrightarrow>
     (thread_alive w \<longrightarrow> bRunning w \<and> (ThreadPc w \<noteq> Started \<longrightarrow> hThread w)
          \<and> (hThread w \<and> \<not> bEventLost w \<longrightarrow> m_pWorkEvent w \<noteq> None))
     \<and> (ThreadPc w = Gone \<and> bRunning w \<longrightarrow> \<not> hThread w)
     \<and> (ThreadPc w = Waiting \<and> bTerminate w \<and> \<not> bEventLost w \<longrightarrow> m_pWorkEvent w = Some True)
     \<and> evAccepted w \<subseteq> evSignalled w \<union> evRemoved w \<union> set (TermEventList w)
     \<and> (\<not> bEndedOutside w \<longrightarrow> ThreadPc w \<noteq> Killed
          \<and> (ThreadPc w = Gone \<or> \<not> hThread w \<longrightarrow> TermEventList w = [])
          \<and> (bInActiveSet w \<longleftrightarrow> ThreadPc w \<notin> {Gone, Started, Ending}))"

lemmas call_defs = StartWork_def KillThread_def set_work_event_def AddTermEvent_def IfActive_def RemoveTermEvent_def
  RemoveAllTermEvent_def SetCycleTime_def SetAlertable_def CreateThread_def KillThreadWait_begin_def KillThreadWait_turn_def take_work_event_def
  thread_alive_def Let_def

lemma thread_ok_new: "thread_ok new_worker_thread"
  by (simp add: thread_ok_def new_worker_thread_def thread_alive_def)

lemma thread_ok_same:
  assumes "thread_ok w" "ThreadPc w' = ThreadPc w" "bRunning w' = bRunning w" "hThread w' = hThread w"
    "m_pWorkEvent w' = m_pWorkEvent w" "bTerminate w' = bTerminate w" "evAccepted w' = evAccepted w" "evSignalled w' = evSignalled w"
    "evRemoved w' = evRemoved w" "TermEventList w' = TermEventList w" "bEndedOutside w' = bEndedOutside w"
    "bInActiveSet w' = bInActiveSet w" "bEventLost w' = bEventLost w"
  shows "thread_ok w'"
  using assms by (simp add: thread_ok_def thread_alive_def)

lemma KillThread_ok: "thread_ok w \<Longrightarrow> thread_ok (KillThread now w)"
  by (cases "m_pWorkEvent w") (auto simp: thread_ok_def thread_alive_def KillThread_def set_work_event_def)

lemma StartWork_ok: "thread_ok w \<Longrightarrow> thread_ok (StartWork w)"
  by (cases "m_pWorkEvent w") (auto simp: thread_ok_def thread_alive_def StartWork_def set_work_event_def)

lemma Removed_ok: "thread_ok w \<Longrightarrow> thread_ok (RemoveTermEvent e w)" "thread_ok w \<Longrightarrow> thread_ok (RemoveAllTermEvent w)"
  by (auto simp: thread_ok_def thread_alive_def RemoveTermEvent_def RemoveAllTermEvent_def)

lemma IfActive_ok:
  assumes "thread_ok w"
  shows "thread_ok (snd (IfActive q w))"
proof (cases "bRunning w \<and> hThread w \<and> q \<and> \<not> thread_alive w")
  case True
  then have "ThreadPc w = Killed" using assms by (auto simp: thread_ok_def thread_alive_def)
  then have "bEndedOutside w" using assms unfolding thread_ok_def by blast
  then show ?thesis using assms True by (simp add: thread_ok_def IfActive_def thread_alive_def)
qed (use assms in \<open>auto simp: IfActive_def\<close>)

lemma IfActive_iff: "thread_ok w \<Longrightarrow> fst (IfActive q w) \<longleftrightarrow> q \<and> thread_alive w \<and> hThread w"
  unfolding thread_ok_def IfActive_def by auto

lemma IfActive_True: "IfActive q w = (True, w1) \<Longrightarrow> w1 = w"
  by (auto simp: IfActive_def split: if_splits)

lemma AddTermEvent_ok:
  assumes "thread_ok w"
  shows "thread_ok (snd (AddTermEvent q e w))"
proof (cases "IfActive q w")
  case (Pair b w1)
  show ?thesis
  proof (cases b)
    case True
    then have "w1 = w" "thread_alive w" "hThread w" using Pair IfActive_True [of q w w1] IfActive_iff [OF assms, of q] by auto
    then show ?thesis using assms Pair True by (auto simp: AddTermEvent_def thread_ok_def thread_alive_def)
  next
    case False
    then show ?thesis using IfActive_ok [OF assms, of q] Pair by (simp add: AddTermEvent_def)
  qed
qed

lemma take_work_event_ok: "thread_ok w \<Longrightarrow> thread_ok (take_work_event w)"
  by (auto simp: thread_ok_def thread_alive_def take_work_event_def)

lemma KillThreadWait_turn_ok:
  assumes "thread_ok w"
  shows "thread_ok (snd (KillThreadWait_turn q f w))"
proof (cases "IfActive q w")
  case (Pair b w1)
  then have "thread_ok w1" using IfActive_ok [OF assms, of q] by simp
  then show ?thesis using Pair take_work_event_ok [of w1] by (cases b) (simp_all add: KillThreadWait_turn_def)
qed

lemma CreateThread_ok: "thread_ok w \<Longrightarrow> \<not> thread_alive w \<Longrightarrow> thread_ok (snd (CreateThread created opened w))"
  by (cases created) (auto simp: CreateThread_def Let_def thread_ok_def thread_alive_def)

lemma Set_ok:
  "thread_ok w \<Longrightarrow> thread_ok (SetCycleTime n w)" "thread_ok w \<Longrightarrow> thread_ok (SetAlertable b w)"
  "thread_ok w \<Longrightarrow> thread_ok (w\<lparr> EventList := l \<rparr>)"
  by (simp_all add: thread_ok_def thread_alive_def SetCycleTime_def SetAlertable_def)

lemma KillThreadWait_begin_ok: "thread_ok w \<Longrightarrow> thread_ok (snd (KillThreadWait_begin b now w))"
  by (simp add: KillThreadWait_begin_def Let_def KillThread_ok)

lemma do_call_ok:
  assumes "thread_ok w" "do_call c w = Some w'"
  shows "thread_ok w'"
  using assms by (cases c) (simp_all add: do_call_def KillThread_ok StartWork_ok Removed_ok IfActive_ok AddTermEvent_ok Set_ok
    KillThreadWait_begin_ok KillThreadWait_turn_ok CreateThread_ok split: if_splits, (hypsubst, simp add: KillThread_ok StartWork_ok Removed_ok
    IfActive_ok AddTermEvent_ok Set_ok KillThreadWait_begin_ok KillThreadWait_turn_ok CreateThread_ok)+)

lemma event_wait_fields:
  assumes "event_wait r w = Some w'"
  shows "bRunning w' = bRunning w" "hThread w' = hThread w" "bTerminate w' = bTerminate w" "evAccepted w' = evAccepted w"
    "evSignalled w' = evSignalled w" "evRemoved w' = evRemoved w" "TermEventList w' = TermEventList w"
    "bEndedOutside w' = bEndedOutside w" "bInActiveSet w' = bInActiveSet w" "bEventLost w' = bEventLost w"
    "m_pWorkEvent w' \<noteq> None" "ThreadPc w' = Working \<or> ThreadPc w' = AtLoop"
  using assms by (auto simp: event_wait_def split: wait_ret.splits option.splits if_splits)

lemma event_wait_ok:
  assumes "thread_ok w" "event_wait r w = Some w'" "ThreadPc w = Waiting"
  shows "thread_ok w'"
proof -
  note f = event_wait_fields [OF assms(2)]
  show ?thesis
    using assms(1,3) f(11,12) unfolding thread_ok_def thread_alive_def f(1-10) by auto
qed

lemma thread_step_ok:
  assumes ok: "thread_ok w" and st: "thread_step i r w = Some w'"
  shows "thread_ok w'"
proof (cases "ThreadPc w")
  case Waiting
  then show ?thesis using assms event_wait_ok by (simp add: thread_step_def)
next
  case Started
  then have w': "w' = (if hThread w then w\<lparr> bInActiveSet := True, ThreadPc := Initializing \<rparr> else w\<lparr> ThreadPc := Gone \<rparr>)"
    using st by (simp add: thread_step_def)
  show ?thesis using ok Started by (cases "hThread w") (simp_all add: w' thread_ok_def thread_alive_def)
next
  case AtLoop
  then have w': "w' = (if bTerminate w then w\<lparr> bThreadInitialized := False, ThreadPc := Leaving \<rparr> else w\<lparr> ThreadPc := Waiting \<rparr>)"
    using st by (simp add: thread_step_def split: if_splits)
  show ?thesis using ok AtLoop by (cases "bTerminate w") (simp_all add: w' thread_ok_def thread_alive_def)
next
  case Ending
  then have "w' = SignalTermination (w\<lparr> m_pWorkEvent := None, pThread := False, hThread := False,
      dwThreadID := (if hThread w then 0 else dwThreadID w), bRunning := False, ThreadPc := Gone \<rparr>)"
    using st by (simp add: thread_step_def)
  then show ?thesis using ok Ending by (simp add: SignalTermination_def thread_ok_def thread_alive_def Un_ac)
qed (use ok st in \<open>simp_all add: thread_step_def\<close>, (hypsubst, simp add: thread_ok_def thread_alive_def)+)

lemma EndOutside_ok: "thread_ok w \<Longrightarrow> thread_alive w \<Longrightarrow> thread_ok (w\<lparr> ThreadPc := Killed, bEndedOutside := True \<rparr>)"
  by (auto simp: thread_ok_def thread_alive_def)

lemma do_move_ok: "thread_ok w \<Longrightarrow> do_move m w = Some w' \<Longrightarrow> thread_ok w'"
  by (cases m) (auto simp: do_move_def intro: do_call_ok thread_step_ok EndOutside_ok split: if_splits)

lemma worker_reach_ok: "worker_reach w \<Longrightarrow> thread_ok w"
  by (induction rule: worker_reach.induct) (auto intro: thread_ok_new do_move_ok)

section \<open>A killed thread\<close>

text \<open>How many of its own steps a thread has left once it is told to end.\<close>

fun pc_steps :: "thread_pc \<Rightarrow> nat" where
  "pc_steps Gone = 0" | "pc_steps Killed = 0" | "pc_steps Ending = 1" | "pc_steps Deactivating = 2" | "pc_steps Leaving = 3"
| "pc_steps AtLoop = 4" | "pc_steps Working = 5" | "pc_steps Initializing = 5" | "pc_steps Waiting = 6" | "pc_steps Started = 6"

definition creates :: "move \<Rightarrow> bool" where
  "creates m \<longleftrightarrow> (case m of Call (CallCreate created opened) \<Rightarrow> True | _ \<Rightarrow> False)"

definition own_steps :: "move list \<Rightarrow> nat" where
  "own_steps ms = length (filter (\<lambda>m. case m of Own i r \<Rightarrow> True | _ \<Rightarrow> False) ms)"

lemma own_steps_simps [simp]:
  "own_steps [] = 0" "own_steps (Own i r # ms) = Suc (own_steps ms)" "own_steps (Call c # ms) = own_steps ms"
  "own_steps (EndOutside # ms) = own_steps ms"
  by (simp_all add: own_steps_def)

lemma thread_step_ends:
  assumes "thread_step i r w = Some w'" "bTerminate w"
  shows "pc_steps (ThreadPc w') < pc_steps (ThreadPc w)" "bTerminate w'"
proof -
  have "pc_steps (ThreadPc w') < pc_steps (ThreadPc w) \<and> bTerminate w'"
  proof (cases "ThreadPc w")
    case Waiting
    then show ?thesis using assms event_wait_fields [of r w w'] by (auto simp: thread_step_def)
  next
    case AtLoop
    then have "w' = w\<lparr> bThreadInitialized := False, ThreadPc := Leaving \<rparr>" using assms by (simp add: thread_step_def)
    then show ?thesis using assms(2) AtLoop by simp
  qed (use assms in \<open>simp_all add: thread_step_def SignalTermination_def\<close>, (hypsubst, simp)+)
  then show "pc_steps (ThreadPc w') < pc_steps (ThreadPc w)" "bTerminate w'" by simp_all
qed

lemma set_work_event_fields [simp]:
  "ThreadPc (set_work_event w) = ThreadPc w" "bTerminate (set_work_event w) = bTerminate w"
  by (simp_all add: set_work_event_def)

lemma IfActive_fields [simp]:
  "ThreadPc (snd (IfActive q w)) = ThreadPc w" "bTerminate (snd (IfActive q w)) = bTerminate w"
  by (simp_all add: IfActive_def)

lemma do_call_keeps:
  assumes "do_call c w = Some w'" "\<not> creates (Call c)"
  shows "ThreadPc w' = ThreadPc w" "bTerminate w \<Longrightarrow> bTerminate w'"
proof -
  have a: "ThreadPc (snd (AddTermEvent q e w)) = ThreadPc w" "bTerminate (snd (AddTermEvent q e w)) = bTerminate w" for q e
    using IfActive_fields [of q w] by (cases "IfActive q w"; cases "fst (IfActive q w)"; simp add: AddTermEvent_def)+
  have t: "ThreadPc (snd (KillThreadWait_turn q f w)) = ThreadPc w" "bTerminate (snd (KillThreadWait_turn q f w)) = bTerminate w" for q f
    using IfActive_fields [of q w] by (cases "IfActive q w"; cases "fst (IfActive q w)"; simp add: KillThreadWait_turn_def take_work_event_def)+
  have "ThreadPc w' = ThreadPc w \<and> (bTerminate w \<longrightarrow> bTerminate w')"
    using assms by (cases c) (simp_all add: do_call_def creates_def, (hypsubst, simp add: a t StartWork_def KillThread_def RemoveTermEvent_def
      RemoveAllTermEvent_def SetCycleTime_def SetAlertable_def KillThreadWait_begin_def Let_def)+)
  then show "ThreadPc w' = ThreadPc w" "bTerminate w \<Longrightarrow> bTerminate w'" by simp_all
qed

lemma do_move_ends:
  assumes "do_move m w = Some w'" "\<not> creates m" "bTerminate w"
  shows "own_steps [m] + pc_steps (ThreadPc w') \<le> pc_steps (ThreadPc w) \<and> bTerminate w'"
proof (cases m)
  case (Call c)
  then show ?thesis using assms do_call_keeps [of c w w'] by (simp add: do_move_def)
next
  case (Own i r)
  then show ?thesis using assms thread_step_ends [of i r w w'] by (simp add: do_move_def)
next
  case EndOutside
  then have "w' = w\<lparr> ThreadPc := Killed, bEndedOutside := True \<rparr>" using assms(1) by (simp add: do_move_def split: if_splits)
  then show ?thesis using assms(3) EndOutside by simp
qed

lemma run_moves_ends:
  "run_moves ms w = Some w' \<Longrightarrow> \<forall>m \<in> set ms. \<not> creates m \<Longrightarrow> bTerminate w \<Longrightarrow>
    own_steps ms + pc_steps (ThreadPc w') \<le> pc_steps (ThreadPc w) \<and> bTerminate w'"
proof (induction ms arbitrary: w)
  case (Cons m ms)
  then obtain w1 where w1: "do_move m w = Some w1" "run_moves ms w1 = Some w'" by (auto split: option.splits)
  have "own_steps [m] + pc_steps (ThreadPc w1) \<le> pc_steps (ThreadPc w) \<and> bTerminate w1"
    using do_move_ends [OF w1(1)] Cons.prems by simp
  moreover have "own_steps (m # ms) = own_steps [m] + own_steps ms" by (cases m) simp_all
  ultimately show ?case using Cons.IH [OF w1(2)] Cons.prems by simp
qed simp

lemma pc_steps_le: "pc_steps p \<le> 6"
  by (cases p) simp_all

lemma killed_awake:
  assumes "thread_ok w" "thread_alive w" "bTerminate w" "\<not> bEventLost w"
  shows "thread_step i (WaitEvent (wait_count w)) w \<noteq> None"
proof (cases "ThreadPc w = Waiting")
  case True
  then have "m_pWorkEvent w = Some True" using assms unfolding thread_ok_def by blast
  then show ?thesis using True by (simp add: thread_step_def event_wait_def)
next
  case False
  then show ?thesis using assms(2,3) by (cases "ThreadPc w") (simp_all add: thread_step_def thread_alive_def)
qed

section \<open>All threads\<close>

text \<open>\<open>CurrentThread\<close>: the active thread with the identifier.\<close>

definition CurrentThread :: "DWORD \<Rightarrow> worker list \<Rightarrow> worker option" where
  "CurrentThread tid ws = find (\<lambda>w. bInActiveSet w \<and> dwThreadID w = tid) ws"

text \<open>\<open>AllTerminate\<close>: the active threads are told to end; then its turns, until none is active. \<open>got\<close> is
  whether the query of a thread's exit code succeeds.\<close>

definition AllTerminate_kill :: "(worker \<Rightarrow> bool) \<Rightarrow> FILETIME \<Rightarrow> worker list \<Rightarrow> worker list" where
  "AllTerminate_kill got now ws = map (\<lambda>w. case IfActive (got w) w of (b, w1) \<Rightarrow> if b then KillThread now w1 else w1) ws"

fun AllTerminate_turn :: "(worker \<Rightarrow> bool) \<Rightarrow> worker list \<Rightarrow> bool \<times> worker list" where
  "AllTerminate_turn got [] = (False, [])"
| "AllTerminate_turn got (w # ws) =
     (case IfActive (got w) w of
        (True, w1) \<Rightarrow> (True, w1 # ws)
      | (False, w1) \<Rightarrow> (case AllTerminate_turn got ws of (b, ws1) \<Rightarrow> (b, w1 # ws1)))"

text \<open>\<open>KillThreadQueueSRW\<close>: the notification, the collection of at most 60 termination events to wait for
  (those of the current thread left out, with the threads that got one marked), and their removal.\<close>

definition other_thread :: "bool \<Rightarrow> DWORD \<Rightarrow> worker \<Rightarrow> bool" where
  "other_thread bDontKillThis dwThisThreadID w \<longleftrightarrow> \<not> bDontKillThis \<or> dwThisThreadID \<noteq> GetCurrentThreadID w"

definition kill_queue :: "bool \<Rightarrow> DWORD \<Rightarrow> FILETIME \<Rightarrow> worker list \<Rightarrow> worker list" where
  "kill_queue bDontKillThis tid now ws = map (\<lambda>w. if other_thread bDontKillThis tid w then KillThread now w else w) ws"

definition EventsMax :: nat where "EventsMax = 60"

fun collect_events :: "(worker \<Rightarrow> bool) \<Rightarrow> bool \<Rightarrow> DWORD \<Rightarrow> (nat \<Rightarrow> nat) \<Rightarrow> nat \<Rightarrow> worker list \<Rightarrow> bool \<times> nat \<times> (bool \<times> worker) list" where
  "collect_events got bDontKillThis tid ev n [] = (True, n, [])"
| "collect_events got bDontKillThis tid ev n (w # ws) =
     (if \<not> other_thread bDontKillThis tid w then
        (case collect_events got bDontKillThis tid ev n ws of (b, k, l) \<Rightarrow> (b, k, (False, w) # l))
      else
        (case IfActive (got w) w of
           (False, w1) \<Rightarrow> (case collect_events got bDontKillThis tid ev n ws of (b, k, l) \<Rightarrow> (b, k, (False, w1) # l))
         | (True, w1) \<Rightarrow>
             (case AddTermEvent (got w1) (ev n) w1 of
                (True, w2) \<Rightarrow>
                  if n + 1 \<ge> EventsMax then (False, n + 1, (True, w2) # map (Pair False) ws)
                  else (case collect_events got bDontKillThis tid ev (n + 1) ws of (b, k, l) \<Rightarrow> (False, k, (True, w2) # l))
              | (False, w2) \<Rightarrow> (case collect_events got bDontKillThis tid ev n ws of (b, k, l) \<Rightarrow> (False, k, (False, w2) # l)))))"

definition release_events :: "(bool \<times> worker) list \<Rightarrow> worker list" where
  "release_events l = map (\<lambda>(b, w). if b then RemoveAllTermEvent w else w) l"

lemma collect_events_bound:
  "collect_events got d tid ev n ws = (b, k, l) \<Longrightarrow> n < EventsMax \<Longrightarrow> k \<le> EventsMax"
  by (induction got d tid ev n ws arbitrary: b k l rule: collect_events.induct)
    (auto split: prod.splits bool.splits if_splits)

lemma collect_events_stopped:
  "collect_events got d tid ev n ws = (True, k, l) \<Longrightarrow> \<forall>w \<in> set ws. other_thread d tid w \<longrightarrow> \<not> fst (IfActive (got w) w)"
  by (induction got d tid ev n ws arbitrary: k l rule: collect_events.induct)
    (auto split: prod.splits bool.splits if_splits)

lemma AllTerminate_turn_stopped:
  "AllTerminate_turn got ws = (False, ws') \<Longrightarrow> \<forall>w \<in> set ws. \<not> fst (IfActive (got w) w)"
  by (induction ws arbitrary: ws') (auto split: prod.splits bool.splits)

lemma AllTerminate_kill_told:
  assumes "w' \<in> set (AllTerminate_kill got now ws)" "fst (IfActive (got w') w')"
  shows "bTerminate w'"
proof -
  obtain w b w1 where w: "IfActive (got w) w = (b, w1)" "w' = (if b then KillThread now w1 else w1)"
    using assms(1) by (auto simp: AllTerminate_kill_def split: prod.splits)
  show ?thesis
  proof (cases b)
    case True
    then show ?thesis using w by (simp add: KillThread_def)
  next
    case False
    then show ?thesis using w assms(2) by (auto simp: IfActive_def thread_alive_def split: if_splits)
  qed
qed

section \<open>A run for the witnesses\<close>

definition demo_waiting :: worker where
  "demo_waiting = new_worker_thread\<lparr> pThread := True, dwThreadID := 7, hThread := True, bRunning := True,
     bThreadInitialized := True, m_pWorkEvent := Some False, TermEventList := [3], bInActiveSet := True,
     ThreadPc := Waiting, evAccepted := {3} \<rparr>"

definition demo_ended :: worker where
  "demo_ended = new_worker_thread\<lparr> bTerminate := True, ftEndThreadTime := 9, evAccepted := {3}, evSignalled := {3} \<rparr>"

definition demo_ending :: "move list" where
  "demo_ending = [Own True (WaitEvent 0), Own True WaitTimeout, Own True WaitTimeout, Own True WaitTimeout,
     Own True WaitTimeout, Own True WaitTimeout]"

lemmas step_defs = do_move_def do_call_def thread_step_def event_wait_def wait_count_def call_defs SignalTermination_def
  new_worker_thread_def

lemma demo_waiting_reach: "worker_reach demo_waiting"
proof -
  have "run_moves [Call (CallCreate (Some 7) True), Own True WaitTimeout, Own True WaitTimeout, Own True WaitTimeout, Call (CallAdd True 3)]
      new_worker_thread = Some demo_waiting"
    by (simp add: step_defs demo_waiting_def)
  then show ?thesis using run_moves_reach reach_new by blast
qed

lemma demo_worker_run: "run_moves demo_ending (KillThread 9 demo_waiting) = Some demo_ended"
  by (simp add: step_defs demo_waiting_def demo_ending_def demo_ended_def)

lemma demo_ended_reach: "worker_reach demo_ended"
proof -
  have "do_move (Call (CallKill 9)) demo_waiting = Some (KillThread 9 demo_waiting)" by (simp add: do_move_def do_call_def)
  then show ?thesis using run_moves_reach [OF reach_move [OF demo_waiting_reach] demo_worker_run] by blast
qed

section \<open>Properties\<close>

text \<open>C4: A thread that is told to end does, provided the object does not create a thread again before it has
  ended (\<open>CreateThread\<close> would take the order back: \<open>CreateThread_forgets_kill\<close>): from then on it makes at
  most six steps of its own, whatever else the others call meanwhile, and until its procedure has returned it
  is never blocked, unless a \<open>KillThreadWait\<close> gave up on it after a failure of Windows and
  deleted the event it waits for (\<open>failed_wait_blocks\<close>). Once the procedure has returned it is not
  active any more, which is what \<open>KillThreadWait\<close>, \<open>AllTerminate\<close> and \<open>KillThreadQueueSRW\<close> wait for.\<close>

theorem KillThread_ends:
  assumes "worker_reach w" "run_moves ms (KillThread now w) = Some w'" "\<And>m. m \<in> set ms \<Longrightarrow> \<not> creates m"
  shows "own_steps ms \<le> 6
    \<and> (if thread_alive w'
       then bTerminate w' \<and> (bEventLost w' \<or> thread_step bInit (WaitEvent (wait_count w')) w' \<noteq> None)
       else \<not> fst (IfActive bGot w'))"
proof -
  have "do_move (Call (CallKill now)) w = Some (KillThread now w)" by (simp add: do_move_def do_call_def)
  then have r: "worker_reach w'" using assms(1,2) run_moves_reach reach_move by blast
  have e: "own_steps ms + pc_steps (ThreadPc w') \<le> pc_steps (ThreadPc w) \<and> bTerminate w'"
    using run_moves_ends [OF assms(2)] assms(3) by (simp add: KillThread_def)
  then show ?thesis
    using pc_steps_le [of "ThreadPc w"] killed_awake [OF worker_reach_ok [OF r]] IfActive_iff [OF worker_reach_ok [OF r]] by auto
qed

lemma KillThread_ends_witness:
  "own_steps demo_ending \<le> 6 \<and> \<not> fst (IfActive True demo_ended) \<and> ThreadPc demo_ended = Gone"
proof -
  have "own_steps demo_ending \<le> 6 \<and> (if thread_alive demo_ended then bTerminate demo_ended
      \<and> (bEventLost demo_ended \<or> thread_step True (WaitEvent (wait_count demo_ended)) demo_ended \<noteq> None)
      else \<not> fst (IfActive True demo_ended))"
    by (rule KillThread_ends [OF demo_waiting_reach demo_worker_run]) (auto simp: demo_ending_def creates_def)
  then show ?thesis by (simp add: thread_alive_def demo_ended_def new_worker_thread_def)
qed

text \<open>When the wait of \<open>KillThreadWait\<close> fails, or the exit code cannot be read, its loop ends although the
  thread runs, and the event is deleted: a thread that waits is not woken by it any more, and one that comes
  to its wait reads a null pointer.\<close>

lemma failed_wait_blocks:
  assumes "ThreadPc w = Waiting" "bRunning w" "hThread w" "\<not> bGot \<or> bWaitFailed"
  shows "fst (KillThreadWait_turn bGot bWaitFailed (KillThread now w)) = False
    \<and> thread_step i r (snd (KillThreadWait_turn bGot bWaitFailed (KillThread now w))) = None"
  using assms by (auto simp: KillThreadWait_turn_def IfActive_def KillThread_def set_work_event_def thread_alive_def
      take_work_event_def thread_step_def event_wait_def)

text \<open>C25: No waiter for the end of a thread is forgotten: when the procedure of a thread has returned and no
  thread was ended from outside, every event that \<open>AddTermEvent\<close> has accepted was signalled or removed, and
  the thread is in the set of the active ones no more.\<close>

theorem term_events_signalled:
  assumes "worker_reach w" "ThreadPc w = Gone" "\<not> bEndedOutside w"
  shows "evAccepted w \<subseteq> evSignalled w \<union> evRemoved w \<and> TermEventList w = [] \<and> \<not> bInActiveSet w"
proof -
  have ok: "thread_ok w" by (rule worker_reach_ok [OF assms(1)])
  then have t: "TermEventList w = []" "\<not> bInActiveSet w" using assms(2,3) by (auto simp: thread_ok_def)
  have "evAccepted w \<subseteq> evSignalled w \<union> evRemoved w \<union> set (TermEventList w)" using ok unfolding thread_ok_def by blast
  then show ?thesis using t by simp
qed

lemma term_events_signalled_witness: "evAccepted demo_ended \<subseteq> evSignalled demo_ended \<union> evRemoved demo_ended \<and> 3 \<in> evSignalled demo_ended"
proof -
  have "ThreadPc demo_ended = Gone" "\<not> bEndedOutside demo_ended" "3 \<in> evSignalled demo_ended"
    by (simp_all add: demo_ended_def new_worker_thread_def)
  then show ?thesis using term_events_signalled [OF demo_ended_reach] by blast
qed

text \<open>Calls of \<open>StartWork\<close> while one is pending are not counted.\<close>

lemma StartWork_merges: "StartWork (StartWork w) = StartWork w"
  by (simp add: StartWork_def set_work_event_def option.map_comp comp_def)

text \<open>A thread that waits runs \<open>DoWork\<close> once more after it is told to end.\<close>

lemma work_after_kill:
  "ThreadPc w = Waiting \<Longrightarrow> m_pWorkEvent w \<noteq> None \<Longrightarrow>
    \<exists>w'. thread_step i (WaitEvent (wait_count w)) (KillThread now w) = Some w' \<and> ThreadPc w' = Working"
  by (auto simp: thread_step_def event_wait_def wait_count_def KillThread_def set_work_event_def)

text \<open>What \<open>RemoveAllTermEvent\<close> of one waiter removes, the events of the others included, is not signalled.\<close>

lemma removed_events_forgotten: "TermEventList (RemoveAllTermEvent w) = [] \<and> evSignalled (RemoveAllTermEvent w) = evSignalled w"
  by (simp add: RemoveAllTermEvent_def)

text \<open>A new thread forgets that the last one was told to end.\<close>

lemma CreateThread_forgets_kill: "\<not> bTerminate (snd (CreateThread created opened (KillThread now w)))"
  by (simp add: CreateThread_def Let_def split: option.splits)

end
