(* ===== verification/MdSearch.thy ===== *)
theory MdSearch
  imports BucketConfig Failover
begin

text \<open>
  Metadata search (ECSConnection.cpp, S3GetMDSearchFields, S3SearchMD and their callbacks; the data in
  ECSConnection.h): the searchable fields of the system and of a bucket, and the query, whose answer
  comes in pages. Requests as in the theory Multipart. The conversion of a string to UTF-16 is a parameter.
\<close>

section \<open>Searchable fields\<close>

record S3_METADATA_SEARCH_ENTRY =
  se_sName :: string
  se_Type :: E_MD_SEARCH_TYPE

definition search_entry_Empty :: S3_METADATA_SEARCH_ENTRY where
  "search_entry_Empty = \<lparr> se_sName = [], se_Type = MDS_Unknown \<rparr>"

record S3_METADATA_SEARCH_FIELDS =
  sf_KeyList :: "S3_METADATA_SEARCH_ENTRY list"
  sf_AttributeList :: "S3_METADATA_SEARCH_ENTRY list"

text \<open>The context: the lists and the entry under way.\<close>

type_synonym search_fields_ctx = "S3_METADATA_SEARCH_FIELDS \<times> S3_METADATA_SEARCH_ENTRY"

definition entry_complete :: "S3_METADATA_SEARCH_ENTRY \<Rightarrow> bool" where
  "entry_complete r \<longleftrightarrow> se_sName r \<noteq> [] \<and> se_Type r \<noteq> MDS_Unknown"

definition XmlS3GetMDSearchFieldsCB :: "search_fields_ctx xml_cb" where
  "XmlS3GetMDSearchFieldsCB ev c =
     (0, case c of (l, r) \<Rightarrow>
       (case ev of
          XmlText p v \<Rightarrow>
            if eq_nocase p ''//MetadataSearchList/OptionalAttributes/Attribute/Name'' \<or> eq_nocase p ''//MetadataSearchList/IndexableKeys/Key/Name''
            then (l, if v \<noteq> [] then r\<lparr> se_sName := v \<rparr> else r)
            else if eq_nocase p ''//MetadataSearchList/IndexableKeys/Key/Datatype''
              \<or> eq_nocase p ''//MetadataSearchList/OptionalAttributes/Attribute/Datatype''
            then (l, if v \<noteq> [] then r\<lparr> se_Type := TranslateSearchFieldType_of v \<rparr> else r)
            else (l, r)
        | XmlElement p attrs \<Rightarrow>
            if eq_nocase p ''//MetadataSearchList/IndexableKeys/Key'' \<or> eq_nocase p ''//MetadataSearchList/OptionalAttributes/Attribute''
            then (l, search_entry_Empty) else (l, r)
        | XmlEndElement p \<Rightarrow>
            if eq_nocase p ''//MetadataSearchList/IndexableKeys/Key''
            then (if entry_complete r then l\<lparr> sf_KeyList := sf_KeyList l @ [r] \<rparr> else l, r)
            else if eq_nocase p ''//MetadataSearchList/OptionalAttributes/Attribute''
            then (if entry_complete r then l\<lparr> sf_AttributeList := sf_AttributeList l @ [r] \<rparr> else l, r)
            else (l, r)))"

text \<open>An answer without data is taken for a wrong one whatever the error was.\<close>

definition no_xml_error :: "string \<Rightarrow> S3_ERROR \<Rightarrow> S3_ERROR" where
  "no_xml_error res Error = SetError (Error\<lparr> dwHttpError := 500, S3Error := S3_ERROR_MalformedXML, sS3Code := ''MalformedXML'',
     sS3RequestID := ''GET'', sS3Resource := res \<rparr>)"

definition S3GetMDSearchFields ::
  "'w mp_env \<Rightarrow> S3_METADATA_SEARCH_FIELDS \<Rightarrow> 'w \<Rightarrow> (S3_ERROR \<times> S3_METADATA_SEARCH_FIELDS) \<times> 'w" where
  "S3GetMDSearchFields env MDFields w =
     (let ((e, data, hdrs), w1) = mp_send env (http_get ''/?searchmetadata'') w; Error = SetError e in
      if data \<noteq> [] then
        let (hr, (l, _)) = mp_scan env XmlS3GetMDSearchFieldsCB data (MDFields, search_entry_Empty) in
        ((if FAILED hr then S3_ERROR_new hr else Error, l), w1)
      else ((no_xml_error ''/?searchmetadata'' Error, MDFields), w1))"

lemma no_xml_error_code: "S3Error (no_xml_error res E) = S3_ERROR_MalformedXML" "dwHttpError (no_xml_error res E) = 500"
  by (simp_all add: no_xml_error_def SetError_def)

text \<open>So a request that failed without data is reported as a wrong document.\<close>

lemma fields_without_data:
  assumes "mp_send env (http_get ''/?searchmetadata'') w = ((e, [], hdrs), w1)"
  shows "S3GetMDSearchFields env F w = ((no_xml_error ''/?searchmetadata'' (SetError e), F), w1)"
  using assms by (simp add: S3GetMDSearchFields_def)

record S3_METADATA_SEARCH_FIELDS_BUCKET =
  sb_bSearchEnabled :: bool
  sb_KeyList :: "S3_METADATA_SEARCH_ENTRY list"

type_synonym search_bucket_ctx = "S3_METADATA_SEARCH_FIELDS_BUCKET \<times> S3_METADATA_SEARCH_ENTRY"

definition XmlS3GetMDSearchFieldsBucketCB :: "search_bucket_ctx xml_cb" where
  "XmlS3GetMDSearchFieldsBucketCB ev c =
     (0, case c of (l, r) \<Rightarrow>
       (case ev of
          XmlText p v \<Rightarrow>
            if eq_nocase p ''//MetadataSearchList/MetadataSearchEnabled''
            then (if v \<noteq> [] then l\<lparr> sb_bSearchEnabled := eq_nocase v ''true'' \<rparr> else l, r)
            else if eq_nocase p ''//MetadataSearchList/IndexableKeys/Key/Name'' then (l, if v \<noteq> [] then r\<lparr> se_sName := v \<rparr> else r)
            else if eq_nocase p ''//MetadataSearchList/IndexableKeys/Key/Datatype''
            then (l, if v \<noteq> [] then r\<lparr> se_Type := TranslateSearchFieldType_of v \<rparr> else r)
            else (l, r)
        | XmlElement p attrs \<Rightarrow> if eq_nocase p ''//MetadataSearchList/IndexableKeys/Key'' then (l, search_entry_Empty) else (l, r)
        | XmlEndElement p \<Rightarrow>
            if eq_nocase p ''//MetadataSearchList/IndexableKeys/Key'' \<and> entry_complete r
            then (l\<lparr> sb_KeyList := sb_KeyList l @ [r] \<rparr>, r) else (l, r)))"

definition S3GetMDSearchFields_bucket ::
  "'w mp_env \<Rightarrow> string \<Rightarrow> S3_METADATA_SEARCH_FIELDS_BUCKET \<Rightarrow> 'w \<Rightarrow> (S3_ERROR \<times> S3_METADATA_SEARCH_FIELDS_BUCKET) \<times> 'w" where
  "S3GetMDSearchFields_bucket env pszBucket MDFieldBucket w =
     (let res = ''/'' @ pszBucket @ ''/?searchmetadata'';
          ((e, data, hdrs), w1) = mp_send env (http_get res) w; Error = SetError e in
      if data \<noteq> [] then
        let (hr, (l, _)) = mp_scan env XmlS3GetMDSearchFieldsBucketCB data (MDFieldBucket, search_entry_Empty) in
        ((if FAILED hr then S3_ERROR_new hr else Error, l), w1)
      else ((no_xml_error res Error, MDFieldBucket), w1))"

section \<open>The query\<close>

datatype E_MD_SEARCH_FIELD = MDF_Unknown | MDF_SYSMD | MDF_USERMD

type_synonym query_md = "E_MD_SEARCH_FIELD \<times> (string \<times> string) list"

record S3_METADATA_SEARCH_RESULT_OBJECT_MATCH =
  om_sObjectName :: string
  om_sObjectId :: string
  om_sVersionId :: string
  om_QueryMDList :: "query_md list"

record S3_METADATA_SEARCH_PARAMS =
  sp_sBucket :: string
  sp_sExpression :: string
  sp_sAttributes :: string
  sp_sSorted :: string
  sp_bOlderVersions :: bool

text \<open>The context of a page: the result so far (bucket and matches), marker, and the parts under way.\<close>

record XML_S3_SEARCH_MD_CONTEXT =
  sx_sBucket :: string
  sx_ObjectMatchList :: "S3_METADATA_SEARCH_RESULT_OBJECT_MATCH list"
  sx_sMarker :: string
  sx_bIsTruncated :: bool
  sx_ObjectRec :: S3_METADATA_SEARCH_RESULT_OBJECT_MATCH
  sx_QueryMDRec :: query_md
  sx_MDMapRec :: "string \<times> string"

definition search_text :: "string \<Rightarrow> string \<Rightarrow> XML_S3_SEARCH_MD_CONTEXT \<Rightarrow> XML_S3_SEARCH_MD_CONTEXT" where
  "search_text p v c =
     (if eq_nocase p ''//BucketQueryResult/Name'' then c\<lparr> sx_sBucket := v \<rparr>
      else if eq_nocase p ''//BucketQueryResult/NextMarker'' then c\<lparr> sx_sMarker := v \<rparr>
      else if eq_nocase p ''//BucketQueryResult/IsTruncated'' then c\<lparr> sx_bIsTruncated := \<not> eq_nocase v ''false'' \<rparr>
      else if eq_nocase p ''//BucketQueryResult/ObjectMatches/object/objectName''
      then c\<lparr> sx_ObjectRec := (sx_ObjectRec c)\<lparr> om_sObjectName := v \<rparr> \<rparr>
      else if eq_nocase p ''//BucketQueryResult/ObjectMatches/object/objectId''
      then c\<lparr> sx_ObjectRec := (sx_ObjectRec c)\<lparr> om_sObjectId := v \<rparr> \<rparr>
      else if eq_nocase p ''//BucketQueryResult/ObjectMatches/object/versionId''
      then c\<lparr> sx_ObjectRec := (sx_ObjectRec c)\<lparr> om_sVersionId := v \<rparr> \<rparr>
      else if eq_nocase p ''//BucketQueryResult/ObjectMatches/object/queryMds/type''
      then (if eq_nocase v ''SYSMD'' then c\<lparr> sx_QueryMDRec := (MDF_SYSMD, snd (sx_QueryMDRec c)) \<rparr>
            else if eq_nocase v ''USERMD'' then c\<lparr> sx_QueryMDRec := (MDF_USERMD, snd (sx_QueryMDRec c)) \<rparr> else c)
      else if eq_nocase p ''//BucketQueryResult/ObjectMatches/object/queryMds/mdMap/entry/key''
      then c\<lparr> sx_MDMapRec := (v, snd (sx_MDMapRec c)) \<rparr>
      else if eq_nocase p ''//BucketQueryResult/ObjectMatches/object/queryMds/mdMap/entry/value''
      then c\<lparr> sx_MDMapRec := (fst (sx_MDMapRec c), v) \<rparr>
      else c)"

text \<open>A new object clears all of the record but its version.\<close>

definition search_start :: "string \<Rightarrow> XML_S3_SEARCH_MD_CONTEXT \<Rightarrow> XML_S3_SEARCH_MD_CONTEXT" where
  "search_start p c =
     (if eq_nocase p ''//BucketQueryResult/ObjectMatches/object''
      then c\<lparr> sx_ObjectRec := (sx_ObjectRec c)\<lparr> om_sObjectId := [], om_sObjectName := [], om_QueryMDList := [] \<rparr> \<rparr>
      else if eq_nocase p ''//BucketQueryResult/ObjectMatches/object/queryMds'' then c\<lparr> sx_QueryMDRec := (MDF_Unknown, []) \<rparr>
      else if eq_nocase p ''//BucketQueryResult/ObjectMatches/object/queryMds/mdMap/entry'' then c\<lparr> sx_MDMapRec := ([], []) \<rparr>
      else c)"

definition search_end :: "string \<Rightarrow> XML_S3_SEARCH_MD_CONTEXT \<Rightarrow> XML_S3_SEARCH_MD_CONTEXT" where
  "search_end p c =
     (if eq_nocase p ''//BucketQueryResult/ObjectMatches/object''
      then c\<lparr> sx_ObjectMatchList := sx_ObjectMatchList c @ [sx_ObjectRec c] \<rparr>
      else if eq_nocase p ''//BucketQueryResult/ObjectMatches/object/queryMds''
      then c\<lparr> sx_ObjectRec := (sx_ObjectRec c)\<lparr> om_QueryMDList := om_QueryMDList (sx_ObjectRec c) @ [sx_QueryMDRec c] \<rparr> \<rparr>
      else if eq_nocase p ''//BucketQueryResult/ObjectMatches/object/queryMds/mdMap/entry''
      then c\<lparr> sx_QueryMDRec := (fst (sx_QueryMDRec c), snd (sx_QueryMDRec c) @ [sx_MDMapRec c]) \<rparr>
      else c)"

definition XmlS3SearchMDCB :: "XML_S3_SEARCH_MD_CONTEXT xml_cb" where
  "XmlS3SearchMDCB ev c =
     (0, case ev of XmlText p v \<Rightarrow> search_text p v c | XmlElement p attrs \<Rightarrow> search_start p c | XmlEndElement p \<Rightarrow> search_end p c)"

text \<open>A literal in back quotes becomes the hexadecimal digits of its UTF-16 code in quotes.\<close>

definition hex_literal :: "(string \<Rightarrow> 16 word list) \<Rightarrow> string \<Rightarrow> string" where
  "hex_literal utf16 s = BinaryToHexString (concat (map (\<lambda>ch. [ucast (drop_bit 8 ch), ucast (and ch 0xff)]) (utf16 s)))"

lemma hex_literal_no_quote: "CHR ''`'' \<notin> set (hex_literal utf16 s)"
  unfolding hex_literal_def by (rule notI, drule set_BinaryToHexString [THEN subsetD]) (simp add: hex_lower_def)

definition quote_step :: "(string \<Rightarrow> 16 word list) \<Rightarrow> string \<Rightarrow> string option" where
  "quote_step utf16 sExpr =
     (case find_char CHR ''`'' sExpr of None \<Rightarrow> None
      | Some iOpen \<Rightarrow>
          (case str_find_from ''`'' (iOpen + 1) sExpr of None \<Rightarrow> None
           | Some iClose \<Rightarrow>
               Some (str_left iOpen sExpr @ [CHR 0x22] @ hex_literal utf16 (take (iClose - iOpen - 1) (str_mid (iOpen + 1) sExpr))
                 @ [CHR 0x22] @ str_mid (iClose + 1) sExpr)))"

text \<open>A string at its first back quote.\<close>

lemma at_quote:
  assumes "dropWhile (\<lambda>c. c \<noteq> CHR ''`'') s = c # r"
  shows "c = CHR ''`''" "s = takeWhile (\<lambda>c. c \<noteq> CHR ''`'') s @ CHR ''`'' # r" "CHR ''`'' \<notin> set (takeWhile (\<lambda>c. c \<noteq> CHR ''`'') s)"
proof -
  have "hd (c # r) = CHR ''`''" using hd_dropWhile [of "(\<lambda>c. c \<noteq> CHR ''`'')" s] unfolding assms by blast
  then show c: "c = CHR ''`''" by simp
  show "s = takeWhile (\<lambda>c. c \<noteq> CHR ''`'') s @ CHR ''`'' # r" using takeWhile_dropWhile_id [of "(\<lambda>c. c \<noteq> CHR ''`'')" s] unfolding assms c by simp
  show "CHR ''`'' \<notin> set (takeWhile (\<lambda>c. c \<noteq> CHR ''`'') s)" by (auto dest: set_takeWhileD)
qed

lemma quote_step_split:
  "quote_step utf16 s =
     (case dropWhile (\<lambda>c. c \<noteq> CHR ''`'') s of [] \<Rightarrow> None
      | _ # r \<Rightarrow>
          (case dropWhile (\<lambda>c. c \<noteq> CHR ''`'') r of [] \<Rightarrow> None
           | _ # p \<Rightarrow> Some (takeWhile (\<lambda>c. c \<noteq> CHR ''`'') s @ [CHR 0x22]
               @ hex_literal utf16 (takeWhile (\<lambda>c. c \<noteq> CHR ''`'') r) @ [CHR 0x22] @ p)))"
proof (cases "dropWhile (\<lambda>c. c \<noteq> CHR ''`'') s")
  case Nil
  then have "CHR ''`'' \<notin> set s" by (auto simp: dropWhile_eq_Nil_conv)
  then show ?thesis unfolding Nil by (simp add: quote_step_def find_char_None [THEN iffD2])
next
  case (Cons c r)
  define a where "a = takeWhile (\<lambda>c. c \<noteq> CHR ''`'') s"
  note s = at_quote(2) [OF Cons, folded a_def] and a = at_quote(3) [OF Cons, folded a_def]
  have f: "find_char CHR ''`'' s = Some (length a)" by (subst s) (rule find_char_append [OF a])
  show ?thesis
  proof (cases "dropWhile (\<lambda>c. c \<noteq> CHR ''`'') r")
    case Nil
    then have "CHR ''`'' \<notin> set r" by (auto simp: dropWhile_eq_Nil_conv)
    then have "str_find_from ''`'' (length a + 1) s = None"
      using find_char_None [of "CHR ''`''" r] by (subst s) (simp add: str_find_from_def find_char_def)
    then show ?thesis unfolding Cons by (simp add: Nil f quote_step_def)
  next
    case (Cons d p)
    define l where "l = takeWhile (\<lambda>c. c \<noteq> CHR ''`'') r"
    note r = at_quote(2) [OF Cons, folded l_def] and l = at_quote(3) [OF Cons, folded l_def]
    have g: "str_find_from ''`'' (Suc (length a)) s = Some (Suc (length a + length l))"
      by (subst s) (use find_char_append [OF l, of p] in \<open>simp add: str_find_from_def find_char_def r [symmetric]\<close>)
    have t: "take (length a) s = a" "drop (length a + 1) s = r" by (subst s, simp)+
    have u: "take (length l) r = l" "drop (length a + 1 + length l + 1) s = p"
      by (subst r, simp) (subst s, subst r, simp)
    show ?thesis
      using t u by (simp add: \<open>dropWhile (\<lambda>c. c \<noteq> CHR ''`'') s = c # r\<close> Cons quote_step_def f g str_left_def str_mid_def a_def [symmetric] l_def [symmetric])
  qed
qed

lemma quote_step_less: "quote_step utf16 s = Some s' \<Longrightarrow> length (filter (\<lambda>c. c = CHR ''`'') s') < length (filter (\<lambda>c. c = CHR ''`'') s)"
proof -
  have n: "filter (\<lambda>c. c = CHR ''`'') (takeWhile (\<lambda>c. c \<noteq> CHR ''`'') t) = []" for t
    by (induction t) auto
  have h: "filter (\<lambda>c. c = CHR ''`'') (hex_literal utf16 t) = []" for t
    using hex_literal_no_quote [of utf16 t] by (auto simp: filter_empty_conv)
  have k: "length (filter (\<lambda>c. c = CHR ''`'') t) = Suc (length (filter (\<lambda>c. c = CHR ''`'') q))"
    if "dropWhile (\<lambda>c. c \<noteq> CHR ''`'') t = d # q" for t d q
    using that by (induction t) (auto split: if_splits)
  assume "quote_step utf16 s = Some s'"
  then show ?thesis
    by (auto simp: quote_step_split n h k split: list.splits)
qed

text \<open>The code starts again from the left after each literal.\<close>

function quote_literals :: "(string \<Rightarrow> 16 word list) \<Rightarrow> string \<Rightarrow> string" where
  "quote_literals utf16 sExpr = (case quote_step utf16 sExpr of None \<Rightarrow> sExpr | Some s \<Rightarrow> quote_literals utf16 s)"
  by auto
termination
  by (relation "measure (\<lambda>(_, s). length (filter (\<lambda>c. c = CHR ''`'') s))") (simp_all add: quote_step_less)

declare quote_literals.simps [simp del]

definition search_resource :: "(string \<Rightarrow> 16 word list) \<Rightarrow> S3_METADATA_SEARCH_PARAMS \<Rightarrow> string" where
  "search_resource utf16 Params =
     ''/'' @ UriEncode (sp_sBucket Params) StdSAFE @ ''/?query=''
     @ UriEncode (quote_literals utf16 (TrimRight (TrimLeft (sp_sExpression Params)))) AllSAFE
     @ (if sp_sAttributes Params \<noteq> [] then ''&attributes='' @ UriEncode (sp_sAttributes Params) AllSAFE else [])
     @ (if sp_sSorted Params \<noteq> [] then ''&sorted='' @ UriEncode (sp_sSorted Params) AllSAFE else [])
     @ (if sp_bOlderVersions Params then ''&include-older-versions='' @ ''true'' else [])"

record S3_METADATA_SEARCH_RESULT =
  sr_sBucket :: string
  sr_ObjectMatchList :: "S3_METADATA_SEARCH_RESULT_OBJECT_MATCH list"

definition search_ctx :: "S3_METADATA_SEARCH_RESULT \<Rightarrow> XML_S3_SEARCH_MD_CONTEXT" where
  "search_ctx R = \<lparr> sx_sBucket = sr_sBucket R, sx_ObjectMatchList = sr_ObjectMatchList R, sx_sMarker = [], sx_bIsTruncated = False,
     sx_ObjectRec = \<lparr> om_sObjectName = [], om_sObjectId = [], om_sVersionId = [], om_QueryMDList = [] \<rparr>,
     sx_QueryMDRec = (MDF_Unknown, []), sx_MDMapRec = ([], []) \<rparr>"

text \<open>The loop over the pages: the marker of an answer is sent as it is with the next request.\<close>

partial_function (option) SearchMD_loop ::
  "'w mp_env \<Rightarrow> string \<Rightarrow> string \<Rightarrow> S3_METADATA_SEARCH_RESULT \<Rightarrow> 'w \<Rightarrow> ((S3_ERROR \<times> S3_METADATA_SEARCH_RESULT) \<times> 'w) option" where
  "SearchMD_loop env res sMarker R w =
     (let (reply, w1) = mp_send env (http_get (res @ (if sMarker \<noteq> [] then ''&marker='' @ sMarker else []))) w;
          Error = SetError (fst reply); data = fst (snd reply) in
      if IfError Error then Some ((Error, R), w1)
      else if data = [] then Some ((no_xml_error res Error, R), w1)
      else
        let (hr, c) = mp_scan env XmlS3SearchMDCB data (search_ctx R);
            R1 = \<lparr> sr_sBucket = sx_sBucket c, sr_ObjectMatchList = sx_ObjectMatchList c \<rparr> in
        if FAILED hr then Some ((S3_ERROR_new hr, R1), w1)
        else if sx_sMarker c = ''NO MORE PAGES'' then Some ((Error, R1), w1)
        else if sx_sMarker c = [] then Some ((Error, R1), w1)
        else SearchMD_loop env res (sx_sMarker c) R1 w1)"

definition S3SearchMD ::
  "'w mp_env \<Rightarrow> (string \<Rightarrow> 16 word list) \<Rightarrow> S3_METADATA_SEARCH_PARAMS \<Rightarrow> S3_METADATA_SEARCH_RESULT \<Rightarrow> 'w
    \<Rightarrow> ((S3_ERROR \<times> S3_METADATA_SEARCH_RESULT) \<times> 'w) option" where
  "S3SearchMD env utf16 Params MDSearchResult w =
     SearchMD_loop env (search_resource utf16 Params) [] (MDSearchResult\<lparr> sr_ObjectMatchList := [] \<rparr>) w"

section \<open>Literals in one pass\<close>

text \<open>Reference: each pair of back quotes from the left, one pass.\<close>

function quote_pass :: "(string \<Rightarrow> 16 word list) \<Rightarrow> string \<Rightarrow> string" where
  "quote_pass utf16 [] = []"
| "quote_pass utf16 (c # s) =
     (if c \<noteq> CHR ''`'' then c # quote_pass utf16 s
      else case dropWhile (\<lambda>c. c \<noteq> CHR ''`'') s of [] \<Rightarrow> c # s
        | _ # p \<Rightarrow> [CHR 0x22] @ hex_literal utf16 (takeWhile (\<lambda>c. c \<noteq> CHR ''`'') s) @ [CHR 0x22] @ quote_pass utf16 p)"
  by pat_completeness auto
termination
proof (relation "measure (\<lambda>(_, s). length s)", goal_cases)
  case (3 utf16 c s d p)
  then show ?case using length_dropWhile_le [of "\<lambda>c. c \<noteq> CHR ''`''" s] by simp
qed simp_all

lemma quote_pass_plain: "CHR ''`'' \<notin> set x \<Longrightarrow> quote_pass utf16 (x @ p) = x @ quote_pass utf16 p"
  by (induction x) auto

lemma quote_literals_pass: "quote_literals utf16 s = quote_pass utf16 s"
proof (induction utf16 s rule: quote_literals.induct)
  case (1 utf16 s)
  define a r where "a = takeWhile (\<lambda>c. c \<noteq> CHR ''`'') s" and "r = dropWhile (\<lambda>c. c \<noteq> CHR ''`'') s"
  have s: "s = a @ r" by (simp add: a_def r_def)
  have a: "CHR ''`'' \<notin> set a" unfolding a_def using set_takeWhileD by fastforce
  show ?case
  proof (cases "quote_step utf16 s")
    case None
    have "quote_pass utf16 r = r"
    proof (cases r)
      case (Cons c q)
      have q: "dropWhile (\<lambda>c. c \<noteq> CHR ''`'') q = []"
        using None by (simp add: quote_step_split r_def [symmetric] Cons split: list.splits)
      show ?thesis unfolding Cons quote_pass.simps q using at_quote(1) [of s c q] Cons r_def by simp
    qed simp
    then show ?thesis using None quote_pass_plain [OF a, of utf16 r] by (subst quote_literals.simps) (simp add: s)
  next
    case (Some s')
    then obtain c q d p where r: "r = c # q" and q: "dropWhile (\<lambda>c. c \<noteq> CHR ''`'') q = d # p"
      and s': "s' = (a @ [CHR 0x22] @ hex_literal utf16 (takeWhile (\<lambda>c. c \<noteq> CHR ''`'') q) @ [CHR 0x22]) @ p"
      by (auto simp: quote_step_split r_def [symmetric] a_def [symmetric] split: list.splits)
    have c: "c = CHR ''`''" using at_quote(1) [of s c q] r r_def by simp
    have "quote_pass utf16 s' = quote_pass utf16 s"
      unfolding s' s by (subst quote_pass_plain) (use a hex_literal_no_quote in \<open>auto simp: quote_pass_plain r c q\<close>)
    then show ?thesis using Some 1 by (subst quote_literals.simps) simp
  qed
qed

section \<open>Pages\<close>

text \<open>What a server answers: the bucket, some matches, the next marker, and whether there is more, in the
  words of the server.\<close>

record search_page =
  pg_sBucket :: string
  pg_matches :: "S3_METADATA_SEARCH_RESULT_OBJECT_MATCH list"
  pg_marker :: string
  pg_truncated :: string

definition entry_tree :: "string \<times> string \<Rightarrow> xml_tree" where
  "entry_tree kv = elem ''entry'' [text_elem ''key'' (fst kv), text_elem ''value'' (snd kv)]"

definition field_text :: "E_MD_SEARCH_FIELD \<Rightarrow> string" where
  "field_text t = (case t of MDF_Unknown \<Rightarrow> [] | MDF_SYSMD \<Rightarrow> ''SYSMD'' | MDF_USERMD \<Rightarrow> ''USERMD'')"

definition query_md_tree :: "query_md \<Rightarrow> xml_tree" where
  "query_md_tree q = elem ''queryMds'' [text_elem ''type'' (field_text (fst q)), elem ''mdMap'' (map entry_tree (snd q))]"

definition match_tree :: "S3_METADATA_SEARCH_RESULT_OBJECT_MATCH \<Rightarrow> xml_tree" where
  "match_tree m = elem ''object'' ([text_elem ''objectName'' (om_sObjectName m), text_elem ''objectId'' (om_sObjectId m),
     text_elem ''versionId'' (om_sVersionId m)] @ map query_md_tree (om_QueryMDList m))"

definition search_tree :: "search_page \<Rightarrow> xml_tree" where
  "search_tree pg = elem ''BucketQueryResult'' [text_elem ''Name'' (pg_sBucket pg), text_elem ''NextMarker'' (pg_marker pg),
     text_elem ''IsTruncated'' (pg_truncated pg), elem ''ObjectMatches'' (map match_tree (pg_matches pg))]"

text \<open>An object without a version gets that of the object before it.\<close>

fun inherit_versions :: "string \<Rightarrow> S3_METADATA_SEARCH_RESULT_OBJECT_MATCH list \<Rightarrow> S3_METADATA_SEARCH_RESULT_OBJECT_MATCH list" where
  "inherit_versions v [] = []"
| "inherit_versions v (m # ms) =
     (let v1 = (if om_sVersionId m = [] then v else om_sVersionId m) in m\<lparr> om_sVersionId := v1 \<rparr> # inherit_versions v1 ms)"

lemma inherit_versions_all: "list_all (\<lambda>m. om_sVersionId m \<noteq> []) ms \<Longrightarrow> inherit_versions v ms = ms"
  by (induction ms arbitrary: v) (auto simp: Let_def)

text \<open>The paths, and what the callback does there.\<close>

abbreviation matches_path :: "string list" where "matches_path \<equiv> [''BucketQueryResult'', ''ObjectMatches'']"

lemma search_clash:
  "\<not> eq_nocase ''//BucketQueryResult/ObjectMatches/object/objectId'' ''//BucketQueryResult/ObjectMatches/object/queryMds''"
  by (simp add: eq_nocase_def lower_str_def to_lower_def is_upper_ascii_def char_code_def)

lemmas search_path_simps = stack_path_def search_start_def search_end_def search_text_def eq_nocase_length search_clash

lemma search_paths:
  "search_start (stack_path [''BucketQueryResult'']) c = c" "search_end (stack_path [''BucketQueryResult'']) c = c"
  "search_start (stack_path matches_path) c = c" "search_end (stack_path matches_path) c = c"
  "n \<in> {''Name'', ''NextMarker'', ''IsTruncated''} \<Longrightarrow> search_start (stack_path [''BucketQueryResult'', n]) c = c"
  "n \<in> {''Name'', ''NextMarker'', ''IsTruncated''} \<Longrightarrow> search_end (stack_path [''BucketQueryResult'', n]) c = c"
  "n \<in> {''objectName'', ''objectId'', ''versionId''} \<Longrightarrow> search_start (stack_path (matches_path @ [''object'', n])) c = c"
  "n \<in> {''objectName'', ''objectId'', ''versionId''} \<Longrightarrow> search_end (stack_path (matches_path @ [''object'', n])) c = c"
  "n \<in> {''type'', ''mdMap''} \<Longrightarrow> search_start (stack_path (matches_path @ [''object'', ''queryMds'', n])) c = c"
  "n \<in> {''type'', ''mdMap''} \<Longrightarrow> search_end (stack_path (matches_path @ [''object'', ''queryMds'', n])) c = c"
  "n \<in> {''key'', ''value''} \<Longrightarrow> search_start (stack_path (matches_path @ [''object'', ''queryMds'', ''mdMap'', ''entry'', n])) c = c"
  "n \<in> {''key'', ''value''} \<Longrightarrow> search_end (stack_path (matches_path @ [''object'', ''queryMds'', ''mdMap'', ''entry'', n])) c = c"
  by (auto simp: search_path_simps)

lemma search_texts:
  "search_text (stack_path [''BucketQueryResult'', ''Name'']) v c = c\<lparr> sx_sBucket := v \<rparr>"
  "search_text (stack_path [''BucketQueryResult'', ''NextMarker'']) v c = c\<lparr> sx_sMarker := v \<rparr>"
  "search_text (stack_path [''BucketQueryResult'', ''IsTruncated'']) v c = c\<lparr> sx_bIsTruncated := \<not> eq_nocase v ''false'' \<rparr>"
  "search_text (stack_path (matches_path @ [''object'', ''objectName''])) v c = c\<lparr> sx_ObjectRec := (sx_ObjectRec c)\<lparr> om_sObjectName := v \<rparr> \<rparr>"
  "search_text (stack_path (matches_path @ [''object'', ''objectId''])) v c = c\<lparr> sx_ObjectRec := (sx_ObjectRec c)\<lparr> om_sObjectId := v \<rparr> \<rparr>"
  "search_text (stack_path (matches_path @ [''object'', ''versionId''])) v c = c\<lparr> sx_ObjectRec := (sx_ObjectRec c)\<lparr> om_sVersionId := v \<rparr> \<rparr>"
  "search_text (stack_path (matches_path @ [''object'', ''queryMds'', ''type''])) ''SYSMD'' c = c\<lparr> sx_QueryMDRec := (MDF_SYSMD, snd (sx_QueryMDRec c)) \<rparr>"
  "search_text (stack_path (matches_path @ [''object'', ''queryMds'', ''type''])) ''USERMD'' c = c\<lparr> sx_QueryMDRec := (MDF_USERMD, snd (sx_QueryMDRec c)) \<rparr>"
  "search_text (stack_path (matches_path @ [''object'', ''queryMds'', ''mdMap'', ''entry'', ''key''])) v c = c\<lparr> sx_MDMapRec := (v, snd (sx_MDMapRec c)) \<rparr>"
  "search_text (stack_path (matches_path @ [''object'', ''queryMds'', ''mdMap'', ''entry'', ''value''])) v c = c\<lparr> sx_MDMapRec := (fst (sx_MDMapRec c), v) \<rparr>"
  by (simp_all add: search_path_simps)

lemma search_records:
  "search_start (stack_path (matches_path @ [''object''])) c
     = c\<lparr> sx_ObjectRec := (sx_ObjectRec c)\<lparr> om_sObjectId := [], om_sObjectName := [], om_QueryMDList := [] \<rparr> \<rparr>"
  "search_end (stack_path (matches_path @ [''object''])) c = c\<lparr> sx_ObjectMatchList := sx_ObjectMatchList c @ [sx_ObjectRec c] \<rparr>"
  "search_start (stack_path (matches_path @ [''object'', ''queryMds''])) c = c\<lparr> sx_QueryMDRec := (MDF_Unknown, []) \<rparr>"
  "search_end (stack_path (matches_path @ [''object'', ''queryMds''])) c
     = c\<lparr> sx_ObjectRec := (sx_ObjectRec c)\<lparr> om_QueryMDList := om_QueryMDList (sx_ObjectRec c) @ [sx_QueryMDRec c] \<rparr> \<rparr>"
  "search_start (stack_path (matches_path @ [''object'', ''queryMds'', ''mdMap'', ''entry''])) c = c\<lparr> sx_MDMapRec := ([], []) \<rparr>"
  "search_end (stack_path (matches_path @ [''object'', ''queryMds'', ''mdMap'', ''entry''])) c
     = c\<lparr> sx_QueryMDRec := (fst (sx_QueryMDRec c), snd (sx_QueryMDRec c) @ [sx_MDMapRec c]) \<rparr>"
  by (simp_all add: search_path_simps)

text \<open>The callback never fails, so the events of a document act one after the other.\<close>

definition search_effect :: "string list \<Rightarrow> xml_tree list \<Rightarrow> XML_S3_SEARCH_MD_CONTEXT \<Rightarrow> XML_S3_SEARCH_MD_CONTEXT" where
  "search_effect st ts c = snd (run_events XmlS3SearchMDCB (concat (map (tree_events st) ts)) c)"

lemma search_run: "run_events XmlS3SearchMDCB evs c = (0, snd (run_events XmlS3SearchMDCB evs c))"
  by (induction evs arbitrary: c) (auto simp: XmlS3SearchMDCB_def split: xml_event.splits)

lemma search_run_append:
  "snd (run_events XmlS3SearchMDCB (as @ bs) c) = snd (run_events XmlS3SearchMDCB bs (snd (run_events XmlS3SearchMDCB as c)))"
  using search_run [of as c] by (simp add: run_events_append Let_def split: prod.splits) (metis not_FAILED_0 prod.inject)

lemma search_effect_Nil: "search_effect st [] c = c"
  by (simp add: search_effect_def)

lemma search_effect_append: "search_effect st (as @ bs) c = search_effect st bs (search_effect st as c)"
  by (simp add: search_effect_def search_run_append)

lemma search_effect_Cons: "search_effect st (t # ts) c = search_effect st ts (search_effect st [t] c)"
  using search_effect_append [of st "[t]" ts] by simp

lemma search_effect_elem:
  "search_effect st [elem name cs] c
     = search_end (stack_path (st @ [name])) (search_effect (st @ [name]) cs (search_start (stack_path (st @ [name])) c))"
proof -
  have ev: "concat (map (tree_events st) [elem name cs])
      = [XmlElement (stack_path (st @ [name])) []] @ concat (map (tree_events (st @ [name])) cs) @ [XmlEndElement (stack_path (st @ [name]))]"
    by (simp add: elem_def xml_name_def AttrList_def Let_def)
  show ?thesis unfolding search_effect_def ev search_run_append by (simp add: XmlS3SearchMDCB_def)
qed

lemma search_effect_text:
  "search_effect st [text_elem name v] c
     = search_end (stack_path (st @ [name])) ((if v = [] then id else search_text (stack_path (st @ [name])) v)
         (search_start (stack_path (st @ [name])) c))"
  by (simp add: search_effect_def text_elem_def xml_name_def AttrList_def XmlS3SearchMDCB_def Let_def)

lemmas search_effects = search_effect_Nil search_effect_Cons [of _ _ "t # ts" for t ts] search_effect_text search_paths [simplified]
  search_texts [simplified] search_records [simplified]

lemma entries_effect:
  "\<exists>m. search_effect (matches_path @ [''object'', ''queryMds'', ''mdMap'']) (map entry_tree kvs) c
     = c\<lparr> sx_QueryMDRec := (fst (sx_QueryMDRec c), snd (sx_QueryMDRec c) @ kvs), sx_MDMapRec := m \<rparr>"
proof (induction kvs arbitrary: c)
  case (Cons kv kvs)
  have 1: "search_effect (matches_path @ [''object'', ''queryMds'', ''mdMap'']) [entry_tree kv] c
      = c\<lparr> sx_QueryMDRec := (fst (sx_QueryMDRec c), snd (sx_QueryMDRec c) @ [kv]), sx_MDMapRec := kv \<rparr>"
    unfolding entry_tree_def search_effect_elem by (cases kv) (auto simp: search_effects)
  show ?case using Cons.IH [of "c\<lparr> sx_QueryMDRec := (fst (sx_QueryMDRec c), snd (sx_QueryMDRec c) @ [kv]), sx_MDMapRec := kv \<rparr>"]
    by (simp add: search_effect_Cons [of _ "entry_tree kv" "map entry_tree kvs"] 1 [simplified])
next
  case Nil
  show ?case by (rule exI [of _ "sx_MDMapRec c"]) (simp add: search_effect_Nil)
qed

lemma query_md_effect:
  "\<exists>m. search_effect (matches_path @ [''object'']) [query_md_tree q] c
     = c\<lparr> sx_ObjectRec := (sx_ObjectRec c)\<lparr> om_QueryMDList := om_QueryMDList (sx_ObjectRec c) @ [q] \<rparr>, sx_QueryMDRec := q, sx_MDMapRec := m \<rparr>"
proof -
  define c1 where "c1 = c\<lparr> sx_QueryMDRec := (fst q, []) \<rparr>"
  obtain m where m: "search_effect (matches_path @ [''object'', ''queryMds'', ''mdMap'']) (map entry_tree (snd q)) c1
      = c1\<lparr> sx_QueryMDRec := (fst (sx_QueryMDRec c1), snd (sx_QueryMDRec c1) @ snd q), sx_MDMapRec := m \<rparr>"
    using entries_effect [of "snd q" c1] by blast
  have ty: "search_effect (matches_path @ [''object'', ''queryMds'']) [text_elem ''type'' (field_text (fst q))]
      (c\<lparr> sx_QueryMDRec := (MDF_Unknown, []) \<rparr>) = c1"
    by (cases "fst q") (simp_all add: search_effects field_text_def c1_def)
  have md: "search_effect (matches_path @ [''object'', ''queryMds'']) [elem ''mdMap'' (map entry_tree (snd q))] c1
      = c\<lparr> sx_QueryMDRec := q, sx_MDMapRec := m \<rparr>"
    unfolding search_effect_elem using m by (simp add: search_paths [simplified], simp add: c1_def)
  have "search_effect (matches_path @ [''object'', ''queryMds''])
      [text_elem ''type'' (field_text (fst q)), elem ''mdMap'' (map entry_tree (snd q))] (c\<lparr> sx_QueryMDRec := (MDF_Unknown, []) \<rparr>)
      = c\<lparr> sx_QueryMDRec := q, sx_MDMapRec := m \<rparr>"
    unfolding md [symmetric] ty [symmetric] by (rule search_effect_Cons)
  then show ?thesis
    unfolding query_md_tree_def search_effect_elem by (intro exI [of _ m]) (simp add: search_records [simplified])
qed

lemma query_mds_effect:
  "\<exists>q m. search_effect (matches_path @ [''object'']) (map query_md_tree qs) c
     = c\<lparr> sx_ObjectRec := (sx_ObjectRec c)\<lparr> om_QueryMDList := om_QueryMDList (sx_ObjectRec c) @ qs \<rparr>, sx_QueryMDRec := q, sx_MDMapRec := m \<rparr>"
proof (induction qs arbitrary: c)
  case (Cons q qs)
  obtain m where 1: "search_effect (matches_path @ [''object'']) [query_md_tree q] c
     = c\<lparr> sx_ObjectRec := (sx_ObjectRec c)\<lparr> om_QueryMDList := om_QueryMDList (sx_ObjectRec c) @ [q] \<rparr>, sx_QueryMDRec := q, sx_MDMapRec := m \<rparr>"
    using query_md_effect by blast
  show ?case using Cons.IH [of "search_effect (matches_path @ [''object'']) [query_md_tree q] c"]
    unfolding 1 by (simp add: search_effect_Cons [of _ "query_md_tree q" "map query_md_tree qs"] 1 [simplified])
next
  case Nil
  show ?case by (rule exI [of _ "sx_QueryMDRec c"], rule exI [of _ "sx_MDMapRec c"]) (simp add: search_effect_Nil)
qed

lemma match_effect:
  defines "ver m c \<equiv> if om_sVersionId m = [] then om_sVersionId (sx_ObjectRec c) else om_sVersionId m"
  shows "\<exists>q e. search_effect matches_path [match_tree m] c
     = c\<lparr> sx_ObjectMatchList := sx_ObjectMatchList c @ [m\<lparr> om_sVersionId := ver m c \<rparr>], sx_ObjectRec := m\<lparr> om_sVersionId := ver m c \<rparr>,
          sx_QueryMDRec := q, sx_MDMapRec := e \<rparr>"
proof -
  define c1 where "c1 = c\<lparr> sx_ObjectRec := m\<lparr> om_sVersionId := ver m c, om_QueryMDList := [] \<rparr> \<rparr>"
  obtain q e where e: "search_effect (matches_path @ [''object'']) (map query_md_tree (om_QueryMDList m)) c1
     = c1\<lparr> sx_ObjectRec := (sx_ObjectRec c1)\<lparr> om_QueryMDList := om_QueryMDList (sx_ObjectRec c1) @ om_QueryMDList m \<rparr>,
           sx_QueryMDRec := q, sx_MDMapRec := e \<rparr>"
    using query_mds_effect by blast
  have head: "search_effect (matches_path @ [''object'']) [text_elem ''objectName'' (om_sObjectName m),
      text_elem ''objectId'' (om_sObjectId m), text_elem ''versionId'' (om_sVersionId m)] (search_start (stack_path (matches_path @ [''object''])) c) = c1"
    by (cases m; cases "sx_ObjectRec c") (simp add: search_effects c1_def ver_def)
  show ?thesis
    unfolding match_tree_def search_effect_elem search_effect_append head e
    by (rule exI [of _ q], rule exI [of _ e]) (cases m; simp add: search_records [simplified] c1_def)
qed

lemma matches_effect:
  "\<exists>r q e. search_effect matches_path (map match_tree ms) c
     = c\<lparr> sx_ObjectMatchList := sx_ObjectMatchList c @ inherit_versions (om_sVersionId (sx_ObjectRec c)) ms, sx_ObjectRec := r,
          sx_QueryMDRec := q, sx_MDMapRec := e \<rparr>"
proof (induction ms arbitrary: c)
  case (Cons m ms)
  define v where "v = (if om_sVersionId m = [] then om_sVersionId (sx_ObjectRec c) else om_sVersionId m)"
  obtain q e where 1: "search_effect matches_path [match_tree m] c
     = c\<lparr> sx_ObjectMatchList := sx_ObjectMatchList c @ [m\<lparr> om_sVersionId := v \<rparr>], sx_ObjectRec := m\<lparr> om_sVersionId := v \<rparr>,
          sx_QueryMDRec := q, sx_MDMapRec := e \<rparr>"
    using match_effect [of m c] by (auto simp: v_def)
  show ?case
    using Cons.IH [of "search_effect matches_path [match_tree m] c"]
    by (simp add: search_effect_Cons [of _ "match_tree m" "map match_tree ms"] 1 v_def [symmetric] Let_def)
next
  case Nil
  show ?case
    by (rule exI [of _ "sx_ObjectRec c"], rule exI [of _ "sx_QueryMDRec c"], rule exI [of _ "sx_MDMapRec c"])
      (simp add: search_effect_Nil)
qed

definition page_bucket :: "string \<Rightarrow> search_page \<Rightarrow> string" where
  "page_bucket b pg = (if pg_sBucket pg = [] then b else pg_sBucket pg)"

lemma page_effect:
  obtains c where "ScanXml XmlS3SearchMDCB (tree_nodes (search_tree pg), hr) (search_ctx R) = (0, c)" "sx_sMarker c = pg_marker pg"
    "sx_sBucket c = page_bucket (sr_sBucket R) pg" "sx_ObjectMatchList c = sr_ObjectMatchList R @ inherit_versions [] (pg_matches pg)"
proof -
  define c1 where "c1 = search_effect [''BucketQueryResult''] [text_elem ''Name'' (pg_sBucket pg), text_elem ''NextMarker'' (pg_marker pg),
      text_elem ''IsTruncated'' (pg_truncated pg)] (search_ctx R)"
  have c1: "sx_sMarker c1 = pg_marker pg" "sx_sBucket c1 = page_bucket (sr_sBucket R) pg" "sx_ObjectMatchList c1 = sr_ObjectMatchList R"
    "om_sVersionId (sx_ObjectRec c1) = []"
    by (simp_all add: c1_def search_effects search_ctx_def page_bucket_def)
  obtain r q e where m: "search_effect matches_path (map match_tree (pg_matches pg)) c1
     = c1\<lparr> sx_ObjectMatchList := sx_ObjectMatchList c1 @ inherit_versions (om_sVersionId (sx_ObjectRec c1)) (pg_matches pg), sx_ObjectRec := r,
          sx_QueryMDRec := q, sx_MDMapRec := e \<rparr>"
    using matches_effect by blast
  have l: "search_effect [''BucketQueryResult''] [elem ''ObjectMatches'' (map match_tree (pg_matches pg))] c1
      = search_effect matches_path (map match_tree (pg_matches pg)) c1"
    unfolding search_effect_elem by (simp add: search_paths)
  have "search_effect [] [search_tree pg] (search_ctx R)
      = search_effect [''BucketQueryResult''] [elem ''ObjectMatches'' (map match_tree (pg_matches pg))] c1"
    unfolding search_tree_def search_effect_elem [of "[]"] c1_def search_effect_append [symmetric] by (simp add: search_paths)
  then have "ScanXml XmlS3SearchMDCB (tree_nodes (search_tree pg), hr) (search_ctx R)
      = (0, c1\<lparr> sx_ObjectMatchList := sr_ObjectMatchList R @ inherit_versions [] (pg_matches pg), sx_ObjectRec := r,
          sx_QueryMDRec := q, sx_MDMapRec := e \<rparr>)"
    unfolding ScanXml_tree using search_run [of "tree_events [] (search_tree pg)" "search_ctx R"] l m c1
    by (simp add: search_effect_def)
  from that [OF this] c1 show thesis by simp
qed

text \<open>A server that answers the request with these pages, the last of them marked as such.\<close>

definition marked :: "string \<Rightarrow> string \<Rightarrow> string" where
  "marked res mk = res @ (if mk \<noteq> [] then ''&marker='' @ mk else [])"

definition last_marker :: "string \<Rightarrow> bool" where
  "last_marker mk \<longleftrightarrow> mk = ''NO MORE PAGES'' \<or> mk = []"

fun serves :: "'w mp_env \<Rightarrow> string \<Rightarrow> string \<Rightarrow> search_page list \<Rightarrow> 'w \<Rightarrow> bool" where
  "serves env res mk [] w = False"
| "serves env res mk (pg # pgs) w =
     (case mp_send env (http_get (marked res mk)) w of ((e, data, hdrs), w1) \<Rightarrow>
        \<not> IfError (SetError e) \<and> data \<noteq> [] \<and> fst (mp_reader env data) = tree_nodes (search_tree pg)
        \<and> (if pgs = [] then last_marker (pg_marker pg) else \<not> last_marker (pg_marker pg) \<and> serves env res (pg_marker pg) pgs w1))"

lemma SearchMD_loop_pages:
  "serves env res mk pgs w \<Longrightarrow>
   \<exists>E w1. SearchMD_loop env res mk R w = Some ((E, \<lparr> sr_sBucket = foldl page_bucket (sr_sBucket R) pgs,
       sr_ObjectMatchList = sr_ObjectMatchList R @ concat (map (\<lambda>pg. inherit_versions [] (pg_matches pg)) pgs) \<rparr>), w1) \<and> \<not> IfError E"
proof (induction pgs arbitrary: mk R w)
  case (Cons pg pgs)
  obtain e data hdrs w1 where s: "mp_send env (http_get (marked res mk)) w = ((e, data, hdrs), w1)" by (metis prod.exhaust)
  have ok: "\<not> IfError (SetError e)" "data \<noteq> []" "mp_reader env data = (tree_nodes (search_tree pg), snd (mp_reader env data))"
    using Cons.prems s by (auto simp: prod_eq_iff)
  obtain c where c: "mp_scan env XmlS3SearchMDCB data (search_ctx R) = (0, c)" "sx_sMarker c = pg_marker pg"
    "sx_sBucket c = page_bucket (sr_sBucket R) pg" "sx_ObjectMatchList c = sr_ObjectMatchList R @ inherit_versions [] (pg_matches pg)"
    using page_effect [of pg "snd (mp_reader env data)" R] ok(3) unfolding mp_scan_def by metis
  define R1 where "R1 = \<lparr> sr_sBucket = page_bucket (sr_sBucket R) pg, sr_ObjectMatchList = sr_ObjectMatchList R @ inherit_versions [] (pg_matches pg) \<rparr>"
  have step: "SearchMD_loop env res mk R w =
      (if last_marker (pg_marker pg) then Some ((SetError e, R1), w1) else SearchMD_loop env res (pg_marker pg) R1 w1)"
    by (subst SearchMD_loop.simps) (use s ok c in \<open>auto simp: marked_def last_marker_def R1_def Let_def\<close>)
  show ?case
  proof (cases "pgs = []")
    case True
    then show ?thesis using step Cons.prems s ok by (simp add: R1_def)
  next
    case False
    then have "serves env res (pg_marker pg) pgs w1" "\<not> last_marker (pg_marker pg)" using Cons.prems s by auto
    then show ?thesis using Cons.IH [of "pg_marker pg" w1 R1] step by (simp add: R1_def)
  qed
qed simp

section \<open>Properties\<close>

text \<open>C38: A metadata search returns every match of every page, in order: its requests carry the marker of the page
  before, up to the page without one or with NO MORE PAGES, whatever the page says of its truncation. A match
  without a version gets that of the match before it on the page.\<close>

theorem S3SearchMD_collects_pages:
  assumes "serves env (search_resource utf16 Params) [] pgs w"
  shows "\<exists>E w1. S3SearchMD env utf16 Params R w = Some ((E, \<lparr> sr_sBucket = foldl page_bucket (sr_sBucket R) pgs,
     sr_ObjectMatchList = concat (map (\<lambda>pg. inherit_versions [] (pg_matches pg)) pgs) \<rparr>), w1) \<and> \<not> IfError E"
  using SearchMD_loop_pages [OF assms, of "R\<lparr> sr_ObjectMatchList := [] \<rparr>"] by (simp add: S3SearchMD_def)

definition demo_match :: "string \<Rightarrow> string \<Rightarrow> S3_METADATA_SEARCH_RESULT_OBJECT_MATCH" where
  "demo_match nm ver = \<lparr> om_sObjectName = nm, om_sObjectId = ''7'' @ nm, om_sVersionId = ver,
     om_QueryMDList = [(MDF_SYSMD, [(''Owner'', ''x'')])] \<rparr>"

definition demo_search_pages :: "search_page list" where
  "demo_search_pages = [\<lparr> pg_sBucket = ''b'', pg_matches = [demo_match ''k1'' ''v1'', demo_match ''k2'' []], pg_marker = ''m'', pg_truncated = ''false'' \<rparr>,
     \<lparr> pg_sBucket = ''b'', pg_matches = [demo_match ''k3'' []], pg_marker = ''NO MORE PAGES'', pg_truncated = ''true'' \<rparr>]"

definition demo_params :: S3_METADATA_SEARCH_PARAMS where
  "demo_params = \<lparr> sp_sBucket = ''b'', sp_sExpression = '' Owner == `x` '', sp_sAttributes = [], sp_sSorted = [], sp_bOlderVersions = True \<rparr>"

definition demo_utf16 :: "string \<Rightarrow> 16 word list" where
  "demo_utf16 = map (\<lambda>c. of_nat (char_code c))"

definition demo_query :: string where
  "demo_query = ''/b/?query=Owner%20%3D%3D%20%220078%22&include-older-versions=true''"

text \<open>A server that looks at the marker only.\<close>

definition demo_search :: "unit mp_env" where
  "demo_search = \<lparr> mp_send = (\<lambda>rq w. ((S3_ERROR_new 0,
        if rq_Resource rq = demo_query then ''1'' else if rq_Resource rq = demo_query @ ''&marker=m'' then ''2'' else [], []), w)),
     mp_reader = (\<lambda>data. (tree_nodes (search_tree (if data = ''1'' then demo_search_pages ! 0 else demo_search_pages ! 1)), 0)), mp_base64 = (\<lambda>_. []),
     mp_maps = s3_maps_init, mp_dates = demo_dates \<rparr>"

lemma demo_search_query: "search_resource demo_utf16 demo_params = demo_query"
  by code_simp

theorem S3SearchMD_collects_pages_witness:
  "\<exists>E w1. S3SearchMD demo_search demo_utf16 demo_params \<lparr> sr_sBucket = [], sr_ObjectMatchList = [demo_match [] []] \<rparr> ()
     = Some ((E, \<lparr> sr_sBucket = ''b'', sr_ObjectMatchList = [demo_match ''k1'' ''v1'', demo_match ''k2'' ''v1'', demo_match ''k3'' []] \<rparr>), w1)
     \<and> \<not> IfError E"
proof -
  have "serves demo_search (search_resource demo_utf16 demo_params) [] demo_search_pages ()"
    unfolding demo_search_query
    by (simp add: demo_search_pages_def demo_search_def marked_def last_marker_def http_get_def SetError_def IfError_def S3_ERROR_new_def)
  from S3SearchMD_collects_pages [OF this, of "\<lparr> sr_sBucket = [], sr_ObjectMatchList = [demo_match [] []] \<rparr>"]
  show ?thesis by (simp add: demo_search_pages_def page_bucket_def demo_match_def Let_def)
qed

text \<open>The literals of a query are encoded in one pass: each pair of back quotes from the left becomes a pair of
  quotes around hexadecimal digits; what is outside stays, and a last single back quote too.\<close>

theorem literals_in_one_pass: "quote_literals utf16 s = quote_pass utf16 s"
  by (rule quote_literals_pass)

end
