(* ===== verification/Admin.thy ===== *)
theory Admin
  imports Sessions Objects MdSearch Listing
begin

text \<open>
  Administration and queries (ECSConnection.cpp, ECSAdminLogin to ECSAdminBucketInfo, ECSDTQuery,
  DataNodeEndpointS3, S3GetReplicationInfo, ReadProperties). An administration call moves the connection to another port and
  back, with the settings and the pool of the theory Sessions. The exchange, the XML reader and writer, the
  time and \<open>wcstod\<close> are parameters.
\<close>

section \<open>Calls on the port of the administration\<close>

text \<open>The settings of the connection, the pool, and the block of the thread that calls.\<close>

record 'w admin_state =
  am_Conf :: conn_conf
  am_Pool :: pool
  am_sHTTPUser :: string
  am_sHTTPPassword :: string
  am_bS3Admin :: bool
  am_sX_SDS_AUTH_TOKEN :: string
  am_World :: 'w

record 'w admin_env =
  ad_send :: "'w admin_state \<Rightarrow> mp_request \<Rightarrow> mp_reply \<times> pool \<times> 'w"
  ad_date :: "'w \<Rightarrow> string"
  ad_ip :: "'w admin_state \<Rightarrow> string"
  ad_reader :: "string \<Rightarrow> xml_node list \<times> DWORD"
  ad_writes :: "xml_tree \<Rightarrow> bool"
  ad_dates :: date_env

definition am_SetPort :: "16 word \<Rightarrow> 'w admin_state \<Rightarrow> 'w admin_state" where
  "am_SetPort x s = (case call_setter 0 (SetPort x (am_Conf s)) (am_Conf s, am_Pool s) of (c, p) \<Rightarrow> s\<lparr> am_Conf := c, am_Pool := p \<rparr>)"

definition admin_begin :: "'w admin_state \<Rightarrow> 'w admin_state" where
  "admin_begin s = (am_SetPort 4443 s)\<lparr> am_bS3Admin := True \<rparr>"

definition admin_end :: "'w admin_state \<Rightarrow> 'w admin_state" where
  "admin_end s = s\<lparr> am_bS3Admin := False \<rparr>"

definition admin_headers :: "'w admin_env \<Rightarrow> 'w admin_state \<Rightarrow> (string \<times> string) list" where
  "admin_headers env s = [(''accept'', ''*/*''), (''Date'', ad_date env (am_World s)), (''host'', ad_ip env s)]"

definition token_header :: "'w admin_state \<Rightarrow> (string \<times> string) list" where
  "token_header s = [(''X-SDS-AUTH-TOKEN'', am_sX_SDS_AUTH_TOKEN s)]"

definition xml_header :: "(string \<times> string) list" where
  "xml_header = [(''Content-Type'', ''application/xml'')]"

definition am_send :: "'w admin_env \<Rightarrow> mp_request \<Rightarrow> 'w admin_state \<Rightarrow> mp_reply \<times> 'w admin_state" where
  "am_send env rq s =
     (let ((e, data, hdrs), p, w) = ad_send env s rq in ((SetError e, data, hdrs), s\<lparr> am_Pool := p, am_World := w \<rparr>))"

text \<open>One call: to the other port, the request, back, and the flag off. The headers are those of the state in which
  the request is sent.\<close>

definition admin_exchange ::
  "'w admin_env \<Rightarrow> string \<Rightarrow> string \<Rightarrow> ('w admin_state \<Rightarrow> (string \<times> string) list) \<Rightarrow> mp_body \<Rightarrow> 'w admin_state \<Rightarrow> mp_reply \<times> 'w admin_state" where
  "admin_exchange env pszMethod pszResource extra body s =
     (let wSavePort = cf_Port (am_Conf s); s1 = admin_begin s;
          (reply, s2) = am_send env \<lparr> rq_Method = pszMethod, rq_Resource = pszResource,
            rq_Headers = admin_headers env s1 @ extra s1, rq_Body = body \<rparr> s1 in
      (reply, admin_end (am_SetPort wSavePort s2)))"

section \<open>Login\<close>

definition login_token :: "(string \<times> string list) list \<Rightarrow> string \<Rightarrow> string" where
  "login_token Req tok =
     foldl (\<lambda>t h. if eq_nocase (fst h) ''X-SDS-AUTH-TOKEN'' \<and> length (snd h) = 1 then hd (snd h) else t) tok Req"

definition ECSAdminLogin :: "'w admin_env \<Rightarrow> string \<Rightarrow> string \<Rightarrow> 'w admin_state \<Rightarrow> S3_ERROR \<times> 'w admin_state" where
  "ECSAdminLogin env pszUser pszPassword s =
     (let ((Error, data, Req), s1) = admin_exchange env ''GET'' ''/login'' (\<lambda>_. []) NoBody
            (s\<lparr> am_sHTTPUser := pszUser, am_sHTTPPassword := pszPassword \<rparr>) in
      if IfError Error then (Error, s1)
      else
        let s2 = s1\<lparr> am_sX_SDS_AUTH_TOKEN := login_token Req (am_sX_SDS_AUTH_TOKEN s1) \<rparr> in
        (if am_sX_SDS_AUTH_TOKEN s2 = [] then Error\<lparr> dwError := ERROR_INVALID_DATA \<rparr> else Error, s2))"

definition ECSAdminLogout :: "'w admin_env \<Rightarrow> 'w admin_state \<Rightarrow> S3_ERROR \<times> 'w admin_state" where
  "ECSAdminLogout env s =
     (let ((Error, data, Req), s1) = admin_exchange env ''GET'' ''/logout'' token_header NoBody s in
      (Error, if IfError Error then s1 else s1\<lparr> am_sX_SDS_AUTH_TOKEN := [] \<rparr>))"

section \<open>Users and keys\<close>

record S3_ADMIN_USER_INFO =
  au_sUser :: string
  au_sNamespace :: string
  au_sSecret :: string
  au_sTags :: string
  au_sLink :: string
  au_ftKeyCreate :: FILETIME
  au_ftKeyExpiry :: FILETIME

definition user_Empty :: S3_ADMIN_USER_INFO where
  "user_Empty = \<lparr> au_sUser = [], au_sNamespace = [], au_sSecret = [], au_sTags = [], au_sLink = [], au_ftKeyCreate = 0, au_ftKeyExpiry = 0 \<rparr>"

type_synonym get_users_ctx = "S3_ADMIN_USER_INFO list \<times> S3_ADMIN_USER_INFO"

definition XmlECSGetUsersCB :: "get_users_ctx xml_cb" where
  "XmlECSGetUsersCB ev c =
     (0, case c of (l, u) \<Rightarrow>
       (case ev of
          XmlText p v \<Rightarrow>
            if eq_nocase p ''//users/blobuser/userid'' then (l, u\<lparr> au_sUser := v \<rparr>)
            else if eq_nocase p ''//users/blobuser/namespace'' then (l, u\<lparr> au_sNamespace := v \<rparr>)
            else (l, u)
        | XmlEndElement p \<Rightarrow>
            if eq_nocase p ''//users/blobuser'' \<and> au_sUser u \<noteq> [] then (l @ [u], user_Empty) else (l, u)
        | XmlElement p attrs \<Rightarrow> (l, u)))"

definition ECSAdminGetUserList ::
  "'w admin_env \<Rightarrow> 'w admin_state \<Rightarrow> (S3_ERROR \<times> S3_ADMIN_USER_INFO list) \<times> 'w admin_state" where
  "ECSAdminGetUserList env s =
     (let ((Error, RetData, Req), s1) = admin_exchange env ''GET'' ''/object/users'' token_header NoBody s in
      if IfError Error then ((Error, []), s1)
      else let (hr, (l, _)) = ScanXml XmlECSGetUsersCB (ad_reader env RetData) ([], user_Empty) in
           ((if hr \<noteq> 0 then S3_ERROR_new hr else Error, l), s1))"

definition XmlECSCreateUserCB :: "date_env \<Rightarrow> S3_ADMIN_USER_INFO xml_cb" where
  "XmlECSCreateUserCB denv ev u =
     (0, case ev of
        XmlText p v \<Rightarrow>
          if eq_nocase p ''//user_secret_key/secret_key'' then u\<lparr> au_sSecret := v \<rparr>
          else if eq_nocase p ''//user_secret_key/key_timestamp'' then u\<lparr> au_ftKeyCreate := snd (ParseISO8601Date denv v False) \<rparr>
          else if eq_nocase p ''//user_secret_key/key_expiry_timestamp'' then u\<lparr> au_ftKeyExpiry := snd (ParseISO8601Date denv v False) \<rparr>
          else if eq_nocase p ''//user_secret_key/link'' then u\<lparr> au_sLink := v \<rparr>
          else u
      | _ \<Rightarrow> u)"

definition user_create_tree :: "S3_ADMIN_USER_INFO \<Rightarrow> xml_tree" where
  "user_create_tree User = elem ''user_create_param''
     ([text_elem ''user'' (au_sUser User), text_elem ''namespace'' (au_sNamespace User)]
      @ (if au_sTags User \<noteq> [] then [text_elem ''tags'' (au_sTags User)] else []))"

definition key_create_tree :: "S3_ADMIN_USER_INFO \<Rightarrow> xml_tree" where
  "key_create_tree User = elem ''user_secret_key_create''
     [text_elem ''existing_key_expiry_time_mins'' ''2'', text_elem ''namespace'' (au_sNamespace User), text_elem ''secretkey'' (au_sSecret User)]"

text \<open>Both send a document and read a key. A writer that fails throws: then the port is not set back.\<close>

definition admin_put_user ::
  "'w admin_env \<Rightarrow> string \<Rightarrow> xml_tree \<Rightarrow> S3_ADMIN_USER_INFO \<Rightarrow> 'w admin_state \<Rightarrow> (S3_ERROR \<times> S3_ADMIN_USER_INFO) \<times> 'w admin_state" where
  "admin_put_user env pszResource doc User s =
     (if \<not> ad_writes env doc then ((S3_ERROR_new ERROR_XML_PARSE_ERROR, User), admin_end (admin_begin s))
      else
        let ((Error, RetData, Req), s1) = admin_exchange env ''POST'' pszResource (\<lambda>s. token_header s @ xml_header) (XmlBody doc) s in
        if IfError Error then ((Error, User), s1)
        else let (hr, u) = ScanXml (XmlECSCreateUserCB (ad_dates env)) (ad_reader env RetData) User in
             (if hr \<noteq> 0 then (S3_ERROR_new hr, User) else (Error, u), s1))"

definition ECSAdminCreateUser ::
  "'w admin_env \<Rightarrow> S3_ADMIN_USER_INFO \<Rightarrow> 'w admin_state \<Rightarrow> (S3_ERROR \<times> S3_ADMIN_USER_INFO) \<times> 'w admin_state" where
  "ECSAdminCreateUser env User s = admin_put_user env ''/object/users'' (user_create_tree User) User s"

definition ECSAdminCreateKeyForUser ::
  "'w admin_env \<Rightarrow> S3_ADMIN_USER_INFO \<Rightarrow> 'w admin_state \<Rightarrow> (S3_ERROR \<times> S3_ADMIN_USER_INFO) \<times> 'w admin_state" where
  "ECSAdminCreateKeyForUser env User s =
     admin_put_user env (UriEncode (''/object/user-secret-keys/'' @ au_sUser User) AllSAFE) (key_create_tree User) User s"

record S3_ADMIN_USER_KEY_INFO =
  uk_sSecret1 :: string
  uk_sSecret2 :: string
  uk_sLink :: string
  uk_ftKeyCreate1 :: FILETIME
  uk_ftKeyExpiry1 :: FILETIME
  uk_ftKeyCreate2 :: FILETIME
  uk_ftKeyExpiry2 :: FILETIME

definition keys_Empty :: S3_ADMIN_USER_KEY_INFO where
  "keys_Empty = \<lparr> uk_sSecret1 = [], uk_sSecret2 = [], uk_sLink = [], uk_ftKeyCreate1 = 0, uk_ftKeyExpiry1 = 0,
     uk_ftKeyCreate2 = 0, uk_ftKeyExpiry2 = 0 \<rparr>"

definition XmlECSGetKeysForUserCB :: "date_env \<Rightarrow> S3_ADMIN_USER_KEY_INFO xml_cb" where
  "XmlECSGetKeysForUserCB denv ev k =
     (0, case ev of
        XmlText p v \<Rightarrow>
          (let date = snd (ParseISO8601Date denv v False) in
           if eq_nocase p ''//user_secret_key/secret_key_1'' then k\<lparr> uk_sSecret1 := v \<rparr>
           else if eq_nocase p ''//user_secret_key/secret_key_2'' then k\<lparr> uk_sSecret2 := v \<rparr>
           else if eq_nocase p ''//user_secret_key/key_timestamp_1'' then k\<lparr> uk_ftKeyCreate1 := date \<rparr>
           else if eq_nocase p ''//user_secret_key/key_timestamp_2'' then k\<lparr> uk_ftKeyCreate2 := date \<rparr>
           else if eq_nocase p ''//user_secret_key/key_expiry_timestamp_1'' then k\<lparr> uk_ftKeyExpiry1 := date \<rparr>
           else if eq_nocase p ''//user_secret_key/key_expiry_timestamp_2'' then k\<lparr> uk_ftKeyExpiry2 := date \<rparr>
           else if eq_nocase p ''//user_secret_key/link'' then k\<lparr> uk_sLink := v \<rparr>
           else k)
      | _ \<Rightarrow> k)"

definition ECSAdminGetKeysForUser ::
  "'w admin_env \<Rightarrow> string \<Rightarrow> string \<Rightarrow> S3_ADMIN_USER_KEY_INFO \<Rightarrow> 'w admin_state
    \<Rightarrow> (S3_ERROR \<times> S3_ADMIN_USER_KEY_INFO) \<times> 'w admin_state" where
  "ECSAdminGetKeysForUser env pszUser pszNamespace Keys s =
     (let sMethod = ''/object/user-secret-keys/'' @ pszUser @ (if pszNamespace \<noteq> [] then ''/'' @ pszNamespace else []);
          ((Error, RetData, Req), s1) = admin_exchange env ''GET'' (UriEncode sMethod AllSAFE) token_header NoBody s in
      if IfError Error then ((Error, Keys), s1)
      else let (hr, k) = ScanXml (XmlECSGetKeysForUserCB (ad_dates env)) (ad_reader env RetData) keys_Empty in
           (if hr \<noteq> 0 then (S3_ERROR_new hr, Keys) else (Error, k), s1))"

section \<open>Billing and capacity\<close>

text \<open>The type of the floating point numbers is a parameter.\<close>

record 'd ECS_BILLING_BUCKET =
  bb_sBucket :: string
  bb_sNamespace :: string
  bb_sVpoolID :: string
  bb_dTotalSize :: 'd
  bb_ullTotalObjects :: ULONGLONG
  bb_dTotalSizeDeleted :: 'd
  bb_ullTotalObjectsDeleted :: ULONGLONG
  bb_ftSampleTime :: FILETIME
  bb_ftUpToDateTill :: FILETIME
  bb_TagList :: "(string \<times> string) list"
  bb_dTotalMPUSize :: 'd
  bb_ulTotalMPUParts :: DWORD

definition billing_default :: "'d \<Rightarrow> 'd ECS_BILLING_BUCKET" where
  "billing_default zero = \<lparr> bb_sBucket = [], bb_sNamespace = [], bb_sVpoolID = [], bb_dTotalSize = zero, bb_ullTotalObjects = 0,
     bb_dTotalSizeDeleted = zero, bb_ullTotalObjectsDeleted = 0, bb_ftSampleTime = 0, bb_ftUpToDateTill = 0, bb_TagList = [],
     bb_dTotalMPUSize = zero, bb_ulTotalMPUParts = 0 \<rparr>"

record 'd billing_ctx =
  bx_Info :: "'d ECS_BILLING_BUCKET"
  bx_sTotalSizeDeleted :: string
  bx_sTotalSize :: string
  bx_sTotalMPUSize :: string
  bx_sSizeUnit :: string
  bx_Tag :: "string \<times> string"

definition billing_info :: "('d ECS_BILLING_BUCKET \<Rightarrow> 'd ECS_BILLING_BUCKET) \<Rightarrow> 'd billing_ctx \<Rightarrow> 'd billing_ctx" where
  "billing_info f c = c\<lparr> bx_Info := f (bx_Info c) \<rparr>"

definition billing_deleted :: "string \<Rightarrow> string \<Rightarrow> 'd billing_ctx \<Rightarrow> 'd billing_ctx" where
  "billing_deleted p v c =
     (if eq_nocase p ''//bucket_billing_info/total_size_deleted'' then c\<lparr> bx_sTotalSizeDeleted := v \<rparr>
      else if eq_nocase p ''//bucket_billing_info/total_objects_deleted''
      then billing_info (\<lambda>i. i\<lparr> bb_ullTotalObjectsDeleted := of_int (ttoi64 v) \<rparr>) c
      else c)"

definition billing_size :: "string \<Rightarrow> string \<Rightarrow> 'd billing_ctx \<Rightarrow> 'd billing_ctx" where
  "billing_size p v c = (if eq_nocase p ''//bucket_billing_info/total_size'' then c\<lparr> bx_sTotalSize := v \<rparr> else c)"

definition billing_rest :: "date_env \<Rightarrow> string \<Rightarrow> string \<Rightarrow> 'd billing_ctx \<Rightarrow> 'd billing_ctx" where
  "billing_rest denv p v c =
     (if eq_nocase p ''//bucket_billing_info/total_size_unit'' then c\<lparr> bx_sSizeUnit := v \<rparr>
      else if eq_nocase p ''//bucket_billing_info/total_objects'' then billing_info (\<lambda>i. i\<lparr> bb_ullTotalObjects := of_int (ttoi64 v) \<rparr>) c
      else if eq_nocase p ''//bucket_billing_info/uptodate_till''
      then billing_info (\<lambda>i. i\<lparr> bb_ftUpToDateTill := snd (ParseISO8601Date denv v False) \<rparr>) c
      else if eq_nocase p ''//bucket_billing_info/sample_time''
      then billing_info (\<lambda>i. i\<lparr> bb_ftSampleTime := snd (ParseISO8601Date denv v False) \<rparr>) c
      else if eq_nocase p ''//bucket_billing_info/name'' then billing_info (\<lambda>i. i\<lparr> bb_sBucket := v \<rparr>) c
      else if eq_nocase p ''//bucket_billing_info/namespace'' then billing_info (\<lambda>i. i\<lparr> bb_sNamespace := v \<rparr>) c
      else if eq_nocase p ''//bucket_billing_info/TagSet/Tag/Key'' then c\<lparr> bx_Tag := (v, snd (bx_Tag c)) \<rparr>
      else if eq_nocase p ''//bucket_billing_info/TagSet/Tag/Value'' then c\<lparr> bx_Tag := (fst (bx_Tag c), v) \<rparr>
      else if eq_nocase p ''//bucket_billing_info/total_mpu_size'' then c\<lparr> bx_sTotalMPUSize := v \<rparr>
      else if eq_nocase p ''//bucket_billing_info/total_mpu_parts'' then billing_info (\<lambda>i. i\<lparr> bb_ulTotalMPUParts := of_int (ttoi v) \<rparr>) c
      else if eq_nocase p ''//bucket_billing_info/vpool_id'' then billing_info (\<lambda>i. i\<lparr> bb_sVpoolID := v \<rparr>) c
      else c)"

definition size_unit :: "string \<Rightarrow> ULONGLONG" where
  "size_unit u = (if u = ''KB'' then 0x400 else if u = ''MB'' then 0x100000 else if u = ''GB'' then 0x40000000 else 1)"

text \<open>The first argument is the product of \<open>wcstod\<close> and a number.\<close>

definition XmlECSBillingBucketCB :: "(string \<Rightarrow> ULONGLONG \<Rightarrow> 'd) \<Rightarrow> date_env \<Rightarrow> 'd billing_ctx xml_cb" where
  "XmlECSBillingBucketCB wcstod_times denv ev c =
     (0, case ev of
        XmlText p v \<Rightarrow> billing_rest denv p v (billing_size p v (billing_deleted p v c))
      | XmlElement p attrs \<Rightarrow> if eq_nocase p ''//bucket_billing_info/TagSet/Tag'' then c\<lparr> bx_Tag := ([], []) \<rparr> else c
      | XmlEndElement p \<Rightarrow>
          if eq_nocase p ''//bucket_billing_info/TagSet/Tag''
          then (if snd (bx_Tag c) \<noteq> [] then billing_info (\<lambda>i. i\<lparr> bb_TagList := bb_TagList i @ [bx_Tag c] \<rparr>) c else c)
          else if eq_nocase p ''//bucket_billing_info''
          then (let n = size_unit (bx_sSizeUnit c) in
                billing_info (\<lambda>i. i\<lparr> bb_dTotalMPUSize := wcstod_times (bx_sTotalMPUSize c) n, bb_dTotalSize := wcstod_times (bx_sTotalSize c) n,
                  bb_dTotalSizeDeleted := wcstod_times (bx_sTotalSizeDeleted c) n \<rparr>) c)
          else c)"

definition ECSAdminBillingBucket ::
  "'w admin_env \<Rightarrow> 'd \<Rightarrow> (string \<Rightarrow> ULONGLONG \<Rightarrow> 'd) \<Rightarrow> string \<Rightarrow> string \<Rightarrow> 'w admin_state
    \<Rightarrow> (S3_ERROR \<times> 'd ECS_BILLING_BUCKET) \<times> 'w admin_state" where
  "ECSAdminBillingBucket env zero wcstod_times pszNamespace pszBucket s =
     (let res = UriEncode (''/object/billing/buckets/'' @ pszNamespace @ ''/'' @ pszBucket @ ''/info'') AllSAFE @ ''?sizeunit=KB'';
          ((Error, RetData, Req), s1) = admin_exchange env ''GET'' res (\<lambda>s. token_header s @ xml_header) NoBody s in
      if IfError Error then ((Error, billing_default zero), s1)
      else
        let (hr, c) = ScanXml (XmlECSBillingBucketCB wcstod_times (ad_dates env)) (ad_reader env RetData)
              \<lparr> bx_Info = billing_default zero, bx_sTotalSizeDeleted = [], bx_sTotalSize = [], bx_sTotalMPUSize = [], bx_sSizeUnit = [],
                bx_Tag = ([], []) \<rparr> in
        (if hr \<noteq> 0 then (S3_ERROR_new hr, billing_default zero) else (Error, bx_Info c), s1))"

record ECS_CAPACITY =
  ec_ullTotalProvisioned_GB :: ULONGLONG
  ec_ullTotalFree_GB :: ULONGLONG

definition XmlECSCapacityCB :: "ECS_CAPACITY xml_cb" where
  "XmlECSCapacityCB ev c =
     (0, case ev of
        XmlText p v \<Rightarrow>
          if eq_nocase p ''//cluster_capacity/totalFree_gb'' then c\<lparr> ec_ullTotalFree_GB := of_int (ttoi64 v) \<rparr>
          else if eq_nocase p ''//cluster_capacity/totalProvisioned_gb'' then c\<lparr> ec_ullTotalProvisioned_GB := of_int (ttoi64 v) \<rparr>
          else c
      | _ \<Rightarrow> c)"

definition ECSAdminCapacity :: "'w admin_env \<Rightarrow> 'w admin_state \<Rightarrow> (S3_ERROR \<times> ECS_CAPACITY) \<times> 'w admin_state" where
  "ECSAdminCapacity env s =
     (let cap0 = \<lparr> ec_ullTotalProvisioned_GB = 0, ec_ullTotalFree_GB = 0 \<rparr>;
          ((Error, RetData, Req), s1) = admin_exchange env ''GET'' (UriEncode ''/object/capacity'' AllSAFE)
            (\<lambda>s. token_header s @ xml_header) NoBody s in
      if IfError Error then ((Error, cap0), s1)
      else let (hr, cap) = ScanXml XmlECSCapacityCB (ad_reader env RetData) cap0 in
           ((if hr \<noteq> 0 then S3_ERROR_new hr else Error, cap), s1))"

section \<open>Bucket information\<close>

text \<open>The members of the structure are numbered in the order of the table.\<close>

definition bucket_info_fields :: "(string \<times> E_XML_FIELD_TYPE) list" where
  "bucket_info_fields =
    [(''name'', XT_String),
     (''id'', XT_String),
     (''link'', XT_String),
     (''created'', XT_Time),
     (''softquota'', XT_S32),
     (''fs_access_enabled'', XT_Bool),
     (''locked'', XT_Bool),
     (''vpool'', XT_String),
     (''namespace'', XT_String),
     (''owner'', XT_String),
     (''is_stale_allowed'', XT_Bool),
     (''is_tso_read_only'', XT_Bool),
     (''is_object_lock_enabled'', XT_Bool),
     (''default_object_lock_retention_mode'', XT_Bool),
     (''default_object_lock_retention_years'', XT_U32),
     (''default_object_lock_retention_days'', XT_U32),
     (''is_encryption_enabled'', XT_Bool),
     (''default_retention'', XT_U32),
     (''block_size'', XT_S32),
     (''auto_commit_period'', XT_U32),
     (''notification_size'', XT_S32),
     (''api_type'', XT_String),
     (''retention'', XT_U32),
     (''default_group_file_read_permission'', XT_Bool),
     (''default_group_file_write_permission'', XT_Bool),
     (''default_group_file_execute_permission'', XT_Bool),
     (''default_group_dir_read_permission'', XT_Bool),
     (''default_group_dir_write_permission'', XT_Bool),
     (''default_group_dir_execute_permission'', XT_Bool),
     (''default_group'', XT_String),
     (''datatype'', XT_String),
     (''isEnabled'', XT_Bool),
     (''mdTokens'', XT_Bool),
     (''maxKeys'', XT_U32),
     (''blockSizeInCount'', XT_S32),
     (''notificationSizeInCount'', XT_S32),
     (''audit_delete_expiration'', XT_S32)]"

definition BucketInfoMap :: "string \<Rightarrow> XML_FIELD_ENTRY option" where
  "BucketInfoMap = map_of (map (\<lambda>(i, f, t). (f, \<lparr> xf_Type = t, xf_uOffset = i \<rparr>)) (enumerate 0 bucket_info_fields))"

definition field_default :: "E_XML_FIELD_TYPE \<Rightarrow> xml_field" where
  "field_default t = (case t of XT_Bool \<Rightarrow> XF_Bool False | XT_String \<Rightarrow> XF_String [] | XT_Time \<Rightarrow> XF_Time 0
     | XT_U64 \<Rightarrow> XF_64 0 | XT_S64 \<Rightarrow> XF_64 0 | _ \<Rightarrow> XF_32 0)"

definition bucket_info_default :: "nat \<Rightarrow> xml_field" where
  "bucket_info_default i = (if i < length bucket_info_fields then field_default (snd (bucket_info_fields ! i)) else XF_32 0)"

definition XmlECSBucketInfoCB :: "date_env \<Rightarrow> (nat \<Rightarrow> xml_field) xml_cb" where
  "XmlECSBucketInfoCB denv ev info =
     (case ev of
        XmlText p v \<Rightarrow> ProcessXmlTextField (\<lambda>d. ParseISO8601Date denv d False) BucketInfoMap ''//bucket_info/'' p v info
      | _ \<Rightarrow> (0, info))"

definition ECSAdminBucketInfo ::
  "'w admin_env \<Rightarrow> string \<Rightarrow> string \<Rightarrow> 'w admin_state \<Rightarrow> (S3_ERROR \<times> (nat \<Rightarrow> xml_field)) \<times> 'w admin_state" where
  "ECSAdminBucketInfo env pszNamespace pszBucket s =
     (let res = UriEncode (''/object/bucket/'' @ pszBucket @ ''/info'') AllSAFE @ ''?namespace='' @ pszNamespace;
          ((Error, RetData, Req), s1) = admin_exchange env ''GET'' res (\<lambda>s. token_header s @ xml_header) NoBody s in
      if IfError Error then ((Error, bucket_info_default), s1)
      else let (hr, info) = ScanXml (XmlECSBucketInfoCB (ad_dates env)) (ad_reader env RetData) bucket_info_default in
           ((if hr \<noteq> 0 then S3_ERROR_new hr else Error, info), s1))"

section \<open>Queries\<close>

record DT_QUERY_RESPONSE =
  dt_bStatus :: bool
  dt_ullTotalDataSize :: ULONGLONG
  dt_ullShippedDataSize :: ULONGLONG
  dt_uShippedDataPercentage :: DWORD
  dt_DataRangeShippingDetails :: "string list"

definition XmlDTQueryCB :: "DT_QUERY_RESPONSE xml_cb" where
  "XmlDTQueryCB ev r =
     (0, case ev of
        XmlText p v \<Rightarrow>
          if eq_nocase p ''//Summary/status'' then r\<lparr> dt_bStatus := \<not> eq_nocase v ''false'' \<rparr>
          else if eq_nocase p ''//Summary/Version_0/total_data_size'' then r\<lparr> dt_ullTotalDataSize := of_int (ttoi64 v) \<rparr>
          else if eq_nocase p ''//Summary/Version_0/shipped_data_size'' then r\<lparr> dt_ullShippedDataSize := of_int (ttoi64 v) \<rparr>
          else if eq_nocase p ''//Summary/Version_0/shipped_data_percentage'' then r\<lparr> dt_uShippedDataPercentage := of_int (ttoi v) \<rparr>
          else if eq_nocase p ''//Summary/Version_0/Data_Range_Shipping_Details/Range''
          then r\<lparr> dt_DataRangeShippingDetails := dt_DataRangeShippingDetails r @ [v] \<rparr>
          else r
      | _ \<Rightarrow> r)"

definition ECSDTQuery ::
  "'w admin_env \<Rightarrow> string \<Rightarrow> string \<Rightarrow> string \<Rightarrow> bool \<Rightarrow> string option \<Rightarrow> DT_QUERY_RESPONSE \<Rightarrow> 'w admin_state
    \<Rightarrow> (S3_ERROR \<times> DT_QUERY_RESPONSE) \<times> 'w admin_state" where
  "ECSDTQuery env pszNamespace pszBucket pszObject bShowValue pszRandom Response s =
     (let wSavePort = cf_Port (am_Conf s);
          res = ''/diagnostic/object/checkRepoReplicationStatus?poolname='' @ pszNamespace @ ''.'' @ pszBucket @ ''&objectname='' @ pszObject
            @ (if bShowValue then ''&showvalue=true'' else []) @ (case pszRandom of None \<Rightarrow> [] | Some r \<Rightarrow> ''&random='' @ r);
          ((Error, RetData, Req), s1) = am_send env (http_get res) (am_SetPort 9101 s);
          s2 = am_SetPort wSavePort s1 in
      if IfError Error then ((Error\<lparr> sDetails := RetData \<rparr>, Response), s2)
      else let (hr, r) = ScanXml XmlDTQueryCB (ad_reader env RetData) Response in
           ((if FAILED hr then S3_ERROR_new hr else Error, r), s2))"

record S3_ENDPOINT_INFO =
  ep_EndpointList :: "string list"
  ep_sVersion :: string

type_synonym endpoint_ctx = "S3_ENDPOINT_INFO \<times> string"

definition XmlS3EndpointInfoCB :: "endpoint_ctx xml_cb" where
  "XmlS3EndpointInfoCB ev c =
     (0, case c of (info, sLastDataNode) \<Rightarrow>
       (case ev of
          XmlText p v \<Rightarrow>
            if eq_nocase p ''//ListDataNode/DataNodes'' then (info, if v \<noteq> [] then v else sLastDataNode)
            else if eq_nocase p ''//ListDataNode/VersionInfo'' then (if v \<noteq> [] then info\<lparr> ep_sVersion := v \<rparr> else info, sLastDataNode)
            else (info, sLastDataNode)
        | XmlEndElement p \<Rightarrow>
            if eq_nocase p ''//ListDataNode/DataNodes'' \<and> sLastDataNode \<noteq> []
            then (info\<lparr> ep_EndpointList := ep_EndpointList info @ [sLastDataNode] \<rparr>, []) else (info, sLastDataNode)
        | XmlElement p attrs \<Rightarrow> (info, sLastDataNode)))"

definition DataNodeEndpointS3 :: "'w mp_env \<Rightarrow> S3_ENDPOINT_INFO \<Rightarrow> 'w \<Rightarrow> (S3_ERROR \<times> S3_ENDPOINT_INFO) \<times> 'w" where
  "DataNodeEndpointS3 env Endpoint w =
     (let ((e, RetData, Req), w1) = mp_send env (http_get ''/?endpoint'') w; Error = SetError e in
      if IfError Error then ((Error, Endpoint), w1)
      else if RetData \<noteq> [] then
        let (hr, (info, _)) = mp_scan env XmlS3EndpointInfoCB RetData (Endpoint, []) in
        ((if FAILED hr then S3_ERROR_new hr else Error, info), w1)
      else ((no_xml_error ''/'' Error, Endpoint), w1))"

record 'd S3_REPLICATION_INFO =
  ri_bIndexReplicated :: bool
  ri_dReplicatedDataPercentage :: 'd

definition XmlS3ReplicationInfoCB :: "(string \<Rightarrow> 'd) \<Rightarrow> 'd S3_REPLICATION_INFO xml_cb" where
  "XmlS3ReplicationInfoCB wcstold ev r =
     (0, case ev of
        XmlText p v \<Rightarrow>
          if v = [] then r
          else if eq_nocase p ''//ObjectReplicationInfo/IndexReplicated'' then r\<lparr> ri_bIndexReplicated := eq_nocase v ''true'' \<rparr>
          else if eq_nocase p ''//ObjectReplicationInfo/ReplicatedDataPercentage'' then r\<lparr> ri_dReplicatedDataPercentage := wcstold v \<rparr>
          else r
      | _ \<Rightarrow> r)"

definition S3GetReplicationInfo ::
  "'w mp_env \<Rightarrow> (string \<Rightarrow> 'd) \<Rightarrow> string \<Rightarrow> 'd S3_REPLICATION_INFO \<Rightarrow> 'w \<Rightarrow> (S3_ERROR \<times> 'd S3_REPLICATION_INFO) \<times> 'w" where
  "S3GetReplicationInfo env wcstold pszPath RepInfo w =
     (let res = pszPath @ ''?replicationInfo'';
          ((e, RetData, Req), w1) = mp_send env (http_get res) w; Error = SetError e in
      if IfError Error then ((Error, RepInfo), w1)
      else if RetData \<noteq> [] then
        let (hr, r) = mp_scan env (XmlS3ReplicationInfoCB wcstold) RetData RepInfo in
        ((if FAILED hr then S3_ERROR_new hr else Error, r), w1)
      else ((no_xml_error res Error, RepInfo), w1))"

text \<open>The properties of an object, from the headers of its answer. The conversion of the date of a header is a parameter.\<close>

definition ECSmtimeToFileTime :: "ULONGLONG \<Rightarrow> FILETIME" where
  "ECSmtimeToFileTime mtime = mtime * 10000 + 116444736000000000"

type_synonym props_ctx = "S3_SYSTEM_METADATA \<times> FILETIME \<times> header_struct list"

definition property_header :: "(string \<Rightarrow> FILETIME) \<Rightarrow> bool \<Rightarrow> props_ctx \<Rightarrow> string \<times> string list \<Rightarrow> props_ctx" where
  "property_header ParseCanonicalTime bMDList st h =
     (case st of (m, ftEMCMtime, mds) \<Rightarrow>
      case h of (hd_name, cs) \<Rightarrow>
        if eq_nocase hd_name ''Last-Modified'' \<and> cs \<noteq> [] then (m\<lparr> ftLastMod := ParseCanonicalTime (hd cs) \<rparr>, ftEMCMtime, mds)
        else if eq_nocase hd_name ''ETag'' \<and> cs \<noteq> [] then (m\<lparr> sETag := hd cs \<rparr>, ftEMCMtime, mds)
        else if eq_nocase hd_name ''Content-Length'' \<and> cs \<noteq> []
        then (m\<lparr> llSize := scan_u64 (hd cs) (llSize m) \<rparr>, ftEMCMtime, mds)
        else if eq_nocase hd_name ''x-emc-retention-period'' \<and> cs \<noteq> []
        then (m\<lparr> dwRetentionSeconds := of_int (ttoi (hd cs)) \<rparr>, ftEMCMtime, mds)
        else if eq_nocase hd_name ''x-emc-mtime'' \<and> cs \<noteq> []
        then (m, if ttoi64 (hd cs) > 0 then ECSmtimeToFileTime (of_int (ttoi64 (hd cs))) else ftEMCMtime, mds)
        else if bMDList \<and> is_meta hd_name then (m, ftEMCMtime, mds @ [(hd_name, if cs \<noteq> [] then hd cs else [])])
        else (m, ftEMCMtime, mds))"

text \<open>The time in milliseconds is preferred to the one in seconds, wherever it stands.\<close>

definition ReadProperties ::
  "'w mp_env \<Rightarrow> (string \<Rightarrow> FILETIME) \<Rightarrow> string \<Rightarrow> S3_SYSTEM_METADATA \<Rightarrow> string \<Rightarrow> header_struct list option \<Rightarrow> 'w
    \<Rightarrow> (S3_ERROR \<times> S3_SYSTEM_METADATA \<times> header_struct list option \<times> header_req) \<times> 'w" where
  "ReadProperties env ParseCanonicalTime pszPath props pszVersionId pMDList w =
     (let ((e, data, Req), w1) = mp_send env \<lparr> rq_Method = ''HEAD'',
            rq_Resource = UriEncode pszPath StdSAFE @ (if pszVersionId \<noteq> [] then ''?versionId='' @ pszVersionId else []),
            rq_Headers = [], rq_Body = NoBody \<rparr> w; Error = SetError e in
      if IfError Error then ((Error, metadata_Empty props, pMDList, Req), w1)
      else
        let (m, ftEMCMtime, mds) = foldl (property_header ParseCanonicalTime (pMDList \<noteq> None))
              (metadata_Empty props, 0, case pMDList of None \<Rightarrow> [] | Some l \<Rightarrow> l) Req in
        ((Error, if ftEMCMtime \<noteq> 0 then m\<lparr> ftLastMod := ftEMCMtime \<rparr> else m, map_option (\<lambda>_. mds) pMDList, Req), w1))"

section \<open>Port and flag after a call\<close>

lemma am_SetPort_simps [simp]:
  "am_Conf (am_SetPort x s) = (am_Conf s)\<lparr> cf_Port := x \<rparr>" "am_bS3Admin (am_SetPort x s) = am_bS3Admin s"
  "am_sX_SDS_AUTH_TOKEN (am_SetPort x s) = am_sX_SDS_AUTH_TOKEN s" "am_World (am_SetPort x s) = am_World s"
  by (auto simp: am_SetPort_def SetPort_def call_setter_def do_setter_def split: if_splits)

lemma am_send_simps [simp]:
  "am_Conf (snd (am_send env rq s)) = am_Conf s" "am_bS3Admin (snd (am_send env rq s)) = am_bS3Admin s"
  "am_sX_SDS_AUTH_TOKEN (snd (am_send env rq s)) = am_sX_SDS_AUTH_TOKEN s"
  by (simp_all add: am_send_def split: prod.splits)

text \<open>The settings are those of before, and requests are signed again.\<close>

definition back_to :: "'w admin_state \<Rightarrow> 'w admin_state \<Rightarrow> bool" where
  "back_to s s' \<longleftrightarrow> am_Conf s' = am_Conf s \<and> \<not> am_bS3Admin s'"

lemma admin_exchange_back:
  "back_to s (snd (admin_exchange env m res extra body s))"
  "am_sX_SDS_AUTH_TOKEN (snd (admin_exchange env m res extra body s)) = am_sX_SDS_AUTH_TOKEN s"
  by (auto simp: admin_exchange_def back_to_def admin_begin_def admin_end_def Let_def case_prod_beta)

lemma admin_put_user_back:
  "if ad_writes env doc then back_to s (snd (admin_put_user env res doc u s))
   else am_Conf (snd (admin_put_user env res doc u s)) = (am_Conf s)\<lparr> cf_Port := 4443 \<rparr>
     \<and> fst (fst (admin_put_user env res doc u s)) = S3_ERROR_new ERROR_XML_PARSE_ERROR"
  using admin_exchange_back(1) [of s env "''POST''" res "\<lambda>s. token_header s @ xml_header" "XmlBody doc"]
  by (auto simp: admin_put_user_def admin_begin_def admin_end_def Let_def case_prod_beta)

text \<open>A login without a token goes on with the token of before.\<close>

lemma login_keeps_token:
  assumes "fst (admin_exchange env ''GET'' ''/login'' (\<lambda>_. []) NoBody (s\<lparr> am_sHTTPUser := u, am_sHTTPPassword := p \<rparr>)) = (e, data, [])"
    and "\<not> IfError e" "am_sX_SDS_AUTH_TOKEN s \<noteq> []"
  shows "fst (ECSAdminLogin env u p s) = e" "am_sX_SDS_AUTH_TOKEN (snd (ECSAdminLogin env u p s)) = am_sX_SDS_AUTH_TOKEN s"
  using assms admin_exchange_back(2) [of env "''GET''" "''/login''" "\<lambda>_. []" NoBody "s\<lparr> am_sHTTPUser := u, am_sHTTPPassword := p \<rparr>"]
  by (simp_all add: ECSAdminLogin_def login_token_def Let_def case_prod_beta)

section \<open>Calls of several threads\<close>

text \<open>The port belongs to the connection, the saved one to the call. Calls may overlap: no lock is held.\<close>

datatype port_event = CallBegin nat | CallEnd nat

fun port_step :: "port_event \<Rightarrow> 16 word \<times> (nat \<Rightarrow> 16 word option) \<Rightarrow> 16 word \<times> (nat \<Rightarrow> 16 word option)" where
  "port_step (CallBegin t) (p, saved) = (4443, saved(t \<mapsto> p))"
| "port_step (CallEnd t) (p, saved) = (case saved t of None \<Rightarrow> (p, saved) | Some q \<Rightarrow> (q, saved(t := None)))"

definition port_run :: "port_event list \<Rightarrow> 16 word \<times> (nat \<Rightarrow> 16 word option) \<Rightarrow> 16 word \<times> (nat \<Rightarrow> 16 word option)" where
  "port_run evs st = foldl (\<lambda>st ev. port_step ev st) st evs"

fun caller :: "port_event \<Rightarrow> nat" where
  "caller (CallBegin t) = t"
| "caller (CallEnd t) = t"

inductive nested :: "port_event list \<Rightarrow> bool" where
  nested_Nil: "nested []"
| nested_call: "nested as \<Longrightarrow> nested bs \<Longrightarrow> t \<notin> caller ` set as \<Longrightarrow> nested (CallBegin t # as @ CallEnd t # bs)"

lemma nested_keeps: "nested evs \<Longrightarrow> fst (port_run evs (p, saved)) = p \<and> (\<forall>t. t \<notin> caller ` set evs \<longrightarrow> snd (port_run evs (p, saved)) t = saved t)"
proof (induction evs arbitrary: p saved rule: nested.induct)
  case (nested_call as bs t)
  obtain p1 s1 where 1: "port_run as (4443, saved(t \<mapsto> p)) = (p1, s1)" by fastforce
  have ih: "\<forall>u. u \<notin> caller ` set as \<longrightarrow> s1 u = (saved(t \<mapsto> p)) u"
    using nested_call.IH(1) [of 4443 "saved(t \<mapsto> p)"] unfolding 1 by simp
  then have s1: "s1 t = Some p" "\<forall>u. u \<notin> caller ` set as \<longrightarrow> u \<noteq> t \<longrightarrow> s1 u = saved u"
    using nested_call.hyps(3) by auto
  define s2 where "s2 = s1(t := None)"
  have "port_run (CallBegin t # as @ CallEnd t # bs) (p, saved) = port_run bs (p, s2)"
    using 1 s1(1) by (simp add: port_run_def s2_def)
  moreover have "\<forall>u. u \<notin> caller ` set as \<longrightarrow> u \<noteq> t \<longrightarrow> s2 u = saved u" using s1(2) by (simp add: s2_def)
  ultimately show ?case using nested_call.IH(2) [of p s2] by (auto simp: image_Un)
qed (simp add: port_run_def)

text \<open>Two calls that end in the order in which they began leave the connection at the port of the administration.\<close>

lemma overlap_loses_port:
  "fst (port_run [CallBegin 1, CallBegin 2, CallEnd 1, CallEnd 2] (443, Map.empty)) = 4443"
  by (simp add: port_run_def)

section \<open>What is read\<close>

lemma ScanNodes_never_fails:
  assumes cb: "\<And>ev c. \<not> FAILED (fst (cb ev c))"
  shows "fst (ScanNodes cb ns st c) = 0"
proof (induction ns arbitrary: st c)
  case (Cons n ns)
  have step: "fst (let (hr, c1) = cb ev c0 in if FAILED hr then (hr, c1) else f c1) = 0" if "\<And>c1. fst (f c1) = 0" for ev c0 f
    using cb [of ev c0] that by (auto split: prod.splits)
  show ?case
  proof (cases n)
    case (XnElement pfx ln e as)
    then show ?thesis using Cons by (cases e) (auto simp: Let_def intro!: step [unfolded Let_def])
  qed (use Cons in \<open>auto intro!: step [unfolded Let_def]\<close>)
qed simp

text \<open>The errors of a field are no failures: \<open>ScanXml\<close> goes on after them and reports none.\<close>

lemma bucket_field_not_failed:
  assumes "\<And>d. \<not> FAILED (fst (ParseISO8601Date denv d False))"
  shows "\<not> FAILED (fst (XmlECSBucketInfoCB denv ev info))"
proof -
  have d: "\<not> FAILED e" if "ParseISO8601Date denv x False = (e, ft)" for x e ft
    using assms [of x] that by simp
  have e: "\<not> FAILED ERROR_INVALID_DATA" "\<not> FAILED ERROR_XML_PARSE_ERROR"
    by (simp_all add: FAILED_def ERROR_INVALID_DATA_def ERROR_XML_PARSE_ERROR_def)
  show ?thesis
    by (auto simp: XmlECSBucketInfoCB_def ProcessXmlTextField_def e Let_def dest: d
        split: xml_event.split option.split E_XML_FIELD_TYPE.split prod.split)
qed

lemma bucket_scan_reports_no_error:
  assumes "\<And>d. \<not> FAILED (fst (ParseISO8601Date denv d False))"
  shows "fst (ScanXml (XmlECSBucketInfoCB denv) reader info) = 0"
  unfolding ScanXml_def by (rule ScanNodes_never_fails) (rule bucket_field_not_failed [OF assms])

text \<open>No two names of the table share a member.\<close>

lemma bucket_fields_distinct: "distinct (map fst bucket_info_fields)"
  by code_simp

lemma bucket_fields_apart:
  assumes "BucketInfoMap f = Some a" "BucketInfoMap g = Some b" "xf_uOffset a = xf_uOffset b"
  shows "f = g"
  using assms by (auto simp: BucketInfoMap_def in_set_enumerate_eq dest!: map_of_SomeD)

text \<open>The list of users of a document.\<close>

definition users_tree :: "(string \<times> string) list \<Rightarrow> xml_tree" where
  "users_tree us = elem ''users'' (map (\<lambda>(u, n). elem ''blobuser'' [text_elem ''userid'' u, text_elem ''namespace'' n]) us)"

lemma users_events:
  "list_all (\<lambda>(u, n). u \<noteq> []) us \<Longrightarrow>
   run_events XmlECSGetUsersCB (concat (map (tree_events [''users''] \<circ> (\<lambda>(u, n). elem ''blobuser'' [text_elem ''userid'' u, text_elem ''namespace'' n])) us))
     (l, user_Empty) = (0, (l @ map (\<lambda>(u, n). user_Empty\<lparr> au_sUser := u, au_sNamespace := n \<rparr>) us, user_Empty))"
proof (induction us arbitrary: l)
  case (Cons un us)
  obtain u n where un: "un = (u, n)" by force
  have "run_events XmlECSGetUsersCB (tree_events [''users''] (elem ''blobuser'' [text_elem ''userid'' u, text_elem ''namespace'' n])) (l, user_Empty)
      = (0, (l @ [user_Empty\<lparr> au_sUser := u, au_sNamespace := n \<rparr>], user_Empty))"
    using Cons.prems
    by (auto simp: un elem_def text_elem_def xml_name_def AttrList_def stack_path_def XmlECSGetUsersCB_def eq_nocase_length user_Empty_def Let_def)
  then show ?case using Cons un by (simp add: run_events_append)
qed simp

lemma users_read:
  assumes "list_all (\<lambda>(u, n). u \<noteq> []) us"
  shows "ScanXml XmlECSGetUsersCB (tree_nodes (users_tree us), hr) ([], user_Empty)
    = (0, (map (\<lambda>(u, n). user_Empty\<lparr> au_sUser := u, au_sNamespace := n \<rparr>) us, user_Empty))"
proof -
  have ev: "tree_events [] (users_tree us) = [XmlElement ''//users'' []]
      @ concat (map (tree_events [''users''] \<circ> (\<lambda>(u, n). elem ''blobuser'' [text_elem ''userid'' u, text_elem ''namespace'' n])) us)
      @ [XmlEndElement ''//users'']"
    by (simp add: users_tree_def elem_def xml_name_def AttrList_def stack_path_def comp_def)
  have e: "XmlECSGetUsersCB (XmlElement ''//users'' []) c = (0, c)" "XmlECSGetUsersCB (XmlEndElement ''//users'') c = (0, c)" for c
    by (auto simp: XmlECSGetUsersCB_def eq_nocase_length split: prod.split)
  show ?thesis unfolding ScanXml_tree ev run_events_append using users_events [OF assms, of "[]"] by (simp add: e)
qed

section \<open>Properties\<close>

text \<open>C39: Whatever the server answers, a call of the administration leaves the connection at the port and the other
  settings of before and the signature of requests on; the replication query keeps the settings too. The exception is a
  document that cannot be written: the call throws before the port is set back, and the connection stays at port 4443. This is
  about one call at a time on a connection: calls of two threads that overlap without being nested lose the port
  (\<open>overlap_loses_port\<close>).\<close>

theorem admin_calls_restore:
  "back_to s (snd (ECSAdminLogin env u pw s)) \<and> back_to s (snd (ECSAdminLogout env s))
   \<and> back_to s (snd (ECSAdminGetUserList env s)) \<and> back_to s (snd (ECSAdminGetKeysForUser env u ns keys s))
   \<and> back_to s (snd (ECSAdminBillingBucket env zero wcstod_times ns b s)) \<and> back_to s (snd (ECSAdminCapacity env s))
   \<and> back_to s (snd (ECSAdminBucketInfo env ns b s))
   \<and> (if ad_writes env (user_create_tree U) then back_to s (snd (ECSAdminCreateUser env U s))
      else cf_Port (am_Conf (snd (ECSAdminCreateUser env U s))) = 4443)
   \<and> (if ad_writes env (key_create_tree U) then back_to s (snd (ECSAdminCreateKeyForUser env U s))
      else cf_Port (am_Conf (snd (ECSAdminCreateKeyForUser env U s))) = 4443)
   \<and> am_Conf (snd (ECSDTQuery env ns b obj bShow rnd R s)) = am_Conf s"
proof -
  note restored = admin_exchange_back(1) [of s env]
  have 1: "back_to s (snd (ECSAdminLogin env u pw s))"
    using admin_exchange_back(1) [of "s\<lparr> am_sHTTPUser := u, am_sHTTPPassword := pw \<rparr>" env "''GET''" "''/login''" "\<lambda>_. []" NoBody]
    by (auto simp: ECSAdminLogin_def back_to_def Let_def case_prod_beta)
  have 2: "back_to s (snd (ECSAdminLogout env s))"
    using restored [of "''GET''" "''/logout''" token_header NoBody] by (auto simp: ECSAdminLogout_def back_to_def case_prod_beta)
  have 3: "back_to s (snd (ECSAdminGetUserList env s))" "back_to s (snd (ECSAdminGetKeysForUser env u ns keys s))"
    "back_to s (snd (ECSAdminBillingBucket env zero wcstod_times ns b s))" "back_to s (snd (ECSAdminCapacity env s))"
    "back_to s (snd (ECSAdminBucketInfo env ns b s))"
    using restored by (simp_all add: ECSAdminGetUserList_def ECSAdminGetKeysForUser_def ECSAdminBillingBucket_def
        ECSAdminCapacity_def ECSAdminBucketInfo_def Let_def case_prod_beta)
  have 4: "if ad_writes env doc then back_to s (snd (admin_put_user env res doc U s))
      else cf_Port (am_Conf (snd (admin_put_user env res doc U s))) = 4443" for res doc
    using admin_put_user_back [of env doc s res U] by (auto split: if_splits)
  have 5: "am_Conf (snd (ECSDTQuery env ns b obj bShow rnd R s)) = am_Conf s"
    by (simp add: ECSDTQuery_def Let_def case_prod_beta)
  show ?thesis using 1 2 3 4 5 unfolding ECSAdminCreateUser_def ECSAdminCreateKeyForUser_def by blast
qed

end
