(* ===== verification/Spec2Isabelle.thy ===== *)
theory Spec2Isabelle
  imports Prelude Buffer Stream Uri S3Errors ThreadPool PoolRuns Failover Xml Dates Listing Delete RWLock SharedQueue Multipart MpuUpload BucketConfig Acl Signing ChunkSend Sessions Throttle Callbacks Exchange Objects Workers MdSearch Admin
begin

text \<open>
ECSUtil, the client library for EMC ECS and other S3 object stores on Windows
  (src/ECSUtil). A program keeps a \<open>CECSConnection\<close> per host; its requests are headers and an
  optional body, signed, sent over pooled WinHTTP sessions to one of the addresses of the
  host, repeated on other addresses when they fail, and their XML answers scanned by callbacks. Bodies
  and answers may be streams: queues of buffers between threads. Uploads of files are cut into parts
  that a thread pool sends. The theories follow this structure, from the bottom up; a definition has
  the name of the function, type or member it models, and every theory names its source files.

  \<^bold>\<open>Basics.\<close>
  \<open>Prelude\<close>: words for the Windows integers, errors as sums with the error on the left, C strings
  (find, trim, case folding, decimal numbers).
  \<open>Buffer\<close> (cbuffer.h, cbuffer.cpp): the reference counted \<open>CBuffer\<close> over an explicit heap of
  blocks, with copy on write, locked buffers and reallocation; \<open>Stream\<close> (XmlLiteUtil.h, XmlLiteUtil.cpp):
  the COM stream over it. Shown: each operation that meets its obligations (lengths that do not wrap, no buffer
  appended to itself; 64-bit \<open>SIZE_T\<close>) refines its effect on the contents, a variable is not
  changed by operations on others, no access leaves a block, a stream reads back what was written; what
  goes wrong otherwise is stated beside them.
  \<open>Uri\<close> (UriUtils), \<open>S3Errors\<close> (S3Error.h, S3Error.cpp, \<open>S3_ERROR\<close> in ECSConnection.h), \<open>Xml\<close>
  (\<open>ScanXml\<close>, \<open>ProcessXmlTextField\<close>), \<open>Dates\<close> (ISO 8601): encoders and decoders with their round
  trips, and \<open>ScanXml\<close> as the traversal of the document.

  \<^bold>\<open>Threads.\<close>
  \<open>RWLock\<close> (CRWLock.h, CRWLock.cpp): locks that a thread may take again, over SRWLOCKs;
  \<open>SharedQueue\<close> (CSharedQueue.h, CSharedQueue.cpp): queues that trigger events;
  \<open>ThreadPool\<close> and \<open>PoolRuns\<close> (ThreadPool.h): the pool as a step relation whose steps are the critical
  sections (a transfer of delayed messages is three: scan, send and removal, of any number of threads),
  with invariants of all runs: nothing is lost, and nothing is queued twice but by transfers
  that overlap; priority, order of arrival and groups are kept.

  \<^bold>\<open>Requests\<close> (ECSConnection.h, ECSConnection.cpp).
  \<open>Failover\<close>: \<open>SendRequest\<close> with its retries and the map of bad addresses;
  \<open>Signing\<close> and \<open>ChunkSend\<close>: signatures of both versions, the stored signing key, signed chunks
  of streams; \<open>Sessions\<close>: the session map, the states of threads and the setters that retire sessions, whose
  assignments and calls are steps between those of other threads;
  \<open>Throttle\<close>: the rates of hosts and the timer that refills them; \<open>Callbacks\<close>: asynchronous WinHTTP
  commands, the callback and the waits for it; \<open>Exchange\<close>: one exchange (\<open>SendRequestInternal\<close> after
  the signature), its authentication, headers, data and errors.

  \<^bold>\<open>Operations\<close> (ECSConnection.cpp, FileSupport.cpp).
  \<open>Listing\<close>: folder listings page by page; \<open>Delete\<close>: deleting folders in batches; \<open>Multipart\<close> and
  \<open>MpuUpload\<close>: multipart requests and the upload manager, a state machine of the manager and the threads;
  \<open>BucketConfig\<close>: buckets, versioning, object lock, lifecycle; \<open>Acl\<close>: access control lists;
  \<open>Objects\<close>: creating, reading, copying, renaming objects and their metadata;
  \<open>MdSearch\<close>: the metadata search, its query and its pages; \<open>Admin\<close>: the calls of the administration on a
  port of their own, and the queries of replication, endpoints and properties;
  \<open>Workers\<close> (SimpleWorkerThread.h, SimpleWorkerThread.cpp): the life of worker threads.

  \<^bold>\<open>What the lemmas show.\<close> Each theory has the functional behaviour of its operations on every
  branch, errors included, an invariant where there is state, and ends with its properties and the
  witnesses that apply them to concrete inputs. The interfaces between components are locales
  (\<open>byte_store\<close> in \<open>Buffer\<close>, \<open>uri_decoder\<close> in \<open>Uri\<close>, \<open>stable_priority_queue\<close> in \<open>ThreadPool\<close>),
  interpreted on the definitions of the model.

  \<^bold>\<open>Parameters.\<close> Code that is not in src/ is an argument of the model: the Windows heap, SRWLOCKs,
  WinHTTP calls and the order of its callbacks, BCrypt hashes, the XmlLite reader, the date
  conversions and WSDUriDecode. What the code relies on are named hypotheses (\<open>srw_documented\<close>,
  \<open>hashes_ok\<close>, \<open>writes_ok\<close>, \<open>reads_ok\<close>, \<open>prompt\<close>, ...), each shown satisfiable by a witness. The XML
  writer is the tree it is asked for. Strings are lists of bytes (UTF-8).

  \<^bold>\<open>Bounds and fuel.\<close> Sizes, offsets, ticks and counters have the width of the code, so that their overflow is in
  the model; where a theorem needs room it is a hypothesis. Loops that may not end are partial
  functions (\<open>stream_loop\<close>, \<open>WaitComplete_loop\<close>, \<open>throttle_wait\<close>, \<open>recv_loop\<close>, ...), whose return is a theorem of its own
  or follows from what the other side does. Fuel is used in two places: the pages of a listing (enough: the number of
  pages, theorem \<open>DirListing_collects_pages\<close>), and the depth of folders in \<open>DeleteS3\<close> (enough: the rank of the paths,
  theorem \<open>DeleteS3_returns\<close>); \<open>wait_loop\<close> of the queues counts waits.

  \<^bold>\<open>Not modelled.\<close> Wrappers of Windows interfaces without logic of their own (CngAES_GCM, NTERRTXT,
  libhandle, dyndll, splitpath, StringPassword, widestring, Logging, GetAllThreads, ProcessEvent), since
  every statement would be about the Windows call; locale dependent number formats (fmtnum.cpp); the file and pipe adapters of FileSupport.cpp; the
  certificate and security information of a connection; debug output; the test program S3Test. In the modelled parts:
  performance counters, log output and assertions (release builds) have no effect.
\<close>

end
